(* ===== verification/Prelude.thy ===== *)
theory Prelude imports "HOL-Library.Word" "HOL-Library.Monad_Syntax" begin

text \<open>
  Shared vocabulary of the development: the machine integer types of
  \<^verbatim>\<open>src/student-distrib/types.h\<close>, checked access to C arrays, byte slices, and the
  arithmetic of 4 KB blocks and little-endian words that several components use.

  A C function that may leave defined behaviour (an index outside its array) or may not
  return (a polling loop) is a function into \<open>option\<close>: \<open>None\<close> says that the code has no
  defined result. The \<open>do\<close> notation of \<open>Monad_Syntax\<close> sequences such calls. Error codes are
  ordinary values: \<open>int32_t\<close> and \<open>uint32_t\<close> are both 32-bit words, so that the casts between
  them that the code makes silently are the identity, and a signed comparison is written
  with \<open>sint\<close>.
\<close>

unbundle bit_operations_syntax

type_synonym u8 = "8 word"
type_synonym u16 = "16 word"
type_synonym u32 = "32 word"
type_synonym i32 = "32 word"

named_theorems checked_simps \<open>evaluation of checked array accesses inside their bounds\<close>
named_theorems block_simps \<open>4 KB block arithmetic read as natural numbers\<close>

section \<open>Checked access to arrays\<close>

definition nth_opt :: "'a list \<Rightarrow> nat \<Rightarrow> 'a option" where
  "nth_opt xs i = (if i < length xs then Some (xs ! i) else None)"

definition upd_opt :: "'a list \<Rightarrow> nat \<Rightarrow> 'a \<Rightarrow> 'a list option" where
  "upd_opt xs i v = (if i < length xs then Some (xs[i := v]) else None)"

text \<open>\<open>slice_opt xs off n\<close> is what \<^verbatim>\<open>memcpy(_, xs + off, n)\<close> reads, \<open>blit_opt xs off ys\<close> what
  \<^verbatim>\<open>memcpy(xs + off, ys, length ys)\<close> leaves in \<open>xs\<close>. Copying no byte touches nothing.\<close>

definition slice_opt :: "'a list \<Rightarrow> nat \<Rightarrow> nat \<Rightarrow> 'a list option" where
  "slice_opt xs off n = (if off + n \<le> length xs then Some (take n (drop off xs)) else None)"

definition blit_opt :: "'a list \<Rightarrow> nat \<Rightarrow> 'a list \<Rightarrow> 'a list option" where
  "blit_opt xs off ys =
     (if off + length ys \<le> length xs
      then Some (take off xs @ ys @ drop (off + length ys) xs) else None)"

lemma nth_opt_Some [checked_simps]: "i < length xs \<Longrightarrow> nth_opt xs i = Some (xs ! i)"
  by (simp add: nth_opt_def)

lemma nth_opt_None [checked_simps]: "length xs \<le> i \<Longrightarrow> nth_opt xs i = None"
  by (simp add: nth_opt_def)

lemma nth_opt_eq_Some [iff]: "nth_opt xs i = Some v \<longleftrightarrow> i < length xs \<and> v = xs ! i"
  by (auto simp: nth_opt_def)

lemma upd_opt_Some [checked_simps]: "i < length xs \<Longrightarrow> upd_opt xs i v = Some (xs[i := v])"
  by (simp add: upd_opt_def)

lemma upd_opt_eq_Some [iff]: "upd_opt xs i v = Some ys \<longleftrightarrow> i < length xs \<and> ys = xs[i := v]"
  by (auto simp: upd_opt_def)

lemma slice_opt_Some [checked_simps]:
  "off + n \<le> length xs \<Longrightarrow> slice_opt xs off n = Some (take n (drop off xs))"
  by (simp add: slice_opt_def)

lemma slice_opt_eq_Some [iff]:
  "slice_opt xs off n = Some ys \<longleftrightarrow> off + n \<le> length xs \<and> ys = take n (drop off xs)"
  by (auto simp: slice_opt_def)

lemma length_slice: "off + n \<le> length xs \<Longrightarrow> length (take n (drop off xs)) = n"
  by simp

lemma blit_opt_Some [checked_simps]:
  "off + length ys \<le> length xs \<Longrightarrow>
   blit_opt xs off ys = Some (take off xs @ ys @ drop (off + length ys) xs)"
  by (simp add: blit_opt_def)

lemma blit_opt_eq_Some [iff]:
  "blit_opt xs off ys = Some zs \<longleftrightarrow>
     off + length ys \<le> length xs \<and> zs = take off xs @ ys @ drop (off + length ys) xs"
  by (auto simp: blit_opt_def)

lemma length_blit: "blit_opt xs off ys = Some zs \<Longrightarrow> length zs = length xs"
  by auto

text \<open>Reading back what was just copied.\<close>

lemma slice_blit_same: "blit_opt xs off ys = Some zs \<Longrightarrow> slice_opt zs off (length ys) = Some ys"
  by auto

section \<open>Block arithmetic\<close>

abbreviation BLK :: nat where "BLK \<equiv> 4096"

lemma and_4095_take_bit: "(w :: u32) AND 4095 = take_bit 12 w"
  by (simp add: take_bit_eq_mask mask_eq_exp_minus_1)

lemma unat_and_4095 [block_simps]: "unat ((w :: u32) AND 4095) = unat w mod BLK"
  by (simp add: and_4095_take_bit unsigned_take_bit_eq) (simp add: take_bit_nat_def)

lemma unat_drop_12 [block_simps]: "unat (drop_bit 12 (w :: u32)) = unat w div BLK"
  by (subst unat_drop_bit_eq) (simp add: drop_bit_nat_def)

lemma word_split_mask: "(w AND NOT m) + (w AND m) = (w :: 'a::len word)"
proof -
  have "(w AND NOT m) AND (w AND m) = 0"
    by (rule bit_word_eqI) (auto simp: bit_simps)
  moreover have "(w AND NOT m) OR (w AND m) = w"
    by (rule bit_word_eqI) (auto simp: bit_simps)
  ultimately show ?thesis
    using word_plus_and_or [of "w AND NOT m" "w AND m"] by simp
qed

lemma and_not_4095: "(w :: u32) AND NOT 4095 = 0 \<longleftrightarrow> unat w < BLK"
proof -
  have "w AND NOT 4095 = 0 \<longleftrightarrow> w AND 4095 = w"
    using word_split_mask [of w 4095] by (metis add_0 add_cancel_left_left)
  also have "\<dots> \<longleftrightarrow> unat w mod BLK = unat w"
    by (metis unat_and_4095 unsigned_word_eqI)
  also have "\<dots> \<longleftrightarrow> unat w < BLK"
    by (metis mod_less mod_less_divisor zero_less_numeral)
  finally show ?thesis .
qed

lemma and_neg_4096 [block_simps]: "(w :: u32) AND - 4096 = 0 \<longleftrightarrow> unat w < BLK"
  using and_not_4095 [of w] by simp

lemma unat_minus_4096 [block_simps]:
  "BLK \<le> unat (w :: u32) \<Longrightarrow> unat (w - 4096) = unat w - BLK"
  by (simp add: unat_sub word_le_nat_alt)

section \<open>32-bit words as natural numbers\<close>

lemma unat_u32_less: "unat (w :: u32) < 2 ^ 32"
  using unsigned_less [of w] by simp

lemma unat_u32_small [simp]: "unat (1 :: u32) = 1" "unat (2 :: u32) = 2" "unat (3 :: u32) = 3" "unat (4 :: u32) = 4"
  by simp_all

lemma unat_sub_wrap:
  "unat (x - k :: u32) = (if unat k \<le> unat x then unat x - unat k else unat x + 2 ^ 32 - unat k)"
  by (simp add: unat_sub_if')

lemma unat_neg_one: "unat (-1 :: u32) = 2 ^ 32 - 1"
  using unat_sub_wrap [of 0 1] by simp

text \<open>The signed reading of a word.\<close>

lemma sint_small: "n < 2 ^ 31 \<Longrightarrow> sint (of_nat n :: i32) = int n"
  by (simp add: signed_of_nat signed_take_bit_int_eq_self)

lemma unat_of_sint: "0 \<le> sint (w :: i32) \<Longrightarrow> int (unat w) = sint w"
proof -
  assume w: "0 \<le> sint w"
  have "sint w < 2 ^ 31" using sint_lt [of w] by simp
  then have "uint w = sint w" using w by (simp add: uint_sint take_bit_int_eq_self)
  then show ?thesis by simp
qed

lemma unat_neg_sint: "sint (v :: i32) < 0 \<Longrightarrow> int (unat (- v)) = - sint v"
proof -
  assume v: "sint v < 0"
  have b: "- (2 ^ 31) \<le> sint v" using sint_ge [of v] by simp
  have "- v = word_of_int (- sint v)" by simp
  then have "uint (- v) = take_bit 32 (- sint v)" by (simp only: uint_word_of_int_eq) simp
  also have "\<dots> = - sint v" using v b by (intro take_bit_int_eq_self) auto
  finally show ?thesis by simp
qed

text \<open>Low bits: masks and shifts by a power of two.\<close>

lemma and_3_take_bit: "(w :: u32) AND 3 = take_bit 2 w"
  by (simp add: take_bit_eq_mask mask_eq_exp_minus_1)

lemma and_FF_take_bit: "(w :: u32) AND 0xFF = take_bit 8 w"
  by (simp add: take_bit_eq_mask mask_eq_exp_minus_1)

lemma and_FF_ucast: "(w :: u32) AND 0xFF = ucast (ucast w :: u8)"
  unfolding and_FF_take_bit by (rule bit_word_eqI) (auto simp: bit_simps)

lemma unat_and_3: "unat ((w :: u32) AND 3) = unat w mod 4"
  by (simp add: and_3_take_bit unsigned_take_bit_eq) (simp add: take_bit_nat_def)

lemma unat_drop_2: "unat (drop_bit 2 (w :: u32)) = unat w div 4"
  by (subst unat_drop_bit_eq) (simp add: drop_bit_nat_def)

section \<open>Widening casts lose nothing\<close>

lemma ucast_up_down [simp]:
  "ucast (ucast (b :: u8) :: u32) = b" "ucast (ucast (h :: u16) :: u32) = h"
  "ucast (ucast (b :: u8) :: u16) = b"
  by (rule bit_word_eqI, auto simp: bit_simps)+

section \<open>Loops over a list of rounds\<close>

fun for_opt :: "('a \<Rightarrow> 's \<Rightarrow> 's option) \<Rightarrow> 'a list \<Rightarrow> 's \<Rightarrow> 's option" where
  "for_opt f [] s = Some s"
| "for_opt f (x # xs) s = do { s \<leftarrow> f x s; for_opt f xs s }"

lemma for_opt_append: "for_opt f (xs @ ys) s = do { s \<leftarrow> for_opt f xs s; for_opt f ys s }"
proof (induction xs arbitrary: s)
  case (Cons x xs)
  then show ?case by (cases "f x s") simp_all
qed simp

text \<open>A loop whose rounds all succeed from the states it passes through.\<close>

lemma for_opt_steps:
  assumes "\<And>k. k < n \<Longrightarrow> f k (g k) = Some (g (Suc k))"
  shows "for_opt f [0..<n] (g 0) = Some (g n)"
  using assms by (induction n) (simp_all add: for_opt_append)

lemma for_opt_invariant:
  assumes "\<And>x s s'. x \<in> set xs \<Longrightarrow> I s \<Longrightarrow> f x s = Some s' \<Longrightarrow> I s'"
  shows "I s \<Longrightarrow> for_opt f xs s = Some s' \<Longrightarrow> I s'"
  using assms by (induction xs arbitrary: s) (auto simp: bind_eq_Some_conv)

end
