(* ===== verification/Bytes.thy ===== *)
theory Bytes imports Prelude begin

text \<open>
  Little-endian encoding of the fixed-width integers the kernel reads and writes through casts
  (\<^verbatim>\<open>*(uint16_t *)buf\<close>, \<^verbatim>\<open>(uint8_t *)&magic\<close>, the on-disk structures of
  \<^verbatim>\<open>src/student-distrib/filesys.h\<close>), with the round trips in both directions.
\<close>

definition le16 :: "u16 \<Rightarrow> u8 list" where
  "le16 w = [ucast w, ucast (drop_bit 8 w)]"

definition le32 :: "u32 \<Rightarrow> u8 list" where
  "le32 w = [ucast w, ucast (drop_bit 8 w), ucast (drop_bit 16 w), ucast (drop_bit 24 w)]"

definition of_le16 :: "u8 list \<Rightarrow> u16" where
  "of_le16 bs = ucast (bs ! 0) OR push_bit 8 (ucast (bs ! 1))"

definition of_le32 :: "u8 list \<Rightarrow> u32" where
  "of_le32 bs = ucast (bs ! 0) OR push_bit 8 (ucast (bs ! 1))
     OR push_bit 16 (ucast (bs ! 2)) OR push_bit 24 (ucast (bs ! 3))"

lemma length_le [simp]: "length (le16 v) = 2" "length (le32 w) = 4"
  by (simp_all add: le16_def le32_def)

lemma of_le16_le16 [simp]: "of_le16 (le16 w) = w"
  by (rule bit_word_eqI) (auto simp: of_le16_def le16_def bit_simps)

lemma of_le32_le32 [simp]: "of_le32 (le32 w) = w"
proof (rule bit_word_eqI)
  fix n assume "n < LENGTH(32)"
  then consider "n < 8" | "8 \<le> n" "n < 16" | "16 \<le> n" "n < 24" | "24 \<le> n" "n < 32"
    by fastforce
  then show "bit (of_le32 (le32 w)) n = bit w n"
    by cases (auto simp: of_le32_def le32_def bit_simps)
qed

lemma bit_u8_beyond: "8 \<le> n \<Longrightarrow> \<not> bit (a :: u8) n"
  by (auto dest: bit_imp_le_length)

lemma bit_u8_shifted [simp]: "\<not> bit (a :: u8) (8 + n)" "\<not> bit (a :: u8) (16 + n)"
  "\<not> bit (a :: u8) (24 + n)"
  by (simp_all add: bit_u8_beyond)

lemma of_le32_byte:
  "ucast (of_le32 [a, b, c, d]) = a" "ucast (drop_bit 8 (of_le32 [a, b, c, d])) = b"
  "ucast (drop_bit 16 (of_le32 [a, b, c, d])) = c" "ucast (drop_bit 24 (of_le32 [a, b, c, d])) = d"
  by (rule bit_word_eqI, force simp: of_le32_def bit_simps bit_u8_beyond)+

lemma le32_of_le32:
  assumes "length bs = 4" shows "le32 (of_le32 bs) = bs"
proof -
  obtain a b c d where "bs = [a, b, c, d]"
    using assms by (auto simp: numeral_eq_Suc length_Suc_conv)
  then show ?thesis by (simp add: le32_def of_le32_byte)
qed

lemma le32_inject [simp]: "le32 v = le32 w \<longleftrightarrow> v = w"
  by (metis of_le32_le32)

text \<open>A byte list as the 16-bit words a port driver transfers, and back.\<close>

fun le16s :: "u8 list \<Rightarrow> u16 list" where
  "le16s (a # b # bs) = of_le16 [a, b] # le16s bs"
| "le16s _ = []"

lemma le16s_append:
  "even (length xs) \<Longrightarrow> le16s (xs @ ys) = le16s xs @ le16s ys"
  by (induction xs rule: le16s.induct) auto

lemma of_le16_byte:
  "ucast (of_le16 [a, b]) = a" "ucast (drop_bit 8 (of_le16 [a, b])) = b"
  by (rule bit_word_eqI, force simp: of_le16_def bit_simps bit_u8_beyond)+

lemma le16_of_le16: "le16 (of_le16 [a, b]) = [a, b]"
  by (simp add: le16_def of_le16_byte)

lemma concat_le16s: "even (length bs) \<Longrightarrow> concat (map le16 (le16s bs)) = bs"
  by (induction bs rule: le16s.induct) (auto simp: le16_of_le16)

end
