(* ===== verification/CMem.thy ===== *)
theory CMem imports Bytes begin

text \<open>
  The memory routines of \<^verbatim>\<open>src/student-distrib/lib.c\<close> (\<^verbatim>\<open>memset\<close>, \<^verbatim>\<open>memset_word\<close>,
  \<^verbatim>\<open>memset_dword\<close>, \<^verbatim>\<open>memcpy\<close>, \<^verbatim>\<open>memmove\<close>), instruction loop by instruction loop, over a flat
  memory of 2^32 bytes: a byte loop up to the first aligned destination address, a string
  instruction over dwords, and a byte loop over the rest. Each routine is shown equal to its
  mathematical effect on memory. Addresses wrap around as the 32-bit registers do.
\<close>

type_synonym mem = "u32 \<Rightarrow> u8"

section \<open>Stores and string instructions\<close>

definition store16 :: "u32 \<Rightarrow> u16 \<Rightarrow> mem \<Rightarrow> mem" where
  "store16 a w m = m(a := ucast w, a + 1 := ucast (drop_bit 8 w))"

definition store32 :: "u32 \<Rightarrow> u32 \<Rightarrow> mem \<Rightarrow> mem" where
  "store32 a w m = m(a := ucast w, a + 1 := ucast (drop_bit 8 w),
     a + 2 := ucast (drop_bit 16 w), a + 3 := ucast (drop_bit 24 w))"

definition load32 :: "u32 \<Rightarrow> mem \<Rightarrow> u32" where
  "load32 a m = of_le32 [m a, m (a + 1), m (a + 2), m (a + 3)]"

text \<open>\<open>rep stos\<close> and \<open>rep movs\<close> with the direction flag clear, for a count in \<^verbatim>\<open>ecx\<close>; the byte loops
  of the assembly are \<open>rep\<close> instructions on bytes.\<close>

fun rep_stosb :: "nat \<Rightarrow> u8 \<Rightarrow> u32 \<Rightarrow> mem \<Rightarrow> mem" where
  "rep_stosb 0 al edi m = m"
| "rep_stosb (Suc n) al edi m = rep_stosb n al (edi + 1) (m(edi := al))"

fun rep_stosw :: "nat \<Rightarrow> u16 \<Rightarrow> u32 \<Rightarrow> mem \<Rightarrow> mem" where
  "rep_stosw 0 ax edi m = m"
| "rep_stosw (Suc n) ax edi m = rep_stosw n ax (edi + 2) (store16 edi ax m)"

fun rep_stosl :: "nat \<Rightarrow> u32 \<Rightarrow> u32 \<Rightarrow> mem \<Rightarrow> mem" where
  "rep_stosl 0 eax edi m = m"
| "rep_stosl (Suc n) eax edi m = rep_stosl n eax (edi + 4) (store32 edi eax m)"

fun rep_movsb :: "nat \<Rightarrow> u32 \<Rightarrow> u32 \<Rightarrow> mem \<Rightarrow> mem" where
  "rep_movsb 0 edi esi m = m"
| "rep_movsb (Suc n) edi esi m = rep_movsb n (edi + 1) (esi + 1) (m(edi := m esi))"

fun rep_movsl :: "nat \<Rightarrow> u32 \<Rightarrow> u32 \<Rightarrow> mem \<Rightarrow> mem" where
  "rep_movsl 0 edi esi m = m"
| "rep_movsl (Suc n) edi esi m = rep_movsl n (edi + 4) (esi + 4) (store32 edi (load32 esi m) m)"

text \<open>The same with the direction flag set.\<close>

fun rep_movsb_down :: "nat \<Rightarrow> u32 \<Rightarrow> u32 \<Rightarrow> mem \<Rightarrow> mem" where
  "rep_movsb_down 0 edi esi m = m"
| "rep_movsb_down (Suc n) edi esi m = rep_movsb_down n (edi - 1) (esi - 1) (m(edi := m esi))"

section \<open>The routines\<close>

function memset_top :: "u32 \<Rightarrow> u32 \<Rightarrow> u32 \<Rightarrow> mem \<Rightarrow> mem" where
  "memset_top eax edi ecx m =
     (if ecx = 0 then m
      else if edi AND 3 = 0 then
        let edx = ecx;
            n = drop_bit 2 ecx;
            edx = edx AND 3;
            m = rep_stosl (unat n) eax edi m
        in rep_stosb (unat edx) (ucast eax) (edi + 4 * n) m
      else memset_top eax (edi + 1) (ecx - 1) (m(edi := ucast eax)))"
  by pat_completeness auto
termination
  by (relation "measure (\<lambda>(eax, edi, ecx, m). unat ecx)") (auto simp: unat_gt_0 unat_minus_one)

declare memset_top.simps [simp del]

definition memset :: "u32 \<Rightarrow> i32 \<Rightarrow> u32 \<Rightarrow> mem \<Rightarrow> mem" where
  "memset s c n m =
     (let c = c AND 0xFF
      in memset_top (push_bit 24 c OR push_bit 16 c OR push_bit 8 c OR c) s n m)"

definition memset_word :: "u32 \<Rightarrow> i32 \<Rightarrow> u32 \<Rightarrow> mem \<Rightarrow> mem" where
  "memset_word s c n m = rep_stosw (unat n) (ucast c) s m"

definition memset_dword :: "u32 \<Rightarrow> i32 \<Rightarrow> u32 \<Rightarrow> mem \<Rightarrow> mem" where
  "memset_dword s c n m = rep_stosl (unat n) c s m"

function memcpy_top :: "u32 \<Rightarrow> u32 \<Rightarrow> u32 \<Rightarrow> mem \<Rightarrow> mem" where
  "memcpy_top edi esi ecx m =
     (if ecx = 0 then m
      else if edi AND 3 = 0 then
        let edx = ecx;
            n = drop_bit 2 ecx;
            edx = edx AND 3;
            m = rep_movsl (unat n) edi esi m
        in rep_movsb (unat edx) (edi + 4 * n) (esi + 4 * n) m
      else memcpy_top (edi + 1) (esi + 1) (ecx - 1) (m(edi := m esi)))"
  by pat_completeness auto
termination
  by (relation "measure (\<lambda>(edi, esi, ecx, m). unat ecx)") (auto simp: unat_gt_0 unat_minus_one)

declare memcpy_top.simps [simp del]

definition memcpy :: "u32 \<Rightarrow> u32 \<Rightarrow> u32 \<Rightarrow> mem \<Rightarrow> mem" where
  "memcpy dest src n m = memcpy_top dest src n m"

text \<open>\<^verbatim>\<open>memmove\<close> returns with the direction flag set when it copied downwards: the second
  component.\<close>

definition memmove :: "u32 \<Rightarrow> u32 \<Rightarrow> u32 \<Rightarrow> mem \<Rightarrow> mem \<times> bool" where
  "memmove dest src n m =
     (if src \<ge> dest then (rep_movsb (unat n) dest src m, False)
      else (rep_movsb_down (unat n) (dest + n - 1) (src + n - 1) m, True))"

section \<open>Effects\<close>

text \<open>\<open>filled\<close> and \<open>copied\<close> are the memory after filling and after copying \<open>n\<close> bytes.\<close>

definition filled :: "u32 \<Rightarrow> nat \<Rightarrow> u8 \<Rightarrow> mem \<Rightarrow> mem" where
  "filled s n b m = (\<lambda>a. if unat (a - s) < n then b else m a)"

definition copied :: "u32 \<Rightarrow> u32 \<Rightarrow> nat \<Rightarrow> mem \<Rightarrow> mem" where
  "copied d s n m = (\<lambda>a. if unat (a - d) < n then m (s + (a - d)) else m a)"

definition disjoint_ranges :: "u32 \<Rightarrow> u32 \<Rightarrow> nat \<Rightarrow> bool" where
  "disjoint_ranges d s n \<longleftrightarrow> (\<forall>i < n. \<forall>j < n. d + of_nat i \<noteq> s + of_nat j)"

text \<open>An address is in the range of \<open>k + n\<close> bytes from \<open>s\<close> exactly when it is among the first \<open>k\<close> or in
  the range of \<open>n\<close> bytes from \<open>s + k\<close>.\<close>

lemma range_split:
  fixes a s k :: u32
  assumes "unat k + n \<le> 2 ^ 32"
  shows "unat (a - s) < unat k + n \<longleftrightarrow> unat (a - s) < unat k \<or> unat (a - (s + k)) < n"
    and "unat (a - (s + k)) < n \<Longrightarrow> \<not> unat (a - s) < unat k"
proof -
  have "a - (s + k) = (a - s) - k" by simp
  then have *: "unat (a - (s + k)) = (if unat k \<le> unat (a - s) then unat (a - s) - unat k
      else unat (a - s) + 2 ^ 32 - unat k)"
    by (simp only: unat_sub_wrap)
  have "unat k < 2 ^ 32" using unat_u32_less [of k] by simp
  then show "unat (a - s) < unat k + n \<longleftrightarrow> unat (a - s) < unat k \<or> unat (a - (s + k)) < n"
    using assms unfolding * by auto
  show "unat (a - (s + k)) < n \<Longrightarrow> \<not> unat (a - s) < unat k"
    using assms \<open>unat k < 2 ^ 32\<close> unfolding * by (auto split: if_splits)
qed

lemma unat_less_small: "unat (x :: u32) < 1 \<longleftrightarrow> x = 0" "unat (x :: u32) < 2 \<longleftrightarrow> x = 0 \<or> x = 1"
  "unat (x :: u32) < 4 \<longleftrightarrow> x = 0 \<or> x = 1 \<or> x = 2 \<or> x = 3"
proof -
  have of_unat: "unat x = k \<longleftrightarrow> x = of_nat k" if "k < 4" for k
    using that by (auto simp: unat_of_nat intro: word_unat_eq_iff [THEN iffD2])
  have "unat x < 4 \<longleftrightarrow> unat x = 0 \<or> unat x = 1 \<or> unat x = 2 \<or> unat x = 3" by auto
  then show "unat x < 4 \<longleftrightarrow> x = 0 \<or> x = 1 \<or> x = 2 \<or> x = 3" by (simp add: of_unat)
  have "unat x < 2 \<longleftrightarrow> unat x = 0 \<or> unat x = 1" by auto
  then show "unat x < 2 \<longleftrightarrow> x = 0 \<or> x = 1" by (simp add: of_unat)
  show "unat x < 1 \<longleftrightarrow> x = 0" by (simp add: unat_eq_0)
qed

lemma filled_filled:
  "unat k + n \<le> 2 ^ 32 \<Longrightarrow> filled (s + k) n b (filled s (unat k) b m) = filled s (unat k + n) b m"
  using range_split(1) [of k n] by (auto simp: filled_def fun_eq_iff)

lemma filled_1: "m(s := b) = filled s 1 b m"
  using unat_less_small(1) by (auto simp: filled_def fun_eq_iff)

lemma filled_Suc: "Suc n \<le> 2 ^ 32 \<Longrightarrow> filled (s + 1) n b (m(s := b)) = filled s (Suc n) b m"
  using filled_filled [of 1 n s b m] by (simp add: filled_1)

lemma rep_stosb_filled: "n \<le> 2 ^ 32 \<Longrightarrow> rep_stosb n b s m = filled s n b m"
proof (induction n arbitrary: s m)
  case 0
  then show ?case by (simp add: filled_def)
next
  case (Suc n)
  then show ?case using filled_Suc [of n s b m] by simp
qed

text \<open>A dword whose four bytes are \<open>b\<close>.\<close>

abbreviation dword_of :: "u8 \<Rightarrow> u32" where
  "dword_of b \<equiv> of_le32 [b, b, b, b]"

lemma store32_filled: "store32 s (dword_of b) m = filled s 4 b m"
proof
  fix a :: u32
  have "a - s = c \<longleftrightarrow> a = s + c" for c by (metis add.commute add_diff_cancel_left' diff_add_cancel)
  then show "store32 s (dword_of b) m a = filled s 4 b m a"
    by (auto simp: store32_def filled_def unat_less_small of_le32_byte)
qed

lemma rep_stosl_filled:
  "4 * n \<le> 2 ^ 32 \<Longrightarrow> rep_stosl n (dword_of b) s m = filled s (4 * n) b m"
proof (induction n arbitrary: s m)
  case 0
  then show ?case by (simp add: filled_def)
next
  case (Suc n)
  then show ?case
    using filled_filled [of 4 "4 * n" s b m] by (simp add: store32_filled)
qed

lemma unat_mul_4: "unat (4 * drop_bit 2 (w :: u32)) = 4 * (unat w div 4)"
proof -
  have "4 * (unat w div 4) < 2 ^ 32"
    using unat_u32_less [of w] by (simp add: le_less_trans [OF times_div_less_eq_dividend])
  then show ?thesis by (simp add: unat_word_ariths unat_drop_2)
qed

lemma memset_top_filled: "memset_top (dword_of b) s n m = filled s (unat n) b m"
proof (induction "dword_of b" s n m rule: memset_top.induct)
  case (1 s n m)
  note unf = memset_top.simps [of "dword_of b" s n m]
  show ?case
  proof (cases "n = 0 \<or> s AND 3 = 0")
    case False
    then have "memset_top (dword_of b) (s + 1) (n - 1) (m(s := b))
        = filled (s + 1) (unat (n - 1)) b (m(s := b))"
      using "1.hyps" by (simp add: of_le32_byte)
    also have "\<dots> = filled s (unat n) b m"
      using False filled_Suc [of "unat (n - 1)" s b m] unat_u32_less [of n]
      by (simp add: unat_minus_one unat_gt_0)
    finally show ?thesis using False by (subst unf) (simp add: of_le32_byte)
  next
    case True
    have le: "unat (4 * drop_bit 2 n) + unat (n AND 3) = unat n"
      by (simp add: unat_mul_4 unat_and_3)
    have "4 * unat (drop_bit 2 n) \<le> 2 ^ 32" "unat (n AND 3) \<le> 2 ^ 32"
      using unat_u32_less [of n] le by (simp_all add: unat_drop_2 unat_mul_4)
    moreover have "filled (s + 4 * drop_bit 2 n) (unat (n AND 3)) b
        (filled s (unat (4 * drop_bit 2 n)) b m) = filled s (unat n) b m"
      using filled_filled [of "4 * drop_bit 2 n" "unat (n AND 3)" s b m] unat_u32_less [of n] le by simp
    ultimately show ?thesis
      using True
      by (subst unf) (auto simp: Let_def rep_stosl_filled rep_stosb_filled of_le32_byte
          unat_mul_4 unat_drop_2 filled_def)
  qed
qed

lemma memset_fill: "memset s c n m = filled s (unat n) (ucast c) m"
proof -
  let ?b = "ucast c :: u8"
  have c: "c AND 0xFF = ucast ?b" by (rule and_FF_ucast)
  have "push_bit 24 (ucast ?b) OR push_bit 16 (ucast ?b) OR push_bit 8 (ucast ?b) OR ucast ?b
      = dword_of ?b"
    by (simp add: of_le32_def ac_simps)
  then show ?thesis by (simp add: memset_def Let_def c memset_top_filled)
qed

section \<open>Copying\<close>

text \<open>A byte-wise copy upwards is right when no source byte is overwritten before it is read, a copy
  downwards when none is read after it was overwritten by an earlier store.\<close>

definition up_safe :: "u32 \<Rightarrow> u32 \<Rightarrow> nat \<Rightarrow> bool" where
  "up_safe d s n \<longleftrightarrow> (\<forall>i j. i < j \<and> j < n \<longrightarrow> d + of_nat i \<noteq> s + of_nat j)"

definition down_safe :: "u32 \<Rightarrow> u32 \<Rightarrow> nat \<Rightarrow> bool" where
  "down_safe d s n \<longleftrightarrow> (\<forall>i j. j < i \<and> i < n \<longrightarrow> d + of_nat i \<noteq> s + of_nat j)"

lemma offset_unat: "d + of_nat (unat (a - d)) = (a :: u32)"
  by simp

lemma unat_offset: "n < 2 ^ 32 \<Longrightarrow> unat (d + of_nat n - d :: u32) = n"
  by (simp add: unat_of_nat)

lemma copied_in: "unat (a - d) < n \<Longrightarrow> copied d s n m a = m (s + (a - d))"
  and copied_out: "\<not> unat (a - d) < n \<Longrightarrow> copied d s n m a = m a"
  by (simp_all add: copied_def)

lemma copied_append:
  assumes "up_safe d s (unat k + n)" "unat k + n \<le> 2 ^ 32"
  shows "copied (d + k) (s + k) n (copied d s (unat k) m) = copied d s (unat k + n) m"
proof
  fix a :: u32
  note split = range_split [OF assms(2), of a d]
  show "copied (d + k) (s + k) n (copied d s (unat k) m) a = copied d s (unat k + n) m a"
  proof (cases "unat (a - (d + k)) < n")
    case False
    then show ?thesis using split by (auto simp: copied_def)
  next
    case True
    let ?src = "s + (a - d)"
    have src: "s + k + (a - (d + k)) = ?src" by simp
    have "\<not> unat (?src - d) < unat k"
    proof
      assume lt: "unat (?src - d) < unat k"
      have "d + of_nat (unat (?src - d)) \<noteq> s + of_nat (unat (a - d))"
        using assms(1) lt True split unfolding up_safe_def by (meson not_less order_less_le_trans)
      then show False by simp
    qed
    then have "copied d s (unat k) m ?src = m ?src" by (rule copied_out)
    moreover have "copied (d + k) (s + k) n (copied d s (unat k) m) a = copied d s (unat k) m ?src"
      using copied_in [OF True, of "s + k"] unfolding src by blast
    moreover have "copied d s (unat k + n) m a = m ?src"
      using split True by (intro copied_in) blast
    ultimately show ?thesis by (simp only:)
  qed
qed

lemma copied_1: "m(d := m s) = copied d s 1 m"
  using unat_less_small(1) by (auto simp: copied_def fun_eq_iff)

lemma up_safe_shift: "up_safe d s (unat k + n) \<Longrightarrow> up_safe (d + k) (s + k) n"
proof -
  assume *: "up_safe d s (unat k + n)"
  have shift: "x + k + of_nat i = x + of_nat (unat k + i)" for x :: u32 and i
    by simp
  show ?thesis
    unfolding up_safe_def shift
  proof (intro allI impI)
    fix i j assume "i < j \<and> j < n"
    then have "unat k + i < unat k + j \<and> unat k + j < unat k + n" by simp
    then show "d + of_nat (unat k + i) \<noteq> s + of_nat (unat k + j)"
      using * unfolding up_safe_def by blast
  qed
qed

lemma up_safe_take: "up_safe d s n \<Longrightarrow> m \<le> n \<Longrightarrow> up_safe d s m"
  unfolding up_safe_def by (meson less_le_trans)

lemma rep_movsb_copied:
  "up_safe d s n \<Longrightarrow> n \<le> 2 ^ 32 \<Longrightarrow> rep_movsb n d s m = copied d s n m"
proof (induction n arbitrary: d s m)
  case 0
  then show ?case by (simp add: copied_def)
next
  case (Suc n)
  have safe: "up_safe d s (unat (1 :: u32) + n)" using Suc.prems(1) by simp
  have "rep_movsb (Suc n) d s m = rep_movsb n (d + 1) (s + 1) (copied d s 1 m)"
    by (simp add: copied_1)
  also have "\<dots> = copied (d + 1) (s + 1) n (copied d s 1 m)"
    using Suc.IH up_safe_shift [OF safe] Suc.prems(2) by simp
  also have "\<dots> = copied d s (Suc n) m"
    using copied_append [OF safe] Suc.prems(2) by simp
  finally show ?case .
qed

lemma copied_down_Suc:
  assumes "down_safe d s (Suc n)" "n < 2 ^ 32"
  shows "copied d s n (m(d + of_nat n := m (s + of_nat n))) = copied d s (Suc n) m"
proof
  fix a :: u32
  let ?m = "m(d + of_nat n := m (s + of_nat n))"
  consider "unat (a - d) < n" | "unat (a - d) = n" | "n < unat (a - d)" by linarith
  then show "copied d s n ?m a = copied d s (Suc n) m a"
  proof cases
    case 1
    have "d + of_nat n \<noteq> s + of_nat (unat (a - d))"
      using assms(1) 1 unfolding down_safe_def by blast
    then show ?thesis using 1 by (auto simp: copied_def)
  next
    case 2
    then have "a = d + of_nat n" by (metis offset_unat)
    then show ?thesis using assms(2) 2 by (simp add: copied_def)
  next
    case 3
    then have "a \<noteq> d + of_nat n" using unat_offset [OF assms(2)] by auto
    then show ?thesis using 3 by (simp add: copied_def)
  qed
qed

lemma rep_movsb_down_copied:
  "down_safe d s n \<Longrightarrow> n \<le> 2 ^ 32 \<Longrightarrow>
   rep_movsb_down n (d + of_nat n - 1) (s + of_nat n - 1) m = copied d s n m"
proof (induction n arbitrary: m)
  case 0
  then show ?case by (simp add: copied_def)
next
  case (Suc n)
  have "down_safe d s n" using Suc.prems(1) unfolding down_safe_def by auto
  then have "rep_movsb_down n (d + of_nat n - 1) (s + of_nat n - 1) (m(d + of_nat n := m (s + of_nat n)))
      = copied d s n (m(d + of_nat n := m (s + of_nat n)))"
    using Suc.IH Suc.prems(2) by simp
  also have "\<dots> = copied d s (Suc n) m"
    using copied_down_Suc [OF Suc.prems(1)] Suc.prems(2) by simp
  finally show ?case by simp
qed

text \<open>A dword copy is right when the source dword and the destination dword do not overlap.\<close>

lemma disjoint_up_safe: "disjoint_ranges d s n \<Longrightarrow> up_safe d s n"
  unfolding disjoint_ranges_def up_safe_def by (meson less_trans)

lemma store32_copied:
  "store32 d (load32 s m) m = copied d s 4 m"
proof
  fix a :: u32
  have *: "a - d = c \<longleftrightarrow> a = d + c" for c by (metis add.commute add_diff_cancel_left' diff_add_cancel)
  show "store32 d (load32 s m) m a = copied d s 4 m a"
    by (auto simp: store32_def load32_def copied_def unat_less_small of_le32_byte *)
qed

lemma rep_movsl_copied:
  "up_safe d s (4 * n) \<Longrightarrow> 4 * n \<le> 2 ^ 32 \<Longrightarrow> rep_movsl n d s m = copied d s (4 * n) m"
proof (induction n arbitrary: d s m)
  case 0
  then show ?case by (simp add: copied_def)
next
  case (Suc n)
  have safe: "up_safe d s (unat (4 :: u32) + 4 * n)" using Suc.prems(1) by simp
  have "rep_movsl (Suc n) d s m = copied (d + 4) (s + 4) (4 * n) (copied d s 4 m)"
    using Suc.IH up_safe_shift [OF safe] Suc.prems(2) by (simp add: store32_copied)
  also have "\<dots> = copied d s (4 * Suc n) m"
    using copied_append [OF safe] Suc.prems(2) by simp
  finally show ?case .
qed

lemma aligned_copied:
  assumes "up_safe d s (unat n)"
  shows "rep_movsb (unat (n AND 3)) (d + 4 * drop_bit 2 n) (s + 4 * drop_bit 2 n)
    (rep_movsl (unat (drop_bit 2 n)) d s m) = copied d s (unat n) m"
proof -
  define k where "k = 4 * drop_bit 2 n"
  define r where "r = unat (n AND 3)"
  define q where "q = unat (drop_bit 2 n)"
  have k: "unat k = 4 * q" by (simp only: k_def q_def unat_mul_4 unat_drop_2)
  have sum: "unat n = unat k + r"
    unfolding k by (simp only: q_def r_def unat_drop_2 unat_and_3) simp
  have le: "unat k + r \<le> 2 ^ 32" using unat_u32_less [of n] sum by linarith
  then have bounds: "4 * q \<le> 2 ^ 32" "r \<le> 2 ^ 32" using k by linarith+
  have safe: "up_safe d s (unat k + r)" using assms sum by (simp only:)
  have "rep_movsl q d s m = copied d s (unat k) m"
    unfolding k using up_safe_take [OF safe, of "4 * q"] k bounds(1)
    by (intro rep_movsl_copied) linarith+
  moreover have "rep_movsb r (d + k) (s + k) (copied d s (unat k) m)
      = copied (d + k) (s + k) r (copied d s (unat k) m)"
    by (rule rep_movsb_copied [OF up_safe_shift [OF safe] bounds(2)])
  moreover have "copied (d + k) (s + k) r (copied d s (unat k) m) = copied d s (unat n) m"
    unfolding sum by (rule copied_append [OF safe le])
  ultimately show ?thesis by (simp only: k_def [symmetric] r_def [symmetric] q_def [symmetric])
qed

lemma memcpy_top_copied: "up_safe d s (unat n) \<Longrightarrow> memcpy_top d s n m = copied d s (unat n) m"
proof (induction d s n m rule: memcpy_top.induct)
  case (1 d s n m)
  note unf = memcpy_top.simps [of d s n m]
  consider "n = 0" | "n \<noteq> 0" "d AND 3 = 0" | "n \<noteq> 0" "d AND 3 \<noteq> 0" by blast
  then show ?case
  proof cases
    case 1
    then show ?thesis by (subst unf) (simp add: copied_def)
  next
    case 2
    then show ?thesis
      by (subst unf) (simp only: Let_def if_False if_True aligned_copied [OF "1.prems"] simp_thms)
  next
    case 3
    have n: "unat n = unat (1 :: u32) + unat (n - 1)"
      using 3 by (simp add: unat_minus_one unat_gt_0)
    have safe: "up_safe d s (unat (1 :: u32) + unat (n - 1))" using "1.prems" n by (simp only:)
    have "unat (1 :: u32) + unat (n - 1) \<le> 2 ^ 32" using unat_u32_less [of n] n by linarith
    from copied_append [OF safe this] "1.IH" [OF 3 up_safe_shift [OF safe]]
    have "memcpy_top (d + 1) (s + 1) (n - 1) (m(d := m s)) = copied d s (unat n) m"
      unfolding n by (simp add: copied_1)
    then show ?thesis using 3 by (subst unf) simp
  qed
qed

lemma memcpy_copied: "up_safe d s (unat n) \<Longrightarrow> memcpy d s n m = copied d s (unat n) m"
  unfolding memcpy_def by (rule memcpy_top_copied)

lemma unat_offset_add: "unat (x :: u32) + n \<le> 2 ^ 32 \<Longrightarrow> i < n \<Longrightarrow> unat (x + of_nat i) = unat x + i"
  by (simp add: unat_word_ariths unat_of_nat)

lemma up_safe_le:
  assumes "d \<le> s" "unat d + n \<le> 2 ^ 32" "unat s + n \<le> 2 ^ 32"
  shows "up_safe d s n"
  unfolding up_safe_def
proof (intro allI impI)
  fix i j assume ij: "i < j \<and> j < n"
  then have "unat (d + of_nat i) = unat d + i" "unat (s + of_nat j) = unat s + j"
    using unat_offset_add assms(2,3) by auto
  moreover have "unat d \<le> unat s" using assms(1) by (simp add: word_le_nat_alt)
  ultimately show "d + of_nat i \<noteq> s + of_nat j" using ij by (metis add_le_less_mono less_irrefl_nat)
qed

lemma down_safe_less:
  assumes "s < d" "unat d + n \<le> 2 ^ 32" "unat s + n \<le> 2 ^ 32"
  shows "down_safe d s n"
  unfolding down_safe_def
proof (intro allI impI)
  fix i j assume ij: "j < i \<and> i < n"
  then have "unat (d + of_nat i) = unat d + i" "unat (s + of_nat j) = unat s + j"
    using unat_offset_add assms(2,3) by auto
  moreover have "unat s < unat d" using assms(1) by (simp add: word_less_nat_alt)
  ultimately show "d + of_nat i \<noteq> s + of_nat j" using ij by (metis add_less_mono less_irrefl_nat)
qed

section \<open>Properties\<close>

text \<open>\<^verbatim>\<open>memset\<close> stores the low byte of its argument in exactly the \<open>n\<close> bytes from \<open>s\<close> on,
  whatever the alignment of \<open>s\<close> and the length, and changes no other byte (addresses modulo
  2^32).\<close>

theorem memset_spec:
  "memset s c n m = (\<lambda>a. if unat (a - s) < unat n then ucast c else m a)"
  by (simp add: memset_fill filled_def)

text \<open>A copy by \<^verbatim>\<open>memcpy\<close> between ranges that do not overlap copies exactly \<open>n\<close> bytes, whatever the
  alignment of the destination and the length, and changes no other byte.\<close>

theorem memcpy_spec:
  assumes "disjoint_ranges dest src (unat n)"
  shows "memcpy dest src n m =
    (\<lambda>a. if unat (a - dest) < unat n then m (src + (a - dest)) else m a)"
  using memcpy_copied [OF disjoint_up_safe [OF assms]] by (simp add: copied_def)

theorem memcpy_spec_witness: "memcpy 0x1001 0x2003 7 (\<lambda>a. ucast a) 0x1005 = 7"
proof -
  have "disjoint_ranges 0x1001 0x2003 (unat (7 :: u32))"
    unfolding disjoint_ranges_def
  proof (intro allI impI)
    fix i j assume "i < unat (7 :: u32)" "j < unat (7 :: u32)"
    then have "unat (0x1001 + of_nat i :: u32) = 0x1001 + i" "unat (0x2003 + of_nat j :: u32) = 0x2003 + j"
      using unat_offset_add [of "0x1001" 7 i] unat_offset_add [of "0x2003" 7 j] by simp_all
    with \<open>i < unat (7 :: u32)\<close> show "0x1001 + of_nat i \<noteq> (0x2003 + of_nat j :: u32)" by force
  qed
  from memcpy_spec [OF this, of "\<lambda>a. ucast a"] show ?thesis by simp
qed

text \<open>A copy by \<^verbatim>\<open>memmove\<close> between ranges that do not run over the end of the address space copies the
  \<open>n\<close> source bytes as they were before the call, however the ranges overlap; it returns with the
  direction flag still set when the destination is above the source.\<close>

theorem memmove_spec:
  assumes "unat dest + unat n \<le> 2 ^ 32" "unat src + unat n \<le> 2 ^ 32"
  shows "memmove dest src n m =
    (\<lambda>a. if unat (a - dest) < unat n then m (src + (a - dest)) else m a, src < dest)"
proof (cases "src < dest")
  case True
  have "unat n \<le> 2 ^ 32" using unat_u32_less [of n] by simp
  from rep_movsb_down_copied [OF down_safe_less [OF True assms] this] True show ?thesis
    by (simp add: memmove_def not_le copied_def)
next
  case False
  have "unat n \<le> 2 ^ 32" using unat_u32_less [of n] by simp
  from rep_movsb_copied [OF up_safe_le [OF _ assms] this] False show ?thesis
    by (simp add: memmove_def not_less copied_def)
qed

theorem memmove_spec_witness: "fst (memmove 12 10 5 (\<lambda>a. ucast a)) 13 = 11"
  using memmove_spec [of 12 5 10 "\<lambda>a. ucast a"] by simp

end
