(* ===== verification/CString.thy ===== *)
theory CString imports CMem begin

text \<open>
  The string routines of \<^verbatim>\<open>src/student-distrib/lib.c\<close> and their user-level counterparts in
  \<^verbatim>\<open>src/syscalls/ece391support.c\<close>, over the flat memory of \<open>CMem\<close>. A loop that runs to a
  terminator returns only where there is one, so these loops are partial functions and the theorems
  show that they return on C strings. \<open>cstr_at m s xs\<close> says that the C string at \<open>s\<close> is \<open>xs\<close>.
\<close>

definition cstr_at :: "mem \<Rightarrow> u32 \<Rightarrow> u8 list \<Rightarrow> bool" where
  "cstr_at m s xs \<longleftrightarrow> length xs < 2 ^ 31 \<and> 0 \<notin> set xs \<and>
     (\<forall>i < length xs. m (s + of_nat i) = xs ! i) \<and> m (s + of_nat (length xs)) = 0"

text \<open>The first byte of a string as C reads it.\<close>

definition cstr_head :: "u8 list \<Rightarrow> u8" where
  "cstr_head xs = (case xs of [] \<Rightarrow> 0 | x # _ \<Rightarrow> x)"

section \<open>The routines of the kernel\<close>

partial_function (option) strlen_loop :: "mem \<Rightarrow> u32 \<Rightarrow> u32 \<Rightarrow> u32 option" where
  "strlen_loop m s len = (if m (s + len) \<noteq> 0 then strlen_loop m s (len + 1) else Some len)"

definition strlen :: "mem \<Rightarrow> u32 \<Rightarrow> u32 option" where
  "strlen m s = strlen_loop m s 0"

text \<open>The indices of the reversal stay inside the string, so they are integers.\<close>

function strrev_loop :: "u32 \<Rightarrow> int \<Rightarrow> int \<Rightarrow> mem \<Rightarrow> mem" where
  "strrev_loop s beg end m =
     (if beg < end then
        let tmp = m (s + of_int end);
            m = m(s + of_int end := m (s + of_int beg));
            m = m(s + of_int beg := tmp)
        in strrev_loop s (beg + 1) (end - 1) m
      else m)"
  by pat_completeness auto
termination by (relation "measure (\<lambda>(s, beg, end, m). nat (end - beg))") auto

declare strrev_loop.simps [simp del]

definition strrev :: "u32 \<Rightarrow> mem \<Rightarrow> mem option" where
  "strrev s m = do {
     len \<leftarrow> strlen m s;
     Some (strrev_loop s 0 (sint (len - 1)) m)
   }"

text \<open>\<^verbatim>\<open>lookup\<close>, with its terminator.\<close>

definition itoa_lookup :: "u8 list" where
  "itoa_lookup = map of_nat ([48..<58] @ [65..<91]) @ [0]"

text \<open>A division by a zero radix traps; a radix of 1 never ends.\<close>

partial_function (option) itoa_loop :: "u32 \<Rightarrow> u32 \<Rightarrow> i32 \<Rightarrow> mem \<Rightarrow> (u32 \<times> mem) option" where
  "itoa_loop newval newbuf radix m =
     (if newval > 0 then
        if radix = 0 then None
        else do {
          c \<leftarrow> nth_opt itoa_lookup (unat (newval mod radix));
          itoa_loop (newval div radix) (newbuf + 1) radix (m(newbuf := c))
        }
      else Some (newbuf, m))"

definition itoa :: "u32 \<Rightarrow> u32 \<Rightarrow> i32 \<Rightarrow> mem \<Rightarrow> mem option" where
  "itoa value buf radix m =
     (if value = 0 then Some (m(buf := 48, buf + 1 := 0))
      else do {
        (newbuf, m) \<leftarrow> itoa_loop value buf radix m;
        strrev buf (m(newbuf := 0))
      })"

text \<open>\<^verbatim>\<open>int8_t\<close> is signed: the difference is taken after sign extension.\<close>

function strncmp_loop :: "mem \<Rightarrow> u32 \<Rightarrow> u32 \<Rightarrow> u32 \<Rightarrow> u32 \<Rightarrow> i32" where
  "strncmp_loop m s1 s2 n i =
     (if i < n then
        if m (s1 + i) \<noteq> m (s2 + i) \<or> m (s1 + i) = 0 then scast (m (s1 + i)) - scast (m (s2 + i))
        else strncmp_loop m s1 s2 n (i + 1)
      else 0)"
  by pat_completeness auto
termination
proof (relation "measure (\<lambda>(m, s1, s2, n, i). unat n - unat i)")
  fix m s1 s2 and n i :: u32
  assume "i < n"
  then have "unat (i + 1) = Suc (unat i)" "unat i < unat n"
    using unat_u32_less [of n] by (simp_all add: unat_word_ariths word_less_nat_alt)
  then show "((m, s1, s2, n, i + 1), m, s1, s2, n, i) \<in> measure (\<lambda>(m, s1, s2, n, i). unat n - unat i)"
    by simp
qed simp

declare strncmp_loop.simps [simp del]

definition strncmp :: "mem \<Rightarrow> u32 \<Rightarrow> u32 \<Rightarrow> u32 \<Rightarrow> i32" where
  "strncmp m s1 s2 n = strncmp_loop m s1 s2 n 0"

partial_function (option) strcpy_loop :: "u32 \<Rightarrow> u32 \<Rightarrow> u32 \<Rightarrow> mem \<Rightarrow> mem option" where
  "strcpy_loop dest src i m =
     (if m (src + i) \<noteq> 0 then strcpy_loop dest src (i + 1) (m(dest + i := m (src + i)))
      else Some (m(dest + i := 0)))"

definition strcpy :: "u32 \<Rightarrow> u32 \<Rightarrow> mem \<Rightarrow> mem option" where
  "strcpy dest src m = strcpy_loop dest src 0 m"

function strncpy_pad :: "u32 \<Rightarrow> u32 \<Rightarrow> u32 \<Rightarrow> mem \<Rightarrow> mem" where
  "strncpy_pad dest n i m =
     (if i < n then strncpy_pad dest n (i + 1) (m(dest + i := 0)) else m)"
  by pat_completeness auto
termination
proof (relation "measure (\<lambda>(dest, n, i, m). unat n - unat i)")
  fix dest :: u32 and n i :: u32 and m :: mem
  assume "i < n"
  then have "unat (i + 1) = Suc (unat i)" "unat i < unat n"
    using unat_u32_less [of n] by (simp_all add: unat_word_ariths word_less_nat_alt)
  then show "((dest, n, i + 1, m(dest + i := 0)), dest, n, i, m) \<in> measure (\<lambda>(dest, n, i, m). unat n - unat i)"
    by simp
qed simp

declare strncpy_pad.simps [simp del]

function strncpy_loop :: "u32 \<Rightarrow> u32 \<Rightarrow> u32 \<Rightarrow> u32 \<Rightarrow> mem \<Rightarrow> mem" where
  "strncpy_loop dest src n i m =
     (if m (src + i) \<noteq> 0 \<and> i < n
      then strncpy_loop dest src n (i + 1) (m(dest + i := m (src + i)))
      else strncpy_pad dest n i m)"
  by pat_completeness auto
termination
proof (relation "measure (\<lambda>(dest, src, n, i, m). unat n - unat i)")
  fix dest src :: u32 and n i :: u32 and m :: mem
  assume "m (src + i) \<noteq> 0 \<and> i < n"
  then have "unat (i + 1) = Suc (unat i)" "unat i < unat n"
    using unat_u32_less [of n] by (simp_all add: unat_word_ariths word_less_nat_alt)
  then show "((dest, src, n, i + 1, m(dest + i := m (src + i))), dest, src, n, i, m)
      \<in> measure (\<lambda>(dest, src, n, i, m). unat n - unat i)"
    by simp
qed simp

declare strncpy_loop.simps [simp del]

definition strncpy :: "u32 \<Rightarrow> u32 \<Rightarrow> u32 \<Rightarrow> mem \<Rightarrow> mem" where
  "strncpy dest src n m = strncpy_loop dest src n 0 m"

section \<open>The routines of the user programs\<close>

partial_function (option) ece391_strlen_loop :: "mem \<Rightarrow> u32 \<Rightarrow> u32 \<Rightarrow> u32 option" where
  "ece391_strlen_loop m s len = (if m s \<noteq> 0 then ece391_strlen_loop m (s + 1) (len + 1) else Some len)"

definition ece391_strlen :: "mem \<Rightarrow> u32 \<Rightarrow> u32 option" where
  "ece391_strlen m s = ece391_strlen_loop m s 0"

partial_function (option) ece391_strcpy :: "u32 \<Rightarrow> u32 \<Rightarrow> mem \<Rightarrow> mem option" where
  "ece391_strcpy dst src m =
     (let c = m src; m = m(dst := c)
      in if c \<noteq> 0 then ece391_strcpy (dst + 1) (src + 1) m else Some m)"

partial_function (option) ece391_strcmp :: "mem \<Rightarrow> u32 \<Rightarrow> u32 \<Rightarrow> i32 option" where
  "ece391_strcmp m s1 s2 =
     (if m s1 = m s2 then
        if m s1 = 0 then Some 0 else ece391_strcmp m (s1 + 1) (s2 + 1)
      else Some (ucast (m s1) - ucast (m s2)))"

function ece391_strncmp_loop :: "mem \<Rightarrow> u32 \<Rightarrow> u32 \<Rightarrow> u32 \<Rightarrow> i32" where
  "ece391_strncmp_loop m s1 s2 n =
     (if m s1 = m s2 then
        if m s1 = 0 \<or> n - 1 = 0 then 0
        else ece391_strncmp_loop m (s1 + 1) (s2 + 1) (n - 1)
      else ucast (m s1) - ucast (m s2))"
  by pat_completeness auto
termination
proof (relation "measure (\<lambda>(m, s1, s2, n). unat (n - 1))")
  fix m :: mem and s1 s2 n :: u32
  assume "\<not> (m s1 = 0 \<or> n - 1 = 0)"
  then have "unat (n - 1 - 1) < unat (n - 1)" using unat_minus_one [of "n - 1"] by (simp add: unat_gt_0)
  then show "((m, s1 + 1, s2 + 1, n - 1), m, s1, s2, n) \<in> measure (\<lambda>(m, s1, s2, n). unat (n - 1))"
    by simp
qed simp

declare ece391_strncmp_loop.simps [simp del]

definition ece391_strncmp :: "mem \<Rightarrow> u32 \<Rightarrow> u32 \<Rightarrow> u32 \<Rightarrow> i32" where
  "ece391_strncmp m s1 s2 n = (if n = 0 then 0 else ece391_strncmp_loop m s1 s2 n)"

definition ece391_strrev :: "u32 \<Rightarrow> mem \<Rightarrow> mem option" where
  "ece391_strrev s m = do {
     len \<leftarrow> ece391_strlen m s;
     let end = sint (len - 1);
     if end \<le> 0 then Some m else Some (strrev_loop s 0 end m)
   }"

definition ece391_itoa :: "u32 \<Rightarrow> u32 \<Rightarrow> i32 \<Rightarrow> mem \<Rightarrow> mem option" where
  "ece391_itoa value buf radix m =
     (if value = 0 then Some (m(buf := 48, buf + 1 := 0))
      else do {
        (newbuf, m) \<leftarrow> itoa_loop value buf radix m;
        ece391_strrev buf (m(newbuf := 0))
      })"

section \<open>Lengths and copies of C strings\<close>

lemma cstr_at_byte:
  assumes "cstr_at m s xs"
  shows "i < length xs \<Longrightarrow> m (s + of_nat i) = xs ! i"
    and "i < length xs \<Longrightarrow> m (s + of_nat i) \<noteq> 0"
    and "m (s + of_nat (length xs)) = 0"
  using assms nth_mem unfolding cstr_at_def by (blast, metis, blast)

text \<open>A loop that advances an index while the byte there is not the terminator.\<close>

lemma scan_returns:
  assumes "cstr_at m s xs" "k \<le> length xs"
    and "\<And>i. i < length xs \<Longrightarrow> f (of_nat i) = f (of_nat i + 1 :: u32)"
  shows "f (of_nat k) = f (of_nat (length xs))"
  using assms(2)
proof (induction "length xs - k" arbitrary: k)
  case 0
  then show ?case by simp
next
  case (Suc d)
  have "f (of_nat k) = f (of_nat k + 1)" using assms(3) [of k] Suc.hyps(2) by simp
  also have "\<dots> = f (of_nat (Suc k))" by (simp add: ac_simps)
  also have "\<dots> = f (of_nat (length xs))" using Suc.hyps by (intro Suc.hyps(1)) auto
  finally show ?case .
qed

lemma strlen_eq: "cstr_at m s xs \<Longrightarrow> strlen m s = Some (of_nat (length xs))"
proof -
  assume c: "cstr_at m s xs"
  have "strlen_loop m s (of_nat i) = strlen_loop m s (of_nat i + 1)" if "i < length xs" for i
    using cstr_at_byte(2) [OF c that] by (subst strlen_loop.simps) simp
  from scan_returns [OF c, of 0 "strlen_loop m s", OF _ this]
  have "strlen_loop m s 0 = strlen_loop m s (of_nat (length xs))" by simp
  also have "\<dots> = Some (of_nat (length xs))"
    using cstr_at_byte(3) [OF c] by (subst strlen_loop.simps) simp
  finally show ?thesis by (simp add: strlen_def)
qed

lemma ece391_strlen_eq: "cstr_at m s xs \<Longrightarrow> ece391_strlen m s = Some (of_nat (length xs))"
proof -
  assume c: "cstr_at m s xs"
  have "ece391_strlen_loop m (s + of_nat i) (of_nat i)
      = ece391_strlen_loop m (s + (of_nat i + 1)) (of_nat i + 1)" if "i < length xs" for i
    using cstr_at_byte(2) [OF c that] by (subst ece391_strlen_loop.simps) (simp add: add.assoc)
  from scan_returns [OF c, of 0 "\<lambda>k. ece391_strlen_loop m (s + k) k", OF _ this]
  have "ece391_strlen_loop m s 0 = ece391_strlen_loop m (s + of_nat (length xs)) (of_nat (length xs))"
    by simp
  also have "\<dots> = Some (of_nat (length xs))"
    using cstr_at_byte(3) [OF c] by (subst ece391_strlen_loop.simps) simp
  finally show ?thesis by (simp add: ece391_strlen_def)
qed

text \<open>After a copy of the string and its terminator, the destination holds the same string.\<close>

lemma of_nat_inj_u32:
  assumes "i < 2 ^ 32" "j < 2 ^ 32"
  shows "(of_nat i :: u32) = of_nat j \<longleftrightarrow> i = j"
proof
  assume "(of_nat i :: u32) = of_nat j"
  then have "unat (of_nat i :: u32) = unat (of_nat j :: u32)" by simp
  then show "i = j" using assms by (simp add: unat_of_nat)
qed simp

lemma cstr_at_copied:
  assumes "cstr_at m src xs"
  shows "cstr_at (copied dest src (Suc (length xs)) m) dest xs"
proof -
  have "copied dest src (Suc (length xs)) m (dest + of_nat i) = m (src + of_nat i)"
    if "i \<le> length xs" for i
    using that assms by (intro trans [OF copied_in]) (auto simp: cstr_at_def unat_of_nat)
  then show ?thesis using assms by (auto simp: cstr_at_def)
qed

lemma cstr_at_Nil: "cstr_at m s [] \<longleftrightarrow> m s = 0"
  by (simp add: cstr_at_def)

lemma cstr_at_Cons:
  "cstr_at m s (x # xs) \<longleftrightarrow> m s = x \<and> x \<noteq> 0 \<and> cstr_at m (s + 1) xs \<and> Suc (length xs) < 2 ^ 31"
proof -
  have "(\<forall>i < Suc n. P i) \<longleftrightarrow> P 0 \<and> (\<forall>i < n. P (Suc i))" for n and P :: "nat \<Rightarrow> bool"
    by (auto simp: less_Suc_eq_0_disj)
  then show ?thesis by (auto simp: cstr_at_def ac_simps)
qed

text \<open>One step of a string copy: the rest of the source string is still there after the store.\<close>

lemma cstr_at_step:
  assumes "up_safe d s (Suc (Suc (length xs)))" "cstr_at m s (x # xs)"
  shows "m s = x" "x \<noteq> 0" "cstr_at (m(d := b)) (s + 1) xs" "up_safe (d + 1) (s + 1) (Suc (length xs))"
proof -
  show "m s = x" "x \<noteq> 0" using assms(2) by (simp_all add: cstr_at_Cons)
  have "d \<noteq> s + 1 + of_nat i" if "i \<le> length xs" for i
  proof -
    have "d + of_nat 0 \<noteq> s + of_nat (Suc i)"
      using assms(1) that unfolding up_safe_def by (meson le_imp_less_Suc zero_less_Suc less_SucI not_less_eq)
    then show ?thesis by (simp add: add.assoc)
  qed
  then have "(m(d := b)) (s + 1 + of_nat i) = m (s + 1 + of_nat i)" if "i \<le> length xs" for i
    using that by (metis fun_upd_apply)
  then show "cstr_at (m(d := b)) (s + 1) xs"
    using assms(2) unfolding cstr_at_Cons by (simp add: cstr_at_def del: fun_upd_apply)
  show "up_safe (d + 1) (s + 1) (Suc (length xs))"
    using assms(1) up_safe_shift [of d s 1 "Suc (length xs)"] by simp
qed

lemma copied_Suc:
  assumes "up_safe d s (Suc n)" "Suc n \<le> 2 ^ 32"
  shows "copied (d + 1) (s + 1) n (m(d := m s)) = copied d s (Suc n) m"
  using copied_append [of d s 1 n m] assms by (simp add: copied_1)

lemma ece391_strcpy_copied:
  "up_safe d s (Suc (length xs)) \<Longrightarrow> cstr_at m s xs \<Longrightarrow>
   ece391_strcpy d s m = Some (copied d s (Suc (length xs)) m)"
proof (induction xs arbitrary: d s m)
  case Nil
  then have "m(d := 0) = copied d s 1 m" using copied_1 [of m d s] by (simp add: cstr_at_Nil)
  with Nil show ?case by (subst ece391_strcpy.simps) (simp add: cstr_at_Nil)
next
  case (Cons x xs)
  note st = cstr_at_step [OF Cons.prems(1) [unfolded list.size add_Suc_right add_0_right] Cons.prems(2)]
  have "Suc (Suc (length xs)) \<le> 2 ^ 32" using Cons.prems(2) by (simp add: cstr_at_def)
  with copied_Suc [of d s "Suc (length xs)" m] Cons.IH [OF st(4) st(3) [where b = x]] st(1,2) Cons.prems(1)
  show ?case by (subst ece391_strcpy.simps) (simp del: fun_upd_apply)
qed

lemma strcpy_loop_copied:
  "up_safe (d + i) (s + i) (Suc (length xs)) \<Longrightarrow> cstr_at m (s + i) xs \<Longrightarrow>
   strcpy_loop d s i m = Some (copied (d + i) (s + i) (Suc (length xs)) m)"
proof (induction xs arbitrary: i m)
  case Nil
  then have "m(d + i := 0) = copied (d + i) (s + i) 1 m"
    using copied_1 [of m "d + i" "s + i"] by (simp add: cstr_at_Nil)
  with Nil show ?case by (subst strcpy_loop.simps) (simp add: cstr_at_Nil)
next
  case (Cons x xs)
  note st = cstr_at_step [OF Cons.prems(1) [unfolded list.size add_Suc_right add_0_right] Cons.prems(2)]
  have "Suc (Suc (length xs)) \<le> 2 ^ 32" using Cons.prems(2) by (simp add: cstr_at_def)
  with copied_Suc [of "d + i" "s + i" "Suc (length xs)" m] Cons.IH [of "i + 1" "m(d + i := x)"] st(1,2,4) st(3) [where b = x] Cons.prems(1)
  show ?case by (subst strcpy_loop.simps) (simp add: add.assoc del: fun_upd_apply)
qed

section \<open>Reversal\<close>

lemma addr_eq_offset:
  "0 \<le> j \<Longrightarrow> j < 2 ^ 32 \<Longrightarrow> (a :: u32) = s + of_int j \<longleftrightarrow> uint (a - s) = j"
proof -
  assume j: "0 \<le> j" "j < 2 ^ 32"
  have "a = s + of_int j \<longleftrightarrow> a - s = of_int j"
    by (metis add.commute add_diff_cancel_left' diff_add_cancel)
  also have "\<dots> \<longleftrightarrow> uint (a - s) = uint (of_int j :: u32)" by (simp add: word_uint_eq_iff)
  also have "uint (of_int j :: u32) = j" using j by (simp add: unsigned_of_int take_bit_int_eq_self)
  finally show ?thesis .
qed

lemma strrev_loop_eq:
  "0 \<le> beg \<Longrightarrow> end < 2 ^ 31 \<Longrightarrow> strrev_loop s beg end m =
    (\<lambda>a. if beg \<le> uint (a - s) \<and> uint (a - s) \<le> end
         then m (s + of_int (beg + end - uint (a - s))) else m a)"
proof (induction s beg "end" m rule: strrev_loop.induct)
  case (1 s beg "end" m)
  note unf = strrev_loop.simps [of s beg "end" m]
  let ?m = "(m(s + of_int end := m (s + of_int beg)))(s + of_int beg := m (s + of_int end))"
  show ?case
  proof (cases "beg < end")
    case True
    have IH: "strrev_loop s (beg + 1) (end - 1) ?m =
        (\<lambda>a. if beg + 1 \<le> uint (a - s) \<and> uint (a - s) \<le> end - 1
          then ?m (s + of_int (beg + 1 + (end - 1) - uint (a - s))) else ?m a)"
      using "1.IH" [OF True refl refl refl] "1.prems" by (simp del: fun_upd_apply)
    have upd: "?m a = (if uint (a - s) = beg then m (s + of_int end)
        else if uint (a - s) = end then m (s + of_int beg) else m a)" for a
      using "1.prems" True addr_eq_offset [of beg a s] addr_eq_offset [of "end" a s] by auto
    have inner: "uint (s + of_int (beg + end - i) - s) = beg + end - i"
      if "beg < i" "i < end" for i
      using that "1.prems" addr_eq_offset [of "beg + end - i" "s + of_int (beg + end - i)" s] by simp
    show ?thesis
    proof
      fix a :: u32
      define i where "i = uint (a - s)"
      have a: "a = s + of_int i" unfolding i_def by simp
      have "strrev_loop s beg end m a = (if beg < i \<and> i < end
          then ?m (s + of_int (beg + end - i)) else ?m a)"
        using True by (subst unf) (simp only: Let_def if_True IH i_def, simp)
      also have "\<dots> = (if beg \<le> i \<and> i \<le> end then m (s + of_int (beg + end - i)) else m a)"
        using inner [of i] True by (auto simp: upd simp del: fun_upd_apply simp flip: i_def)
      finally show "strrev_loop s beg end m a = (if beg \<le> uint (a - s) \<and> uint (a - s) \<le> end
         then m (s + of_int (beg + end - uint (a - s))) else m a)"
        by (simp only: i_def)
    qed
  next
    case False
    show ?thesis
    proof
      fix a :: u32
      have "m a = m (s + of_int (beg + end - uint (a - s)))"
        if "beg \<le> uint (a - s) \<and> uint (a - s) \<le> end"
      proof -
        have "beg + end - uint (a - s) = uint (a - s)" using that False by linarith
        then show ?thesis by simp
      qed
      then show "strrev_loop s beg end m a = (if beg \<le> uint (a - s) \<and> uint (a - s) \<le> end
         then m (s + of_int (beg + end - uint (a - s))) else m a)"
        using False by (subst unf) auto
    qed
  qed
qed

lemma sint_length_minus_1: "n < 2 ^ 31 \<Longrightarrow> sint (of_nat n - 1 :: u32) = int n - 1"
proof -
  assume n: "n < 2 ^ 31"
  have "(of_nat n - 1 :: u32) = of_int (int n - 1)" by simp
  then have "sint (of_nat n - 1 :: u32) = signed_take_bit 31 (int n - 1)"
    by (simp only: signed_of_int) simp
  also have "\<dots> = int n - 1" using n by (intro signed_take_bit_int_eq_self) simp_all
  finally show ?thesis .
qed

text \<open>The reversal of the string at \<open>s\<close>, with every other byte unchanged.\<close>

definition reversed :: "u32 \<Rightarrow> nat \<Rightarrow> mem \<Rightarrow> mem" where
  "reversed s n m = (\<lambda>a. if unat (a - s) < n then m (s + of_nat (n - 1 - unat (a - s))) else m a)"

lemma uint_less_int: "uint (w :: u32) < int n \<longleftrightarrow> unat w < n"
proof -
  have "int (unat w) = uint w" by simp
  then show ?thesis by linarith
qed

lemma strrev_loop_reversed:
  assumes "n < 2 ^ 31"
  shows "strrev_loop s 0 (int n - 1) m = reversed s n m"
  using strrev_loop_eq [of 0 "int n - 1" s m] assms
  by (auto simp: reversed_def fun_eq_iff of_nat_diff uint_less_int)

lemma strrev_eq: "cstr_at m s xs \<Longrightarrow> strrev s m = Some (reversed s (length xs) m)"
  by (simp add: strrev_def strlen_eq strrev_loop_reversed sint_length_minus_1 cstr_at_def
      del: of_nat_diff)

lemma reversed_at: "n < 2 ^ 31 \<Longrightarrow> i < n \<Longrightarrow> reversed s n m (s + of_nat i) = m (s + of_nat (n - 1 - i))"
  by (simp add: reversed_def unat_of_nat)

lemma cstr_at_reversed:
  assumes "cstr_at m s xs"
  shows "cstr_at (reversed s (length xs) m) s (rev xs)"
proof -
  have "length xs < 2 ^ 31" using assms by (simp add: cstr_at_def)
  then have "reversed s (length xs) m (s + of_nat (length xs)) = m (s + of_nat (length xs))"
    by (simp add: reversed_def unat_of_nat)
  moreover have "reversed s (length xs) m (s + of_nat i) = rev xs ! i" if "i < length xs" for i
  proof -
    let ?j = "length xs - 1 - i"
    have "m (s + of_nat ?j) = xs ! ?j" using that cstr_at_byte(1) [OF assms, of ?j] by simp
    then show ?thesis
      using that reversed_at [of "length xs" i s m] assms by (simp add: cstr_at_def rev_nth del: of_nat_diff)
  qed
  ultimately show ?thesis using assms by (simp add: cstr_at_def)
qed

section \<open>Numbers as strings\<close>

text \<open>The digits of a number, the least significant first, and the number a digit string stands for.\<close>

function digits_of :: "nat \<Rightarrow> nat \<Rightarrow> nat list" where
  "digits_of r v = (if v = 0 \<or> r < 2 then [] else (v mod r) # digits_of r (v div r))"
  by pat_completeness auto
termination by (relation "measure (\<lambda>(r, v). v)") auto

declare digits_of.simps [simp del]

definition digit_char :: "nat \<Rightarrow> u8" where
  "digit_char d = of_nat (if d < 10 then 48 + d else 55 + d)"

definition char_digit :: "u8 \<Rightarrow> nat" where
  "char_digit c = (if unat c < 58 then unat c - 48 else unat c - 55)"

definition parse_number :: "nat \<Rightarrow> u8 list \<Rightarrow> nat" where
  "parse_number r cs = foldl (\<lambda>v c. v * r + char_digit c) 0 cs"

lemma digits_of_0 [simp]: "digits_of r 0 = []"
  by (simp add: digits_of.simps [of r 0])

lemma digits_of_pos: "0 < v \<Longrightarrow> 2 \<le> r \<Longrightarrow> digits_of r v = (v mod r) # digits_of r (v div r)"
  by (subst digits_of.simps) auto

lemma digits_of_less: "d \<in> set (digits_of r v) \<Longrightarrow> d < r"
  by (induction r v rule: digits_of.induct) (subst (asm) (2) digits_of.simps, auto split: if_splits)

lemma length_digits_of: "2 \<le> r \<Longrightarrow> v < 2 ^ k \<Longrightarrow> length (digits_of r v) \<le> k"
proof (induction k arbitrary: v)
  case (Suc k)
  show ?case
  proof (cases "v = 0")
    case False
    have "v div r \<le> v div 2" using Suc.prems(1) by (simp add: div_le_mono2)
    also have "\<dots> < 2 ^ k" using Suc.prems(2) by simp
    finally show ?thesis using Suc False by (simp add: digits_of_pos)
  qed simp
qed simp

lemma digit_char_digit: "d < 36 \<Longrightarrow> char_digit (digit_char d) = d"
  by (auto simp: char_digit_def digit_char_def unat_of_nat)

lemma lookup_digit: "d < 36 \<Longrightarrow> itoa_lookup ! d = digit_char d"
  by (auto simp: itoa_lookup_def digit_char_def nth_append simp del: upt_rec_numeral)

lemma length_itoa_lookup: "length itoa_lookup = 37"
  by (simp add: itoa_lookup_def)

lemma digit_char_nonzero: "d < 36 \<Longrightarrow> digit_char d \<noteq> 0"
proof
  assume "d < 36" "digit_char d = 0"
  then have "unat (digit_char d) = 0" by simp
  with \<open>d < 36\<close> show False by (auto simp: digit_char_def unat_of_nat split: if_splits)
qed

lemma parse_digits:
  "2 \<le> r \<Longrightarrow> r \<le> 36 \<Longrightarrow> parse_number r (map digit_char (rev (digits_of r v))) = v"
proof (induction r v rule: digits_of.induct)
  case (1 r v)
  show ?case
  proof (cases "v = 0")
    case False
    have "v mod r < 36" using "1.prems" by (meson less_le_trans mod_less_divisor zero_less_numeral order_less_le_trans)
    then show ?thesis
      using False "1.IH" "1.prems" by (simp add: digits_of_pos parse_number_def digit_char_digit)
  qed (simp add: parse_number_def)
qed

text \<open>Storing a list of bytes.\<close>

definition written :: "u32 \<Rightarrow> u8 list \<Rightarrow> mem \<Rightarrow> mem" where
  "written s xs m = (\<lambda>a. if unat (a - s) < length xs then xs ! unat (a - s) else m a)"

lemma written_Cons:
  assumes "Suc (length xs) \<le> 2 ^ 32"
  shows "written (s + 1) xs (m(s := x)) = written s (x # xs) m"
proof
  fix a :: u32
  have le: "unat (1 :: u32) + length xs \<le> 2 ^ 32" using assms by simp
  note split = range_split [OF le, of a s]
  show "written (s + 1) xs (m(s := x)) a = written s (x # xs) m a"
  proof (cases "unat (a - (s + 1)) < length xs")
    case True
    then have pos: "0 < unat (a - s)" using split by simp
    then have "a - s \<noteq> 0" by (metis unat_0 less_irrefl_nat)
    moreover have "a - (s + 1) = (a - s) - 1" by simp
    ultimately have "unat (a - (s + 1)) = unat (a - s) - 1"
      using unat_minus_one [of "a - s"] by metis
    with pos have "unat (a - s) = Suc (unat (a - (s + 1)))" by linarith
    then show ?thesis using True by (simp add: written_def)
  next
    case False
    then show ?thesis using split by (auto simp: written_def unat_less_small unat_eq_0)
  qed
qed

lemma itoa_loop_eq:
  assumes "2 \<le> radix" "radix \<le> 36"
  shows "itoa_loop newval buf radix m =
    (let cs = map digit_char (digits_of (unat radix) (unat newval))
     in Some (buf + of_nat (length cs), written buf cs m))"
proof (induction "unat newval" arbitrary: newval buf m rule: less_induct)
  case less
  have r: "2 \<le> unat radix" "unat radix \<le> 36" "radix \<noteq> 0"
    using assms by (auto simp: word_le_nat_alt)
  show ?case
  proof (cases "newval = 0")
    case True
    then show ?thesis by (subst itoa_loop.simps) (simp add: written_def)
  next
    case False
    then have pos: "0 < unat newval" by (simp add: unat_gt_0)
    let ?d = "unat newval mod unat radix" and ?ds = "digits_of (unat radix) (unat newval div unat radix)"
    have d: "?d < 36" using r by (meson less_le_trans mod_less_divisor zero_less_numeral order_less_le_trans)
    have "unat newval div unat radix < unat newval" using pos r by simp
    with less [of "newval div radix" "buf + 1" "m(buf := digit_char ?d)"]
    have IH: "itoa_loop (newval div radix) (buf + 1) radix (m(buf := digit_char ?d)) =
        Some (buf + 1 + of_nat (length ?ds), written (buf + 1) (map digit_char ?ds) (m(buf := digit_char ?d)))"
      by (simp add: unat_div Let_def del: fun_upd_apply)
    have "length ?ds \<le> 32"
      using unat_u32_less [of newval] r(1) by (intro length_digits_of) (auto intro: le_less_trans [OF div_le_dividend])
    then have w: "written (buf + 1) (map digit_char ?ds) (m(buf := digit_char ?d))
        = written buf (digit_char ?d # map digit_char ?ds) m"
      by (intro written_Cons) simp
    have "itoa_loop newval buf radix m
        = itoa_loop (newval div radix) (buf + 1) radix (m(buf := digit_char ?d))"
      using False r(3) d by (subst itoa_loop.simps)
        (simp add: word_gt_0 nth_opt_def length_itoa_lookup unat_mod lookup_digit del: fun_upd_apply)
    then show ?thesis
      unfolding IH w using digits_of_pos [OF pos r(1)] by (simp add: Let_def add.assoc)
  qed
qed

lemma cstr_at_written:
  assumes "length xs < 2 ^ 31" "0 \<notin> set xs"
  shows "cstr_at ((written s xs m)(s + of_nat (length xs) := 0)) s xs"
proof -
  have "s + of_nat i \<noteq> s + of_nat (length xs)" if "i < length xs" for i
    using that assms(1) of_nat_inj_u32 [of i "length xs"] by simp
  then show ?thesis
    using assms by (auto simp: cstr_at_def written_def unat_of_nat)
qed

text \<open>Both conversions: the kernel's and the user library's differ only in an early return of the
  reversal of strings of at most one character.\<close>

lemma ece391_strrev_eq: "cstr_at m s xs \<Longrightarrow> ece391_strrev s m = Some (reversed s (length xs) m)"
proof -
  assume c: "cstr_at m s xs"
  then have n: "length xs < 2 ^ 31" by (simp add: cstr_at_def)
  have "strrev_loop s 0 (int (length xs) - 1) m = m" if "int (length xs) - 1 \<le> 0"
    using that by (subst strrev_loop.simps) simp
  then show ?thesis
    using ece391_strlen_eq [OF c] strrev_loop_reversed [OF n, of s m] sint_length_minus_1 [OF n]
    by (auto simp: ece391_strrev_def Let_def)
qed

definition number_string :: "nat \<Rightarrow> nat \<Rightarrow> u8 list" where
  "number_string r v = (if v = 0 then [48] else map digit_char (rev (digits_of r v)))"

lemma itoa_string:
  assumes "2 \<le> radix" "radix \<le> 36"
  shows "\<exists>m'. itoa value buf radix m = Some m' \<and> ece391_itoa value buf radix m = Some m' \<and>
    cstr_at m' buf (number_string (unat radix) (unat value)) \<and>
    (\<forall>a. length (number_string (unat radix) (unat value)) < unat (a - buf) \<longrightarrow> m' a = m a)"
proof (cases "value = 0")
  case True
  have "cstr_at (m(buf := 48, buf + 1 := 0)) buf [48]"
    by (simp add: cstr_at_def)
  moreover have "\<forall>a. 1 < unat (a - buf) \<longrightarrow> (m(buf := 48, buf + 1 := 0)) a = m a" by auto
  ultimately show ?thesis
    using True by (simp add: itoa_def ece391_itoa_def number_string_def)
next
  case False
  define cs where "cs = map digit_char (digits_of (unat radix) (unat value))"
  have r: "2 \<le> unat radix" "unat radix \<le> 36" using assms by (auto simp: word_le_nat_alt)
  have "length cs \<le> 32"
    unfolding cs_def length_map using unat_u32_less [of "value"] r(1) by (intro length_digits_of) simp_all
  then have len: "length cs < 2 ^ 31" by simp
  have nz: "0 \<notin> set cs"
  proof
    assume "0 \<in> set cs"
    then obtain d where d: "d \<in> set (digits_of (unat radix) (unat value))" "digit_char d = 0"
      unfolding cs_def by auto
    have "d < 36" using digits_of_less [OF d(1)] r(2) by simp
    then show False using digit_char_nonzero d(2) by blast
  qed
  let ?m = "(written buf cs m)(buf + of_nat (length cs) := 0)"
  note str = cstr_at_written [OF len nz, of buf m]
  have loop: "itoa_loop value buf radix m = Some (buf + of_nat (length cs), written buf cs m)"
    using itoa_loop_eq [OF assms, of "value" buf m] by (simp add: Let_def cs_def)
  have "number_string (unat radix) (unat value) = rev cs"
    using False by (simp add: number_string_def cs_def rev_map unat_eq_0)
  moreover have "itoa value buf radix m = Some (reversed buf (length cs) ?m)"
    using False loop strrev_eq [OF str] by (simp add: itoa_def)
  moreover have "ece391_itoa value buf radix m = Some (reversed buf (length cs) ?m)"
    using False loop ece391_strrev_eq [OF str] by (simp add: ece391_itoa_def)
  moreover have "\<forall>a. length cs < unat (a - buf) \<longrightarrow> reversed buf (length cs) ?m a = m a"
    using len by (auto simp: reversed_def written_def unat_of_nat)
  ultimately show ?thesis using cstr_at_reversed [OF str] by auto
qed

section \<open>Comparison\<close>

text \<open>The comparison of at most \<open>k\<close> bytes of two strings, for a cast of characters to \<^verbatim>\<open>int\<close>.\<close>

fun cmp_ref :: "(u8 \<Rightarrow> i32) \<Rightarrow> nat \<Rightarrow> u8 list \<Rightarrow> u8 list \<Rightarrow> i32" where
  "cmp_ref cast 0 xs ys = 0"
| "cmp_ref cast (Suc k) xs ys =
     (if cstr_head xs \<noteq> cstr_head ys \<or> cstr_head xs = 0 then cast (cstr_head xs) - cast (cstr_head ys)
      else cmp_ref cast k (tl xs) (tl ys))"

lemma cstr_at_uncons:
  "cstr_at m s xs \<Longrightarrow> m s = cstr_head xs \<and> (xs \<noteq> [] \<longrightarrow> cstr_head xs \<noteq> 0 \<and> cstr_at m (s + 1) (tl xs))"
  by (cases xs) (simp_all add: cstr_at_Cons cstr_at_Nil cstr_head_def)

lemma cstr_at_next: "cstr_at m s xs \<Longrightarrow> m s \<noteq> 0 \<Longrightarrow> cstr_at m (s + 1) (tl xs)"
  using cstr_at_uncons [of m s xs] by (cases xs) (simp_all add: cstr_head_def)

lemma unat_sub_Suc: "i < (n :: u32) \<Longrightarrow> unat (n - i) = Suc (unat (n - (i + 1)))"
proof -
  assume "i < n"
  then have "n - i \<noteq> 0" by auto
  moreover have "n - (i + 1) = (n - i) - 1" by simp
  ultimately show ?thesis using unat_minus_one [of "n - i"] by (metis Suc_pred unat_gt_0 One_nat_def)
qed

lemma strncmp_loop_ref:
  "cstr_at m (s1 + i) xs \<Longrightarrow> cstr_at m (s2 + i) ys \<Longrightarrow> i \<le> n \<Longrightarrow>
   strncmp_loop m s1 s2 n i = cmp_ref scast (unat (n - i)) xs ys"
proof (induction m s1 s2 n i arbitrary: xs ys rule: strncmp_loop.induct)
  case (1 m s1 s2 n i)
  note unf = strncmp_loop.simps [of m s1 s2 n i]
  have heads: "m (s1 + i) = cstr_head xs" "m (s2 + i) = cstr_head ys"
    using cstr_at_uncons "1.prems" by blast+
  consider "n \<le> i" | "i < n" "m (s1 + i) \<noteq> m (s2 + i) \<or> m (s1 + i) = 0"
    | "i < n" "\<not> (m (s1 + i) \<noteq> m (s2 + i) \<or> m (s1 + i) = 0)" by fastforce
  then show ?case
  proof cases
    case 1
    with "1.prems" show ?thesis by (subst unf) (auto simp: not_less)
  next
    case 2
    then show ?thesis by (subst unf) (simp add: unat_sub_Suc heads)
  next
    case 3
    have "cstr_at m (s1 + (i + 1)) (tl xs)" "cstr_at m (s2 + (i + 1)) (tl ys)"
      using cstr_at_next [OF "1.prems"(1)] cstr_at_next [OF "1.prems"(2)] 3(2) by (simp_all add: add.assoc)
    moreover have "i + 1 \<le> n" using 3(1) by (metis inc_le)
    ultimately have "strncmp_loop m s1 s2 n (i + 1) = cmp_ref scast (unat (n - (i + 1))) (tl xs) (tl ys)"
      by (rule "1.IH" [OF 3])
    then show ?thesis using 3 by (subst unf) (simp add: unat_sub_Suc heads)
  qed
qed

lemma ece391_strncmp_loop_ref:
  "cstr_at m s1 xs \<Longrightarrow> cstr_at m s2 ys \<Longrightarrow> n \<noteq> 0 \<Longrightarrow>
   ece391_strncmp_loop m s1 s2 n = cmp_ref ucast (unat n) xs ys"
proof (induction m s1 s2 n arbitrary: xs ys rule: ece391_strncmp_loop.induct)
  case (1 m s1 s2 n)
  note unf = ece391_strncmp_loop.simps [of m s1 s2 n]
  have heads: "m s1 = cstr_head xs" "m s2 = cstr_head ys"
    using cstr_at_uncons "1.prems" by blast+
  have n: "unat n = Suc (unat (n - 1))"
    using "1.prems"(3) by (simp add: unat_minus_one unat_gt_0)
  consider "m s1 \<noteq> m s2" | "m s1 = m s2" "m s1 = 0 \<or> n - 1 = 0" | "m s1 = m s2" "\<not> (m s1 = 0 \<or> n - 1 = 0)"
    by blast
  then show ?case
  proof cases
    case 1
    then show ?thesis by (subst unf) (simp add: n heads)
  next
    case 2
    then show ?thesis by (subst unf) (auto simp: n heads)
  next
    case 3
    have "cstr_at m (s1 + 1) (tl xs)" "cstr_at m (s2 + 1) (tl ys)" "n - 1 \<noteq> 0"
      using cstr_at_next "1.prems" 3 by (metis, metis, blast)
    then have "ece391_strncmp_loop m (s1 + 1) (s2 + 1) (n - 1) = cmp_ref ucast (unat (n - 1)) (tl xs) (tl ys)"
      by (rule "1.IH" [OF 3])
    then show ?thesis using 3 by (subst unf) (simp add: n heads)
  qed
qed

lemma cmp_ref_0:
  assumes "inj cast"
  shows "0 \<notin> set xs \<Longrightarrow> 0 \<notin> set ys \<Longrightarrow> cmp_ref cast k xs ys = 0 \<longleftrightarrow> take k xs = take k ys"
proof (induction k arbitrary: xs ys)
  case (Suc k)
  have "cast a - cast b = 0 \<longleftrightarrow> a = b" for a b
    using assms by (simp add: inj_eq)
  then show ?case
    using Suc by (cases xs; cases ys) (auto simp: cstr_head_def)
qed simp

lemma cmp_ref_cong:
  "(\<And>c. c \<in> insert 0 (set xs \<union> set ys) \<Longrightarrow> f c = g c) \<Longrightarrow> cmp_ref f k xs ys = cmp_ref g k xs ys"
proof (induction k arbitrary: xs ys)
  case (Suc k)
  have "cmp_ref f k (tl xs) (tl ys) = cmp_ref g k (tl xs) (tl ys)"
    by (rule Suc.IH) (use Suc.prems in \<open>cases xs; cases ys; auto\<close>)
  moreover have "f (cstr_head zs) = g (cstr_head zs)" if "zs \<in> {xs, ys}" for zs
    using that Suc.prems by (cases zs) (auto simp: cstr_head_def)
  ultimately show ?case by simp
qed simp

lemma inj_casts: "inj (scast :: u8 \<Rightarrow> i32)" "inj (ucast :: u8 \<Rightarrow> i32)"
proof -
  have "(ucast (scast (b :: u8) :: i32) :: u8) = b" for b
  proof (rule bit_word_eqI)
    fix n assume "n < LENGTH(8)"
    then consider "n < 7" | "n = 7" by fastforce
    then show "bit (ucast (scast b :: i32) :: u8) n = bit b n"
      by cases (auto simp: bit_simps)
  qed
  then show "inj (scast :: u8 \<Rightarrow> i32)" by (metis injI)
  show "inj (ucast :: u8 \<Rightarrow> i32)" by (metis injI ucast_up_down(1))
qed

lemma scast_ascii: "(c :: u8) < 128 \<Longrightarrow> scast c = (ucast c :: i32)"
proof -
  assume "c < 128"
  then have "\<not> bit (unat c) 7" by (simp add: bit_iff_odd word_less_nat_alt)
  then have "\<not> bit c 7" by (simp add: bit_unsigned_iff)
  moreover have "\<not> bit c n" if "7 \<le> n" for n
    using that calculation bit_u8_beyond [of n c] by (cases "n = 7") auto
  ultimately show ?thesis by (intro bit_word_eqI) (auto simp: bit_simps min_def)
qed

section \<open>Properties\<close>

text \<open>Both \<^verbatim>\<open>strlen\<close> and \<^verbatim>\<open>ece391_strlen\<close> return on every C string, with its length.\<close>

theorem strlen_spec:
  assumes "cstr_at m s xs"
  shows "strlen m s = Some (of_nat (length xs)) \<and> ece391_strlen m s = Some (of_nat (length xs))"
  using strlen_eq [OF assms] ece391_strlen_eq [OF assms] by simp

text \<open>\<^verbatim>\<open>strcpy\<close> and \<^verbatim>\<open>ece391_strcpy\<close> return on every C string whose copy does not run into the
  unread rest of the source; they leave the same memory, in which the destination is a C string equal
  to the source and every byte outside the copy is unchanged.\<close>

theorem strcpy_spec:
  assumes "cstr_at m src xs" "up_safe dest src (Suc (length xs))"
  shows "\<exists>m'. strcpy dest src m = Some m' \<and> ece391_strcpy dest src m = Some m' \<and> cstr_at m' dest xs \<and>
    (\<forall>a. length xs < unat (a - dest) \<longrightarrow> m' a = m a)"
  using strcpy_loop_copied [of dest 0 src xs m] ece391_strcpy_copied [OF assms(2,1)]
    cstr_at_copied [OF assms(1), of dest] assms
  by (auto simp: strcpy_def copied_def)

text \<open>C39: \<^verbatim>\<open>itoa\<close> and \<^verbatim>\<open>ece391_itoa\<close> return for every value and every radix from 2 to 36, leave the
  same memory with a C string at the buffer, touch no byte after its terminator, and reading the
  string back in that radix gives the value.\<close>

theorem itoa_roundtrip:
  assumes "2 \<le> radix" "radix \<le> 36"
  shows "\<exists>m' cs. itoa value buf radix m = Some m' \<and> ece391_itoa value buf radix m = Some m' \<and>
    cstr_at m' buf cs \<and> cs \<noteq> [] \<and> parse_number (unat radix) cs = unat value \<and>
    (\<forall>a. length cs < unat (a - buf) \<longrightarrow> m' a = m a)"
proof -
  have r: "2 \<le> unat radix" "unat radix \<le> 36" using assms by (auto simp: word_le_nat_alt)
  have "number_string (unat radix) (unat value) \<noteq> []"
    using r(1) by (auto simp: number_string_def digits_of_pos)
  moreover have "parse_number (unat radix) (number_string (unat radix) (unat value)) = unat value"
    using parse_digits [OF r] by (simp add: number_string_def) (simp add: parse_number_def char_digit_def)
  ultimately show ?thesis using itoa_string [OF assms] by blast
qed

lemma sample_cstr: "cstr_at (\<lambda>a. if a < 5 then 65 else 0) 2 [65, 65, 65]"
  by (simp add: cstr_at_Cons cstr_at_Nil)

theorem strlen_spec_witness: "strlen (\<lambda>a. if a < 5 then 65 else 0) 2 = Some 3"
  using strlen_spec [OF sample_cstr] by simp

theorem itoa_roundtrip_witness:
  "\<exists>m' cs. itoa 0xBEEF 100 16 (\<lambda>a. 0) = Some m' \<and> cstr_at m' 100 cs \<and> parse_number 16 cs = 0xBEEF"
  using itoa_roundtrip [of 16 "0xBEEF" 100 "\<lambda>a. 0"] by (auto simp: word_le_nat_alt)

lemma sample_up_safe: "up_safe 9 2 4"
  unfolding up_safe_def
proof (intro allI impI)
  fix i j :: nat assume "i < j \<and> j < 4"
  then have "unat (9 + of_nat i :: u32) = 9 + i" "unat (2 + of_nat j :: u32) = 2 + j" "j < 4"
    using unat_offset_add [of 9 4 i] unat_offset_add [of 2 4 j] by simp_all
  then show "9 + of_nat i \<noteq> (2 + of_nat j :: u32)" by fastforce
qed

theorem strcpy_spec_witness:
  "\<exists>m'. strcpy 9 2 (\<lambda>a. if a < 5 then 65 else 0) = Some m' \<and> cstr_at m' 9 [65, 65, 65]"
  using strcpy_spec [OF sample_cstr, of 9] sample_up_safe by (simp add: eval_nat_numeral) blast

text \<open>Comparing at most \<open>n\<close> bytes, the kernel's \<^verbatim>\<open>strncmp\<close> and the user library's
  \<^verbatim>\<open>ece391_strncmp\<close> both return 0 exactly when the strings agree on their first \<open>n\<close> bytes, and on
  strings of 7-bit characters they return the same value (the kernel compares signed characters, the
  library unsigned ones).\<close>

theorem strncmp_spec:
  assumes "cstr_at m s1 xs" "cstr_at m s2 ys"
  shows "(strncmp m s1 s2 n = 0 \<longleftrightarrow> take (unat n) xs = take (unat n) ys) \<and>
    (ece391_strncmp m s1 s2 n = 0 \<longleftrightarrow> take (unat n) xs = take (unat n) ys) \<and>
    ((\<forall>c \<in> set xs \<union> set ys. c < 128) \<longrightarrow> strncmp m s1 s2 n = ece391_strncmp m s1 s2 n)"
proof -
  have k: "strncmp m s1 s2 n = cmp_ref scast (unat n) xs ys"
    using strncmp_loop_ref [of m s1 0 xs s2 ys n] assms by (simp add: strncmp_def)
  have u: "ece391_strncmp m s1 s2 n = cmp_ref ucast (unat n) xs ys"
    using ece391_strncmp_loop_ref [OF assms, of n] by (simp add: ece391_strncmp_def)
  have nz: "0 \<notin> set xs" "0 \<notin> set ys" using assms by (simp_all add: cstr_at_def)
  have "(\<forall>c \<in> set xs \<union> set ys. c < 128) \<longrightarrow> cmp_ref scast (unat n) xs ys = cmp_ref ucast (unat n) xs ys"
    using scast_ascii by (auto intro!: cmp_ref_cong)
  then show ?thesis
    unfolding k u using cmp_ref_0 [OF inj_casts(1) nz] cmp_ref_0 [OF inj_casts(2) nz] by blast
qed

theorem strncmp_spec_witness:
  "strncmp (\<lambda>a. if a < 5 then 65 else 0) 2 3 2 = 0 \<and> strncmp (\<lambda>a. if a < 5 then 65 else 0) 2 3 3 \<noteq> 0"
proof -
  have "cstr_at (\<lambda>a. if a < 5 then 65 else 0) 3 [65, 65]"
    by (simp add: cstr_at_Cons cstr_at_Nil)
  note * = strncmp_spec [OF sample_cstr this]
  show ?thesis using * [of 2] * [of 3] by simp
qed

end
