(* ===== verification/PortIO.thy ===== *)
theory PortIO imports Prelude begin

text \<open>
  The port instructions of \<^verbatim>\<open>src/student-distrib/lib.h\<close> (\<^verbatim>\<open>inb\<close>, \<^verbatim>\<open>inw\<close>, \<^verbatim>\<open>outb\<close>, \<^verbatim>\<open>outw\<close>).
  The hardware behind the ports is not part of the program: it is the field \<open>device\<close>, any
  function from the accesses made so far (newest first) and a port to the value the next read of
  that port gives. The field \<open>hist\<close> records the accesses themselves, so that what a driver
  sends, and in which order, can be stated.
\<close>

datatype io_ev = Out8 u16 u8 | Out16 u16 u16 | In8 u16 | In16 u16

record io =
  hist :: "io_ev list"
  device :: "io_ev list \<Rightarrow> u16 \<Rightarrow> u32"

definition inb :: "u16 \<Rightarrow> io \<Rightarrow> u32 \<times> io" where
  "inb port s = (device s (hist s) port AND 0xFF, s\<lparr>hist := In8 port # hist s\<rparr>)"

definition inw :: "u16 \<Rightarrow> io \<Rightarrow> u32 \<times> io" where
  "inw port s = (device s (hist s) port AND 0xFFFF, s\<lparr>hist := In16 port # hist s\<rparr>)"

definition outb :: "u32 \<Rightarrow> u16 \<Rightarrow> io \<Rightarrow> io" where
  "outb data port s = s\<lparr>hist := Out8 port (ucast data) # hist s\<rparr>"

definition outw :: "u32 \<Rightarrow> u16 \<Rightarrow> io \<Rightarrow> io" where
  "outw data port s = s\<lparr>hist := Out16 port (ucast data) # hist s\<rparr>"

lemmas port_defs = inb_def inw_def outb_def outw_def

text \<open>The port accesses a driver makes are read oldest first.\<close>

definition io_since :: "io \<Rightarrow> io \<Rightarrow> io_ev list" where
  "io_since s s' = rev (take (length (hist s') - length (hist s)) (hist s'))"

text \<open>The accesses sent from \<open>s\<close> on, when \<open>s'\<close> extends its history.\<close>

lemma io_since_append: "hist s' = evs @ hist s \<Longrightarrow> io_since s s' = rev evs"
  by (simp add: io_since_def)

lemma device_ports [simp]:
  "device (snd (inb p s)) = device s" "device (snd (inw p s)) = device s"
  "device (outb d p s) = device s" "device (outw d p s) = device s"
  by (simp_all add: port_defs)

lemma hist_ports [simp]:
  "hist (snd (inb p s)) = In8 p # hist s" "hist (snd (inw p s)) = In16 p # hist s"
  "hist (outb d p s) = Out8 p (ucast d) # hist s" "hist (outw d p s) = Out16 p (ucast d) # hist s"
  by (simp_all add: port_defs)

end
