(* ===== verification/Ata.thy ===== *)
theory Ata imports PortIO Bytes begin

text \<open>
  The ATA disk driver of \<^verbatim>\<open>src/student-distrib/filesys.c\<close>: \<^verbatim>\<open>read_ata_sectors\<close> and
  \<^verbatim>\<open>write_ata_sectors\<close>, port access by port access. The polling loops end only when the drive
  answers, so they are partial functions; \<open>ata_responsive\<close> states the documented behaviour of a
  drive (it clears BSY after every access, and raises DRQ after a READ or WRITE command) and is
  the hypothesis under which the transfers return. The caller's buffer is a byte list, with its
  address kept for the \<^verbatim>\<open>NULL\<close> check.
\<close>

definition ATA_DATA :: u16 where "ATA_DATA = 0x1F0"
definition ATA_SECTOR_COUNT :: u16 where "ATA_SECTOR_COUNT = 0x1F2"
definition ATA_LBA_LOW :: u16 where "ATA_LBA_LOW = 0x1F3"
definition ATA_LBA_MID :: u16 where "ATA_LBA_MID = 0x1F4"
definition ATA_LBA_HIGH :: u16 where "ATA_LBA_HIGH = 0x1F5"
definition ATA_DRIVE_SELECT :: u16 where "ATA_DRIVE_SELECT = 0x1F6"
definition ATA_STATUS :: u16 where "ATA_STATUS = 0x1F7"

lemmas ata_ports = ATA_DATA_def ATA_SECTOR_COUNT_def ATA_LBA_LOW_def ATA_LBA_MID_def
  ATA_LBA_HIGH_def ATA_DRIVE_SELECT_def ATA_STATUS_def

abbreviation ATA_MASTER_DRIVE :: u32 where "ATA_MASTER_DRIVE \<equiv> 0xA0"
abbreviation ATA_DRQ :: u32 where "ATA_DRQ \<equiv> 0x08"
abbreviation ATA_BUSY :: u32 where "ATA_BUSY \<equiv> 0x80"
abbreviation ATA_CMD_READ :: u32 where "ATA_CMD_READ \<equiv> 0x20"
abbreviation ATA_CMD_WRITE :: u32 where "ATA_CMD_WRITE \<equiv> 0x30"
abbreviation ATA_CMD_FLUSH :: u32 where "ATA_CMD_FLUSH \<equiv> 0xE7"
abbreviation ATA_SECTOR_BOUND :: u32 where "ATA_SECTOR_BOUND \<equiv> 0x0FFFFFFF"
abbreviation ATA_SECTOR_SIZE :: nat where "ATA_SECTOR_SIZE \<equiv> 512"

section \<open>The driver\<close>

definition ata_command :: "u32 \<Rightarrow> u32 \<Rightarrow> io \<Rightarrow> io" where
  "ata_command index cmd s =
     (let s = outb (0xE0 OR (drop_bit 24 index AND 0xF)) ATA_DRIVE_SELECT s;
          s = outb 1 ATA_SECTOR_COUNT s;
          s = outb index ATA_LBA_LOW s;
          s = outb (drop_bit 8 index AND 0xFF) ATA_LBA_MID s;
          s = outb (drop_bit 16 index AND 0xFF) ATA_LBA_HIGH s
      in outb cmd ATA_STATUS s)"

text \<open>\<^verbatim>\<open>do status = inb(..); while (busy || !drq)\<close>, \<^verbatim>\<open>while (!drq)\<close>, \<^verbatim>\<open>while (busy)\<close>.\<close>

partial_function (option) poll_ready :: "io \<Rightarrow> io option" where
  "poll_ready s =
     (case inb ATA_STATUS s of (status, s') \<Rightarrow>
        if status AND ATA_BUSY \<noteq> 0 \<or> status AND ATA_DRQ = 0 then poll_ready s' else Some s')"

partial_function (option) poll_drq :: "io \<Rightarrow> io option" where
  "poll_drq s =
     (case inb ATA_STATUS s of (status, s') \<Rightarrow>
        if status AND ATA_DRQ = 0 then poll_drq s' else Some s')"

partial_function (option) poll_idle :: "io \<Rightarrow> io option" where
  "poll_idle s =
     (case inb ATA_STATUS s of (status, s') \<Rightarrow>
        if status AND ATA_BUSY \<noteq> 0 then poll_idle s' else Some s')"

text \<open>\<open>n\<close> words from the data port: the bytes stored and the running byte count.\<close>

fun read_words :: "nat \<Rightarrow> u32 \<Rightarrow> io \<Rightarrow> u32 \<times> u8 list \<times> io" where
  "read_words 0 bytes s = (bytes, [], s)"
| "read_words (Suc n) bytes s =
     (case inw ATA_DATA s of (w, s) \<Rightarrow>
      case read_words n (bytes + 2) s of (bytes, data, s) \<Rightarrow> (bytes, le16 (ucast w) @ data, s))"

fun read_sectors :: "nat \<Rightarrow> u32 \<Rightarrow> u32 \<Rightarrow> io \<Rightarrow> (u32 \<times> u8 list \<times> io) option" where
  "read_sectors 0 index bytes s = Some (bytes, [], s)"
| "read_sectors (Suc count) index bytes s = do {
     s \<leftarrow> poll_ready (ata_command index ATA_CMD_READ s);
     let (bytes, sector, s) = read_words (ATA_SECTOR_SIZE div 2) bytes s;
     (bytes, data, s) \<leftarrow> read_sectors count (index + 1) bytes s;
     Some (bytes, sector @ data, s)
   }"

definition read_ata_sectors :: "u32 \<Rightarrow> u32 \<Rightarrow> u32 \<Rightarrow> io \<Rightarrow> (u32 \<times> u8 list \<times> io) option" where
  "read_ata_sectors index count buf s =
     (if buf = 0 \<or> count = 0 \<or> index \<ge> ATA_SECTOR_BOUND then Some (0, [], s)
      else read_sectors (unat count) index 0 s)"

text \<open>Each word written is followed by a cache flush and a wait for the drive.\<close>

fun write_words :: "u8 list \<Rightarrow> u32 \<Rightarrow> io \<Rightarrow> (u32 \<times> io) option" where
  "write_words (a # b # buf) bytes s = do {
     let s = outw (ucast (of_le16 [a, b])) ATA_DATA s;
     let s = outb ATA_MASTER_DRIVE ATA_DRIVE_SELECT s;
     let s = outb ATA_CMD_FLUSH ATA_STATUS s;
     s \<leftarrow> poll_idle s;
     write_words buf (bytes + 2) s
   }"
| "write_words _ bytes s = Some (bytes, s)"

fun write_sectors :: "nat \<Rightarrow> u32 \<Rightarrow> u8 list \<Rightarrow> u32 \<Rightarrow> io \<Rightarrow> (u32 \<times> io) option" where
  "write_sectors 0 index buf bytes s = Some (bytes, s)"
| "write_sectors (Suc count) index buf bytes s = do {
     s \<leftarrow> poll_drq (ata_command index ATA_CMD_WRITE s);
     sector \<leftarrow> slice_opt buf 0 ATA_SECTOR_SIZE;
     (bytes, s) \<leftarrow> write_words sector bytes s;
     write_sectors count (index + 1) (drop ATA_SECTOR_SIZE buf) bytes s
   }"

definition write_ata_sectors ::
    "u32 \<Rightarrow> u32 \<Rightarrow> u32 \<Rightarrow> u8 list \<Rightarrow> io \<Rightarrow> (u32 \<times> io) option" where
  "write_ata_sectors index count buf src s =
     (if buf = 0 \<or> count = 0 \<or> index \<ge> ATA_SECTOR_BOUND then Some (0, s)
      else write_sectors (unat count) index src 0 s)"

section \<open>A drive that answers\<close>

abbreviation status_reads :: "nat \<Rightarrow> io_ev list" where
  "status_reads n \<equiv> replicate n (In8 ATA_STATUS)"

definition ata_responsive :: "(io_ev list \<Rightarrow> u16 \<Rightarrow> u32) \<Rightarrow> bool" where
  "ata_responsive dev \<longleftrightarrow>
     (\<forall>h. \<exists>n. dev (status_reads n @ h) ATA_STATUS AND ATA_BUSY = 0) \<and>
     (\<forall>h cmd. cmd \<in> {ucast ATA_CMD_READ, ucast ATA_CMD_WRITE} \<longrightarrow>
        (\<exists>n. let st = dev (status_reads n @ Out8 ATA_STATUS cmd # h) ATA_STATUS
             in st AND ATA_BUSY = 0 \<and> st AND ATA_DRQ \<noteq> 0))"

lemma status_low_byte: "(w AND 0xFF) AND m = w AND m" if "m AND 0xFF = m" for w m :: u32
  using that by (metis and.assoc and.commute)

lemma status_bits [simp]:
  "((w :: u32) AND 0xFF) AND ATA_BUSY = w AND ATA_BUSY"
  "((w :: u32) AND 0xFF) AND ATA_DRQ = w AND ATA_DRQ"
  by (simp_all add: status_low_byte)

text \<open>A polling loop stops at the first answer that satisfies it: shared by the three loops.\<close>

definition poll_stop :: "(u32 \<Rightarrow> bool) \<Rightarrow> io \<Rightarrow> io \<Rightarrow> bool" where
  "poll_stop ok s s' \<longleftrightarrow> device s' = device s \<and> (\<exists>n. hist s' = status_reads n @ hist s)"

lemma poll_returns:
  assumes step: "\<And>s. poll s = (if ok (device s (hist s) ATA_STATUS)
      then Some (snd (inb ATA_STATUS s)) else poll (snd (inb ATA_STATUS s)))"
    and answer: "ok (device s (status_reads n @ hist s) ATA_STATUS)"
  shows "\<exists>s'. poll s = Some s' \<and> poll_stop ok s s'"
  using answer
proof (induction n arbitrary: s)
  case 0
  then show ?case
    by (subst step) (auto simp: poll_stop_def intro!: exI [of _ 1])
next
  case (Suc n)
  let ?t = "snd (inb ATA_STATUS s)"
  show ?case
  proof (cases "ok (device s (hist s) ATA_STATUS)")
    case True
    then show ?thesis by (subst step) (auto simp: poll_stop_def intro!: exI [of _ 1])
  next
    case False
    have "ok (device ?t (status_reads n @ hist ?t) ATA_STATUS)"
      using Suc.prems by (simp add: replicate_app_Cons_same)
    from Suc.IH [OF this] obtain s' where s': "poll ?t = Some s'" "poll_stop ok ?t s'" by blast
    from s'(2) obtain k where "hist s' = status_reads (Suc k) @ hist s"
      by (auto simp: poll_stop_def replicate_app_Cons_same)
    moreover have "device s' = device s"
      using s'(2) by (simp add: poll_stop_def)
    ultimately have "poll_stop ok s s'"
      unfolding poll_stop_def by blast
    with s'(1) False show ?thesis by (subst step) simp
  qed
qed

lemma ata_responsive_idle:
  assumes "ata_responsive dev"
  obtains n where "dev (status_reads n @ h) ATA_STATUS AND ATA_BUSY = 0"
  using assms unfolding ata_responsive_def by blast

lemma ata_responsive_drq:
  assumes "ata_responsive dev" "cmd \<in> {ucast ATA_CMD_READ, ucast ATA_CMD_WRITE}"
  obtains n where "dev (status_reads n @ Out8 ATA_STATUS cmd # h) ATA_STATUS AND ATA_BUSY = 0"
    "dev (status_reads n @ Out8 ATA_STATUS cmd # h) ATA_STATUS AND ATA_DRQ \<noteq> 0"
  using assms unfolding ata_responsive_def Let_def by blast

lemma poll_ready_returns:
  assumes "ata_responsive (device s)" "hist s = Out8 ATA_STATUS (ucast ATA_CMD_READ) # h"
  shows "\<exists>s'. poll_ready s = Some s' \<and> poll_stop (\<lambda>st. st AND ATA_BUSY = 0 \<and> st AND ATA_DRQ \<noteq> 0) s s'"
proof -
  obtain n where "device s (status_reads n @ hist s) ATA_STATUS AND ATA_BUSY = 0 \<and>
      device s (status_reads n @ hist s) ATA_STATUS AND ATA_DRQ \<noteq> 0"
    using ata_responsive_drq [OF assms(1), of "ucast ATA_CMD_READ" h] assms(2)
    by (metis insertI1)
  then show ?thesis
    by (intro poll_returns [where n = n]) (subst poll_ready.simps, auto simp: inb_def)
qed

lemma poll_drq_returns:
  assumes "ata_responsive (device s)" "hist s = Out8 ATA_STATUS (ucast ATA_CMD_WRITE) # h"
  shows "\<exists>s'. poll_drq s = Some s' \<and> poll_stop (\<lambda>st. st AND ATA_DRQ \<noteq> 0) s s'"
proof -
  obtain n where "device s (status_reads n @ hist s) ATA_STATUS AND ATA_DRQ \<noteq> 0"
    using ata_responsive_drq [OF assms(1), of "ucast ATA_CMD_WRITE" h] assms(2)
    by (metis insertI1 insertI2)
  then show ?thesis
    by (intro poll_returns [where n = n]) (subst poll_drq.simps, auto simp: inb_def)
qed

lemma poll_idle_returns:
  assumes "ata_responsive (device s)"
  shows "\<exists>s'. poll_idle s = Some s' \<and> poll_stop (\<lambda>st. st AND ATA_BUSY = 0) s s'"
proof -
  obtain n where "device s (status_reads n @ hist s) ATA_STATUS AND ATA_BUSY = 0"
    by (rule ata_responsive_idle [OF assms])
  then show ?thesis
    by (intro poll_returns [where n = n]) (subst poll_idle.simps, auto simp: inb_def)
qed

section \<open>What the driver transfers\<close>

text \<open>The words sent to the data port, oldest first, in a history.\<close>

fun data_sent :: "io_ev list \<Rightarrow> u16 list" where
  "data_sent [] = []"
| "data_sent (Out16 p w # h) = data_sent h @ (if p = ATA_DATA then [w] else [])"
| "data_sent (_ # h) = data_sent h"

lemma data_sent_status_reads [simp]: "data_sent (status_reads n @ h) = data_sent h"
  by (induction n) auto

lemma data_sent_command [simp]: "data_sent (hist (ata_command i c s)) = data_sent (hist s)"
  by (simp add: ata_command_def Let_def)

lemma ata_command_device [simp]: "device (ata_command i c s) = device s"
  by (simp add: ata_command_def Let_def)

lemma ata_command_hist: "\<exists>h. hist (ata_command i c s) = Out8 ATA_STATUS (ucast c) # h"
  by (simp add: ata_command_def Let_def)

lemma read_words_props:
  "read_words n bytes s = (b, data, s') \<Longrightarrow>
     b = bytes + of_nat (2 * n) \<and> length data = 2 * n \<and> device s' = device s"
proof (induction n arbitrary: bytes b data s s')
  case 0
  then show ?case by simp
next
  case (Suc n)
  obtain w t where w: "inw ATA_DATA s = (w, t)" by (cases "inw ATA_DATA s")
  then have "device t = device s" by (metis device_ports(2) snd_conv)
  obtain b1 d1 t1 where r: "read_words n (bytes + 2) t = (b1, d1, t1)"
    by (metis prod_cases3)
  from Suc.IH [OF r] Suc.prems w r \<open>device t = device s\<close> show ?case
    by (auto simp: algebra_simps)
qed

lemma poll_stopD:
  "poll_stop ok s s' \<Longrightarrow> device s' = device s \<and> data_sent (hist s') = data_sent (hist s)"
  by (auto simp: poll_stop_def)

lemma read_sectors_returns:
  "ata_responsive (device s) \<Longrightarrow>
   \<exists>data s'. read_sectors n index bytes s = Some (bytes + of_nat (ATA_SECTOR_SIZE * n), data, s') \<and>
     length data = ATA_SECTOR_SIZE * n \<and> device s' = device s"
proof (induction n arbitrary: index bytes s)
  case 0
  then show ?case by simp
next
  case (Suc n)
  let ?c = "ata_command index ATA_CMD_READ s"
  obtain h where "hist ?c = Out8 ATA_STATUS (ucast ATA_CMD_READ) # h"
    using ata_command_hist by blast
  from poll_ready_returns [OF _ this] Suc.prems obtain t
    where t: "poll_ready ?c = Some t" "device t = device s"
    by (auto dest!: poll_stopD)
  obtain b1 d1 u where r: "read_words 256 bytes t = (b1, d1, u)" by (metis prod_cases3)
  note p = read_words_props [OF r]
  from Suc.IH [of u "index + 1" b1] Suc.prems p t obtain d2 s'
    where "read_sectors n (index + 1) b1 u = Some (b1 + of_nat (ATA_SECTOR_SIZE * n), d2, s')"
      "length d2 = ATA_SECTOR_SIZE * n" "device s' = device u"
    by auto
  with t r p show ?case by (simp add: algebra_simps)
qed

lemma write_words_returns:
  "ata_responsive (device s) \<Longrightarrow> even (length buf) \<Longrightarrow>
   \<exists>s'. write_words buf bytes s = Some (bytes + of_nat (length buf), s') \<and>
     data_sent (hist s') = data_sent (hist s) @ le16s buf \<and> device s' = device s"
proof (induction buf bytes s rule: write_words.induct)
  case (1 a b buf bytes s)
  let ?t = "outb ATA_CMD_FLUSH ATA_STATUS (outb ATA_MASTER_DRIVE ATA_DRIVE_SELECT
      (outw (ucast (of_le16 [a, b])) ATA_DATA s))"
  from poll_idle_returns [of ?t] "1.prems"(1) obtain u where u: "poll_idle ?t = Some u"
      "device u = device s" "data_sent (hist u) = data_sent (hist s) @ [of_le16 [a, b]]"
    by (auto dest!: poll_stopD)
  have "ata_responsive (device u)" "even (length buf)" using "1.prems" u by auto
  from "1.IH" [OF refl refl refl u(1) this] obtain s'
    where "write_words buf (bytes + 2) u = Some (bytes + 2 + of_nat (length buf), s')"
      "data_sent (hist s') = data_sent (hist u) @ le16s buf" "device s' = device u"
    by blast
  with u show ?case by (simp add: algebra_simps)
qed auto

lemma write_sectors_returns:
  "ata_responsive (device s) \<Longrightarrow> ATA_SECTOR_SIZE * n \<le> length buf \<Longrightarrow>
   \<exists>s'. write_sectors n index buf bytes s = Some (bytes + of_nat (ATA_SECTOR_SIZE * n), s') \<and>
     data_sent (hist s') = data_sent (hist s) @ le16s (take (ATA_SECTOR_SIZE * n) buf) \<and>
     device s' = device s"
proof (induction n arbitrary: index buf bytes s)
  case 0
  then show ?case by simp
next
  case (Suc n)
  let ?c = "ata_command index ATA_CMD_WRITE s"
  let ?sec = "take ATA_SECTOR_SIZE buf" and ?rest = "drop ATA_SECTOR_SIZE buf"
  obtain h where "hist ?c = Out8 ATA_STATUS (ucast ATA_CMD_WRITE) # h"
    using ata_command_hist by blast
  from poll_drq_returns [OF _ this] Suc.prems obtain t
    where t: "poll_drq ?c = Some t" "device t = device s" "data_sent (hist t) = data_sent (hist s)"
    by (auto dest!: poll_stopD)
  have sec: "length ?sec = ATA_SECTOR_SIZE" using Suc.prems by simp
  from write_words_returns [of t ?sec bytes] Suc.prems(1) t sec obtain u
    where u: "write_words ?sec bytes t = Some (bytes + of_nat ATA_SECTOR_SIZE, u)"
      "data_sent (hist u) = data_sent (hist s) @ le16s ?sec" "device u = device s"
    by auto
  have "ata_responsive (device u)" "ATA_SECTOR_SIZE * n \<le> length ?rest"
    using Suc.prems u by auto
  from Suc.IH [OF this, of "index + 1" "bytes + of_nat ATA_SECTOR_SIZE"] obtain s'
    where s': "write_sectors n (index + 1) ?rest (bytes + of_nat ATA_SECTOR_SIZE) u
        = Some (bytes + of_nat ATA_SECTOR_SIZE + of_nat (ATA_SECTOR_SIZE * n), s')"
      "data_sent (hist s') = data_sent (hist u) @ le16s (take (ATA_SECTOR_SIZE * n) ?rest)"
      "device s' = device u" by blast
  have "take (ATA_SECTOR_SIZE * Suc n) buf = ?sec @ take (ATA_SECTOR_SIZE * n) ?rest"
    by (simp add: take_add [symmetric] algebra_simps flip: take_add)
  then have "le16s (take (ATA_SECTOR_SIZE * Suc n) buf)
      = le16s ?sec @ le16s (take (ATA_SECTOR_SIZE * n) ?rest)"
    using sec by (simp add: le16s_append)
  with t u s' Suc.prems show ?case by (simp add: checked_simps algebra_simps)
qed

section \<open>Properties\<close>

text \<open>With a drive that answers, \<^verbatim>\<open>read_ata_sectors\<close> returns for every sector count, reports
  \<open>512 * count\<close> bytes (modulo 2^32) and stores exactly that many; for a null buffer, a zero count or
  a first sector outside the 28-bit range it returns 0, stores nothing and touches no port.\<close>

theorem read_ata_sectors_returns:
  assumes "ata_responsive (device s)"
  shows "\<exists>data s'. read_ata_sectors index count buf s =
      Some (if buf = 0 \<or> ATA_SECTOR_BOUND \<le> index then 0 else 512 * count, data, s') \<and>
    length data = (if buf = 0 \<or> ATA_SECTOR_BOUND \<le> index then 0 else 512 * unat count) \<and>
    (buf = 0 \<or> count = 0 \<or> ATA_SECTOR_BOUND \<le> index \<longrightarrow> s' = s)"
  using read_sectors_returns [OF assms, of "unat count" index 0]
  by (auto simp: read_ata_sectors_def)

text \<open>With a drive that answers, \<^verbatim>\<open>write_ata_sectors\<close> returns and the words it sends to the
  data port are, in order and with nothing in between, the first \<open>512 * count\<close> bytes of the buffer
  taken as little-endian words.\<close>

theorem write_ata_sectors_sends:
  assumes "ata_responsive (device s)" "buf \<noteq> 0" "index < ATA_SECTOR_BOUND"
    and "512 * unat count \<le> length src"
  shows "\<exists>s'. write_ata_sectors index count buf src s = Some (512 * count, s') \<and>
    data_sent (hist s') = data_sent (hist s) @ le16s (take (512 * unat count) src)"
  using write_sectors_returns [OF assms(1,4), of index 0] assms(2,3)
  by (auto simp: write_ata_sectors_def not_le [symmetric])

text \<open>A drive that is always ready, with the word 0x4241 in every position.\<close>

definition ready_drive :: io where
  "ready_drive = \<lparr>hist = [], device = (\<lambda>h port. if port = ATA_STATUS then ATA_DRQ else 0x4241)\<rparr>"

lemma ready_drive_responsive: "ata_responsive (device ready_drive)"
  by (simp add: ata_responsive_def ready_drive_def)

theorem read_ata_sectors_returns_witness:
  "\<exists>data s'. read_ata_sectors 0 2 1 ready_drive = Some (1024, data, s') \<and> length data = 1024"
  using read_ata_sectors_returns [OF ready_drive_responsive, of 0 2 1] by (auto simp: word_le_nat_alt)

theorem write_ata_sectors_sends_witness:
  "\<exists>s'. write_ata_sectors 5000 1 1 (replicate 600 7) ready_drive = Some (512, s') \<and>
     data_sent (hist s') = le16s (replicate 512 7)"
  using write_ata_sectors_sends [OF ready_drive_responsive, of 1 5000 1 "replicate 600 7"]
  by (auto simp: ready_drive_def)

end
