(* ===== verification/FileSys.thy ===== *)
theory FileSys imports Ata begin

text \<open>
  The file system of \<^verbatim>\<open>src/student-distrib/filesys.c\<close> and \<^verbatim>\<open>filesys.h\<close>: the boot block with its
  directory entries, the inodes, the data blocks and the two allocation bitmaps, and the
  functions that look entries up, read and write file data and search for free blocks.

  The structures are records over lists with the lengths of the C arrays; an index outside an
  array has no defined result (\<open>None\<close>). A file name is the byte string up to its terminator,
  \<open>None\<close> for a null pointer. A destination buffer is its address (for the null check) and the
  bytes stored from that address on; a source buffer is its address and its bytes.
\<close>

abbreviation FS_BLOCK_SIZE :: u32 where "FS_BLOCK_SIZE \<equiv> 4096"
abbreviation FS_MAX_LEN :: nat where "FS_MAX_LEN \<equiv> 32"
abbreviation DENTRY_COUNT :: nat where "DENTRY_COUNT \<equiv> 63"
abbreviation BLOCKS_PER_INODE :: nat where "BLOCKS_PER_INODE \<equiv> 1023"
abbreviation BITMAP_SIZE :: nat where "BITMAP_SIZE \<equiv> 64"

section \<open>The on-disk structures\<close>

record inode_t =
  file_size :: u32
  inode_data_blocks :: "u32 list"

record dentry_t =
  file_name :: "u8 list"
  file_type :: u32
  inode_num :: u32
  dentry_reserved :: "u8 list"

type_synonym data_block_t = "u8 list"

record boot_block_t =
  dentry_count :: u32
  inode_count :: u32
  data_block_count :: u32
  boot_reserved :: "u8 list"
  dentries :: "dentry_t list"

record fsys =
  boot_block :: boot_block_t
  inode_blocks :: "inode_t list"
  data_blocks :: "data_block_t list"
  inode_bitmap :: "u8 list"
  data_block_bitmap :: "u8 list"
  boot_block_addr :: u32

text \<open>The structures as the bytes a cast to \<^verbatim>\<open>uint8_t *\<close> exposes.\<close>

definition inode_bytes :: "inode_t \<Rightarrow> u8 list" where
  "inode_bytes n = le32 (file_size n) @ concat (map le32 (inode_data_blocks n))"

definition dentry_bytes :: "dentry_t \<Rightarrow> u8 list" where
  "dentry_bytes d = file_name d @ le32 (file_type d) @ le32 (inode_num d) @ dentry_reserved d"

definition boot_block_bytes :: "boot_block_t \<Rightarrow> u8 list" where
  "boot_block_bytes b = le32 (dentry_count b) @ le32 (inode_count b) @ le32 (data_block_count b)
     @ boot_reserved b @ concat (map dentry_bytes (dentries b))"

definition image_bytes :: "fsys \<Rightarrow> u8 list" where
  "image_bytes fs = boot_block_bytes (boot_block fs)
     @ concat (map inode_bytes (inode_blocks fs)) @ concat (data_blocks fs)"

section \<open>Directory lookup\<close>

text \<open>Byte \<open>j\<close> of a C string (its terminator after the last byte), and byte \<open>j\<close> from the start
  of a directory entry's name: the byte after the 32 name bytes is the first of \<^verbatim>\<open>file_type\<close>.\<close>

definition cstr_byte :: "u8 list \<Rightarrow> nat \<Rightarrow> u8" where
  "cstr_byte s j = (if j < length s then s ! j else 0)"

definition name_byte :: "dentry_t \<Rightarrow> nat \<Rightarrow> u8" where
  "name_byte d j = (file_name d @ le32 (file_type d)) ! j"

text \<open>The comparison loop: the number of leading bytes that agree, at most 32.\<close>

function name_cmp :: "u8 list \<Rightarrow> dentry_t \<Rightarrow> nat \<Rightarrow> nat" where
  "name_cmp s d j =
     (if j < FS_MAX_LEN \<and> cstr_byte s j \<noteq> 0 \<and> cstr_byte s j = name_byte d j
      then name_cmp s d (Suc j) else j)"
  by pat_completeness auto
termination by (relation "measure (\<lambda>(s, d, j). FS_MAX_LEN - j)") auto

declare name_cmp.simps [simp del]

definition name_matches :: "u8 list \<Rightarrow> dentry_t \<Rightarrow> bool" where
  "name_matches s d =
     (let j = name_cmp s d 0
      in cstr_byte s j = 0 \<and> (name_byte d j = 0 \<or> j = FS_MAX_LEN))"

text \<open>The directory is scanned from entry \<open>i\<close>; the result is the entry's index and a copy of
  it, or -1.\<close>

function find_dentry :: "fsys \<Rightarrow> u8 list \<Rightarrow> nat \<Rightarrow> (i32 \<times> dentry_t option) option" where
  "find_dentry fs s i =
     (if i < unat (dentry_count (boot_block fs)) then do {
        d \<leftarrow> nth_opt (dentries (boot_block fs)) i;
        if name_matches s d then Some (of_nat i, Some d) else find_dentry fs s (Suc i)
      } else Some (-1, None))"
  by pat_completeness auto
termination
  by (relation "measure (\<lambda>(fs, s, i). unat (dentry_count (boot_block fs)) - i)") auto

declare find_dentry.simps [simp del]

definition read_dentry_by_name ::
    "fsys \<Rightarrow> u8 list option \<Rightarrow> (i32 \<times> dentry_t option) option" where
  "read_dentry_by_name fs name =
     (case name of None \<Rightarrow> Some (-1, None) | Some s \<Rightarrow> find_dentry fs s 0)"

text \<open>The pointer parameter is assigned, not written through: the caller's entry is unchanged.\<close>

definition read_dentry_by_index :: "fsys \<Rightarrow> u32 \<Rightarrow> dentry_t \<Rightarrow> i32 \<times> dentry_t" where
  "read_dentry_by_index fs index dentry =
     (if index \<ge> dentry_count (boot_block fs) then (-1, dentry) else (0, dentry))"

section \<open>Reading file data\<close>

text \<open>\<^verbatim>\<open>memcpy(_, data_blocks[b].data + off, n)\<close> and \<^verbatim>\<open>memcpy(data_blocks[b].data + off, bytes, _)\<close>.\<close>

definition copy_from_block :: "fsys \<Rightarrow> u32 \<Rightarrow> nat \<Rightarrow> nat \<Rightarrow> u8 list option" where
  "copy_from_block fs b off n =
     (if n = 0 then Some []
      else do { d \<leftarrow> nth_opt (data_blocks fs) (unat b); slice_opt d off n })"

definition copy_to_block :: "fsys \<Rightarrow> u32 \<Rightarrow> nat \<Rightarrow> u8 list \<Rightarrow> fsys option" where
  "copy_to_block fs b off bytes =
     (if bytes = [] then Some fs
      else do {
        d \<leftarrow> nth_opt (data_blocks fs) (unat b);
        d \<leftarrow> blit_opt d off bytes;
        Some (fs\<lparr>data_blocks := (data_blocks fs)[unat b := d]\<rparr>)
      })"

text \<open>The loop over whole blocks and the copy of what is left after it.\<close>

function read_blocks :: "fsys \<Rightarrow> inode_t \<Rightarrow> nat \<Rightarrow> u32 \<Rightarrow> u8 list option" where
  "read_blocks fs n block remain =
     (if remain AND NOT (FS_BLOCK_SIZE - 1) \<noteq> 0 then do {
        b \<leftarrow> nth_opt (inode_data_blocks n) block;
        bytes \<leftarrow> copy_from_block fs b 0 BLK;
        rest \<leftarrow> read_blocks fs n (Suc block) (remain - FS_BLOCK_SIZE);
        Some (bytes @ rest)
      } else do {
        b \<leftarrow> nth_opt (inode_data_blocks n) block;
        copy_from_block fs b 0 (unat remain)
      })"
  by pat_completeness auto

termination read_blocks
  by (relation "measure (\<lambda>(fs, n, block, remain). unat remain)")
     (auto simp: block_simps)

declare read_blocks.simps [simp del]

definition read_data ::
    "fsys \<Rightarrow> u32 \<Rightarrow> u32 \<Rightarrow> u32 \<Rightarrow> u32 \<Rightarrow> (i32 \<times> u8 list) option" where
  "read_data fs inode offset buf len =
     (if buf = 0 \<or> len = 0 \<or> inode \<ge> inode_count (boot_block fs) then Some (-1, [])
      else do {
        n \<leftarrow> nth_opt (inode_blocks fs) (unat inode);
        if offset \<ge> file_size n then Some (0, [])
        else
          let remain = file_size n - offset;
              len = (if remain < len then remain else len);
              index = unat (drop_bit 12 offset);
              offset = offset AND (FS_BLOCK_SIZE - 1);
              remain = FS_BLOCK_SIZE - offset
          in do {
            b \<leftarrow> nth_opt (inode_data_blocks n) index;
            if remain \<ge> len then do {
              bytes \<leftarrow> copy_from_block fs b (unat offset) (unat len);
              Some (len, bytes)
            } else do {
              bytes \<leftarrow> copy_from_block fs b (unat offset) (unat remain);
              rest \<leftarrow> read_blocks fs n (Suc index) (len - remain);
              Some (len, bytes @ rest)
            }
          }
      })"

section \<open>Allocation and writing\<close>

text \<open>Both searches scan \<^verbatim>\<open>data_block_bitmap\<close>, from number 1 on; -1 when nothing is free.\<close>

function find_free :: "u8 list \<Rightarrow> nat \<Rightarrow> nat \<Rightarrow> u32 option" where
  "find_free bitmap i bound =
     (if i < bound then do {
        used \<leftarrow> nth_opt bitmap i;
        if used = 0 then Some (of_nat i) else find_free bitmap (Suc i) bound
      } else Some (-1))"
  by pat_completeness auto
termination by (relation "measure (\<lambda>(bitmap, i, bound). bound - i)") auto

declare find_free.simps [simp del]

definition find_free_datablock :: "fsys \<Rightarrow> u32 option" where
  "find_free_datablock fs =
     find_free (data_block_bitmap fs) 1 (unat (data_block_count (boot_block fs)))"

definition find_free_inode :: "fsys \<Rightarrow> u32 option" where
  "find_free_inode fs =
     find_free (data_block_bitmap fs) 1 (unat (inode_count (boot_block fs)))"

definition get_inode_block :: "fsys \<Rightarrow> u32 \<Rightarrow> nat \<Rightarrow> u32 option" where
  "get_inode_block fs inode block = do {
     n \<leftarrow> nth_opt (inode_blocks fs) (unat inode);
     nth_opt (inode_data_blocks n) block
   }"

definition set_inode_block :: "fsys \<Rightarrow> u32 \<Rightarrow> nat \<Rightarrow> u32 \<Rightarrow> fsys option" where
  "set_inode_block fs inode block b = do {
     n \<leftarrow> nth_opt (inode_blocks fs) (unat inode);
     bs \<leftarrow> upd_opt (inode_data_blocks n) block b;
     Some (fs\<lparr>inode_blocks := (inode_blocks fs)[unat inode := n\<lparr>inode_data_blocks := bs\<rparr>]\<rparr>)
   }"

text \<open>The loop over whole blocks: \<open>block\<close> has just been given a free block, \<open>pos\<close> is the
  position in the source buffer.\<close>

function write_blocks ::
    "fsys \<Rightarrow> u32 \<Rightarrow> nat \<Rightarrow> u8 list \<Rightarrow> nat \<Rightarrow> u32 \<Rightarrow> fsys option" where
  "write_blocks fs inode block src pos remain =
     (if remain AND NOT (FS_BLOCK_SIZE - 1) \<noteq> 0 then do {
        b \<leftarrow> get_inode_block fs inode block;
        bytes \<leftarrow> slice_opt src pos BLK;
        fs \<leftarrow> copy_to_block fs b 0 bytes;
        free \<leftarrow> find_free_datablock fs;
        fs \<leftarrow> set_inode_block fs inode (Suc block) free;
        write_blocks fs inode (Suc block) src (pos + BLK) (remain - FS_BLOCK_SIZE)
      } else do {
        b \<leftarrow> get_inode_block fs inode block;
        bytes \<leftarrow> slice_opt src pos (unat remain);
        copy_to_block fs b 0 bytes
      })"
  by pat_completeness auto
termination
  by (relation "measure (\<lambda>(fs, inode, block, src, pos, remain). unat remain)")
     (auto simp: block_simps)

declare write_blocks.simps [simp del]

text \<open>The copy into the file's blocks, from block \<open>index\<close> of the inode and byte \<open>offset\<close> of that
  block; \<open>False\<close> is the early \<^verbatim>\<open>return -1\<close>.\<close>

definition write_range ::
    "fsys \<Rightarrow> u32 \<Rightarrow> nat \<Rightarrow> u32 \<Rightarrow> u8 list \<Rightarrow> u32 \<Rightarrow> (bool \<times> fsys) option" where
  "write_range fs inode index offset src len =
     (let remain = FS_BLOCK_SIZE - offset in do {
        b \<leftarrow> get_inode_block fs inode index;
        if remain \<ge> len then do {
          bytes \<leftarrow> slice_opt src 0 (unat len);
          fs \<leftarrow> copy_to_block fs b (unat offset) bytes;
          Some (True, fs)
        } else do {
          (b, fs) \<leftarrow> (if b = 0 then do {
              free \<leftarrow> find_free_datablock fs;
              fs \<leftarrow> set_inode_block fs inode index free;
              Some (free, fs)
            } else Some (b, fs));
          if b = 0 then Some (False, fs)
          else do {
            bytes \<leftarrow> slice_opt src 0 (unat remain);
            fs \<leftarrow> copy_to_block fs b (unat offset) bytes;
            free \<leftarrow> find_free_datablock fs;
            fs \<leftarrow> set_inode_block fs inode (Suc index) free;
            fs \<leftarrow> write_blocks fs inode (Suc index) src (unat remain) (len - remain);
            Some (True, fs)
          }
        }
      })"

definition flush_image :: "fsys \<Rightarrow> io \<Rightarrow> io option" where
  "flush_image fs s = do {
     (_, s) \<leftarrow> write_ata_sectors 5000
        (inode_count (boot_block fs) + data_block_count (boot_block fs) + 1)
        (boot_block_addr fs) (image_bytes fs) s;
     Some s
   }"

definition write_data ::
    "fsys \<Rightarrow> u32 \<Rightarrow> u32 \<Rightarrow> u32 \<Rightarrow> u8 list \<Rightarrow> u32 \<Rightarrow> io \<Rightarrow> (i32 \<times> fsys \<times> io) option" where
  "write_data fs inode offset buf src len s =
     (if buf = 0 \<or> len = 0 \<or> inode \<ge> inode_count (boot_block fs) then Some (-1, fs, s)
      else do {
        n \<leftarrow> nth_opt (inode_blocks fs) (unat inode);
        if offset > file_size n then Some (0, fs, s)
        else
          let fs = (if offset + len > file_size n
                    then fs\<lparr>inode_blocks := (inode_blocks fs)[unat inode := n\<lparr>file_size := offset + len\<rparr>]\<rparr>
                    else fs);
              index = unat (drop_bit 12 offset);
              offset = offset AND (FS_BLOCK_SIZE - 1)
          in do {
            (ok, fs) \<leftarrow> write_range fs inode index offset src len;
            if \<not> ok then Some (-1, fs, s)
            else do {
              s \<leftarrow> flush_image fs s;
              Some (len, fs, s)
            }
          }
      })"

end
