(* ===== verification/FileRead.thy ===== *)
theory FileRead imports FileSys begin

text \<open>
  What reading a file means: \<open>file_bytes\<close> is the byte string a file holds, and \<^verbatim>\<open>read_data\<close>, with
  its block arithmetic on 32-bit words and its loop over whole blocks, returns a slice of it.
\<close>

section \<open>Uniform concatenation\<close>

lemma drop_concat_uniform:
  "\<forall>x \<in> set xs. length x = L \<Longrightarrow> drop (L * k) (concat xs) = concat (drop k xs)"
proof (induction xs arbitrary: k)
  case Nil
  then show ?case by simp
next
  case (Cons x xs)
  then show ?case by (cases k) auto
qed

lemma slice_concat_uniform:
  assumes "\<forall>x \<in> set xs. length x = L" "k < length xs" "off + n \<le> L"
  shows "take n (drop (L * k + off) (concat xs)) = take n (drop off (xs ! k))"
proof -
  have "drop (L * k + off) (concat xs) = drop off (concat (drop k xs))"
    using drop_concat_uniform [OF assms(1), of k] by (metis add.commute drop_drop)
  also have "\<dots> = drop off (xs ! k @ concat (drop (Suc k) xs))"
    using assms(2) by (simp flip: Cons_nth_drop_Suc)
  finally show ?thesis
    using assms by simp
qed

lemma length_concat_uniform:
  "\<forall>x \<in> set xs. length x = L \<Longrightarrow> length (concat xs) = L * length xs"
  by (induction xs) auto

section \<open>Well-formed images and the contents of a file\<close>

definition used_blocks :: "inode_t \<Rightarrow> u32 list" where
  "used_blocks n = take ((unat (file_size n) + BLK - 1) div BLK) (inode_data_blocks n)"

definition file_bytes :: "fsys \<Rightarrow> inode_t \<Rightarrow> u8 list" where
  "file_bytes fs n =
     take (unat (file_size n)) (concat (map (\<lambda>b. data_blocks fs ! unat b) (used_blocks n)))"

definition file_content :: "fsys \<Rightarrow> u32 \<Rightarrow> u8 list" where
  "file_content fs inode = file_bytes fs (inode_blocks fs ! unat inode)"

definition wf_inode :: "fsys \<Rightarrow> inode_t \<Rightarrow> bool" where
  "wf_inode fs n \<longleftrightarrow>
     length (inode_data_blocks n) = BLOCKS_PER_INODE \<and>
     unat (file_size n) < BLOCKS_PER_INODE * BLK \<and>
     (\<forall>b \<in> set (used_blocks n). unat b < length (data_blocks fs))"

definition wf_dentry :: "fsys \<Rightarrow> dentry_t \<Rightarrow> bool" where
  "wf_dentry fs d \<longleftrightarrow>
     length (file_name d) = FS_MAX_LEN \<and> length (dentry_reserved d) = 24 \<and>
     inode_num d < inode_count (boot_block fs)"

definition wf_fs :: "fsys \<Rightarrow> bool" where
  "wf_fs fs \<longleftrightarrow>
     length (inode_blocks fs) = unat (inode_count (boot_block fs)) \<and>
     length (data_blocks fs) = unat (data_block_count (boot_block fs)) \<and>
     (\<forall>d \<in> set (data_blocks fs). length d = BLK) \<and>
     (\<forall>n \<in> set (inode_blocks fs). wf_inode fs n) \<and>
     length (boot_reserved (boot_block fs)) = 52 \<and>
     length (dentries (boot_block fs)) = DENTRY_COUNT \<and>
     unat (dentry_count (boot_block fs)) \<le> DENTRY_COUNT \<and>
     (\<forall>d \<in> set (dentries (boot_block fs)). wf_dentry fs d)"

lemma wf_fs_inode:
  "wf_fs fs \<Longrightarrow> inode < inode_count (boot_block fs) \<Longrightarrow>
     unat inode < length (inode_blocks fs) \<and> wf_inode fs (inode_blocks fs ! unat inode)"
  by (auto simp: wf_fs_def word_less_nat_alt)

lemma wf_fs_block: "wf_fs fs \<Longrightarrow> b < length (data_blocks fs) \<Longrightarrow> length (data_blocks fs ! b) = BLK"
  by (auto simp: wf_fs_def)

lemma wf_inode_blocks:
  assumes "wf_inode fs n"
  shows "length (used_blocks n) = (unat (file_size n) + BLK - 1) div BLK"
    and "unat (file_size n) \<le> BLK * length (used_blocks n)"
    and "k < length (used_blocks n) \<Longrightarrow> inode_data_blocks n ! k = used_blocks n ! k"
    and "k < length (used_blocks n) \<Longrightarrow> unat (used_blocks n ! k) < length (data_blocks fs)"
    and "length (used_blocks n) \<le> length (inode_data_blocks n)"
proof -
  have "x < BLOCKS_PER_INODE * BLK \<Longrightarrow> (x + BLK - 1) div BLK \<le> BLOCKS_PER_INODE" for x
    using less_mult_imp_div_less [of "x + BLK - 1" 1024 BLK] by simp
  then have "(unat (file_size n) + BLK - 1) div BLK \<le> BLOCKS_PER_INODE"
    using assms by (simp add: wf_inode_def)
  then show *: "length (used_blocks n) = (unat (file_size n) + BLK - 1) div BLK"
    using assms by (simp add: used_blocks_def wf_inode_def)
  show "unat (file_size n) \<le> BLK * length (used_blocks n)"
    unfolding * by simp
  show "k < length (used_blocks n) \<Longrightarrow> inode_data_blocks n ! k = used_blocks n ! k"
    by (simp add: used_blocks_def)
  show "k < length (used_blocks n) \<Longrightarrow> unat (used_blocks n ! k) < length (data_blocks fs)"
    using assms nth_mem unfolding wf_inode_def by blast
  show "length (used_blocks n) \<le> length (inode_data_blocks n)"
    by (simp add: used_blocks_def)
qed

abbreviation blocks_data :: "fsys \<Rightarrow> inode_t \<Rightarrow> u8 list list" where
  "blocks_data fs n \<equiv> map (\<lambda>b. data_blocks fs ! unat b) (used_blocks n)"

lemma blocks_data_uniform:
  assumes "wf_fs fs" "wf_inode fs n"
  shows "\<forall>x \<in> set (blocks_data fs n). length x = BLK"
  using assms by (auto simp: wf_inode_def intro!: wf_fs_block)

lemma length_file_bytes:
  assumes "wf_fs fs" "wf_inode fs n"
  shows "length (file_bytes fs n) = unat (file_size n)"
  using length_concat_uniform [OF blocks_data_uniform [OF assms]] wf_inode_blocks(2) [OF assms(2)]
  by (simp add: file_bytes_def)

section \<open>The block loop\<close>

lemma copy_from_used_block:
  assumes "wf_fs fs" "wf_inode fs n" "k < length (used_blocks n)" "off + m \<le> BLK"
  shows "copy_from_block fs (inode_data_blocks n ! k) off m
      = Some (take m (drop off (blocks_data fs n ! k)))"
  using assms wf_inode_blocks(3,4) [OF assms(2,3)] wf_fs_block [OF assms(1)]
  by (simp add: copy_from_block_def checked_simps)

lemma read_blocks_spec:
  assumes "wf_fs fs" "wf_inode fs n"
  shows "unat remain \<le> BLK * (length (used_blocks n) - block) \<Longrightarrow>
     block + unat remain div BLK < length (inode_data_blocks n) \<Longrightarrow>
     read_blocks fs n block remain
       = Some (take (unat remain) (concat (drop block (blocks_data fs n))))"
  using assms
proof (induction fs n block remain rule: read_blocks.induct)
  case (1 fs n block remain)
  note wf = "1.prems"(3,4) and uni = blocks_data_uniform [OF "1.prems"(3,4)]
  note unf = read_blocks.simps [of fs n block remain]
  have unfold_drop: "block < length (used_blocks n) \<Longrightarrow> concat (drop block (blocks_data fs n))
      = blocks_data fs n ! block @ concat (drop (Suc block) (blocks_data fs n))"
    by (simp flip: Cons_nth_drop_Suc)
  show ?case
  proof (cases "unat remain < BLK")
    case True
    show ?thesis
    proof (cases "unat remain = 0")
      case True
      with "1.prems" show ?thesis
        by (subst unf) (simp add: block_simps checked_simps copy_from_block_def)
    next
      case False
      with "1.prems"(1) have "block < length (used_blocks n)"
        by (metis le_zero_eq mult_0_right not_less zero_less_diff)
      moreover from this have "length (blocks_data fs n ! block) = BLK"
        using uni nth_mem [of block "blocks_data fs n"] by simp
      ultimately show ?thesis
        using True "1.prems" copy_from_used_block [OF wf, of block 0 "unat remain"]
        by (subst unf) (simp add: block_simps checked_simps unfold_drop)
    qed
  next
    case False
    then have ge: "BLK \<le> unat remain" by simp
    then have lt: "block < length (used_blocks n)"
      using "1.prems"(1) by (metis diff_is_0_eq' le_zero_eq mult_0_right not_less
          zero_less_numeral not_one_le_zero order_trans linorder_not_le)
    have len: "length (blocks_data fs n ! block) = BLK"
      using uni lt nth_mem [of block "blocks_data fs n"] by simp
    have guard: "remain AND NOT (FS_BLOCK_SIZE - 1) \<noteq> 0"
      using ge by (simp add: block_simps)
    have "read_blocks fs n (Suc block) (remain - FS_BLOCK_SIZE)
        = Some (take (unat (remain - FS_BLOCK_SIZE)) (concat (drop (Suc block) (blocks_data fs n))))"
    proof (rule "1.IH" [OF guard _ _ _ _ wf])
      show "nth_opt (inode_data_blocks n) block = Some (inode_data_blocks n ! block)"
        using "1.prems"(2) by (simp add: checked_simps)
      show "copy_from_block fs (inode_data_blocks n ! block) 0 BLK = Some (blocks_data fs n ! block)"
        using copy_from_used_block [OF wf lt, of 0 BLK] len by simp
      show "unat (remain - FS_BLOCK_SIZE) \<le> BLK * (length (used_blocks n) - Suc block)"
        using "1.prems"(1) ge lt by (simp add: block_simps diff_mult_distrib2)
      show "Suc block + unat (remain - FS_BLOCK_SIZE) div BLK < length (inode_data_blocks n)"
        using "1.prems"(2) ge by (simp add: block_simps le_div_geq)
    qed
    then show ?thesis
      using guard "1.prems"(2) copy_from_used_block [OF wf lt, of 0 BLK] len lt ge
      by (subst unf) (simp add: checked_simps unfold_drop block_simps)
  qed
qed

section \<open>\<^verbatim>\<open>read_data\<close> is a slice of the file\<close>

lemma unat_block_rest [block_simps]: "unat (4096 - (w AND 4095) :: u32) = BLK - unat w mod BLK"
proof -
  have "w AND 4095 \<le> 4096"
    by (simp add: word_le_nat_alt unat_and_4095 less_imp_le)
  then show ?thesis by (simp add: unat_sub unat_and_4095)
qed

lemma slice_of_take: "off + n \<le> m \<Longrightarrow> take n (drop off (take m xs)) = take n (drop off xs)"
  by (simp add: take_drop min_def)

text \<open>The slice the code copies, before it is compared with the words that control the copy.\<close>

lemma read_in_file:
  assumes wf: "wf_fs fs" "wf_inode fs n"
    and bounds: "0 < m" "off + m \<le> unat (file_size n)"
  defines "k \<equiv> off div BLK" and "w \<equiv> off mod BLK"
  shows "k < length (used_blocks n)"
    and "w + m \<le> BLK \<Longrightarrow> take m (drop w (blocks_data fs n ! k)) = take m (drop off (file_bytes fs n))"
    and "BLK < w + m \<Longrightarrow> take (BLK - w) (drop w (blocks_data fs n ! k))
      @ take (m - (BLK - w)) (concat (drop (Suc k) (blocks_data fs n))) = take m (drop off (file_bytes fs n))"
proof -
  let ?X = "concat (blocks_data fs n)"
  note uni = blocks_data_uniform [OF wf]
  have off: "off = BLK * k + w" "w < BLK" by (simp_all add: k_def w_def)
  have "off < BLK * length (used_blocks n)"
    using bounds wf_inode_blocks(2) [OF wf(2)] by linarith
  then show k: "k < length (used_blocks n)"
    unfolding k_def by (simp add: less_mult_imp_div_less mult.commute)
  have slice: "take m (drop off (file_bytes fs n)) = take m (drop off ?X)"
    unfolding file_bytes_def using bounds(2) by (rule slice_of_take)
  show "take m (drop w (blocks_data fs n ! k)) = take m (drop off (file_bytes fs n))" if "w + m \<le> BLK"
    unfolding slice using slice_concat_uniform [OF uni _ that, of k] k
    by (simp flip: off(1))
  show "take (BLK - w) (drop w (blocks_data fs n ! k))
      @ take (m - (BLK - w)) (concat (drop (Suc k) (blocks_data fs n))) = take m (drop off (file_bytes fs n))"
    if "BLK < w + m"
  proof -
    have "take m (drop off ?X) = take (BLK - w) (drop off ?X)
        @ take (m - (BLK - w)) (drop (BLK - w) (drop off ?X))"
      using that by (subst take_add [symmetric]) simp
    moreover have "take (BLK - w) (drop off ?X) = take (BLK - w) (drop w (blocks_data fs n ! k))"
      unfolding off(1) using slice_concat_uniform [OF uni, of k w "BLK - w"] k off(2) by simp
    moreover have "drop (BLK - w) (drop off ?X) = concat (drop (Suc k) (blocks_data fs n))"
      using drop_concat_uniform [OF uni, of "Suc k"] off by (simp add: algebra_simps)
    ultimately show ?thesis using slice by simp
  qed
qed

lemma read_data_inside:
  assumes wf: "wf_fs fs" "inode < inode_count (boot_block fs)"
    and args: "buf \<noteq> 0" "len \<noteq> 0" and inside: "offset < file_size (inode_blocks fs ! unat inode)"
  shows "read_data fs inode offset buf len =
    (let bytes = take (unat len) (drop (unat offset) (file_content fs inode))
     in Some (of_nat (length bytes), bytes))"
proof -
  define n where "n = inode_blocks fs ! unat inode"
  have n: "unat inode < length (inode_blocks fs)" "wf_inode fs n"
    using wf_fs_inode [OF wf] by (simp_all add: n_def)
  define size where "size = unat (file_size n)"
  define len' where "len' = (if file_size n - offset < len then file_size n - offset else len)"
  have lt: "unat offset < size" using inside by (simp add: n_def size_def word_less_nat_alt)
  have rest: "unat (file_size n - offset) = size - unat offset"
    using lt by (simp add: size_def unat_sub word_le_nat_alt)
  have len': "unat len' = min (unat len) (size - unat offset)"
    using rest by (auto simp: len'_def word_less_nat_alt)
  have "0 < unat len" using args(2) by (simp add: unat_gt_0)
  then have m: "0 < unat len'" "unat offset + unat len' \<le> size"
    using len' lt by auto
  have result: "take (unat len) (drop (unat offset) (file_bytes fs n))
      = take (unat len') (drop (unat offset) (file_bytes fs n))"
    using length_file_bytes [OF wf(1) n(2)] len' by (simp add: size_def min_def)
  have reslen: "length (take (unat len') (drop (unat offset) (file_bytes fs n))) = unat len'"
    using length_file_bytes [OF wf(1) n(2)] m by (simp add: size_def)
  note slices = read_in_file [OF wf(1) n(2) m [unfolded size_def]]
  define k w where "k = unat offset div BLK" and "w = unat offset mod BLK"
  note slices' = slices [folded k_def w_def]
  have klen: "k < length (inode_data_blocks n)"
    using slices'(1) wf_inode_blocks(5) [OF n(2)] by simp
  have cond: "len' \<le> 4096 - (offset AND 4095) \<longleftrightarrow> unat len' \<le> BLK - w"
    "unat (offset AND 4095) = w" "unat (drop_bit 12 offset) = k"
    by (simp_all add: word_le_nat_alt block_simps w_def k_def)
  have guards: "\<not> inode_count (boot_block fs) \<le> inode" "\<not> file_size n \<le> offset"
    using wf(2) inside by (simp_all add: n_def not_le)
  have unf: "read_data fs inode offset buf len =
     (if unat len' \<le> BLK - w then do {
        bytes \<leftarrow> copy_from_block fs (inode_data_blocks n ! k) w (unat len'); Some (len', bytes) }
      else do {
        bytes \<leftarrow> copy_from_block fs (inode_data_blocks n ! k) w (BLK - w);
        rest \<leftarrow> read_blocks fs n (Suc k) (len' - (4096 - (offset AND 4095)));
        Some (len', bytes @ rest) })"
    using args guards n(1) klen cond unat_block_rest [of offset, folded w_def]
    unfolding read_data_def Let_def
    by (simp add: nth_opt_Some flip: n_def len'_def del: not_le)
  show ?thesis
  proof (cases "unat len' \<le> BLK - w")
    case True
    then have "w + unat len' \<le> BLK" by (simp add: w_def)
    then show ?thesis
      using True slices'(1,2) copy_from_used_block [OF wf(1) n(2) slices'(1)] reslen
      by (simp add: unf result file_content_def Let_def flip: n_def)
  next
    case False
    then have gt: "BLK < w + unat len'" by linarith
    let ?r = "len' - (4096 - (offset AND 4095))"
    have r: "unat ?r = unat len' - (BLK - w)"
      using False by (simp add: unat_sub word_le_nat_alt block_simps w_def)
    have fit: "unat ?r \<le> BLK * (length (used_blocks n) - Suc k)"
    proof -
      have "BLK * k + w + unat len' \<le> BLK * length (used_blocks n)"
        using m(2) wf_inode_blocks(2) [OF n(2)] by (simp add: size_def k_def w_def)
      then show ?thesis unfolding r using slices'(1) gt by (simp add: diff_mult_distrib2)
    qed
    have w: "w < BLK" and off: "unat offset = BLK * k + w"
      by (simp_all add: k_def w_def)
    have r': "unat ?r = w + unat len' - BLK"
      unfolding r using w by simp
    have "unat offset + unat len' = BLK * Suc k + unat ?r"
      unfolding off r' using gt by simp
    then have "Suc k + unat ?r div BLK = (unat offset + unat len') div BLK"
      by simp
    moreover have "(unat offset + unat len') div BLK < BLOCKS_PER_INODE"
      using m(2) n(2) by (simp add: wf_inode_def size_def less_mult_imp_div_less)
    ultimately have "Suc k + unat ?r div BLK < length (inode_data_blocks n)"
      using n(2) by (simp add: wf_inode_def)
    note rest = read_blocks_spec [OF wf(1) n(2) fit this]
    have first: "copy_from_block fs (inode_data_blocks n ! k) w (BLK - w)
        = Some (take (BLK - w) (drop w (blocks_data fs n ! k)))"
      using copy_from_used_block [OF wf(1) n(2) slices'(1), of w "BLK - w"] w by simp
    have "read_data fs inode offset buf len
        = Some (len', take (unat len') (drop (unat offset) (file_bytes fs n)))"
      unfolding unf using False slices'(3) [OF gt] by (simp only: first rest r if_False bind.bind_lunit)
    then show ?thesis
      unfolding result file_content_def n_def [symmetric] Let_def reslen by simp
  qed
qed

section \<open>Slices of a file\<close>

lemma length_file_content:
  "wf_fs fs \<Longrightarrow> inode < inode_count (boot_block fs) \<Longrightarrow>
   length (file_content fs inode) = unat (file_size (inode_blocks fs ! unat inode))"
  using wf_fs_inode length_file_bytes by (simp add: file_content_def)

lemma file_size_bound:
  "wf_fs fs \<Longrightarrow> inode < inode_count (boot_block fs) \<Longrightarrow>
   unat (file_size (inode_blocks fs ! unat inode)) < BLOCKS_PER_INODE * BLK"
  using wf_fs_inode by (auto simp: wf_inode_def)

lemma read_data_slice:
  assumes wf: "wf_fs fs" "inode < inode_count (boot_block fs)" and args: "buf \<noteq> 0" "len \<noteq> 0"
  shows "read_data fs inode offset buf len =
    (let bytes = take (unat len) (drop (unat offset) (file_content fs inode))
     in Some (of_nat (length bytes), bytes))"
proof (cases "offset < file_size (inode_blocks fs ! unat inode)")
  case True
  then show ?thesis by (rule read_data_inside [OF wf args])
next
  case False
  then have "length (file_content fs inode) \<le> unat offset"
    using length_file_content [OF wf] by (simp add: word_less_nat_alt)
  moreover have "read_data fs inode offset buf len = Some (0, [])"
    using False args wf(2) wf_fs_inode [OF wf]
    by (simp add: read_data_def nth_opt_Some not_less not_le [symmetric])
  ultimately show ?thesis by simp
qed

section \<open>A small image\<close>

definition sample_inode :: "u32 \<Rightarrow> u32 list \<Rightarrow> inode_t" where
  "sample_inode sz bs = \<lparr>file_size = sz, inode_data_blocks = bs @ replicate (1023 - length bs) 0\<rparr>"

definition sample_dentry :: "u8 list \<Rightarrow> u32 \<Rightarrow> u32 \<Rightarrow> dentry_t" where
  "sample_dentry name typ inode = \<lparr>file_name = name @ replicate (32 - length name) 0,
     file_type = typ, inode_num = inode, dentry_reserved = replicate 24 0\<rparr>"

definition sample_fs :: fsys where
  "sample_fs = \<lparr>
     boot_block = \<lparr>dentry_count = 2, inode_count = 3, data_block_count = 5,
       boot_reserved = replicate 52 0,
       dentries = sample_dentry [46] 1 0 # sample_dentry [97, 98] 2 1 # replicate 61 (sample_dentry [] 0 0)\<rparr>,
     inode_blocks = [sample_inode 0 [], sample_inode 4099 [1, 2], sample_inode 3 [3]],
     data_blocks = map (replicate BLK) [0, 1, 2, 3, 4],
     inode_bitmap = [1, 1, 1] @ replicate 61 0,
     data_block_bitmap = [1, 1, 1, 1] @ replicate 60 0,
     boot_block_addr = 0\<rparr>"

lemma replicate_3: "replicate 3 x = [x, x, x]"
  by (simp add: numeral_eq_Suc)

lemma wf_sample: "wf_fs sample_fs"
  by (auto simp: wf_fs_def wf_inode_def wf_dentry_def used_blocks_def sample_fs_def
      sample_inode_def sample_dentry_def)

section \<open>Properties\<close>

text \<open>C19: on a well-formed image, \<^verbatim>\<open>read_data\<close> returns -1 and stores nothing for a null buffer, a
  zero length or an inode number out of range; in every other case it stores exactly the bytes of
  the file from the offset on, at most the length asked for, and returns their number (0 at or past
  the end), whatever the number of 4 KB blocks the range runs over.\<close>

theorem read_data_spec:
  assumes "wf_fs fs"
  shows "read_data fs inode offset buf len =
    (if buf = 0 \<or> len = 0 \<or> inode_count (boot_block fs) \<le> inode then Some (-1, [])
     else let bytes = take (unat len) (drop (unat offset) (file_content fs inode))
          in Some (of_nat (length bytes), bytes))"
  using read_data_slice [OF assms, of inode buf len offset]
  by (auto simp: read_data_def not_le)

theorem read_data_spec_witness:
  "read_data sample_fs 1 4095 7 10 = Some (4, [1, 2, 2, 2]) \<and> read_data sample_fs 1 9 0 1 = Some (-1, [])"
proof -
  have "file_content sample_fs 1 = replicate BLK 1 @ replicate 3 2"
    by (simp add: file_content_def file_bytes_def used_blocks_def sample_fs_def sample_inode_def)
  moreover have "inode_count (boot_block sample_fs) = 3" by (simp add: sample_fs_def)
  ultimately show ?thesis
    by (simp add: read_data_spec [OF wf_sample] Let_def replicate_3 word_le_nat_alt)
qed

end
