(* ===== verification/Directory.thy ===== *)
theory Directory imports FileRead begin

text \<open>
  Directory lookup: \<^verbatim>\<open>read_dentry_by_name\<close> finds the first entry whose name equals the argument
  as a C string, so an argument longer than the 32 name bytes never matches. The index found is
  used as a descriptor of the entry by \<^verbatim>\<open>open\<close>, \<^verbatim>\<open>delete\<close> and \<^verbatim>\<open>execute\<close>.
\<close>

section \<open>Names as strings\<close>

definition dentry_name :: "dentry_t \<Rightarrow> u8 list" where
  "dentry_name d = takeWhile (\<lambda>b. b \<noteq> 0) (file_name d)"

definition dir_names :: "fsys \<Rightarrow> u8 list list" where
  "dir_names fs = map dentry_name (take (unat (dentry_count (boot_block fs))) (dentries (boot_block fs)))"

lemma name_cmp_spec:
  "j \<le> FS_MAX_LEN \<Longrightarrow>
   j \<le> name_cmp s d j \<and> name_cmp s d j \<le> FS_MAX_LEN \<and>
   (\<forall>i. j \<le> i \<and> i < name_cmp s d j \<longrightarrow> cstr_byte s i \<noteq> 0 \<and> cstr_byte s i = name_byte d i) \<and>
   (name_cmp s d j < FS_MAX_LEN \<longrightarrow>
      cstr_byte s (name_cmp s d j) = 0 \<or> cstr_byte s (name_cmp s d j) \<noteq> name_byte d (name_cmp s d j))"
proof (induction s d j rule: name_cmp.induct)
  case (1 s d j)
  show ?case
  proof (cases "j < FS_MAX_LEN \<and> cstr_byte s j \<noteq> 0 \<and> cstr_byte s j = name_byte d j")
    case True
    note IH = "1.IH" [OF True] and unf = name_cmp.simps [of s d j]
    from True IH show ?thesis
      unfolding unf by (auto simp: Suc_le_eq nat_less_le)
  next
    case False
    with "1.prems" show ?thesis by (auto simp: name_cmp.simps [of s d j])
  qed
qed

lemma cstr_byte_0: "0 \<notin> set s \<Longrightarrow> cstr_byte s j = 0 \<longleftrightarrow> length s \<le> j"
  by (auto simp: cstr_byte_def) (metis nth_mem not_le)

lemma name_byte_nth: "length (file_name d) = FS_MAX_LEN \<Longrightarrow> j < FS_MAX_LEN \<Longrightarrow>
    name_byte d j = file_name d ! j"
  by (simp add: name_byte_def nth_append)

lemma takeWhile_eq_prefix:
  "takeWhile P xs = ys \<longleftrightarrow>
     length ys \<le> length xs \<and> (\<forall>i < length ys. ys ! i = xs ! i \<and> P (xs ! i)) \<and>
     (length ys < length xs \<longrightarrow> \<not> P (xs ! length ys))"
proof (induction xs arbitrary: ys)
  case Nil
  then show ?case by auto
next
  case (Cons x xs)
  then show ?case
    by (cases ys) (auto simp: less_Suc_eq_0_disj)
qed

text \<open>The comparison loop with its final test decides equality of strings.\<close>

lemma name_matches_iff:
  assumes "0 \<notin> set s" "length (file_name d) = FS_MAX_LEN"
  shows "name_matches s d \<longleftrightarrow> dentry_name d = s"
proof -
  define j where "j = name_cmp s d 0"
  have j: "j \<le> FS_MAX_LEN" "\<forall>i < j. cstr_byte s i \<noteq> 0 \<and> cstr_byte s i = name_byte d i"
    "j < FS_MAX_LEN \<longrightarrow> cstr_byte s j = 0 \<or> cstr_byte s j \<noteq> name_byte d j"
    using name_cmp_spec [of 0 s d] unfolding j_def by auto
  have lt: "i < length s" if "i < j" for i
    using j(2) that cstr_byte_0 [OF assms(1), of i] by auto
  have eq: "s ! i = file_name d ! i" if "i < j" for i
    using j(1,2) that lt [OF that] name_byte_nth [OF assms(2), of i] by (auto simp: cstr_byte_def)
  have "name_matches s d \<longleftrightarrow> length s \<le> j \<and> (j = FS_MAX_LEN \<or> name_byte d j = 0)"
    by (auto simp: name_matches_def Let_def cstr_byte_0 [OF assms(1)] simp flip: j_def)
  also have "\<dots> \<longleftrightarrow> dentry_name d = s"
  proof
    assume a: "length s \<le> j \<and> (j = FS_MAX_LEN \<or> name_byte d j = 0)"
    have "j = length s"
      using a lt [of "length s"] by (metis le_neq_implies_less less_irrefl)
    then show "dentry_name d = s"
      unfolding dentry_name_def takeWhile_eq_prefix
      using a j eq lt assms name_byte_nth [OF assms(2), of j]
      by (auto simp: cstr_byte_def)
  next
    assume "dentry_name d = s"
    then have s: "length s \<le> FS_MAX_LEN" "\<forall>i < length s. s ! i = file_name d ! i"
      "length s < FS_MAX_LEN \<longrightarrow> file_name d ! length s = 0"
      using assms(2) unfolding dentry_name_def takeWhile_eq_prefix by auto
    have "length s \<le> j"
    proof (rule ccontr)
      assume "\<not> length s \<le> j"
      then have "j < length s" by simp
      then show False
        using j(3) s assms cstr_byte_0 [OF assms(1), of j] name_byte_nth [OF assms(2), of j]
        by (auto simp: cstr_byte_def)
    qed
    moreover have "j \<le> length s" using lt [of "length s"] by (metis not_le less_irrefl)
    ultimately show "length s \<le> j \<and> (j = FS_MAX_LEN \<or> name_byte d j = 0)"
      using s name_byte_nth [OF assms(2), of j] by (metis le_antisym le_neq_implies_less)
  qed
  finally show ?thesis .
qed

section \<open>The scan\<close>

text \<open>The position of the first element equal to \<open>x\<close>, the length of the list if there is none.\<close>

definition first_index :: "'a \<Rightarrow> 'a list \<Rightarrow> nat" where
  "first_index x xs = length (takeWhile (\<lambda>y. y \<noteq> x) xs)"

lemma first_index_Cons [simp]:
  "first_index x (y # ys) = (if y = x then 0 else Suc (first_index x ys))"
  by (simp add: first_index_def)

lemma first_index_Nil [simp]: "first_index x [] = 0"
  by (simp add: first_index_def)

lemma first_index_le: "first_index x xs \<le> length xs"
  by (simp add: first_index_def length_takeWhile_le)

lemma first_index_less: "first_index x xs < length xs \<longleftrightarrow> x \<in> set xs"
  by (induction xs) auto

lemma nth_first_index: "x \<in> set xs \<Longrightarrow> xs ! first_index x xs = x"
  by (induction xs) auto

lemma first_index_before: "i < first_index x xs \<Longrightarrow> xs ! i \<noteq> x"
proof (induction xs arbitrary: i)
  case Nil
  then show ?case by simp
next
  case (Cons y ys)
  then show ?case by (cases i) (auto split: if_splits)
qed

lemma length_dir_names:
  "wf_fs fs \<Longrightarrow> length (dir_names fs) = unat (dentry_count (boot_block fs))"
  by (simp add: dir_names_def wf_fs_def)

lemma nth_dir_names:
  "wf_fs fs \<Longrightarrow> i < unat (dentry_count (boot_block fs)) \<Longrightarrow>
     dir_names fs ! i = dentry_name (dentries (boot_block fs) ! i)"
  by (simp add: dir_names_def wf_fs_def)

lemma find_dentry_spec:
  assumes "wf_fs fs" "0 \<notin> set s"
  shows "i \<le> unat (dentry_count (boot_block fs)) \<Longrightarrow> find_dentry fs s i =
    (let k = i + first_index s (drop i (dir_names fs))
     in if k < unat (dentry_count (boot_block fs))
        then Some (of_nat k, Some (dentries (boot_block fs) ! k)) else Some (-1, None))"
  using assms
proof (induction fs s i rule: find_dentry.induct)
  case (1 fs s i)
  note unf = find_dentry.simps [of fs s i] and len = length_dir_names [OF "1.prems"(2)]
  show ?case
  proof (cases "i < unat (dentry_count (boot_block fs))")
    case True
    let ?d = "dentries (boot_block fs) ! i"
    have i: "i < length (dentries (boot_block fs))" "wf_dentry fs ?d"
      using True "1.prems"(2) by (auto simp: wf_fs_def)
    have drop: "drop i (dir_names fs) = dentry_name ?d # drop (Suc i) (dir_names fs)"
      using True len nth_dir_names [OF "1.prems"(2) True] by (metis Cons_nth_drop_Suc)
    have "name_matches s ?d \<longleftrightarrow> dentry_name ?d = s"
      using i "1.prems"(3) by (intro name_matches_iff) (simp_all add: wf_dentry_def)
    then show ?thesis
      using True i "1.IH" [OF True, of ?d] "1.prems"
      by (subst unf) (auto simp: checked_simps drop Let_def)
  next
    case False
    then show ?thesis using "1.prems" len by (subst unf) (simp add: Let_def)
  qed
qed

lemma read_dentry_by_name_eq:
  assumes "wf_fs fs" "0 \<notin> set s"
  shows "read_dentry_by_name fs (Some s) =
    (if s \<in> set (dir_names fs)
     then Some (of_nat (first_index s (dir_names fs)),
                Some (dentries (boot_block fs) ! first_index s (dir_names fs)))
     else Some (-1, None))"
  using find_dentry_spec [OF assms, of 0] first_index_less [of s "dir_names fs"]
    length_dir_names [OF assms(1)]
  by (simp add: read_dentry_by_name_def Let_def)

section \<open>Properties\<close>

text \<open>C26: \<^verbatim>\<open>read_dentry_by_name\<close> returns the index of the first of the counted directory entries
  whose name, as a string of at most 32 bytes, is the argument, and copies that entry; when no entry
  has that name it returns -1 and copies nothing. A name longer than 32 bytes is never found, and a
  name of exactly 32 bytes (stored without a terminator) is.\<close>

theorem read_dentry_by_name_spec:
  assumes "wf_fs fs" "0 \<notin> set s"
  shows "read_dentry_by_name fs (Some s) =
    (if s \<in> set (dir_names fs)
     then Some (of_nat (first_index s (dir_names fs)),
                Some (dentries (boot_block fs) ! first_index s (dir_names fs)))
     else Some (-1, None))"
  by (rule read_dentry_by_name_eq [OF assms])

lemma takeWhile_replicate_0: "takeWhile (\<lambda>b. b \<noteq> 0) (replicate n 0) = []"
  by (cases n) auto

lemma dir_names_sample: "dir_names sample_fs = [[46], [97, 98]]"
  by (simp add: dir_names_def sample_fs_def dentry_name_def sample_dentry_def takeWhile_replicate_0)

theorem read_dentry_by_name_spec_witness:
  "read_dentry_by_name sample_fs (Some [97, 98]) = Some (1, Some (sample_dentry [97, 98] 2 1)) \<and>
   read_dentry_by_name sample_fs (Some [97]) = Some (-1, None)"
  using read_dentry_by_name_spec [OF wf_sample, of "[97, 98]"]
    read_dentry_by_name_spec [OF wf_sample, of "[97]"]
  by (simp add: dir_names_sample) (simp add: sample_fs_def)

end
