(* ===== verification/FileWrite.thy ===== *)
theory FileWrite imports FileRead begin

text \<open>
  Writing files. \<open>find_free\<close> returns the least clear position of the bitmap. A write that stays
  inside one block the file already owns replaces exactly the bytes addressed and leaves the other
  files alone. A write that runs over several blocks gives every block after the first the same
  free data block, because the search result is never marked in the bitmap.
\<close>

section \<open>The search for a free number\<close>

lemma find_free_spec:
  "bound \<le> length bitmap \<Longrightarrow> i \<le> bound \<Longrightarrow>
   find_free bitmap i bound =
     (if \<exists>k. i \<le> k \<and> k < bound \<and> bitmap ! k = 0
      then Some (of_nat (LEAST k. i \<le> k \<and> bitmap ! k = 0)) else Some (-1))"
proof (induction bitmap i bound rule: find_free.induct)
  case (1 bitmap i bound)
  note unf = find_free.simps [of bitmap i bound]
  show ?case
  proof (cases "i < bound")
    case False
    with "1.prems" show ?thesis by (subst unf) auto
  next
    case True
    then have i: "i < length bitmap" using "1.prems" by simp
    show ?thesis
    proof (cases "bitmap ! i = 0")
      case True
      then have "(LEAST k. i \<le> k \<and> bitmap ! k = 0) = i"
        by (intro Least_equality) auto
      with True \<open>i < bound\<close> i show ?thesis by (subst unf) (auto simp: checked_simps)
    next
      case False
      have same: "(i \<le> k \<and> bitmap ! k = 0) = (Suc i \<le> k \<and> bitmap ! k = 0)" for k
        using False by (metis Suc_leD Suc_leI le_neq_implies_less)
      have ex: "(\<exists>k. i \<le> k \<and> k < bound \<and> bitmap ! k = 0)
          = (\<exists>k. Suc i \<le> k \<and> k < bound \<and> bitmap ! k = 0)"
        using False by (metis Suc_leD Suc_leI le_neq_implies_less)
      have "find_free bitmap i bound = find_free bitmap (Suc i) bound"
        using \<open>i < bound\<close> i False by (subst unf) (simp add: checked_simps)
      also have "\<dots> = (if \<exists>k. Suc i \<le> k \<and> k < bound \<and> bitmap ! k = 0
          then Some (of_nat (LEAST k. Suc i \<le> k \<and> bitmap ! k = 0)) else Some (-1))"
        using "1.IH" [OF \<open>i < bound\<close> _ False] i "1.prems" \<open>i < bound\<close> by (simp add: checked_simps)
      finally show ?thesis by (simp only: ex same)
    qed
  qed
qed

text \<open>A search that succeeds returns the first clear position of the searched range; it does not leave the map.\<close>

lemma find_free_result:
  "find_free bitmap i bound = Some r \<Longrightarrow> r \<noteq> -1 \<Longrightarrow> bound < 2 ^ 32 \<Longrightarrow>
     \<exists>k. r = of_nat k \<and> i \<le> k \<and> k < bound \<and> k < length bitmap \<and> bitmap ! k = 0 \<and> (\<forall>j. i \<le> j \<and> j < k \<longrightarrow> bitmap ! j \<noteq> 0)"
proof (induction bitmap i bound rule: find_free.induct)
  case (1 bitmap i bound)
  note unf = find_free.simps [of bitmap i bound]
  show ?case
  proof (cases "i < bound \<and> nth_opt bitmap i = Some 0")
    case True
    then show ?thesis using "1.prems" by (auto simp: unf nth_opt_Some)
  next
    case False
    then obtain used where u: "i < bound" "nth_opt bitmap i = Some used" "used \<noteq> 0" "find_free bitmap (Suc i) bound = Some r"
      using "1.prems" by (auto simp: unf bind_eq_Some_conv split: if_splits)
    then obtain k where k: "r = of_nat k" "Suc i \<le> k" "k < bound" "k < length bitmap" "bitmap ! k = 0"
        "\<forall>j. Suc i \<le> j \<and> j < k \<longrightarrow> bitmap ! j \<noteq> 0"
      using "1.IH" "1.prems" by blast
    have "bitmap ! i \<noteq> 0" using u(2,3) by auto
    then have "\<forall>j. i \<le> j \<and> j < k \<longrightarrow> bitmap ! j \<noteq> 0" using k(6) by (metis Suc_leI le_neq_implies_less)
    then show ?thesis using k(1-5) by (intro exI [of _ k]) simp
  qed
qed

section \<open>Overwriting inside one block\<close>

lemma copy_to_block_eq:
  assumes "unat b < length (data_blocks fs)" "off + length bytes \<le> length (data_blocks fs ! unat b)"
  shows "copy_to_block fs b off bytes =
    Some (fs\<lparr>data_blocks := (data_blocks fs)[unat b := take off (data_blocks fs ! unat b) @ bytes
        @ drop (off + length bytes) (data_blocks fs ! unat b)]\<rparr>)"
  using assms by (cases "bytes = []") (simp_all add: copy_to_block_def checked_simps)

text \<open>Replacing a range of one element of a uniform concatenation replaces a range of the whole.\<close>

lemma concat_update_uniform:
  assumes "\<forall>x \<in> set xs. length x = L" "k < length xs" "off + length ys \<le> L"
  shows "concat (xs[k := take off (xs ! k) @ ys @ drop (off + length ys) (xs ! k)])
    = take (L * k + off) (concat xs) @ ys @ drop (L * k + off + length ys) (concat xs)"
proof -
  let ?z = "take off (xs ! k) @ ys @ drop (off + length ys) (xs ! k)"
  have xk: "length (xs ! k) = L" using assms(1,2) by simp
  have split: "concat xs = concat (take k xs) @ xs ! k @ concat (drop (Suc k) xs)"
    using assms(2) by (metis append_take_drop_id concat.simps(2) concat_append Cons_nth_drop_Suc)
  have len: "length (concat (take k xs)) = L * k"
    using length_concat_uniform [of "take k xs" L] assms(1,2)
    by (metis in_set_takeD length_take min.absorb4)
  have "concat (xs[k := ?z]) = concat (take k xs) @ ?z @ concat (drop (Suc k) xs)"
    using assms(2) by (simp add: upd_conv_take_nth_drop)
  then show ?thesis
    using len xk assms(3) by (simp add: split add.assoc)
qed

lemma map_update_distinct:
  assumes "distinct bs" "k < length bs" "\<forall>b \<in> set bs. unat b < length ds"
  shows "map (\<lambda>b. ds[unat (bs ! k) := d] ! unat b) (bs :: u32 list) = (map (\<lambda>b. ds ! unat b) bs)[k := d]"
proof (rule nth_equalityI)
  show "length (map (\<lambda>b. ds[unat (bs ! k) := d] ! unat b) bs) = length ((map (\<lambda>b. ds ! unat b) bs)[k := d])"
    by simp
next
  fix i assume "i < length (map (\<lambda>b. ds[unat (bs ! k) := d] ! unat b) bs)"
  then have i: "i < length bs" by simp
  then have "unat (bs ! i) = unat (bs ! k) \<longleftrightarrow> i = k"
    using assms(1,2) by (metis nth_eq_iff_index_eq unsigned_word_eqI)
  with i assms show "map (\<lambda>b. ds[unat (bs ! k) := d] ! unat b) bs ! i
      = (map (\<lambda>b. ds ! unat b) bs)[k := d] ! i"
    by (auto simp: nth_list_update)
qed

section \<open>The image and its flush\<close>

lemma length_inode_bytes: "length (inode_bytes n) = 4 + 4 * length (inode_data_blocks n)"
  using length_concat_uniform [of "map le32 (inode_data_blocks n)" 4] by (simp add: inode_bytes_def)

lemma length_dentry_bytes: "wf_dentry fs d \<Longrightarrow> length (dentry_bytes d) = 64"
  by (simp add: dentry_bytes_def wf_dentry_def)

lemma length_boot_block_bytes:
  assumes "wf_fs fs" shows "length (boot_block_bytes (boot_block fs)) = BLK"
proof -
  have "\<forall>x \<in> set (map dentry_bytes (dentries (boot_block fs))). length x = 64"
    using assms length_dentry_bytes by (auto simp: wf_fs_def)
  from length_concat_uniform [OF this] show ?thesis
    using assms by (simp add: boot_block_bytes_def wf_fs_def)
qed

lemma length_image:
  assumes "wf_fs fs"
  shows "length (image_bytes fs) = BLK * (1 + length (inode_blocks fs) + length (data_blocks fs))"
proof -
  have "length (concat (map inode_bytes (inode_blocks fs))) = BLK * length (inode_blocks fs)"
    using length_concat_uniform [of "map inode_bytes (inode_blocks fs)" BLK] assms
    by (auto simp: wf_fs_def wf_inode_def length_inode_bytes)
  moreover have "length (concat (data_blocks fs)) = BLK * length (data_blocks fs)"
    using length_concat_uniform [of "data_blocks fs" BLK] assms by (simp add: wf_fs_def)
  ultimately show ?thesis
    using length_boot_block_bytes [OF assms] by (simp add: image_bytes_def)
qed

definition flush_sectors :: "fsys \<Rightarrow> u32" where
  "flush_sectors fs = inode_count (boot_block fs) + data_block_count (boot_block fs) + 1"

lemma flush_sectors_le:
  assumes "wf_fs fs"
  shows "ATA_SECTOR_SIZE * unat (flush_sectors fs) \<le> length (image_bytes fs)"
proof -
  have "unat (flush_sectors fs) \<le> unat (inode_count (boot_block fs)) + unat (data_block_count (boot_block fs)) + 1"
    unfolding flush_sectors_def
    by (simp add: unat_word_ariths)
  then show ?thesis using length_image [OF assms] assms by (simp add: wf_fs_def)
qed

lemma flush_image_returns:
  assumes "wf_fs fs" "ata_responsive (device s)"
  shows "\<exists>s'. flush_image fs s = Some s'"
proof (cases "boot_block_addr fs = 0 \<or> flush_sectors fs = 0")
  case True
  then show ?thesis by (auto simp: flush_image_def write_ata_sectors_def flush_sectors_def)
next
  case False
  then show ?thesis
    using write_sectors_returns [OF assms(2) flush_sectors_le [OF assms(1)], of 5000 0]
    by (auto simp: flush_image_def write_ata_sectors_def simp flip: flush_sectors_def)
qed

section \<open>A write inside one block of the file\<close>

lemma splice_take:
  assumes "off \<le> m" "m \<le> length X" "off + length ys \<le> length X" "ys \<noteq> []"
  shows "take (max m (off + length ys)) (take off X @ ys @ drop (off + length ys) X)
    = take off (take m X) @ ys @ drop (off + length ys) (take m X)"
proof -
  have "off < length X" using assms(3,4) by (cases ys) auto
  then show ?thesis
    using assms by (cases "m \<le> off + length ys") (auto simp: min_def max_def drop_take)
qed

lemma used_blocks_grow:
  assumes "unat (file_size n) \<le> m" "m \<le> BLK * length (used_blocks n)" "unat sz = m"
    "length (used_blocks n) = (unat (file_size n) + BLK - 1) div BLK"
  shows "used_blocks (n\<lparr>file_size := sz\<rparr>) = used_blocks n"
proof -
  let ?L = "length (used_blocks n)"
  have "(m + BLK - 1) div BLK \<le> ?L"
  proof -
    have "(m + BLK - 1) div BLK \<le> (BLK * ?L + (BLK - 1)) div BLK"
      using assms(2) by (intro div_le_mono) simp
    also have "\<dots> = ?L" by simp
    finally show ?thesis .
  qed
  moreover have "?L \<le> (m + BLK - 1) div BLK"
    unfolding assms(4) using assms(1) by (simp add: div_le_mono)
  ultimately have "(m + BLK - 1) div BLK = (unat (file_size n) + BLK - 1) div BLK"
    using assms(4) by simp
  then show ?thesis using assms(3) by (simp add: used_blocks_def)
qed

text \<open>A state that differs from a well-formed one only in one data block of the same length and in
  one file size that the block list covers is well-formed.\<close>

definition set_size :: "fsys \<Rightarrow> u32 \<Rightarrow> u32 \<Rightarrow> fsys" where
  "set_size fs inode sz = fs\<lparr>inode_blocks := (inode_blocks fs)[unat inode :=
     (inode_blocks fs ! unat inode)\<lparr>file_size := sz\<rparr>]\<rparr>"

definition set_data :: "fsys \<Rightarrow> u32 \<Rightarrow> u8 list \<Rightarrow> fsys" where
  "set_data fs b d = fs\<lparr>data_blocks := (data_blocks fs)[unat b := d]\<rparr>"

lemma wf_dentry_cong: "boot_block fs' = boot_block fs \<Longrightarrow> wf_dentry fs' d = wf_dentry fs d"
  by (simp add: wf_dentry_def)

lemma wf_set_data:
  assumes "wf_fs fs" "length d = BLK"
  shows "wf_fs (set_data fs b d)"
proof -
  have "wf_inode (set_data fs b d) = wf_inode fs" "wf_dentry (set_data fs b d) = wf_dentry fs"
    by (auto simp: fun_eq_iff wf_inode_def wf_dentry_def set_data_def)
  then show ?thesis
    using assms by (auto simp: wf_fs_def set_data_def dest: set_update_subset_insert [THEN subsetD])
qed

lemma wf_set_size:
  assumes "wf_fs fs" "inode < inode_count (boot_block fs)"
    and "unat (file_size (inode_blocks fs ! unat inode)) \<le> unat sz"
    and "unat sz \<le> BLK * length (used_blocks (inode_blocks fs ! unat inode))"
    and "unat sz < BLOCKS_PER_INODE * BLK"
  shows "wf_fs (set_size fs inode sz)"
    and "used_blocks (inode_blocks (set_size fs inode sz) ! unat inode)
      = used_blocks (inode_blocks fs ! unat inode)"
proof -
  let ?n = "inode_blocks fs ! unat inode"
  have n: "unat inode < length (inode_blocks fs)" "wf_inode fs ?n"
    using wf_fs_inode [OF assms(1,2)] by simp_all
  have used: "used_blocks (?n\<lparr>file_size := sz\<rparr>) = used_blocks ?n"
    using assms(3,4) wf_inode_blocks(1) [OF n(2)] by (intro used_blocks_grow) auto
  then show "used_blocks (inode_blocks (set_size fs inode sz) ! unat inode) = used_blocks ?n"
    using n(1) by (simp add: set_size_def)
  have "wf_inode fs (?n\<lparr>file_size := sz\<rparr>)"
    using n(2) used assms(5) by (simp add: wf_inode_def)
  moreover have "wf_inode (set_size fs inode sz) = wf_inode fs"
    "wf_dentry (set_size fs inode sz) = wf_dentry fs"
    by (auto simp: fun_eq_iff wf_inode_def wf_dentry_def set_size_def)
  ultimately show "wf_fs (set_size fs inode sz)"
    using assms(1) n(1)
    by (auto simp: wf_fs_def set_size_def dest: set_update_subset_insert [THEN subsetD])
qed

lemma set_size_same:
  "unat inode < length (inode_blocks fs) \<Longrightarrow>
   set_size fs inode (file_size (inode_blocks fs ! unat inode)) = fs"
  by (simp add: set_size_def)

definition splice :: "nat \<Rightarrow> u8 list \<Rightarrow> u8 list \<Rightarrow> u8 list" where
  "splice off ys xs = take off xs @ ys @ drop (off + length ys) xs"

lemma blocks_data_set_data:
  assumes "wf_fs fs" "wf_inode fs n" "distinct (used_blocks n)" "k < length (used_blocks n)"
  shows "map (\<lambda>b. data_blocks (set_data fs (used_blocks n ! k) d) ! unat b) (used_blocks n)
    = (blocks_data fs n)[k := d]"
proof -
  have "\<forall>b \<in> set (used_blocks n). unat b < length (data_blocks fs)"
    using assms(2) by (simp add: wf_inode_def)
  from map_update_distinct [OF assms(3,4) this, of d] show ?thesis
    by (simp add: set_data_def)
qed

lemma file_content_splice:
  assumes wf: "wf_fs fs" "inode < inode_count (boot_block fs)"
    and n: "n = inode_blocks fs ! unat inode" "distinct (used_blocks n)" "k < length (used_blocks n)"
    and ys: "ys \<noteq> []" "p + length ys \<le> BLK"
    and off: "off = BLK * k + p" "off \<le> unat (file_size n)"
    and sz: "unat sz = max (unat (file_size n)) (off + length ys)" "unat sz < BLOCKS_PER_INODE * BLK"
    and fs': "fs' = set_data (set_size fs inode sz) (used_blocks n ! k)
        (splice p ys (blocks_data fs n ! k))"
  shows "wf_fs fs'" and "file_content fs' inode = splice off ys (file_content fs inode)"
    and "j < inode_count (boot_block fs) \<Longrightarrow> j \<noteq> inode \<Longrightarrow>
      used_blocks n ! k \<notin> set (used_blocks (inode_blocks fs ! unat j)) \<Longrightarrow>
      file_content fs' j = file_content fs j"
proof -
  let ?X = "concat (blocks_data fs n)" and ?fs1 = "set_size fs inode sz"
  have wn: "wf_inode fs n" "unat inode < length (inode_blocks fs)"
    using wf_fs_inode [OF wf] n(1) by simp_all
  note uni = blocks_data_uniform [OF wf(1) wn(1)]
  have X: "length ?X = BLK * length (used_blocks n)"
    using length_concat_uniform [OF uni] by simp
  have fit: "off + length ys \<le> BLK * length (used_blocks n)"
  proof -
    have "off + length ys \<le> BLK * Suc k" using off(1) ys(2) by simp
    also have "\<dots> \<le> BLK * length (used_blocks n)" using n(3) by (intro mult_le_mono2) simp
    finally show ?thesis .
  qed
  then have cover: "unat sz \<le> BLK * length (used_blocks n)"
    using sz(1) wf_inode_blocks(2) [OF wn(1)] by simp
  note ss = wf_set_size [OF wf, of sz, folded n(1)]
  have wf1: "wf_fs ?fs1" "used_blocks (inode_blocks ?fs1 ! unat inode) = used_blocks n"
    using ss sz cover by auto
  have blk: "length (blocks_data fs n ! k) = BLK" using uni n(3) by simp
  then have "length (splice p ys (blocks_data fs n ! k)) = BLK"
    using ys(2) by (simp add: splice_def)
  from wf_set_data [OF wf1(1) this] show "wf_fs fs'" by (simp add: fs')
  have inode': "inode_blocks fs' ! unat inode = n\<lparr>file_size := sz\<rparr>"
    "used_blocks (n\<lparr>file_size := sz\<rparr>) = used_blocks n"
    using wf1(2) wn(2) by (simp_all add: fs' set_data_def set_size_def n(1))
  have data': "map (\<lambda>b. data_blocks fs' ! unat b) (used_blocks n)
      = (blocks_data fs n)[k := splice p ys (blocks_data fs n ! k)]"
    using blocks_data_set_data [OF wf(1) wn(1) n(2,3)] by (simp add: fs' set_data_def set_size_def)
  have "concat ((blocks_data fs n)[k := splice p ys (blocks_data fs n ! k)]) = splice off ys ?X"
    unfolding splice_def off(1) using concat_update_uniform [OF uni _ ys(2), of k] n(3) by simp
  moreover have "take (unat sz) (splice off ys ?X) = splice off ys (take (unat (file_size n)) ?X)"
    unfolding splice_def sz(1) using splice_take [OF off(2), of ?X ys] X fit ys(1)
      wf_inode_blocks(2) [OF wn(1)] by simp
  ultimately show "file_content fs' inode = splice off ys (file_content fs inode)"
    by (simp add: file_content_def file_bytes_def inode' data' flip: n(1))
  show "file_content fs' j = file_content fs j"
    if j: "j < inode_count (boot_block fs)" "j \<noteq> inode"
      "used_blocks n ! k \<notin> set (used_blocks (inode_blocks fs ! unat j))"
  proof -
    have "unat j \<noteq> unat inode" using j(2) by (metis unsigned_word_eqI)
    then have "inode_blocks fs' ! unat j = inode_blocks fs ! unat j"
      by (simp add: fs' set_data_def set_size_def)
    moreover have "data_blocks fs' ! unat b = data_blocks fs ! unat b"
      if "b \<in> set (used_blocks (inode_blocks fs ! unat j))" for b
    proof -
      have "unat b \<noteq> unat (used_blocks n ! k)" using that j(3) by (metis unsigned_word_eqI)
      then show ?thesis by (simp add: fs' set_data_def set_size_def)
    qed
    ultimately show ?thesis
      by (simp add: file_content_def file_bytes_def cong: map_cong)
  qed
qed

text \<open>The code on such a write.\<close>

lemma write_range_in_block:
  assumes "get_inode_block fs inode k = Some b" "unat b < length (data_blocks fs)"
    and "length (data_blocks fs ! unat b) = BLK" "unat len \<le> length src"
    and "unat off + unat len \<le> BLK" "unat off < BLK"
  shows "write_range fs inode k off src len
    = Some (True, set_data fs b (splice (unat off) (take (unat len) src) (data_blocks fs ! unat b)))"
proof -
  have "off \<le> 4096" using assms(6) by (simp add: word_le_nat_alt less_imp_le)
  then have "len \<le> 4096 - off"
    using assms(5) by (simp add: word_le_nat_alt unat_sub)
  moreover have "copy_to_block fs b (unat off) (take (unat len) src)
      = Some (set_data fs b (splice (unat off) (take (unat len) src) (data_blocks fs ! unat b)))"
    using copy_to_block_eq [of b fs "unat off" "take (unat len) src"] assms
    by (simp add: set_data_def splice_def)
  ultimately show ?thesis
    using assms(1,4) by (simp add: write_range_def Let_def checked_simps)
qed

lemma write_data_in_block:
  assumes wf: "wf_fs fs" "inode < inode_count (boot_block fs)"
    and n: "n = inode_blocks fs ! unat inode" "distinct (used_blocks n)"
    and k: "k = unat offset div BLK" "k < length (used_blocks n)"
    and args: "buf \<noteq> 0" "len \<noteq> 0" "unat len \<le> length src" "offset \<le> file_size n"
    and one: "unat offset mod BLK + unat len \<le> BLK"
      "unat offset + unat len < BLOCKS_PER_INODE * BLK"
    and disk: "ata_responsive (device s)"
  defines "sz \<equiv> (if offset + len > file_size n then offset + len else file_size n)"
  defines "fs' \<equiv> set_data (set_size fs inode sz) (used_blocks n ! k)
      (splice (unat offset mod BLK) (take (unat len) src) (blocks_data fs n ! k))"
  shows "\<exists>s'. write_data fs inode offset buf src len s = Some (len, fs', s')"
    and "wf_fs fs'"
    and "file_content fs' inode = splice (unat offset) (take (unat len) src) (file_content fs inode)"
    and "j < inode_count (boot_block fs) \<Longrightarrow> j \<noteq> inode \<Longrightarrow>
      used_blocks n ! k \<notin> set (used_blocks (inode_blocks fs ! unat j)) \<Longrightarrow>
      file_content fs' j = file_content fs j"
proof -
  let ?ys = "take (unat len) src" and ?p = "unat offset mod BLK" and ?b = "used_blocks n ! k"
  have wn: "wf_inode fs n" "unat inode < length (inode_blocks fs)"
    using wf_fs_inode [OF wf] n(1) by simp_all
  have ys: "length ?ys = unat len" "?ys \<noteq> []"
    using args(2,3) by (auto simp: unat_eq_0)
  have off: "unat offset = BLK * k + ?p" "unat offset \<le> unat (file_size n)"
    using args(4) by (simp_all add: k(1) word_le_nat_alt)
  have sum: "unat (offset + len) = unat offset + unat len"
    using one(2) by (simp add: unat_word_ariths)
  have sz: "unat sz = max (unat (file_size n)) (unat offset + length ?ys)"
    using sum ys(1) by (auto simp: sz_def word_less_nat_alt max_def)
  then have sz2: "unat sz < BLOCKS_PER_INODE * BLK"
    using one(2) ys(1) wn(1) by (simp add: wf_inode_def)
  have one': "?p + length ?ys \<le> BLK" using one(1) ys(1) by simp
  note main = file_content_splice [OF wf n k(2) ys(2) one' off sz sz2]
  show wf': "wf_fs fs'"
    and "file_content fs' inode = splice (unat offset) ?ys (file_content fs inode)"
    and "j < inode_count (boot_block fs) \<Longrightarrow> j \<noteq> inode \<Longrightarrow>
      ?b \<notin> set (used_blocks (inode_blocks fs ! unat j)) \<Longrightarrow> file_content fs' j = file_content fs j"
    using main [OF meta_eq_to_obj_eq [OF fs'_def]] by blast+
  have grow: "(if offset + len > file_size n
      then fs\<lparr>inode_blocks := (inode_blocks fs)[unat inode := n\<lparr>file_size := offset + len\<rparr>]\<rparr>
      else fs) = set_size fs inode sz"
    using set_size_same [OF wn(2)] n(1) by (auto simp: sz_def set_size_def)
  have range: "write_range (set_size fs inode sz) inode k (offset AND 4095) src len = Some (True, fs')"
  proof -
    have "get_inode_block (set_size fs inode sz) inode k = Some ?b"
      using wn k(2) wf_inode_blocks(3,5) [OF wn(1)] n(1)
      by (simp add: get_inode_block_def set_size_def checked_simps)
    moreover have "unat ?b < length (data_blocks fs)" using wf_inode_blocks(4) [OF wn(1) k(2)] .
    ultimately show ?thesis
      using write_range_in_block [of "set_size fs inode sz" inode k ?b len src "offset AND 4095"]
        wf_fs_block [OF wf(1)] args(3) one(1) k(2)
      by (simp add: set_size_def block_simps fs'_def)
  qed
  obtain s' where "flush_image fs' s = Some s'"
    using flush_image_returns [OF wf' disk] by blast
  moreover have "\<not> inode_count (boot_block fs) \<le> inode" "\<not> file_size n < offset"
    using wf(2) args(4) by (simp_all add: not_le not_less)
  ultimately have "write_data fs inode offset buf src len s = Some (len, fs', s')"
    using args(1,2) wn(2) range
    unfolding write_data_def Let_def
    by (simp add: nth_opt_Some grow block_simps flip: k(1) n(1) del: not_le not_less)
  then show "\<exists>s'. write_data fs inode offset buf src len s = Some (len, fs', s')" by blast
qed

section \<open>A write over several blocks\<close>

definition inode_blk :: "fsys \<Rightarrow> u32 \<Rightarrow> nat \<Rightarrow> u32" where
  "inode_blk fs inode i = inode_data_blocks (inode_blocks fs ! unat inode) ! i"

lemma copy_to_block_keeps:
  assumes "copy_to_block fs b off bytes = Some fs'"
  shows "find_free_datablock fs' = find_free_datablock fs"
    and "inode_blocks fs' = inode_blocks fs"
    and "data_block_bitmap fs' = data_block_bitmap fs"
  using assms
  by (auto simp: copy_to_block_def find_free_datablock_def bind_eq_Some_conv split: if_splits)

lemma set_inode_block_keeps:
  assumes "set_inode_block fs inode block b = Some fs'"
  shows "find_free_datablock fs' = find_free_datablock fs"
    and "inode_blk fs' inode i = (if i = block then b else inode_blk fs inode i)"
    and "data_block_bitmap fs' = data_block_bitmap fs"
  using assms
  by (auto simp: set_inode_block_def find_free_datablock_def inode_blk_def bind_eq_Some_conv)

lemma write_blocks_same_free:
  "write_blocks fs inode block src pos remain = Some fs' \<Longrightarrow> find_free_datablock fs = Some f \<Longrightarrow>
   (\<forall>i. block < i \<and> i \<le> block + unat remain div BLK \<longrightarrow> inode_blk fs' inode i = f) \<and>
   (\<forall>i \<le> block. inode_blk fs' inode i = inode_blk fs inode i) \<and>
   data_block_bitmap fs' = data_block_bitmap fs"
proof (induction fs inode block src pos remain rule: write_blocks.induct)
  case (1 fs inode block src pos remain)
  note unf = write_blocks.simps [of fs inode block src pos remain]
  show ?case
  proof (cases "remain AND NOT (FS_BLOCK_SIZE - 1) \<noteq> 0")
    case True
    then have big: "BLK \<le> unat remain" by (simp add: block_simps)
    let ?bytes = "take BLK (drop pos src)"
    from "1.prems"(1) True obtain b fs1 free fs2 where
      b: "get_inode_block fs inode block = Some b" and s: "slice_opt src pos BLK = Some ?bytes"
      and c: "copy_to_block fs b 0 ?bytes = Some fs1" and f: "find_free_datablock fs1 = Some free"
      and i: "set_inode_block fs1 inode (Suc block) free = Some fs2"
      and w: "write_blocks fs2 inode (Suc block) src (pos + BLK) (remain - FS_BLOCK_SIZE) = Some fs'"
      by (subst (asm) unf) (auto simp: bind_eq_Some_conv)
    note ck = copy_to_block_keeps [OF c] and ik = set_inode_block_keeps [OF i]
    have free: "free = f" using f ck(1) "1.prems"(2) by simp
    have ff2: "find_free_datablock fs2 = Some f" using ik(1) f free by simp
    have same: "inode_blk fs1 inode j = inode_blk fs inode j" for j
      by (simp add: inode_blk_def ck(2))
    have IH: "(\<forall>i. Suc block < i \<and> i \<le> Suc block + unat (remain - FS_BLOCK_SIZE) div BLK \<longrightarrow>
          inode_blk fs' inode i = f) \<and>
        (\<forall>i \<le> Suc block. inode_blk fs' inode i = inode_blk fs2 inode i) \<and>
        data_block_bitmap fs' = data_block_bitmap fs2"
      by (rule "1.IH" [OF True b s c f i w ff2])
    have count: "unat remain div BLK = Suc (unat (remain - FS_BLOCK_SIZE) div BLK)"
      using big by (simp add: block_simps le_div_geq)
    have "inode_blk fs' inode i = f" if "block < i" "i \<le> block + unat remain div BLK" for i
    proof (cases "i = Suc block")
      case True
      then show ?thesis using IH ik(2) free by simp
    next
      case False
      then show ?thesis using IH that count by simp
    qed
    moreover have "inode_blk fs' inode j = inode_blk fs inode j" if "j \<le> block" for j
      using that IH ik(2) same by simp
    ultimately show ?thesis using IH ik(3) ck(3) by simp
  next
    case False
    then have small: "unat remain div BLK = 0" by (simp add: block_simps)
    from "1.prems"(1) False obtain b bytes where "copy_to_block fs b 0 bytes = Some fs'"
      by (subst (asm) unf) (auto simp: bind_eq_Some_conv)
    from copy_to_block_keeps [OF this] small show ?thesis
      by (auto simp: inode_blk_def)
  qed
qed

lemma write_range_same_free:
  assumes w: "write_range fs inode index offset src len = Some (True, fs')"
    and f: "find_free_datablock fs = Some f"
    and more: "\<not> len \<le> FS_BLOCK_SIZE - offset"
    and i: "index < i" "i \<le> Suc index + unat (len - (FS_BLOCK_SIZE - offset)) div BLK"
  shows "inode_blk fs' inode i = f"
proof -
  obtain b fs0 fs1 fs2 bytes free where
    fs0: "find_free_datablock fs0 = Some f"
    and c: "copy_to_block fs0 b (unat offset) bytes = Some fs1"
    and free: "find_free_datablock fs1 = Some free"
    and s: "set_inode_block fs1 inode (Suc index) free = Some fs2"
    and wb: "write_blocks fs2 inode (Suc index) src (unat (FS_BLOCK_SIZE - offset))
        (len - (FS_BLOCK_SIZE - offset)) = Some fs'"
    using w more f set_inode_block_keeps(1) [of fs inode index f]
    by (fastforce simp: write_range_def Let_def bind_eq_Some_conv split: if_splits)
  have "free = f" "find_free_datablock fs2 = Some f"
    using fs0 free copy_to_block_keeps(1) [OF c] set_inode_block_keeps(1) [OF s] by simp_all
  note W = write_blocks_same_free [OF wb this(2)]
  show ?thesis
  proof (cases "i = Suc index")
    case True
    then show ?thesis
      using W set_inode_block_keeps(2) [OF s, of i] \<open>free = f\<close> by simp
  next
    case False
    then show ?thesis using W i by simp
  qed
qed

section \<open>Properties\<close>


definition sample_io :: io where
  "sample_io = \<lparr>hist = [], device = (\<lambda>h port. ATA_DRQ)\<rparr>"

lemma sample_io_responsive: "ata_responsive (device sample_io)"
  by (simp add: ata_responsive_def sample_io_def)


text \<open>C35: on a write that runs over the end of its first block, the free block found once is put
  into every following position of the inode's block list, up to one past the last whole block:
  the search does not mark the block it returns in the bitmap, so all the later blocks of the file
  are one and the same data block, and the blocks the file had there are lost.\<close>

theorem write_range_shares_one_block:
  assumes "write_range fs inode index offset src len = Some (True, fs')"
    and "find_free_datablock fs = Some f" "\<not> len \<le> FS_BLOCK_SIZE - offset"
    and "index < i" "i \<le> Suc index + unat (len - (FS_BLOCK_SIZE - offset)) div BLK"
  shows "inode_data_blocks (inode_blocks fs' ! unat inode) ! i = f"
  using write_range_same_free [OF assms] by (simp add: inode_blk_def)

lemma sample_free: "find_free_datablock sample_fs = Some 4"
  by (simp add: find_free_datablock_def sample_fs_def nth_opt_def find_free.simps [of _ "Suc 0"]
      find_free.simps [of _ "Suc (Suc 0)"] find_free.simps [of _ "Suc (Suc (Suc 0))"]
      find_free.simps [of _ "Suc (Suc (Suc (Suc 0)))"])

lemma sample_write_range:
  "\<exists>fs'. write_range sample_fs 2 0 0 (replicate 12288 9) 12288 = Some (True, fs')"
  by (simp add: write_range_def sample_fs_def get_inode_block_def set_inode_block_def
      copy_to_block_def find_free_datablock_def find_free.simps [of _ "Suc 0"]
      find_free.simps [of _ "Suc (Suc 0)"] find_free.simps [of _ "Suc (Suc (Suc 0))"]
      find_free.simps [of _ "Suc (Suc (Suc (Suc 0)))"] sample_inode_def
      nth_opt_def upd_opt_def slice_opt_def blit_opt_def
      write_blocks.simps)

theorem write_range_shares_one_block_witness:
  "\<exists>fs'. write_range sample_fs 2 0 0 (replicate 12288 9) 12288 = Some (True, fs') \<and>
     inode_data_blocks (inode_blocks fs' ! 2) ! 1 = 4 \<and> inode_data_blocks (inode_blocks fs' ! 2) ! 2 = 4"
proof -
  obtain fs' where fs': "write_range sample_fs 2 0 0 (replicate 12288 9) 12288 = Some (True, fs')"
    using sample_write_range by blast
  note shares = write_range_shares_one_block [OF fs' sample_free]
  have "inode_data_blocks (inode_blocks fs' ! 2) ! 1 = 4" "inode_data_blocks (inode_blocks fs' ! 2) ! 2 = 4"
    using shares [of 1] shares [of 2] by simp_all
  with fs' show ?thesis by blast
qed

text \<open>The search for a free data block returns the least block number, from 1 on, whose bitmap
  byte is 0, below the number of data blocks, and -1 when there is none; block 0 is never
  returned.\<close>

theorem find_free_datablock_spec:
  assumes "unat (data_block_count (boot_block fs)) \<le> length (data_block_bitmap fs)"
    and "0 < data_block_count (boot_block fs)"
  shows "find_free_datablock fs =
    (if \<exists>k. 1 \<le> k \<and> k < unat (data_block_count (boot_block fs)) \<and> data_block_bitmap fs ! k = 0
     then Some (of_nat (LEAST k. 1 \<le> k \<and> data_block_bitmap fs ! k = 0)) else Some (-1))"
  unfolding find_free_datablock_def
  using assms by (intro find_free_spec) (auto simp: word_less_nat_alt)

theorem find_free_datablock_spec_witness:
  "find_free_datablock sample_fs = Some 4"
proof -
  have bm: "data_block_bitmap sample_fs ! k = 0 \<longleftrightarrow> 4 \<le> k" if "k < 64" for k
    using that by (auto simp: sample_fs_def nth_append nth_Cons split: nat.splits)
  have "(LEAST k. 1 \<le> k \<and> data_block_bitmap sample_fs ! k = 0) = 4"
    using bm [of 4] by (intro Least_equality) (auto intro: ccontr simp: bm)
  moreover have "unat (data_block_count (boot_block sample_fs)) = 5"
    "data_block_count (boot_block sample_fs) = 5" "length (data_block_bitmap sample_fs) = 64"
    by (simp_all add: sample_fs_def)
  moreover have "\<exists>k. 1 \<le> k \<and> k < (5::nat) \<and> data_block_bitmap sample_fs ! k = 0"
    using bm [of 4] by (intro exI [of _ 4]) simp
  ultimately show ?thesis
    using find_free_datablock_spec [of sample_fs] by simp
qed

end
