(* ===== verification/I8259.thy ===== *)
theory I8259 imports PortIO begin

text \<open>
  The interrupt controller of \<^verbatim>\<open>src/student-distrib/i8259.c\<close>: the two mask bytes the kernel
  keeps (\<^verbatim>\<open>master_mask\<close>, \<^verbatim>\<open>slave_mask\<close>) and the commands it sends to the two chips. The masks
  abstract to the set of enabled interrupt lines, and enabling and disabling a line are
  insertion and removal on that set.
\<close>

definition MASTER_8259_COMMAND :: u16 where "MASTER_8259_COMMAND = 0x20"
definition MASTER_8259_DATA :: u16 where "MASTER_8259_DATA = 0x21"
definition SLAVE_8259_COMMAND :: u16 where "SLAVE_8259_COMMAND = 0xA0"
definition SLAVE_8259_DATA :: u16 where "SLAVE_8259_DATA = 0xA1"

lemmas pic_ports = MASTER_8259_COMMAND_def MASTER_8259_DATA_def
  SLAVE_8259_COMMAND_def SLAVE_8259_DATA_def

abbreviation ICW1 :: u32 where "ICW1 \<equiv> 0x11"
abbreviation ICW2_MASTER :: u32 where "ICW2_MASTER \<equiv> 0x20"
abbreviation ICW2_SLAVE :: u32 where "ICW2_SLAVE \<equiv> 0x28"
abbreviation ICW3_MASTER :: u32 where "ICW3_MASTER \<equiv> 0x04"
abbreviation ICW3_SLAVE :: u32 where "ICW3_SLAVE \<equiv> 0x02"
abbreviation ICW4 :: u32 where "ICW4 \<equiv> 0x01"
abbreviation EOI :: u32 where "EOI \<equiv> 0x60"
abbreviation SLAVE_IRQ :: u32 where "SLAVE_IRQ \<equiv> 0x02"
abbreviation IRQ_MASTER_MAX :: u32 where "IRQ_MASTER_MAX \<equiv> 0x07"
abbreviation IRQ_MAX :: u32 where "IRQ_MAX \<equiv> 0x0F"

record pic =
  master_mask :: u8
  slave_mask :: u8

definition pic_boot :: pic where
  "pic_boot = \<lparr>master_mask = 0xFB, slave_mask = 0xFF\<rparr>"

definition i8259_init :: "pic \<Rightarrow> io \<Rightarrow> io" where
  "i8259_init p s =
     (let s = outb 0xFF MASTER_8259_DATA s;
          s = outb 0xFF SLAVE_8259_DATA s;
          s = outb ICW1 MASTER_8259_COMMAND s;
          s = outb ICW1 SLAVE_8259_COMMAND s;
          s = outb ICW2_MASTER MASTER_8259_DATA s;
          s = outb ICW2_SLAVE SLAVE_8259_DATA s;
          s = outb ICW3_MASTER MASTER_8259_DATA s;
          s = outb ICW3_SLAVE SLAVE_8259_DATA s;
          s = outb ICW4 MASTER_8259_DATA s;
          s = outb ICW4 SLAVE_8259_DATA s;
          s = outb (ucast (master_mask p)) MASTER_8259_DATA s
      in outb (ucast (slave_mask p)) SLAVE_8259_DATA s)"

text \<open>\<^verbatim>\<open>mask &= ~(1 << n)\<close> and \<^verbatim>\<open>mask |= (1 << n)\<close> on a byte, computed at the width of \<^verbatim>\<open>int\<close>.\<close>

definition mask_clear :: "u8 \<Rightarrow> u32 \<Rightarrow> u8" where
  "mask_clear m n = ucast (ucast m AND NOT (push_bit (unat n) (1 :: u32)))"

definition mask_set :: "u8 \<Rightarrow> u32 \<Rightarrow> u8" where
  "mask_set m n = ucast (ucast m OR push_bit (unat n) (1 :: u32))"

definition enable_irq :: "u32 \<Rightarrow> pic \<times> io \<Rightarrow> pic \<times> io" where
  "enable_irq irq_num = (\<lambda>(p, s).
     if irq_num > IRQ_MAX then (p, s)
     else if irq_num \<le> IRQ_MASTER_MAX then
       let p = p\<lparr>master_mask := mask_clear (master_mask p) irq_num\<rparr>
       in (p, outb (ucast (master_mask p)) MASTER_8259_DATA s)
     else
       let p = p\<lparr>slave_mask := mask_clear (slave_mask p) (irq_num - 8)\<rparr>
       in (p, outb (ucast (slave_mask p)) SLAVE_8259_DATA s))"

definition disable_irq :: "u32 \<Rightarrow> pic \<times> io \<Rightarrow> pic \<times> io" where
  "disable_irq irq_num = (\<lambda>(p, s).
     if irq_num > IRQ_MAX then (p, s)
     else if irq_num \<le> IRQ_MASTER_MAX then
       let p = p\<lparr>master_mask := mask_set (master_mask p) irq_num\<rparr>
       in (p, outb (ucast (master_mask p)) MASTER_8259_DATA s)
     else
       let p = p\<lparr>slave_mask := mask_set (slave_mask p) (irq_num - 8)\<rparr>
       in (p, outb (ucast (slave_mask p)) SLAVE_8259_DATA s))"

definition send_eoi :: "u32 \<Rightarrow> io \<Rightarrow> io" where
  "send_eoi irq_num s =
     (if irq_num > IRQ_MAX then s
      else if irq_num > IRQ_MASTER_MAX then
        outb (EOI OR SLAVE_IRQ) MASTER_8259_COMMAND
          (outb (EOI OR (irq_num - 8)) SLAVE_8259_COMMAND s)
      else outb (EOI OR irq_num) MASTER_8259_COMMAND s)"

section \<open>The set of enabled lines\<close>

definition line_enabled :: "pic \<Rightarrow> nat \<Rightarrow> bool" where
  "line_enabled p n =
     (if n < 8 then \<not> bit (master_mask p) n else n < 16 \<and> \<not> bit (slave_mask p) (n - 8))"

definition enabled_lines :: "pic \<Rightarrow> nat set" where
  "enabled_lines p = {n. line_enabled p n}"

lemma bit_mask_clear:
  "bit (mask_clear m n) i \<longleftrightarrow> bit m i \<and> i \<noteq> unat n"
  by (auto simp: mask_clear_def bit_simps dest: bit_imp_le_length)

lemma bit_mask_set:
  "unat n < 8 \<Longrightarrow> bit (mask_set m n) i \<longleftrightarrow> bit m i \<or> i = unat n"
  by (auto simp: mask_set_def bit_simps dest: bit_imp_le_length)

text \<open>The mask byte last written to each data port is the mask the kernel keeps.\<close>

definition masks_sent :: "pic \<Rightarrow> io_ev list \<Rightarrow> bool" where
  "masks_sent p evs = (\<forall>port m. Out8 port m \<in> set evs \<longrightarrow>
     (port = MASTER_8259_DATA \<longrightarrow> m = master_mask p) \<and>
     (port = SLAVE_8259_DATA \<longrightarrow> m = slave_mask p))"

lemma enable_irq_line:
  "enabled_lines (fst (enable_irq n (p, s))) =
     (if n \<le> IRQ_MAX then insert (unat n) (enabled_lines p) else enabled_lines p)"
proof -
  have "unat (n - 8) = unat n - 8" if "\<not> n \<le> 7"
    using that by (simp add: unat_sub word_le_nat_alt)
  then show ?thesis
    by (auto simp: enable_irq_def enabled_lines_def line_enabled_def bit_mask_clear
        word_le_nat_alt word_less_nat_alt)
qed

lemma disable_irq_line:
  "enabled_lines (fst (disable_irq n (p, s))) =
     (if n \<le> IRQ_MAX then enabled_lines p - {unat n} else enabled_lines p)"
proof -
  have "unat (n - 8) = unat n - 8" if "\<not> n \<le> 7"
    using that by (simp add: unat_sub word_le_nat_alt)
  then show ?thesis
    by (auto simp: disable_irq_def enabled_lines_def line_enabled_def bit_mask_set
        word_le_nat_alt word_less_nat_alt)
qed

section \<open>Properties\<close>

text \<open>Enabling and disabling an interrupt line insert it into and remove it from the set of
  enabled lines the two mask bytes stand for, and touch no other line; a line number above 15
  changes nothing.\<close>

theorem irq_lines:
  "enabled_lines (fst (enable_irq n (p, s))) =
     (if n \<le> IRQ_MAX then insert (unat n) (enabled_lines p) else enabled_lines p) \<and>
   enabled_lines (fst (disable_irq n (p, s))) =
     (if n \<le> IRQ_MAX then enabled_lines p - {unat n} else enabled_lines p)"
  by (simp only: enable_irq_line disable_irq_line)

text \<open>After \<^verbatim>\<open>enable_irq\<close> or \<^verbatim>\<open>disable_irq\<close> of a valid line, the one byte sent to the
  controllers is the new mask of the chip that owns the line, on that chip's data port.\<close>

theorem irq_mask_sent:
  assumes "n \<le> IRQ_MAX" "op \<in> {enable_irq, disable_irq}" "op n (p, s) = (p', s')"
  shows "hist s' = (if unat n < 8 then Out8 MASTER_8259_DATA (master_mask p')
                    else Out8 SLAVE_8259_DATA (slave_mask p')) # hist s"
  using assms
  by (auto simp: enable_irq_def disable_irq_def Let_def word_le_nat_alt word_less_nat_alt
      split: if_splits)

theorem irq_mask_sent_witness:
  "hist (snd (enable_irq 8 (pic_boot, \<lparr>hist = [], device = \<lambda>h p. 0\<rparr>))) = [Out8 SLAVE_8259_DATA 0xFE]"
  using irq_mask_sent [of 8 enable_irq pic_boot "\<lparr>hist = [], device = \<lambda>h p. 0\<rparr>",
      OF _ _ prod.collapse [symmetric]]
  by (simp add: enable_irq_def pic_boot_def mask_clear_def)

end
