(* ===== verification/Paging.thy ===== *)
theory Paging imports CMem begin

text \<open>
  Paging: the entries of \<^verbatim>\<open>src/student-distrib/x86_desc.h\<close> with their bit fields, the tables of
  \<^verbatim>\<open>paging.h\<close>, \<^verbatim>\<open>paging_init\<close> of \<^verbatim>\<open>paging.c\<close> and \<^verbatim>\<open>kmalloc_init\<close> of \<^verbatim>\<open>malloc.c\<close>. An entry is
  the 32-bit word of its union. The addresses the linker gives the tables are the fields
  \<open>kernel_table_at\<close>, \<open>user_table_at\<close> and \<open>kmalloc_table_at\<close>; \<open>translate\<close> is the walk of the x86 memory
  management unit with page size extension, over these tables.
\<close>

abbreviation PAGING_COUNT :: nat where "PAGING_COUNT \<equiv> 1024"
abbreviation VIDMEM_INDEX :: nat where "VIDMEM_INDEX \<equiv> 0xB8"
abbreviation KERNEL_ADDR :: u32 where "KERNEL_ADDR \<equiv> 0x400000"
abbreviation KMALLOC_BEGIN :: u32 where "KMALLOC_BEGIN \<equiv> 0x3000000"
abbreviation KMALLOC_PDE :: nat where "KMALLOC_PDE \<equiv> 12"
abbreviation KMALLOC_PDE_COUNT :: nat where "KMALLOC_PDE_COUNT \<equiv> 4"
abbreviation KMALLOC_SIZE :: u32 where "KMALLOC_SIZE \<equiv> 0x1000000"

section \<open>Bit fields\<close>

text \<open>\<open>set_field p l v w\<close> assigns \<open>v\<close> to the field of \<open>l\<close> bits at position \<open>p\<close> of the word \<open>w\<close>.\<close>

definition set_field :: "nat \<Rightarrow> nat \<Rightarrow> u32 \<Rightarrow> u32 \<Rightarrow> u32" where
  "set_field p l v w = (w AND NOT (push_bit p (mask l))) OR push_bit p (take_bit l v)"

definition get_field :: "nat \<Rightarrow> nat \<Rightarrow> u32 \<Rightarrow> u32" where
  "get_field p l w = take_bit l (drop_bit p w)"

lemma bit_set_field:
  "bit (set_field p l v w) n \<longleftrightarrow> (if p \<le> n \<and> n < p + l \<and> n < 32 then bit v (n - p) else bit w n)"
  by (auto simp: set_field_def bit_simps dest: bit_imp_le_length)

lemma bit_get_field: "bit (get_field p l w) n \<longleftrightarrow> n < l \<and> bit w (p + n)"
  by (auto simp: get_field_def bit_simps)

lemma get_set_field_same: "p + l \<le> 32 \<Longrightarrow> get_field p l (set_field p l v w) = take_bit l v"
  by (rule bit_word_eqI) (auto simp: bit_get_field bit_set_field bit_simps)

lemma get_set_field_other:
  "q + k \<le> p \<or> p + l \<le> q \<Longrightarrow> get_field q k (set_field p l v w) = get_field q k w"
  by (rule bit_word_eqI) (auto simp: bit_get_field bit_set_field)

abbreviation "set_present \<equiv> set_field 0 (Suc 0)"
abbreviation "set_read_write \<equiv> set_field (Suc 0) (Suc 0)"
abbreviation "set_user_supervisor \<equiv> set_field 2 (Suc 0)"
abbreviation "set_page_size \<equiv> set_field 7 (Suc 0)"
abbreviation "set_page_table_base_address \<equiv> set_field 12 20"
abbreviation "set_page_base_address \<equiv> set_field 12 20"
abbreviation "set_MB_page_base_address \<equiv> set_field 22 10"

section \<open>The tables\<close>

record paging =
  page_directories :: "u32 list"
  page_table_kernel_vidmem :: "u32 list"
  page_table_user_vidmem :: "u32 list"
  page_table_kmalloc :: "u32 list"
  kernel_table_at :: u32
  user_table_at :: u32
  kmalloc_table_at :: u32

definition page_dir_map :: "nat \<Rightarrow> (u32 \<Rightarrow> u32) \<Rightarrow> paging \<Rightarrow> paging" where
  "page_dir_map i f p = p\<lparr>page_directories := (page_directories p)[i := f (page_directories p ! i)]\<rparr>"

definition kernel_pte_map :: "nat \<Rightarrow> (u32 \<Rightarrow> u32) \<Rightarrow> paging \<Rightarrow> paging" where
  "kernel_pte_map i f p = p\<lparr>page_table_kernel_vidmem :=
     (page_table_kernel_vidmem p)[i := f (page_table_kernel_vidmem p ! i)]\<rparr>"

definition user_pte_map :: "nat \<Rightarrow> (u32 \<Rightarrow> u32) \<Rightarrow> paging \<Rightarrow> paging" where
  "user_pte_map i f p = p\<lparr>page_table_user_vidmem :=
     (page_table_user_vidmem p)[i := f (page_table_user_vidmem p ! i)]\<rparr>"

definition kmalloc_pte_map :: "nat \<Rightarrow> (u32 \<Rightarrow> u32) \<Rightarrow> paging \<Rightarrow> paging" where
  "kmalloc_pte_map i f p = p\<lparr>page_table_kmalloc :=
     (page_table_kmalloc p)[i := f (page_table_kmalloc p ! i)]\<rparr>"

text \<open>The walk: a page-directory entry either maps 4 MB or names a table of 4 KB pages. A table
  outside the three of the kernel, or a table entry past the array, has no defined result.\<close>

definition table_entry :: "paging \<Rightarrow> u32 \<Rightarrow> nat \<Rightarrow> u32 option" where
  "table_entry p table i =
     (if table = kernel_table_at p then nth_opt (page_table_kernel_vidmem p) i
      else if table = user_table_at p then nth_opt (page_table_user_vidmem p) i
      else if (table - kmalloc_table_at p) AND 0xFFF = 0 \<and> kmalloc_table_at p \<le> table
      then nth_opt (page_table_kmalloc p) (unat (table - kmalloc_table_at p) div 4 + i)
      else None)"

definition translate :: "paging \<Rightarrow> u32 \<Rightarrow> u32 option" where
  "translate p va = do {
     pde \<leftarrow> nth_opt (page_directories p) (unat (drop_bit 22 va));
     if \<not> bit pde 0 then None
     else if bit pde 7 then Some ((pde AND 0xFFC00000) OR (va AND 0x3FFFFF))
     else do {
       pte \<leftarrow> table_entry p (pde AND 0xFFFFF000) (unat (get_field 12 10 va));
       if bit pte 0 then Some ((pte AND 0xFFFFF000) OR (va AND 0xFFF)) else None
     }
   }"

section \<open>Initialisation\<close>

definition paging_init_entry :: "nat \<Rightarrow> paging \<Rightarrow> paging" where
  "paging_init_entry i p =
     (let p = page_dir_map i (set_page_size 1) p;
          p = page_dir_map i (set_MB_page_base_address (of_nat i)) p;
          p = kernel_pte_map i (set_page_base_address (of_nat i)) p
      in user_pte_map i (set_page_base_address (of_nat i)) p)"

definition paging_init :: "paging \<Rightarrow> paging" where
  "paging_init p =
     (let p = p\<lparr>page_directories := replicate PAGING_COUNT 0,
                page_table_kernel_vidmem := replicate PAGING_COUNT 0,
                page_table_user_vidmem := replicate PAGING_COUNT 0\<rparr>;
          p = page_dir_map 0 (set_present 1) p;
          p = page_dir_map 0 (\<lambda>v. v OR kernel_table_at p) p;
          p = page_dir_map 1 (set_present 1) p;
          p = page_dir_map 1 (set_page_size 1) p;
          p = page_dir_map 1 (\<lambda>v. v OR KERNEL_ADDR) p;
          p = kernel_pte_map 1 (set_page_base_address 1) p;
          p = user_pte_map 1 (set_page_base_address 1) p;
          p = fold paging_init_entry [2..<PAGING_COUNT] p;
          p = kernel_pte_map VIDMEM_INDEX (set_present 1) p;
          p = user_pte_map VIDMEM_INDEX (set_present 0) p;
          p = user_pte_map VIDMEM_INDEX (set_user_supervisor 1) p;
          p = user_pte_map VIDMEM_INDEX (set_read_write 1) p;
          p = page_dir_map VIDMEM_INDEX (set_present 1) p;
          p = page_dir_map VIDMEM_INDEX (set_user_supervisor 1) p;
          p = page_dir_map VIDMEM_INDEX (set_read_write 1) p;
          p = page_dir_map VIDMEM_INDEX (set_page_size 0) p
      in page_dir_map VIDMEM_INDEX (set_page_table_base_address (drop_bit 12 (user_table_at p))) p)"

definition kmalloc_init_entry :: "nat \<Rightarrow> nat \<Rightarrow> paging \<Rightarrow> paging" where
  "kmalloc_init_entry i j p =
     (let k = PAGING_COUNT * i + j;
          p = kmalloc_pte_map k (set_present 1) p;
          p = kmalloc_pte_map k (set_user_supervisor 0) p;
          p = kmalloc_pte_map k (set_read_write 1) p
      in kmalloc_pte_map k (set_page_base_address (of_nat j)) p)"

definition kmalloc_init_table :: "nat \<Rightarrow> paging \<Rightarrow> paging" where
  "kmalloc_init_table i p =
     (let p = page_dir_map (KMALLOC_PDE + i) (set_present 1) p;
          p = page_dir_map (KMALLOC_PDE + i) (set_user_supervisor 0) p;
          p = page_dir_map (KMALLOC_PDE + i) (set_read_write 1) p;
          p = page_dir_map (KMALLOC_PDE + i) (set_page_size 0) p;
          pos = kmalloc_table_at p + 4 * of_nat (PAGING_COUNT * i);
          p = page_dir_map (KMALLOC_PDE + i) (set_page_table_base_address (drop_bit 12 pos)) p
      in fold (kmalloc_init_entry i) [0..<PAGING_COUNT] p)"

text \<open>The tables are set up, then the whole region is cleared through them: a store to a virtual
  address reaches the physical address it translates to. \<open>None\<close> is a page fault.\<close>

definition store_virtual :: "paging \<Rightarrow> u32 \<Rightarrow> u8 \<Rightarrow> mem \<Rightarrow> mem option" where
  "store_virtual p va b m = do { pa \<leftarrow> translate p va; Some (m(pa := b)) }"

definition load_virtual :: "paging \<Rightarrow> u32 \<Rightarrow> mem \<Rightarrow> u8 option" where
  "load_virtual p va m = do { pa \<leftarrow> translate p va; Some (m pa) }"

fun fill_virtual :: "nat \<Rightarrow> paging \<Rightarrow> u32 \<Rightarrow> u8 \<Rightarrow> mem \<Rightarrow> mem option" where
  "fill_virtual 0 p va b m = Some m"
| "fill_virtual (Suc n) p va b m = do { m \<leftarrow> store_virtual p va b m; fill_virtual n p (va + 1) b m }"

definition kmalloc_init :: "paging \<Rightarrow> mem \<Rightarrow> (paging \<times> mem) option" where
  "kmalloc_init p m = do {
     let p = fold kmalloc_init_table [0..<KMALLOC_PDE_COUNT] p;
     m \<leftarrow> fill_virtual (unat KMALLOC_SIZE) p KMALLOC_BEGIN 0 m;
     Some (p, m)
   }"

section \<open>Updating table entries\<close>

lemmas map_defs = page_dir_map_def kernel_pte_map_def user_pte_map_def kmalloc_pte_map_def

lemma maps_select [simp]:
  "page_directories (page_dir_map i f p) = (page_directories p)[i := f (page_directories p ! i)]"
  "page_table_kernel_vidmem (page_dir_map i f p) = page_table_kernel_vidmem p"
  "page_table_user_vidmem (page_dir_map i f p) = page_table_user_vidmem p"
  "page_table_kmalloc (page_dir_map i f p) = page_table_kmalloc p"
  "page_directories (kernel_pte_map i f p) = page_directories p"
  "page_table_kernel_vidmem (kernel_pte_map i f p) =
     (page_table_kernel_vidmem p)[i := f (page_table_kernel_vidmem p ! i)]"
  "page_table_user_vidmem (kernel_pte_map i f p) = page_table_user_vidmem p"
  "page_table_kmalloc (kernel_pte_map i f p) = page_table_kmalloc p"
  "page_directories (user_pte_map i f p) = page_directories p"
  "page_table_kernel_vidmem (user_pte_map i f p) = page_table_kernel_vidmem p"
  "page_table_user_vidmem (user_pte_map i f p) =
     (page_table_user_vidmem p)[i := f (page_table_user_vidmem p ! i)]"
  "page_table_kmalloc (user_pte_map i f p) = page_table_kmalloc p"
  "page_directories (kmalloc_pte_map i f p) = page_directories p"
  "page_table_kernel_vidmem (kmalloc_pte_map i f p) = page_table_kernel_vidmem p"
  "page_table_user_vidmem (kmalloc_pte_map i f p) = page_table_user_vidmem p"
  "page_table_kmalloc (kmalloc_pte_map i f p) = (page_table_kmalloc p)[i := f (page_table_kmalloc p ! i)]"
  by (simp_all add: map_defs)

lemma maps_tables_at [simp]:
  "kernel_table_at (page_dir_map i f p) = kernel_table_at p"
  "user_table_at (page_dir_map i f p) = user_table_at p"
  "kmalloc_table_at (page_dir_map i f p) = kmalloc_table_at p"
  "kernel_table_at (kernel_pte_map i f p) = kernel_table_at p"
  "user_table_at (kernel_pte_map i f p) = user_table_at p"
  "kmalloc_table_at (kernel_pte_map i f p) = kmalloc_table_at p"
  "kernel_table_at (user_pte_map i f p) = kernel_table_at p"
  "user_table_at (user_pte_map i f p) = user_table_at p"
  "kmalloc_table_at (user_pte_map i f p) = kmalloc_table_at p"
  "kernel_table_at (kmalloc_pte_map i f p) = kernel_table_at p"
  "user_table_at (kmalloc_pte_map i f p) = user_table_at p"
  "kmalloc_table_at (kmalloc_pte_map i f p) = kmalloc_table_at p"
  by (simp_all add: map_defs)

text \<open>A loop that updates entry \<open>i\<close> in its \<open>i\<close>-th round.\<close>

definition upd_range :: "(nat \<Rightarrow> 'a \<Rightarrow> 'a) \<Rightarrow> nat \<Rightarrow> nat \<Rightarrow> 'a list \<Rightarrow> 'a list" where
  "upd_range f a b xs = map (\<lambda>k. if a \<le> k \<and> k < b then f k (xs ! k) else xs ! k) [0..<length xs]"

lemma length_upd_range [simp]: "length (upd_range f a b xs) = length xs"
  by (simp add: upd_range_def)

lemma nth_upd_range [simp]:
  "k < length xs \<Longrightarrow> upd_range f a b xs ! k = (if a \<le> k \<and> k < b then f k (xs ! k) else xs ! k)"
  by (simp add: upd_range_def)

lemma upd_range_empty [simp]: "upd_range f a a xs = xs"
  by (rule nth_equalityI) auto

lemma upd_range_Suc:
  "a \<le> b \<Longrightarrow> (upd_range f a b xs)[b := f b (upd_range f a b xs ! b)] = upd_range f a (Suc b) xs"
  by (rule nth_equalityI) (auto simp: nth_list_update less_Suc_eq)

definition mb_entry :: "nat \<Rightarrow> u32 \<Rightarrow> u32" where
  "mb_entry i v = set_MB_page_base_address (of_nat i) (set_page_size 1 v)"

definition kb_entry :: "nat \<Rightarrow> u32 \<Rightarrow> u32" where
  "kb_entry i v = set_page_base_address (of_nat i) v"

lemma update_twice: "xs[i := f (xs ! i), i := g ((xs[i := f (xs ! i)]) ! i)] = xs[i := g (f (xs ! i))]"
  by (cases "i < length xs") (simp_all add: not_less list_update_beyond)

lemma update_twice_nth: "xs[i := f ((xs[i := g (xs ! i)]) ! i)] = xs[i := f (g (xs ! i))]"
  by (cases "i < length xs") (simp_all add: not_less list_update_beyond)

lemma paging_init_entry_simps [simp]:
  "page_directories (paging_init_entry i p) = (page_directories p)[i := mb_entry i (page_directories p ! i)]"
  "page_table_kernel_vidmem (paging_init_entry i p) = (page_table_kernel_vidmem p)[i := kb_entry i (page_table_kernel_vidmem p ! i)]"
  "page_table_user_vidmem (paging_init_entry i p) = (page_table_user_vidmem p)[i := kb_entry i (page_table_user_vidmem p ! i)]"
  "page_table_kmalloc (paging_init_entry i p) = page_table_kmalloc p"
  "kernel_table_at (paging_init_entry i p) = kernel_table_at p"
  "user_table_at (paging_init_entry i p) = user_table_at p"
  "kmalloc_table_at (paging_init_entry i p) = kmalloc_table_at p"
  by (simp_all only: paging_init_entry_def Let_def maps_select maps_tables_at update_twice mb_entry_def kb_entry_def)

lemma fold_paging_init_entry:
  "a \<le> b \<Longrightarrow>
   page_directories (fold paging_init_entry [a..<b] p) = upd_range mb_entry a b (page_directories p) \<and>
   page_table_kernel_vidmem (fold paging_init_entry [a..<b] p) = upd_range kb_entry a b (page_table_kernel_vidmem p) \<and>
   page_table_user_vidmem (fold paging_init_entry [a..<b] p) = upd_range kb_entry a b (page_table_user_vidmem p) \<and>
   page_table_kmalloc (fold paging_init_entry [a..<b] p) = page_table_kmalloc p \<and>
   kernel_table_at (fold paging_init_entry [a..<b] p) = kernel_table_at p \<and>
   user_table_at (fold paging_init_entry [a..<b] p) = user_table_at p \<and>
   kmalloc_table_at (fold paging_init_entry [a..<b] p) = kmalloc_table_at p"
proof (induction b)
  case (Suc b)
  show ?case
  proof (cases "a = Suc b")
    case False
    then have ab: "a \<le> b" using Suc.prems by simp
    from Suc.IH [OF ab] upd_range_Suc [OF ab, of mb_entry] upd_range_Suc [OF ab, of kb_entry] show ?thesis
      using ab by simp
  qed simp
qed simp

section \<open>What paging_init maps\<close>

definition wf_layout :: "paging \<Rightarrow> bool" where
  "wf_layout p \<longleftrightarrow>
     take_bit 12 (kernel_table_at p) = 0 \<and> take_bit 12 (user_table_at p) = 0 \<and>
     take_bit 12 (kmalloc_table_at p) = 0 \<and> kernel_table_at p \<noteq> user_table_at p \<and>
     0x4000 \<le> kernel_table_at p - kmalloc_table_at p \<and> 0x4000 \<le> user_table_at p - kmalloc_table_at p \<and>
     unat (kmalloc_table_at p) + 0x4000 \<le> 2 ^ 32 \<and>
     length (page_table_kmalloc p) = PAGING_COUNT * KMALLOC_PDE_COUNT"

lemma page_masks:
  "(0xFFFFF000 :: u32) = NOT (mask 12)" "(0xFFF :: u32) = mask 12"
  "(0xFFC00000 :: u32) = NOT (mask 22)" "(0x3FFFFF :: u32) = mask 22"
  by (simp_all add: mask_eq_exp_minus_1)

lemma bit_page_address:
  "bit ((e AND 0xFFFFF000) OR (va AND 0xFFF) :: u32) n \<longleftrightarrow> (if n < 12 then bit va n else bit e n)"
  by (auto simp: page_masks bit_simps dest: bit_imp_le_length)

lemma bit_big_page_address:
  "bit ((e AND 0xFFC00000) OR (va AND 0x3FFFFF) :: u32) n \<longleftrightarrow> (if n < 22 then bit va n else bit e n)"
  by (auto simp: page_masks bit_simps dest: bit_imp_le_length)

lemma aligned_bit: "take_bit 12 (x :: u32) = 0 \<Longrightarrow> n < 12 \<Longrightarrow> \<not> bit x n"
  by (metis bit_0_eq bit_take_bit_iff bot_apply bot_bool_def)

lemma aligned_eqI:
  assumes "take_bit 12 (t :: u32) = 0" "\<And>n. 12 \<le> n \<Longrightarrow> n < 32 \<Longrightarrow> bit e n = bit t n"
  shows "e AND 0xFFFFF000 = t"
proof (rule bit_word_eqI)
  fix n assume "n < LENGTH(32)"
  then show "bit (e AND 0xFFFFF000) n = bit t n"
    using assms(2) [of n] aligned_bit [OF assms(1), of n]
    by (cases "n < 12") (simp_all add: page_masks bit_simps not_less)
qed

text \<open>Successive updates of one entry are one update.\<close>

lemma maps_same:
  "page_dir_map i f (page_dir_map i g p) = page_dir_map i (\<lambda>v. f (g v)) p"
  "user_pte_map i f (user_pte_map i g p) = user_pte_map i (\<lambda>v. f (g v)) p"
  "kmalloc_pte_map i f (kmalloc_pte_map i g p) = kmalloc_pte_map i (\<lambda>v. f (g v)) p"
  by (simp_all add: map_defs update_twice_nth)

definition clear_tables :: "paging \<Rightarrow> paging" where
  "clear_tables p = p\<lparr>page_directories := replicate PAGING_COUNT 0,
     page_table_kernel_vidmem := replicate PAGING_COUNT 0,
     page_table_user_vidmem := replicate PAGING_COUNT 0\<rparr>"

lemma clear_tables_simps [simp]:
  "page_directories (clear_tables p) = replicate PAGING_COUNT 0"
  "page_table_kernel_vidmem (clear_tables p) = replicate PAGING_COUNT 0"
  "page_table_user_vidmem (clear_tables p) = replicate PAGING_COUNT 0"
  "page_table_kmalloc (clear_tables p) = page_table_kmalloc p"
  "kernel_table_at (clear_tables p) = kernel_table_at p" "user_table_at (clear_tables p) = user_table_at p"
  "kmalloc_table_at (clear_tables p) = kmalloc_table_at p"
  by (simp_all add: clear_tables_def)

definition video_dir_entry :: "paging \<Rightarrow> u32 \<Rightarrow> u32" where
  "video_dir_entry p v = set_page_table_base_address (drop_bit 12 (user_table_at p))
     (set_page_size 0 (set_read_write 1 (set_user_supervisor 1 (set_present 1 v))))"

definition video_user_entry :: "u32 \<Rightarrow> u32" where
  "video_user_entry v = set_read_write 1 (set_user_supervisor 1 (set_present 0 v))"

definition kernel_dir_entry :: "u32 \<Rightarrow> u32" where
  "kernel_dir_entry v = set_page_size 1 (set_present 1 v) OR KERNEL_ADDR"

lemma fold_paging_init_entry_simps [simp]:
  "a \<le> b \<Longrightarrow> page_directories (fold paging_init_entry [a..<b] p) = upd_range mb_entry a b (page_directories p)"
  "a \<le> b \<Longrightarrow> page_table_kernel_vidmem (fold paging_init_entry [a..<b] p) = upd_range kb_entry a b (page_table_kernel_vidmem p)"
  "a \<le> b \<Longrightarrow> page_table_user_vidmem (fold paging_init_entry [a..<b] p) = upd_range kb_entry a b (page_table_user_vidmem p)"
  "a \<le> b \<Longrightarrow> page_table_kmalloc (fold paging_init_entry [a..<b] p) = page_table_kmalloc p"
  "a \<le> b \<Longrightarrow> kernel_table_at (fold paging_init_entry [a..<b] p) = kernel_table_at p"
  "a \<le> b \<Longrightarrow> user_table_at (fold paging_init_entry [a..<b] p) = user_table_at p"
  "a \<le> b \<Longrightarrow> kmalloc_table_at (fold paging_init_entry [a..<b] p) = kmalloc_table_at p"
  using fold_paging_init_entry [of a b p] by simp_all

lemma two_le_count: "(2 :: nat) \<le> PAGING_COUNT" by simp

lemma paging_init_steps:
  "paging_init p = page_dir_map VIDMEM_INDEX (video_dir_entry p)
     (user_pte_map VIDMEM_INDEX video_user_entry
       (kernel_pte_map VIDMEM_INDEX (set_present 1)
         (fold paging_init_entry [2..<PAGING_COUNT]
           (user_pte_map 1 (kb_entry 1) (kernel_pte_map 1 (kb_entry 1)
             (page_dir_map 1 kernel_dir_entry
               (page_dir_map 0 (\<lambda>v. set_present 1 v OR kernel_table_at p) (clear_tables p))))))))"
  unfolding paging_init_def Let_def clear_tables_def [symmetric] maps_same
    maps_tables_at fold_paging_init_entry_simps(5-7) [OF two_le_count] clear_tables_simps
    video_dir_entry_def [abs_def] video_user_entry_def [abs_def] kernel_dir_entry_def [abs_def] kb_entry_def [abs_def]
  by simp

lemma paging_init_tables_at [simp]:
  "kernel_table_at (paging_init p) = kernel_table_at p" "user_table_at (paging_init p) = user_table_at p"
  "kmalloc_table_at (paging_init p) = kmalloc_table_at p"
  "page_table_kmalloc (paging_init p) = page_table_kmalloc p"
  by (simp_all add: paging_init_steps del: upt_rec_numeral)

lemma paging_init_lengths [simp]:
  "length (page_directories (paging_init p)) = PAGING_COUNT"
  "length (page_table_kernel_vidmem (paging_init p)) = PAGING_COUNT"
  "length (page_table_user_vidmem (paging_init p)) = PAGING_COUNT"
  by (simp_all add: paging_init_steps del: upt_rec_numeral)

lemma paging_init_dir:
  assumes "i < PAGING_COUNT"
  shows "page_directories (paging_init p) ! i =
    (if i = 0 then set_present 1 0 OR kernel_table_at p
     else if i = 1 then kernel_dir_entry 0
     else if i = VIDMEM_INDEX then video_dir_entry p (mb_entry i 0)
     else mb_entry i 0)"
  using assms by (auto simp: paging_init_steps nth_list_update simp del: upt_rec_numeral)

lemma paging_init_kernel_pte:
  assumes "i < PAGING_COUNT"
  shows "page_table_kernel_vidmem (paging_init p) ! i =
    (if i = 0 then 0 else if i = VIDMEM_INDEX then set_present 1 (kb_entry i 0) else kb_entry i 0)"
  using assms by (cases "i = 1") (auto simp: paging_init_steps nth_list_update simp del: upt_rec_numeral)

lemma paging_init_user_pte:
  assumes "i < PAGING_COUNT"
  shows "page_table_user_vidmem (paging_init p) ! i =
    (if i = 0 then 0 else if i = VIDMEM_INDEX then video_user_entry (kb_entry i 0) else kb_entry i 0)"
  using assms by (cases "i = 1") (auto simp: paging_init_steps nth_list_update simp del: upt_rec_numeral)

section \<open>The walk after paging_init\<close>

lemma bit_drop_index: "bit (va :: u32) n = bit (drop_bit 12 va) (n - 12)" if "12 \<le> n"
  using that by (simp add: bit_simps)

lemma walk_identity:
  assumes "\<And>n. 12 \<le> n \<Longrightarrow> n < 32 \<Longrightarrow> bit e n = bit va n"
  shows "(e AND 0xFFFFF000) OR (va AND 0xFFF) = (va :: u32)"
proof (rule bit_word_eqI)
  fix n assume "n < LENGTH(32)"
  then show "bit ((e AND 0xFFFFF000) OR (va AND 0xFFF)) n = bit va n"
    using assms [of n] by (simp only: bit_page_address) simp
qed

lemma bit_kb_entry: "bit (kb_entry i v) n \<longleftrightarrow> (if 12 \<le> n \<and> n < 32 then bit (of_nat i :: u32) (n - 12) else bit v n)"
  by (auto simp: kb_entry_def bit_set_field)

lemma bit_mb_entry:
  "bit (mb_entry i v) n \<longleftrightarrow> (if 22 \<le> n \<and> n < 32 then bit (of_nat i :: u32) (n - 22)
     else if n = 7 then True else bit v n)"
  by (auto simp: mb_entry_def bit_set_field)

lemma bit_KERNEL_ADDR: "bit KERNEL_ADDR n \<longleftrightarrow> n = 22"
proof -
  have k: "KERNEL_ADDR = 2 ^ 22" by simp
  show ?thesis unfolding k bit_exp_iff by (auto simp: possible_bit_word)
qed

lemma bit_kernel_dir_entry: "bit (kernel_dir_entry 0) n \<longleftrightarrow> n = 0 \<or> n = 7 \<or> n = 22"
  using bit_KERNEL_ADDR [of n]
  by (auto simp: kernel_dir_entry_def bit_set_field bit_or_iff bit_1_iff)

lemma bit_video_dir_entry:
  "bit (video_dir_entry p v) n \<longleftrightarrow> (if 12 \<le> n \<and> n < 32 then bit (user_table_at p) n
     else if n \<le> 2 then True else if n = 7 then False else bit v n)"
  by (auto simp: video_dir_entry_def bit_set_field bit_simps le_Suc_eq numeral_2_eq_2)

lemma va_indices:
  "drop_bit 12 (va :: u32) = of_nat k \<longleftrightarrow> unat (drop_bit 22 va) = k div 1024 \<and> unat (get_field 12 10 va) = k mod 1024"
  if "k < 2 ^ 20"
proof -
  have v: "unat (drop_bit 12 va) = unat va div 2 ^ 12" "unat (drop_bit 22 va) = unat va div 2 ^ 22"
    by (subst unat_drop_bit_eq, simp add: drop_bit_eq_div)+
  have g: "unat (get_field 12 10 va) = unat (drop_bit 12 va) mod 1024"
    by (simp add: get_field_def unsigned_take_bit_eq) (simp add: take_bit_eq_mod)
  have d: "unat (drop_bit 22 va) = unat (drop_bit 12 va) div 1024"
    unfolding v by (simp add: div_mult2_eq [symmetric])
  have "drop_bit 12 va = of_nat k \<longleftrightarrow> unat (drop_bit 12 va) = k"
    using that by (auto simp: unat_of_nat intro: word_unat_eq_iff [THEN iffD2])
  then show ?thesis unfolding g d by (metis mult_div_mod_eq)
qed

lemma index_22_less: "unat (drop_bit 22 (va :: u32)) < PAGING_COUNT"
  using unat_u32_less [of va] by (subst unat_drop_bit_eq) (simp add: drop_bit_eq_div less_mult_imp_div_less)

lemma index_12_less: "unat (get_field 12 10 (va :: u32)) < PAGING_COUNT"
  by (simp add: get_field_def unsigned_take_bit_eq) (simp add: take_bit_eq_mod)

lemma high_bits_eq:
  "drop_bit 12 (va :: u32) = of_nat k \<Longrightarrow> 12 \<le> n \<Longrightarrow> bit va n = bit (of_nat k :: u32) (n - 12)"
  using bit_drop_index by metis

lemma walk_kernel_table:
  assumes "wf_layout p" "unat (drop_bit 22 va) = 0"
  shows "translate (paging_init p) va = (if drop_bit 12 va = of_nat VIDMEM_INDEX then Some va else None)"
proof -
  let ?i = "unat (get_field 12 10 va)" and ?pde = "set_present 1 0 OR kernel_table_at p"
  have al: "take_bit 12 (kernel_table_at p) = 0" using assms(1) by (simp add: wf_layout_def)
  note kt = aligned_bit [OF al]
  have pde: "bit ?pde 0" "\<not> bit ?pde 7" using kt [of 7]
    by (simp_all add: bit_or_iff bit_set_field)
  have table: "?pde AND 0xFFFFF000 = kernel_table_at p"
    by (rule aligned_eqI [OF al]) (auto simp: bit_or_iff bit_set_field)
  have video: "drop_bit 12 va = of_nat VIDMEM_INDEX \<longleftrightarrow> ?i = VIDMEM_INDEX"
    using va_indices [of VIDMEM_INDEX va] assms(2) by simp
  have pte: "table_entry (paging_init p) (kernel_table_at p) ?i = Some (page_table_kernel_vidmem (paging_init p) ! ?i)"
    using index_12_less [of va] by (simp add: table_entry_def nth_opt_Some)
  have present: "bit (page_table_kernel_vidmem (paging_init p) ! ?i) 0 \<longleftrightarrow> ?i = VIDMEM_INDEX"
    using index_12_less [of va]
    by (auto simp: paging_init_kernel_pte bit_kb_entry bit_set_field)
  have same: "(page_table_kernel_vidmem (paging_init p) ! ?i AND 0xFFFFF000) OR (va AND 0xFFF) = va"
    if i: "?i = VIDMEM_INDEX"
    using high_bits_eq [OF video [THEN iffD2, OF i]] i
    by (intro walk_identity) (simp add: paging_init_kernel_pte bit_set_field bit_kb_entry)
  show ?thesis
    using assms(2) pde pte present same video
    by (simp add: translate_def nth_opt_Some paging_init_dir table)
qed

lemma walk_user_table:
  assumes "wf_layout p" "unat (drop_bit 22 va) = VIDMEM_INDEX"
  shows "translate (paging_init p) va = None"
proof -
  let ?i = "unat (get_field 12 10 va)" and ?pde = "video_dir_entry p (mb_entry VIDMEM_INDEX 0)"
  have al: "take_bit 12 (user_table_at p) = 0" using assms(1) by (simp add: wf_layout_def)
  have pde: "bit ?pde 0" "\<not> bit ?pde 7" by (simp_all add: bit_video_dir_entry)
  have table: "?pde AND 0xFFFFF000 = user_table_at p"
    by (rule aligned_eqI [OF al]) (simp add: bit_video_dir_entry)
  have pte: "table_entry (paging_init p) (user_table_at p) ?i = Some (page_table_user_vidmem (paging_init p) ! ?i)"
    using index_12_less [of va] assms(1) by (auto simp: table_entry_def nth_opt_Some wf_layout_def)
  have "\<not> bit (page_table_user_vidmem (paging_init p) ! ?i) 0"
    using index_12_less [of va]
    by (auto simp: paging_init_user_pte bit_kb_entry bit_set_field video_user_entry_def)
  then show ?thesis
    using assms(2) pde pte
    by (simp add: translate_def nth_opt_Some paging_init_dir table)
qed

lemma bit_high_22:
  assumes k: "unat (drop_bit 22 (va :: u32)) = k" and n: "22 \<le> n"
  shows "bit va n = bit (of_nat k :: u32) (n - 22)"
proof -
  have "drop_bit 22 va = of_nat k" unfolding k [symmetric] by simp
  moreover have "bit (drop_bit 22 va) (n - 22) = bit va n"
    using n by (simp only: bit_drop_bit_eq comp_apply le_add_diff_inverse)
  ultimately show ?thesis by (simp only:)
qed

lemma kernel_page_address:
  assumes "unat (drop_bit 22 va) = 1"
  shows "(kernel_dir_entry 0 AND 0xFFC00000) OR (va AND 0x3FFFFF) = va"
proof (rule bit_word_eqI)
  fix n :: nat
  have "bit va n \<longleftrightarrow> n = 22" if "22 \<le> n"
    using bit_high_22 [OF assms that] that by (auto simp: bit_1_iff)
  then show "bit ((kernel_dir_entry 0 AND 0xFFC00000) OR (va AND 0x3FFFFF)) n = bit va n"
    unfolding bit_big_page_address bit_kernel_dir_entry by auto
qed

lemma walk_kernel_page:
  assumes "unat (drop_bit 22 va) = 1"
  shows "translate (paging_init p) va = Some va"
proof -
  have "page_directories (paging_init p) ! 1 = kernel_dir_entry 0"
    by (subst paging_init_dir) simp_all
  then show ?thesis
    using assms kernel_page_address [OF assms] bit_kernel_dir_entry [of 0] bit_kernel_dir_entry [of 7]
    by (simp add: translate_def nth_opt_Some)
qed

lemma walk_absent:
  assumes "unat (drop_bit 22 va) \<notin> {0, 1, VIDMEM_INDEX}"
  shows "translate (paging_init p) va = None"
proof -
  have "\<not> bit (mb_entry i 0) 0" for i by (simp add: bit_mb_entry)
  then show ?thesis
    using assms index_22_less [of va] by (simp add: translate_def nth_opt_Some paging_init_dir)
qed

lemma paging_init_translate:
  assumes "wf_layout p"
  shows "translate (paging_init p) va =
    (if drop_bit 12 va = 0xB8 \<or> drop_bit 22 va = 1 then Some va else None)"
proof -
  have one: "drop_bit 22 va = 1 \<longleftrightarrow> unat (drop_bit 22 va) = 1"
    by (metis unat_1 unsigned_word_eqI)
  have video: "drop_bit 12 va = 0xB8 \<Longrightarrow> unat (drop_bit 22 va) = 0"
    using va_indices [of VIDMEM_INDEX va] by simp
  consider "unat (drop_bit 22 va) = 0" | "unat (drop_bit 22 va) = 1"
    | "unat (drop_bit 22 va) = VIDMEM_INDEX" | "unat (drop_bit 22 va) \<notin> {0, 1, VIDMEM_INDEX}" by fastforce
  then show ?thesis
  proof cases
    case 1
    then show ?thesis using walk_kernel_table [OF assms 1] one by simp
  next
    case 2
    then show ?thesis using walk_kernel_page [OF 2] one by simp
  next
    case 3
    then show ?thesis using walk_user_table [OF assms 3] one video by auto
  next
    case 4
    then show ?thesis using walk_absent [OF 4] one video by auto
  qed
qed

section \<open>Properties\<close>

text \<open>After \<^verbatim>\<open>paging_init\<close>, with page-aligned distinct tables, exactly the 4 KB page of the
  video memory and the 4 MB page of the kernel are mapped, both to themselves; every other access,
  the null page and the user video page included, faults.\<close>

theorem paging_init_maps:
  assumes "wf_layout p"
  shows "translate (paging_init p) va =
    (if drop_bit 12 va = 0xB8 \<or> drop_bit 22 va = 1 then Some va else None)"
  by (rule paging_init_translate [OF assms])

text \<open>Tables at three page-aligned places of the kernel page.\<close>

definition sample_layout :: paging where
  "sample_layout = \<lparr>page_directories = replicate PAGING_COUNT 0,
     page_table_kernel_vidmem = replicate PAGING_COUNT 0, page_table_user_vidmem = replicate PAGING_COUNT 0,
     page_table_kmalloc = replicate 4096 0, kernel_table_at = 0x411000, user_table_at = 0x412000,
     kmalloc_table_at = 0x413000\<rparr>"

lemma wf_sample_layout: "wf_layout sample_layout"
  by (simp add: wf_layout_def sample_layout_def word_le_nat_alt)

theorem paging_init_maps_witness:
  "translate (paging_init sample_layout) 0xB8123 = Some 0xB8123 \<and>
   translate (paging_init sample_layout) 0xB7FFF = None"
  using paging_init_maps [OF wf_sample_layout] by simp

end
