(* ===== verification/KernelState.thy ===== *)
theory KernelState imports I8259 FileRead Paging begin

text \<open>
  The state of the kernel: process control blocks and open files (\<^verbatim>\<open>lib.h\<close>), terminals, the console
  and scheduler variables of \<^verbatim>\<open>lib.c\<close> and \<^verbatim>\<open>sched.c\<close>, the paging tables, the physical memory, the task
  state, the registers that the kernel reads and writes by inline assembly, and the state of the
  devices. A process control block lies at the bottom of the 8 KB kernel stack of its process and is
  found from the stack pointer.
\<close>

abbreviation MAX_PROCESS :: nat where "MAX_PROCESS \<equiv> 6"
abbreviation TERMINAL_COUNT :: nat where "TERMINAL_COUNT \<equiv> 3"
abbreviation MAX_TERMINAL :: nat where "MAX_TERMINAL \<equiv> 128"
abbreviation KERNEL_STACK :: u32 where "KERNEL_STACK \<equiv> 0x800000"
abbreviation KERNEL_STACK_SIZE :: u32 where "KERNEL_STACK_SIZE \<equiv> 0x2000"
abbreviation USER_ENTRY :: nat where "USER_ENTRY \<equiv> 32"
abbreviation KERNEL_DS :: u16 where "KERNEL_DS \<equiv> 0x18"

section \<open>Processes, open files and terminals\<close>

text \<open>A \<^verbatim>\<open>file_operations_t *\<close> points to one of the six tables of \<^verbatim>\<open>syscall.c\<close>.\<close>

datatype file_operations_t = null_ops | stdin_ops | stdout_ops | file_ops | dir_ops | rtc_ops

record file_t =
  f_ops :: file_operations_t
  f_inode :: u32
  f_pos :: u32
  f_present :: u32

record pcb_t =
  p_present :: u8
  p_vidmap :: u8
  p_rtc :: u8
  p_rtc_fired :: u8
  p_rtc_curr :: u32
  p_rtc_rate :: u32
  p_pid :: i32
  p_parent :: u32
  p_ebp :: u32
  p_parent_ebp :: u32
  p_esp0 :: u32
  p_argv :: "u8 list"
  p_files :: "file_t list"

record terminal_t =
  t_pid :: i32
  t_content :: "u8 list"
  t_length :: u32
  t_in_progress :: u32
  t_to_be_halt :: u32
  t_cursor_x :: i32
  t_cursor_y :: i32

record kstate =
  pcbs :: "pcb_t list"
  terms :: "terminal_t list"
  shown_term_id :: u32
  active_term_id :: u32
  screen_x :: i32
  screen_y :: i32
  video_mem :: u32
  mmu :: paging
  phys :: mem
  tss_esp0 :: u32
  tss_ss0 :: u16
  esp :: u32
  ebp :: u32
  iflag :: bool
  pics :: pic
  ports :: io
  keyboard_bitmap :: u32
  disk :: fsys
  dir_pos :: u32
  exception_occurred :: u8

section \<open>The current process\<close>

text \<open>\<^verbatim>\<open>pcbs[i]\<close> is the address \<open>pcb_addr i\<close>; the block itself is element \<open>i\<close> of the field \<open>pcbs\<close>. A
  pointer to no process control block cannot be followed.\<close>

definition pcb_addr :: "nat \<Rightarrow> u32" where
  "pcb_addr i = KERNEL_STACK - (of_nat i + 1) * KERNEL_STACK_SIZE"

definition pcb_index :: "u32 \<Rightarrow> nat option" where
  "pcb_index a = List.find (\<lambda>i. pcb_addr i = a) [0..<MAX_PROCESS]"

definition get_current_pcb :: "kstate \<Rightarrow> u32" where
  "get_current_pcb s = esp s AND 0x7FE000"

definition current :: "kstate \<Rightarrow> nat option" where
  "current s = pcb_index (get_current_pcb s)"

definition get_pcb :: "nat \<Rightarrow> kstate \<Rightarrow> pcb_t option" where
  "get_pcb i s = nth_opt (pcbs s) i"

definition map_pcb :: "nat \<Rightarrow> (pcb_t \<Rightarrow> pcb_t) \<Rightarrow> kstate \<Rightarrow> kstate option" where
  "map_pcb i f s = do {
     p \<leftarrow> get_pcb i s;
     Some (s\<lparr>pcbs := (pcbs s)[i := f p]\<rparr>)
   }"

definition get_term :: "u32 \<Rightarrow> kstate \<Rightarrow> terminal_t option" where
  "get_term t s = nth_opt (terms s) (unat t)"

definition map_term :: "u32 \<Rightarrow> (terminal_t \<Rightarrow> terminal_t) \<Rightarrow> kstate \<Rightarrow> kstate option" where
  "map_term t f s = do {
     u \<leftarrow> get_term t s;
     Some (s\<lparr>terms := (terms s)[unat t := f u]\<rparr>)
   }"

text \<open>Loads and stores of the kernel go through the paging tables.\<close>

definition vload :: "u32 \<Rightarrow> kstate \<Rightarrow> u8 option" where
  "vload a s = load_virtual (mmu s) a (phys s)"

definition vstore :: "u32 \<Rightarrow> u8 \<Rightarrow> kstate \<Rightarrow> kstate option" where
  "vstore a b s = do { m \<leftarrow> store_virtual (mmu s) a b (phys s); Some (s\<lparr>phys := m\<rparr>) }"

section \<open>The stack pointer names the process\<close>

lemma process_cases: "i < MAX_PROCESS \<Longrightarrow> i = 0 \<or> i = 1 \<or> i = 2 \<or> i = 3 \<or> i = 4 \<or> i = 5"
  by auto

lemma unat_pcb_addr: "i < MAX_PROCESS \<Longrightarrow> unat (pcb_addr i) = 0x7FE000 - 0x2000 * i"
  by (drule process_cases, elim disjE) (simp_all add: pcb_addr_def)

lemma pcb_addr_inj:
  assumes i: "i < MAX_PROCESS" and j: "j < MAX_PROCESS"
  shows "pcb_addr i = pcb_addr j \<longleftrightarrow> i = j"
proof
  assume "pcb_addr i = pcb_addr j"
  then have "(0x7FE000 :: nat) - 0x2000 * i = 0x7FE000 - 0x2000 * j"
    using unat_pcb_addr [OF i] unat_pcb_addr [OF j] by metis
  then show "i = j" using i j by linarith
qed simp

lemma pcb_index_addr [simp]:
  assumes i: "i < MAX_PROCESS"
  shows "pcb_index (pcb_addr i) = Some i"
  unfolding pcb_index_def find_Some_iff
proof (intro exI conjI allI impI)
  show "i < length [0..<MAX_PROCESS]" "pcb_addr ([0..<MAX_PROCESS] ! i) = pcb_addr i" "i = [0..<MAX_PROCESS] ! i"
    using i by simp_all
  fix j assume "j < i"
  then show "pcb_addr ([0..<MAX_PROCESS] ! j) \<noteq> pcb_addr i"
    using i pcb_addr_inj [of j i] by simp
qed

lemma pcb_index_less: "pcb_index a = Some i \<Longrightarrow> i < MAX_PROCESS \<and> a = pcb_addr i"
  unfolding pcb_index_def by (auto simp: find_Some_iff)

text \<open>A stack pointer inside the stack of process \<open>i\<close>, at least one byte below its top.\<close>

definition on_stack_of :: "nat \<Rightarrow> kstate \<Rightarrow> bool" where
  "on_stack_of i s \<longleftrightarrow> i < MAX_PROCESS \<and>
     unat (pcb_addr i) \<le> unat (esp s) \<and> unat (esp s) < unat (pcb_addr i) + 0x2000"

lemma stack_mask: "unat (w AND 0x7FE000 :: u32) = unat w mod 0x800000 div 0x2000 * 0x2000"
proof -
  have m: "(0x7FE000 :: u32) = push_bit 13 (mask 10)" by (simp add: mask_eq_exp_minus_1)
  have "w AND 0x7FE000 = push_bit 13 (take_bit 10 (drop_bit 13 w))"
    unfolding m by (rule bit_word_eqI) (auto simp: bit_simps)
  also have "\<dots> = push_bit 13 (drop_bit 13 (take_bit 23 w))"
    by (rule bit_word_eqI) (auto simp: bit_simps)
  finally have e: "w AND 0x7FE000 = push_bit 13 (drop_bit 13 (take_bit 23 w))" .
  have t: "unat (take_bit 23 w) = unat w mod 0x800000"
    by (simp only: unsigned_take_bit_eq) (simp add: take_bit_nat_def)
  have "unat (drop_bit 13 (take_bit 23 w)) = unat w mod 0x800000 div 0x2000"
    by (subst unat_drop_bit_eq, subst t) (simp add: drop_bit_eq_div)
  moreover have "unat w mod 0x800000 div 0x2000 < 0x400"
    by (simp add: less_mult_imp_div_less)
  ultimately show ?thesis
    unfolding e by (simp add: push_bit_eq_mult unat_word_ariths)
qed

lemma current_on_stack: "on_stack_of i s \<Longrightarrow> current s = Some i"
proof -
  assume a: "on_stack_of i s"
  then have i: "i < MAX_PROCESS" by (simp add: on_stack_of_def)
  have range: "0x7FE000 - 0x2000 * i \<le> unat (esp s)" "unat (esp s) < 0x800000 - 0x2000 * i"
    using a unat_pcb_addr [OF i] i by (simp_all add: on_stack_of_def)
  have "unat (esp s) mod 0x800000 = unat (esp s)" using range(2) by simp
  moreover have "unat (esp s) div 0x2000 = 0x3FF - i"
  proof (rule div_nat_eqI)
    show "0x2000 * (0x3FF - i) \<le> unat (esp s)" using range(1) i by (simp add: diff_mult_distrib2)
    show "unat (esp s) < 0x2000 * Suc (0x3FF - i)" using range(2) i by (simp add: diff_mult_distrib2)
  qed
  ultimately have "unat (esp s AND 0x7FE000) = unat (pcb_addr i)"
    unfolding stack_mask unat_pcb_addr [OF i] using i by (simp add: diff_mult_distrib)
  then have "get_current_pcb s = pcb_addr i"
    unfolding get_current_pcb_def by (rule unsigned_word_eqI)
  then show ?thesis using i by (simp add: current_def)
qed

section \<open>Properties\<close>

text \<open>With the stack pointer anywhere in the 8 KB kernel stack of process \<open>i\<close>, below its top,
  \<^verbatim>\<open>get_current_pcb\<close> is the address of the control block of process \<open>i\<close>, and of no other process.\<close>

theorem get_current_pcb_of_stack:
  assumes "on_stack_of i s"
  shows "get_current_pcb s = pcb_addr i \<and> (\<forall>j < MAX_PROCESS. get_current_pcb s = pcb_addr j \<longleftrightarrow> j = i)"
proof -
  have "current s = Some i" by (rule current_on_stack [OF assms])
  then have c: "get_current_pcb s = pcb_addr i" "i < MAX_PROCESS"
    unfolding current_def by (auto dest: pcb_index_less)
  then show ?thesis using pcb_addr_inj [of i] by auto
qed

section \<open>A sample state\<close>

definition sample_file :: file_t where
  "sample_file = \<lparr>f_ops = null_ops, f_inode = 0, f_pos = 0, f_present = 0\<rparr>"

definition sample_pcb :: "nat \<Rightarrow> pcb_t" where
  "sample_pcb i = \<lparr>p_present = 1, p_vidmap = 0, p_rtc = 0, p_rtc_fired = 0, p_rtc_curr = 0, p_rtc_rate = 0,
     p_pid = of_nat i, p_parent = 0, p_ebp = 0, p_parent_ebp = 0,
     p_esp0 = KERNEL_STACK - KERNEL_STACK_SIZE * of_nat i, p_argv = replicate 128 0,
     p_files = [sample_file\<lparr>f_ops := stdin_ops, f_present := 1\<rparr>, sample_file\<lparr>f_ops := stdout_ops, f_present := 1\<rparr>]
       @ replicate 6 sample_file\<rparr>"

definition sample_terminal :: "nat \<Rightarrow> terminal_t" where
  "sample_terminal i = \<lparr>t_pid = of_nat i, t_content = replicate 128 0, t_length = 0, t_in_progress = 0,
     t_to_be_halt = 0, t_cursor_x = 0, t_cursor_y = 0\<rparr>"

text \<open>Three shells, the first running, on the tables as \<^verbatim>\<open>paging_init\<close> leaves them.\<close>

definition sample_state :: kstate where
  "sample_state = \<lparr>
     pcbs = map sample_pcb [0..<3] @ map (\<lambda>i. (sample_pcb i)\<lparr>p_present := 0\<rparr>) [3..<6],
     terms = map sample_terminal [0..<3], shown_term_id = 0, active_term_id = 0, screen_x = 0, screen_y = 0,
     video_mem = 0xB8000, mmu = paging_init sample_layout, phys = (\<lambda>a. 0), tss_esp0 = KERNEL_STACK,
     tss_ss0 = KERNEL_DS, esp = 0x7FFF00, ebp = 0x7FFF40, iflag = True, pics = pic_boot,
     ports = \<lparr>hist = [], device = (\<lambda>h port. ATA_DRQ)\<rparr>, keyboard_bitmap = 0, disk = sample_fs, dir_pos = 0,
     exception_occurred = 0\<rparr>"

lemma sample_on_stack: "on_stack_of 0 sample_state"
  by (simp add: on_stack_of_def unat_pcb_addr sample_state_def)

lemma current_sample: "current sample_state = Some 0"
  by (rule current_on_stack [OF sample_on_stack])

theorem get_current_pcb_of_stack_witness: "get_current_pcb sample_state = pcb_addr 0"
  using get_current_pcb_of_stack [OF sample_on_stack] by simp

end
