(* ===== verification/Console.thy ===== *)
theory Console imports KernelState begin

text \<open>
  The text console of \<^verbatim>\<open>src/student-distrib/lib.c\<close>: the cursor ports, \<^verbatim>\<open>clear\<close>, \<^verbatim>\<open>scroll\<close>,
  \<^verbatim>\<open>putc\<close>, \<^verbatim>\<open>puts\<close> and \<^verbatim>\<open>echo\<close>. The screen is written through the pointer \<^verbatim>\<open>video_mem\<close> and the
  paging tables, so a store can fault. The abstract screen is the list of the 2000 characters of the
  window that \<^verbatim>\<open>video_mem\<close> points to.
\<close>

abbreviation VIDEO :: u32 where "VIDEO \<equiv> 0xB8000"
abbreviation VIDEO_SIZE :: u32 where "VIDEO_SIZE \<equiv> 0x1000"
abbreviation NUM_COLS :: i32 where "NUM_COLS \<equiv> 80"
abbreviation NUM_ROWS :: i32 where "NUM_ROWS \<equiv> 25"
abbreviation ATTRIB :: u8 where "ATTRIB \<equiv> 7"
abbreviation TAB :: u8 where "TAB \<equiv> 15"

section \<open>Coordinates and the hardware cursor\<close>

definition set_cursor_pos :: "i32 \<Rightarrow> i32 \<Rightarrow> io \<Rightarrow> io" where
  "set_cursor_pos x y s =
     (let pos = ucast (y * NUM_COLS + x) :: u16;
          s = outb 0x0F 0x3D4 s;
          s = outb (ucast (pos AND 0xFF)) 0x3D5 s;
          s = outb 0x0E 0x3D4 s
      in outb (ucast (drop_bit 8 pos AND 0xFF)) 0x3D5 s)"

text \<open>The data and the port of the two commands are exchanged in the source.\<close>

definition get_cursor_pos :: "io \<Rightarrow> (i32 \<times> i32) \<times> io" where
  "get_cursor_pos s =
     (let s = outb 0x3D4 0x0F s;
          (lo, s) = inb 0x3D5 s;
          s = outb 0x3D4 0x0E s;
          (hi, s) = inb 0x3D5 s;
          pos = ucast lo OR push_bit 8 (ucast hi) :: u16
      in ((ucast pos mod NUM_COLS, ucast pos div NUM_COLS), s))"

definition set_screen_coordinate :: "i32 \<Rightarrow> i32 \<Rightarrow> kstate \<Rightarrow> kstate" where
  "set_screen_coordinate x y s = s\<lparr>screen_x := x, screen_y := y\<rparr>"

definition get_screen_coordinate :: "kstate \<Rightarrow> i32 \<times> i32" where
  "get_screen_coordinate s = (screen_x s, screen_y s)"

definition set_term_cursor :: "u32 \<Rightarrow> i32 \<Rightarrow> i32 \<Rightarrow> kstate \<Rightarrow> kstate option" where
  "set_term_cursor t x y = map_term t (\<lambda>u. u\<lparr>t_cursor_x := x, t_cursor_y := y\<rparr>)"

definition move_cursor :: "i32 \<Rightarrow> i32 \<Rightarrow> kstate \<Rightarrow> kstate" where
  "move_cursor x y s = s\<lparr>ports := set_cursor_pos x y (ports s)\<rparr>"

section \<open>Clearing and scrolling\<close>

text \<open>Byte \<open>off\<close> of the window.\<close>

definition video_store :: "u32 \<Rightarrow> u8 \<Rightarrow> kstate \<Rightarrow> kstate option" where
  "video_store off b s = vstore (video_mem s + off) b s"

definition video_load :: "u32 \<Rightarrow> kstate \<Rightarrow> u8 option" where
  "video_load off s = vload (video_mem s + off) s"

definition clear_cell :: "nat \<Rightarrow> kstate \<Rightarrow> kstate option" where
  "clear_cell i s = do {
     s \<leftarrow> video_store (push_bit 1 (of_nat i)) 32 s;
     video_store (push_bit 1 (of_nat i) + 1) ATTRIB s
   }"

definition clear :: "kstate \<Rightarrow> kstate option" where
  "clear s = do {
     s \<leftarrow> for_opt clear_cell [0..<unat (NUM_ROWS * NUM_COLS)] s;
     s \<leftarrow> set_term_cursor (shown_term_id s) 0 0 s;
     Some (if shown_term_id s = active_term_id s then s\<lparr>screen_x := 0, screen_y := 0\<rparr> else s)
   }"

text \<open>A 16-bit move is a move of its two bytes; both are loaded before the store.\<close>

definition scroll_cell :: "nat \<Rightarrow> kstate \<Rightarrow> kstate option" where
  "scroll_cell k s = do {
     let i = of_nat (2 * k);
     lo \<leftarrow> video_load (i + push_bit 1 NUM_COLS) s;
     hi \<leftarrow> video_load (i + push_bit 1 NUM_COLS + 1) s;
     s \<leftarrow> video_store i lo s;
     video_store (i + 1) hi s
   }"

definition scroll_count :: u32 where
  "scroll_count = push_bit 1 ((NUM_ROWS - 1) * NUM_COLS)"

definition scroll_last_cell :: "nat \<Rightarrow> kstate \<Rightarrow> kstate option" where
  "scroll_last_cell k s = do {
     let pos = scroll_count + of_nat (2 * k);
     s \<leftarrow> video_store pos 0 s;
     video_store (pos + 1) ATTRIB s
   }"

definition scroll :: "kstate \<Rightarrow> kstate option" where
  "scroll s = do {
     s \<leftarrow> for_opt scroll_cell [0..<unat scroll_count div 2] s;
     s \<leftarrow> for_opt scroll_last_cell [0..<unat NUM_COLS] s;
     Some (s\<lparr>screen_y := screen_y s - 1\<rparr>)
   }"

section \<open>Printing a character\<close>

definition new_line :: "kstate \<Rightarrow> kstate option" where
  "new_line s =
     (let s = s\<lparr>screen_y := screen_y s + 1, screen_x := 0\<rparr>
      in if screen_y s = NUM_ROWS then scroll s else Some s)"

text \<open>The loop of the backspace: at most \<open>n\<close> rounds; \<open>False\<close> is the early return at the upper left
  corner, which skips the cursor update.\<close>

fun putc_erase :: "nat \<Rightarrow> u32 \<Rightarrow> kstate \<Rightarrow> (bool \<times> kstate) option" where
  "putc_erase 0 offset s = Some (True, s)"
| "putc_erase (Suc n) offset s =
     (if screen_x s = 0 \<and> screen_y s = 0 then Some (False, s)
      else do {
        let s = (if screen_x s \<noteq> 0 then s\<lparr>screen_x := screen_x s - 1\<rparr>
                 else s\<lparr>screen_x := NUM_COLS - 1, screen_y := screen_y s - 1\<rparr>);
        s \<leftarrow> video_store (push_bit 1 offset) 0 s;
        s \<leftarrow> video_store (push_bit 1 offset + 1) ATTRIB s;
        if n = 0 then Some (True, s)
        else do {
          let offset = offset - 1;
          a \<leftarrow> video_load (push_bit 1 offset + 1) s;
          if a = TAB then putc_erase n offset s else Some (True, s)
        }
      })"

definition putc_backspace :: "kstate \<Rightarrow> (bool \<times> kstate) option" where
  "putc_backspace s = do {
     let offset = NUM_COLS * screen_y s + screen_x s - 1;
     a \<leftarrow> video_load (push_bit 1 offset + 1) s;
     putc_erase (if a = TAB then 4 else 1) offset s
   }"

fun putc_spaces :: "nat \<Rightarrow> u32 \<Rightarrow> kstate \<Rightarrow> kstate option" where
  "putc_spaces 0 offset s = Some s"
| "putc_spaces (Suc n) offset s = do {
     s \<leftarrow> video_store (push_bit 1 offset) 32 s;
     s \<leftarrow> video_store (push_bit 1 offset + 1) TAB s;
     putc_spaces n (offset + 1) (s\<lparr>screen_x := screen_x s + 1\<rparr>)
   }"

definition putc_tab :: "kstate \<Rightarrow> kstate option" where
  "putc_tab s =
     (let offset = NUM_COLS * screen_y s + screen_x s;
          count = 4 - (offset AND 3)
      in putc_spaces (unat count) offset s)"

definition putc_char :: "u8 \<Rightarrow> kstate \<Rightarrow> kstate option" where
  "putc_char c s = do {
     let offset = push_bit 1 (NUM_COLS * screen_y s + screen_x s);
     s \<leftarrow> video_store offset c s;
     s \<leftarrow> video_store (offset + 1) ATTRIB s;
     let s = s\<lparr>screen_x := screen_x s + 1\<rparr>;
     if screen_x s = NUM_COLS then new_line s else Some s
   }"

definition putc_cursor :: "kstate \<Rightarrow> kstate option" where
  "putc_cursor s = do {
     i \<leftarrow> current s;
     p \<leftarrow> get_pcb i s;
     u \<leftarrow> get_term (shown_term_id s) s;
     if p_pid p = t_pid u then do {
       s \<leftarrow> set_term_cursor (shown_term_id s) (screen_x s) (screen_y s) s;
       Some (move_cursor (screen_x s) (screen_y s) s)
     } else Some s
   }"

definition putc :: "u8 \<Rightarrow> kstate \<Rightarrow> kstate option" where
  "putc c s =
     (if c = 10 \<or> c = 13 then do { s \<leftarrow> new_line s; putc_cursor s }
      else if c = 8 then do {
        (go, s) \<leftarrow> putc_backspace s;
        if go then putc_cursor s else Some s
      }
      else if c = 9 then do { s \<leftarrow> putc_tab s; putc_cursor s }
      else do { s \<leftarrow> putc_char c s; putc_cursor s })"

text \<open>A string argument is the bytes up to its terminator.\<close>

definition puts :: "u8 list \<Rightarrow> kstate \<Rightarrow> (i32 \<times> kstate) option" where
  "puts str s = do { s \<leftarrow> for_opt putc str s; Some (of_nat (length str), s) }"

definition echo :: "u8 \<Rightarrow> kstate \<Rightarrow> kstate option" where
  "echo c s =
     (if active_term_id s = shown_term_id s then putc c s
      else do {
        let cache_x = screen_x s;
        let cache_y = screen_y s;
        u \<leftarrow> get_term (shown_term_id s) s;
        let s = s\<lparr>screen_x := t_cursor_x u, screen_y := t_cursor_y u, video_mem := VIDEO + VIDEO_SIZE\<rparr>;
        s \<leftarrow> putc c s;
        let s = s\<lparr>video_mem := VIDEO\<rparr>;
        s \<leftarrow> set_term_cursor (shown_term_id s) (screen_x s) (screen_y s) s;
        let s = move_cursor (screen_x s) (screen_y s) s;
        Some (s\<lparr>screen_x := cache_x, screen_y := cache_y\<rparr>)
      })"

definition test_interrupts_cell :: "nat \<Rightarrow> kstate \<Rightarrow> kstate option" where
  "test_interrupts_cell i s = do {
     b \<leftarrow> video_load (push_bit 1 (of_nat i)) s;
     video_store (push_bit 1 (of_nat i)) (b + 1) s
   }"

definition test_interrupts :: "kstate \<Rightarrow> kstate option" where
  "test_interrupts s = for_opt test_interrupts_cell [0..<unat (NUM_ROWS * NUM_COLS)] s"

section \<open>The window\<close>

text \<open>\<open>window s b\<close>: the 4 KB behind \<open>video_mem\<close> are mapped to the physical addresses from \<open>b\<close> on.\<close>

definition window :: "kstate \<Rightarrow> u32 \<Rightarrow> bool" where
  "window s b \<longleftrightarrow> (\<forall>off < 4096. translate (mmu s) (video_mem s + off) = Some (b + off))"

lemma window_store:
  "window s b \<Longrightarrow> off < 4096 \<Longrightarrow> video_store off v s = Some (s\<lparr>phys := (phys s)(b + off := v)\<rparr>)"
  by (simp add: video_store_def vstore_def store_virtual_def window_def)

lemma window_load: "window s b \<Longrightarrow> off < 4096 \<Longrightarrow> video_load off s = Some (phys s (b + off))"
  by (simp add: video_load_def vload_def load_virtual_def window_def)

lemma window_cong: "mmu s' = mmu s \<Longrightarrow> video_mem s' = video_mem s \<Longrightarrow> window s' b = window s b"
  by (simp add: window_def)

text \<open>The characters on the screen, row after row, and their attributes.\<close>

definition screen_chars :: "u32 \<Rightarrow> mem \<Rightarrow> u8 list" where
  "screen_chars b m = map (\<lambda>i. m (b + of_nat (2 * i))) [0..<2000]"

definition screen_attrs :: "u32 \<Rightarrow> mem \<Rightarrow> u8 list" where
  "screen_attrs b m = map (\<lambda>i. m (b + of_nat (2 * i) + 1)) [0..<2000]"

lemma screen_lengths [simp]: "length (screen_chars b m) = 2000" "length (screen_attrs b m) = 2000"
  by (simp_all add: screen_chars_def screen_attrs_def)

lemma screen_nth [simp]:
  "i < 2000 \<Longrightarrow> screen_chars b m ! i = m (b + of_nat (2 * i))"
  "i < 2000 \<Longrightarrow> screen_attrs b m ! i = m (b + of_nat (2 * i) + 1)"
  by (simp_all add: screen_chars_def screen_attrs_def)

text \<open>A cell is stored as a character and an attribute.\<close>

definition put_cell :: "u32 \<Rightarrow> nat \<Rightarrow> u8 \<Rightarrow> u8 \<Rightarrow> mem \<Rightarrow> mem" where
  "put_cell b i c a m = m(b + of_nat (2 * i) := c, b + of_nat (2 * i) + 1 := a)"

lemma of_nat_double_inj:
  assumes "i < 4096" "j < 4096"
  shows "(b + of_nat (2 * i) :: u32) = b + of_nat (2 * j) \<longleftrightarrow> i = j"
    and "(b + of_nat (2 * i) :: u32) \<noteq> b + of_nat (2 * j) + 1"
    and "(b + of_nat (2 * i) + 1 :: u32) = b + of_nat (2 * j) + 1 \<longleftrightarrow> i = j"
proof -
  have inj: "(of_nat k :: u32) = of_nat l \<longleftrightarrow> k = l" if "k < 10000" "l < 10000" for k l
  proof
    assume "(of_nat k :: u32) = of_nat l"
    then have "unat (of_nat k :: u32) = unat (of_nat l :: u32)" by simp
    then show "k = l" using that by (simp add: unat_of_nat)
  qed simp
  have "(of_nat (2 * i) :: u32) = of_nat (2 * j) \<longleftrightarrow> i = j"
    using assms inj [of "2 * i" "2 * j"] by (simp del: of_nat_mult)
  then show "(b + of_nat (2 * i) :: u32) = b + of_nat (2 * j) \<longleftrightarrow> i = j"
    and "(b + of_nat (2 * i) + 1 :: u32) = b + of_nat (2 * j) + 1 \<longleftrightarrow> i = j" by (simp_all del: of_nat_mult)
  have "(of_nat (2 * i) :: u32) \<noteq> of_nat (2 * j + 1)"
  proof -
    have "2 * i \<noteq> 2 * j + 1" by presburger
    then show ?thesis using assms inj [of "2 * i" "2 * j + 1"] by (simp del: of_nat_mult of_nat_add)
  qed
  then show "(b + of_nat (2 * i) :: u32) \<noteq> b + of_nat (2 * j) + 1"
    by (simp add: add.assoc add.commute del: of_nat_mult)
qed

lemma put_cell_screen:
  assumes "i < 2000"
  shows "screen_chars b (put_cell b i c a m) = (screen_chars b m)[i := c]"
    and "screen_attrs b (put_cell b i c a m) = (screen_attrs b m)[i := a]"
  using assms of_nat_double_inj [of i _ b] of_nat_double_inj [of _ i b] not_sym [OF of_nat_double_inj(2) [of i _ b]]
  by (auto intro!: nth_equalityI simp: put_cell_def nth_list_update simp del: of_nat_mult)

section \<open>Cells and scrolling\<close>

abbreviation with_phys :: "kstate \<Rightarrow> mem \<Rightarrow> kstate" where
  "with_phys s m \<equiv> s\<lparr>phys := m\<rparr>"

lemma window_with_phys [simp]: "window (with_phys s m) b = window s b"
  by (rule window_cong) simp_all

definition outside_window :: "u32 \<Rightarrow> mem \<Rightarrow> mem \<Rightarrow> bool" where
  "outside_window b m m' \<longleftrightarrow> (\<forall>a. 4000 \<le> unat (a - b) \<longrightarrow> m' a = m a)"

lemma outside_window_refl [simp]: "outside_window b m m"
  by (simp add: outside_window_def)

lemma outside_window_trans: "outside_window b m m' \<Longrightarrow> outside_window b m' m'' \<Longrightarrow> outside_window b m m''"
  by (simp add: outside_window_def)

lemma put_cell_outside: "i < 2000 \<Longrightarrow> outside_window b m (put_cell b i c a m)"
proof -
  assume i: "i < 2000"
  have "unat (b + of_nat (2 * i) - b :: u32) = 2 * i" "unat (b + of_nat (2 * i) + 1 - b :: u32) = 2 * i + 1"
  proof -
    have "b + of_nat (2 * i) + 1 - b = (of_nat (2 * i + 1) :: u32)" by simp
    then show "unat (b + of_nat (2 * i) + 1 - b :: u32) = 2 * i + 1"
      using i by (simp only: unat_of_nat) simp
    show "unat (b + of_nat (2 * i) - b :: u32) = 2 * i"
      using i by (simp only: add_diff_cancel_left' unat_of_nat) simp
  qed
  then show ?thesis using i by (auto simp: outside_window_def put_cell_def simp del: of_nat_mult)
qed

lemma double_offset: "push_bit 1 (of_nat i) = (of_nat (2 * i) :: u32)"
  by (simp add: push_bit_eq_mult)

lemma of_nat_less_4096: "k < 4096 \<Longrightarrow> (of_nat k :: u32) < 4096"
  by (simp add: word_less_nat_alt unat_of_nat)

text \<open>Storing a cell through the window.\<close>

lemma store_cell:
  assumes "window s b" "i < 2000"
  shows "do { s \<leftarrow> video_store (of_nat (2 * i)) c s; video_store (of_nat (2 * i) + 1) a s }
    = Some (with_phys s (put_cell b i c a (phys s)))"
proof -
  have "(of_nat (2 * i) :: u32) < 4096" "(of_nat (2 * i) + 1 :: u32) < 4096"
    using of_nat_less_4096 [of "2 * i"] of_nat_less_4096 [of "Suc (2 * i)"] assms(2)
    by (simp_all add: add.commute)
  then show ?thesis
    using assms(1) window_store [of s b "of_nat (2 * i)" c]
      window_store [of "with_phys s ((phys s)(b + of_nat (2 * i) := c))" b "of_nat (2 * i) + 1" a]
    by (simp add: put_cell_def add.assoc del: of_nat_mult)
qed

lemma scroll_cell_eq:
  assumes "window s b" "k < 1920"
  shows "scroll_cell k s = Some (with_phys s
    (put_cell b k (screen_chars b (phys s) ! (k + 80)) (screen_attrs b (phys s) ! (k + 80)) (phys s)))"
proof -
  have off: "of_nat (2 * k) + push_bit 1 NUM_COLS = (of_nat (2 * (k + 80)) :: u32)" by simp
  have lt: "(of_nat (2 * (k + 80)) :: u32) < 4096" "(of_nat (2 * (k + 80)) + 1 :: u32) < 4096"
    using of_nat_less_4096 [of "2 * (k + 80)"] of_nat_less_4096 [of "Suc (2 * (k + 80))"] assms(2)
    by (simp_all add: add.commute)
  have "video_load (of_nat (2 * (k + 80))) s = Some (screen_chars b (phys s) ! (k + 80))"
    "video_load (of_nat (2 * (k + 80)) + 1) s = Some (screen_attrs b (phys s) ! (k + 80))"
    using window_load [OF assms(1)] lt assms(2) by (simp_all add: add.assoc del: of_nat_mult)
  then show ?thesis
    unfolding scroll_cell_def Let_def off using store_cell [OF assms(1), of k] assms(2)
    by (simp del: of_nat_mult screen_nth)
qed

definition scrolled :: "u32 \<Rightarrow> mem \<Rightarrow> nat \<Rightarrow> mem" where
  "scrolled b m k = fold (\<lambda>i m. put_cell b i (screen_chars b m ! (i + 80)) (screen_attrs b m ! (i + 80)) m) [0..<k] m"

lemma scrolled_Suc:
  "scrolled b m (Suc k) = put_cell b k (screen_chars b (scrolled b m k) ! (k + 80))
     (screen_attrs b (scrolled b m k) ! (k + 80)) (scrolled b m k)"
  by (simp add: scrolled_def)

lemma scrolled_screen:
  "k \<le> 1920 \<Longrightarrow> screen_chars b (scrolled b m k) = map (\<lambda>i. screen_chars b m ! (if i < k then i + 80 else i)) [0..<2000] \<and>
    screen_attrs b (scrolled b m k) = map (\<lambda>i. screen_attrs b m ! (if i < k then i + 80 else i)) [0..<2000] \<and>
    outside_window b m (scrolled b m k)"
proof (induction k)
  case 0
  have "map (\<lambda>i. xs ! i) [0..<2000] = xs" if "length xs = 2000" for xs :: "u8 list"
    using that map_nth [of xs] by simp
  then show ?case by (simp add: scrolled_def)
next
  case (Suc k)
  then have IH: "screen_chars b (scrolled b m k) = map (\<lambda>i. screen_chars b m ! (if i < k then i + 80 else i)) [0..<2000]"
    "screen_attrs b (scrolled b m k) = map (\<lambda>i. screen_attrs b m ! (if i < k then i + 80 else i)) [0..<2000]"
    "outside_window b m (scrolled b m k)" by simp_all
  have k: "k < 2000" "k + 80 < 2000" using Suc.prems by simp_all
  have upd: "(map (\<lambda>i. xs ! (if i < k then i + 80 else i)) [0..<2000])[k := map (\<lambda>i. xs ! (if i < k then i + 80 else i)) [0..<2000] ! (k + 80)]
      = map (\<lambda>i. xs ! (if i < Suc k then i + 80 else i)) [0..<2000]" for xs :: "u8 list"
    using k by (auto intro!: nth_equalityI simp: nth_list_update less_Suc_eq)
  show ?case
    unfolding scrolled_Suc put_cell_screen [OF k(1)] unfolding IH upd
    using outside_window_trans [OF IH(3) put_cell_outside [OF k(1)]] by simp
qed

definition blanked :: "u32 \<Rightarrow> mem \<Rightarrow> nat \<Rightarrow> mem" where
  "blanked b m k = fold (\<lambda>j. put_cell b (1920 + j) 0 ATTRIB) [0..<k] m"

lemma blanked_screen:
  "k \<le> 80 \<Longrightarrow> screen_chars b (blanked b m k) = take 1920 (screen_chars b m) @ replicate k 0 @ drop (1920 + k) (screen_chars b m) \<and>
    screen_attrs b (blanked b m k) = take 1920 (screen_attrs b m) @ replicate k ATTRIB @ drop (1920 + k) (screen_attrs b m) \<and>
    outside_window b m (blanked b m k)"
proof (induction k)
  case 0
  then show ?case by (simp add: blanked_def)
next
  case (Suc k)
  let ?m = "blanked b m k"
  have k: "1920 + k < 2000" using Suc.prems by simp
  have step: "blanked b m (Suc k) = put_cell b (1920 + k) 0 ATTRIB ?m" by (simp add: blanked_def)
  have upd: "(take 1920 xs @ replicate k v @ drop (1920 + k) xs)[1920 + k := v]
      = take 1920 xs @ replicate (Suc k) v @ drop (1920 + Suc k) xs" if "length xs = 2000" for xs :: "u8 list" and v
  proof -
    have "drop (1920 + k) xs = xs ! (1920 + k) # drop (1920 + Suc k) xs"
      using that k Cons_nth_drop_Suc [of "1920 + k" xs] by simp
    then show ?thesis using that k by (simp add: list_update_append replicate_append_same flip: replicate_Suc)
  qed
  show ?case
    unfolding step put_cell_screen [OF k] using Suc k upd outside_window_trans [OF _ put_cell_outside [OF k]]
    by auto
qed

lemma scroll_last_cell_eq:
  assumes "window s b" "k < 80"
  shows "scroll_last_cell k s = Some (with_phys s (put_cell b (1920 + k) 0 ATTRIB (phys s)))"
proof -
  have "scroll_count + of_nat (2 * k) = (of_nat (2 * (1920 + k)) :: u32)" by (simp add: scroll_count_def)
  then show ?thesis
    using store_cell [OF assms(1), of "1920 + k" 0 ATTRIB] assms(2)
    unfolding scroll_last_cell_def Let_def by (simp del: of_nat_mult)
qed

text \<open>\<^verbatim>\<open>scroll\<close> moves every row up by one and blanks the last.\<close>

definition scroll_rows :: "u8 \<Rightarrow> u8 list \<Rightarrow> u8 list" where
  "scroll_rows v xs = drop 80 xs @ replicate 80 v"

lemma scroll_eq:
  assumes "window s b"
  shows "\<exists>m. scroll s = Some (s\<lparr>phys := m, screen_y := screen_y s - 1\<rparr>) \<and>
    screen_chars b m = scroll_rows 0 (screen_chars b (phys s)) \<and>
    screen_attrs b m = scroll_rows ATTRIB (screen_attrs b (phys s)) \<and> outside_window b (phys s) m"
proof -
  let ?m1 = "scrolled b (phys s) 1920" and ?s1 = "with_phys s (scrolled b (phys s) 1920)"
  have one: "for_opt scroll_cell [0..<1920] (with_phys s (scrolled b (phys s) 0)) = Some ?s1"
    using assms by (intro for_opt_steps) (simp add: scroll_cell_eq scrolled_Suc)
  have two: "for_opt scroll_last_cell [0..<80] (with_phys s (blanked b ?m1 0)) = Some (with_phys s (blanked b ?m1 80))"
    using assms by (intro for_opt_steps) (simp add: scroll_last_cell_eq blanked_def)
  have count: "unat scroll_count div 2 = 1920" "unat NUM_COLS = 80" by (simp_all add: scroll_count_def)
  have "scroll s = Some ((with_phys s (blanked b ?m1 80))\<lparr>screen_y := screen_y s - 1\<rparr>)"
    unfolding scroll_def count using one two by (simp add: scrolled_def blanked_def del: upt_rec_numeral)
  moreover have rows: "take 1920 (map (\<lambda>i. xs ! (if i < 1920 then i + 80 else i)) [0..<2000]) = drop 80 xs"
    if "length xs = 2000" for xs :: "u8 list"
    using that by (auto intro!: nth_equalityI simp: add.commute simp del: upt_rec_numeral)
  moreover have "drop 2000 (map (\<lambda>i. xs ! (if i < 1920 then i + 80 else i)) [0..<2000]) = []" for xs :: "u8 list"
    by simp
  ultimately show ?thesis
    using scrolled_screen [of 1920 b "phys s"] blanked_screen [of 80 b ?m1] outside_window_trans
    by (auto simp: scroll_rows_def simp del: upt_rec_numeral)
qed

section \<open>The abstract console\<close>

text \<open>The characters of the screen, the column and the row.\<close>

type_synonym console = "u8 list \<times> nat \<times> nat"

definition abs_newline :: "console \<Rightarrow> console" where
  "abs_newline = (\<lambda>(cs, x, y). if y = 24 then (scroll_rows 0 cs, 0, 24) else (cs, 0, Suc y))"

definition abs_putc :: "u8 \<Rightarrow> console \<Rightarrow> console" where
  "abs_putc c = (\<lambda>(cs, x, y).
     if c = 10 \<or> c = 13 then abs_newline (cs, x, y)
     else if x = 79 then abs_newline (cs[80 * y + x := c], x, y)
     else (cs[80 * y + x := c], Suc x, y))"

definition console_of :: "u32 \<Rightarrow> kstate \<Rightarrow> console" where
  "console_of b s = (screen_chars b (phys s), unat (screen_x s), unat (screen_y s))"

definition on_screen :: "kstate \<Rightarrow> bool" where
  "on_screen s \<longleftrightarrow> screen_x s < 80 \<and> screen_y s < 25"

text \<open>The process on the stack and the terminal shown exist, so the cursor update succeeds.\<close>

definition cursor_ok :: "kstate \<Rightarrow> bool" where
  "cursor_ok s \<longleftrightarrow> (\<exists>i. current s = Some i \<and> i < length (pcbs s)) \<and> unat (shown_term_id s) < length (terms s)"

text \<open>What printing leaves alone: everything but the window, the coordinates, the cursor ports and the
  cursors of the terminals (a coarse frame: \<open>puts_exact\<close> says what becomes of the ports and of the cursors).\<close>

definition console_base :: "kstate \<Rightarrow> kstate" where
  "console_base s = s\<lparr>phys := \<lambda>a. 0, screen_x := 0, screen_y := 0, ports := (ports s)\<lparr>hist := []\<rparr>,
     terms := map (\<lambda>u. u\<lparr>t_cursor_x := 0, t_cursor_y := 0\<rparr>) (terms s)\<rparr>"

definition console_frame :: "u32 \<Rightarrow> kstate \<Rightarrow> kstate \<Rightarrow> bool" where
  "console_frame b s s' \<longleftrightarrow> outside_window b (phys s) (phys s') \<and> console_base s' = console_base s \<and>
     (\<forall>t < length (terms s). t \<noteq> unat (shown_term_id s) \<longrightarrow> terms s' ! t = terms s ! t)"

lemma console_base_keeps:
  assumes "console_base s' = console_base s"
  shows "mmu s' = mmu s" "video_mem s' = video_mem s" "pcbs s' = pcbs s" "esp s' = esp s" "ebp s' = ebp s"
    "shown_term_id s' = shown_term_id s" "active_term_id s' = active_term_id s" "disk s' = disk s"
    "length (terms s') = length (terms s)" "iflag s' = iflag s" "pics s' = pics s"
    "keyboard_bitmap s' = keyboard_bitmap s" "dir_pos s' = dir_pos s"
    "exception_occurred s' = exception_occurred s" "tss_esp0 s' = tss_esp0 s"
  using arg_cong [OF assms, of mmu] arg_cong [OF assms, of video_mem] arg_cong [OF assms, of pcbs]
    arg_cong [OF assms, of esp] arg_cong [OF assms, of ebp] arg_cong [OF assms, of shown_term_id]
    arg_cong [OF assms, of active_term_id] arg_cong [OF assms, of disk]
    arg_cong [OF assms, of "\<lambda>s. length (terms s)"] arg_cong [OF assms, of iflag]
    arg_cong [OF assms, of pics] arg_cong [OF assms, of keyboard_bitmap] arg_cong [OF assms, of dir_pos]
    arg_cong [OF assms, of exception_occurred] arg_cong [OF assms, of tss_esp0]
  by (simp_all add: console_base_def)

lemma console_frame_keeps:
  assumes "console_frame b s s'"
  shows "window s' w = window s w" "cursor_ok s' = cursor_ok s" "outside_window b (phys s) (phys s')"
    and "console_base s' = console_base s"
  using assms console_base_keeps [of s' s]
  by (auto simp: console_frame_def cursor_ok_def current_def get_current_pcb_def intro!: window_cong)

lemma console_frame_refl [simp]: "console_frame b s s"
  by (simp add: console_frame_def)

lemma console_frame_trans:
  "console_frame b s s' \<Longrightarrow> console_frame b s' s'' \<Longrightarrow> console_frame b s s''"
  using outside_window_trans [of b "phys s" "phys s'" "phys s''"] console_base_keeps(6,9) [of s' s]
  by (auto simp: console_frame_def)

lemma console_frame_updates [simp]:
  "console_frame b s (s\<lparr>screen_x := x\<rparr>)" "console_frame b s (s\<lparr>screen_y := y\<rparr>)"
  "console_frame b s (s\<lparr>screen_x := x, screen_y := y\<rparr>)"
  "outside_window b (phys s) m \<Longrightarrow> console_frame b s (with_phys s m)"
  "console_frame b s (move_cursor x y s)"
  by (simp_all add: console_frame_def console_base_def move_cursor_def set_cursor_pos_def Let_def outb_def)

section \<open>What no console operation changes\<close>

text \<open>Wherever \<^verbatim>\<open>video_mem\<close> points and wherever the cursor is, an operation that returns has changed no part of the
  state but the memory, the coordinates, the cursor ports and the cursors of the terminals.\<close>

definition console_same :: "kstate \<Rightarrow> kstate \<Rightarrow> bool" where
  "console_same s s' \<longleftrightarrow> console_base s' = console_base s"

lemma console_same_refl [simp, intro]: "console_same s s"
  by (simp add: console_same_def)

lemma console_same_trans: "console_same s s' \<Longrightarrow> console_same s' s'' \<Longrightarrow> console_same s s''"
  by (simp add: console_same_def)

lemma console_same_updates [simp]:
  "console_same s (s\<lparr>screen_x := x\<rparr>)" "console_same s (s\<lparr>screen_y := y\<rparr>)"
  "console_same s (s\<lparr>screen_x := x, screen_y := y\<rparr>)" "console_same s (s\<lparr>screen_y := y, screen_x := x\<rparr>)"
  "console_same s (s\<lparr>phys := m\<rparr>)" "console_same s (move_cursor x y s)"
  by (simp_all add: console_same_def console_base_def move_cursor_def set_cursor_pos_def Let_def outb_def)

text \<open>Before the cursor update, an operation changes the memory and the coordinates alone.\<close>

definition screen_same :: "kstate \<Rightarrow> kstate \<Rightarrow> bool" where
  "screen_same s s' \<longleftrightarrow> s' = s\<lparr>phys := phys s', screen_x := screen_x s', screen_y := screen_y s'\<rparr>"

lemma screen_same_refl [simp, intro]: "screen_same s s"
  by (simp add: screen_same_def)

lemma screen_same_trans: "screen_same s s' \<Longrightarrow> screen_same s' s'' \<Longrightarrow> screen_same s s''"
  unfolding screen_same_def by (cases s, cases s', cases s'') simp

lemma screen_same_updates [simp]:
  "screen_same s (s\<lparr>screen_x := x\<rparr>)" "screen_same s (s\<lparr>screen_y := y\<rparr>)"
  "screen_same s (s\<lparr>screen_x := x, screen_y := y\<rparr>)" "screen_same s (s\<lparr>screen_y := y, screen_x := x\<rparr>)"
  "screen_same s (s\<lparr>phys := m\<rparr>)"
  by (simp_all add: screen_same_def)

lemma screen_same_console: "screen_same s s' \<Longrightarrow> console_same s s'"
  unfolding screen_same_def console_same_def console_base_def by (cases s, cases s') simp

lemma video_store_screen: "video_store off v s = Some s' \<Longrightarrow> screen_same s s'"
  by (auto simp: video_store_def vstore_def bind_eq_Some_conv)

lemma for_opt_screen:
  assumes "\<And>x s s'. f x s = Some s' \<Longrightarrow> screen_same s s'"
  shows "for_opt f xs s = Some s' \<Longrightarrow> screen_same s s'"
  using for_opt_invariant [of xs "screen_same s" f s s'] assms screen_same_trans by blast

lemma two_stores_screen:
  assumes "do { s \<leftarrow> video_store off c s; video_store off' a s } = Some s'"
  shows "screen_same s s'"
  using assms by (auto simp: bind_eq_Some_conv dest!: video_store_screen intro: screen_same_trans)

lemma scroll_screen: "scroll s = Some s' \<Longrightarrow> screen_same s s'"
proof -
  assume "scroll s = Some s'"
  then obtain s1 s2 where s: "for_opt scroll_cell [0..<unat scroll_count div 2] s = Some s1"
    "for_opt scroll_last_cell [0..<unat NUM_COLS] s1 = Some s2" "s' = s2\<lparr>screen_y := screen_y s2 - 1\<rparr>"
    by (auto simp: scroll_def bind_eq_Some_conv)
  have "screen_same s s1" using s(1)
    by (rule for_opt_screen [rotated]) (auto simp: scroll_cell_def Let_def bind_eq_Some_conv
      dest!: video_store_screen intro: screen_same_trans)
  moreover have "screen_same s1 s2" using s(2)
    by (rule for_opt_screen [rotated]) (auto simp: scroll_last_cell_def Let_def intro: two_stores_screen)
  moreover have "screen_same s2 s'" using s(3) by simp
  ultimately show ?thesis using screen_same_trans by blast
qed

lemma new_line_screen: "new_line s = Some s' \<Longrightarrow> screen_same s s'"
  by (auto simp: new_line_def Let_def split: if_splits dest!: scroll_screen elim!: screen_same_trans [rotated])

lemma putc_erase_screen: "putc_erase n offset s = Some (go, s') \<Longrightarrow> screen_same s s'"
proof (induction n offset s rule: putc_erase.induct)
  case (2 n offset s)
  let ?s1 = "if screen_x s \<noteq> 0 then s\<lparr>screen_x := screen_x s - 1\<rparr>
    else s\<lparr>screen_x := NUM_COLS - 1, screen_y := screen_y s - 1\<rparr>"
  show ?case
  proof (cases "screen_x s = 0 \<and> screen_y s = 0")
    case False
    then obtain s2 s3 where s: "video_store (push_bit 1 offset) 0 ?s1 = Some s2"
      "video_store (push_bit 1 offset + 1) ATTRIB s2 = Some s3" and
      rest: "screen_same s3 s'"
      using 2 by (auto simp: bind_eq_Some_conv Let_def simp del: One_nat_def split: if_splits)
    have "screen_same s ?s1" by simp
    moreover have "screen_same ?s1 s2" "screen_same s2 s3" using s by (simp_all only: video_store_screen)
    ultimately show ?thesis using rest screen_same_trans by blast
  qed (use 2(2) in auto)
qed simp

lemma putc_spaces_screen: "putc_spaces n offset s = Some s' \<Longrightarrow> screen_same s s'"
proof (induction n offset s rule: putc_spaces.induct)
  case (2 n offset s)
  then obtain s1 s2 where s: "video_store (push_bit 1 offset) 32 s = Some s1"
    "video_store (push_bit 1 offset + 1) TAB s1 = Some s2"
    and rest: "screen_same (s2\<lparr>screen_x := screen_x s2 + 1\<rparr>) s'"
    by (auto simp: bind_eq_Some_conv simp del: One_nat_def)
  have "screen_same s s1" "screen_same s1 s2" using s by (simp_all only: video_store_screen)
  moreover have "screen_same s2 (s2\<lparr>screen_x := screen_x s2 + 1\<rparr>)" by simp
  ultimately show ?case using rest screen_same_trans by blast
qed simp

lemma putc_char_screen: "putc_char c s = Some s' \<Longrightarrow> screen_same s s'"
proof -
  let ?o = "push_bit 1 (NUM_COLS * screen_y s + screen_x s)"
  assume "putc_char c s = Some s'"
  then obtain s2 where s: "do { s \<leftarrow> video_store ?o c s; video_store (?o + 1) ATTRIB s } = Some s2"
    "s' = s2\<lparr>screen_x := screen_x s2 + 1\<rparr> \<or> new_line (s2\<lparr>screen_x := screen_x s2 + 1\<rparr>) = Some s'"
    by (auto simp: putc_char_def Let_def bind_eq_Some_conv split: if_splits)
  have "screen_same s s2" using s(1) by (rule two_stores_screen)
  moreover have "screen_same s2 (s2\<lparr>screen_x := screen_x s2 + 1\<rparr>)" by simp
  ultimately show ?thesis using s(2) new_line_screen screen_same_trans by blast
qed

lemma putc_backspace_screen: "putc_backspace s = Some (go, s') \<Longrightarrow> screen_same s s'"
  unfolding putc_backspace_def Let_def bind_eq_Some_conv by (blast intro: putc_erase_screen)

lemma set_term_cursor_same: "set_term_cursor t x y s = Some s' \<Longrightarrow> console_same s s'"
proof -
  assume "set_term_cursor t x y s = Some s'"
  then have s: "unat t < length (terms s)"
    "s' = s\<lparr>terms := (terms s)[unat t := (terms s ! unat t)\<lparr>t_cursor_x := x, t_cursor_y := y\<rparr>]\<rparr>"
    by (auto simp: set_term_cursor_def map_term_def get_term_def bind_eq_Some_conv)
  then have "map (\<lambda>u. u\<lparr>t_cursor_x := 0, t_cursor_y := 0\<rparr>) (terms s') = map (\<lambda>u. u\<lparr>t_cursor_x := 0, t_cursor_y := 0\<rparr>) (terms s)"
    by (auto intro!: nth_equalityI simp: nth_list_update)
  then show ?thesis using s(2) by (simp add: console_same_def console_base_def)
qed

lemma for_opt_same:
  assumes "\<And>x s s'. f x s = Some s' \<Longrightarrow> console_same s s'"
  shows "for_opt f xs s = Some s' \<Longrightarrow> console_same s s'"
  using for_opt_invariant [of xs "console_same s" f s s'] assms console_same_trans by blast

lemma putc_cursor_same: "putc_cursor s = Some s' \<Longrightarrow> console_same s s'"
  by (auto simp: putc_cursor_def bind_eq_Some_conv split: if_splits
      dest!: set_term_cursor_same elim!: console_same_trans)

lemma putc_same: "putc c s = Some s' \<Longrightarrow> console_same s s'"
  by (auto simp: putc_def putc_tab_def Let_def bind_eq_Some_conv split: if_splits
      dest!: new_line_screen putc_backspace_screen putc_spaces_screen putc_char_screen screen_same_console
        putc_cursor_same
      intro: console_same_trans)

lemma clear_same: "clear s = Some s' \<Longrightarrow> console_same s s'"
proof -
  assume "clear s = Some s'"
  then obtain s1 s2 where s: "for_opt clear_cell [0..<unat (NUM_ROWS * NUM_COLS)] s = Some s1"
    "set_term_cursor (shown_term_id s1) 0 0 s1 = Some s2"
    "s' = s2 \<or> s' = s2\<lparr>screen_x := 0, screen_y := 0\<rparr>"
    by (auto simp: clear_def bind_eq_Some_conv split: if_splits)
  have "screen_same s s1" using s(1)
    by (rule for_opt_screen [rotated]) (auto simp: clear_cell_def intro: two_stores_screen)
  then have "console_same s s1" by (rule screen_same_console)
  moreover have "console_same s1 s2" using s(2) by (rule set_term_cursor_same)
  moreover have "console_same s2 s'" using s(3) by auto
  ultimately show ?thesis using console_same_trans by blast
qed

section \<open>Printing refines the abstract console\<close>

lemma putc_cursor_eq:
  assumes "cursor_ok s"
  shows "\<exists>s'. putc_cursor s = Some s' \<and> console_frame b s s' \<and> phys s' = phys s \<and>
    screen_x s' = screen_x s \<and> screen_y s' = screen_y s"
proof -
  from assms obtain i where i: "current s = Some i" "i < length (pcbs s)"
    and t: "unat (shown_term_id s) < length (terms s)"
    by (auto simp: cursor_ok_def)
  let ?u = "terms s ! unat (shown_term_id s)"
  let ?s1 = "s\<lparr>terms := (terms s)[unat (shown_term_id s) := ?u\<lparr>t_cursor_x := screen_x s, t_cursor_y := screen_y s\<rparr>]\<rparr>"
  have set: "set_term_cursor (shown_term_id s) (screen_x s) (screen_y s) s = Some ?s1"
    using t by (simp add: set_term_cursor_def map_term_def get_term_def nth_opt_Some)
  have "map (\<lambda>u. u\<lparr>t_cursor_x := 0, t_cursor_y := 0\<rparr>) (terms ?s1) = map (\<lambda>u. u\<lparr>t_cursor_x := 0, t_cursor_y := 0\<rparr>) (terms s)"
    using t by (auto intro!: nth_equalityI simp: nth_list_update)
  then have "console_frame b s ?s1"
    by (simp add: console_frame_def console_base_def)
  then have f: "console_frame b s (move_cursor (screen_x s) (screen_y s) ?s1)"
    using console_frame_trans console_frame_updates(5) by blast
  show ?thesis
    using i t set f
    by (auto simp: putc_cursor_def get_pcb_def get_term_def nth_opt_Some move_cursor_def)
qed

lemma small_coordinate: "(w :: i32) < 80 \<longleftrightarrow> unat w < 80" "(w :: i32) < 25 \<longleftrightarrow> unat w < 25"
  by (simp_all add: word_less_nat_alt)

lemma unat_inc: "unat (w :: i32) < 100 \<Longrightarrow> unat (w + 1) = Suc (unat w)"
  by (simp add: unat_word_ariths)

lemma new_line_eq:
  assumes "window s b" "screen_y s < 25"
  shows "\<exists>s'. new_line s = Some s' \<and> console_frame b s s' \<and> on_screen s' \<and>
    console_of b s' = abs_newline (screen_chars b (phys s), x, unat (screen_y s))"
proof -
  let ?s1 = "s\<lparr>screen_y := screen_y s + 1, screen_x := 0\<rparr>"
  have y: "unat (screen_y s) < 25" using assms(2) by (simp add: word_less_nat_alt)
  have y1: "unat (screen_y s + 1) = Suc (unat (screen_y s))" using y by (intro unat_inc) simp
  have w1: "window ?s1 b" using assms(1) window_cong [of ?s1 s b] by simp
  have f1: "console_frame b s ?s1"
    by (simp add: console_frame_def console_base_def)
  show ?thesis
  proof (cases "unat (screen_y s) = 24")
    case True
    then have "screen_y s + 1 = 25" using y1 by (intro unsigned_word_eqI) simp
    moreover obtain m where m: "scroll ?s1 = Some (?s1\<lparr>phys := m, screen_y := screen_y ?s1 - 1\<rparr>)"
      "screen_chars b m = scroll_rows 0 (screen_chars b (phys s))" "outside_window b (phys s) m"
      using scroll_eq [OF w1] by auto
    moreover have "screen_y s = 24" using True by (intro unsigned_word_eqI) simp
    ultimately show ?thesis
      by (simp add: new_line_def abs_newline_def console_of_def on_screen_def console_frame_def console_base_def)
  next
    case False
    then have "screen_y s + 1 \<noteq> 25" using y1 by auto
    then show ?thesis
      using f1 y y1 False
      by (simp add: new_line_def abs_newline_def console_of_def on_screen_def word_less_nat_alt)
  qed
qed

lemma cell_offset:
  assumes "on_screen s"
  shows "push_bit 1 (NUM_COLS * screen_y s + screen_x s) = of_nat (2 * (80 * unat (screen_y s) + unat (screen_x s)))"
    and "80 * unat (screen_y s) + unat (screen_x s) < 2000"
proof -
  have "(of_nat (80 * unat (screen_y s) + unat (screen_x s)) :: u32) = NUM_COLS * screen_y s + screen_x s" by simp
  then show "push_bit 1 (NUM_COLS * screen_y s + screen_x s) = of_nat (2 * (80 * unat (screen_y s) + unat (screen_x s)))"
    by (metis double_offset)
  show "80 * unat (screen_y s) + unat (screen_x s) < 2000"
    using assms by (simp add: on_screen_def small_coordinate)
qed

lemma putc_char_eq:
  assumes "window s b" "on_screen s" "c \<noteq> 10" "c \<noteq> 13"
  shows "\<exists>s'. putc_char c s = Some s' \<and> console_frame b s s' \<and> on_screen s' \<and>
    console_of b s' = abs_putc c (console_of b s)"
proof -
  let ?i = "80 * unat (screen_y s) + unat (screen_x s)"
  let ?m = "put_cell b ?i c ATTRIB (phys s)"
  let ?s1 = "(with_phys s ?m)\<lparr>screen_x := screen_x s + 1\<rparr>"
  note off = cell_offset [OF assms(2)]
  have xy: "unat (screen_x s) < 80" "screen_y s < 25" using assms(2) by (simp_all add: on_screen_def small_coordinate)
  have x1: "unat (screen_x s + 1) = Suc (unat (screen_x s))" using xy(1) by (intro unat_inc) simp
  have f1: "console_frame b s ?s1"
    using put_cell_outside [OF off(2)] by (simp add: console_frame_def console_base_def)
  have chars: "screen_chars b (phys ?s1) = (screen_chars b (phys s))[?i := c]"
    using put_cell_screen(1) [OF off(2)] by simp
  obtain y where "video_store (of_nat (2 * ?i)) c s = Some y"
    "video_store (of_nat (2 * ?i) + 1) ATTRIB y = Some (with_phys s ?m)"
    using store_cell [OF assms(1) off(2), of c ATTRIB] by (auto simp only: bind_eq_Some_conv)
  then have step: "putc_char c s = (if screen_x s + 1 = NUM_COLS then new_line ?s1 else Some ?s1)"
    unfolding putc_char_def Let_def off(1) by (simp del: of_nat_mult of_nat_add)
  show ?thesis
  proof (cases "unat (screen_x s) = 79")
    case True
    then have "screen_x s + 1 = NUM_COLS" using x1 by (intro unsigned_word_eqI) simp
    moreover have "window ?s1 b" using assms(1) window_cong [of ?s1 s b] by simp
    ultimately show ?thesis
      using new_line_eq [of ?s1 b 79] xy(2) True assms(3,4) chars step console_frame_trans [OF f1]
      by (auto simp: abs_putc_def console_of_def)
  next
    case False
    then have "screen_x s + 1 \<noteq> NUM_COLS" using x1 by auto
    then show ?thesis
      using f1 False assms(3,4) chars step x1 xy
      by (simp add: abs_putc_def console_of_def on_screen_def word_less_nat_alt)
  qed
qed

lemma putc_eq:
  assumes "window s b" "on_screen s" "cursor_ok s" "c \<noteq> 8" "c \<noteq> 9"
  shows "\<exists>s'. putc c s = Some s' \<and> console_frame b s s' \<and> on_screen s' \<and>
    console_of b s' = abs_putc c (console_of b s)"
proof -
  obtain s1 where s1: "(if c = 10 \<or> c = 13 then new_line s else putc_char c s) = Some s1"
    "console_frame b s s1" "on_screen s1" "console_of b s1 = abs_putc c (console_of b s)"
    using new_line_eq [OF assms(1), of "unat (screen_x s)"] putc_char_eq [OF assms(1,2), of c] assms(2)
    by (cases "c = 10 \<or> c = 13") (auto simp: abs_putc_def console_of_def on_screen_def)
  have "cursor_ok s1" using console_frame_keeps(2) [OF s1(2)] assms(3) by simp
  from putc_cursor_eq [OF this] obtain s' where s': "putc_cursor s1 = Some s'" "console_frame b s1 s'"
    "phys s' = phys s1" "screen_x s' = screen_x s1" "screen_y s' = screen_y s1" by blast
  then have "putc c s = Some s'" using s1(1) assms(4,5) by (auto simp: putc_def split: if_splits)
  then show ?thesis
    using s' s1 console_frame_trans by (auto simp: console_of_def on_screen_def)
qed

text \<open>Printing a string.\<close>

lemma puts_eq:
  assumes "8 \<notin> set str" "9 \<notin> set str"
  shows "window s b \<Longrightarrow> on_screen s \<Longrightarrow> cursor_ok s \<Longrightarrow>
    \<exists>s'. for_opt putc str s = Some s' \<and> console_frame b s s' \<and> on_screen s' \<and>
      console_of b s' = fold abs_putc str (console_of b s)"
  using assms
proof (induction str arbitrary: s)
  case Nil
  then show ?case by simp
next
  case (Cons c str)
  then obtain s1 where s1: "putc c s = Some s1" "console_frame b s s1" "on_screen s1"
    "console_of b s1 = abs_putc c (console_of b s)"
    using putc_eq [of s b c] by auto
  have "window s1 b" "cursor_ok s1" using console_frame_keeps(1,2) [OF s1(2)] Cons.prems by simp_all
  from Cons.IH [OF this(1) s1(3) this(2)] Cons.prems s1 show ?case
    by (auto intro: console_frame_trans)
qed

text \<open>The cursor follows the coordinates when the process on the stack is that of the terminal shown: the cursor fields
  of that terminal and the hardware cursor are set after every character.\<close>

definition follows_shown :: "kstate \<Rightarrow> bool" where
  "follows_shown s \<longleftrightarrow> (case do { i \<leftarrow> current s; p \<leftarrow> get_pcb i s; u \<leftarrow> get_term (shown_term_id s) s; Some (p_pid p = t_pid u) }
     of Some b \<Rightarrow> b | None \<Rightarrow> False)"

definition shown_cursor :: "i32 \<Rightarrow> i32 \<Rightarrow> kstate \<Rightarrow> terminal_t list" where
  "shown_cursor x y s =
     (let t = unat (shown_term_id s) in (terms s)[t := (terms s ! t)\<lparr>t_cursor_x := x, t_cursor_y := y\<rparr>])"

text \<open>The coordinates after each character of a string, and the hardware cursor sent to each of them.\<close>

primrec cursor_trail :: "u8 list \<Rightarrow> console \<Rightarrow> (nat \<times> nat) list" where
  "cursor_trail [] v = []"
| "cursor_trail (c # cs) v = snd (abs_putc c v) # cursor_trail cs (abs_putc c v)"

definition cursor_moves :: "(nat \<times> nat) list \<Rightarrow> io \<Rightarrow> io" where
  "cursor_moves = fold (\<lambda>(x, y). set_cursor_pos (of_nat x) (of_nat y))"

lemma cursor_moves_simps [simp]:
  "cursor_moves [] io = io" "cursor_moves ((x, y) # ps) io = cursor_moves ps (set_cursor_pos (of_nat x) (of_nat y) io)"
  by (simp_all add: cursor_moves_def)

text \<open>The state after printing \<open>str\<close>, when the memory and the coordinates are then those of \<open>s'\<close>.\<close>

definition printed_state :: "u32 \<Rightarrow> u8 list \<Rightarrow> kstate \<Rightarrow> kstate \<Rightarrow> kstate" where
  "printed_state b str s s' = s\<lparr>phys := phys s', screen_x := screen_x s', screen_y := screen_y s',
     terms := (if follows_shown s \<and> str \<noteq> [] then shown_cursor (screen_x s') (screen_y s') s else terms s),
     ports := (if follows_shown s then cursor_moves (cursor_trail str (console_of b s)) (ports s) else ports s)\<rparr>"

lemma putc_cursor_exact:
  assumes "cursor_ok s" "putc_cursor s = Some s'"
  shows "s' = (if follows_shown s then s\<lparr>terms := shown_cursor (screen_x s) (screen_y s) s,
      ports := set_cursor_pos (screen_x s) (screen_y s) (ports s)\<rparr> else s)"
  using assms
  by (auto simp: putc_cursor_def follows_shown_def cursor_ok_def set_term_cursor_def map_term_def shown_cursor_def
      move_cursor_def get_pcb_def get_term_def nth_opt_Some bind_eq_Some_conv Let_def split: if_splits)

lemma screen_same_follows:
  assumes "screen_same s s'"
  shows "follows_shown s' = follows_shown s" "shown_cursor x y s' = shown_cursor x y s" "ports s' = ports s" "terms s' = terms s"
proof -
  obtain m x' y' where s': "s' = s\<lparr>phys := m, screen_x := x', screen_y := y'\<rparr>" using assms unfolding screen_same_def by blast
  show "follows_shown s' = follows_shown s" "shown_cursor x y s' = shown_cursor x y s" "ports s' = ports s" "terms s' = terms s"
    unfolding s' by (simp_all add: follows_shown_def shown_cursor_def current_def get_current_pcb_def get_pcb_def get_term_def)
qed

lemma printed_state_eqI:
  assumes "s' = s\<lparr>phys := m, screen_x := x, screen_y := y, terms := ts, ports := io\<rparr>"
    and "ts = (if follows_shown s \<and> str \<noteq> [] then shown_cursor x y s else terms s)"
    and "io = (if follows_shown s then cursor_moves (cursor_trail str (console_of b s)) (ports s) else ports s)"
  shows "s' = printed_state b str s s'"
proof -
  have "phys s' = m" "screen_x s' = x" "screen_y s' = y" using assms(1) by simp_all
  then show ?thesis using assms(1) unfolding printed_state_def assms(2,3) by (simp only:)
qed

lemma printed_stateE:
  assumes "s' = printed_state b str s s'"
  obtains m x y where "s' = s\<lparr>phys := m, screen_x := x, screen_y := y,
    terms := (if follows_shown s \<and> str \<noteq> [] then shown_cursor x y s else terms s),
    ports := (if follows_shown s then cursor_moves (cursor_trail str (console_of b s)) (ports s) else ports s)\<rparr>"
  using assms unfolding printed_state_def by blast

lemma putc_exact:
  assumes "cursor_ok s" "putc c s = Some s'" "c \<noteq> 8" "c \<noteq> 9" "console_of b s' = abs_putc c (console_of b s)"
  shows "s' = printed_state b [c] s s'"
proof -
  obtain s1 where s1: "screen_same s s1" "putc_cursor s1 = Some s'"
    using assms(2-4) by (auto simp: putc_def bind_eq_Some_conv split: if_splits dest: new_line_screen putc_char_screen)
  have "cursor_ok s1" using assms(1) console_base_keeps [of s1 s] screen_same_console [OF s1(1)]
    by (simp add: console_same_def cursor_ok_def current_def get_current_pcb_def)
  note s' = putc_cursor_exact [OF this s1(2), unfolded screen_same_follows [OF s1(1)]]
  obtain m x y where e: "s1 = s\<lparr>phys := m, screen_x := x, screen_y := y\<rparr>" using s1(1) unfolding screen_same_def by blast
  have s'': "s' = s\<lparr>phys := m, screen_x := x, screen_y := y,
      terms := (if follows_shown s then shown_cursor x y s else terms s),
      ports := (if follows_shown s then set_cursor_pos x y (ports s) else ports s)\<rparr>"
    unfolding s' e by simp
  then have "console_of b s' = (screen_chars b m, unat x, unat y)" by (simp add: console_of_def)
  then have xy: "snd (abs_putc c (console_of b s)) = (unat x, unat y)" using assms(5) by simp
  show ?thesis by (rule printed_state_eqI [OF s'']) (simp_all add: xy)
qed

lemma printed_state_step:
  assumes "s1 = printed_state b [c] s s1" "s' = printed_state b str s1 s'" "console_of b s1 = abs_putc c (console_of b s)"
    and "cursor_ok s" and nil: "str = [] \<Longrightarrow> s' = s1"
  shows "s' = printed_state b (c # str) s s'"
proof (cases "str = []")
  case True
  then show ?thesis using nil assms(1) by simp
next
  case False
  have t: "unat (shown_term_id s) < length (terms s)" using assms(4) by (simp add: cursor_ok_def)
  obtain m x y where s1: "s1 = s\<lparr>phys := m, screen_x := x, screen_y := y,
    terms := (if follows_shown s then shown_cursor x y s else terms s),
    ports := (if follows_shown s then cursor_moves (cursor_trail [c] (console_of b s)) (ports s) else ports s)\<rparr>"
    by (rule printed_stateE [OF assms(1)]) (rule that, simp)
  have f: "follows_shown s1 = follows_shown s"
  proof -
    have "current s1 = current s" "pcbs s1 = pcbs s" "shown_term_id s1 = shown_term_id s"
      unfolding s1 by (simp_all add: current_def get_current_pcb_def)
    moreover have "map_option t_pid (get_term (shown_term_id s) s1) = map_option t_pid (get_term (shown_term_id s) s)"
      using t unfolding s1 by (simp add: get_term_def shown_cursor_def nth_opt_Some Let_def)
    ultimately show ?thesis unfolding follows_shown_def get_pcb_def
      by (cases "get_term (shown_term_id s) s"; cases "get_term (shown_term_id s) s1")
        (auto split: option.splits bind_splits)
  qed
  have sc: "shown_cursor x' y' s1 = shown_cursor x' y' s" if "follows_shown s" for x' y'
    using t unfolding s1 by (simp add: shown_cursor_def Let_def)
  obtain m' x' y' where s': "s' = s1\<lparr>phys := m', screen_x := x', screen_y := y',
    terms := (if follows_shown s1 \<and> str \<noteq> [] then shown_cursor x' y' s1 else terms s1),
    ports := (if follows_shown s1 then cursor_moves (cursor_trail str (console_of b s1)) (ports s1) else ports s1)\<rparr>"
    by (rule printed_stateE [OF assms(2)]) (rule that, simp)
  have io: "ports s1 = (if follows_shown s then cursor_moves (cursor_trail [c] (console_of b s)) (ports s) else ports s)"
    "terms s1 = (if follows_shown s then shown_cursor x y s else terms s)"
    unfolding s1 by simp_all
  show ?thesis
  proof (rule printed_state_eqI)
    show "s' = s\<lparr>phys := m', screen_x := x', screen_y := y', 
      terms := (if follows_shown s1 \<and> str \<noteq> [] then shown_cursor x' y' s1 else terms s1),
      ports := (if follows_shown s1 then cursor_moves (cursor_trail str (console_of b s1)) (ports s1) else ports s1)\<rparr>"
      unfolding s' by (simp add: s1)
    show "(if follows_shown s1 \<and> str \<noteq> [] then shown_cursor x' y' s1 else terms s1) =
      (if follows_shown s \<and> c # str \<noteq> [] then shown_cursor x' y' s else terms s)"
      unfolding f io using False by (simp add: sc)
    show "(if follows_shown s1 then cursor_moves (cursor_trail str (console_of b s1)) (ports s1) else ports s1) =
      (if follows_shown s then cursor_moves (cursor_trail (c # str) (console_of b s)) (ports s) else ports s)"
      unfolding f io assms(3) by (simp add: cursor_moves_def)
  qed
qed

lemma puts_exact:
  assumes "8 \<notin> set str" "9 \<notin> set str"
  shows "window s b \<Longrightarrow> on_screen s \<Longrightarrow> cursor_ok s \<Longrightarrow> for_opt putc str s = Some s' \<Longrightarrow> s' = printed_state b str s s'"
  using assms
proof (induction str arbitrary: s)
  case Nil
  then show ?case by (simp add: printed_state_def)
next
  case (Cons c str)
  then obtain s1 where s1: "putc c s = Some s1" "console_frame b s s1" "on_screen s1"
    "console_of b s1 = abs_putc c (console_of b s)" and rest: "for_opt putc str s1 = Some s'"
    using putc_eq [of s b c] by auto
  have w: "window s1 b" "cursor_ok s1" using console_frame_keeps(1,2) [OF s1(2)] Cons.prems by simp_all
  have one: "s1 = printed_state b [c] s s1" using putc_exact [OF Cons.prems(3) s1(1) _ _ s1(4)] Cons.prems(5,6) by simp
  have "s' = printed_state b str s1 s'" using Cons.IH [OF w(1) s1(3) w(2) rest] Cons.prems(5,6) by simp
  moreover have "str = [] \<Longrightarrow> s' = s1" using rest by simp
  ultimately show ?case using printed_state_step [OF one _ s1(4) Cons.prems(3)] by blast
qed

section \<open>Backspace and tab\<close>

lemma putc_char_inside:
  assumes "window s b" "on_screen s" "screen_x s \<noteq> 79"
  shows "putc_char c s = Some ((with_phys s (put_cell b (80 * unat (screen_y s) + unat (screen_x s)) c ATTRIB (phys s)))
    \<lparr>screen_x := screen_x s + 1\<rparr>)"
proof -
  let ?i = "80 * unat (screen_y s) + unat (screen_x s)"
  note off = cell_offset [OF assms(2)]
  obtain y where "video_store (of_nat (2 * ?i)) c s = Some y"
    "video_store (of_nat (2 * ?i) + 1) ATTRIB y = Some (with_phys s (put_cell b ?i c ATTRIB (phys s)))"
    using store_cell [OF assms(1) off(2), of c ATTRIB] by (auto simp only: bind_eq_Some_conv)
  moreover have "screen_x s + 1 \<noteq> NUM_COLS" using assms(3) by (auto simp: eq_diff_eq [symmetric])
  ultimately show ?thesis unfolding putc_char_def Let_def off(1) by (simp del: of_nat_mult of_nat_add)
qed

lemma putc_backspace_eq:
  assumes w: "window s b" and i: "i < 2000" "NUM_COLS * screen_y s + screen_x s - 1 = of_nat i"
    and x: "screen_x s \<noteq> 0" and a: "screen_attrs b (phys s) ! i \<noteq> TAB"
  shows "putc_backspace s = Some (True, s\<lparr>phys := put_cell b i 0 ATTRIB (phys s), screen_x := screen_x s - 1\<rparr>)"
proof -
  have lt: "(of_nat (2 * i) + 1 :: u32) < 4096"
    using of_nat_less_4096 [of "Suc (2 * i)"] i(1) by (simp add: add.commute)
  let ?s1 = "s\<lparr>screen_x := screen_x s - 1\<rparr>"
  have w1: "window ?s1 b" using w window_cong [of ?s1 s b] by simp
  obtain y where y: "video_store (of_nat (2 * i)) 0 ?s1 = Some y"
    "video_store (of_nat (2 * i) + 1) ATTRIB y = Some (with_phys ?s1 (put_cell b i 0 ATTRIB (phys ?s1)))"
    using store_cell [OF w1 i(1), of 0 ATTRIB] by (auto simp only: bind_eq_Some_conv)
  have "video_load (of_nat (2 * i) + 1) s = Some (screen_attrs b (phys s) ! i)"
    using window_load [OF w lt] i(1) by (simp add: add.assoc)
  then have "putc_backspace s = putc_erase 1 (of_nat i) s"
    using a unfolding putc_backspace_def Let_def i(2) double_offset by (simp del: of_nat_mult screen_nth)
  also have "\<dots> = Some (True, with_phys ?s1 (put_cell b i 0 ATTRIB (phys s)))"
    using x y by (simp add: double_offset [unfolded One_nat_def] del: push_bit_Suc of_nat_mult)
  finally show ?thesis by simp
qed

text \<open>The spaces of a tab.\<close>

lemma unat_plus_of_nat: "unat w + n < 2 ^ 32 \<Longrightarrow> unat (w + of_nat n :: u32) = unat w + n"
  by (simp add: unat_word_ariths unat_of_nat)

lemma putc_spaces_eq:
  "window s b \<Longrightarrow> j + n \<le> 2000 \<Longrightarrow>
   \<exists>s'. putc_spaces n (of_nat j) s = Some s' \<and> console_frame b s s' \<and>
     screen_x s' = screen_x s + of_nat n \<and> screen_y s' = screen_y s"
proof (induction n arbitrary: j s)
  case 0
  then show ?case by simp
next
  case (Suc n)
  have j: "j < 2000" using Suc.prems(2) by simp
  let ?s1 = "(with_phys s (put_cell b j 32 TAB (phys s)))\<lparr>screen_x := screen_x s + 1\<rparr>"
  obtain y where y: "video_store (of_nat (2 * j)) 32 s = Some y"
    "video_store (of_nat (2 * j) + 1) TAB y = Some (with_phys s (put_cell b j 32 TAB (phys s)))"
    using store_cell [OF Suc.prems(1) j, of 32 TAB] by (auto simp only: bind_eq_Some_conv)
  have f: "console_frame b s ?s1" using put_cell_outside [OF j]
    by (simp add: console_frame_def console_base_def)
  have w: "window ?s1 b" using console_frame_keeps(1) [OF f] Suc.prems(1) by blast
  have "(of_nat j + 1 :: u32) = of_nat (Suc j)" by simp
  then have step: "putc_spaces (Suc n) (of_nat j) s = putc_spaces n (of_nat (Suc j)) ?s1"
    using y by (simp only: putc_spaces.simps double_offset bind.bind_lunit kstate.simps) simp
  from Suc.IH [OF w, of "Suc j"] Suc.prems(2) obtain s' where
    "putc_spaces n (of_nat (Suc j)) ?s1 = Some s'" "console_frame b ?s1 s'"
    "screen_x s' = screen_x ?s1 + of_nat n" "screen_y s' = screen_y ?s1" by auto
  then show ?case using step console_frame_trans [OF f] by (auto simp: add.assoc)
qed

lemma putc_tab_eq:
  assumes w: "window s b" and s: "on_screen s"
  shows "\<exists>s'. putc_tab s = Some s' \<and> console_frame b s s' \<and>
    unat (screen_x s') = 4 * (unat (screen_x s) div 4 + 1) \<and> screen_y s' = screen_y s"
proof -
  let ?x = "unat (screen_x s)" and ?y = "unat (screen_y s)"
  have xy: "?x < 80" "?y < 25" using s by (simp_all add: on_screen_def small_coordinate)
  have off: "NUM_COLS * screen_y s + screen_x s = of_nat (80 * ?y + ?x)" by simp
  have "unat (NUM_COLS * screen_y s + screen_x s) = 80 * ?y + ?x"
    unfolding off using xy by (simp only: unat_of_nat) simp
  then have "unat ((NUM_COLS * screen_y s + screen_x s) AND 3) = (80 * ?y + ?x) mod 4"
    by (simp only: unat_and_3)
  also have "\<dots> = ?x mod 4" by (simp add: mod_add_left_eq [symmetric])
  finally have "unat ((NUM_COLS * screen_y s + screen_x s) AND 3) = ?x mod 4" .
  then have c: "unat (4 - ((NUM_COLS * screen_y s + screen_x s) AND 3)) = 4 - ?x mod 4"
    by (simp add: unat_sub word_le_nat_alt)
  let ?n = "4 - ?x mod 4"
  have sum: "?x + ?n = 4 * (?x div 4 + 1)" by (simp add: minus_mod_eq_mult_div [symmetric])
  have le: "4 * (?x div 4 + 1) \<le> 80" using xy(1) by simp
  have "80 * ?y + ?x + ?n \<le> 2000" using sum le xy(2) by simp
  from putc_spaces_eq [OF w this] obtain s' where s': "putc_spaces ?n (of_nat (80 * ?y + ?x)) s = Some s'"
    "console_frame b s s'" "screen_x s' = screen_x s + of_nat ?n" "screen_y s' = screen_y s" by blast
  have "?x + ?n \<le> 80" using le unfolding sum [symmetric] .
  then have "?x + ?n < 2 ^ 32" by (rule le_less_trans) simp
  then have "unat (screen_x s') = ?x + ?n" unfolding s'(3) by (rule unat_plus_of_nat)
  then show ?thesis using s' sum unfolding putc_tab_def Let_def off [symmetric] c by auto
qed

section \<open>Properties\<close>

text \<open>C20: printing a string without tabs and backspaces, from coordinates on the screen, returns and
  acts on the characters of the screen and the coordinates as the abstract console does (a character
  replaces its cell, the line wraps at column 80, a new line past row 25 scrolls every row up and blanks
  the last); it stores nothing outside the 4000 bytes of the window. When the process on the stack is that of the
  terminal shown, the hardware cursor is moved to the coordinates after every character, by the four port accesses
  of \<^verbatim>\<open>set_cursor_pos\<close> and no others, and the cursor fields of that terminal end at the last coordinates; otherwise the
  ports and the terminals are untouched. No other field of the state changes, those of the other terminals included.\<close>

theorem puts_refines:
  assumes "window s b" "on_screen s" "cursor_ok s" "8 \<notin> set str" "9 \<notin> set str"
  shows "\<exists>s'. puts str s = Some (of_nat (length str), s') \<and> on_screen s' \<and>
    console_of b s' = fold abs_putc str (console_of b s) \<and> outside_window b (phys s) (phys s') \<and>
    s' = s\<lparr>phys := phys s', screen_x := screen_x s', screen_y := screen_y s',
      terms := (if follows_shown s \<and> str \<noteq> []
        then (terms s)[unat (shown_term_id s) :=
          (terms s ! unat (shown_term_id s))\<lparr>t_cursor_x := screen_x s', t_cursor_y := screen_y s'\<rparr>] else terms s),
      ports := (if follows_shown s
        then fold (\<lambda>(x, y). set_cursor_pos (of_nat x) (of_nat y)) (cursor_trail str (console_of b s)) (ports s)
        else ports s)\<rparr>"
proof -
  obtain s' where s': "for_opt putc str s = Some s'" "console_frame b s s'" "on_screen s'"
    "console_of b s' = fold abs_putc str (console_of b s)"
    using puts_eq [OF assms(4,5,1,2,3)] by blast
  note e = puts_exact [OF assms(4,5,1,2,3) s'(1), unfolded printed_state_def shown_cursor_def cursor_moves_def Let_def]
  have "puts str s = Some (of_nat (length str), s')" using s'(1) by (simp add: puts_def)
  then show ?thesis using s'(3,4) console_frame_keeps(3) [OF s'(2)] e by (intro exI conjI) assumption+
qed

lemma sample_window: "window sample_state 0xB8000"
proof -
  have "drop_bit 12 (0xB8000 + off) = (0xB8 :: u32)" if "off < 4096" for off
  proof -
    have o: "unat off < 4096" using that by (simp add: word_less_nat_alt)
    then have "unat (0xB8000 + off) = 0xB8000 + unat off" by (simp add: unat_word_ariths)
    then have "unat (drop_bit 12 (0xB8000 + off)) = unat (0xB8 :: u32)" unfolding unat_drop_12 using o by simp
    then show ?thesis by (rule unsigned_word_eqI)
  qed
  then show ?thesis
    by (simp add: window_def sample_state_def paging_init_translate [OF wf_sample_layout])
qed

lemma sample_cursor: "cursor_ok sample_state"
  using current_sample by (auto simp: cursor_ok_def) (simp_all add: sample_state_def)

lemma sample_on_screen: "on_screen sample_state"
  by (simp add: on_screen_def sample_state_def)

theorem puts_refines_witness:
  "\<exists>s'. puts [72, 105, 10] sample_state = Some (3, s') \<and> snd (console_of 0xB8000 s') = (0, 1) \<and>
     screen_chars 0xB8000 (phys s') ! 1 = 105 \<and>
     ports s' = set_cursor_pos 0 1 (set_cursor_pos 2 0 (set_cursor_pos 1 0 (ports sample_state)))"
proof -
  have c: "console_of 0xB8000 sample_state = (screen_chars 0xB8000 (\<lambda>a. 0), 0, 0)"
    by (simp add: console_of_def sample_state_def)
  have f: "follows_shown sample_state"
  proof -
    have "get_pcb 0 sample_state = Some (sample_pcb 0)" "get_term (shown_term_id sample_state) sample_state = Some (sample_terminal 0)"
      by (simp_all add: get_pcb_def get_term_def sample_state_def upt_rec nth_opt_def)
    then show ?thesis using current_sample by (simp add: follows_shown_def sample_pcb_def sample_terminal_def)
  qed
  have t: "cursor_trail [72, 105, 10] (xs, 0, 0) = [(1, 0), (2, 0), (0, 1)]" for xs
    by (simp add: abs_putc_def abs_newline_def)
  obtain s' where s': "puts [72, 105, 10] sample_state = Some (3, s')"
    "console_of 0xB8000 s' = fold abs_putc [72, 105, 10] (screen_chars 0xB8000 (\<lambda>a. 0), 0, 0)"
    "ports s' = fold (\<lambda>(x, y). set_cursor_pos (of_nat x) (of_nat y)) [(1, 0), (2, 0), (0, 1)] (ports sample_state)"
  proof -
    from puts_refines [OF sample_window sample_on_screen sample_cursor, of "[72, 105, 10]", unfolded c t]
    obtain s' where a: "puts [72, 105, 10] sample_state = Some (of_nat (length [72, 105, 10 :: u8]), s')"
      "console_of 0xB8000 s' = fold abs_putc [72, 105, 10] (screen_chars 0xB8000 (\<lambda>a. 0), 0, 0)"
      and e: "s' = sample_state\<lparr>phys := phys s', screen_x := screen_x s', screen_y := screen_y s',
        terms := (if follows_shown sample_state \<and> [72, 105, 10 :: u8] \<noteq> []
          then (terms sample_state)[unat (shown_term_id sample_state) :=
            (terms sample_state ! unat (shown_term_id sample_state))\<lparr>t_cursor_x := screen_x s', t_cursor_y := screen_y s'\<rparr>]
          else terms sample_state),
        ports := (if follows_shown sample_state
          then fold (\<lambda>(x, y). set_cursor_pos (of_nat x) (of_nat y)) [(1, 0), (2, 0), (0, 1)] (ports sample_state)
          else ports sample_state)\<rparr>" by auto
    have "ports s' = fold (\<lambda>(x, y). set_cursor_pos (of_nat x) (of_nat y)) [(1, 0), (2, 0), (0, 1)] (ports sample_state)"
      by (subst e) (simp add: f)
    then show thesis using a that by simp
  qed
  have "console_of 0xB8000 s' = ((screen_chars 0xB8000 (\<lambda>a. 0))[0 := 72, 1 := 105], 0, 1)"
    unfolding s'(2) by (simp add: abs_putc_def abs_newline_def)
  then have "screen_chars 0xB8000 (phys s') = (screen_chars 0xB8000 (\<lambda>a. 0))[0 := 72, 1 := 105]"
    "snd (console_of 0xB8000 s') = (0, 1)" by (simp_all add: console_of_def)
  then show ?thesis using s'(1,3) by (simp del: screen_nth)
qed

text \<open>A backspace right after a character printed before the last column undoes it: the
  coordinates are those before the character and only its cell differs, now 0 (blank).\<close>

theorem backspace_undoes_char:
  assumes "window s b" "on_screen s" "cursor_ok s" "screen_x s \<noteq> 79" "c \<notin> {8, 9, 10, 13}"
  shows "\<exists>s1 s2. putc c s = Some s1 \<and> putc 8 s1 = Some s2 \<and>
    screen_x s2 = screen_x s \<and> screen_y s2 = screen_y s \<and>
    screen_chars b (phys s2) = (screen_chars b (phys s))[80 * unat (screen_y s) + unat (screen_x s) := 0]"
proof -
  let ?i = "80 * unat (screen_y s) + unat (screen_x s)"
  let ?sc = "(with_phys s (put_cell b ?i c ATTRIB (phys s)))\<lparr>screen_x := screen_x s + 1\<rparr>"
  note off = cell_offset [OF assms(2)]
  have f: "console_frame b s ?sc" using put_cell_outside [OF off(2)]
    by (simp add: console_frame_def console_base_def)
  have "cursor_ok ?sc" using console_frame_keeps(2) [OF f] assms(3) by blast
  from putc_cursor_eq [OF this] obtain s1 where s1: "putc_cursor ?sc = Some s1" "console_frame b ?sc s1"
    "phys s1 = phys ?sc" "screen_x s1 = screen_x ?sc" "screen_y s1 = screen_y ?sc" by blast
  have p1: "putc c s = Some s1"
    using putc_char_inside [OF assms(1,2,4), of c] s1(1) assms(5) by (simp add: putc_def)
  have w1: "window s1 b" "cursor_ok s1"
    using console_frame_keeps(1,2) [OF console_frame_trans [OF f s1(2)]] assms(1,3) by blast+
  have x1: "screen_x s1 \<noteq> 0"
    using unat_inc [of "screen_x s"] assms(2) s1(4) by (auto simp: on_screen_def word_less_nat_alt dest!: arg_cong [of _ 0 unat])
  have "NUM_COLS * screen_y s1 + screen_x s1 - 1 = of_nat ?i" using s1(4,5) by simp
  moreover have "screen_attrs b (phys s1) ! ?i = ATTRIB"
    using put_cell_screen(2) [OF off(2)] off(2) s1(3) by (simp del: screen_nth)
  ultimately have bs: "putc_backspace s1 = Some (True, s1\<lparr>phys := put_cell b ?i 0 ATTRIB (phys s1), screen_x := screen_x s1 - 1\<rparr>)"
    using putc_backspace_eq [OF w1(1) off(2) _ x1] by (simp del: screen_nth)
  let ?sb = "s1\<lparr>phys := put_cell b ?i 0 ATTRIB (phys s1), screen_x := screen_x s1 - 1\<rparr>"
  have "console_frame b s1 ?sb" using put_cell_outside [OF off(2)] by (simp add: console_frame_def console_base_def)
  then have "cursor_ok ?sb" using console_frame_keeps(2) w1(2) by blast
  from putc_cursor_eq [OF this] obtain s2 where s2: "putc_cursor ?sb = Some s2"
    "phys s2 = phys ?sb" "screen_x s2 = screen_x ?sb" "screen_y s2 = screen_y ?sb" by blast
  have "putc 8 s1 = Some s2" using bs s2(1) by (simp add: putc_def)
  then show ?thesis
    using p1 s1(3-5) s2(2-4) put_cell_screen(1) [OF off(2)] by (auto simp del: screen_nth)
qed

theorem backspace_undoes_char_witness:
  "\<exists>s1 s2. putc 65 sample_state = Some s1 \<and> putc 8 s1 = Some s2 \<and> screen_x s2 = 0 \<and> screen_y s2 = 0"
  using backspace_undoes_char [OF sample_window sample_on_screen sample_cursor, of 65]
  by (auto simp: sample_state_def)

text \<open>A backspace with the cursor in the upper left corner reads the attribute byte before the
  video memory, which is in a page that \<^verbatim>\<open>paging_init\<close> leaves unmapped: the kernel faults before the
  test for the corner is reached.\<close>

theorem backspace_at_origin_faults:
  assumes "wf_layout p" "mmu s = paging_init p" "video_mem s = VIDEO" "screen_x s = 0" "screen_y s = 0"
  shows "putc 8 s = None"
  using assms paging_init_translate [OF assms(1), of "0xB7FFF"]
  by (simp add: putc_def putc_backspace_def video_load_def vload_def load_virtual_def)

theorem backspace_at_origin_faults_witness: "putc 8 sample_state = None"
  using backspace_at_origin_faults [OF wf_sample_layout, of sample_state] by (simp add: sample_state_def)

text \<open>A tab moves the cursor to the next multiple of four and does not wrap: from columns 76 to
  79 it leaves the cursor in column 80, outside the row, and the next character moves it to column 81 of the
  same row instead of starting a new one.\<close>

theorem tab_leaves_the_row:
  assumes "window s b" "on_screen s" "cursor_ok s" "76 \<le> screen_x s" "screen_y s < 24"
    and "c \<notin> {8, 9, 10, 13}"
  shows "\<exists>s1 s2. putc 9 s = Some s1 \<and> screen_x s1 = 80 \<and> putc c s1 = Some s2 \<and>
    screen_x s2 = 81 \<and> screen_y s2 = screen_y s"
proof -
  obtain sa where sa: "putc_tab s = Some sa" "console_frame b s sa"
    "unat (screen_x sa) = 4 * (unat (screen_x s) div 4 + 1)" "screen_y sa = screen_y s"
    using putc_tab_eq [OF assms(1,2)] by blast
  have "unat (screen_x s) div 4 = 19"
  proof (rule div_nat_eqI)
    show "4 * 19 \<le> unat (screen_x s)" using assms(4) by (simp add: word_le_nat_alt)
    show "unat (screen_x s) < 4 * Suc 19" using assms(2) by (simp add: on_screen_def word_less_nat_alt)
  qed
  then have "unat (screen_x sa) = unat (80 :: u32)" using sa(3) by simp
  then have xa: "screen_x sa = 80" by (rule unsigned_word_eqI)
  have "cursor_ok sa" using console_frame_keeps(2) [OF sa(2)] assms(3) by simp
  from putc_cursor_eq [OF this] obtain s1 where s1: "putc_cursor sa = Some s1" "console_frame b sa s1"
    "screen_x s1 = 80" "screen_y s1 = screen_y s" using xa sa(4) by auto
  have p1: "putc 9 s = Some s1" using sa(1) s1(1) by (simp add: putc_def)
  have w1: "window s1 b" "cursor_ok s1"
    using console_frame_keeps(1,2) [OF console_frame_trans [OF sa(2) s1(2)]] assms(1,3) by blast+
  let ?i = "80 * unat (screen_y s1) + 80"
  have y: "unat (screen_y s1) < 24" using assms(5) s1(4) by (simp add: word_less_nat_alt)
  then have i: "?i < 2000" by simp
  have "(of_nat ?i :: u32) = NUM_COLS * screen_y s1 + screen_x s1" using s1(3) by simp
  then have off: "push_bit 1 (NUM_COLS * screen_y s1 + screen_x s1) = (of_nat (2 * ?i) :: u32)"
    by (metis double_offset)
  let ?m = "put_cell b ?i c ATTRIB (phys s1)"
  obtain z where "video_store (of_nat (2 * ?i)) c s1 = Some z"
    "video_store (of_nat (2 * ?i) + 1) ATTRIB z = Some (with_phys s1 ?m)"
    using store_cell [OF w1(1) i, of c ATTRIB] by (auto simp only: bind_eq_Some_conv)
  then have pc: "putc_char c s1 = Some ((with_phys s1 ?m)\<lparr>screen_x := 81\<rparr>)"
    unfolding putc_char_def Let_def off using s1(3) by (simp del: of_nat_mult of_nat_add)
  have "console_frame b s1 ((with_phys s1 ?m)\<lparr>screen_x := 81\<rparr>)"
    using put_cell_outside [OF i] by (simp add: console_frame_def console_base_def)
  then have "cursor_ok ((with_phys s1 ?m)\<lparr>screen_x := 81\<rparr>)" using console_frame_keeps(2) w1(2) by blast
  from putc_cursor_eq [OF this] obtain s2 where "putc_cursor ((with_phys s1 ?m)\<lparr>screen_x := 81\<rparr>) = Some s2"
    "screen_x s2 = 81" "screen_y s2 = screen_y s1" by auto
  then show ?thesis using p1 s1(3,4) pc assms(6) by (auto simp: putc_def)
qed

theorem tab_leaves_the_row_witness:
  "\<exists>s1 s2. putc 9 (sample_state\<lparr>screen_x := 77\<rparr>) = Some s1 \<and> putc 65 s1 = Some s2 \<and>
     screen_x s2 = 81 \<and> screen_y s2 = 0"
proof -
  let ?s = "sample_state\<lparr>screen_x := 77\<rparr>"
  have "window ?s 0xB8000" using sample_window window_cong [of ?s sample_state] by simp
  moreover have "on_screen ?s" "screen_y ?s = 0" "screen_x ?s = 77" by (simp_all add: on_screen_def sample_state_def)
  moreover have "cursor_ok ?s" using sample_cursor by (simp add: cursor_ok_def current_def get_current_pcb_def)
  ultimately show ?thesis using tab_leaves_the_row [of ?s "0xB8000" 65] by auto
qed

end
