(* ===== verification/Drivers.thy ===== *)
theory Drivers imports Directory FileWrite Console begin

text \<open>
  The operations behind the six tables \<^verbatim>\<open>file_operations_t\<close> of \<^verbatim>\<open>src/student-distrib/syscall.c\<close>:
  the null operations, regular files and directories (\<^verbatim>\<open>filesys.c\<close>), the terminal (\<^verbatim>\<open>term.c\<close>) and
  the real-time clock (\<^verbatim>\<open>rtc.c\<close>).

  A buffer is an address of the virtual memory; what an operation stores there goes through the
  paging tables, and a page fault is \<open>None\<close>. A file name is the byte string up to its terminator,
  \<open>None\<close> for a null pointer. \<^verbatim>\<open>terminal_read\<close> and \<^verbatim>\<open>rtc_read\<close> spin until an interrupt handler
  changes a variable: they take the list of what happens in the meantime, one state transformer
  (an interrupt handler, or a whole excursion to other processes) before each further test, and
  \<open>None\<close> when the list ends while the loop still waits.
\<close>

type_synonym cstr = "u8 list option"
type_synonym irq = "kstate \<Rightarrow> kstate option"
type_synonym result = "(i32 \<times> kstate) option"

abbreviation RTC_MAX_FREQ :: i32 where "RTC_MAX_FREQ \<equiv> 1024"
abbreviation RTC_MIN_FREQ :: i32 where "RTC_MIN_FREQ \<equiv> 2"

section \<open>Copies between the kernel and a buffer\<close>

fun copy_out :: "u32 \<Rightarrow> u8 list \<Rightarrow> kstate \<Rightarrow> kstate option" where
  "copy_out a [] s = Some s"
| "copy_out a (b # bs) s = do { s \<leftarrow> vstore a b s; copy_out (a + 1) bs s }"

text \<open>The bytes of a source buffer, as far as they are mapped.\<close>

fun copy_in :: "u32 \<Rightarrow> nat \<Rightarrow> kstate \<Rightarrow> u8 list" where
  "copy_in a 0 s = []"
| "copy_in a (Suc n) s = (case vload a s of None \<Rightarrow> [] | Some b \<Rightarrow> b # copy_in (a + 1) n s)"

text \<open>The open file behind descriptor \<open>fd\<close> of process \<open>i\<close>.\<close>

definition get_file :: "nat \<Rightarrow> i32 \<Rightarrow> kstate \<Rightarrow> file_t option" where
  "get_file i fd s = do { p \<leftarrow> get_pcb i s; nth_opt (p_files p) (unat fd) }"

definition map_file :: "nat \<Rightarrow> i32 \<Rightarrow> (file_t \<Rightarrow> file_t) \<Rightarrow> kstate \<Rightarrow> kstate option" where
  "map_file i fd f s = do {
     v \<leftarrow> get_file i fd s;
     map_pcb i (\<lambda>p. p\<lparr>p_files := (p_files p)[unat fd := f v]\<rparr>) s
   }"

section \<open>The null operations\<close>

definition null_open :: "cstr \<Rightarrow> kstate \<Rightarrow> result" where
  "null_open fname s = Some (-1, s)"

definition null_read :: "irq list \<Rightarrow> i32 \<Rightarrow> u32 \<Rightarrow> u32 \<Rightarrow> kstate \<Rightarrow> result" where
  "null_read irqs fd buf count s = Some (-1, s)"

definition null_write :: "i32 \<Rightarrow> u32 \<Rightarrow> u32 \<Rightarrow> kstate \<Rightarrow> result" where
  "null_write fd buf count s = Some (-1, s)"

definition null_close :: "i32 \<Rightarrow> kstate \<Rightarrow> result" where
  "null_close fd s = Some (-1, s)"

section \<open>Regular files\<close>

definition read_data_to :: "u32 \<Rightarrow> u32 \<Rightarrow> u32 \<Rightarrow> u32 \<Rightarrow> kstate \<Rightarrow> result" where
  "read_data_to inode offset buf len s = do {
     (r, bytes) \<leftarrow> read_data (disk s) inode offset buf len;
     s \<leftarrow> copy_out buf bytes s;
     Some (r, s)
   }"

definition file_open :: "cstr \<Rightarrow> kstate \<Rightarrow> result" where
  "file_open fname s = do {
     (r, dentry) \<leftarrow> read_dentry_by_name (disk s) fname;
     if r = -1 then Some (-1, s) else do { d \<leftarrow> dentry; Some (inode_num d, s) }
   }"

definition file_close :: "i32 \<Rightarrow> kstate \<Rightarrow> result" where
  "file_close fd s = Some (0, s)"

definition file_read :: "irq list \<Rightarrow> i32 \<Rightarrow> u32 \<Rightarrow> u32 \<Rightarrow> kstate \<Rightarrow> result" where
  "file_read irqs fd buf count s = do {
     i \<leftarrow> current s;
     f \<leftarrow> get_file i fd s;
     read_data_to (f_inode f) (f_pos f) buf count s
   }"

definition file_write :: "i32 \<Rightarrow> u32 \<Rightarrow> u32 \<Rightarrow> kstate \<Rightarrow> result" where
  "file_write fd buf count s = do {
     i \<leftarrow> current s;
     f \<leftarrow> get_file i fd s;
     (r, fs, io) \<leftarrow> write_data (disk s) (f_inode f) (f_pos f) buf (copy_in buf (unat count) s) count (ports s);
     Some (r, s\<lparr>disk := fs, ports := io\<rparr>)
   }"

text \<open>\<^verbatim>\<open>file_size\<close> indexes the inodes by its argument, which its callers would take for a descriptor.\<close>

definition file_size_of :: "i32 \<Rightarrow> kstate \<Rightarrow> i32 option" where
  "file_size_of fd s = do { n \<leftarrow> nth_opt (inode_blocks (disk s)) (unat fd); Some (file_size n) }"

section \<open>Directories\<close>

definition dir_open :: "cstr \<Rightarrow> kstate \<Rightarrow> result" where
  "dir_open fname s = do {
     (r, dentry) \<leftarrow> read_dentry_by_name (disk s) fname;
     if r = -1 then Some (-1, s) else Some (0, s)
   }"

definition dir_close :: "i32 \<Rightarrow> kstate \<Rightarrow> result" where
  "dir_close fd s = Some (0, s)"

text \<open>The position is one static variable for every descriptor and process. The copy of up to 33
  bytes starts at the 32 bytes of the name, so the last one is the first byte of the file type.\<close>

definition dir_read :: "irq list \<Rightarrow> i32 \<Rightarrow> u32 \<Rightarrow> u32 \<Rightarrow> kstate \<Rightarrow> result" where
  "dir_read irqs fd buf count s =
     (if buf = 0 \<or> dir_pos s \<ge> dentry_count (boot_block (disk s)) then Some (0, s\<lparr>dir_pos := 0\<rparr>)
      else do {
        de \<leftarrow> nth_opt (dentries (boot_block (disk s))) (unat (dir_pos s));
        let count = (if count > 33 then 33 else count);
        bytes \<leftarrow> slice_opt (file_name de @ le32 (file_type de)) 0 (unat count);
        s \<leftarrow> copy_out buf bytes s;
        Some (count, s\<lparr>dir_pos := dir_pos s + 1\<rparr>)
      })"

definition dir_write :: "i32 \<Rightarrow> u32 \<Rightarrow> u32 \<Rightarrow> kstate \<Rightarrow> result" where
  "dir_write fd buf count s = Some (-1, s)"

section \<open>The terminal\<close>

definition terminal_open :: "cstr \<Rightarrow> kstate \<Rightarrow> result" where
  "terminal_open file s = Some (0, s)"

definition terminal_close :: "i32 \<Rightarrow> kstate \<Rightarrow> result" where
  "terminal_close file s = Some (0, s)"

text \<open>The busy wait: the active terminal is looked up again for each test.\<close>

fun wait_input :: "irq list \<Rightarrow> kstate \<Rightarrow> kstate option" where
  "wait_input irqs s = do {
     u \<leftarrow> get_term (active_term_id s) s;
     if t_in_progress u = 0 then Some s
     else case irqs of [] \<Rightarrow> None | h # irqs \<Rightarrow> do { s \<leftarrow> h s; wait_input irqs s }
   }"

declare wait_input.simps [simp del]

definition terminal_read :: "irq list \<Rightarrow> i32 \<Rightarrow> u32 \<Rightarrow> u32 \<Rightarrow> kstate \<Rightarrow> result" where
  "terminal_read irqs file buf count s =
     (if buf = 0 \<or> count = 0 then Some (-1, s)
      else do {
        s \<leftarrow> map_term (active_term_id s) (\<lambda>u. u\<lparr>t_in_progress := 1\<rparr>) s;
        s \<leftarrow> wait_input irqs s;
        u \<leftarrow> get_term (active_term_id s) s;
        s \<leftarrow> (if count > t_length u then vstore (buf + t_length u) 0 s else Some s);
        let count = (if count > t_length u then t_length u else count);
        bytes \<leftarrow> slice_opt (t_content u) 0 (unat count);
        s \<leftarrow> copy_out buf bytes s;
        s \<leftarrow> map_term (active_term_id s) (\<lambda>u. u\<lparr>t_length := 0, t_in_progress := 1\<rparr>) s;
        Some (count, s)
      })"

text \<open>Each byte is loaded when it is printed.\<close>

definition write_byte :: "u32 \<Rightarrow> nat \<Rightarrow> kstate \<Rightarrow> kstate option" where
  "write_byte buf i s = do { b \<leftarrow> vload (buf + of_nat i) s; putc b s }"

definition terminal_write :: "i32 \<Rightarrow> u32 \<Rightarrow> u32 \<Rightarrow> kstate \<Rightarrow> result" where
  "terminal_write file buf count s =
     (if buf = 0 \<or> count = 0 then Some (0, s)
      else do {
        let s = s\<lparr>iflag := False\<rparr>;
        s \<leftarrow> for_opt (write_byte buf) [0..<unat count] s;
        s \<leftarrow> map_term (active_term_id s) (\<lambda>u. u\<lparr>t_length := 0\<rparr>) s;
        Some (count, s\<lparr>iflag := True\<rparr>)
      })"

section \<open>The real-time clock\<close>

definition rtc_open :: "cstr \<Rightarrow> kstate \<Rightarrow> result" where
  "rtc_open path s = do {
     i \<leftarrow> current s;
     s \<leftarrow> map_pcb i (\<lambda>p. p\<lparr>p_rtc := 1, p_rtc_fired := 0, p_rtc_rate := RTC_MAX_FREQ div RTC_MIN_FREQ,
            p_rtc_curr := RTC_MAX_FREQ div RTC_MIN_FREQ\<rparr>) s;
     Some (0, s)
   }"

definition rtc_close :: "i32 \<Rightarrow> kstate \<Rightarrow> result" where
  "rtc_close fd s = do {
     i \<leftarrow> current s;
     s \<leftarrow> map_pcb i (\<lambda>p. p\<lparr>p_rtc := 0\<rparr>) s;
     Some (0, s)
   }"

text \<open>The loop of \<^verbatim>\<open>rtc_read\<close>; the control block \<open>i\<close> is found once, before it.\<close>

fun rtc_wait :: "irq list \<Rightarrow> nat \<Rightarrow> kstate \<Rightarrow> result" where
  "rtc_wait irqs i s = do {
     p \<leftarrow> get_pcb i s;
     if p_rtc p = 0 then Some (-1, s)
     else if p_rtc_fired p > 0 then do {
       s \<leftarrow> map_pcb i (\<lambda>p. p\<lparr>p_rtc_fired := p_rtc_fired p - 1, p_rtc_curr := p_rtc_rate p\<rparr>) s;
       Some (0, s)
     }
     else case irqs of [] \<Rightarrow> None | h # irqs \<Rightarrow> do { s \<leftarrow> h s; rtc_wait irqs i s }
   }"

declare rtc_wait.simps [simp del]

definition rtc_read :: "irq list \<Rightarrow> i32 \<Rightarrow> u32 \<Rightarrow> u32 \<Rightarrow> kstate \<Rightarrow> result" where
  "rtc_read irqs fd buf count s = do {
     i \<leftarrow> current s;
     s \<leftarrow> map_pcb i (\<lambda>p. p\<lparr>p_rtc_fired := 0\<rparr>) s;
     rtc_wait irqs i s
   }"

definition rtc_write :: "i32 \<Rightarrow> u32 \<Rightarrow> u32 \<Rightarrow> kstate \<Rightarrow> result" where
  "rtc_write fd buf count s =
     (if count \<noteq> 4 \<or> buf = 0 then Some (-1, s)
      else do {
        bytes \<leftarrow> slice_opt (copy_in buf 4 s) 0 4;
        let freq = of_le32 bytes;
        if sint freq < sint RTC_MIN_FREQ \<or> sint freq > sint RTC_MAX_FREQ \<or> freq AND (freq - 1) \<noteq> 0
        then Some (-1, s)
        else do {
          i \<leftarrow> current s;
          p \<leftarrow> get_pcb i s;
          if p_rtc p = 0 then Some (-1, s)
          else do {
            s \<leftarrow> map_pcb i (\<lambda>p. p\<lparr>p_rtc_rate := RTC_MAX_FREQ div freq, p_rtc_curr := RTC_MAX_FREQ div freq\<rparr>) s;
            Some (0, s)
          }
        }
      })"

end
