(* ===== verification/Descriptors.thy ===== *)
theory Descriptors imports Drivers begin

text \<open>
  The descriptor calls of \<^verbatim>\<open>src/student-distrib/syscall.c\<close>: \<^verbatim>\<open>read\<close>, \<^verbatim>\<open>write\<close>, \<^verbatim>\<open>open\<close> and
  \<^verbatim>\<open>close\<close>, which dispatch through the table of the open file. The locale \<open>file_driver\<close> states
  what they rely on, that an operation leaves every descriptor of every process alone, and proves
  what each call does to the descriptors; it is interpreted on the six tables.
\<close>

section \<open>The dispatch through the tables\<close>

fun ops_open :: "file_operations_t \<Rightarrow> cstr \<Rightarrow> kstate \<Rightarrow> result" where
  "ops_open null_ops = null_open"
| "ops_open stdin_ops = terminal_open"
| "ops_open stdout_ops = terminal_open"
| "ops_open file_ops = file_open"
| "ops_open dir_ops = dir_open"
| "ops_open rtc_ops = rtc_open"

fun ops_close :: "file_operations_t \<Rightarrow> i32 \<Rightarrow> kstate \<Rightarrow> result" where
  "ops_close null_ops = null_close"
| "ops_close stdin_ops = terminal_close"
| "ops_close stdout_ops = terminal_close"
| "ops_close file_ops = file_close"
| "ops_close dir_ops = dir_close"
| "ops_close rtc_ops = rtc_close"

fun ops_read :: "file_operations_t \<Rightarrow> irq list \<Rightarrow> i32 \<Rightarrow> u32 \<Rightarrow> u32 \<Rightarrow> kstate \<Rightarrow> result" where
  "ops_read null_ops = null_read"
| "ops_read stdin_ops = terminal_read"
| "ops_read stdout_ops = null_read"
| "ops_read file_ops = file_read"
| "ops_read dir_ops = dir_read"
| "ops_read rtc_ops = rtc_read"

fun ops_write :: "file_operations_t \<Rightarrow> i32 \<Rightarrow> u32 \<Rightarrow> u32 \<Rightarrow> kstate \<Rightarrow> result" where
  "ops_write null_ops = null_write"
| "ops_write stdin_ops = null_write"
| "ops_write stdout_ops = terminal_write"
| "ops_write file_ops = file_write"
| "ops_write dir_ops = dir_write"
| "ops_write rtc_ops = rtc_write"

definition file_ops_map :: "file_operations_t list" where
  "file_ops_map = [rtc_ops, dir_ops, file_ops]"

section \<open>The calls\<close>

text \<open>Two of the four names are keywords of the logic, so all carry the prefix \<open>sys_\<close>.\<close>

text \<open>A signed descriptor in the range of the table, from \<open>lo\<close> on.\<close>

definition bad_fd :: "int \<Rightarrow> i32 \<Rightarrow> bool" where
  "bad_fd lo fd \<longleftrightarrow> sint fd < lo \<or> sint fd \<ge> 8"

definition advance :: "i32 \<Rightarrow> file_t \<Rightarrow> file_t" where
  "advance r f = f\<lparr>f_pos := f_pos f + r\<rparr>"

text \<open>What \<^verbatim>\<open>read\<close> does with the result of the operation.\<close>

definition finish_read :: "nat \<Rightarrow> i32 \<Rightarrow> i32 \<times> kstate \<Rightarrow> result" where
  "finish_read i fd = (\<lambda>(read_bytes, s).
     if sint read_bytes \<ge> 0 then do { s \<leftarrow> map_file i fd (advance read_bytes) s; Some (read_bytes, s) }
     else Some (-1, s))"

definition sys_read :: "irq list \<Rightarrow> i32 \<Rightarrow> u32 \<Rightarrow> i32 \<Rightarrow> kstate \<Rightarrow> result" where
  "sys_read irqs fd buf count s = do {
     i \<leftarrow> current s;
     if bad_fd 0 fd then Some (-1, s)
     else do {
       f \<leftarrow> get_file i fd s;
       if f_present f = 0 then Some (-1, s)
       else do { rs \<leftarrow> ops_read (f_ops f) irqs fd buf count s; finish_read i fd rs }
     }
   }"

text \<open>\<^verbatim>\<open>written_bytes\<close> is unsigned, so the test \<^verbatim>\<open>written_bytes >= 0\<close> is always true.\<close>

definition finish_write :: "nat \<Rightarrow> i32 \<Rightarrow> i32 \<times> kstate \<Rightarrow> result" where
  "finish_write i fd = (\<lambda>(written_bytes, s).
     if written_bytes \<ge> 0 then do { s \<leftarrow> map_file i fd (advance written_bytes) s; Some (written_bytes, s) }
     else Some (-1, s))"

definition sys_write :: "i32 \<Rightarrow> u32 \<Rightarrow> i32 \<Rightarrow> kstate \<Rightarrow> result" where
  "sys_write fd buf count s = do {
     i \<leftarrow> current s;
     if bad_fd 0 fd then Some (-1, s)
     else do {
       f \<leftarrow> get_file i fd s;
       if f_present f = 0 then Some (-1, s)
       else do { rs \<leftarrow> ops_write (f_ops f) fd buf count s; finish_write i fd rs }
     }
   }"

text \<open>The lowest descriptor from 2 on that is not in use.\<close>

definition free_fd :: "file_t list \<Rightarrow> nat option option" where
  "free_fd fs = do {
     fs \<leftarrow> slice_opt fs 0 8;
     Some (List.find (\<lambda>i. f_present (fs ! i) = 0) [2..<8])
   }"

definition set_up_file :: "file_operations_t \<Rightarrow> u32 \<Rightarrow> file_t \<Rightarrow> file_t" where
  "set_up_file ops inode f = f\<lparr>f_ops := ops, f_inode := inode, f_pos := 0, f_present := 1\<rparr>"

text \<open>The body of the loop for the descriptor found.\<close>

definition open_at :: "nat \<Rightarrow> nat \<Rightarrow> cstr \<Rightarrow> kstate \<Rightarrow> result" where
  "open_at c i fname s = do {
     (r, den) \<leftarrow> read_dentry_by_name (disk s) fname;
     if r = -1 then Some (-1, s)
     else do {
       den \<leftarrow> den;
       ops \<leftarrow> nth_opt file_ops_map (unat (file_type den));
       (r, s) \<leftarrow> ops_open ops fname s;
       if r = -1 then Some (-1, s)
       else do {
         s \<leftarrow> map_file c (of_nat i) (set_up_file ops (inode_num den)) s;
         Some (of_nat i, s)
       }
     }
   }"

definition sys_open :: "cstr \<Rightarrow> kstate \<Rightarrow> result" where
  "sys_open fname s = do {
     c \<leftarrow> current s;
     p \<leftarrow> get_pcb c s;
     free \<leftarrow> free_fd (p_files p);
     case free of None \<Rightarrow> Some (-1, s) | Some i \<Rightarrow> open_at c i fname s
   }"

text \<open>What \<^verbatim>\<open>close\<close> does with the result of the operation.\<close>

definition finish_close :: "nat \<Rightarrow> i32 \<Rightarrow> i32 \<times> kstate \<Rightarrow> result" where
  "finish_close i fd = (\<lambda>(r, s).
     if r = 0 then do { s \<leftarrow> map_file i fd (\<lambda>f. f\<lparr>f_present := 0\<rparr>) s; Some (0, s) }
     else Some (-1, s))"

definition sys_close :: "i32 \<Rightarrow> kstate \<Rightarrow> result" where
  "sys_close fd s = do {
     i \<leftarrow> current s;
     if bad_fd 2 fd then Some (-1, s)
     else do {
       f \<leftarrow> get_file i fd s;
       if f_present f = 0 then Some (-1, s)
       else do { rs \<leftarrow> ops_close (f_ops f) fd s; finish_close i fd rs }
     }
   }"

section \<open>The descriptors of all processes\<close>

definition fds :: "kstate \<Rightarrow> file_t list list" where
  "fds s = map p_files (pcbs s)"

text \<open>Nothing but the call itself may touch the descriptors or the stack that names the process.\<close>

definition fd_frame :: "kstate \<Rightarrow> kstate \<Rightarrow> bool" where
  "fd_frame s s' \<longleftrightarrow> fds s' = fds s \<and> esp s' = esp s"

definition quiet :: "irq list \<Rightarrow> bool" where
  "quiet irqs \<longleftrightarrow> (\<forall>h \<in> set irqs. \<forall>s s'. h s = Some s' \<longrightarrow> fd_frame s s')"

definition upd_fd :: "nat \<Rightarrow> nat \<Rightarrow> (file_t \<Rightarrow> file_t) \<Rightarrow> file_t list list \<Rightarrow> file_t list list" where
  "upd_fd i j f t = t[i := (t ! i)[j := f (t ! i ! j)]]"

lemma fd_frame_refl [simp, intro]: "fd_frame s s"
  by (simp add: fd_frame_def)

lemma fd_frame_trans: "fd_frame s s' \<Longrightarrow> fd_frame s' s'' \<Longrightarrow> fd_frame s s''"
  by (simp add: fd_frame_def)

lemma current_frame: "fd_frame s s' \<Longrightarrow> current s' = current s"
  by (simp add: fd_frame_def current_def get_current_pcb_def)

lemma fd_frame_same [simp]:
  "pcbs s' = pcbs s \<Longrightarrow> esp s' = esp s \<Longrightarrow> fd_frame s s'"
  by (simp add: fd_frame_def fds_def)

lemma get_file_iff:
  "get_file i fd s = Some f \<longleftrightarrow> i < length (fds s) \<and> unat fd < length (fds s ! i) \<and> f = fds s ! i ! unat fd"
  by (auto simp: get_file_def get_pcb_def fds_def bind_eq_Some_conv)

lemma get_file_frame: "fd_frame s s' \<Longrightarrow> get_file i fd s = Some f \<Longrightarrow> get_file i fd s' = Some f"
  by (simp add: get_file_iff fd_frame_def)

lemma map_file_eq:
  assumes "get_file i fd s = Some f"
  shows "\<exists>s'. map_file i fd g s = Some s' \<and> fds s' = upd_fd i (unat fd) g (fds s) \<and> esp s' = esp s \<and>
    disk s' = disk s \<and> phys s' = phys s \<and> mmu s' = mmu s"
proof -
  let ?p = "pcbs s ! i"
  have i: "i < length (pcbs s)" "unat fd < length (p_files ?p)" "f = p_files ?p ! unat fd"
    using assms by (auto simp: get_file_iff fds_def)
  then show ?thesis using assms
    by (auto simp: map_file_def map_pcb_def get_pcb_def nth_opt_Some upd_fd_def fds_def map_update)
qed

lemma map_pcb_frame:
  assumes "map_pcb i f s = Some s'" "\<And>p. p_files (f p) = p_files p"
  shows "fd_frame s s'"
proof -
  have "s' = s\<lparr>pcbs := (pcbs s)[i := f (pcbs s ! i)]\<rparr>" "i < length (pcbs s)"
    using assms(1) by (auto simp: map_pcb_def get_pcb_def bind_eq_Some_conv)
  moreover have "map p_files ((pcbs s)[i := f (pcbs s ! i)]) = map p_files (pcbs s)"
    using assms(2) \<open>i < length (pcbs s)\<close> by (simp add: map_update list_update_same_conv)
  ultimately show ?thesis by (simp add: fd_frame_def fds_def)
qed

section \<open>Every operation leaves the descriptors alone\<close>

lemma vstore_frame: "vstore a b s = Some s' \<Longrightarrow> fd_frame s s'"
  by (auto simp: vstore_def bind_eq_Some_conv)

lemma map_term_frame: "map_term t f s = Some s' \<Longrightarrow> fd_frame s s'"
  by (auto simp: map_term_def bind_eq_Some_conv)

lemma for_opt_frame:
  assumes "\<And>x s s'. f x s = Some s' \<Longrightarrow> fd_frame s s'"
  shows "for_opt f xs s = Some s' \<Longrightarrow> fd_frame s s'"
  using for_opt_invariant [of xs "fd_frame s" f s s'] assms fd_frame_trans by blast

lemma copy_out_frame: "copy_out a bs s = Some s' \<Longrightarrow> fd_frame s s'"
  by (induction a bs s rule: copy_out.induct) (auto simp: bind_eq_Some_conv dest: vstore_frame intro: fd_frame_trans)

lemma putc_frame: "putc c s = Some s' \<Longrightarrow> fd_frame s s'"
  using console_base_keeps(3,4) [of s' s] by (auto dest!: putc_same simp: console_same_def)

lemma wait_input_frame: "wait_input irqs s = Some s' \<Longrightarrow> quiet irqs \<Longrightarrow> fd_frame s s'"
proof (induction irqs s rule: wait_input.induct)
  case (1 irqs s)
  from 1(2) obtain u where u: "get_term (active_term_id s) s = Some u"
    by (subst (asm) wait_input.simps) (auto simp: bind_eq_Some_conv)
  show ?case
  proof (cases "t_in_progress u = 0 \<or> irqs = []")
    case True
    then show ?thesis using 1(2) u by (subst (asm) wait_input.simps) (auto split: if_splits)
  next
    case False
    then obtain h hs s1 where h: "irqs = h # hs" "h s = Some s1" "wait_input hs s1 = Some s'"
      using 1(2) u by (subst (asm) wait_input.simps) (auto simp: bind_eq_Some_conv split: if_splits list.splits)
    then have "fd_frame s1 s'" using 1(1) [OF u _ h(1)] False 1(3) by (simp add: quiet_def)
    moreover have "fd_frame s s1" using h 1(3) by (simp add: quiet_def)
    ultimately show ?thesis using fd_frame_trans by blast
  qed
qed

lemma rtc_wait_frame: "rtc_wait irqs i s = Some (r, s') \<Longrightarrow> quiet irqs \<Longrightarrow> fd_frame s s'"
proof (induction irqs arbitrary: s)
  case Nil
  then show ?case
    by (subst (asm) rtc_wait.simps) (auto simp: bind_eq_Some_conv split: if_splits intro: map_pcb_frame)
next
  case (Cons h irqs)
  from Cons.prems(1) obtain p where p: "get_pcb i s = Some p"
    by (subst (asm) rtc_wait.simps) (auto simp: bind_eq_Some_conv)
  show ?case
  proof (cases "p_rtc p = 0 \<or> p_rtc_fired p > 0")
    case True
    then show ?thesis using Cons.prems(1) p
      by (subst (asm) rtc_wait.simps) (auto simp: bind_eq_Some_conv split: if_splits intro: map_pcb_frame)
  next
    case False
    then obtain s1 where h: "h s = Some s1" "rtc_wait irqs i s1 = Some (r, s')"
      using Cons.prems(1) p by (subst (asm) rtc_wait.simps) (auto simp: bind_eq_Some_conv split: if_splits)
    then have "fd_frame s1 s'" using Cons.IH Cons.prems(2) by (simp add: quiet_def)
    moreover have "fd_frame s s1" using h Cons.prems(2) by (simp add: quiet_def)
    ultimately show ?thesis using fd_frame_trans by blast
  qed
qed

lemma terminal_read_frame: "terminal_read irqs fd buf n s = Some (r, s') \<Longrightarrow> quiet irqs \<Longrightarrow> fd_frame s s'"
proof (cases "buf = 0 \<or> n = 0")
  case False
  assume "terminal_read irqs fd buf n s = Some (r, s')" and q: "quiet irqs"
  with False obtain s1 s2 s3 s4 a bs c where
    "map_term (active_term_id s) (\<lambda>u. u\<lparr>t_in_progress := 1\<rparr>) s = Some s1"
    "wait_input irqs s1 = Some s2" "s3 = s2 \<or> vstore a 0 s2 = Some s3" "copy_out buf bs s3 = Some s4"
    "map_term (active_term_id s4) (\<lambda>u. u\<lparr>t_length := 0, t_in_progress := 1\<rparr>) s4 = Some s'"
    by (auto simp: terminal_read_def Let_def bind_eq_Some_conv split: if_splits) blast+
  then have "fd_frame s s1" "fd_frame s1 s2" "fd_frame s2 s3" "fd_frame s3 s4" "fd_frame s4 s'"
    using q by (auto dest: map_term_frame wait_input_frame vstore_frame copy_out_frame)
  then show ?thesis by (meson fd_frame_trans)
qed (auto simp: terminal_read_def)

lemma terminal_write_frame: "terminal_write fd buf n s = Some (r, s') \<Longrightarrow> fd_frame s s'"
proof (cases "buf = 0 \<or> n = 0")
  case False
  assume "terminal_write fd buf n s = Some (r, s')"
  with False obtain s1 s2 where s: "for_opt (write_byte buf) [0..<unat n] (s\<lparr>iflag := False\<rparr>) = Some s1"
    "map_term (active_term_id s1) (\<lambda>u. u\<lparr>t_length := 0\<rparr>) s1 = Some s2" "s' = s2\<lparr>iflag := True\<rparr>"
    by (auto simp: terminal_write_def Let_def bind_eq_Some_conv)
  have "fd_frame (s\<lparr>iflag := False\<rparr>) s1" using s(1)
    by (rule for_opt_frame [rotated]) (auto simp: write_byte_def bind_eq_Some_conv intro: putc_frame)
  moreover have "fd_frame s1 s2" "fd_frame s2 s'" "fd_frame s (s\<lparr>iflag := False\<rparr>)"
    using s map_term_frame by auto
  ultimately show ?thesis by (meson fd_frame_trans)
qed (auto simp: terminal_write_def)

lemma read_data_to_frame: "read_data_to i off buf n s = Some (r, s') \<Longrightarrow> fd_frame s s'"
  by (auto simp: read_data_to_def bind_eq_Some_conv intro: copy_out_frame)

lemma dir_read_frame: "dir_read irqs fd buf n s = Some (r, s') \<Longrightarrow> fd_frame s s'"
proof (cases "buf = 0 \<or> dir_pos s \<ge> dentry_count (boot_block (disk s))")
  case False
  assume "dir_read irqs fd buf n s = Some (r, s')"
  with False obtain bs s1 where "copy_out buf bs s = Some s1" "s' = s1\<lparr>dir_pos := dir_pos s1 + 1\<rparr>"
    by (auto simp: dir_read_def Let_def bind_eq_Some_conv)
  then have "fd_frame s s1" "fd_frame s1 s'" by (auto intro: copy_out_frame)
  then show ?thesis by (rule fd_frame_trans)
qed (auto simp: dir_read_def)

lemma rtc_read_frame: "rtc_read irqs fd buf n s = Some (r, s') \<Longrightarrow> quiet irqs \<Longrightarrow> fd_frame s s'"
  by (auto simp: rtc_read_def bind_eq_Some_conv dest!: rtc_wait_frame map_pcb_frame elim!: fd_frame_trans)

section \<open>The interface of an operations table\<close>

locale file_driver =
  fixes drv_open :: "cstr \<Rightarrow> kstate \<Rightarrow> result"
    and drv_close :: "i32 \<Rightarrow> kstate \<Rightarrow> result"
    and drv_read :: "irq list \<Rightarrow> i32 \<Rightarrow> u32 \<Rightarrow> u32 \<Rightarrow> kstate \<Rightarrow> result"
    and drv_write :: "i32 \<Rightarrow> u32 \<Rightarrow> u32 \<Rightarrow> kstate \<Rightarrow> result"
  assumes open_frame: "drv_open n s = Some (r, s') \<Longrightarrow> fd_frame s s'"
    and close_frame: "drv_close fd s = Some (r, s') \<Longrightarrow> fd_frame s s'"
    and read_frame: "drv_read irqs fd buf count s = Some (r, s') \<Longrightarrow> quiet irqs \<Longrightarrow> fd_frame s s'"
    and write_frame: "drv_write fd buf count s = Some (r, s') \<Longrightarrow> fd_frame s s'"
begin

text \<open>A read moves the position of its own descriptor by the bytes read, or touches no descriptor.\<close>

lemma read_effect:
  assumes "get_file i fd s = Some f" "quiet irqs"
    and "do { rs \<leftarrow> drv_read irqs fd buf count s; finish_read i fd rs } = Some (r, s')"
  shows "esp s' = esp s \<and> fds s' = (if r = -1 then fds s else upd_fd i (unat fd) (advance r) (fds s))"
proof -
  from assms(3) obtain r1 s1 where d: "drv_read irqs fd buf count s = Some (r1, s1)"
    and fin: "finish_read i fd (r1, s1) = Some (r, s')" by (auto simp: bind_eq_Some_conv)
  have f: "fd_frame s s1" by (rule read_frame [OF d assms(2)])
  show ?thesis
  proof (cases "sint r1 \<ge> 0")
    case True
    obtain s2 where "map_file i fd (advance r1) s1 = Some s2" "fds s2 = upd_fd i (unat fd) (advance r1) (fds s1)"
      "esp s2 = esp s1" using map_file_eq [OF get_file_frame [OF f assms(1)]] by blast
    then have "r = r1" "s' = s2" using fin True by (auto simp: finish_read_def)
    then show ?thesis using \<open>fds s2 = _\<close> \<open>esp s2 = _\<close> f True by (auto simp: fd_frame_def)
  next
    case False
    then show ?thesis using fin f by (auto simp: finish_read_def fd_frame_def)
  qed
qed

text \<open>A write always moves it by the result of the operation, which is -1 on failure.\<close>

lemma write_effect:
  assumes "get_file i fd s = Some f"
    and "do { rs \<leftarrow> drv_write fd buf count s; finish_write i fd rs } = Some (r, s')"
  shows "esp s' = esp s \<and> fds s' = upd_fd i (unat fd) (advance r) (fds s)"
proof -
  from assms(2) obtain r1 s1 where d: "drv_write fd buf count s = Some (r1, s1)"
    and fin: "finish_write i fd (r1, s1) = Some (r, s')" by (auto simp: bind_eq_Some_conv)
  have f: "fd_frame s s1" by (rule write_frame [OF d])
  obtain s2 where "map_file i fd (advance r1) s1 = Some s2" "fds s2 = upd_fd i (unat fd) (advance r1) (fds s1)"
    "esp s2 = esp s1" using map_file_eq [OF get_file_frame [OF f assms(1)]] by blast
  then show ?thesis using fin f by (auto simp: finish_write_def fd_frame_def)
qed

text \<open>A close marks its descriptor free, or touches none.\<close>

lemma close_effect:
  assumes "get_file i fd s = Some f"
    and "do { rs \<leftarrow> drv_close fd s; finish_close i fd rs } = Some (r, s')"
  shows "esp s' = esp s \<and> (r = 0 \<or> r = -1) \<and>
    fds s' = (if r = 0 then upd_fd i (unat fd) (\<lambda>f. f\<lparr>f_present := 0\<rparr>) (fds s) else fds s)"
proof -
  from assms(2) obtain r1 s1 where d: "drv_close fd s = Some (r1, s1)"
    and fin: "finish_close i fd (r1, s1) = Some (r, s')" by (auto simp: bind_eq_Some_conv)
  have f: "fd_frame s s1" by (rule close_frame [OF d])
  obtain s2 where "map_file i fd (\<lambda>f. f\<lparr>f_present := 0\<rparr>) s1 = Some s2"
    "fds s2 = upd_fd i (unat fd) (\<lambda>f. f\<lparr>f_present := 0\<rparr>) (fds s1)" "esp s2 = esp s1"
    using map_file_eq [OF get_file_frame [OF f assms(1)]] by blast
  then show ?thesis using fin f by (auto simp: finish_close_def fd_frame_def split: if_splits)
qed

end

interpretation null_drv: file_driver null_open null_close null_read null_write
  by unfold_locales (auto simp: null_open_def null_close_def null_read_def null_write_def)

interpretation stdin_drv: file_driver terminal_open terminal_close terminal_read null_write
  by unfold_locales (auto simp: terminal_open_def terminal_close_def null_write_def terminal_read_frame)

interpretation stdout_drv: file_driver terminal_open terminal_close null_read terminal_write
  by unfold_locales (auto simp: terminal_open_def terminal_close_def null_read_def terminal_write_frame)

interpretation file_drv: file_driver file_open file_close file_read file_write
  by unfold_locales
     (auto simp: file_open_def file_close_def file_read_def file_write_def bind_eq_Some_conv
       split: if_splits intro: read_data_to_frame)

interpretation dir_drv: file_driver dir_open dir_close dir_read dir_write
  by unfold_locales
     (auto simp: dir_open_def dir_close_def dir_write_def bind_eq_Some_conv split: if_splits intro: dir_read_frame)

interpretation rtc_drv: file_driver rtc_open rtc_close rtc_read rtc_write
  by unfold_locales
     (auto simp: rtc_open_def rtc_close_def rtc_write_def Let_def bind_eq_Some_conv split: if_splits
       intro: map_pcb_frame rtc_read_frame)

section \<open>The four calls over any table\<close>

lemma ops_open_frame: "ops_open ops n s = Some (r, s') \<Longrightarrow> fd_frame s s'"
  by (cases ops) (simp_all add: null_drv.open_frame stdin_drv.open_frame file_drv.open_frame
      dir_drv.open_frame rtc_drv.open_frame)

lemma ops_read_effect:
  "get_file i fd s = Some f \<Longrightarrow> quiet irqs \<Longrightarrow>
   do { rs \<leftarrow> ops_read ops irqs fd buf count s; finish_read i fd rs } = Some (r, s') \<Longrightarrow>
   esp s' = esp s \<and> fds s' = (if r = -1 then fds s else upd_fd i (unat fd) (advance r) (fds s))"
  by (cases ops) (simp_all only: ops_read.simps null_drv.read_effect stdin_drv.read_effect
      stdout_drv.read_effect file_drv.read_effect dir_drv.read_effect rtc_drv.read_effect)

lemma ops_write_effect:
  "get_file i fd s = Some f \<Longrightarrow>
   do { rs \<leftarrow> ops_write ops fd buf count s; finish_write i fd rs } = Some (r, s') \<Longrightarrow>
   esp s' = esp s \<and> fds s' = upd_fd i (unat fd) (advance r) (fds s)"
  by (cases ops) (simp_all only: ops_write.simps null_drv.write_effect stdin_drv.write_effect
      stdout_drv.write_effect file_drv.write_effect dir_drv.write_effect rtc_drv.write_effect)

lemma ops_close_effect:
  "get_file i fd s = Some f \<Longrightarrow>
   do { rs \<leftarrow> ops_close ops fd s; finish_close i fd rs } = Some (r, s') \<Longrightarrow>
   esp s' = esp s \<and> (r = 0 \<or> r = -1) \<and>
   fds s' = (if r = 0 then upd_fd i (unat fd) (\<lambda>f. f\<lparr>f_present := 0\<rparr>) (fds s) else fds s)"
  by (cases ops) (simp_all only: ops_close.simps null_drv.close_effect stdin_drv.close_effect
      stdout_drv.close_effect file_drv.close_effect dir_drv.close_effect rtc_drv.close_effect)

text \<open>The descriptors that \<^verbatim>\<open>open\<close> hands out can be closed.\<close>

lemma ops_close_returns:
  assumes "current s = Some i" "get_file i fd s = Some f" "ops \<in> set file_ops_map"
  shows "\<exists>s1. ops_close ops fd s = Some (0, s1) \<and> fd_frame s s1"
proof -
  have "i < length (pcbs s)" using assms(2) by (simp add: get_file_iff fds_def)
  then obtain s1 where s1: "map_pcb i (\<lambda>p. p\<lparr>p_rtc := 0\<rparr>) s = Some s1"
    by (auto simp: map_pcb_def get_pcb_def nth_opt_Some)
  have "fd_frame s s1" by (rule map_pcb_frame [OF s1]) simp
  then show ?thesis using assms(1,3) s1
    by (auto simp: file_ops_map_def file_close_def dir_close_def rtc_close_def)
qed

lemma find_lowest:
  assumes "List.find P [m..<n] = Some i"
  shows "m \<le> i \<and> i < n \<and> P i \<and> (\<forall>j. m \<le> j \<and> j < i \<longrightarrow> \<not> P j)"
proof -
  from assms obtain k where k: "k < n - m" "P (m + k)" "i = m + k" "\<And>j. j < k \<Longrightarrow> \<not> P (m + j)"
    by (auto simp: find_Some_iff)
  have "\<not> P j" if "m \<le> j" "j < i" for j using k(3) k(4) [of "j - m"] that by simp
  then show ?thesis using k by simp
qed

lemma unat_small_fd: "j < 8 \<Longrightarrow> unat (of_nat j :: u32) = j"
  by (simp add: unat_of_nat)

lemma good_fd: "2 \<le> j \<Longrightarrow> j < 8 \<Longrightarrow> \<not> bad_fd 2 (of_nat j)"
  by (drule (1) conjI, subgoal_tac "j = 2 \<or> j = 3 \<or> j = 4 \<or> j = 5 \<or> j = 6 \<or> j = 7")
     (auto simp: bad_fd_def)

lemma open_at_cases:
  assumes "open_at c i fname s = Some (fd, s')" "fd \<noteq> -1"
  shows "\<exists>den :: dentry_t. \<exists>ops r s1. nth_opt file_ops_map (unat (file_type den)) = Some ops \<and>
    ops_open ops fname s = Some (r, s1) \<and> map_file c (of_nat i) (set_up_file ops (inode_num den)) s1 = Some s' \<and>
    fd = of_nat i"
  using assms unfolding open_at_def
  by (clarsimp simp: bind_eq_Some_conv simp del: nth_opt_eq_Some split: if_splits) blast

lemma sys_open_cases:
  assumes "sys_open fname s = Some (fd, s')" "fd \<noteq> -1"
  shows "\<exists>c p i. current s = Some c \<and> get_pcb c s = Some p \<and> free_fd (p_files p) = Some (Some i) \<and>
    open_at c i fname s = Some (fd, s')"
  using assms unfolding sys_open_def bind_eq_Some_conv by (auto split: option.splits)

lemma sys_open_effect:
  assumes "current s = Some c" "sys_open fname s = Some (fd, s')" "fd \<noteq> -1"
  shows "\<exists>i ops inode. fd = of_nat i \<and> 2 \<le> i \<and> i < 8 \<and> c < length (fds s) \<and> 8 \<le> length (fds s ! c) \<and>
    f_present (fds s ! c ! i) = 0 \<and> (\<forall>j. 2 \<le> j \<and> j < i \<longrightarrow> f_present (fds s ! c ! j) \<noteq> 0) \<and>
    ops \<in> set file_ops_map \<and> fds s' = upd_fd c i (set_up_file ops inode) (fds s) \<and> esp s' = esp s"
proof -
  from sys_open_cases [OF assms(2,3)] assms(1) obtain p i where
    p: "get_pcb c s = Some p" "free_fd (p_files p) = Some (Some i)" and at: "open_at c i fname s = Some (fd, s')"
    by auto
  from open_at_cases [OF at assms(3)] obtain den :: dentry_t and ops r s1 where
    ops: "nth_opt file_ops_map (unat (file_type den)) = Some ops" and
    o: "ops_open ops fname s = Some (r, s1)" and
    m: "map_file c (of_nat i) (set_up_file ops (inode_num den)) s1 = Some s'" and fd: "fd = of_nat i" by blast
  have c: "c < length (fds s)" "p_files p = fds s ! c" using p(1) by (auto simp: get_pcb_def fds_def)
  have i: "8 \<le> length (fds s ! c)" "List.find (\<lambda>i. f_present (take 8 (fds s ! c) ! i) = 0) [2..<8] = Some i"
    using p(2) c(2) unfolding free_fd_def bind_eq_Some_conv by auto
  have f: "fd_frame s s1" by (rule ops_open_frame [OF o])
  have low: "2 \<le> i" "i < 8" "f_present (fds s ! c ! i) = 0" "\<And>j. 2 \<le> j \<Longrightarrow> j < i \<Longrightarrow> f_present (fds s ! c ! j) \<noteq> 0"
    using find_lowest [OF i(2)] by auto
  then have i8: "unat (of_nat i :: u32) = i" using unat_small_fd by blast
  have "get_file c (of_nat i) s1 = Some (fds s ! c ! i)"
    using c i low f i8 by (auto simp: get_file_iff fd_frame_def)
  from map_file_eq [OF this, of "set_up_file ops (inode_num den)"] m
  have "fds s' = upd_fd c i (set_up_file ops (inode_num den)) (fds s)" "esp s' = esp s"
    using f i8 by (auto simp: fd_frame_def)
  moreover have "ops \<in> set file_ops_map" using ops by auto
  ultimately show ?thesis using fd low c i(1) by blast
qed

section \<open>Storing bytes in a buffer that is mapped contiguously\<close>

definition mapped :: "kstate \<Rightarrow> u32 \<Rightarrow> nat \<Rightarrow> u32 \<Rightarrow> bool" where
  "mapped s a n b \<longleftrightarrow> (\<forall>k < n. translate (mmu s) (a + of_nat k) = Some (b + of_nat k))"

fun put_bytes :: "u32 \<Rightarrow> u8 list \<Rightarrow> mem \<Rightarrow> mem" where
  "put_bytes b [] m = m"
| "put_bytes b (x # xs) m = put_bytes (b + 1) xs (m(b := x))"

lemma put_bytes_at:
  "length bs < 2 ^ 32 \<Longrightarrow>
   put_bytes b bs m a = (if unat (a - b) < length bs then bs ! unat (a - b) else m a)"
proof (induction bs arbitrary: b m)
  case (Cons x xs)
  have d: "a - (b + 1) = (a - b) - 1" by simp
  show ?case
  proof (cases "a = b")
    case True
    then show ?thesis using Cons by (simp add: d unat_neg_one)
  next
    case False
    then have "unat (a - b) \<noteq> 0" by (simp add: unat_eq_0)
    then obtain k where k: "unat (a - b) = Suc k" by (cases "unat (a - b)") auto
    then have "unat (a - (b + 1)) = k" unfolding d by (simp add: unat_sub_wrap)
    then show ?thesis using Cons False k by simp
  qed
qed simp

lemma mapped_Suc: "mapped s a (Suc n) b \<Longrightarrow> translate (mmu s) a = Some b \<and> mapped s (a + 1) n (b + 1)"
proof -
  assume m: "mapped s a (Suc n) b"
  have "translate (mmu s) (a + 1 + of_nat k) = Some (b + 1 + of_nat k)" if "k < n" for k
    using m [unfolded mapped_def, rule_format, of "Suc k"] that by (simp add: add.assoc)
  then show ?thesis using m [unfolded mapped_def, rule_format, of 0] by (simp add: mapped_def)
qed

lemma copy_out_eq:
  "mapped s a (length bs) b \<Longrightarrow> copy_out a bs s = Some (s\<lparr>phys := put_bytes b bs (phys s)\<rparr>)"
proof (induction bs arbitrary: s a b)
  case (Cons x xs)
  have m: "translate (mmu s) a = Some b" "mapped s (a + 1) (length xs) (b + 1)"
    using mapped_Suc Cons.prems by auto
  then have "mapped (s\<lparr>phys := (phys s)(b := x)\<rparr>) (a + 1) (length xs) (b + 1)" by (simp add: mapped_def)
  from Cons.IH [OF this] show ?case using m by (simp add: vstore_def store_virtual_def del: fun_upd_apply)
qed simp

lemma sys_read_cases:
  assumes "current s = Some i" "sys_read irqs fd buf count s = Some (r, s')"
  shows "esp s' = esp s \<and> fds s' = (if r = -1 then fds s else upd_fd i (unat fd) (advance r) (fds s)) \<or>
    (\<exists>f. get_file i fd s = Some f \<and>
      do { rs \<leftarrow> ops_read (f_ops f) irqs fd buf count s; finish_read i fd rs } = Some (r, s'))"
  using assms(2) unfolding sys_read_def assms(1) bind.bind_lunit
  by (cases "bad_fd 0 fd"; cases "get_file i fd s") (simp_all split: if_splits)

lemma copy_in_mapped: "mapped s a n b \<Longrightarrow> copy_in a n s = map (\<lambda>k. phys s (b + of_nat k)) [0..<n]"
proof (induction n arbitrary: a b)
  case (Suc n)
  have "vload a s = Some (phys s b)" using mapped_Suc [OF Suc.prems] by (simp add: vload_def load_virtual_def)
  moreover have "copy_in (a + 1) n s = map (\<lambda>k. phys s (b + 1 + of_nat k)) [0..<n]"
    using mapped_Suc [OF Suc.prems] Suc.IH by blast
  moreover have "map (\<lambda>k. phys s (b + of_nat k)) [0..<Suc n] = phys s b # map (\<lambda>k. phys s (b + 1 + of_nat k)) [0..<n]"
    by (simp add: upt_conv_Cons map_Suc_upt [symmetric] add.assoc del: upt_Suc)
  ultimately show ?case by simp
qed simp

text \<open>What was stored in a buffer is what is read from it.\<close>

lemma copy_in_put_bytes:
  assumes "mapped s a (length bs) b" "phys s = put_bytes b bs m" "length bs < 2 ^ 32"
  shows "copy_in a (length bs) s = bs"
  unfolding copy_in_mapped [OF assms(1)] assms(2)
  by (rule nth_equalityI) (use assms(3) in \<open>simp_all add: put_bytes_at unat_of_nat\<close>)

section \<open>Properties\<close>

text \<open>The case of \<^verbatim>\<open>read\<close> on any descriptor, whatever its table, returns -1 and leaves every descriptor of
  every process as it was, or returns the number of bytes read and moves only the position of its own
  descriptor, by that number; the interrupts that occur while it waits are assumed to leave descriptors
  alone.\<close>

theorem sys_read_effect:
  assumes "current s = Some i" "quiet irqs" "sys_read irqs fd buf count s = Some (r, s')"
  shows "current s' = Some i \<and>
    fds s' = (if r = -1 then fds s else upd_fd i (unat fd) (advance r) (fds s))"
proof -
  have "esp s' = esp s \<and> fds s' = (if r = -1 then fds s else upd_fd i (unat fd) (advance r) (fds s))"
    using sys_read_cases [OF assms(1,3)] ops_read_effect [OF _ assms(2)] by blast
  then show ?thesis using assms(1) by (simp add: current_def get_current_pcb_def)
qed

lemma fds_sample: "fds sample_state = replicate 6 (p_files (sample_pcb 0))"
  by (simp add: fds_def sample_state_def sample_pcb_def upt_conv_Cons eval_nat_numeral)

theorem sys_read_effect_witness:
  "sys_read [] 1 0x500000 4 sample_state = Some (-1, sample_state) \<and> fds sample_state = fds sample_state"
proof -
  have f: "get_file 0 1 sample_state = Some (sample_file\<lparr>f_ops := stdout_ops, f_present := 1\<rparr>)"
    by (simp add: get_file_iff fds_sample sample_pcb_def)
  have "sys_read [] 1 0x500000 4 sample_state = Some (-1, sample_state)"
    using f by (simp add: sys_read_def current_sample bad_fd_def null_read_def finish_read_def)
  with sys_read_effect [OF current_sample _ this] show ?thesis by (simp add: quiet_def)
qed

text \<open>The case of \<^verbatim>\<open>write\<close> on an open descriptor moves its position by what the operation returned even when
  that is the error -1: a failed write moves the position one byte back, because the result is tested as
  an unsigned number.\<close>

theorem sys_write_effect:
  assumes "current s = Some i" "\<not> bad_fd 0 fd" "get_file i fd s = Some f" "f_present f \<noteq> 0"
    and "sys_write fd buf count s = Some (r, s')"
  shows "current s' = Some i \<and> fds s' = upd_fd i (unat fd) (\<lambda>f. f\<lparr>f_pos := f_pos f + r\<rparr>) (fds s)"
proof -
  have "esp s' = esp s \<and> fds s' = upd_fd i (unat fd) (advance r) (fds s)"
    using assms(1,2,4,5) ops_write_effect [OF assms(3)] by (auto simp: sys_write_def assms(3))
  then show ?thesis using assms(1) by (simp add: current_def get_current_pcb_def advance_def [abs_def])
qed

theorem sys_write_effect_witness:
  "\<exists>s'. sys_write 0 0x500000 4 sample_state = Some (-1, s') \<and> f_pos (fds s' ! 0 ! 0) = -1"
proof -
  let ?f = "sample_file\<lparr>f_ops := stdin_ops, f_present := 1\<rparr>"
  have f: "get_file 0 0 sample_state = Some ?f"
    by (simp add: get_file_iff fds_sample sample_pcb_def)
  from map_file_eq [OF f, of "advance (-1)"] obtain s' where
    "map_file 0 0 (advance (-1)) sample_state = Some s'" by blast
  then have w: "sys_write 0 0x500000 4 sample_state = Some (-1, s')"
    using f by (simp add: sys_write_def current_sample bad_fd_def null_write_def finish_write_def)
  have "fds s' = upd_fd 0 0 (\<lambda>f. f\<lparr>f_pos := f_pos f + -1\<rparr>) (fds sample_state)"
    using sys_write_effect [OF current_sample _ f _ w] by (simp add: bad_fd_def)
  then have "f_pos (fds s' ! 0 ! 0) = -1"
    by (simp add: upd_fd_def fds_sample sample_pcb_def sample_file_def)
  then show ?thesis using w by blast
qed


lemma current_sample_process: "current (sample_state\<lparr>disk := fs\<rparr>) = Some 0"
  using current_sample by (simp add: current_def get_current_pcb_def)

lemma sample_lookup:
  "read_dentry_by_name sample_fs (Some [97, 98]) = Some (1, Some (sample_dentry [97, 98] 2 1))"
proof -
  have "first_index [97, 98] (dir_names sample_fs) = 1" by (simp add: dir_names_sample)
  then show ?thesis
    using read_dentry_by_name_eq [OF wf_sample, of "[97, 98]"] by (simp add: dir_names_sample) (simp add: sample_fs_def)
qed

lemma sample_free_fd: "free_fd (p_files (sample_pcb 0)) = Some (Some 2)"
  by (simp add: free_fd_def sample_pcb_def sample_file_def upt_rec eval_nat_numeral slice_opt_def)

lemma sample_open: "\<exists>s1. sys_open (Some [97, 98]) sample_state = Some (2, s1)"
proof -
  have d: "disk sample_state = sample_fs" by (simp add: sample_state_def)
  have "get_pcb 0 sample_state = Some (sample_pcb 0)"
    by (simp add: get_pcb_def sample_state_def upt_conv_Cons)
  moreover have "get_file 0 2 sample_state = Some sample_file"
    by (simp add: get_file_iff fds_sample sample_pcb_def)
  from map_file_eq [OF this] obtain s1 where "map_file 0 2 (set_up_file file_ops 1) sample_state = Some s1" by blast
  ultimately show ?thesis
    by (simp add: sys_open_def open_at_def current_sample sample_free_fd d sample_lookup file_open_def
        sample_dentry_def file_ops_map_def nth_opt_Some)
qed


text \<open>C3: \<^verbatim>\<open>read\<close> on a descriptor of a regular file stores in the buffer the bytes of the file from
  the position of the descriptor on, at most the number asked for, returns how many, and advances the
  position by that number; no other byte of the physical memory, no other descriptor and nothing of
  the file system changes.\<close>

theorem read_file_delivers:
  assumes "current s = Some i" "\<not> bad_fd 0 fd" "get_file i fd s = Some f" "f_present f \<noteq> 0" "f_ops f = file_ops"
    and "wf_fs (disk s)" "f_inode f < inode_count (boot_block (disk s))" "buf \<noteq> 0" "count \<noteq> 0"
    and "mapped s buf (unat count) b"
  shows "let bytes = take (unat count) (drop (unat (f_pos f)) (file_content (disk s) (f_inode f)))
    in \<exists>s'. sys_read irqs fd buf count s = Some (of_nat (length bytes), s') \<and> disk s' = disk s \<and>
      phys s' = put_bytes b bytes (phys s) \<and>
      fds s' = upd_fd i (unat fd) (advance (of_nat (length bytes))) (fds s)"
proof -
  let ?bs = "take (unat count) (drop (unat (f_pos f)) (file_content (disk s) (f_inode f)))"
  let ?s1 = "s\<lparr>phys := put_bytes b ?bs (phys s)\<rparr>"
  have "mapped s buf (length ?bs) b" using assms(10) by (simp add: mapped_def)
  then have "file_read irqs fd buf count s = Some (of_nat (length ?bs), ?s1)"
    using assms(1,3) read_data_slice [OF assms(6-9), of "f_pos f"] copy_out_eq
    by (simp add: file_read_def read_data_to_def Let_def)
  moreover have "length ?bs < 2 ^ 31"
    using length_file_content [OF assms(6,7)] file_size_bound [OF assms(6,7)] by simp
  then have "sint (of_nat (length ?bs) :: i32) \<ge> 0" by (simp add: sint_small)
  moreover have "fd_frame s ?s1" by simp
  then have g: "get_file i fd ?s1 = Some f" using assms(3) get_file_frame by blast
  from map_file_eq [OF this] obtain s2 where
    "map_file i fd (advance (of_nat (length ?bs))) ?s1 = Some s2" "disk s2 = disk s" "phys s2 = phys ?s1"
    "fds s2 = upd_fd i (unat fd) (advance (of_nat (length ?bs))) (fds ?s1)" by auto
  moreover have "fds ?s1 = fds s" by (simp add: fds_def)
  ultimately show ?thesis
    using assms(1-5) by (auto simp: Let_def sys_read_def finish_read_def)
qed

definition reader_state :: kstate where
  "reader_state = sample_state\<lparr>pcbs := (pcbs sample_state)[0 := (sample_pcb 0)\<lparr>p_files :=
     (p_files (sample_pcb 0))[2 := set_up_file file_ops 2 sample_file]\<rparr>]\<rparr>"

lemma sample_buffer: "mmu s = paging_init sample_layout \<Longrightarrow> mapped s 0x500000 4 0x500000"
proof -
  have "drop_bit 22 (0x500000 + of_nat k :: u32) = 1" if "k < 4" for k
  proof -
    from that have "k = 0 \<or> k = 1 \<or> k = 2 \<or> k = 3" by auto
    then show ?thesis by (elim disjE) simp_all
  qed
  then show "mmu s = paging_init sample_layout \<Longrightarrow> mapped s 0x500000 4 0x500000"
    by (simp add: mapped_def paging_init_translate [OF wf_sample_layout])
qed

theorem read_file_delivers_witness:
  "\<exists>s'. sys_read [] 2 0x500000 4 reader_state = Some (3, s') \<and> phys s' 0x500002 = 3 \<and> phys s' 0x500003 = 0 \<and>
     f_pos (fds s' ! 0 ! 2) = 3"
proof -
  have c: "current reader_state = Some 0"
    using current_sample by (simp add: current_def get_current_pcb_def reader_state_def)
  have p: "length (pcbs sample_state) = 6" by (simp add: sample_state_def)
  have g: "get_file 0 2 reader_state = Some (set_up_file file_ops 2 sample_file)"
    using p by (simp add: get_file_iff fds_def reader_state_def sample_pcb_def)
  have d: "disk reader_state = sample_fs" by (simp add: reader_state_def sample_state_def)
  have m: "mapped reader_state 0x500000 4 0x500000"
    by (rule sample_buffer) (simp add: reader_state_def sample_state_def)
  have "file_content sample_fs 2 = [3, 3, 3]"
    by (simp add: file_content_def file_bytes_def used_blocks_def sample_fs_def sample_inode_def replicate_3)
  then obtain s' where s': "sys_read [] 2 0x500000 4 reader_state = Some (3, s')"
    "phys s' = put_bytes 0x500000 [3, 3, 3] (phys reader_state)" "fds s' = upd_fd 0 2 (advance 3) (fds reader_state)"
    using read_file_delivers [OF c _ g, of "0x500000" 4 "0x500000" "[]"] m d wf_sample
    by (auto simp: bad_fd_def set_up_file_def Let_def sample_fs_def)
  have "fds reader_state ! 0 ! 2 = set_up_file file_ops 2 sample_file" "0 < length (fds reader_state)"
    "2 < length (fds reader_state ! 0)" using g by (simp_all add: get_file_iff)
  then have "f_pos (fds s' ! 0 ! 2) = 3" using s'(3) by (simp add: upd_fd_def advance_def set_up_file_def)
  then show ?thesis using s'(1,2) by (simp add: reader_state_def sample_state_def)
qed

end
