(* ===== verification/Rtc.thy ===== *)
theory Rtc imports Descriptors begin

text \<open>
  The real-time clock of \<^verbatim>\<open>src/student-distrib/rtc.c\<close>: its initialisation and the interrupt
  handler, which counts the clock down for each process that has it open. With the operations of
  theory \<open>Drivers\<close> this gives each process a clock of its own rate.
\<close>

abbreviation RTC_COMMAND :: u16 where "RTC_COMMAND \<equiv> 0x70"
abbreviation RTC_DATA :: u16 where "RTC_DATA \<equiv> 0x71"
abbreviation RTC_REG_A :: u32 where "RTC_REG_A \<equiv> 0x0A"
abbreviation RTC_REG_B :: u32 where "RTC_REG_B \<equiv> 0x0B"
abbreviation RTC_REG_C :: u32 where "RTC_REG_C \<equiv> 0x0C"
abbreviation RTC_DISABLE_NMI :: u32 where "RTC_DISABLE_NMI \<equiv> 0x80"
abbreviation RTC_IRQ :: u32 where "RTC_IRQ \<equiv> 8"
abbreviation RTC_MIN_RATE :: u32 where "RTC_MIN_RATE \<equiv> 6"

section \<open>Initialisation\<close>

definition rtc_set_rate :: "u32 \<Rightarrow> kstate \<Rightarrow> kstate" where
  "rtc_set_rate rate s =
     (if rate < 2 \<or> rate > 15 then s
      else
        let s = s\<lparr>iflag := False\<rparr>;
            io = outb (RTC_DISABLE_NMI OR RTC_REG_A) RTC_COMMAND (ports s);
            (a, io) = inb RTC_DATA io;
            io = outb (RTC_DISABLE_NMI OR RTC_REG_A) RTC_COMMAND io;
            io = outb ((a AND 0xF0) OR rate) RTC_DATA io
        in s\<lparr>ports := io, iflag := True\<rparr>)"

definition rtc_init :: "kstate \<Rightarrow> kstate" where
  "rtc_init s =
     (let s = s\<lparr>iflag := False\<rparr>;
          io = outb (RTC_DISABLE_NMI OR RTC_REG_B) RTC_COMMAND (ports s);
          (b, io) = inb RTC_DATA io;
          io = outb (RTC_DISABLE_NMI OR RTC_REG_B) RTC_COMMAND io;
          io = outb (b OR 0x40) RTC_DATA io;
          (p, io) = enable_irq RTC_IRQ (pics s, io);
          s = s\<lparr>pics := p, ports := io, iflag := True\<rparr>
      in rtc_set_rate RTC_MIN_RATE s)"

section \<open>The interrupt handler\<close>

definition rtc_tick :: "nat \<Rightarrow> kstate \<Rightarrow> kstate option" where
  "rtc_tick pid s = do {
     p \<leftarrow> get_pcb pid s;
     if p_present p \<noteq> 0 \<and> p_rtc p \<noteq> 0 \<and> p_rtc_fired p = 0 then
       if p_rtc_curr p \<le> 1 then map_pcb pid (\<lambda>p. p\<lparr>p_rtc_fired := p_rtc_fired p + 1\<rparr>) s
       else map_pcb pid (\<lambda>p. p\<lparr>p_rtc_curr := p_rtc_curr p - 1\<rparr>) s
     else Some s
   }"

definition rtc_handler :: irq where
  "rtc_handler s = do {
     let s = s\<lparr>ports := snd (inb RTC_DATA (outb RTC_REG_C RTC_COMMAND (ports s)))\<rparr>;
     s \<leftarrow> for_opt rtc_tick [3..<6] s;
     Some (s\<lparr>ports := send_eoi RTC_IRQ (ports s)\<rparr>)
   }"

section \<open>What a tick does to one process\<close>

definition ticked :: "pcb_t \<Rightarrow> pcb_t" where
  "ticked p =
     (if p_present p \<noteq> 0 \<and> p_rtc p \<noteq> 0 \<and> p_rtc_fired p = 0
      then if p_rtc_curr p \<le> 1 then p\<lparr>p_rtc_fired := p_rtc_fired p + 1\<rparr>
           else p\<lparr>p_rtc_curr := p_rtc_curr p - 1\<rparr>
      else p)"

lemma rtc_tick_eq:
  assumes "pid < length (pcbs s)"
  shows "rtc_tick pid s = Some (s\<lparr>pcbs := (pcbs s)[pid := ticked (pcbs s ! pid)]\<rparr>)"
  using assms by (simp add: rtc_tick_def ticked_def get_pcb_def map_pcb_def nth_opt_Some)

lemma rtc_handler_eq:
  assumes "length (pcbs s) = MAX_PROCESS"
  shows "\<exists>io. rtc_handler s =
    Some (s\<lparr>pcbs := take 3 (pcbs s) @ map ticked (drop 3 (pcbs s)), ports := io\<rparr>)"
proof -
  have u: "[3..<6] = [3, 4, 5 :: nat]" by (simp add: upt_rec)
  have l: "(pcbs s)[3 := ticked (pcbs s ! 3), 4 := ticked (pcbs s ! 4), 5 := ticked (pcbs s ! 5)]
    = take 3 (pcbs s) @ map ticked (drop 3 (pcbs s))"
  proof (rule nth_equalityI)
    fix i assume "i < length ((pcbs s)[3 := ticked (pcbs s ! 3), 4 := ticked (pcbs s ! 4), 5 := ticked (pcbs s ! 5)])"
    then have "i = 0 \<or> i = 1 \<or> i = 2 \<or> i = 3 \<or> i = 4 \<or> i = 5" using assms by auto
    then show "(pcbs s)[3 := ticked (pcbs s ! 3), 4 := ticked (pcbs s ! 4), 5 := ticked (pcbs s ! 5)] ! i
        = (take 3 (pcbs s) @ map ticked (drop 3 (pcbs s))) ! i"
      using assms by (elim disjE) (simp_all add: nth_append)
  qed (use assms in simp)
  show ?thesis
    using assms l by (simp add: rtc_handler_def u rtc_tick_eq del: take_Suc_Cons) blast
qed

text \<open>The clock of process \<open>i\<close> is open and has not fired: \<open>c\<close> is what is left of its period.\<close>

definition counting :: "nat \<Rightarrow> u32 \<Rightarrow> u32 \<Rightarrow> kstate \<Rightarrow> bool" where
  "counting i c rate s \<longleftrightarrow> 3 \<le> i \<and> i < MAX_PROCESS \<and> length (pcbs s) = MAX_PROCESS \<and>
     (let p = pcbs s ! i in p_present p \<noteq> 0 \<and> p_rtc p \<noteq> 0 \<and> p_rtc_fired p = 0 \<and> p_rtc_curr p = c \<and> p_rtc_rate p = rate)"

lemma handler_at:
  assumes "counting i c rate s"
  shows "\<exists>s'. rtc_handler s = Some s' \<and> length (pcbs s') = MAX_PROCESS \<and> esp s' = esp s \<and>
    pcbs s' ! i = ticked (pcbs s ! i)"
proof -
  from assms have "length (pcbs s) = MAX_PROCESS" "3 \<le> i" "i < MAX_PROCESS" by (simp_all add: counting_def)
  then show ?thesis using rtc_handler_eq [of s] by (auto simp: nth_append)
qed

lemma counting_tick:
  assumes "counting i c rate s" "1 < c"
  shows "\<exists>s'. rtc_handler s = Some s' \<and> esp s' = esp s \<and> counting i (c - 1) rate s'"
  using handler_at [OF assms(1)] assms by (auto simp: counting_def ticked_def Let_def)

section \<open>How long a read waits\<close>

lemma rtc_wait_fired:
  assumes "i < length (pcbs s)" "p_rtc (pcbs s ! i) \<noteq> 0" "p_rtc_fired (pcbs s ! i) = 1"
  shows "rtc_wait irqs i s = Some (0, s\<lparr>pcbs := (pcbs s)[i := (pcbs s ! i)\<lparr>p_rtc_fired := 0,
    p_rtc_curr := p_rtc_rate (pcbs s ! i)\<rparr>]\<rparr>)"
  using assms by (subst rtc_wait.simps) (simp add: get_pcb_def map_pcb_def nth_opt_Some)

lemma rtc_wait_step:
  assumes "counting i c rate s"
  shows "rtc_wait irqs i s = (case irqs of [] \<Rightarrow> None | h # irqs \<Rightarrow> do { s \<leftarrow> h s; rtc_wait irqs i s })"
  using assms by (subst rtc_wait.simps) (simp add: counting_def Let_def get_pcb_def nth_opt_Some)

lemma rtc_wait_period:
  assumes "counting i c rate s"
  shows "if n < max 1 (unat c) then rtc_wait (replicate n rtc_handler) i s = None
    else \<exists>s'. rtc_wait (replicate n rtc_handler) i s = Some (0, s') \<and> esp s' = esp s \<and> counting i rate rate s'"
  using assms
proof (induction "unat c" arbitrary: c n s rule: less_induct)
  case less
  show ?case
  proof (cases n)
    case 0
    then show ?thesis using rtc_wait_step [OF less.prems] by simp
  next
    case (Suc m)
    show ?thesis
    proof (cases "1 < c")
      case True
      have c: "unat (c - 1) = unat c - 1" "1 < unat c"
        using True by (simp_all add: unat_sub_wrap word_less_nat_alt)
      from counting_tick [OF less.prems True] obtain s1 where
        s1: "rtc_handler s = Some s1" "esp s1 = esp s" "counting i (c - 1) rate s1" by blast
      have "unat (c - 1) < unat c" using c by simp
      from less.hyps [OF this s1(3), of m] show ?thesis
        using Suc c s1(1,2) rtc_wait_step [OF less.prems, of "replicate n rtc_handler"]
        by (auto simp: max_def split: if_splits)
    next
      case False
      then have c: "unat c \<le> 1" "c \<le> 1" by (simp_all add: word_less_nat_alt word_le_nat_alt)
      from handler_at [OF less.prems] obtain s1 where
        s1: "rtc_handler s = Some s1" "length (pcbs s1) = MAX_PROCESS" "esp s1 = esp s"
          "pcbs s1 ! i = ticked (pcbs s ! i)" by blast
      have i: "i < length (pcbs s1)" "3 \<le> i" using less.prems s1(2) by (simp_all add: counting_def)
      have t: "pcbs s1 ! i = (pcbs s ! i)\<lparr>p_rtc_fired := 1\<rparr>" "p_rtc (pcbs s ! i) \<noteq> 0"
        "p_present (pcbs s ! i) \<noteq> 0" "p_rtc_rate (pcbs s ! i) = rate"
        using less.prems c(2) s1(4) by (auto simp: counting_def ticked_def Let_def)
      have "rtc_wait (replicate n rtc_handler) i s = rtc_wait (replicate m rtc_handler) i s1"
        using Suc s1(1) rtc_wait_step [OF less.prems, of "replicate n rtc_handler"] by simp
      also have "\<dots> = Some (0, s1\<lparr>pcbs := (pcbs s1)[i := (pcbs s1 ! i)\<lparr>p_rtc_fired := 0,
          p_rtc_curr := p_rtc_rate (pcbs s1 ! i)\<rparr>]\<rparr>)"
        by (rule rtc_wait_fired) (use i t in simp_all)
      finally show ?thesis using Suc c(1) i s1(2,3) t
        by (simp add: counting_def Let_def)
    qed
  qed
qed

lemma rtc_read_start:
  assumes "current s = Some i" "3 \<le> i" "length (pcbs s) = MAX_PROCESS"
    and "p_present (pcbs s ! i) \<noteq> 0" "p_rtc (pcbs s ! i) \<noteq> 0"
  shows "\<exists>s1. rtc_read irqs fd buf cnt s = rtc_wait irqs i s1 \<and> esp s1 = esp s \<and>
    counting i (p_rtc_curr (pcbs s ! i)) (p_rtc_rate (pcbs s ! i)) s1"
proof -
  have "i < MAX_PROCESS" using assms(1) pcb_index_less by (auto simp: current_def)
  then show ?thesis using assms
    by (intro exI [of _ "s\<lparr>pcbs := (pcbs s)[i := (pcbs s ! i)\<lparr>p_rtc_fired := 0\<rparr>]\<rparr>"])
       (simp add: rtc_read_def map_pcb_def get_pcb_def nth_opt_Some counting_def Let_def)
qed

section \<open>Powers of two\<close>

lemma and_pred_nat: "(n :: nat) AND (n - 1) = 0 \<longleftrightarrow> n = 0 \<or> (\<exists>k. n = 2 ^ k)"
proof (induction n rule: less_induct)
  case (less n)
  consider "n = 0" | m where "n = 2 * m" "0 < m" | m where "n = 2 * m + 1"
    by (metis oddE evenE gr0I mult_0_right)
  then show ?case
  proof cases
    case 2
    have e: "n - 1 = 2 * (m - 1) + 1" using 2 by simp
    have "n AND (n - 1) = 2 * (m AND (m - 1))"
      unfolding e by (subst and_nat_unfold) (use 2 in simp)
    then have "n AND (n - 1) = 0 \<longleftrightarrow> (\<exists>k. m = 2 ^ k)" using less.IH [of m] 2 by simp
    also have "\<dots> \<longleftrightarrow> (\<exists>k. n = 2 ^ k)"
    proof
      assume "\<exists>k. m = 2 ^ k"
      then obtain k where "m = 2 ^ k" ..
      then have "n = 2 ^ Suc k" using 2 by simp
      then show "\<exists>k. n = 2 ^ k" ..
    next
      assume "\<exists>k. n = 2 ^ k"
      then obtain k where k: "n = 2 ^ k" ..
      then show "\<exists>k. m = 2 ^ k" using 2 by (cases k) auto
    qed
    finally show ?thesis using 2 by simp
  next
    case 3
    have "n AND (n - 1) = 2 * m"
      using 3 by (subst and_nat_unfold) simp
    moreover have "(\<exists>k. n = 2 ^ k) \<longleftrightarrow> m = 0"
    proof
      assume "\<exists>k. n = 2 ^ k"
      then obtain k where "n = 2 ^ k" ..
      then show "m = 0" using 3 by (cases k) (auto, presburger)
    next
      assume "m = 0"
      then have "n = 2 ^ 0" using 3 by simp
      then show "\<exists>k. n = 2 ^ k" ..
    qed
    ultimately show ?thesis using 3 by simp
  qed simp
qed

lemma and_pred_word: "w \<noteq> 0 \<Longrightarrow> (w :: u32) AND (w - 1) = 0 \<longleftrightarrow> (\<exists>k. unat w = 2 ^ k)"
proof -
  assume w: "w \<noteq> 0"
  have "w AND (w - 1) = 0 \<longleftrightarrow> unat (w AND (w - 1)) = 0" by (simp add: unsigned_eq_0_iff)
  also have "unat (w AND (w - 1)) = unat w AND (unat w - 1)"
    using w by (simp add: unsigned_and_eq unat_sub_wrap unat_gt_0 Suc_le_eq)
  finally show ?thesis using and_pred_nat [of "unat w"] w by (simp add: unsigned_eq_0_iff)
qed

section \<open>Properties\<close>

text \<open>C29: for a process numbered 3 to 5 that has the clock open, \<^verbatim>\<open>rtc_read\<close> returns 0 after exactly as
  many clock interrupts as its counter says (one when it is 0), not before and not later, and leaves the
  counter at the rate of the process, so that successive reads return every \<open>rate\<close> interrupts.\<close>

theorem rtc_read_period:
  assumes "current s = Some i" "3 \<le> i" "length (pcbs s) = MAX_PROCESS"
    and "p_present (pcbs s ! i) \<noteq> 0" "p_rtc (pcbs s ! i) \<noteq> 0"
  shows "if n < max 1 (unat (p_rtc_curr (pcbs s ! i)))
    then rtc_read (replicate n rtc_handler) fd buf cnt s = None
    else \<exists>s'. rtc_read (replicate n rtc_handler) fd buf cnt s = Some (0, s') \<and> current s' = Some i \<and>
      counting i (p_rtc_rate (pcbs s ! i)) (p_rtc_rate (pcbs s ! i)) s'"
proof -
  from rtc_read_start [OF assms, of "replicate n rtc_handler" fd buf cnt] obtain s1 where
    s1: "rtc_read (replicate n rtc_handler) fd buf cnt s = rtc_wait (replicate n rtc_handler) i s1"
      "esp s1 = esp s" "counting i (p_rtc_curr (pcbs s ! i)) (p_rtc_rate (pcbs s ! i)) s1" by blast
  have "esp s' = esp s1 \<Longrightarrow> current s' = Some i" for s'
    using s1(2) assms(1) by (simp add: current_def get_current_pcb_def)
  then show ?thesis using rtc_wait_period [OF s1(3), of n] s1(1) by (auto split: if_splits)
qed

definition clock_pcb :: pcb_t where
  "clock_pcb = (sample_pcb 3)\<lparr>p_rtc := 1, p_rtc_curr := 2, p_rtc_rate := 4\<rparr>"

definition clock_state :: kstate where
  "clock_state = sample_state\<lparr>esp := 0x7F9F00, pcbs := (pcbs sample_state)[3 := clock_pcb],
     phys := put_bytes 0x500000 (le32 256) (\<lambda>a. 0)\<rparr>"

lemma clock_current: "current clock_state = Some 3"
  by (rule current_on_stack) (simp add: on_stack_of_def unat_pcb_addr clock_state_def)

lemma clock_pcbs: "length (pcbs clock_state) = MAX_PROCESS" "pcbs clock_state ! 3 = clock_pcb"
  by (simp_all add: clock_state_def sample_state_def)

theorem rtc_read_period_witness:
  "rtc_read [rtc_handler] 2 0 0 clock_state = None \<and>
   (\<exists>s'. rtc_read [rtc_handler, rtc_handler] 2 0 0 clock_state = Some (0, s') \<and> counting 3 4 4 s')"
proof -
  have p: "3 \<le> (3 :: nat)" "p_present (pcbs clock_state ! 3) \<noteq> 0" "p_rtc (pcbs clock_state ! 3) \<noteq> 0"
    "p_rtc_curr (pcbs clock_state ! 3) = 2" "p_rtc_rate (pcbs clock_state ! 3) = 4"
    by (simp_all add: clock_pcbs clock_pcb_def sample_pcb_def)
  note r = rtc_read_period [OF clock_current p(1) clock_pcbs(1) p(2,3), unfolded p(4,5)]
  have "replicate 1 h = [h]" "replicate 2 h = [h, h]" for h :: irq by (simp_all add: numeral_2_eq_2)
  then show ?thesis using r [of 1 2 0 0] r [of 2 2 0 0] by auto
qed

lemma freq_in_range: "(sint (w :: i32) < 2 \<or> sint w > 1024) \<longleftrightarrow> \<not> (2 \<le> unat w \<and> unat w \<le> 1024)"
proof (cases "0 \<le> sint w")
  case True
  then show ?thesis using unat_of_sint [OF True] by linarith
next
  case False
  have "\<not> unat w < 2 ^ 31"
  proof
    assume "unat w < 2 ^ 31"
    from sint_small [OF this] have "sint w = int (unat w)" by simp
    then show False using False by simp
  qed
  then show ?thesis using False by auto
qed

lemma sint_freq_bounds: "sint RTC_MIN_FREQ = 2" "sint RTC_MAX_FREQ = 1024"
  by simp_all

lemma power_range: "2 \<le> (2 :: nat) ^ k \<and> (2 :: nat) ^ k \<le> 1024 \<longleftrightarrow> 1 \<le> k \<and> k \<le> 10"
proof -
  have "(2 :: nat) ^ 1 \<le> 2 ^ k \<longleftrightarrow> 1 \<le> k" "(2 :: nat) ^ k \<le> 2 ^ 10 \<longleftrightarrow> k \<le> 10"
    by (simp_all only: power_increasing_iff one_less_numeral_iff semiring_norm)
  then show ?thesis by simp
qed

text \<open>On an open clock, \<^verbatim>\<open>rtc_write\<close> of four bytes accepts exactly the frequencies 2, 4, 8 up to 1024
  and sets the rate and the counter of the process to 1024 divided by the frequency; every other value is
  refused with -1 and changes nothing.\<close>

theorem rtc_write_spec:
  assumes "current s = Some i" "i < length (pcbs s)" "p_rtc (pcbs s ! i) \<noteq> 0"
    and "buf \<noteq> 0" "copy_in buf 4 s = le32 freq"
  shows "if \<exists>k. 1 \<le> k \<and> k \<le> 10 \<and> unat freq = 2 ^ k
    then unat (RTC_MAX_FREQ div freq) * unat freq = 1024 \<and>
      rtc_write fd buf 4 s = Some (0, s\<lparr>pcbs := (pcbs s)[i := (pcbs s ! i)
        \<lparr>p_rtc_rate := RTC_MAX_FREQ div freq, p_rtc_curr := RTC_MAX_FREQ div freq\<rparr>]\<rparr>)
    else rtc_write fd buf 4 s = Some (-1, s)"
proof -
  let ?bad = "sint freq < sint RTC_MIN_FREQ \<or> sint freq > sint RTC_MAX_FREQ \<or> freq AND (freq - 1) \<noteq> 0"
  let ?ok = "\<exists>k. 1 \<le> k \<and> k \<le> 10 \<and> unat freq = 2 ^ k"
  have bad: "?bad \<longleftrightarrow> \<not> ?ok"
  proof (cases "freq = 0")
    case False
    have "?bad \<longleftrightarrow> \<not> (2 \<le> unat freq \<and> unat freq \<le> 1024 \<and> (\<exists>k. unat freq = 2 ^ k))"
      unfolding sint_freq_bounds using freq_in_range [of freq] and_pred_word [OF False] by blast
    then show ?thesis using power_range by metis
  qed simp
  have w: "rtc_write fd buf 4 s = (if ?bad then Some (-1, s) else
      Some (0, s\<lparr>pcbs := (pcbs s)[i := (pcbs s ! i)
        \<lparr>p_rtc_rate := RTC_MAX_FREQ div freq, p_rtc_curr := RTC_MAX_FREQ div freq\<rparr>]\<rparr>))"
    using assms by (simp add: rtc_write_def slice_opt_def get_pcb_def map_pcb_def nth_opt_Some Let_def
        del: sint_numeral)
  have "unat (RTC_MAX_FREQ div freq) * unat freq = 1024" if ok: ?ok
  proof -
    from ok obtain k where k: "k \<le> 10" "unat freq = 2 ^ k" by blast
    have "(1024 :: nat) = 2 ^ (10 - k) * 2 ^ k" using k(1) by (simp add: power_add [symmetric])
    then have "(2 :: nat) ^ k dvd 1024" by (metis dvd_triv_right)
    then show ?thesis using k(2) by (simp add: unat_div)
  qed
  then show ?thesis using bad w by simp
qed

theorem rtc_write_spec_witness:
  "\<exists>s'. rtc_write 2 0x500000 4 clock_state = Some (0, s') \<and> p_rtc_rate (pcbs s' ! 3) = 4"
proof -
  have "copy_in 0x500000 4 clock_state = le32 256"
    using copy_in_put_bytes [of clock_state "0x500000" "le32 256" "0x500000"] sample_buffer [of clock_state]
    by (simp add: clock_state_def sample_state_def)
  moreover have "\<exists>k. 1 \<le> k \<and> k \<le> 10 \<and> unat (256 :: u32) = 2 ^ k" by (rule exI [of _ 8]) simp
  moreover have "3 < length (pcbs clock_state)" "p_rtc (pcbs clock_state ! 3) \<noteq> 0" "(RTC_MAX_FREQ div 256) = 4"
    using clock_pcbs by (simp_all add: clock_pcb_def)
  ultimately show ?thesis
    using rtc_write_spec [OF clock_current, of "0x500000" 256 2] by (auto simp del: One_nat_def)
qed

end
