(* ===== verification/Printf.thy ===== *)
theory Printf imports Console CString begin

text \<open>
  The formatted output of \<^verbatim>\<open>src/student-distrib/lib.c\<close>. The format is the byte string up to its
  terminator and the arguments are the 32-bit words above it on the stack. A conversion writes its
  number into a buffer of the stack frame with \<open>itoa\<close> and prints the buffer; what the buffer holds
  before is the parameter \<open>frame\<close>. The reference is \<open>render\<close>, the byte string a format and its
  arguments stand for.
\<close>

section \<open>The code\<close>

text \<open>The bytes that \<^verbatim>\<open>puts\<close> finds at an address of the frame.\<close>

definition frame_string :: "mem \<Rightarrow> u32 \<Rightarrow> u8 list option" where
  "frame_string m a = do { n \<leftarrow> strlen m a; Some (map (\<lambda>i. m (a + of_nat i)) [0..<unat n]) }"

definition puts_frame :: "mem \<Rightarrow> u32 \<Rightarrow> kstate \<Rightarrow> kstate option" where
  "puts_frame m a s = do { str \<leftarrow> frame_string m a; (_, s) \<leftarrow> puts str s; Some s }"

text \<open>\<^verbatim>\<open>puts\<close> on a string of the kernel's memory.\<close>

partial_function (option) puts_at :: "u32 \<Rightarrow> kstate \<Rightarrow> kstate option" where
  "puts_at a s = do {
     b \<leftarrow> vload a s;
     if b = 0 then Some s else do { s \<leftarrow> putc b s; puts_at (a + 1) s }
   }"

text \<open>\<^verbatim>\<open>conv_buf[i] = '0'\<close> from \<open>i\<close> to 7.\<close>

definition zero_pad :: "nat \<Rightarrow> mem \<Rightarrow> mem" where
  "zero_pad i m = fold (\<lambda>k m. m(of_nat k := 48)) [i..<8] m"

definition print_hex :: "mem \<Rightarrow> bool \<Rightarrow> u32 \<Rightarrow> kstate \<Rightarrow> kstate option" where
  "print_hex frame alternate v s =
     (if \<not> alternate then do { m \<leftarrow> itoa v 0 16 frame; puts_frame m 0 s }
      else do {
        m \<leftarrow> itoa v 8 16 frame;
        starting_index \<leftarrow> strlen m 8;
        puts_frame (zero_pad (unat starting_index) m) starting_index s
      })"

definition print_unsigned :: "mem \<Rightarrow> u32 \<Rightarrow> kstate \<Rightarrow> kstate option" where
  "print_unsigned frame v s = do { m \<leftarrow> itoa v 0 10 frame; puts_frame m 0 s }"

definition print_signed :: "mem \<Rightarrow> i32 \<Rightarrow> kstate \<Rightarrow> kstate option" where
  "print_signed frame v s =
     (if sint v < 0 then do { m \<leftarrow> itoa (- v) 1 10 (frame(0 := 45)); puts_frame m 0 s }
      else do { m \<leftarrow> itoa v 0 10 frame; puts_frame m 0 s })"

text \<open>From \<^verbatim>\<open>format_char_switch\<close> on: the format after the percent sign, the arguments left. At the
  terminator the code would go on behind the string.\<close>

fun format_char ::
    "mem \<Rightarrow> bool \<Rightarrow> u8 list \<Rightarrow> u32 list \<Rightarrow> kstate \<Rightarrow> (u8 list \<times> u32 list \<times> kstate) option" where
  "format_char frame alternate [] args s = None"
| "format_char frame alternate (c # buf) args s =
     (if c = 37 then do { s \<leftarrow> putc 37 s; Some (buf, args, s) }
      else if c = 35 then format_char frame True buf args s
      else if c = 120 then do { v \<leftarrow> nth_opt args 0; s \<leftarrow> print_hex frame alternate v s; Some (buf, tl args, s) }
      else if c = 117 then do { v \<leftarrow> nth_opt args 0; s \<leftarrow> print_unsigned frame v s; Some (buf, tl args, s) }
      else if c = 100 then do { v \<leftarrow> nth_opt args 0; s \<leftarrow> print_signed frame v s; Some (buf, tl args, s) }
      else if c = 99 then do { v \<leftarrow> nth_opt args 0; s \<leftarrow> putc (ucast v) s; Some (buf, tl args, s) }
      else if c = 115 then do { v \<leftarrow> nth_opt args 0; s \<leftarrow> puts_at v s; Some (buf, tl args, s) }
      else Some (buf, args, s))"

lemma format_char_shorter:
  "format_char frame alternate buf args s = Some (buf', args', s') \<Longrightarrow> length buf' < length buf"
  by (induction frame alternate buf args s rule: format_char.induct)
     (force simp: bind_eq_Some_conv split: if_splits)+

function printf_loop :: "mem \<Rightarrow> u8 list \<Rightarrow> u32 list \<Rightarrow> kstate \<Rightarrow> kstate option" where
  "printf_loop frame [] args s = Some s"
| "printf_loop frame (c # buf) args s =
     (if c = 37 then
        (case format_char frame False buf args s of
           None \<Rightarrow> None
         | Some (buf, args, s) \<Rightarrow> printf_loop frame buf args s)
      else do { s \<leftarrow> putc c s; printf_loop frame buf args s })"
  by pat_completeness auto
termination
  by (relation "measure (\<lambda>(frame, buf, args, s). length buf)") (auto dest!: format_char_shorter)

definition printf :: "mem \<Rightarrow> u8 list \<Rightarrow> u32 list \<Rightarrow> kstate \<Rightarrow> (i32 \<times> kstate) option" where
  "printf frame format args s = do {
     s \<leftarrow> printf_loop frame format args s;
     Some (of_nat (length format), s)
   }"

section \<open>The reference\<close>

definition render_hex :: "bool \<Rightarrow> u32 \<Rightarrow> u8 list" where
  "render_hex alternate v =
     (let ds = number_string 16 (unat v) in (if alternate then replicate (8 - length ds) 48 else []) @ ds)"

definition render_signed :: "i32 \<Rightarrow> u8 list" where
  "render_signed v =
     (if sint v < 0 then 45 # number_string 10 (nat (- sint v)) else number_string 10 (nat (sint v)))"

text \<open>A conversion: its output, and the rest of the format and arguments. \<open>strs\<close> gives the strings that the
  arguments of \<^verbatim>\<open>%s\<close> point to. There is no output at the end of the format, without an argument, and for a
  \<^verbatim>\<open>%s\<close> whose argument is not one of the strings.\<close>

fun render_char :: "(u32 \<Rightarrow> u8 list option) \<Rightarrow> bool \<Rightarrow> u8 list \<Rightarrow> u32 list \<Rightarrow> (u8 list \<times> u8 list \<times> u32 list) option" where
  "render_char strs alternate [] args = None"
| "render_char strs alternate (c # buf) args =
     (if c = 37 then Some ([37], buf, args)
      else if c = 35 then render_char strs True buf args
      else if c \<in> {120, 117, 100, 99} then
        (case args of [] \<Rightarrow> None | v # args \<Rightarrow>
           Some (if c = 120 then render_hex alternate v
                 else if c = 117 then number_string 10 (unat v)
                 else if c = 100 then render_signed v else [ucast v], buf, args))
      else if c = 115 then
        (case args of [] \<Rightarrow> None | v # args \<Rightarrow> map_option (\<lambda>str. (str, buf, args)) (strs v))
      else Some ([], buf, args))"

lemma render_char_shorter:
  "render_char strs alternate buf args = Some (out, buf', args') \<Longrightarrow> length buf' < length buf"
  by (induction strs alternate buf args rule: render_char.induct) (force split: if_splits list.splits)+

function render_with :: "(u32 \<Rightarrow> u8 list option) \<Rightarrow> u8 list \<Rightarrow> u32 list \<Rightarrow> u8 list option" where
  "render_with strs [] args = Some []"
| "render_with strs (c # buf) args =
     (if c = 37 then
        (case render_char strs False buf args of
           None \<Rightarrow> None
         | Some (out, buf, args) \<Rightarrow> map_option (append out) (render_with strs buf args))
      else map_option (Cons c) (render_with strs buf args))"
  by pat_completeness auto
termination
  by (relation "measure (\<lambda>(strs, buf, args). length buf)") (auto dest!: render_char_shorter)

text \<open>Formats without strings.\<close>

abbreviation render :: "u8 list \<Rightarrow> u32 list \<Rightarrow> u8 list option" where
  "render \<equiv> render_with (\<lambda>_. None)"

section \<open>The conversions print what the reference says\<close>

lemma frame_string_eq: "cstr_at m a xs \<Longrightarrow> frame_string m a = Some xs"
  using strlen_eq [of m a xs]
  by (auto simp: frame_string_def cstr_at_def unat_of_nat intro: nth_equalityI)

lemma puts_frame_eq: "cstr_at m a xs \<Longrightarrow> puts_frame m a s = for_opt putc xs s"
  by (cases "for_opt putc xs s") (simp_all add: puts_frame_def frame_string_eq puts_def)

lemma print_number:
  assumes "2 \<le> radix" "radix \<le> 36"
  shows "\<exists>m. itoa v buf radix frame = Some m \<and>
    cstr_at m buf (number_string (unat radix) (unat v)) \<and> (\<forall>a. 33 \<le> unat (a - buf) \<longrightarrow> m a = frame a)"
proof -
  have "2 \<le> unat radix" using assms by (simp add: word_le_nat_alt)
  then have "length (number_string (unat radix) (unat v)) \<le> 32"
    using length_digits_of [of "unat radix" "unat v" 32] unat_u32_less [of v] by (simp add: number_string_def)
  then show ?thesis using itoa_string [OF assms, of v buf frame] by force
qed

lemma print_unsigned_eq: "print_unsigned frame v s = for_opt putc (number_string 10 (unat v)) s"
  using print_number [of 10 v 0 frame] puts_frame_eq
  by (auto simp: print_unsigned_def word_le_nat_alt)

lemma print_signed_eq: "print_signed frame v s = for_opt putc (render_signed v) s"
proof (cases "sint v < 0")
  case True
  obtain m where m: "itoa (- v) 1 10 (frame(0 := 45)) = Some m"
    "cstr_at m 1 (number_string 10 (unat (- v)))" "\<forall>a. 33 \<le> unat (a - 1) \<longrightarrow> m a = (frame(0 := 45)) a"
    using print_number [of 10 "- v" 1 "frame(0 := 45)"] by (auto simp: word_le_nat_alt)
  have "33 \<le> unat (0 - 1 :: u32)" by (simp add: unat_neg_one)
  then have "m 0 = 45" using m(3) by (metis fun_upd_same)
  moreover have "length (number_string 10 (unat (- v))) \<le> 32"
    using length_digits_of [of 10 "unat (- v)" 32] unat_u32_less [of "- v"] by (simp add: number_string_def)
  moreover have "unat (- v) = nat (- sint v)" using unat_neg_sint [OF True] by linarith
  ultimately have "cstr_at m 0 (45 # number_string 10 (unat (- v)))"
    using m(2) by (simp add: cstr_at_Cons)
  then show ?thesis
    using True m(1) puts_frame_eq \<open>unat (- v) = nat (- sint v)\<close> by (simp add: print_signed_def render_signed_def)
next
  case False
  then have "int (unat v) = sint v" by (intro unat_of_sint) simp
  then have "unat v = nat (sint v)" by linarith
  then show ?thesis
    using False print_number [of 10 v 0 frame] puts_frame_eq
    by (auto simp: print_signed_def render_signed_def word_le_nat_alt)
qed

lemma unat_of_nat_small: "k < 2 ^ 32 \<Longrightarrow> unat (of_nat k :: u32) = k"
  by (simp add: unat_of_nat)

lemma eq_of_nat_iff: "k < 2 ^ 32 \<Longrightarrow> (a :: u32) = of_nat k \<longleftrightarrow> unat a = k"
  using unat_of_nat_small [of k] by (metis unsigned_word_eqI)

lemma zero_pad_at:
  "i \<le> 8 \<Longrightarrow> zero_pad i m a = (if i \<le> unat a \<and> unat a < 8 then 48 else m a)"
proof -
  have "fold (\<lambda>k m. m(of_nat k := 48)) [i..<i + n] m a = (if i \<le> unat a \<and> unat a < i + n then 48 else m a)"
    if "i + n \<le> 8" for n
    using that
  proof (induction n)
    case (Suc n)
    have "a = of_nat (i + n) \<longleftrightarrow> unat a = i + n"
      using Suc.prems by (intro eq_of_nat_iff) simp
    then show ?case using Suc by auto
  qed auto
  from this [of "8 - i"] show "i \<le> 8 \<Longrightarrow> ?thesis" by (simp add: zero_pad_def)
qed

lemma cstr_at_padded:
  assumes m: "cstr_at m 8 xs" and n: "n \<le> 8" and xs: "length xs \<le> 8"
  shows "cstr_at (zero_pad n m) (of_nat n) (replicate (8 - n) 48 @ xs)"
proof -
  have sum: "(of_nat n + of_nat i :: u32) = of_nat (n + i)" for i by simp
  have at: "zero_pad n m (of_nat (n + i)) = (replicate (8 - n) 48 @ xs @ [0]) ! i"
    if i: "i \<le> (8 - n) + length xs" for i
  proof -
    have u: "unat (of_nat (n + i) :: u32) = n + i"
      using i m n by (intro unat_of_nat_small) (auto simp: cstr_at_def)
    show ?thesis
    proof (cases "i < 8 - n")
      case True
      then have "n + i < 8" by linarith
      then show ?thesis using True n u by (simp add: zero_pad_at nth_append del: of_nat_add)
    next
      case False
      define j where "j = n + i - 8"
      have j: "n + i = 8 + j" "j \<le> length xs" "i = 8 - n + j"
        using i n False by (simp_all add: j_def)
      have "zero_pad n m (of_nat (n + i)) = m (8 + of_nat j)"
        using n u j by (simp add: zero_pad_at)
      also have "\<dots> = (xs @ [0]) ! j"
        using m j(2) by (auto simp: cstr_at_def nth_append)
      finally show ?thesis using j(3) by (simp add: nth_append)
    qed
  qed
  have "n + (8 - n + length xs) = 8 + length xs" using n by simp
  moreover have "\<not> 8 + length xs - n < 8 - n" by linarith
  ultimately have "zero_pad n m (of_nat (8 + length xs)) = 0"
    using at [of "8 - n + length xs"] n by (simp add: nth_append del: of_nat_add)
  then show ?thesis using m n xs at sum
    by (auto simp: cstr_at_def nth_append simp del: of_nat_add)
qed

lemma length_hex: "length (number_string 16 (unat (v :: u32))) \<le> 8"
proof (cases "unat v = 0")
  case False
  have "length (digits_of 16 n) \<le> k" if "n < 16 ^ k" for n k
    using that
  proof (induction k arbitrary: n)
    case (Suc k)
    show ?case
    proof (cases "n = 0")
      case False
      have "n div 16 < 16 ^ k" using Suc.prems by (simp add: less_mult_imp_div_less mult.commute)
      then show ?thesis using Suc.IH [of "n div 16"] False by (simp add: digits_of_pos)
    qed simp
  qed simp
  from this [of "unat v" 8] show ?thesis using unat_u32_less [of v] False by (simp add: number_string_def)
qed (simp add: number_string_def)

lemma print_hex_eq: "print_hex frame alternate v s = for_opt putc (render_hex alternate v) s"
proof (cases alternate)
  case True
  let ?ds = "number_string 16 (unat v)"
  obtain m where m: "itoa v 8 16 frame = Some m" "cstr_at m 8 ?ds"
    using print_number [of 16 v 8 frame] by (auto simp: word_le_nat_alt)
  have "strlen m 8 = Some (of_nat (length ?ds))" by (rule strlen_eq [OF m(2)])
  moreover have "unat (of_nat (length ?ds) :: u32) = length ?ds" using length_hex [of v] by (simp add: unat_of_nat)
  ultimately show ?thesis
    using True m(1) puts_frame_eq [OF cstr_at_padded [OF m(2) length_hex length_hex]]
    by (simp add: print_hex_def render_hex_def Let_def)
next
  case False
  then show ?thesis
    using print_number [of 16 v 0 frame] puts_frame_eq
    by (auto simp: print_hex_def render_hex_def word_le_nat_alt)
qed

lemma for_opt_Cons_append: "do { s \<leftarrow> for_opt f xs s; for_opt f ys s } = for_opt f (xs @ ys) s"
  by (simp add: for_opt_append)

text \<open>A string of the kernel's memory that printing does not write over: its bytes and the terminator are mapped outside
  the 4000 bytes of the window.\<close>

definition printed_string :: "kstate \<Rightarrow> u32 \<Rightarrow> u32 \<Rightarrow> u8 list \<Rightarrow> bool" where
  "printed_string s b a str \<longleftrightarrow> 0 \<notin> set str \<and>
     (\<forall>i \<le> length str. \<exists>pa. translate (mmu s) (a + of_nat i) = Some pa \<and> 4000 \<le> unat (pa - b) \<and> phys s pa = (str @ [0]) ! i)"

lemma printed_string_frame: "printed_string s b a str \<Longrightarrow> console_frame b s s' \<Longrightarrow> printed_string s' b a str"
  using console_base_keeps(1) [of s' s] unfolding printed_string_def console_frame_def outside_window_def by fastforce

lemma printed_string_step:
  assumes "printed_string s b a (c # str)"
  shows "vload a s = Some c" "c \<noteq> 0" "printed_string s b (a + 1) str"
proof -
  have s: "0 \<notin> set (c # str)" "\<And>i. i \<le> Suc (length str) \<Longrightarrow>
      \<exists>pa. translate (mmu s) (a + of_nat i) = Some pa \<and> 4000 \<le> unat (pa - b) \<and> phys s pa = (c # str @ [0]) ! i"
    using assms unfolding printed_string_def by simp_all
  show "vload a s = Some c" using s(2) [of 0] by (auto simp: vload_def load_virtual_def)
  show "c \<noteq> 0" using s(1) by auto
  have "\<exists>pa. translate (mmu s) (a + 1 + of_nat i) = Some pa \<and> 4000 \<le> unat (pa - b) \<and> phys s pa = (str @ [0]) ! i"
    if "i \<le> length str" for i
    using s(2) [of "Suc i"] that by (simp add: add.assoc)
  then show "printed_string s b (a + 1) str" using s(1) by (simp add: printed_string_def)
qed

lemma puts_at_eq:
  "printed_string s b a str \<Longrightarrow> window s b \<Longrightarrow> on_screen s \<Longrightarrow> cursor_ok s \<Longrightarrow> 8 \<notin> set str \<Longrightarrow> 9 \<notin> set str \<Longrightarrow>
    puts_at a s = for_opt putc str s"
proof (induction str arbitrary: a s)
  case Nil
  have "vload a s = Some 0" using Nil.prems(1) unfolding printed_string_def by (auto simp: vload_def load_virtual_def)
  then show ?case by (subst puts_at.simps) simp
next
  case (Cons c str)
  note st = printed_string_step [OF Cons.prems(1)]
  obtain s1 where s1: "putc c s = Some s1" "console_frame b s s1" "on_screen s1"
    using putc_eq [of s b c] Cons.prems by auto
  have "puts_at (a + 1) s1 = for_opt putc str s1"
    using Cons.IH [OF printed_string_frame [OF st(3) s1(2)]] console_frame_keeps(1,2) [OF s1(2)] s1(3) Cons.prems by simp
  then show ?case using st(1,2) s1(1) by (subst puts_at.simps) simp
qed

text \<open>What printing \<open>out\<close> needs when strings are among the arguments.\<close>

definition strings_ok :: "(u32 \<Rightarrow> u8 list option) \<Rightarrow> u32 \<Rightarrow> u8 list \<Rightarrow> kstate \<Rightarrow> bool" where
  "strings_ok strs b out s \<longleftrightarrow> strs = (\<lambda>_. None) \<or>
     window s b \<and> on_screen s \<and> cursor_ok s \<and> 8 \<notin> set out \<and> 9 \<notin> set out \<and> (\<forall>a str. strs a = Some str \<longrightarrow> printed_string s b a str)"

lemma strings_ok_printed:
  assumes "strings_ok strs b (o1 @ o2) s" "for_opt putc o1 s = Some s'"
  shows "strings_ok strs b o2 s'"
proof (cases "strs = (\<lambda>_. None)")
  case False
  then have s: "window s b" "on_screen s" "cursor_ok s" "8 \<notin> set (o1 @ o2)" "9 \<notin> set (o1 @ o2)"
    "\<And>a str. strs a = Some str \<Longrightarrow> printed_string s b a str"
    using assms(1) by (simp_all add: strings_ok_def)
  have "console_frame b s s'" "on_screen s'" using puts_eq [OF _ _ s(1-3), of o1] s(4,5) assms(2) by auto
  moreover from this have "printed_string s' b a str" if "strs a = Some str" for a str
    using printed_string_frame s(6) [OF that] by blast
  ultimately show ?thesis using console_frame_keeps(1,2) [of b s s'] s(1-5) unfolding strings_ok_def by simp
qed (simp add: strings_ok_def)

lemma format_char_renders:
  "render_char strs alternate buf args = Some (out, buf', args') \<Longrightarrow> strings_ok strs b (out @ o2) s \<Longrightarrow>
   format_char frame alternate buf args s = do { s \<leftarrow> for_opt putc out s; Some (buf', args', s) }"
proof (induction strs alternate buf args arbitrary: out rule: render_char.induct)
  case (2 strs alternate c buf args)
  show ?case
  proof (cases "c = 115")
    case True
    then obtain v str where v: "args = v # args'" "strs v = Some str" "out = str" "buf' = buf"
      using "2.prems"(1) by (auto split: list.splits)
    have "puts_at v s = for_opt putc str s"
      using "2.prems"(2) v(2,3) by (intro puts_at_eq) (auto simp: strings_ok_def)
    then show ?thesis using True v by (simp add: nth_opt_def)
  next
    case False
    then show ?thesis using 2
      by (cases args) (auto simp: nth_opt_def print_hex_eq print_unsigned_eq print_signed_eq split: if_splits)
  qed
qed simp

lemma printf_loop_strings:
  "render_with strs buf args = Some out \<Longrightarrow> strings_ok strs b out s \<Longrightarrow> printf_loop frame buf args s = for_opt putc out s"
proof (induction strs buf args arbitrary: out s rule: render_with.induct)
  case (2 strs c buf args)
  show ?case
  proof (cases "c = 37")
    case True
    with "2.prems"(1) obtain o1 b1 a1 o2 where r: "render_char strs False buf args = Some (o1, b1, a1)"
      "render_with strs b1 a1 = Some o2" "out = o1 @ o2" by (auto split: option.splits)
    note ok = "2.prems"(2) [unfolded r(3)]
    have ih: "printf_loop frame b1 a1 s' = for_opt putc o2 s'" if "for_opt putc o1 s = Some s'" for s'
      using "2.IH"(1) [OF True r(1) refl refl r(2)] strings_ok_printed [OF ok that] .
    show ?thesis
      using True ih r(3) format_char_renders [OF r(1) ok, of frame]
      by (cases "for_opt putc o1 s") (simp_all add: for_opt_append)
  next
    case False
    then obtain o2 where o2: "render_with strs buf args = Some o2" "out = c # o2" using "2.prems"(1) by auto
    show ?thesis
    proof (cases "putc c s")
      case (Some s')
      then have "strings_ok strs b o2 s'" using strings_ok_printed [of strs b "[c]" o2 s s'] "2.prems"(2) o2(2) by simp
      then show ?thesis using "2.IH"(2) [OF False o2(1)] Some False o2(2) by simp
    qed (use False o2(2) in simp)
  qed
qed simp

lemma printf_loop_renders: "render buf args = Some out \<Longrightarrow> printf_loop frame buf args s = for_opt putc out s"
  by (rule printf_loop_strings [where b = 0]) (assumption, unfold strings_ok_def, rule disjI1, rule refl)

section \<open>Properties\<close>

text \<open>C30: \<^verbatim>\<open>printf\<close> prints character by character the byte string its format and arguments stand
  for: percent signs, hexadecimal numbers with and without padding to 8 digits, unsigned and signed decimal
  numbers (the smallest one included), characters, and strings, whatever the stack buffer held before, and it returns
  the length of the format. A format has no meaning when it ends inside a conversion, has more conversions than
  arguments, or has a \<^verbatim>\<open>%s\<close> whose argument is not the address of a string. With strings among the arguments, these must
  be mapped outside the window that printing writes, the coordinates be on the screen, and the text have no backspaces
  and tabs, which could make printing write elsewhere; without strings nothing is asked of the state.\<close>

theorem printf_renders:
  assumes "render_with strs fmt args = Some out"
    and "strs = (\<lambda>_. None) \<or> window s b \<and> on_screen s \<and> cursor_ok s \<and> 8 \<notin> set out \<and> 9 \<notin> set out \<and>
      (\<forall>a str. strs a = Some str \<longrightarrow> printed_string s b a str)"
  shows "printf frame fmt args s = do { s \<leftarrow> for_opt putc out s; Some (of_nat (length fmt), s) }"
  using printf_loop_strings [OF assms(1), of b s frame] assms(2) by (simp add: printf_def strings_ok_def)

theorem printf_renders_witness:
  "printf (\<lambda>a. 0) [97, 37, 100, 37, 35, 120, 37, 115] [-5, 255, 0x500000] (with_phys sample_state ((\<lambda>a. 0)(0x500000 := 104))) =
     do { s \<leftarrow> for_opt putc [97, 45, 53, 48, 48, 48, 48, 48, 48, 70, 70, 104] (with_phys sample_state ((\<lambda>a. 0)(0x500000 := 104)));
       Some (8, s) }"
proof -
  let ?s = "with_phys sample_state ((\<lambda>a. 0)(0x500000 := 104))" and ?strs = "[0x500000 \<mapsto> [104 :: u8]] :: u32 \<Rightarrow> u8 list option"
  have d: "digits_of 10 5 = [5]" "digits_of 16 255 = [15, 15]" by (simp_all add: digits_of_pos)
  have c: "digit_char 5 = 53" "digit_char 15 = 70" by (simp_all add: digit_char_def)
  have n: "number_string 10 5 = [53]" "number_string 16 255 = [70, 70]"
    by (simp_all add: number_string_def d c)
  have r: "replicate 6 (48 :: u8) = [48, 48, 48, 48, 48, 48]" by (simp add: eval_nat_numeral)
  have h: "render_signed (-5) = [45, 53]" "render_hex True 255 = [48, 48, 48, 48, 48, 48, 70, 70]"
    using n r by (simp_all add: render_signed_def render_hex_def Let_def)
  have out: "render_with ?strs [97, 37, 100, 37, 35, 120, 37, 115] [-5, 255, 0x500000] =
      Some [97, 45, 53, 48, 48, 48, 48, 48, 48, 70, 70, 104]"
    by (simp add: h)
  have t: "translate (mmu sample_state) 0x500000 = Some 0x500000" "translate (mmu sample_state) 0x500001 = Some 0x500001"
    using paging_init_translate [OF wf_sample_layout] by (simp_all add: sample_state_def)
  have "printed_string ?s 0xB8000 0x500000 [104]"
    unfolding printed_string_def using t by (auto simp: le_Suc_eq)
  moreover have "window ?s 0xB8000" "on_screen ?s" "cursor_ok ?s"
    using sample_window sample_on_screen sample_cursor by (simp_all add: on_screen_def cursor_ok_def current_def get_current_pcb_def)
  ultimately show ?thesis using printf_renders [OF out, of ?s "0xB8000" "\<lambda>a. 0"] by (simp split: if_splits)
qed

end
