(* ===== verification/Process.thy ===== *)
theory Process imports Rtc Printf begin

text \<open>
  Starting and ending a process: \<^verbatim>\<open>execute\<close> and \<^verbatim>\<open>halt\<close> of \<^verbatim>\<open>src/student-distrib/syscall.c\<close>.

  Both leave the normal flow of control by inline assembly, so a call has an \<open>outcome\<close>: it returns
  to its caller, it resumes a suspended kernel frame at an address with a value in \<^verbatim>\<open>eax\<close>, or it
  enters user mode. A command without an argument makes \<^verbatim>\<open>execute\<close> subtract pointers into two
  different local arrays. The model follows the layout in which \<^verbatim>\<open>file_name\<close> lies above
  \<^verbatim>\<open>argument\<close>: the copy then starts with the 128 zeros of \<^verbatim>\<open>argument\<close> and runs over the end of
  \<^verbatim>\<open>pcb->argv\<close> into the file table behind it. What it leaves there before the table is
  initialised is the parameter \<open>clobber\<close>.
\<close>

abbreviation EXECUTABLE_MAGIC :: u32 where "EXECUTABLE_MAGIC \<equiv> 0x464C457F"
abbreviation PROGRAM_IMAGE :: u32 where "PROGRAM_IMAGE \<equiv> 0x08048000"
abbreviation PROGRAM_IMAGE_LIMIT :: u32 where "PROGRAM_IMAGE_LIMIT \<equiv> 0x3B8000"
abbreviation USER_STACK :: u32 where "USER_STACK \<equiv> 0x8400000"

datatype outcome = Returns i32 | Resumes u32 i32 | Enters_user u32

section \<open>Parsing the command\<close>

text \<open>The three loops over the command, which is the bytes up to the terminator; \<open>i\<close> counts the
  characters passed, at most 128.\<close>

fun skip_spaces :: "nat \<Rightarrow> u8 list \<Rightarrow> nat \<times> u8 list" where
  "skip_spaces i [] = (i, [])"
| "skip_spaces i (c # pos) = (if c = 32 \<and> i < MAX_TERMINAL then skip_spaces (Suc i) pos else (i, c # pos))"

fun take_word :: "nat \<Rightarrow> u8 list \<Rightarrow> u8 list \<times> nat \<times> u8 list" where
  "take_word i [] = ([], i, [])"
| "take_word i (c # pos) =
     (if c \<noteq> 32 \<and> i < MAX_TERMINAL then
        let (w, i, pos) = take_word (Suc i) pos in (c # w, i, pos)
      else ([], i, c # pos))"

text \<open>The file name and, when there is one, the argument; \<open>None\<close> for a blank command.\<close>

definition parse_command :: "u8 list \<Rightarrow> (u8 list \<times> u8 list option) option" where
  "parse_command command =
     (let (i, pos) = skip_spaces 0 command in
      if pos = [] then None
      else
        let (file_name, i, pos) = take_word i pos;
            (i, pos) = skip_spaces i pos
        in Some (file_name, if pos = [] then None else Some (fst (take_word i pos))))"

section \<open>Checks\<close>

text \<open>The first four bytes of the file; fewer leave the local variable uninitialised.\<close>

definition check_magic :: "u32 \<Rightarrow> kstate \<Rightarrow> bool option" where
  "check_magic inode s = do {
     (r, bytes) \<leftarrow> read_data (disk s) inode 0 1 4;
     if r = -1 then Some False
     else do { magic \<leftarrow> slice_opt bytes 0 4; Some (of_le32 magic = EXECUTABLE_MAGIC) }
   }"

definition check_executable :: "u8 list \<Rightarrow> kstate \<Rightarrow> u32 option option" where
  "check_executable fname s = do {
     (r, den) \<leftarrow> read_dentry_by_name (disk s) (Some fname);
     if r = -1 then Some None
     else do {
       den \<leftarrow> den;
       ok \<leftarrow> check_magic (inode_num den) s;
       Some (if ok then Some (inode_num den) else None)
     }
   }"

text \<open>The first process slot that is not in use.\<close>

definition free_pid :: "kstate \<Rightarrow> nat option option" where
  "free_pid s = do {
     ps \<leftarrow> slice_opt (pcbs s) 0 MAX_PROCESS;
     Some (List.find (\<lambda>i. p_present (ps ! i) = 0) [0..<MAX_PROCESS])
   }"

section \<open>Setting up a process\<close>

definition clear_files :: "file_t list \<Rightarrow> file_t list" where
  "clear_files fs = take 2 fs @ map (\<lambda>f. f\<lparr>f_present := 0\<rparr>) (drop 2 fs)"

definition std_files :: "file_t list \<Rightarrow> file_t list" where
  "std_files fs = clear_files (fs[0 := (fs ! 0)\<lparr>f_present := 1, f_ops := stdin_ops\<rparr>,
     1 := (fs ! 1)\<lparr>f_present := 1, f_ops := stdout_ops\<rparr>])"

definition set_argv :: "(file_t list \<Rightarrow> file_t list) \<Rightarrow> u8 list option \<Rightarrow> pcb_t \<Rightarrow> pcb_t" where
  "set_argv clobber arg p =
     (case arg of
        Some w \<Rightarrow> p\<lparr>p_argv := w @ [0] @ drop (Suc (length w)) (p_argv p)\<rparr>
      | None \<Rightarrow> p\<lparr>p_argv := replicate 128 0, p_files := clobber (p_files p)\<rparr>)"

definition set_up_pcb ::
    "(file_t list \<Rightarrow> file_t list) \<Rightarrow> nat \<Rightarrow> u32 \<Rightarrow> u32 \<Rightarrow> u8 list option \<Rightarrow> pcb_t \<Rightarrow> pcb_t" where
  "set_up_pcb clobber pid parent ebp0 arg p =
     (let p = p\<lparr>p_present := 1, p_pid := of_nat pid,
                p_parent := if pid < TERMINAL_COUNT then 0 else parent,
                p_parent_ebp := ebp0,
                p_esp0 := KERNEL_STACK - KERNEL_STACK_SIZE * of_nat pid\<rparr>;
          p = set_argv clobber arg p
      in p\<lparr>p_files := std_files (p_files p)\<rparr>)"

definition map_mmu :: "(paging \<Rightarrow> paging) \<Rightarrow> kstate \<Rightarrow> kstate" where
  "map_mmu f s = s\<lparr>mmu := f (mmu s)\<rparr>"

definition set_user_page :: "u32 \<Rightarrow> paging \<Rightarrow> paging" where
  "set_user_page n = page_dir_map USER_ENTRY (set_MB_page_base_address n)"

definition set_up_paging :: "nat \<Rightarrow> paging \<Rightarrow> paging" where
  "set_up_paging pid p =
     (let p = page_dir_map USER_ENTRY (set_present 1) p;
          p = page_dir_map USER_ENTRY (set_user_supervisor 1) p;
          p = page_dir_map USER_ENTRY (set_read_write 1) p
      in set_user_page (2 + of_nat pid) p)"

text \<open>The entry point and the image of the program; the image goes to the user page of the process.\<close>

definition load_program :: "u32 \<Rightarrow> kstate \<Rightarrow> (u32 \<times> kstate) option" where
  "load_program inode s = do {
     (_, bytes) \<leftarrow> read_data (disk s) inode 24 1 4;
     eip \<leftarrow> slice_opt bytes 0 4;
     (_, s) \<leftarrow> read_data_to inode 0 PROGRAM_IMAGE PROGRAM_IMAGE_LIMIT s;
     Some (of_le32 eip, s)
   }"

definition start_process ::
    "(file_t list \<Rightarrow> file_t list) \<Rightarrow> nat \<Rightarrow> u32 \<Rightarrow> u8 list option \<Rightarrow> kstate \<Rightarrow> (outcome \<times> kstate) option" where
  "start_process clobber pid inode arg s = do {
     s \<leftarrow> map_pcb pid (set_up_pcb clobber pid (get_current_pcb s) (ebp s) arg) s;
     s \<leftarrow> map_term (active_term_id s) (\<lambda>u. u\<lparr>t_pid := of_nat pid\<rparr>) s;
     let s = map_mmu (set_up_paging pid) s;
     (entry, s) \<leftarrow> load_program inode s;
     p \<leftarrow> get_pcb pid s;
     let s = s\<lparr>tss_esp0 := p_esp0 p, tss_ss0 := KERNEL_DS\<rparr>;
     Some (Enters_user entry, s\<lparr>esp := USER_STACK, iflag := True\<rparr>)
   }"

definition execute :: "(file_t list \<Rightarrow> file_t list) \<Rightarrow> cstr \<Rightarrow> kstate \<Rightarrow> (outcome \<times> kstate) option" where
  "execute clobber command s =
     (case command of
        None \<Rightarrow> Some (Returns (-1), s)
      | Some command \<Rightarrow>
          case parse_command command of
            None \<Rightarrow> Some (Returns (-1), s)
          | Some (fname, arg) \<Rightarrow> do {
              let s = s\<lparr>iflag := False\<rparr>;
              inode \<leftarrow> check_executable fname s;
              case inode of
                None \<Rightarrow> Some (Returns (-1), s)
              | Some inode \<Rightarrow> do {
                  pid \<leftarrow> free_pid s;
                  case pid of
                    None \<Rightarrow> Some (Returns (-1), s)
                  | Some pid \<Rightarrow> start_process clobber pid inode arg s
                }
            })"

section \<open>Ending a process\<close>

definition vload32 :: "u32 \<Rightarrow> kstate \<Rightarrow> u32 option" where
  "vload32 a s = do { bytes \<leftarrow> slice_opt (copy_in a 4 s) 0 4; Some (of_le32 bytes) }"

text \<open>\<^verbatim>\<open>leave; ret\<close> with the frame pointer at \<open>a\<close>: the address execution goes on at.\<close>

definition leave_ret :: "u32 \<Rightarrow> kstate \<Rightarrow> (u32 \<times> kstate) option" where
  "leave_ret a s = do {
     b \<leftarrow> vload32 a s;
     eip \<leftarrow> vload32 (a + 4) s;
     Some (eip, s\<lparr>ebp := b, esp := a + 8\<rparr>)
   }"

text \<open>One round of the loop that closes the files of process \<open>i\<close>.\<close>

definition halt_file :: "nat \<Rightarrow> nat \<Rightarrow> kstate \<Rightarrow> kstate option" where
  "halt_file i j s = do {
     f \<leftarrow> get_file i (of_nat j) s;
     if f_present f \<noteq> 0 then do {
       (_, s) \<leftarrow> ops_close (f_ops f) (of_nat j) s;
       map_file i (of_nat j) (\<lambda>f. f\<lparr>f_present := 0\<rparr>) s
     } else Some s
   }"

text \<open>The return to the parent: \<open>a\<close> is \<^verbatim>\<open>pcb->parent\<close>.\<close>

definition halt_to_parent :: "nat \<Rightarrow> u8 \<Rightarrow> kstate \<Rightarrow> (outcome \<times> kstate) option" where
  "halt_to_parent i status s = do {
     p \<leftarrow> get_pcb i s;
     k \<leftarrow> pcb_index (p_parent p);
     q \<leftarrow> get_pcb k s;
     s \<leftarrow> map_term (active_term_id s) (\<lambda>u. u\<lparr>t_pid := p_pid q\<rparr>) s;
     let s = map_mmu (set_user_page (2 + p_pid q)) s;
     let s = s\<lparr>tss_esp0 := p_esp0 q, tss_ss0 := KERNEL_DS\<rparr>;
     let eax = (if exception_occurred s \<noteq> 0 then 0x100 else ucast status);
     let s = s\<lparr>exception_occurred := 0, iflag := True\<rparr>;
     (eip, s) \<leftarrow> leave_ret (p_parent_ebp p) s;
     Some (Resumes eip eax, s)
   }"

definition halt :: "(file_t list \<Rightarrow> file_t list) \<Rightarrow> u8 \<Rightarrow> kstate \<Rightarrow> (outcome \<times> kstate) option" where
  "halt clobber status s = do {
     let s = s\<lparr>iflag := False\<rparr>;
     i \<leftarrow> current s;
     s \<leftarrow> map_pcb i (\<lambda>p. p\<lparr>p_present := 0, p_vidmap := 0, p_rtc := 0\<rparr>) s;
     s \<leftarrow> for_opt (halt_file i) [2..<8] s;
     s \<leftarrow> map_term (active_term_id s) (\<lambda>u. u\<lparr>t_to_be_halt := 0\<rparr>) s;
     p \<leftarrow> get_pcb i s;
     if sint (p_pid p) < int TERMINAL_COUNT then do {
       s \<leftarrow> map_pcb i (\<lambda>p. p\<lparr>p_present := 0\<rparr>) s;
       (r, s) \<leftarrow> execute clobber (Some (map of_char ''shell'')) s;
       case r of Returns _ \<Rightarrow> halt_to_parent i status s | _ \<Rightarrow> Some (r, s)
     }
     else halt_to_parent i status s
   }"

section \<open>The user page of a process\<close>

text \<open>The directory entry of user memory maps 4 MB, as \<^verbatim>\<open>paging_init\<close> leaves it.\<close>

definition user_dir_ok :: "paging \<Rightarrow> bool" where
  "user_dir_ok p \<longleftrightarrow> length (page_directories p) = PAGING_COUNT \<and> bit (page_directories p ! USER_ENTRY) 7"

definition user_base :: "nat \<Rightarrow> nat" where
  "user_base pid = (2 + pid) * 0x400000"

text \<open>The 4 MB of user memory are the physical page of process \<open>pid\<close>.\<close>

definition user_window :: "paging \<Rightarrow> nat \<Rightarrow> bool" where
  "user_window p pid \<longleftrightarrow> (\<forall>off < 0x400000. translate p (0x8000000 + of_nat off) = Some (of_nat (user_base pid + off)))"

lemma user_dir_ok_init: "user_dir_ok (paging_init p)"
  by (simp add: user_dir_ok_def paging_init_dir bit_mb_entry)

lemma set_user_page_ok [simp]: "user_dir_ok (set_user_page n p) = user_dir_ok p"
  by (auto simp: user_dir_ok_def set_user_page_def bit_set_field nth_list_update)

lemma set_up_paging_eq:
  "set_up_paging pid p = page_dir_map USER_ENTRY (\<lambda>v. set_MB_page_base_address (2 + of_nat pid)
     (set_read_write 1 (set_user_supervisor 1 (set_present 1 v)))) p"
  by (simp only: set_up_paging_def set_user_page_def Let_def maps_same)

lemma big_page_base:
  assumes "get_field 22 10 e = n"
  shows "e AND 0xFFC00000 = push_bit 22 n"
proof (rule bit_word_eqI)
  fix k assume "k < LENGTH(32)"
  then show "bit (e AND 0xFFC00000) k = bit (push_bit 22 n) k"
    unfolding assms [symmetric] by (auto simp: page_masks bit_simps bit_get_field)
qed

lemma big_page_sum: "(push_bit 22 n OR (va AND 0x3FFFFF) :: u32) = push_bit 22 n + take_bit 22 va"
  unfolding page_masks take_bit_eq_mask [symmetric]
  by (rule disjunctive_add [symmetric]) (auto simp: bit_simps)

lemma user_window_entry:
  assumes p: "length (page_directories p) = PAGING_COUNT"
    and e: "page_directories p ! USER_ENTRY = e" "bit e 0" "bit e 7" "get_field 22 10 e = 2 + of_nat pid"
  shows "user_window p pid"
  unfolding user_window_def
proof (intro allI impI)
  fix off :: nat assume off: "off < 0x400000"
  let ?va = "0x8000000 + of_nat off :: u32"
  have va: "unat ?va = 0x8000000 + off" using off by (simp add: unat_word_ariths unat_of_nat)
  have i: "unat (drop_bit 22 ?va) = USER_ENTRY"
    by (subst unat_drop_bit_eq, subst va) (use off in \<open>simp add: drop_bit_eq_div\<close>)
  have "(off + 32 * 0x400000) mod 0x400000 = off" using off by (simp only: mod_mult_self1 mod_less)
  then have "unat (take_bit 22 ?va) = off"
    by (simp only: unsigned_take_bit_eq va) (simp add: take_bit_nat_def add.commute)
  then have t: "take_bit 22 ?va = of_nat off" using off by (subst eq_of_nat_iff) simp_all
  have "translate p ?va = Some (push_bit 22 (2 + of_nat pid) + of_nat off)"
    using p e i by (simp add: translate_def nth_opt_Some big_page_base [OF e(4)] big_page_sum t)
  also have "push_bit 22 (2 + of_nat pid) + of_nat off = (of_nat (user_base pid + off) :: u32)"
    by (simp add: push_bit_eq_mult user_base_def algebra_simps)
  finally show "translate p ?va = Some (of_nat (user_base pid + off))" .
qed

lemma small_field: "pid < MAX_PROCESS \<Longrightarrow> take_bit 10 (2 + of_nat pid :: u32) = 2 + of_nat pid"
  by (drule process_cases, elim disjE) simp_all

lemma set_up_paging_window:
  assumes "user_dir_ok p" "pid < MAX_PROCESS"
  shows "user_window (set_up_paging pid p) pid" "user_dir_ok (set_up_paging pid p)"
proof -
  let ?e = "set_MB_page_base_address (2 + of_nat pid)
     (set_read_write 1 (set_user_supervisor 1 (set_present 1 (page_directories p ! USER_ENTRY))))"
  have l: "length (page_directories p) = PAGING_COUNT" "bit (page_directories p ! USER_ENTRY) 7"
    using assms(1) by (simp_all add: user_dir_ok_def)
  have e: "page_directories (set_up_paging pid p) ! USER_ENTRY = ?e"
    using l(1) by (simp add: set_up_paging_eq)
  have b: "bit ?e 0" "bit ?e 7" using l(2) by (simp_all add: bit_set_field)
  moreover have "get_field 22 10 ?e = 2 + of_nat pid"
    using small_field [OF assms(2)] by (simp add: get_set_field_same)
  ultimately show "user_window (set_up_paging pid p) pid"
    using l(1) e by (intro user_window_entry) (simp_all add: set_up_paging_eq)
  show "user_dir_ok (set_up_paging pid p)"
    using l(1) e b(2) by (simp add: user_dir_ok_def set_up_paging_eq)
qed

lemma window_mapped:
  assumes "user_window (mmu s) pid" "off + n \<le> 0x400000"
  shows "mapped s (0x8000000 + of_nat off) n (of_nat (user_base pid + off))"
  unfolding mapped_def
proof (intro allI impI)
  fix k assume "k < n"
  then have "off + k < 0x400000" using assms(2) by simp
  then have "translate (mmu s) (0x8000000 + of_nat (off + k)) = Some (of_nat (user_base pid + (off + k)))"
    using assms(1) unfolding user_window_def by blast
  then show "translate (mmu s) (0x8000000 + of_nat off + of_nat k) = Some (of_nat (user_base pid + off) + of_nat k)"
    by (simp add: add.assoc)
qed

text \<open>Different processes have disjoint pages.\<close>

lemma user_base_disjoint:
  assumes "pid < MAX_PROCESS" "pid' < MAX_PROCESS" "pid \<noteq> pid'" "off < 0x400000" "off' < 0x400000"
  shows "(of_nat (user_base pid + off) :: u32) \<noteq> of_nat (user_base pid' + off')"
proof -
  have "user_base pid + off < 2 ^ 32" "user_base pid' + off' < 2 ^ 32"
    using assms by (auto simp: user_base_def)
  moreover have "user_base pid + off \<noteq> user_base pid' + off'"
  proof
    assume e: "user_base pid + off = user_base pid' + off'"
    have "(user_base pid + off) div 0x400000 = 2 + pid" "(user_base pid' + off') div 0x400000 = 2 + pid'"
      using assms(4,5) by (simp_all add: user_base_def)
    then show False using e assms(3) by simp
  qed
  ultimately show ?thesis using of_nat_inj_u32 by blast
qed

section \<open>Starting a program\<close>

text \<open>\<open>c\<close> is the content of the program file that a directory lookup of \<open>fname\<close> finds.\<close>

definition program_file :: "kstate \<Rightarrow> u8 list \<Rightarrow> u32 \<Rightarrow> u8 list \<Rightarrow> bool" where
  "program_file s fname inode c \<longleftrightarrow> wf_fs (disk s) \<and> 0 \<notin> set fname \<and> fname \<in> set (dir_names (disk s)) \<and>
     inode = inode_num (dentries (boot_block (disk s)) ! first_index fname (dir_names (disk s))) \<and>
     c = file_content (disk s) inode \<and> 28 \<le> length c \<and> of_le32 (take 4 c) = EXECUTABLE_MAGIC"

lemma program_inode:
  assumes "program_file s fname inode c"
  shows "inode < inode_count (boot_block (disk s))"
proof -
  let ?fs = "disk s"
  have wf: "wf_fs ?fs" and m: "fname \<in> set (dir_names ?fs)" using assms by (auto simp: program_file_def)
  have "first_index fname (dir_names ?fs) < length (dentries (boot_block ?fs))"
    using m wf first_index_less [of fname "dir_names ?fs"] length_dir_names [OF wf] by (auto simp: wf_fs_def)
  then have "wf_dentry ?fs (dentries (boot_block ?fs) ! first_index fname (dir_names ?fs))"
    using wf by (auto simp: wf_fs_def)
  then show ?thesis using assms by (auto simp: program_file_def wf_dentry_def)
qed

lemma read_program:
  assumes "program_file s fname inode c" "disk t = disk s" "len \<noteq> 0"
  shows "read_data (disk t) inode off 1 len =
    Some (of_nat (length (take (unat len) (drop (unat off) c))), take (unat len) (drop (unat off) c))"
  using read_data_slice [of "disk s" inode 1 len off] program_inode [OF assms(1)] assms
  by (simp add: program_file_def Let_def)

lemma check_executable_eq:
  assumes "program_file s fname inode c" "disk t = disk s"
  shows "check_executable fname t = Some (Some inode)"
proof -
  have l: "28 \<le> length c" and g: "of_le32 (take 4 c) = EXECUTABLE_MAGIC"
    using assms(1) unfolding program_file_def by blast+
  have "check_magic inode t = Some True"
    using read_program [OF assms, of 4 0] l g by (simp add: check_magic_def slice_opt_def)
  moreover have "first_index fname (dir_names (disk s)) < 63"
    using assms(1) first_index_less [of fname "dir_names (disk s)"] length_dir_names [of "disk s"]
    by (auto simp: program_file_def wf_fs_def)
  then have "(of_nat (first_index fname (dir_names (disk s))) :: u32) \<noteq> -1"
    by (auto simp: unat_neg_one unat_of_nat_small dest!: arg_cong [of _ "-1" unat])
  ultimately show ?thesis
    using assms read_dentry_by_name_eq [of "disk s" fname] by (simp add: check_executable_def program_file_def)
qed

lemma load_program_eq:
  assumes "program_file s fname inode c" "disk t = disk s" "user_window (mmu t) pid"
  shows "load_program inode t = Some (of_le32 (take 4 (drop 24 c)),
    t\<lparr>phys := put_bytes (of_nat (user_base pid + 0x48000)) (take 0x3B8000 c) (phys t)\<rparr>)"
proof -
  have l: "28 \<le> length c" using assms(1) unfolding program_file_def by blast
  let ?img = "take 0x3B8000 c"
  have "mapped t (0x8000000 + of_nat 0x48000) (length ?img) (of_nat (user_base pid + 0x48000))"
    by (rule window_mapped [OF assms(3)]) simp
  then have m: "mapped t PROGRAM_IMAGE (length ?img) (of_nat (user_base pid + 0x48000))" by simp
  have "read_data (disk t) inode 0 PROGRAM_IMAGE PROGRAM_IMAGE_LIMIT = Some (of_nat (length ?img), ?img)"
    using read_data_slice [of "disk s" inode PROGRAM_IMAGE PROGRAM_IMAGE_LIMIT 0] program_inode [OF assms(1)] assms
    by (simp add: program_file_def Let_def)
  then have "read_data_to inode 0 PROGRAM_IMAGE PROGRAM_IMAGE_LIMIT t =
      Some (of_nat (length ?img), t\<lparr>phys := put_bytes (of_nat (user_base pid + 0x48000)) ?img (phys t)\<rparr>)"
    using copy_out_eq [OF m] by (simp add: read_data_to_def)
  then show ?thesis
    using read_program [OF assms(1,2), of 4 24] l by (simp add: load_program_def slice_opt_def)
qed

lemma free_pid_spec:
  assumes "free_pid s = Some (Some pid)"
  shows "pid < MAX_PROCESS \<and> MAX_PROCESS \<le> length (pcbs s) \<and> p_present (pcbs s ! pid) = 0 \<and>
    (\<forall>j < pid. p_present (pcbs s ! j) \<noteq> 0)"
proof -
  from assms have l: "MAX_PROCESS \<le> length (pcbs s)"
    and f: "List.find (\<lambda>i. p_present (take MAX_PROCESS (pcbs s) ! i) = 0) [0..<MAX_PROCESS] = Some pid"
    unfolding free_pid_def bind_eq_Some_conv by auto
  show ?thesis using find_lowest [OF f] l by auto
qed

lemma map_pcb_eq: "i < length (pcbs s) \<Longrightarrow> map_pcb i f s = Some (s\<lparr>pcbs := (pcbs s)[i := f (pcbs s ! i)]\<rparr>)"
  by (simp add: map_pcb_def get_pcb_def nth_opt_Some)

lemma map_term_eq:
  "unat t < length (terms s) \<Longrightarrow> map_term t f s = Some (s\<lparr>terms := (terms s)[unat t := f (terms s ! unat t)]\<rparr>)"
  by (simp add: map_term_def get_term_def nth_opt_Some)

text \<open>The state \<^verbatim>\<open>execute\<close> leaves when it starts the program of content \<open>c\<close> as process \<open>pid\<close>.\<close>

definition started ::
    "(file_t list \<Rightarrow> file_t list) \<Rightarrow> nat \<Rightarrow> u8 list option \<Rightarrow> u8 list \<Rightarrow> kstate \<Rightarrow> kstate" where
  "started clobber pid arg c s = s\<lparr>
     pcbs := (pcbs s)[pid := set_up_pcb clobber pid (get_current_pcb s) (ebp s) arg (pcbs s ! pid)],
     terms := (terms s)[unat (active_term_id s) := (terms s ! unat (active_term_id s))\<lparr>t_pid := of_nat pid\<rparr>],
     mmu := set_up_paging pid (mmu s),
     phys := put_bytes (of_nat (user_base pid + 0x48000)) (take 0x3B8000 c) (phys s),
     tss_esp0 := KERNEL_STACK - KERNEL_STACK_SIZE * of_nat pid, tss_ss0 := KERNEL_DS,
     esp := USER_STACK, iflag := True\<rparr>"

lemma set_up_pcb_simps [simp]:
  "p_esp0 (set_up_pcb clobber pid a b arg p) = KERNEL_STACK - KERNEL_STACK_SIZE * of_nat pid"
  "p_present (set_up_pcb clobber pid a b arg p) = 1" "p_pid (set_up_pcb clobber pid a b arg p) = of_nat pid"
  "p_parent (set_up_pcb clobber pid a b arg p) = (if pid < TERMINAL_COUNT then 0 else a)"
  "p_parent_ebp (set_up_pcb clobber pid a b arg p) = b"
  "p_vidmap (set_up_pcb clobber pid a b arg p) = p_vidmap p" "p_rtc (set_up_pcb clobber pid a b arg p) = p_rtc p"
  by (simp_all add: set_up_pcb_def set_argv_def Let_def split: option.splits)

lemma execute_eq:
  assumes "parse_command cmd = Some (fname, arg)" "program_file s fname inode c" "free_pid s = Some (Some pid)"
    and "user_dir_ok (mmu s)" "unat (active_term_id s) < length (terms s)"
  shows "execute clobber (Some cmd) s = Some (Enters_user (of_le32 (take 4 (drop 24 c))), started clobber pid arg c s)"
proof -
  let ?s0 = "s\<lparr>iflag := False\<rparr>"
  note free = free_pid_spec [OF assms(3)]
  have "free_pid ?s0 = Some (Some pid)" using assms(3) by (simp add: free_pid_def)
  moreover have "check_executable fname ?s0 = Some (Some inode)"
    by (rule check_executable_eq [OF assms(2)]) simp
  moreover have "start_process clobber pid inode arg ?s0 =
      Some (Enters_user (of_le32 (take 4 (drop 24 c))), started clobber pid arg c s)"
  proof -
    let ?p = "set_up_pcb clobber pid (get_current_pcb s) (ebp s) arg"
    let ?s1 = "?s0\<lparr>pcbs := (pcbs s)[pid := ?p (pcbs s ! pid)]\<rparr>"
    let ?s2 = "?s1\<lparr>terms := (terms s)[unat (active_term_id s) := (terms s ! unat (active_term_id s))\<lparr>t_pid := of_nat pid\<rparr>]\<rparr>"
    let ?s3 = "map_mmu (set_up_paging pid) ?s2"
    have "map_pcb pid (set_up_pcb clobber pid (get_current_pcb ?s0) (ebp ?s0) arg) ?s0 = Some ?s1"
      using free by (simp add: map_pcb_eq get_current_pcb_def)
    moreover have "map_term (active_term_id ?s1) (\<lambda>u. u\<lparr>t_pid := of_nat pid\<rparr>) ?s1 = Some ?s2"
      using assms(5) by (simp add: map_term_eq)
    moreover have "user_window (mmu ?s3) pid"
      using set_up_paging_window(1) [OF assms(4)] free by (simp add: map_mmu_def)
    then have "load_program inode ?s3 = Some (of_le32 (take 4 (drop 24 c)),
        ?s3\<lparr>phys := put_bytes (of_nat (user_base pid + 0x48000)) (take 0x3B8000 c) (phys ?s3)\<rparr>)"
      by (intro load_program_eq [OF assms(2)]) (simp_all add: map_mmu_def)
    ultimately show ?thesis
      using free by (simp add: start_process_def get_pcb_def nth_opt_Some started_def map_mmu_def Let_def)
  qed
  ultimately show ?thesis using assms(1) by (simp add: execute_def Let_def)
qed

section \<open>Closing the files of a process\<close>

definition close_entry :: "nat \<Rightarrow> file_t list \<Rightarrow> file_t list" where
  "close_entry j fs = fs[j := (fs ! j)\<lparr>f_present := 0\<rparr>]"

definition set_files :: "nat \<Rightarrow> file_t list \<Rightarrow> kstate \<Rightarrow> kstate" where
  "set_files i fs s = s\<lparr>pcbs := (pcbs s)[i := (pcbs s ! i)\<lparr>p_files := fs\<rparr>]\<rparr>"

text \<open>Every open file beyond the first two has a table that \<^verbatim>\<open>open\<close> hands out.\<close>

definition files_ok :: "file_t list \<Rightarrow> bool" where
  "files_ok fs \<longleftrightarrow> length fs = 8 \<and>
     (\<forall>j. 2 \<le> j \<and> j < 8 \<and> f_present (fs ! j) \<noteq> 0 \<longrightarrow> f_ops (fs ! j) \<in> set file_ops_map)"

lemma files_ok_close: "files_ok fs \<Longrightarrow> files_ok (close_entry j fs)"
  by (cases "j < length fs") (auto simp: files_ok_def close_entry_def nth_list_update)

lemma halt_file_eq:
  assumes "current s = Some i" "i < length (pcbs s)" "p_rtc (pcbs s ! i) = 0" "files_ok (p_files (pcbs s ! i))"
    and "2 \<le> j" "j < 8"
  shows "halt_file i j s = Some (set_files i (close_entry j (p_files (pcbs s ! i))) s)"
proof -
  let ?p = "pcbs s ! i"
  let ?f = "p_files ?p ! j"
  have j: "unat (of_nat j :: u32) = j" "j < length (p_files ?p)"
    using assms(4,6) by (auto simp: files_ok_def unat_small_fd)
  have g: "get_file i (of_nat j) s = Some ?f"
    using assms(2) j by (simp add: get_file_iff fds_def)
  show ?thesis
  proof (cases "f_present ?f = 0")
    case True
    then have "(p_files ?p)[j := ?f\<lparr>f_present := 0\<rparr>] = p_files ?p" by (simp add: list_update_same_conv j)
    then show ?thesis using g True assms(2)
      by (simp add: halt_file_def set_files_def close_entry_def list_update_same_conv)
  next
    case False
    then have ops: "f_ops ?f \<in> set file_ops_map" using assms(4-6) by (auto simp: files_ok_def)
    have "s\<lparr>pcbs := (pcbs s)[i := ?p\<lparr>p_rtc := 0\<rparr>]\<rparr> = s"
      using assms(2,3) by (simp add: list_update_same_conv)
    then have "ops_close (f_ops ?f) (of_nat j) s = Some (0, s)"
      using ops assms(1,2) by (auto simp: file_ops_map_def file_close_def dir_close_def rtc_close_def map_pcb_eq)
    moreover have "map_file i (of_nat j) (\<lambda>f. f\<lparr>f_present := 0\<rparr>) s = Some (set_files i (close_entry j (p_files ?p)) s)"
      using g assms(2) j by (simp add: map_file_def map_pcb_eq set_files_def close_entry_def)
    ultimately show ?thesis using g False by (simp add: halt_file_def)
  qed
qed

lemma set_files_simps [simp]:
  "disk (set_files i fs s) = disk s" "mmu (set_files i fs s) = mmu s" "phys (set_files i fs s) = phys s"
  "terms (set_files i fs s) = terms s" "active_term_id (set_files i fs s) = active_term_id s"
  "exception_occurred (set_files i fs s) = exception_occurred s" "length (pcbs (set_files i fs s)) = length (pcbs s)"
  "current (set_files i fs s) = current s"
  "i < length (pcbs s) \<Longrightarrow> pcbs (set_files i fs s) ! i = (pcbs s ! i)\<lparr>p_files := fs\<rparr>"
  "k \<noteq> i \<Longrightarrow> pcbs (set_files i fs s) ! k = pcbs s ! k"
  "set_files i fs (set_files i fs' s) = set_files i fs s"
  by (simp_all add: set_files_def current_def get_current_pcb_def)
     (cases "i < length (pcbs s)"; simp add: list_update_beyond)

lemma halt_files_eq:
  assumes "set js \<subseteq> {2..<8}" "current s = Some i" "i < length (pcbs s)" "p_rtc (pcbs s ! i) = 0"
    and "files_ok (p_files (pcbs s ! i))"
  shows "for_opt (halt_file i) js s = Some (set_files i (fold close_entry js (p_files (pcbs s ! i))) s)"
  using assms
proof (induction js arbitrary: s)
  case Nil
  then show ?case by (simp add: set_files_def list_update_same_conv)
next
  case (Cons j js)
  let ?fs = "p_files (pcbs s ! i)"
  have "halt_file i j s = Some (set_files i (close_entry j ?fs) s)"
    using Cons.prems by (intro halt_file_eq) auto
  moreover have "for_opt (halt_file i) js (set_files i (close_entry j ?fs) s)
    = Some (set_files i (fold close_entry js (close_entry j ?fs)) s)"
    using Cons.IH [of "set_files i (close_entry j ?fs) s"] Cons.prems files_ok_close by simp
  ultimately show ?case by simp
qed

lemma length_close_entries [simp]: "length (fold close_entry js fs) = length fs"
  by (induction js arbitrary: fs) (simp_all add: close_entry_def)

lemma nth_close_entries:
  "j < length fs \<Longrightarrow> fold close_entry js fs ! j = (if j \<in> set js then (fs ! j)\<lparr>f_present := 0\<rparr> else fs ! j)"
proof (induction js arbitrary: fs)
  case (Cons a js)
  then show ?case by (cases "a = j") (simp_all add: close_entry_def)
qed simp

lemma close_entries: "length fs = 8 \<Longrightarrow> fold close_entry [2..<8] fs = clear_files fs"
proof -
  assume l: "length fs = 8"
  define js :: "nat list" where "js = [2..<8]"
  have "set js = {2..<8}" by (simp only: js_def set_upt)
  moreover have "Suc (Suc (j - 2)) = j" if "\<not> j < 2" for j using that by simp
  ultimately have "fold close_entry js fs = clear_files fs"
    using l by (intro nth_equalityI) (auto simp: clear_files_def nth_close_entries nth_append)
  then show ?thesis by (simp only: js_def)
qed

section \<open>Ending a process\<close>

text \<open>The stack belongs to process \<open>i\<close>, not one of the three shells, and its parent is process \<open>k\<close>; the
  suspended \<^verbatim>\<open>execute\<close> frame of the parent, on a kernel stack, holds the frame pointer \<open>b\<close> and the
  return address \<open>eip\<close>.\<close>

definition child_of :: "nat \<Rightarrow> nat \<Rightarrow> u32 \<Rightarrow> u32 \<Rightarrow> kstate \<Rightarrow> bool" where
  "child_of i k b eip s \<longleftrightarrow> current s = Some i \<and> length (pcbs s) = MAX_PROCESS \<and> k < MAX_PROCESS \<and>
     k \<noteq> i \<and> int TERMINAL_COUNT \<le> sint (p_pid (pcbs s ! i)) \<and> p_parent (pcbs s ! i) = pcb_addr k \<and>
     files_ok (p_files (pcbs s ! i)) \<and> unat (active_term_id s) < length (terms s) \<and>
     unat (p_parent_ebp (pcbs s ! i)) + 8 \<le> 0x800000 \<and>
     vload32 (p_parent_ebp (pcbs s ! i)) s = Some b \<and> vload32 (p_parent_ebp (pcbs s ! i) + 4) s = Some eip"

definition ended :: "nat \<Rightarrow> nat \<Rightarrow> u32 \<Rightarrow> kstate \<Rightarrow> kstate" where
  "ended i k b s = s\<lparr>
     pcbs := (pcbs s)[i := (pcbs s ! i)\<lparr>p_present := 0, p_vidmap := 0, p_rtc := 0,
       p_files := clear_files (p_files (pcbs s ! i))\<rparr>],
     terms := (terms s)[unat (active_term_id s) := (terms s ! unat (active_term_id s))
       \<lparr>t_to_be_halt := 0, t_pid := p_pid (pcbs s ! k)\<rparr>],
     mmu := set_user_page (2 + p_pid (pcbs s ! k)) (mmu s), tss_esp0 := p_esp0 (pcbs s ! k), tss_ss0 := KERNEL_DS,
     exception_occurred := 0, iflag := True, ebp := b, esp := p_parent_ebp (pcbs s ! i) + 8\<rparr>"

lemma translate_set_user_page:
  "unat (drop_bit 22 va) \<noteq> USER_ENTRY \<Longrightarrow> translate (set_user_page n p) va = translate p va"
  by (simp add: translate_def set_user_page_def page_dir_map_def table_entry_def nth_opt_def)

lemma kernel_address: "unat va < 0x800000 \<Longrightarrow> unat (drop_bit 22 va) \<noteq> USER_ENTRY"
proof -
  assume "unat va < 0x800000"
  then have "unat (drop_bit 22 va) < 2"
    by (subst unat_drop_bit_eq) (simp add: drop_bit_eq_div less_mult_imp_div_less)
  then show ?thesis by simp
qed

lemma vload32_cong:
  assumes "unat a + 4 \<le> 0x800000" "mmu t = set_user_page n (mmu s)" "phys t = phys s"
  shows "vload32 a t = vload32 a s"
proof -
  have "copy_in a n t = copy_in a n s" if "unat a + n \<le> 0x800000" for n a
    using that
  proof (induction n arbitrary: a)
    case (Suc n)
    have "vload a t = vload a s"
      using Suc.prems assms(2,3) translate_set_user_page [OF kernel_address [of a]]
      by (simp add: vload_def load_virtual_def)
    moreover have "unat (a + 1) = Suc (unat a)" using Suc.prems by (simp add: unat_word_ariths)
    then have "copy_in (a + 1) n t = copy_in (a + 1) n s" using Suc.prems by (intro Suc.IH) simp
    ultimately show ?case by (simp split: option.split)
  qed simp
  from this [of a 4] assms(1) show ?thesis by (simp add: vload32_def)
qed

lemma halt_eq:
  assumes "child_of i k b eip s"
  shows "halt clobber status s =
    Some (Resumes eip (if exception_occurred s \<noteq> 0 then 0x100 else ucast status), ended i k b s)"
proof -
  note c = assms [unfolded child_of_def]
  let ?p = "(pcbs s ! i)\<lparr>p_present := 0, p_vidmap := 0, p_rtc := 0\<rparr>"
  let ?s1 = "s\<lparr>iflag := False, pcbs := (pcbs s)[i := ?p]\<rparr>"
  let ?s2 = "set_files i (clear_files (p_files ?p)) ?s1"
  let ?s3 = "?s2\<lparr>terms := (terms s)[unat (active_term_id s) := (terms s ! unat (active_term_id s))\<lparr>t_to_be_halt := 0\<rparr>]\<rparr>"
  have i: "i < length (pcbs s)" "current s = Some i" using c by (auto simp: current_def dest: pcb_index_less)
  have m1: "map_pcb i (\<lambda>p. p\<lparr>p_present := 0, p_vidmap := 0, p_rtc := 0\<rparr>) (s\<lparr>iflag := False\<rparr>) = Some ?s1"
    using i by (simp add: map_pcb_eq)
  have "current ?s1 = Some i" using i(2) by (simp add: current_def get_current_pcb_def)
  then have "for_opt (halt_file i) [2..<8] ?s1 = Some (set_files i (fold close_entry [2..<8] (p_files (pcbs ?s1 ! i))) ?s1)"
    using i(1) c by (intro halt_files_eq) auto
  then have m2: "for_opt (halt_file i) [2..<8] ?s1 = Some ?s2"
    using i(1) c close_entries [of "p_files (pcbs s ! i)"] by (simp add: files_ok_def)
  have m3: "map_term (active_term_id ?s2) (\<lambda>u. u\<lparr>t_to_be_halt := 0\<rparr>) ?s2 = Some ?s3"
    using c by (simp add: map_term_eq)
  have p3: "get_pcb i ?s3 = Some (?p\<lparr>p_files := clear_files (p_files ?p)\<rparr>)" "get_pcb k ?s3 = Some (pcbs s ! k)"
    using i(1) c by (simp_all add: get_pcb_def nth_opt_Some set_files_def)
  let ?s4 = "?s3\<lparr>terms := (terms s)[unat (active_term_id s) := (terms s ! unat (active_term_id s))
    \<lparr>t_to_be_halt := 0, t_pid := p_pid (pcbs s ! k)\<rparr>]\<rparr>"
  have m4: "map_term (active_term_id ?s3) (\<lambda>u. u\<lparr>t_pid := p_pid (pcbs s ! k)\<rparr>) ?s3 = Some ?s4"
    using c by (simp add: map_term_eq)
  let ?s5 = "(map_mmu (set_user_page (2 + p_pid (pcbs s ! k))) ?s4)\<lparr>tss_esp0 := p_esp0 (pcbs s ! k), tss_ss0 := KERNEL_DS,
    exception_occurred := 0, iflag := True\<rparr>"
  let ?a = "p_parent_ebp (pcbs s ! i)"
  have a4: "unat (?a + 4) = unat ?a + 4" using c by (simp add: unat_word_ariths)
  have "vload32 ?a ?s5 = vload32 ?a s" "vload32 (?a + 4) ?s5 = vload32 (?a + 4) s"
    by (rule vload32_cong [where n = "2 + p_pid (pcbs s ! k)"]; use c a4 in \<open>simp add: map_mmu_def\<close>)+
  then have m5: "leave_ret ?a ?s5 = Some (eip, ?s5\<lparr>ebp := b, esp := ?a + 8\<rparr>)"
    using c by (simp add: leave_ret_def)
  have e: "?s5\<lparr>ebp := b, esp := ?a + 8\<rparr> = ended i k b s"
    using i(1) by (simp add: ended_def map_mmu_def set_files_def)
  have "halt_to_parent i status ?s3 =
      Some (Resumes eip (if exception_occurred s \<noteq> 0 then 0x100 else ucast status), ended i k b s)"
    unfolding e [symmetric] using p3 m4 m5 c by (simp add: halt_to_parent_def Let_def map_mmu_def)
  moreover have "\<not> sint (p_pid (pcbs s ! i)) < int TERMINAL_COUNT" using c by simp
  moreover have cu: "current (s\<lparr>iflag := False\<rparr>) = Some i" using i(2) by (simp add: current_def get_current_pcb_def)
  ultimately show ?thesis
    unfolding halt_def Let_def cu bind.bind_lunit m1 m2 m3 p3(1) by simp
qed

section \<open>Sample states\<close>

lemma kernel_mapped:
  assumes "mmu s = paging_init p" "wf_layout p" "0x400000 \<le> unat a" "unat a + n \<le> 0x800000"
  shows "mapped s a n a"
  unfolding mapped_def
proof (intro allI impI)
  fix k assume k: "k < n"
  have u: "unat (a + of_nat k) = unat a + k" using k assms(4) by (simp add: unat_word_ariths unat_of_nat)
  have "unat (drop_bit 22 (a + of_nat k)) = unat (1 :: u32)"
  proof (subst unat_drop_bit_eq, subst u)
    have "(unat a + k) div 0x400000 = 1" by (rule div_nat_eqI) (use k assms(3,4) in simp_all)
    then show "drop_bit 22 (unat a + k) = unat (1 :: u32)" by (simp add: drop_bit_eq_div)
  qed
  then have "drop_bit 22 (a + of_nat k) = 1" by (rule unsigned_word_eqI)
  then show "translate (mmu s) (a + of_nat k) = Some (a + of_nat k)"
    by (simp add: assms(1) paging_init_translate [OF assms(2)])
qed

text \<open>An image whose file \<^verbatim>\<open>ab\<close> is a program with the entry point 0x8048094.\<close>

definition elf_block :: "u8 list" where
  "elf_block = [0x7F, 0x45, 0x4C, 0x46] @ replicate 20 0 @ le32 0x8048094 @ replicate 4068 0"

definition exec_fs :: fsys where
  "exec_fs = sample_fs\<lparr>data_blocks := (data_blocks sample_fs)[1 := elf_block]\<rparr>"

definition exec_state :: kstate where
  "exec_state = sample_state\<lparr>disk := exec_fs\<rparr>"

lemma length_elf_block: "length elf_block = BLK"
  by (simp add: elf_block_def)

lemma exec_content: "file_content exec_fs 1 = elf_block @ replicate 3 2"
  by (simp add: file_content_def file_bytes_def used_blocks_def exec_fs_def sample_fs_def sample_inode_def
      length_elf_block)

lemma exec_program: "program_file exec_state [97, 98] 1 (elf_block @ replicate 3 2)"
proof -
  have "wf_fs exec_fs" unfolding exec_fs_def
    using wf_sample length_elf_block by (auto simp: wf_fs_def wf_inode_def wf_dentry_def used_blocks_def
      dest!: set_update_subset_insert [THEN subsetD])
  moreover have "dir_names exec_fs = [[46], [97, 98]]"
    using dir_names_sample by (simp add: dir_names_def exec_fs_def)
  moreover have "of_le32 [0x7F, 0x45, 0x4C, 0x46] = EXECUTABLE_MAGIC" by (simp add: of_le32_def)
  ultimately show ?thesis
    using exec_content by (simp add: program_file_def exec_state_def) (simp add: exec_fs_def sample_fs_def sample_dentry_def elf_block_def)
qed

lemma exec_free_pid: "free_pid exec_state = Some (Some 3)"
  by (simp add: free_pid_def exec_state_def sample_state_def sample_pcb_def slice_opt_def upt_rec eval_nat_numeral)

lemma copy_in_part:
  assumes "mapped s (a + of_nat off) n (b + of_nat off)" "phys s = put_bytes b bs m"
    and "off + n \<le> length bs" "length bs < 2 ^ 32"
  shows "copy_in (a + of_nat off) n s = take n (drop off bs)"
  unfolding copy_in_mapped [OF assms(1)] assms(2)
proof (rule nth_equalityI)
  fix k assume "k < length (map (\<lambda>k. put_bytes b bs m (b + of_nat off + of_nat k)) [0..<n])"
  then have k: "k < n" by simp
  have "b + of_nat off + of_nat k - b = (of_nat (off + k) :: u32)" by simp
  then have "unat (b + of_nat off + of_nat k - b) = off + k"
    using k assms(3,4) by (simp only: unat_of_nat_small)
  then show "map (\<lambda>k. put_bytes b bs m (b + of_nat off + of_nat k)) [0..<n] ! k = take n (drop off bs) ! k"
    using k assms(3,4) by (simp add: put_bytes_at)
qed (use assms(3) in simp)

definition child_state :: kstate where
  "child_state = sample_state\<lparr>esp := 0x7F9F00,
     pcbs := (pcbs sample_state)[3 := (sample_pcb 3)\<lparr>p_parent := pcb_addr 0, p_parent_ebp := 0x7FFF40\<rparr>],
     phys := put_bytes 0x7FFF40 (le32 0x7FFF80 @ le32 0x401234) (\<lambda>a. 0)\<rparr>"

lemma child_state_child: "child_of 3 0 0x7FFF80 0x401234 child_state"
proof -
  have m: "mapped child_state 0x7FFF40 4 0x7FFF40" "mapped child_state 0x7FFF44 4 0x7FFF44"
    by (rule kernel_mapped [OF _ wf_sample_layout]; simp add: child_state_def sample_state_def)+
  let ?bs = "le32 0x7FFF80 @ le32 0x401234"
  have ph: "phys child_state = put_bytes 0x7FFF40 ?bs (\<lambda>a. 0)" by (simp add: child_state_def)
  have "copy_in 0x7FFF40 4 child_state = le32 0x7FFF80" "copy_in 0x7FFF44 4 child_state = le32 0x401234"
    using copy_in_part [of child_state "0x7FFF40" 0 4 "0x7FFF40", OF _ ph]
      copy_in_part [of child_state "0x7FFF40" 4 4 "0x7FFF40", OF _ ph] m by simp_all
  then have "vload32 0x7FFF40 child_state = Some 0x7FFF80" "vload32 0x7FFF44 child_state = Some 0x401234"
    by (simp_all add: vload32_def slice_opt_def)
  moreover have "current child_state = Some 3"
    by (rule current_on_stack) (simp add: on_stack_of_def unat_pcb_addr child_state_def)
  moreover have "files_ok (p_files (sample_pcb 3))"
    by (auto simp: files_ok_def sample_pcb_def sample_file_def nth_Cons split: nat.splits)
  ultimately show ?thesis
    by (simp add: child_of_def child_state_def) (simp add: sample_state_def sample_pcb_def)
qed

section \<open>Properties\<close>

text \<open>C17: \<^verbatim>\<open>execute\<close> of a program in the file system, with a free process slot, enters user mode at the
  address in bytes 24 to 27 of the file. The process is the lowest free slot \<open>pid\<close>; user memory is its own 4 MB
  page, into which the file has been copied at 0x48000 (at most 0x3B8000 bytes); the kernel stack of the next
  entry is its own; the active terminal runs it; and no byte outside its page has changed.\<close>

theorem execute_starts:
  assumes "parse_command cmd = Some (fname, arg)" "program_file s fname inode c" "free_pid s = Some (Some pid)"
    and "user_dir_ok (mmu s)" "unat (active_term_id s) < length (terms s)"
  shows "\<exists>s'. execute clobber (Some cmd) s = Some (Enters_user (of_le32 (take 4 (drop 24 c))), s') \<and>
    pid < MAX_PROCESS \<and> p_present (pcbs s ! pid) = 0 \<and> (\<forall>j < pid. p_present (pcbs s ! j) \<noteq> 0) \<and>
    user_window (mmu s') pid \<and> tss_esp0 s' = pcb_addr pid + KERNEL_STACK_SIZE \<and>
    t_pid (terms s' ! unat (active_term_id s)) = of_nat pid \<and>
    phys s' = put_bytes (of_nat (user_base pid + 0x48000)) (take 0x3B8000 c) (phys s) \<and>
    (\<forall>q off. q < MAX_PROCESS \<longrightarrow> q \<noteq> pid \<longrightarrow> off < 0x400000 \<longrightarrow>
       phys s' (of_nat (user_base q + off)) = phys s (of_nat (user_base q + off)))"
proof -
  note free = free_pid_spec [OF assms(3)]
  let ?s' = "started clobber pid arg c s"
  let ?img = "take 0x3B8000 c"
  have phys: "phys ?s' = put_bytes (of_nat (user_base pid + 0x48000)) ?img (phys s)"
    by (simp add: started_def)
  have l: "length ?img \<le> 0x3B8000" by simp
  have other: "phys ?s' (of_nat (user_base q + off)) = phys s (of_nat (user_base q + off))"
    if q: "q < MAX_PROCESS" "q \<noteq> pid" "off < 0x400000" for q off
  proof -
    let ?a = "of_nat (user_base q + off) :: u32" and ?b = "of_nat (user_base pid + 0x48000) :: u32"
    have "\<not> unat (?a - ?b) < length ?img"
    proof
      assume k: "unat (?a - ?b) < length ?img"
      have "?a = of_nat (user_base pid + (0x48000 + unat (?a - ?b)))" by simp
      moreover have "0x48000 + unat (?a - ?b) < 0x400000" using k l by linarith
      ultimately show False using user_base_disjoint [OF q(1) conjunct1 [OF free] q(2,3)] by blast
    qed
    moreover have "length ?img < 2 ^ 32" using l by simp
    ultimately show ?thesis unfolding phys by (simp only: put_bytes_at if_False)
  qed
  have "user_window (mmu ?s') pid"
    using set_up_paging_window(1) [OF assms(4)] free by (simp add: started_def)
  moreover have "tss_esp0 ?s' = pcb_addr pid + KERNEL_STACK_SIZE"
    by (simp add: started_def pcb_addr_def algebra_simps)
  moreover have "t_pid (terms ?s' ! unat (active_term_id s)) = of_nat pid"
    using assms(5) by (simp add: started_def)
  ultimately show ?thesis using execute_eq [OF assms, of clobber] free phys other by blast
qed

theorem execute_starts_witness:
  "\<exists>s'. execute id (Some [32, 97, 98, 32, 120]) exec_state = Some (Enters_user 0x8048094, s') \<and>
     user_window (mmu s') 3 \<and> tss_esp0 s' = 0x7FA000"
proof -
  have p: "parse_command [32, 97, 98, 32, 120] = Some ([97, 98], Some [120])" by (simp add: parse_command_def)
  have u: "user_dir_ok (mmu exec_state)" "unat (active_term_id exec_state) < length (terms exec_state)"
    using user_dir_ok_init by (simp_all add: exec_state_def sample_state_def)
  have "drop 24 (elf_block @ replicate 3 2) = le32 0x8048094 @ replicate 4068 0 @ replicate 3 2"
    by (simp add: elf_block_def)
  then have e: "of_le32 (take 4 (drop 24 (elf_block @ replicate 3 2))) = 0x8048094" by simp
  have t: "pcb_addr 3 + KERNEL_STACK_SIZE = 0x7FA000" by (simp add: pcb_addr_def)
  show ?thesis
    using execute_starts [OF p exec_program exec_free_pid u, of id] unfolding e t by blast
qed

text \<open>C18: \<^verbatim>\<open>halt\<close> of a process that a shell or another program has started resumes the suspended
  \<^verbatim>\<open>execute\<close> of its parent, with the status (256 after an exception) as the result; user memory, the kernel
  stack and the terminal are those of the parent again; the slot is free, and every descriptor from 2 on is closed;
  no other process has changed.\<close>

theorem halt_returns_to_parent:
  assumes "child_of i k b eip s" "user_dir_ok (mmu s)" "p_pid (pcbs s ! k) = of_nat k"
  shows "\<exists>s'. halt clobber status s =
      Some (Resumes eip (if exception_occurred s \<noteq> 0 then 0x100 else ucast status), s') \<and>
    ebp s' = b \<and> esp s' = p_parent_ebp (pcbs s ! i) + 8 \<and>
    get_field 22 10 (page_directories (mmu s') ! USER_ENTRY) = 2 + of_nat k \<and>
    tss_esp0 s' = p_esp0 (pcbs s ! k) \<and> t_pid (terms s' ! unat (active_term_id s)) = of_nat k \<and>
    p_present (pcbs s' ! i) = 0 \<and> (\<forall>j. 2 \<le> j \<and> j < 8 \<longrightarrow> f_present (p_files (pcbs s' ! i) ! j) = 0) \<and>
    (\<forall>q. q \<noteq> i \<longrightarrow> pcbs s' ! q = pcbs s ! q)"
proof -
  note c = assms(1) [unfolded child_of_def]
  have i: "i < length (pcbs s)" using c by (auto simp: current_def dest: pcb_index_less)
  let ?s' = "ended i k b s"
  have "get_field 22 10 (page_directories (mmu ?s') ! USER_ENTRY) = 2 + of_nat k"
    using assms(2,3) c small_field [of k] by (simp add: ended_def set_user_page_def user_dir_ok_def get_set_field_same)
  moreover have "f_present (p_files (pcbs ?s' ! i) ! j) = 0" if "2 \<le> j" "j < 8" for j
    using that i c by (simp add: ended_def clear_files_def files_ok_def nth_append)
  ultimately show ?thesis
    using halt_eq [OF assms(1), of clobber status] i c assms(3)
    by (intro exI [of _ ?s']) (auto simp: ended_def)
qed

theorem halt_returns_to_parent_witness:
  "\<exists>s'. halt id 7 child_state = Some (Resumes 0x401234 7, s') \<and> ebp s' = 0x7FFF80 \<and> esp s' = 0x7FFF48"
proof -
  have "user_dir_ok (mmu child_state)" "p_pid (pcbs child_state ! 0) = of_nat 0" "exception_occurred child_state = 0"
    "p_parent_ebp (pcbs child_state ! 3) = 0x7FFF40"
    using user_dir_ok_init by (simp_all add: child_state_def sample_state_def sample_pcb_def upt_conv_Cons)
  then show ?thesis using halt_returns_to_parent [OF child_state_child, of id 7] by auto
qed

end
