(* ===== verification/Syscall.thy ===== *)
theory Syscall imports Process begin

text \<open>
  The other system calls of \<^verbatim>\<open>src/student-distrib/syscall.c\<close>: \<^verbatim>\<open>getargs\<close>, \<^verbatim>\<open>vidmap\<close>,
  \<^verbatim>\<open>create\<close>, \<^verbatim>\<open>delete\<close> and the two signal stubs, and the table of \<^verbatim>\<open>linkage.S\<close> that dispatches
  on the number in \<^verbatim>\<open>eax\<close>. The reserved bytes of a directory entry that \<^verbatim>\<open>create\<close> never
  initialises are a parameter.
\<close>

section \<open>Arguments and video memory\<close>

text \<open>A user-level address: not null and inside the 4 MB of user memory.\<close>

definition in_user_page :: "u32 \<Rightarrow> bool" where
  "in_user_page a \<longleftrightarrow> a \<noteq> 0 \<and> drop_bit 22 a = of_nat USER_ENTRY"

text \<open>The copy: \<open>n\<close> characters at most, then a terminator. Running off the array is \<open>None\<close>.\<close>

fun getargs_copy :: "u8 list \<Rightarrow> int \<Rightarrow> u32 \<Rightarrow> kstate \<Rightarrow> kstate option" where
  "getargs_copy [] n dest s = None"
| "getargs_copy (c # src) n dest s =
     (if c \<noteq> 0 \<and> 0 < n then do { s \<leftarrow> vstore dest c s; getargs_copy src (n - 1) (dest + 1) s }
      else vstore dest 0 s)"

definition getargs :: "u32 \<Rightarrow> i32 \<Rightarrow> kstate \<Rightarrow> result" where
  "getargs buf count s =
     (if \<not> in_user_page buf then Some (-1, s)
      else do {
        i \<leftarrow> current s;
        p \<leftarrow> get_pcb i s;
        s \<leftarrow> getargs_copy (p_argv p) (sint count) buf s;
        Some (0, s)
      })"

definition vidmap_page :: "kstate \<Rightarrow> i32 \<Rightarrow> u32" where
  "vidmap_page s pid =
     (if active_term_id s = shown_term_id s then of_nat VIDMEM_INDEX else of_nat VIDMEM_INDEX + pid + 2)"

definition vidmap :: "u32 \<Rightarrow> kstate \<Rightarrow> result" where
  "vidmap start s =
     (if \<not> in_user_page start then Some (-1, s)
      else do {
        i \<leftarrow> current s;
        s \<leftarrow> map_pcb i (\<lambda>p. p\<lparr>p_vidmap := 1\<rparr>) s;
        p \<leftarrow> get_pcb i s;
        let s = map_mmu (user_pte_map VIDMEM_INDEX (set_present 1)) s;
        let s = map_mmu (user_pte_map VIDMEM_INDEX (set_page_base_address (vidmap_page s (p_pid p)))) s;
        s \<leftarrow> copy_out start (le32 ((push_bit 22 (of_nat VIDMEM_INDEX) OR push_bit 12 (of_nat VIDMEM_INDEX)) AND 0xFFFFF000)) s;
        Some (0, s)
      })"

definition set_handler :: "i32 \<Rightarrow> u32 \<Rightarrow> kstate \<Rightarrow> result" where
  "set_handler signum handler_address s = Some (0, s)"

definition sigreturn :: "kstate \<Rightarrow> result" where
  "sigreturn s = Some (0, s)"

section \<open>Creating a file\<close>

definition pad_name :: "u8 list \<Rightarrow> u8 list" where
  "pad_name s = take FS_MAX_LEN s @ replicate (FS_MAX_LEN - length s) 0"

text \<open>The new entry goes behind the counted ones; the array has 63.\<close>

definition add_dentry :: "dentry_t \<Rightarrow> fsys \<Rightarrow> fsys option" where
  "add_dentry den fs = do {
     n \<leftarrow> nth_opt (inode_blocks fs) (unat (inode_num den));
     let fs = fs\<lparr>inode_blocks := (inode_blocks fs)[unat (inode_num den) := n\<lparr>file_size := 0\<rparr>]\<rparr>;
     let b = boot_block fs;
     ds \<leftarrow> upd_opt (dentries b) (unat (dentry_count b)) den;
     Some (fs\<lparr>boot_block := b\<lparr>dentries := ds, dentry_count := dentry_count b + 1\<rparr>\<rparr>)
   }"

text \<open>The body of the loop for the free descriptor \<open>i\<close>.\<close>

definition create_at :: "u8 list \<Rightarrow> nat \<Rightarrow> nat \<Rightarrow> cstr \<Rightarrow> kstate \<Rightarrow> result" where
  "create_at junk c i fname s = do {
     (r, den) \<leftarrow> read_dentry_by_name (disk s) fname;
     if r \<noteq> -1 then Some (-1, s)
     else do {
       inode \<leftarrow> find_free_inode (disk s);
       if inode = -1 then Some (-1, s)
       else do {
         name \<leftarrow> fname;
         fs \<leftarrow> add_dentry \<lparr>file_name = pad_name name, file_type = 2, inode_num = inode, dentry_reserved = junk\<rparr> (disk s);
         s \<leftarrow> map_file c (of_nat i) (set_up_file (file_ops_map ! 2) inode) (s\<lparr>disk := fs\<rparr>);
         Some (of_nat i, s)
       }
     }
   }"

definition create :: "u8 list \<Rightarrow> cstr \<Rightarrow> kstate \<Rightarrow> result" where
  "create junk fname s = do {
     c \<leftarrow> current s;
     p \<leftarrow> get_pcb c s;
     free \<leftarrow> free_fd (p_files p);
     case free of None \<Rightarrow> Some (-1, s) | Some i \<Rightarrow> create_at junk c i fname s
   }"

section \<open>Deleting a file\<close>

text \<open>Some process that is not a shell has a descriptor on the inode.\<close>

definition inode_in_use :: "u32 \<Rightarrow> kstate \<Rightarrow> bool option" where
  "inode_in_use inode s = do {
     ps \<leftarrow> slice_opt (pcbs s) TERMINAL_COUNT (MAX_PROCESS - TERMINAL_COUNT);
     Some (\<exists>p \<in> set ps. \<exists>f \<in> set (take 6 (drop 2 (p_files p))). f_present f \<noteq> 0 \<and> f_inode f = inode)
   }"

text \<open>The loop that clears the blocks of inode \<open>n\<close>: it clears the map entry \<open>i\<close> of the loop counter,
  and looks at the block list before it tests the bound.\<close>

function clear_blocks :: "inode_t \<Rightarrow> nat \<Rightarrow> fsys \<Rightarrow> fsys option" where
  "clear_blocks n i fs = do {
     b \<leftarrow> nth_opt (inode_data_blocks n) i;
     if b \<noteq> 0 \<and> i < unat (inode_count (boot_block fs)) then do {
       d \<leftarrow> nth_opt (data_blocks fs) (unat b);
       m \<leftarrow> upd_opt (data_block_bitmap fs) i 0;
       clear_blocks n (Suc i) (fs\<lparr>data_blocks := (data_blocks fs)[unat b := replicate BLK 0], data_block_bitmap := m\<rparr>)
     } else Some fs
   }"
  by pat_completeness auto
termination
  by (relation "measure (\<lambda>(n, i, fs). length (inode_data_blocks n) - i)") auto

declare clear_blocks.simps [simp del]

definition zero_dentry :: dentry_t where
  "zero_dentry = \<lparr>file_name = replicate FS_MAX_LEN 0, file_type = 0, inode_num = 0, dentry_reserved = replicate 24 0\<rparr>"

text \<open>The entries behind \<open>index\<close> move down by one and the last counted one is zeroed.\<close>

definition remove_dentry :: "nat \<Rightarrow> fsys \<Rightarrow> fsys option" where
  "remove_dentry index fs = do {
     let b = boot_block fs;
     let count = unat (dentry_count b);
     moved \<leftarrow> slice_opt (dentries b) (index + 1) (count - index - 1);
     ds \<leftarrow> blit_opt (dentries b) index moved;
     ds \<leftarrow> upd_opt ds (count - 1) zero_dentry;
     Some (fs\<lparr>boot_block := b\<lparr>dentries := ds, dentry_count := dentry_count b - 1\<rparr>\<rparr>)
   }"

definition delete :: "mem \<Rightarrow> cstr \<Rightarrow> kstate \<Rightarrow> result" where
  "delete frame fname s = do {
     (r, den) \<leftarrow> read_dentry_by_name (disk s) fname;
     if r = -1 then do {
       (_, s) \<leftarrow> printf frame (map of_char ''File does not exist!'' @ [10]) [] s;
       Some (-1, s)
     }
     else do {
       den \<leftarrow> den;
       used \<leftarrow> inode_in_use (inode_num den) s;
       if used then do {
         (_, s) \<leftarrow> printf frame (map of_char ''File is openning in other process(es)!'' @ [10]) [] s;
         Some (-1, s)
       }
       else do {
         n \<leftarrow> nth_opt (inode_blocks (disk s)) (unat (inode_num den));
         fs \<leftarrow> clear_blocks n 0 (disk s);
         fs \<leftarrow> remove_dentry (unat r) fs;
         io \<leftarrow> flush_image fs (ports s);
         Some (0, s\<lparr>disk := fs, ports := io\<rparr>)
       }
     }
   }"

section \<open>The dispatch\<close>

text \<open>A user-level string argument.\<close>

partial_function (option) user_string :: "u32 \<Rightarrow> kstate \<Rightarrow> u8 list option" where
  "user_string a s = do {
     b \<leftarrow> vload a s;
     if b = 0 then Some [] else do { bs \<leftarrow> user_string (a + 1) s; Some (b # bs) }
   }"

definition user_cstr :: "u32 \<Rightarrow> kstate \<Rightarrow> cstr option" where
  "user_cstr a s = (if a = 0 then Some None else do { bs \<leftarrow> user_string a s; Some (Some bs) })"

definition returning :: "result \<Rightarrow> (outcome \<times> kstate) option" where
  "returning r = do { (v, s) \<leftarrow> r; Some (Returns v, s) }"

text \<open>The choices the compiler and the caller's stack make: the effect of the over-long copy of
  \<^verbatim>\<open>execute\<close>, the uninitialised bytes of \<^verbatim>\<open>create\<close>, the frame of \<^verbatim>\<open>printf\<close>.\<close>

record frame_env =
  env_clobber :: "file_t list \<Rightarrow> file_t list"
  env_junk :: "u8 list"
  env_frame :: mem

text \<open>\<^verbatim>\<open>syscall_entries\<close>: the number is in \<^verbatim>\<open>eax\<close>, the arguments in \<^verbatim>\<open>ebx\<close>, \<^verbatim>\<open>ecx\<close> and \<^verbatim>\<open>edx\<close>.\<close>

definition system_call :: "frame_env \<Rightarrow> irq list \<Rightarrow> u32 \<Rightarrow> u32 \<Rightarrow> u32 \<Rightarrow> u32 \<Rightarrow> kstate \<Rightarrow> (outcome \<times> kstate) option" where
  "system_call env irqs eax ebx ecx edx s =
     (if eax = 1 then halt (env_clobber env) (ucast ebx) s
      else if eax = 2 then do { str \<leftarrow> user_cstr ebx s; execute (env_clobber env) str s }
      else if eax = 3 then returning (sys_read irqs ebx ecx edx s)
      else if eax = 4 then returning (sys_write ebx ecx edx s)
      else if eax = 5 then do { str \<leftarrow> user_cstr ebx s; returning (sys_open str s) }
      else if eax = 6 then returning (sys_close ebx s)
      else if eax = 7 then returning (getargs ebx ecx s)
      else if eax = 8 then returning (vidmap ebx s)
      else if eax = 9 then returning (set_handler ebx ecx s)
      else if eax = 10 then returning (sigreturn s)
      else if eax = 11 then do { str \<leftarrow> user_cstr ebx s; returning (create (env_junk env) str s) }
      else if eax = 12 then do { str \<leftarrow> user_cstr ebx s; returning (delete (env_frame env) str s) }
      else Some (Returns (-1), s))"

end
