(* ===== verification/Sched.thy ===== *)
theory Sched imports Syscall begin

text \<open>
  The scheduler of \<^verbatim>\<open>src/student-distrib/sched.c\<close> and the terminal switch of \<^verbatim>\<open>lib.c\<close>. Three terminals
  share the processor; each runs one process, the end of a chain of suspended parents. Both the timer
  interrupt and a function key suspend the current process by storing its frame pointer and resume another
  one by loading the frame pointer stored earlier, so a call ends in another frame: the outcome is the address
  execution goes on at, or what \<^verbatim>\<open>halt\<close> does when the terminal resumed has been interrupted with Ctrl-C.
\<close>

abbreviation PIT_FREQUENCY :: int where "PIT_FREQUENCY \<equiv> 1193182"
abbreviation PIT_SQUARE_MODE :: u8 where "PIT_SQUARE_MODE \<equiv> 0x36"
abbreviation PIT_CHANNEL_0 :: u16 where "PIT_CHANNEL_0 \<equiv> 0x40"
abbreviation PIT_COMMAND :: u16 where "PIT_COMMAND \<equiv> 0x43"
abbreviation USER_CS :: u32 where "USER_CS \<equiv> 0x23"
abbreviation USER_DS :: u32 where "USER_DS \<equiv> 0x2B"

datatype switched = Switched u32 | Halted outcome

section \<open>The timer\<close>

text \<open>A frequency of 0 divides by zero.\<close>

definition pit_init :: "u16 \<Rightarrow> kstate \<Rightarrow> kstate option" where
  "pit_init frequency s =
     (if frequency = 0 then None
      else
        let param = word_of_int (PIT_FREQUENCY div uint frequency) :: u16;
            io = outb (ucast PIT_SQUARE_MODE) PIT_COMMAND (ports s);
            io = outb (ucast (param AND 0xFF)) PIT_CHANNEL_0 io;
            io = outb (ucast (drop_bit 8 param AND 0xFF)) PIT_CHANNEL_0 io;
            (p, io) = enable_irq 0 (pics s, io)
        in Some (s\<lparr>pics := p, ports := io\<rparr>))"

section \<open>Switching the context\<close>

text \<open>The page-table entries of the video page, for the kernel and for user programs.\<close>

definition set_video_pages :: "u32 \<Rightarrow> kstate \<Rightarrow> kstate" where
  "set_video_pages n s =
     (let s = map_mmu (kernel_pte_map VIDMEM_INDEX (set_page_base_address n)) s
      in map_mmu (user_pte_map VIDMEM_INDEX (set_page_base_address n)) s)"

definition video_page_of :: "u32 \<Rightarrow> u32" where
  "video_page_of t = of_nat VIDMEM_INDEX + t + 2"

text \<open>\<^verbatim>\<open>pcbs[pid]\<close>: an index outside the array has no defined result.\<close>

definition pcb_of_pid :: "i32 \<Rightarrow> kstate \<Rightarrow> nat option" where
  "pcb_of_pid pid s = do { p \<leftarrow> get_pcb (unat pid) s; Some (unat pid) }"

text \<open>The current process is suspended, and user memory, the kernel stack and the user's video page become
  those of process \<open>n\<close>.\<close>

definition change_process :: "nat \<Rightarrow> kstate \<Rightarrow> kstate option" where
  "change_process n s = do {
     c \<leftarrow> current s;
     s \<leftarrow> map_pcb c (\<lambda>p. p\<lparr>p_ebp := ebp s\<rparr>) s;
     s \<leftarrow> map_pcb c (\<lambda>p. p\<lparr>p_esp0 := tss_esp0 s\<rparr>) s;
     p \<leftarrow> get_pcb n s;
     let s = s\<lparr>tss_esp0 := p_esp0 p\<rparr>;
     let s = map_mmu (set_user_page (2 + p_pid p)) s;
     Some (map_mmu (user_pte_map VIDMEM_INDEX (set_present (ucast (p_vidmap p)))) s)
   }"

definition push32 :: "u32 \<Rightarrow> kstate \<Rightarrow> kstate option" where
  "push32 v s = do {
     let s = s\<lparr>esp := esp s - 4\<rparr>;
     copy_out (esp s) (le32 v) s
   }"

text \<open>The end of \<^verbatim>\<open>pit_handler\<close>: \<^verbatim>\<open>halt(6)\<close>, called on the stack just switched to, when the terminal has
  been interrupted; \<open>here\<close> is the return address the call pushes.\<close>

definition interrupted ::
    "(file_t list \<Rightarrow> file_t list) \<Rightarrow> u32 \<Rightarrow> u32 \<Rightarrow> kstate \<Rightarrow> (switched \<times> kstate) option" where
  "interrupted clobber here a s = do {
     b \<leftarrow> vload32 a s;
     s \<leftarrow> push32 6 (s\<lparr>ebp := b, esp := a + 4\<rparr>);
     s \<leftarrow> push32 here s;
     (r, s) \<leftarrow> halt clobber 6 s;
     Some (Halted r, s)
   }"

definition resume :: "u32 \<Rightarrow> kstate \<Rightarrow> (switched \<times> kstate) option" where
  "resume a s = do { (eip, s) \<leftarrow> leave_ret a s; Some (Switched eip, s) }"

definition next_terminal :: "u32 \<Rightarrow> u32" where
  "next_terminal t = (t + 1) mod of_nat TERMINAL_COUNT"

definition pit_handler :: "(file_t list \<Rightarrow> file_t list) \<Rightarrow> u32 \<Rightarrow> kstate \<Rightarrow> (switched \<times> kstate) option" where
  "pit_handler clobber here s = do {
     let s = s\<lparr>ports := send_eoi 0 (ports s)\<rparr>;
     let (x, y) = get_screen_coordinate s;
     s \<leftarrow> set_term_cursor (active_term_id s) x y s;
     let next_id = next_terminal (active_term_id s);
     u \<leftarrow> get_term next_id s;
     let s = (if next_id = shown_term_id s
              then move_cursor (t_cursor_x u) (t_cursor_y u) (set_video_pages (of_nat VIDMEM_INDEX) s)
              else set_video_pages (video_page_of next_id) s);
     let s = set_screen_coordinate (t_cursor_x u) (t_cursor_y u) s;
     let s = s\<lparr>active_term_id := next_id\<rparr>;
     n \<leftarrow> pcb_of_pid (t_pid u) s;
     s \<leftarrow> change_process n s;
     p \<leftarrow> get_pcb n s;
     if t_to_be_halt u \<noteq> 0 then interrupted clobber here (p_ebp p) s else resume (p_ebp p) s
   }"

section \<open>Switching the terminal\<close>

text \<open>\<^verbatim>\<open>memcpy\<close> of a page; the two pages never overlap.\<close>

definition copy_page :: "u32 \<Rightarrow> u32 \<Rightarrow> kstate \<Rightarrow> kstate option" where
  "copy_page dst src s = do {
     bytes \<leftarrow> slice_opt (copy_in src (unat VIDEO_SIZE) s) 0 (unat VIDEO_SIZE);
     copy_out dst bytes s
   }"

text \<open>\<^verbatim>\<open>None\<close> as the address: the call returns to its caller without a switch.\<close>

definition switch_terminal :: "u32 \<Rightarrow> kstate \<Rightarrow> (u32 option \<times> kstate) option" where
  "switch_terminal next_id s =
     (if next_id = shown_term_id s then Some (None, s)
      else do {
        let s = s\<lparr>iflag := False\<rparr>;
        s \<leftarrow> copy_page (VIDEO + (shown_term_id s + 2) * VIDEO_SIZE) (VIDEO + VIDEO_SIZE) s;
        s \<leftarrow> copy_page (VIDEO + VIDEO_SIZE) (VIDEO + (next_id + 2) * VIDEO_SIZE) s;
        let (x, y) = get_screen_coordinate s;
        s \<leftarrow> set_term_cursor (active_term_id s) x y s;
        let s = set_video_pages (of_nat VIDMEM_INDEX) s;
        u \<leftarrow> get_term next_id s;
        let s = set_screen_coordinate (t_cursor_x u) (t_cursor_y u) s;
        let s = move_cursor (t_cursor_x u) (t_cursor_y u) s;
        n \<leftarrow> pcb_of_pid (t_pid u) s;
        let s = s\<lparr>active_term_id := next_id, shown_term_id := next_id\<rparr>;
        s \<leftarrow> change_process n s;
        p \<leftarrow> get_pcb n s;
        (eip, s) \<leftarrow> leave_ret (p_ebp p) (s\<lparr>iflag := True\<rparr>);
        Some (Some eip, s)
      })"

section \<open>Starting the shells\<close>

definition reset_terminal :: "nat \<Rightarrow> terminal_t \<Rightarrow> terminal_t" where
  "reset_terminal pid u = u\<lparr>t_pid := of_nat pid, t_content := replicate MAX_TERMINAL 0, t_length := 0,
     t_in_progress := 0, t_to_be_halt := 0, t_cursor_x := 0, t_cursor_y := 0\<rparr>"

definition reset_shell_pcb :: "nat \<Rightarrow> pcb_t \<Rightarrow> pcb_t" where
  "reset_shell_pcb pid p =
     (let p = p\<lparr>p_present := 1, p_vidmap := 0, p_rtc := 0, p_pid := of_nat pid, p_parent := 0, p_parent_ebp := 0,
                p_esp0 := KERNEL_STACK - KERNEL_STACK_SIZE * of_nat pid\<rparr>
      in p\<lparr>p_files := std_files (p_files p)\<rparr>)"

text \<open>The frame of an interrupt return and, below it, of a return to \<^verbatim>\<open>iret_exec\<close>, built on the kernel stack at
  \<open>esp0\<close>; the result is the frame pointer that resumes it. \<open>eflags\<close> is what \<^verbatim>\<open>pushfl\<close> pushes and \<open>iret_exec\<close> the
  address of the \<^verbatim>\<open>iret\<close> instruction.\<close>

definition user_frame :: "u32 \<Rightarrow> u32 \<Rightarrow> u32 \<Rightarrow> u32 \<Rightarrow> kstate \<Rightarrow> (u32 \<times> kstate) option" where
  "user_frame eflags iret_exec esp0 entry s = do {
     let esi = esp s;
     s \<leftarrow> for_opt push32 [USER_DS, USER_STACK, eflags, USER_CS, entry, iret_exec, entry] (s\<lparr>esp := esp0\<rparr>);
     Some (esp s, s\<lparr>esp := esi\<rparr>)
   }"

definition start_shell :: "u32 \<Rightarrow> u32 \<Rightarrow> u32 \<Rightarrow> nat \<Rightarrow> kstate \<Rightarrow> kstate option" where
  "start_shell eflags iret_exec inode pid s = do {
     s \<leftarrow> map_term (of_nat pid) (reset_terminal pid) s;
     s \<leftarrow> map_pcb pid (reset_shell_pcb pid) s;
     let s = map_mmu (set_user_page (2 + of_nat pid)) s;
     (entry, s) \<leftarrow> load_program inode s;
     p \<leftarrow> get_pcb pid s;
     (a, s) \<leftarrow> user_frame eflags iret_exec (p_esp0 p) entry s;
     map_pcb pid (\<lambda>p. p\<lparr>p_ebp := a\<rparr>) s
   }"

definition set_up_shell_paging :: "paging \<Rightarrow> paging" where
  "set_up_shell_paging p =
     (let p = page_dir_map USER_ENTRY (set_present 1) p;
          p = page_dir_map USER_ENTRY (set_user_supervisor 1) p;
          p = page_dir_map USER_ENTRY (set_read_write 1) p;
          p = kernel_pte_map (VIDMEM_INDEX + 1) (set_present 1) p;
          p = kernel_pte_map (VIDMEM_INDEX + 1) (set_page_base_address (of_nat VIDMEM_INDEX)) p;
          p = kernel_pte_map (VIDMEM_INDEX + 2) (set_present 1) p;
          p = kernel_pte_map (VIDMEM_INDEX + 3) (set_present 1) p
      in kernel_pte_map (VIDMEM_INDEX + 4) (set_present 1) p)"

text \<open>\<^verbatim>\<open>Switched\<close> is the jump to the shell of the first terminal, \<^verbatim>\<open>Halted (Returns 0)\<close> the return when there is
  no executable shell.\<close>

definition initiate_shells :: "mem \<Rightarrow> u32 \<Rightarrow> u32 \<Rightarrow> kstate \<Rightarrow> (switched \<times> kstate) option" where
  "initiate_shells frame eflags iret_exec s = do {
     let s = map_mmu set_up_shell_paging s;
     inode \<leftarrow> check_executable (map of_char ''shell'') s;
     case inode of
       None \<Rightarrow> do {
         (_, s) \<leftarrow> printf frame (map of_char ''Executable shell was not found!'') [] s;
         Some (Halted (Returns 0), s)
       }
     | Some inode \<Rightarrow> do {
         s \<leftarrow> for_opt (start_shell eflags iret_exec inode) [2, 1, 0] s;
         p \<leftarrow> get_pcb 0 s;
         let s = s\<lparr>tss_esp0 := p_esp0 p, tss_ss0 := KERNEL_DS\<rparr>;
         s \<leftarrow> pit_init 100 s;
         resume (p_ebp p) (set_screen_coordinate 0 0 s)
       }
   }"

end
