(* ===== verification/KernelMap.thy ===== *)
theory KernelMap imports Sched begin

text \<open>
  The part of the paging tables that scheduling relies on: the 4 MB page of the kernel, and the page table with
  the video page, the page of the screen and the pages that keep the screens of hidden terminals. The
  updates of \<^verbatim>\<open>sched.c\<close>, \<^verbatim>\<open>syscall.c\<close> and \<^verbatim>\<open>lib.c\<close> keep it, and change exactly the frame they name.
\<close>

section \<open>The kernel's own page\<close>

definition kernel_dir :: "paging \<Rightarrow> bool" where
  "kernel_dir p \<longleftrightarrow> length (page_directories p) = PAGING_COUNT \<and>
     bit (page_directories p ! 1) 0 \<and> bit (page_directories p ! 1) 7 \<and> get_field 22 10 (page_directories p ! 1) = 1"

text \<open>Entry 0 of the directory names the table of the video pages.\<close>

definition video_dir :: "paging \<Rightarrow> bool" where
  "video_dir p \<longleftrightarrow> length (page_directories p) = PAGING_COUNT \<and> length (page_table_kernel_vidmem p) = PAGING_COUNT \<and>
     bit (page_directories p ! 0) 0 \<and> \<not> bit (page_directories p ! 0) 7 \<and>
     page_directories p ! 0 AND 0xFFFFF000 = kernel_table_at p"

text \<open>Page \<open>i\<close> of the first 4 MB is mapped to frame \<open>f\<close>.\<close>

definition frame_at :: "paging \<Rightarrow> nat \<Rightarrow> u32 \<Rightarrow> bool" where
  "frame_at p i f \<longleftrightarrow> bit (page_table_kernel_vidmem p ! i) 0 \<and> get_field 12 20 (page_table_kernel_vidmem p ! i) = f"

definition video_map :: "paging \<Rightarrow> u32 \<Rightarrow> bool" where
  "video_map p f \<longleftrightarrow> kernel_dir p \<and> video_dir p \<and> user_dir_ok p \<and> frame_at p VIDMEM_INDEX f \<and> frame_at p (VIDMEM_INDEX + 1) 0xB8 \<and>
     frame_at p (VIDMEM_INDEX + 2) 0xBA \<and> frame_at p (VIDMEM_INDEX + 3) 0xBB \<and> frame_at p (VIDMEM_INDEX + 4) 0xBC"

lemma small_page_base:
  assumes "get_field 12 20 e = n"
  shows "e AND 0xFFFFF000 = push_bit 12 n"
  unfolding assms [symmetric]
  by (rule bit_word_eqI) (auto simp: page_masks bit_simps bit_get_field)

lemma small_page_sum: "(push_bit 12 n OR (va AND 0xFFF) :: u32) = push_bit 12 n + take_bit 12 va"
  unfolding page_masks take_bit_eq_mask [symmetric]
  by (rule disjunctive_add [symmetric]) (auto simp: bit_simps)

lemma translate_kernel:
  assumes "kernel_dir p" "0x400000 \<le> unat va" "unat va < 0x800000"
  shows "translate p va = Some va"
proof -
  have i: "unat (drop_bit 22 va) = 1"
  proof (subst unat_drop_bit_eq)
    have "unat va div 0x400000 = 1" by (rule div_nat_eqI) (use assms in simp_all)
    then show "drop_bit 22 (unat va) = 1" by (simp add: drop_bit_eq_div)
  qed
  have h: "drop_bit 22 va = 1" using i by (metis unat_1 unsigned_word_eqI)
  have e: "push_bit 22 1 OR (va AND 0x3FFFFF) = va"
    unfolding big_page_sum using bits_ident [of 22 va] unfolding h .
  note d = assms(1) [unfolded kernel_dir_def] and b = big_page_base [of "page_directories p ! 1" 1]
  have "translate p va = Some ((page_directories p ! 1 AND 0xFFC00000) OR (va AND 0x3FFFFF))"
    using d i by (simp add: translate_def nth_opt_Some)
  also have "(page_directories p ! 1 AND 0xFFC00000) OR (va AND 0x3FFFFF) = va"
    using d b e by (simp only:)
  finally show ?thesis .
qed

lemma translate_frame:
  assumes "video_dir p" "frame_at p i f" "i < PAGING_COUNT" "off < 4096"
  shows "translate p (of_nat (i * 4096 + off)) = Some (push_bit 12 f + of_nat off)"
proof -
  let ?va = "of_nat (i * 4096 + off) :: u32"
  have "i * 4096 + off < PAGING_COUNT * 4096" using assms(3,4) by simp
  then have u: "unat ?va = i * 4096 + off" by (intro unat_of_nat_small) simp
  have "unat (drop_bit 12 ?va) = i"
    unfolding unat_drop_12 u using assms(4) by simp
  then have d: "drop_bit 12 ?va = of_nat i" using assms(3) by (subst eq_of_nat_iff) simp_all
  have i: "unat (drop_bit 22 ?va) = 0" "unat (get_field 12 10 ?va) = i"
    using va_indices [of i ?va] d assms(3) by simp_all
  have "unat (take_bit 12 ?va) = off"
    using assms(4) by (simp only: unsigned_take_bit_eq u) (simp add: take_bit_nat_def)
  then have t: "take_bit 12 ?va = of_nat off" using assms(4) by (subst eq_of_nat_iff) simp_all
  show ?thesis
    using assms i by (simp add: video_dir_def frame_at_def translate_def nth_opt_Some table_entry_def
        small_page_base [of _ f] small_page_sum t del: of_nat_add of_nat_mult)
qed

section \<open>The updates\<close>

lemma kernel_dir_updates [simp]:
  "kernel_dir (set_user_page n p) = kernel_dir p"
  "kernel_dir (page_dir_map USER_ENTRY g p) = kernel_dir p"
  "kernel_dir (kernel_pte_map i g p) = kernel_dir p"
  "kernel_dir (user_pte_map i g p) = kernel_dir p"
  by (simp_all add: kernel_dir_def set_user_page_def page_dir_map_def kernel_pte_map_def user_pte_map_def)

lemma video_dir_updates [simp]:
  "video_dir (set_user_page n p) = video_dir p"
  "video_dir (page_dir_map USER_ENTRY g p) = video_dir p"
  "video_dir (kernel_pte_map i g p) = video_dir p"
  "video_dir (user_pte_map i g p) = video_dir p"
  by (simp_all add: video_dir_def set_user_page_def page_dir_map_def kernel_pte_map_def user_pte_map_def)

lemma user_dir_updates [simp]:
  "user_dir_ok (kernel_pte_map i g p) = user_dir_ok p" "user_dir_ok (user_pte_map i g p) = user_dir_ok p"
  by (simp_all add: user_dir_ok_def kernel_pte_map_def user_pte_map_def)

lemma frame_at_updates [simp]:
  "frame_at (set_user_page n p) i f = frame_at p i f"
  "frame_at (page_dir_map j g p) i f = frame_at p i f"
  "frame_at (user_pte_map j g p) i f = frame_at p i f"
  "j \<noteq> i \<Longrightarrow> frame_at (kernel_pte_map j g p) i f = frame_at p i f"
  by (simp_all add: frame_at_def set_user_page_def page_dir_map_def kernel_pte_map_def user_pte_map_def)

lemma frame_at_set:
  assumes "video_dir p" "i < PAGING_COUNT" "bit (page_table_kernel_vidmem p ! i) 0" "take_bit 20 f = f"
  shows "frame_at (kernel_pte_map i (set_page_base_address f) p) i f"
  using assms by (simp add: frame_at_def kernel_pte_map_def video_dir_def bit_set_field get_set_field_same)

lemma video_map_updates [simp]:
  "video_map (set_user_page n p) f = video_map p f" "video_map (user_pte_map j g p) f = video_map p f"
  by (simp_all add: video_map_def)

lemma video_map_set:
  assumes "video_map p f" "take_bit 20 g = g"
  shows "video_map (kernel_pte_map VIDMEM_INDEX (set_page_base_address g) p) g"
  using assms frame_at_set [of p VIDMEM_INDEX g] by (simp add: video_map_def) (simp add: frame_at_def)

lemma video_map_mapped:
  assumes "video_map (mmu s) f" "frame_at (mmu s) i g" "i < PAGING_COUNT" "n \<le> 4096"
  shows "mapped s (of_nat (i * 4096)) n (push_bit 12 g)"
  unfolding mapped_def
proof (intro allI impI)
  fix k assume "k < n"
  then show "translate (mmu s) (of_nat (i * 4096) + of_nat k) = Some (push_bit 12 g + of_nat k)"
    using translate_frame [of "mmu s" i g k] assms by (simp add: video_map_def)
qed

text \<open>The user page an entry of the directory names.\<close>

definition user_page :: "paging \<Rightarrow> u32" where
  "user_page p = get_field 22 10 (page_directories p ! USER_ENTRY)"

lemma user_page_updates [simp]:
  "user_page (kernel_pte_map i g p) = user_page p" "user_page (user_pte_map i g p) = user_page p"
  by (simp_all add: user_page_def kernel_pte_map_def user_pte_map_def)

lemma user_page_set:
  assumes "user_dir_ok p" "take_bit 10 n = n"
  shows "user_page (set_user_page n p) = n"
  using assms by (simp add: user_page_def set_user_page_def user_dir_ok_def get_set_field_same)

text \<open>The entries that \<^verbatim>\<open>initiate_shells\<close> adds to what \<^verbatim>\<open>paging_init\<close> leaves.\<close>

definition boot_map :: "paging \<Rightarrow> bool" where
  "boot_map p \<longleftrightarrow> kernel_dir p \<and> video_dir p \<and> user_dir_ok p \<and> frame_at p VIDMEM_INDEX 0xB8 \<and>
     (\<forall>i \<in> {VIDMEM_INDEX + 2, VIDMEM_INDEX + 3, VIDMEM_INDEX + 4}. get_field 12 20 (page_table_kernel_vidmem p ! i) = of_nat i)"

lemma kernel_maps_same: "kernel_pte_map i f (kernel_pte_map i g p) = kernel_pte_map i (\<lambda>v. f (g v)) p"
  by (simp add: kernel_pte_map_def update_twice_nth)

lemma set_up_shell_paging_eq:
  "set_up_shell_paging p = kernel_pte_map (VIDMEM_INDEX + 4) (set_present 1)
     (kernel_pte_map (VIDMEM_INDEX + 3) (set_present 1)
       (kernel_pte_map (VIDMEM_INDEX + 2) (set_present 1)
         (kernel_pte_map (VIDMEM_INDEX + 1) (\<lambda>v. set_page_base_address (of_nat VIDMEM_INDEX) (set_present 1 v))
           (page_dir_map USER_ENTRY (\<lambda>v. set_read_write 1 (set_user_supervisor 1 (set_present 1 v))) p))))"
  by (simp only: set_up_shell_paging_def Let_def maps_same kernel_maps_same)

lemma video_map_shells:
  assumes "boot_map p"
  shows "video_map (set_up_shell_paging p) 0xB8"
proof -
  note b = assms [unfolded boot_map_def]
  have l: "length (page_table_kernel_vidmem p) = PAGING_COUNT" using b by (simp add: video_dir_def)
  show ?thesis
    using b l unfolding video_map_def set_up_shell_paging_eq
    by (simp add: frame_at_def kernel_dir_def video_dir_def user_dir_ok_def bit_set_field get_set_field_other
        get_set_field_same)
qed

lemma boot_map_init:
  assumes "wf_layout p"
  shows "boot_map (paging_init p)"
proof -
  let ?p = "paging_init p"
  have l: "length (page_directories ?p) = PAGING_COUNT" "length (page_table_kernel_vidmem ?p) = PAGING_COUNT"
    by simp_all
  have al: "take_bit 12 (kernel_table_at p) = 0" using assms by (simp add: wf_layout_def)
  have table: "(set_present 1 0 OR kernel_table_at p) AND 0xFFFFF000 = kernel_table_at p"
    by (rule aligned_eqI [OF al]) (auto simp: bit_or_iff bit_set_field)
  have "video_dir ?p"
    using l table aligned_bit [OF al, of 7]
    by (simp add: video_dir_def paging_init_dir bit_or_iff bit_set_field)
  moreover have "get_field 22 10 (kernel_dir_entry 0) = 1"
    by (rule bit_word_eqI) (auto simp: bit_get_field bit_kernel_dir_entry bit_1_iff)
  then have "kernel_dir ?p" using l by (simp add: kernel_dir_def paging_init_dir bit_kernel_dir_entry)
  moreover have "get_field 12 20 (kb_entry i 0) = take_bit 20 (of_nat i)" for i
    by (simp add: kb_entry_def get_set_field_same)
  then have "get_field 12 20 (page_table_kernel_vidmem ?p ! VIDMEM_INDEX) = 0xB8"
    "\<forall>i \<in> {VIDMEM_INDEX + 2, VIDMEM_INDEX + 3, VIDMEM_INDEX + 4}. get_field 12 20 (page_table_kernel_vidmem ?p ! i) = of_nat i"
    by (simp_all add: paging_init_kernel_pte get_set_field_other)
  moreover have "bit (page_table_kernel_vidmem ?p ! VIDMEM_INDEX) 0" by (simp add: paging_init_kernel_pte bit_set_field)
  ultimately show ?thesis using user_dir_ok_init by (simp add: boot_map_def frame_at_def)
qed

end
