(* ===== verification/UserCalls.thy ===== *)
theory UserCalls imports KernelMap begin

text \<open>
  What a program gets from \<^verbatim>\<open>getargs\<close> and \<^verbatim>\<open>vidmap\<close> of \<^verbatim>\<open>src/student-distrib/syscall.c\<close>: the argument
  that \<^verbatim>\<open>execute\<close> has cut out of the command line, and a page of video memory.
\<close>

section \<open>A command of two words\<close>

lemma skip_spaces_replicate:
  "i + n \<le> MAX_TERMINAL \<Longrightarrow> pos = [] \<or> hd pos \<noteq> 32 \<Longrightarrow> skip_spaces i (replicate n 32 @ pos) = (i + n, pos)"
proof (induction n arbitrary: i)
  case 0
  then show ?case by (cases pos) simp_all
next
  case (Suc n)
  then show ?case by simp
qed

lemma take_word_word:
  "32 \<notin> set w \<Longrightarrow> i + length w \<le> MAX_TERMINAL \<Longrightarrow> pos = [] \<or> hd pos = 32 \<Longrightarrow>
   take_word i (w @ pos) = (w, i + length w, pos)"
proof (induction w arbitrary: i)
  case Nil
  then show ?case by (cases pos) simp_all
next
  case (Cons c w)
  then have "take_word (Suc i) (w @ pos) = (w, Suc i + length w, pos)" by simp
  then show ?case using Cons.prems by simp
qed

definition two_words :: "nat \<Rightarrow> u8 list \<Rightarrow> nat \<Rightarrow> u8 list \<Rightarrow> u8 list \<Rightarrow> u8 list" where
  "two_words a fname b w rest = replicate a 32 @ fname @ replicate b 32 @ w @ rest"

lemma parse_two_words:
  assumes "32 \<notin> set fname" "fname \<noteq> []" "32 \<notin> set w" "w \<noteq> []" "0 < b" "rest = [] \<or> hd rest = 32"
    and "a + length fname + b + length w \<le> MAX_TERMINAL"
  shows "parse_command (two_words a fname b w rest) = Some (fname, Some w)"
proof -
  have h: "hd fname \<noteq> 32" "hd w \<noteq> 32"
    using assms(1-4) by (metis list.set_sel(1))+
  have 1: "skip_spaces 0 (two_words a fname b w rest) = (a, fname @ replicate b 32 @ w @ rest)"
    unfolding two_words_def using assms h by (subst skip_spaces_replicate) simp_all
  have 2: "take_word a (fname @ replicate b 32 @ w @ rest) = (fname, a + length fname, replicate b 32 @ w @ rest)"
    by (rule take_word_word) (use assms in \<open>simp_all add: hd_append\<close>)
  have 3: "skip_spaces (a + length fname) (replicate b 32 @ w @ rest) = (a + length fname + b, w @ rest)"
    by (rule skip_spaces_replicate) (use assms h in \<open>simp_all add: hd_append\<close>)
  have 4: "take_word (a + length fname + b) (w @ rest) = (w, a + length fname + b + length w, rest)"
    by (rule take_word_word) (use assms in simp_all)
  show ?thesis
    unfolding parse_command_def 1 using assms(2,4) 2 3 4 by simp
qed

section \<open>The copy to the user buffer\<close>

lemma getargs_copy_eq:
  "0 \<notin> set w \<Longrightarrow> mapped s a (Suc (length (take (nat n) w))) b \<Longrightarrow>
   getargs_copy (w @ 0 # rest) n a s = Some (s\<lparr>phys := put_bytes b (take (nat n) w @ [0]) (phys s)\<rparr>)"
proof (induction w arbitrary: s a b n)
  case Nil
  then have "translate (mmu s) a = Some b" using mapped_Suc by simp
  then show ?case by (simp add: vstore_def store_virtual_def del: fun_upd_apply)
next
  case (Cons c w)
  have t: "translate (mmu s) a = Some b" using mapped_Suc [OF Cons.prems(2)] by simp
  show ?case
  proof (cases "0 < n")
    case False
    then show ?thesis using t by (simp add: vstore_def store_virtual_def del: fun_upd_apply)
  next
    case True
    let ?s1 = "s\<lparr>phys := (phys s)(b := c)\<rparr>"
    have n: "nat n = Suc (nat (n - 1))" using True by simp
    have "mapped ?s1 (a + 1) (Suc (length (take (nat (n - 1)) w))) (b + 1)"
      using mapped_Suc [OF Cons.prems(2)] by (simp add: n mapped_def)
    then have "getargs_copy (w @ 0 # rest) (n - 1) (a + 1) ?s1 =
        Some (?s1\<lparr>phys := put_bytes (b + 1) (take (nat (n - 1)) w @ [0]) (phys ?s1)\<rparr>)"
      using Cons.IH Cons.prems(1) by simp
    then show ?thesis using t True Cons.prems(1)
      by (simp add: n vstore_def store_virtual_def del: fun_upd_apply)
  qed
qed

lemma in_user_page_offset:
  assumes "off < 0x400000"
  shows "in_user_page (0x8000000 + of_nat off)"
proof -
  let ?a = "0x8000000 + of_nat off :: u32"
  have u: "unat ?a = 0x8000000 + off" using assms by (simp add: unat_word_ariths unat_of_nat)
  have "unat (drop_bit 22 ?a) = USER_ENTRY"
    by (subst unat_drop_bit_eq, subst u) (use assms in \<open>simp add: drop_bit_eq_div\<close>)
  then have "drop_bit 22 ?a = of_nat USER_ENTRY" by (intro unsigned_word_eqI) simp
  moreover have "?a \<noteq> 0" using u by (metis add_is_0 unsigned_0 zero_neq_numeral)
  ultimately show ?thesis by (simp add: in_user_page_def)
qed

text \<open>\<open>argument_of\<close> is the argument of a process: the characters of \<^verbatim>\<open>argv\<close> before the first zero.\<close>

definition argument_of :: "pcb_t \<Rightarrow> u8 list" where
  "argument_of p = takeWhile (\<lambda>c. c \<noteq> 0) (p_argv p)"

lemma argument_split: "0 \<in> set (p_argv p) \<Longrightarrow> \<exists>rest. p_argv p = argument_of p @ 0 # rest"
  using split_list_first [of 0 "p_argv p"] by (force simp: argument_of_def takeWhile_append)

lemma getargs_eq:
  assumes "on_stack_of i s" "i < length (pcbs s)" "0 \<in> set (p_argv (pcbs s ! i))" "user_window (mmu s) pid"
    and "w = take (nat (sint count)) (argument_of (pcbs s ! i))" "off + length w < 0x400000"
  shows "getargs (0x8000000 + of_nat off) count s =
    Some (0, s\<lparr>phys := put_bytes (of_nat (user_base pid + off)) (w @ [0]) (phys s)\<rparr>)"
proof -
  obtain rest where r: "p_argv (pcbs s ! i) = argument_of (pcbs s ! i) @ 0 # rest"
    using argument_split assms(3) by blast
  have "mapped s (0x8000000 + of_nat off) (Suc (length w)) (of_nat (user_base pid + off))"
    by (rule window_mapped [OF assms(4)]) (use assms(6) in simp)
  then have "getargs_copy (p_argv (pcbs s ! i)) (sint count) (0x8000000 + of_nat off) s =
      Some (s\<lparr>phys := put_bytes (of_nat (user_base pid + off)) (w @ [0]) (phys s)\<rparr>)"
    unfolding r assms(5) by (intro getargs_copy_eq) (auto simp: argument_of_def dest: set_takeWhileD)
  moreover have "in_user_page (0x8000000 + of_nat off)" using assms(6) by (intro in_user_page_offset) simp
  ultimately show ?thesis
    using current_on_stack [OF assms(1)] assms(2) by (simp add: getargs_def get_pcb_def nth_opt_Some)
qed

lemma argument_started:
  assumes "0 \<notin> set w"
  shows "argument_of (set_up_pcb clobber pid a b (Some w) p) = w"
    and "0 \<in> set (p_argv (set_up_pcb clobber pid a b (Some w) p))"
proof -
  have "\<forall>x \<in> set w. x \<noteq> 0" using assms by metis
  then show "argument_of (set_up_pcb clobber pid a b (Some w) p) = w"
    by (simp add: argument_of_def set_up_pcb_def set_argv_def Let_def)
  show "0 \<in> set (p_argv (set_up_pcb clobber pid a b (Some w) p))"
    by (simp add: set_up_pcb_def set_argv_def Let_def)
qed

section \<open>The video page of user programs\<close>

text \<open>Directory entry 0xB8 names the user video table, as \<^verbatim>\<open>paging_init\<close> leaves it.\<close>

definition user_video :: "paging \<Rightarrow> bool" where
  "user_video p \<longleftrightarrow> user_dir_ok p \<and> length (page_table_user_vidmem p) = PAGING_COUNT \<and>
     user_table_at p \<noteq> kernel_table_at p \<and> bit (page_directories p ! VIDMEM_INDEX) 0 \<and>
     \<not> bit (page_directories p ! VIDMEM_INDEX) 7 \<and>
     page_directories p ! VIDMEM_INDEX AND 0xFFFFF000 = user_table_at p"

abbreviation VIDMAP_ADDR :: u32 where "VIDMAP_ADDR \<equiv> 0x2E0B8000"

lemma user_video_init: "wf_layout p \<Longrightarrow> user_video (paging_init p)"
proof -
  assume wf: "wf_layout p"
  have al: "take_bit 12 (user_table_at p) = 0" using wf by (simp add: wf_layout_def)
  have "video_dir_entry p (mb_entry VIDMEM_INDEX 0) AND 0xFFFFF000 = user_table_at p"
    by (rule aligned_eqI [OF al]) (simp add: bit_video_dir_entry)
  then show ?thesis
    using wf user_dir_ok_init by (auto simp: user_video_def paging_init_dir bit_video_dir_entry wf_layout_def)
qed

lemma user_video_pte [simp]: "user_video (user_pte_map i f p) = user_video p"
  by (simp add: user_video_def user_dir_ok_def)

lemma translate_user_video:
  assumes v: "user_video p" and e: "page_table_user_vidmem p ! VIDMEM_INDEX = e" "bit e 0"
    and f: "get_field 12 20 e = f" and off: "off < 4096"
  shows "translate p (VIDMAP_ADDR + of_nat off) = Some (push_bit 12 f + of_nat off)"
proof -
  let ?va = "VIDMAP_ADDR + of_nat off :: u32" and ?k = "0x2E0B8 :: nat"
  have u: "unat ?va = 0x2E0B8000 + off" using off by (simp add: unat_word_ariths unat_of_nat)
  have "unat (drop_bit 12 ?va) = ?k"
    by (subst unat_drop_bit_eq, subst u) (use off in \<open>simp add: drop_bit_eq_div\<close>)
  then have "drop_bit 12 ?va = of_nat ?k" by (intro unsigned_word_eqI) simp
  then have i: "unat (drop_bit 22 ?va) = VIDMEM_INDEX" "unat (get_field 12 10 ?va) = VIDMEM_INDEX"
    using va_indices [of ?k ?va] by simp_all
  have "(off + 0x2E0B8 * 4096) mod 4096 = off" using off by (simp only: mod_mult_self1 mod_less)
  then have "unat (take_bit 12 ?va) = off"
    by (simp only: unsigned_take_bit_eq u) (simp add: take_bit_nat_def add.commute)
  then have t: "take_bit 12 ?va = of_nat off" using off by (subst eq_of_nat_iff) simp_all
  show ?thesis
    using v e i by (simp add: user_video_def user_dir_ok_def translate_def nth_opt_Some table_entry_def
        small_page_base [OF f] small_page_sum t)
qed

lemma translate_user_pte:
  assumes "user_dir_ok p" "unat (drop_bit 22 va) = USER_ENTRY"
  shows "translate (user_pte_map i f p) va = translate p va"
  using assms by (simp add: translate_def user_dir_ok_def nth_opt_Some)

lemma user_window_pte:
  assumes "user_dir_ok p"
  shows "user_window (user_pte_map i f p) pid = user_window p pid"
proof -
  have "unat (drop_bit 22 (0x8000000 + of_nat off :: u32)) = USER_ENTRY" if "off < 0x400000" for off
    using in_user_page_offset [OF that] by (simp add: in_user_page_def)
  then show ?thesis unfolding user_window_def using translate_user_pte [OF assms] by simp
qed

text \<open>What \<^verbatim>\<open>vidmap\<close> does, with the address stored at offset \<open>off\<close> of the page of process \<open>q\<close>.\<close>

definition vidmapped :: "nat \<Rightarrow> kstate \<Rightarrow> kstate" where
  "vidmapped i s = s\<lparr>pcbs := (pcbs s)[i := (pcbs s ! i)\<lparr>p_vidmap := 1\<rparr>],
     mmu := user_pte_map VIDMEM_INDEX (\<lambda>v. set_page_base_address (vidmap_page s (p_pid (pcbs s ! i))) (set_present 1 v))
       (mmu s)\<rparr>"

lemma vidmap_eq:
  assumes "on_stack_of i s" "i < length (pcbs s)" "user_dir_ok (mmu s)" "user_window (mmu s) q" "off + 4 \<le> 0x400000"
  shows "vidmap (0x8000000 + of_nat off) s = Some (0, (vidmapped i s)\<lparr>
    phys := put_bytes (of_nat (user_base q + off)) (le32 VIDMAP_ADDR) (phys s)\<rparr>)"
proof -
  let ?s = "vidmapped i s"
  have "user_window (mmu ?s) q" using assms(3,4) by (simp add: vidmapped_def user_window_pte)
  then have "mapped ?s (0x8000000 + of_nat off) (length (le32 VIDMAP_ADDR)) (of_nat (user_base q + off))"
    by (rule window_mapped) (use assms(5) in simp)
  note c = copy_out_eq [OF this]
  have a: "(push_bit 22 (of_nat VIDMEM_INDEX) OR push_bit 12 (of_nat VIDMEM_INDEX)) AND 0xFFFFF000 = (VIDMAP_ADDR :: u32)"
    by simp
  have m: "map_mmu (user_pte_map VIDMEM_INDEX (set_page_base_address (vidmap_page s (p_pid (pcbs s ! i)))))
      (map_mmu (user_pte_map VIDMEM_INDEX (set_present 1)) (s\<lparr>pcbs := (pcbs s)[i := (pcbs s ! i)\<lparr>p_vidmap := 1\<rparr>]\<rparr>)) = ?s"
    by (simp add: map_mmu_def vidmapped_def maps_same)
  have v: "vidmap_page (map_mmu (user_pte_map VIDMEM_INDEX (set_present 1)) (s\<lparr>pcbs := (pcbs s)[i := (pcbs s ! i)\<lparr>p_vidmap := 1\<rparr>]\<rparr>)) =
      vidmap_page s"
    by (rule ext) (simp add: vidmap_page_def map_mmu_def)
  have "in_user_page (0x8000000 + of_nat off)" using assms(5) by (intro in_user_page_offset) simp
  then show ?thesis
    using current_on_stack [OF assms(1)] assms(2) c m
    by (simp add: vidmap_def map_pcb_eq get_pcb_def nth_opt_Some a v Let_def) (simp add: vidmapped_def)
qed

section \<open>Properties\<close>

text \<open>C31: the argument of a command reaches the program. \<^verbatim>\<open>execute\<close> of a command of two words (with any
  number of spaces before, between and after, the two words ending within the first 128 characters) starts the
  program named by the first; when that process later calls \<^verbatim>\<open>getargs\<close>, and only it has run on the process
  block, the second word is stored at the buffer, cut to \<open>count\<close> characters and always followed by a zero: a
  buffer of \<open>count\<close> bytes that the argument fills is overrun by one byte.\<close>

theorem args_reach_program:
  assumes "fname \<noteq> []" "32 \<notin> set fname" "w \<noteq> []" "32 \<notin> set w" "0 \<notin> set w" "0 < b" "rest = [] \<or> hd rest = 32"
    and "a + length fname + b + length w \<le> MAX_TERMINAL"
    and "program_file s fname inode c" "free_pid s = Some (Some pid)" "user_dir_ok (mmu s)"
    and "unat (active_term_id s) < length (terms s)"
    and "execute clobber (Some (two_words a fname b w rest)) s = Some (r, s1)"
    and "on_stack_of pid t" "pid < length (pcbs t)" "p_argv (pcbs t ! pid) = p_argv (pcbs s1 ! pid)"
    and "user_window (mmu t) pid" "off + length w < 0x400000" "buf = 0x8000000 + of_nat off"
  shows "\<exists>t'. getargs buf count t = Some (0, t') \<and>
    t' = t\<lparr>phys := put_bytes (of_nat (user_base pid + off)) (take (nat (sint count)) w @ [0]) (phys t)\<rparr> \<and>
    copy_in buf (Suc (min (nat (sint count)) (length w))) t' = take (nat (sint count)) w @ [0]"
proof -
  note free = free_pid_spec [OF assms(10)]
  have p: "parse_command (two_words a fname b w rest) = Some (fname, Some w)"
    by (rule parse_two_words) (use assms in simp_all)
  have "s1 = started clobber pid (Some w) c s"
    using execute_eq [OF p assms(9-12), of clobber] assms(13) by simp
  then have "p_argv (pcbs t ! pid) = p_argv (set_up_pcb clobber pid (get_current_pcb s) (ebp s) (Some w) (pcbs s ! pid))"
    using free assms(16) by (simp add: started_def)
  then have arg: "argument_of (pcbs t ! pid) = w" "0 \<in> set (p_argv (pcbs t ! pid))"
    using argument_started [OF assms(5)] unfolding argument_of_def by metis+
  let ?v = "take (nat (sint count)) w"
  let ?t = "t\<lparr>phys := put_bytes (of_nat (user_base pid + off)) (?v @ [0]) (phys t)\<rparr>"
  have "getargs buf count t = Some (0, ?t)"
    unfolding assms(19) by (rule getargs_eq [OF assms(14,15) arg(2) assms(17)]) (use assms(18) arg(1) in simp_all)
  moreover have "mapped ?t buf (length (?v @ [0])) (of_nat (user_base pid + off))"
    unfolding assms(19) by (rule window_mapped) (use assms(17,18) in simp_all)
  then have "copy_in buf (length (?v @ [0])) ?t = ?v @ [0]"
    by (rule copy_in_put_bytes) (use assms(18) in simp_all)
  ultimately show ?thesis by (simp add: min.commute)
qed

theorem args_reach_program_witness:
  "\<exists>r s1 t'. execute id (Some [32, 97, 98, 32, 120, 121, 32]) exec_state = Some (r, s1) \<and>
     getargs 0x83FFF00 1 (s1\<lparr>esp := 0x7F9F00\<rparr>) = Some (0, t') \<and> copy_in 0x83FFF00 2 t' = [120, 0]"
proof -
  have c: "two_words 1 [97, 98] 1 [120, 121] [32] = [32, 97, 98, 32, 120, 121, 32]" by (simp add: two_words_def)
  have u: "user_dir_ok (mmu exec_state)" "unat (active_term_id exec_state) < length (terms exec_state)"
    using user_dir_ok_init by (simp_all add: exec_state_def sample_state_def)
  have p: "parse_command [32, 97, 98, 32, 120, 121, 32] = Some ([97, 98], Some [120, 121])"
    by (simp add: parse_command_def)
  let ?s1 = "started id 3 (Some [120, 121]) (elf_block @ replicate 3 2) exec_state"
  obtain r where e: "execute id (Some [32, 97, 98, 32, 120, 121, 32]) exec_state = Some (r, ?s1)"
    using execute_eq [OF p exec_program exec_free_pid u, of id] by blast
  let ?t = "?s1\<lparr>esp := 0x7F9F00\<rparr>"
  have "on_stack_of 3 ?t" by (simp add: on_stack_of_def unat_pcb_addr)
  moreover have "3 < length (pcbs ?t)" by (simp add: started_def exec_state_def sample_state_def)
  moreover have "user_window (mmu ?t) 3"
    using set_up_paging_window(1) [OF u(1)] by (simp add: started_def)
  ultimately have "\<exists>t'. getargs 0x83FFF00 1 ?t = Some (0, t') \<and>
      copy_in 0x83FFF00 (Suc (min (nat (sint (1 :: i32))) (length [120, 121 :: u8]))) t' =
        take (nat (sint (1 :: i32))) [120, 121] @ [0]"
    using args_reach_program [of "[97, 98]" "[120, 121]" 1 "[32]" 1 exec_state 1 "elf_block @ replicate 3 2" 3 id r ?s1 ?t
        "0x3FFF00" "0x83FFF00" 1] exec_program exec_free_pid u e c by auto
  moreover have "Suc (min (nat (sint (1 :: i32))) (length [120, 121 :: u8])) = 2"
    "take (nat (sint (1 :: i32))) [120, 121] @ [0] = [120, 0 :: u8]" by simp_all
  ultimately show ?thesis using e by metis
qed

text \<open>C32: \<^verbatim>\<open>vidmap\<close> called by process \<open>pid\<close> stores 0x2E0B8000 at the address it is given, in the page of the
  process, and maps 4 KB there: to the screen when the terminal of the process is shown. When it is hidden, the
  frame is 0xB8 + \<open>pid\<close> + 2, computed from the number of the process where the scheduler uses the number of the
  terminal: for a program (\<open>pid\<close> from 3 to 5) it is no page of any terminal, so what it draws before the next timer
  interrupt is not shown when its terminal is switched to.\<close>

theorem vidmap_maps:
  assumes "on_stack_of i s" "i < length (pcbs s)" "p_pid (pcbs s ! i) = of_nat i" "user_video (mmu s)" "user_window (mmu s) i"
    and "off + 4 \<le> 0x400000" "buf = 0x8000000 + of_nat off"
  shows "\<exists>s'. vidmap buf s = Some (0, s') \<and> copy_in buf 4 s' = le32 VIDMAP_ADDR \<and> p_vidmap (pcbs s' ! i) = 1 \<and>
    (\<forall>k < 4096. translate (mmu s') (VIDMAP_ADDR + of_nat k) =
       Some ((if active_term_id s = shown_term_id s then 0xB8000 else 0xB8000 + (of_nat i + 2) * 0x1000) + of_nat k)) \<and>
    (3 \<le> i \<longrightarrow> (\<forall>t \<in> {0, 1, 2}. video_page_of t \<noteq> 0xB8 + of_nat i + 2))"
proof -
  have d: "user_dir_ok (mmu s)" and i: "i < MAX_PROCESS"
    using assms(1,4) by (simp_all add: user_video_def on_stack_of_def)
  let ?n = "vidmap_page s (p_pid (pcbs s ! i))"
  let ?p = "mmu (vidmapped i s)"
  let ?s' = "(vidmapped i s)\<lparr>phys := put_bytes (of_nat (user_base i + off)) (le32 VIDMAP_ADDR) (phys s)\<rparr>"
  have v: "vidmap buf s = Some (0, ?s')"
    unfolding assms(7) by (rule vidmap_eq [OF assms(1,2) d assms(5,6)])
  have "user_window ?p i" using assms(5) d by (simp add: vidmapped_def user_window_pte)
  then have "mapped ?s' buf (length (le32 VIDMAP_ADDR)) (of_nat (user_base i + off))"
    unfolding assms(7) by (intro window_mapped) (use assms(6) in simp_all)
  then have "copy_in buf (length (le32 VIDMAP_ADDR)) ?s' = le32 VIDMAP_ADDR"
    by (rule copy_in_put_bytes) simp_all
  then have c: "copy_in buf 4 ?s' = le32 VIDMAP_ADDR" by simp
  let ?e = "page_table_user_vidmem ?p ! VIDMEM_INDEX"
  have n: "?n = (if active_term_id s = shown_term_id s then 0xB8 else 0xB8 + of_nat i + 2)"
    by (simp add: vidmap_page_def assms(3))
  have "take_bit 20 ?n = ?n"
    unfolding n using process_cases [OF i] by (elim disjE) simp_all
  then have e: "bit ?e 0" "get_field 12 20 ?e = ?n"
    using assms(4) by (simp_all add: vidmapped_def user_video_def bit_set_field get_set_field_same)
  have "translate ?p (VIDMAP_ADDR + of_nat k) = Some (push_bit 12 ?n + of_nat k)" if "k < 4096" for k
    by (rule translate_user_video [OF _ refl e that]) (use assms(4) in \<open>simp add: vidmapped_def\<close>)
  then have t: "\<forall>k < 4096. translate (mmu ?s') (VIDMAP_ADDR + of_nat k) =
      Some ((if active_term_id s = shown_term_id s then 0xB8000 else 0xB8000 + (of_nat i + 2) * 0x1000) + of_nat k)"
    by (simp add: n push_bit_eq_mult algebra_simps)
  have h: "3 \<le> i \<longrightarrow> (\<forall>t \<in> {0, 1, 2}. video_page_of t \<noteq> 0xB8 + of_nat i + 2)"
    using process_cases [OF i] by (elim disjE) (simp_all add: video_page_of_def)
  have "p_vidmap (pcbs ?s' ! i) = 1" using assms(2) by (simp add: vidmapped_def)
  then show ?thesis using v c t h by blast
qed

theorem vidmap_maps_witness:
  "\<exists>s'. vidmap 0x8000010 (map_mmu (set_up_paging 3) (child_state\<lparr>active_term_id := 1\<rparr>)) = Some (0, s') \<and>
     translate (mmu s') 0x2E0B8123 = Some 0xBD123"
proof -
  let ?s = "map_mmu (set_up_paging 3) (child_state\<lparr>active_term_id := 1\<rparr>)"
  have m: "mmu ?s = set_up_paging 3 (paging_init sample_layout)"
    by (simp add: map_mmu_def child_state_def sample_state_def)
  have "on_stack_of 3 ?s" by (simp add: on_stack_of_def unat_pcb_addr child_state_def map_mmu_def)
  moreover have "3 < length (pcbs ?s)" "p_pid (pcbs ?s ! 3) = of_nat 3"
    by (simp_all add: map_mmu_def child_state_def sample_state_def sample_pcb_def)
  moreover have "user_window (mmu ?s) 3" "user_dir_ok (mmu ?s)"
    using set_up_paging_window [OF user_dir_ok_init] unfolding m by simp_all
  moreover have "user_video (mmu ?s)"
    using user_video_init [OF wf_sample_layout] calculation(5) unfolding m
    by (simp add: user_video_def set_up_paging_eq)
  moreover have "active_term_id ?s \<noteq> shown_term_id ?s"
    by (simp add: map_mmu_def child_state_def sample_state_def)
  ultimately obtain s' where s': "vidmap 0x8000010 ?s = Some (0, s')"
      "\<forall>k < 4096. translate (mmu s') (VIDMAP_ADDR + of_nat k) = Some (0xB8000 + (of_nat 3 + 2) * 0x1000 + of_nat k)"
    using vidmap_maps [of 3 ?s 16 "0x8000010"] by auto
  from s'(2) [rule_format, of "0x123"] show ?thesis using s'(1) by auto
qed

end
