(* ===== verification/UserProgs.thy ===== *)
theory UserProgs imports Prelude begin

text \<open>
  The user programs of \<^verbatim>\<open>src/syscalls\<close>, over the system calls they make. A program runs on any operating system
  given as a record of calls on a state; \<open>None\<close> is a call that does not return to the program. A buffer of the
  program is a byte list, which a call that fills it returns changed; a string argument is the bytes before the
  terminator. Buffers that the program does not initialise are parameters.
\<close>

record 's os =
  os_open :: "u8 list \<Rightarrow> 's \<Rightarrow> (i32 \<times> 's) option"
  os_close :: "i32 \<Rightarrow> 's \<Rightarrow> (i32 \<times> 's) option"
  os_read :: "i32 \<Rightarrow> u8 list \<Rightarrow> i32 \<Rightarrow> 's \<Rightarrow> (i32 \<times> u8 list \<times> 's) option"
  os_write :: "i32 \<Rightarrow> u8 list \<Rightarrow> i32 \<Rightarrow> 's \<Rightarrow> (i32 \<times> 's) option"
  os_getargs :: "u8 list \<Rightarrow> i32 \<Rightarrow> 's \<Rightarrow> (i32 \<times> u8 list \<times> 's) option"
  os_execute :: "u8 list \<Rightarrow> 's \<Rightarrow> (i32 \<times> 's) option"
  os_create :: "u8 list \<Rightarrow> 's \<Rightarrow> (i32 \<times> 's) option"
  os_delete :: "u8 list \<Rightarrow> 's \<Rightarrow> (i32 \<times> 's) option"
  os_vidmap :: "u32 \<Rightarrow> 's \<Rightarrow> (i32 \<times> 's) option"
  os_call :: "u32 \<Rightarrow> 's \<Rightarrow> (i32 \<times> 's) option"

section \<open>Strings\<close>

definition msg :: "string \<Rightarrow> u8 list" where
  "msg str = map of_char str"

abbreviation newline :: u8 where "newline \<equiv> 10"

definition line_of :: "string \<Rightarrow> u8 list" where
  "line_of str = msg str @ [newline]"

text \<open>The string a buffer holds; without a terminator there is none.\<close>

definition string_in :: "u8 list \<Rightarrow> u8 list option" where
  "string_in buf = (if 0 \<in> set buf then Some (takeWhile (\<lambda>c. c \<noteq> 0) buf) else None)"

definition ece391_fdputs :: "'s os \<Rightarrow> i32 \<Rightarrow> u8 list \<Rightarrow> 's \<Rightarrow> 's option" where
  "ece391_fdputs os fd str s = do { (_, s) \<leftarrow> os_write os fd str (of_nat (length str)) s; Some s }"

section \<open>cat\<close>

text \<open>The loop; \<open>werr\<close> is what the program does when a write fails. It goes on until a read returns 0.\<close>

partial_function (option) copy_loop ::
    "('s \<Rightarrow> 's option) \<Rightarrow> 's os \<Rightarrow> i32 \<Rightarrow> u8 list \<Rightarrow> 's \<Rightarrow> (i32 \<times> 's) option" where
  "copy_loop werr os fd buf s = do {
     (cnt, buf, s) \<leftarrow> os_read os fd buf 1024 s;
     if cnt = 0 then Some (0, s)
     else if cnt = -1 then do { s \<leftarrow> ece391_fdputs os 1 (line_of ''file read failed'') s; Some (3, s) }
     else do {
       (r, s) \<leftarrow> os_write os 1 buf cnt s;
       if r = -1 then do { s \<leftarrow> werr s; Some (3, s) }
       else copy_loop werr os fd buf s
     }
   }"

definition cat :: "'s os \<Rightarrow> u8 list \<Rightarrow> 's \<Rightarrow> (i32 \<times> 's) option" where
  "cat os buf s = do {
     (r, buf, s) \<leftarrow> os_getargs os buf 1024 s;
     if r \<noteq> 0 then do { s \<leftarrow> ece391_fdputs os 1 (line_of ''could not read arguments'') s; Some (3, s) }
     else do {
       name \<leftarrow> string_in buf;
       (fd, s) \<leftarrow> os_open os name s;
       if fd = -1 then do { s \<leftarrow> ece391_fdputs os 1 (line_of ''file not found'') s; Some (2, s) }
       else copy_loop Some os fd buf s
     }
   }"

section \<open>ls\<close>

partial_function (option) ls_loop :: "'s os \<Rightarrow> i32 \<Rightarrow> u8 list \<Rightarrow> 's \<Rightarrow> (i32 \<times> 's) option" where
  "ls_loop os fd buf s = do {
     (cnt, buf, s) \<leftarrow> os_read os fd buf 32 s;
     if cnt = 0 then Some (0, s)
     else if cnt = -1 then do { s \<leftarrow> ece391_fdputs os 1 (line_of ''directory entry read failed'') s; Some (3, s) }
     else do {
       buf \<leftarrow> upd_opt buf (unat cnt) newline;
       (r, s) \<leftarrow> os_write os 1 buf (cnt + 1) s;
       if r = -1 then Some (3, s) else ls_loop os fd buf s
     }
   }"

definition ls :: "'s os \<Rightarrow> u8 list \<Rightarrow> 's \<Rightarrow> (i32 \<times> 's) option" where
  "ls os buf s = do {
     (fd, s) \<leftarrow> os_open os [46] s;
     if fd = -1 then do { s \<leftarrow> ece391_fdputs os 1 (line_of ''directory open failed'') s; Some (2, s) }
     else ls_loop os fd buf s
   }"

section \<open>hello, testprint and delete\<close>

definition hello :: "'s os \<Rightarrow> u8 list \<Rightarrow> 's \<Rightarrow> (i32 \<times> 's) option" where
  "hello os buf s = do {
     s \<leftarrow> ece391_fdputs os 1 (msg ''Hi, what'' @ [39] @ msg ''s your name? '') s;
     (cnt, buf, s) \<leftarrow> os_read os 0 buf 1023 s;
     if cnt = -1 then do { s \<leftarrow> ece391_fdputs os 1 (msg ''Can'' @ [39] @ line_of ''t read name from keyboard.'') s; Some (3, s) }
     else do {
       buf \<leftarrow> upd_opt buf (unat cnt) 0;
       s \<leftarrow> ece391_fdputs os 1 (msg ''Hello, '') s;
       name \<leftarrow> string_in buf;
       s \<leftarrow> ece391_fdputs os 1 name s;
       Some (0, s)
     }
   }"

definition testprint :: "'s os \<Rightarrow> 's \<Rightarrow> (i32 \<times> 's) option" where
  "testprint os s = do {
     s \<leftarrow> ece391_fdputs os 1 (line_of ''Hello, if this ran, the program was correct. Yay!'') s;
     Some (0, s)
   }"

definition delete_prog :: "'s os \<Rightarrow> u8 list \<Rightarrow> 's \<Rightarrow> (i32 \<times> 's) option" where
  "delete_prog os buf s = do {
     (r, buf, s) \<leftarrow> os_getargs os buf 128 s;
     if r = -1 then do { s \<leftarrow> ece391_fdputs os 1 (msg ''could not read arguments!'') s; Some (2, s) }
     else do {
       name \<leftarrow> string_in buf;
       (r, s) \<leftarrow> os_delete os name s;
       if r = -1 then do { s \<leftarrow> ece391_fdputs os 1 (msg ''failed to delete'') s; Some (3, s) } else Some (0, s)
     }
   }"

section \<open>newfile\<close>

definition newfile_list :: "u8 list list" where
  "newfile_list = map (\<lambda>str. msg str @ [9]) [''RegisterClassEx'', ''CreateWindowEx'', ''ShowWindow'', ''UpdateWindow'',
     ''GetCursorPos'', ''SetCursorPos'', ''GetWindowRect'', ''SetWindowRect'', ''SetWindowSubclass'',
     ''SetWindowLongPtr'', ''GetWindowLongPtr'', ''WaitForSingleObject'']"

definition newfile_item :: "'s os \<Rightarrow> i32 \<Rightarrow> u8 list \<Rightarrow> 's \<Rightarrow> 's option" where
  "newfile_item os fd str s = do {
     (_, s) \<leftarrow> os_write os fd str (of_nat (length str)) s;
     s \<leftarrow> ece391_fdputs os 1 str s;
     ece391_fdputs os 1 (line_of '' written'') s
   }"

definition newfile :: "'s os \<Rightarrow> u8 list \<Rightarrow> 's \<Rightarrow> (i32 \<times> 's) option" where
  "newfile os buf s = do {
     (fd, s) \<leftarrow> os_create os (msg ''written.txt'') s;
     if fd = -1 then do { s \<leftarrow> ece391_fdputs os 1 (msg ''could not create file!'') s; Some (1, s) }
     else do {
       s \<leftarrow> for_opt (newfile_item os fd) newfile_list s;
       (_, s) \<leftarrow> os_close os fd s;
       (fd, s) \<leftarrow> os_open os (msg ''written.txt'') s;
       if fd = -1 then Some (1, s)
       else do {
         (r, s) \<leftarrow> copy_loop (ece391_fdputs os 1 (msg ''failed to write on terminal'')) os fd buf s;
         if r \<noteq> 0 then Some (r, s) else do { (_, s) \<leftarrow> os_close os fd s; Some (0, s) }
       }
     }
   }"

section \<open>shell\<close>

text \<open>One round of the loop: \<open>Inl\<close> is the value returned, \<open>Inr\<close> the buffer for the next round.\<close>

definition shell_message :: "i32 \<Rightarrow> u8 list option" where
  "shell_message rval =
     (if rval = -1 then Some (line_of ''no such command'')
      else if rval = 256 then Some (line_of ''program terminated by exception'')
      else if rval \<noteq> 0 then Some (line_of ''program terminated abnormally'')
      else None)"

definition shell_line :: "i32 \<Rightarrow> u8 list \<Rightarrow> u8 list option" where
  "shell_line cnt buf = do {
     last \<leftarrow> (if sint cnt > 0 then nth_opt buf (unat (cnt - 1)) else Some 0);
     let cnt = (if sint cnt > 0 \<and> last = newline then cnt - 1 else cnt);
     upd_opt buf (unat cnt) 0
   }"

definition shell_round :: "'s os \<Rightarrow> u8 list \<Rightarrow> 's \<Rightarrow> ((i32 + u8 list) \<times> 's) option" where
  "shell_round os buf s = do {
     s \<leftarrow> ece391_fdputs os 1 (msg ''391OS> '') s;
     (cnt, buf, s) \<leftarrow> os_read os 0 buf 1023 s;
     if cnt = -1 then do { s \<leftarrow> ece391_fdputs os 1 (line_of ''read from keyboard failed'') s; Some (Inl 3, s) }
     else do {
       buf \<leftarrow> shell_line cnt buf;
       command \<leftarrow> string_in buf;
       if command = msg ''exit'' then Some (Inl 0, s)
       else if command = [] then Some (Inr buf, s)
       else do {
         (rval, s) \<leftarrow> os_execute os command s;
         s \<leftarrow> (case shell_message rval of None \<Rightarrow> Some s | Some m \<Rightarrow> ece391_fdputs os 1 m s);
         Some (Inr buf, s)
       }
     }
   }"

partial_function (option) shell_loop :: "'s os \<Rightarrow> u8 list \<Rightarrow> 's \<Rightarrow> (i32 \<times> 's) option" where
  "shell_loop os buf s = do {
     (r, s) \<leftarrow> shell_round os buf s;
     case r of Inl v \<Rightarrow> Some (v, s) | Inr buf \<Rightarrow> shell_loop os buf s
   }"

definition shell :: "'s os \<Rightarrow> u8 list \<Rightarrow> 's \<Rightarrow> (i32 \<times> 's) option" where
  "shell os buf s = do { s \<leftarrow> ece391_fdputs os 1 (line_of ''Starting 391 Shell'') s; shell_loop os buf s }"

section \<open>Reading a file to its end\<close>

text \<open>What \<^verbatim>\<open>cat\<close> needs from the system: \<open>ready\<close> before the file is opened, \<open>opened fd c p\<close> with the file content
  \<open>c\<close> behind the descriptor at position \<open>p\<close>, and the view of the screen, on which \<open>emit\<close> is the effect of one byte.\<close>

locale reader_os =
  fixes os :: "'s os" and ready :: "'s \<Rightarrow> bool" and arg :: "'s \<Rightarrow> u8 list" and content :: "'s \<Rightarrow> u8 list \<Rightarrow> u8 list option"
    and opened :: "i32 \<Rightarrow> u8 list \<Rightarrow> nat \<Rightarrow> 's \<Rightarrow> bool" and view :: "'s \<Rightarrow> 'v" and emit :: "u8 \<Rightarrow> 'v \<Rightarrow> 'v"
  assumes args: "ready s \<Longrightarrow> length buf = 1024 \<Longrightarrow> length (arg s) < 1024 \<Longrightarrow>
      \<exists>rest s'. os_getargs os buf 1024 s = Some (0, arg s @ 0 # rest, s') \<and> length (arg s @ 0 # rest) = 1024 \<and>
        ready s' \<and> view s' = view s \<and> content s' = content s"
    and arg_string: "0 \<notin> set (arg s)"
    and opens: "ready s \<Longrightarrow> length name < 1024 \<Longrightarrow> content s name = Some c \<Longrightarrow>
      \<exists>fd s'. os_open os name s = Some (fd, s') \<and> fd \<noteq> -1 \<and> opened fd c 0 s' \<and> view s' = view s"
    and reads: "opened fd c p s \<Longrightarrow> length buf = 1024 \<Longrightarrow> bytes = take 1024 (drop p c) \<Longrightarrow>
      \<exists>s'. os_read os fd buf 1024 s = Some (of_nat (length bytes), bytes @ drop (length bytes) buf, s') \<and>
        opened fd c (p + length bytes) s' \<and> view s' = view s"
    and writes: "opened fd c p s \<Longrightarrow> length buf = 1024 \<Longrightarrow> n \<le> 1024 \<Longrightarrow> 8 \<notin> set (take n buf) \<Longrightarrow> 9 \<notin> set (take n buf) \<Longrightarrow>
      \<exists>s'. os_write os 1 buf (of_nat n) s = Some (of_nat n, s') \<and> opened fd c p s' \<and>
        view s' = fold emit (take n buf) (view s)"
begin

lemma take_length_append: "take (length xs) (xs @ ys) = xs"
  by simp

lemma small_count: "n \<le> 1024 \<Longrightarrow> (of_nat n :: i32) \<noteq> -1 \<and> ((of_nat n :: i32) = 0 \<longleftrightarrow> n = 0)"
  by (auto simp: unat_neg_one unat_of_nat dest!: arg_cong [of _ _ unat])

lemma copy_loop_prints:
  assumes "8 \<notin> set c" "9 \<notin> set c"
  shows "opened fd c p s \<Longrightarrow> length buf = 1024 \<Longrightarrow>
    \<exists>s'. copy_loop werr os fd buf s = Some (0, s') \<and> opened fd c (max p (length c)) s' \<and>
      view s' = fold emit (drop p c) (view s)"
proof (induction "length c - p" arbitrary: p s buf rule: less_induct)
  case less
  let ?bs = "take 1024 (drop p c)"
  obtain s1 where s1: "os_read os fd buf 1024 s = Some (of_nat (length ?bs), ?bs @ drop (length ?bs) buf, s1)"
      "opened fd c (p + length ?bs) s1" "view s1 = view s"
    using reads [OF less.prems refl] by blast
  note n = small_count [of "length ?bs"]
  show ?case
  proof (cases "?bs = []")
    case True
    then have "length c \<le> p" by simp
    then show ?thesis using s1 True by (subst copy_loop.simps) (simp add: max_def)
  next
    case False
    then have p: "p < length c" "length ?bs \<noteq> 0" by simp_all
    let ?buf = "?bs @ drop (length ?bs) buf"
    have l: "length ?buf = 1024" using less.prems(2) by simp
    have t: "take (length ?bs) ?buf = ?bs" by (rule take_length_append)
    have "8 \<notin> set ?bs" "9 \<notin> set ?bs" using assms by (meson in_set_dropD in_set_takeD)+
    then obtain s2 where s2: "os_write os 1 ?buf (of_nat (length ?bs)) s1 = Some (of_nat (length ?bs), s2)"
        "opened fd c (p + length ?bs) s2" "view s2 = fold emit ?bs (view s1)"
      using writes [OF s1(2) l, of "length ?bs"] unfolding t by auto
    obtain s3 where s3: "copy_loop werr os fd ?buf s2 = Some (0, s3)"
        "opened fd c (max (p + length ?bs) (length c)) s3" "view s3 = fold emit (drop (p + length ?bs) c) (view s2)"
      using less.hyps [OF _ s2(2) l] p by (auto simp: diff_less_mono2)
    have d: "drop p c = ?bs @ drop (p + length ?bs) c"
    proof -
      have "drop (length ?bs) (drop p c) = drop 1024 (drop p c)" by (cases "length (drop p c) \<le> 1024") simp_all
      then show ?thesis by (simp only: drop_drop add.commute) (metis append_take_drop_id drop_drop add.commute)
    qed
    then have v: "view s3 = fold emit (drop p c) (view s)" using s1(3) s2(3) s3(3) by (metis fold_append o_apply)
    have m: "max (p + length ?bs) (length c) = max p (length c)" using p(1) by (auto simp: max_def min_def)
    have nz: "min (length c - p) 1024 \<noteq> 0" using p(1) by simp
    have "copy_loop werr os fd buf s = copy_loop werr os fd ?buf s2"
      using s1(1) s2(1) n p(2) nz by (subst copy_loop.simps) simp
    then show ?thesis using s3 v m by metis
  qed
qed

lemma cat_prints:
  assumes r: "ready s" "length buf = 1024" "length (arg s) < 1024" and f: "content s (arg s) = Some c"
    and c: "8 \<notin> set c" "9 \<notin> set c"
  shows "\<exists>s'. cat os buf s = Some (0, s') \<and> view s' = fold emit c (view s)"
proof -
  obtain rest s1 where s1: "os_getargs os buf 1024 s = Some (0, arg s @ 0 # rest, s1)" "length (arg s @ 0 # rest) = 1024"
      "ready s1" "view s1 = view s" "content s1 = content s" using args [OF r] by blast
  have "\<forall>x \<in> set (arg s). x \<noteq> 0" using arg_string [of s] by metis
  then have n: "string_in (arg s @ 0 # rest) = Some (arg s)" by (simp add: string_in_def)
  obtain fd s2 where s2: "os_open os (arg s) s1 = Some (fd, s2)" "fd \<noteq> -1" "opened fd c 0 s2" "view s2 = view s1"
    using opens [OF s1(3) r(3)] f s1(5) by auto
  obtain s3 where "copy_loop Some os fd (arg s @ 0 # rest) s2 = Some (0, s3)" "view s3 = fold emit (drop 0 c) (view s2)"
    using copy_loop_prints [OF c s2(3) s1(2)] by blast
  then show ?thesis using s1(1,4) s2 n by (simp add: cat_def)
qed

end
end
