(* ===== verification/SysErr.thy ===== *)
theory SysErr imports UserProgs begin

text \<open>
  The test program \<^verbatim>\<open>src/syscalls/ece391syserr.c\<close>, which calls the system with wrong arguments, and the
  laws of an operating system under which every test passes.
\<close>

section \<open>The program\<close>

abbreviation NEG_FD :: i32 where "NEG_FD \<equiv> - 1073741823"
abbreviation BIG_FD :: i32 where "BIG_FD \<equiv> 1073741823"

text \<open>\<^verbatim>\<open>if (-1 != v) { fail = 2; fdputs(...) }\<close>, and the report at the end of a test.\<close>

definition expect :: "'s os \<Rightarrow> u8 list \<Rightarrow> i32 \<Rightarrow> i32 \<Rightarrow> 's \<Rightarrow> (i32 \<times> 's) option" where
  "expect os m v fail s = (if v \<noteq> -1 then do { s \<leftarrow> ece391_fdputs os 1 m s; Some (2, s) } else Some (fail, s))"

definition report :: "'s os \<Rightarrow> string \<Rightarrow> i32 \<Rightarrow> 's \<Rightarrow> (i32 \<times> 's) option" where
  "report os test fail s = do {
     s \<leftarrow> ece391_fdputs os 1 (msg test @ line_of (if fail \<noteq> 0 then '': FAIL'' else '': PASS'')) s;
     Some (fail, s)
   }"

definition err_bad_fd :: "'s os \<Rightarrow> string \<Rightarrow> i32 \<Rightarrow> u8 list \<Rightarrow> 's \<Rightarrow> (i32 \<times> 's) option" where
  "err_bad_fd os test fd buf s = do {
     (v, buf, s) \<leftarrow> os_read os fd buf 31 s;
     (fail, s) \<leftarrow> expect os (line_of ''read fail'') v 0 s;
     (v, s) \<leftarrow> os_write os fd buf 31 s;
     (fail, s) \<leftarrow> expect os (line_of ''write fail'') v fail s;
     (v, s) \<leftarrow> os_close os fd s;
     (fail, s) \<leftarrow> expect os (line_of ''close fail'') v fail s;
     report os test fail s
   }"

definition err_neg_fd :: "'s os \<Rightarrow> u8 list \<Rightarrow> 's \<Rightarrow> (i32 \<times> 's) option" where
  "err_neg_fd os buf s = err_bad_fd os ''err_neg_fd'' NEG_FD buf s"

definition err_big_fd :: "'s os \<Rightarrow> u8 list \<Rightarrow> 's \<Rightarrow> (i32 \<times> 's) option" where
  "err_big_fd os buf s = err_bad_fd os ''err_big_fd'' BIG_FD buf s"

fun open_lots :: "'s os \<Rightarrow> nat \<Rightarrow> i32 \<Rightarrow> 's \<Rightarrow> (i32 \<times> 's) option" where
  "open_lots os 0 cnt s = Some (cnt, s)"
| "open_lots os (Suc n) cnt s = do {
     (fd, s) \<leftarrow> os_open os [46] s;
     open_lots os n (if fd = -1 then cnt + 1 else cnt) s
   }"

definition close_one :: "'s os \<Rightarrow> nat \<Rightarrow> 's \<Rightarrow> 's option" where
  "close_one os i s = do { (_, s) \<leftarrow> os_close os (of_nat i) s; Some s }"

definition err_open_lots :: "'s os \<Rightarrow> 's \<Rightarrow> (i32 \<times> 's) option" where
  "err_open_lots os s = do {
     (cnt, s) \<leftarrow> open_lots os 7 0 s;
     s \<leftarrow> for_opt (close_one os) [2..<8] s;
     report os ''err_open_lots'' (if cnt = 1 then 0 else 2) s
   }"

definition err_open :: "'s os \<Rightarrow> 's \<Rightarrow> (i32 \<times> 's) option" where
  "err_open os s = do {
     (v, s) \<leftarrow> os_open os (msg ''helloo'') s;
     (fail, s) \<leftarrow> expect os ([39] @ msg ''helloo'' @ [39] @ line_of '' fail'') v 0 s;
     (v, s) \<leftarrow> os_open os (msg ''shel'') s;
     (fail, s) \<leftarrow> expect os ([39] @ msg ''shel'' @ [39] @ line_of '' fail'') v fail s;
     (v, s) \<leftarrow> os_open os [] s;
     (fail, s) \<leftarrow> expect os (line_of ''empty string fail'') v fail s;
     report os ''err_open'' fail s
   }"

text \<open>The three loops over descriptors; each round is a call that should fail.\<close>

fun expect_each :: "'s os \<Rightarrow> u8 list \<Rightarrow> (i32 \<Rightarrow> u8 list \<times> 's \<Rightarrow> (i32 \<times> u8 list \<times> 's) option) \<Rightarrow> nat list \<Rightarrow>
    i32 \<Rightarrow> u8 list \<times> 's \<Rightarrow> (i32 \<times> u8 list \<times> 's) option" where
  "expect_each os m call [] fail st = Some (fail, st)"
| "expect_each os m call (i # is) fail st = do {
     (v, buf, s) \<leftarrow> call (of_nat i) st;
     (fail, s) \<leftarrow> expect os m v fail s;
     expect_each os m call is fail (buf, s)
   }"

definition err_unopened :: "'s os \<Rightarrow> u8 list \<Rightarrow> 's \<Rightarrow> (i32 \<times> 's) option" where
  "err_unopened os buf s = do {
     (fail, st) \<leftarrow> expect_each os (line_of ''close unopened or invalid fd fail'')
       (\<lambda>fd (buf, s). do { (v, s) \<leftarrow> os_close os fd s; Some (v, buf, s) }) [0..<8] 0 (buf, s);
     (fail, st) \<leftarrow> expect_each os (line_of ''read from unopened fd fail'')
       (\<lambda>fd (buf, s). os_read os fd buf 31 s) [2..<8] fail st;
     (fail, buf, s) \<leftarrow> expect_each os (line_of ''write to unopened fd fail'')
       (\<lambda>fd (buf, s). do { (v, s) \<leftarrow> os_write os fd buf 31 s; Some (v, buf, s) }) [2..<8] fail st;
     report os ''err_unopened'' fail s
   }"

definition err_vidmap :: "'s os \<Rightarrow> 's \<Rightarrow> (i32 \<times> 's) option" where
  "err_vidmap os s = do {
     (v, s) \<leftarrow> os_vidmap os 0 s;
     (fail, s) \<leftarrow> expect os (line_of ''Null pointer fail'') v 0 s;
     (v, s) \<leftarrow> os_vidmap os 0x400000 s;
     (fail, s) \<leftarrow> expect os (line_of ''Kernel pointer fail fail'') v fail s;
     report os ''err_vidmap'' fail s
   }"

definition err_stdin_out :: "'s os \<Rightarrow> u8 list \<Rightarrow> 's \<Rightarrow> (i32 \<times> 's) option" where
  "err_stdin_out os buf s = do {
     (v, s) \<leftarrow> os_write os 0 buf 31 s;
     (fail, s) \<leftarrow> expect os (line_of ''write to stdin fail'') v 0 s;
     (v, buf, s) \<leftarrow> os_read os 1 buf 31 s;
     (fail, s) \<leftarrow> expect os (line_of ''read from stdout fail'') v fail s;
     report os ''err_stdin_out'' fail s
   }"

definition err_syscall_num :: "'s os \<Rightarrow> 's \<Rightarrow> (i32 \<times> 's) option" where
  "err_syscall_num os s = do {
     (v, s) \<leftarrow> os_call os 1073741823 s;
     (fail, s) \<leftarrow> expect os (line_of ''syscall 0 fail'') v 0 s;
     (v, s) \<leftarrow> os_call os (- 1073741823) s;
     (fail, s) \<leftarrow> expect os (line_of ''big num syscall fail'') v fail s;
     (v, s) \<leftarrow> os_call os 0 s;
     (fail, s) \<leftarrow> expect os (line_of ''neg num syscall fail'') v fail s;
     report os ''err_syscall_num'' fail s
   }"

text \<open>The buffers of the single tests are uninitialised: \<open>junk\<close>, 32 bytes.\<close>

definition syserr_all :: "'s os \<Rightarrow> u8 list \<Rightarrow> 's \<Rightarrow> (i32 \<times> 's) option" where
  "syserr_all os junk s = do {
     (f1, s) \<leftarrow> err_neg_fd os junk s;
     (f2, s) \<leftarrow> err_big_fd os junk s;
     (f3, s) \<leftarrow> err_open_lots os s;
     (f4, s) \<leftarrow> err_open os s;
     (f5, s) \<leftarrow> err_unopened os junk s;
     (f6, s) \<leftarrow> err_vidmap os s;
     (f7, s) \<leftarrow> err_stdin_out os junk s;
     (f8, s) \<leftarrow> err_syscall_num os s;
     let fail = f1 + f2 + f3 + f4 + f5 + f6 + f7 + f8;
     s \<leftarrow> ece391_fdputs os 1 ([newline] @ line_of (if fail \<noteq> 0 then ''Overall Tests: FAIL'' else ''Overall Tests: PASS'')) s;
     Some (fail, s)
   }"

definition syserr :: "'s os \<Rightarrow> u8 list \<Rightarrow> u8 list \<Rightarrow> 's \<Rightarrow> (i32 \<times> 's) option" where
  "syserr os buf junk s = do {
     s \<leftarrow> ece391_fdputs os 1 (msg ''Choose from tests 1-8. 0 to run all: '') s;
     (cnt, buf, s) \<leftarrow> os_read os 0 buf 127 s;
     if cnt = -1 then do {
       s \<leftarrow> ece391_fdputs os 1 (msg ''Can'' @ [39] @ line_of ''t read test #'') s;
       Some (2, s)
     }
     else do {
       c \<leftarrow> nth_opt buf 0;
       let select = uint c - 48;
       if select = 0 then syserr_all os junk s
       else if select = 1 then err_neg_fd os junk s
       else if select = 2 then err_big_fd os junk s
       else if select = 3 then err_open_lots os s
       else if select = 4 then err_open os s
       else if select = 5 then err_unopened os junk s
       else if select = 6 then err_vidmap os s
       else if select = 7 then err_stdin_out os junk s
       else if select = 8 then err_syscall_num os s
       else do {
         s \<leftarrow> ece391_fdputs os 1 (msg ''Invalid test number. Choose from tests 1-8 or 0'') s;
         Some (0, s)
       }
     }
   }"

section \<open>An operating system that passes\<close>

text \<open>\<open>ok fds s\<close>: the state is sane and the descriptors in use beside the two standard ones are \<open>fds\<close>.\<close>

locale careful_os =
  fixes os :: "'s os" and ok :: "nat set \<Rightarrow> 's \<Rightarrow> bool"
  assumes prints: "ok fds s \<Longrightarrow> length str \<le> 64 \<Longrightarrow> 8 \<notin> set str \<Longrightarrow> 9 \<notin> set str \<Longrightarrow>
      \<exists>r s'. os_write os 1 str (of_nat (length str)) s = Some (r, s') \<and> ok fds s'"
    and read_closed: "ok fds s \<Longrightarrow> fd = 1 \<or> (fd \<noteq> 0 \<and> unat fd \<notin> fds) \<Longrightarrow> length buf = 32 \<Longrightarrow>
      \<exists>s' buf'. os_read os fd buf 31 s = Some (-1, buf', s') \<and> length buf' = 32 \<and> ok fds s'"
    and write_closed: "ok fds s \<Longrightarrow> fd = 0 \<or> (fd \<noteq> 1 \<and> unat fd \<notin> fds) \<Longrightarrow> length buf = 32 \<Longrightarrow>
      \<exists>s'. os_write os fd buf 31 s = Some (-1, s') \<and> ok fds s'"
    and close_closed: "ok fds s \<Longrightarrow> unat fd \<notin> fds \<Longrightarrow> \<exists>s'. os_close os fd s = Some (-1, s') \<and> ok fds s'"
    and close_open: "ok fds s \<Longrightarrow> k \<in> fds \<Longrightarrow> \<exists>r s'. os_close os (of_nat k) s = Some (r, s') \<and> ok (fds - {k}) s'"
    and open_dir: "ok fds s \<Longrightarrow> k \<notin> fds \<Longrightarrow> {2..<k} \<subseteq> fds \<Longrightarrow> 2 \<le> k \<Longrightarrow> k < 8 \<Longrightarrow>
      \<exists>s'. os_open os [46] s = Some (of_nat k, s') \<and> ok (insert k fds) s'"
    and open_full: "ok fds s \<Longrightarrow> {2..<8} \<subseteq> fds \<Longrightarrow> \<exists>s'. os_open os [46] s = Some (-1, s') \<and> ok fds s'"
    and open_absent: "ok fds s \<Longrightarrow> str \<in> {msg ''helloo'', msg ''shel'', []} \<Longrightarrow>
      \<exists>s'. os_open os str s = Some (-1, s') \<and> ok fds s'"
    and vidmap_bad: "ok fds s \<Longrightarrow> a \<in> {0, 0x400000} \<Longrightarrow> \<exists>s'. os_vidmap os a s = Some (-1, s') \<and> ok fds s'"
    and call_bad: "ok fds s \<Longrightarrow> n = 0 \<or> 12 < n \<Longrightarrow> \<exists>s'. os_call os n s = Some (-1, s') \<and> ok fds s'"
begin

lemma puts_ok: "ok fds s \<Longrightarrow> length str \<le> 64 \<Longrightarrow> 8 \<notin> set str \<Longrightarrow> 9 \<notin> set str \<Longrightarrow>
    \<exists>s'. ece391_fdputs os fd str s = Some s' \<and> ok fds s'" if "fd = 1" for fd
  using prints [of fds s str] that by (auto simp: ece391_fdputs_def)

lemma expect_passes: "expect os m (-1) fail s = Some (fail, s)"
  by (simp add: expect_def)

lemma report_ok:
  assumes "ok fds s" "test \<in> {''err_neg_fd'', ''err_big_fd'', ''err_open_lots'', ''err_open'', ''err_unopened'',
    ''err_vidmap'', ''err_stdin_out'', ''err_syscall_num''}"
  shows "\<exists>s'. report os test 0 s = Some (0, s') \<and> ok fds s'"
proof -
  have "length (msg test @ line_of '': PASS'') \<le> 64 \<and> 8 \<notin> set (msg test @ line_of '': PASS'') \<and>
      9 \<notin> set (msg test @ line_of '': PASS'')"
    using assms(2) by (elim insertE emptyE) (simp_all add: msg_def line_of_def)
  then show ?thesis using puts_ok [OF refl assms(1), of "msg test @ line_of '': PASS''"] by (auto simp: report_def)
qed

lemma bad_fd_ok:
  assumes "ok fds s" "fd \<notin> {0, 1}" "unat fd \<notin> fds" "length buf = 32" "test \<in> {''err_neg_fd'', ''err_big_fd''}"
  shows "\<exists>s'. err_bad_fd os test fd buf s = Some (0, s') \<and> ok fds s'"
proof -
  obtain s1 buf1 where 1: "os_read os fd buf 31 s = Some (-1, buf1, s1)" "length buf1 = 32" "ok fds s1"
    using read_closed [OF assms(1) _ assms(4)] assms(2,3) by blast
  obtain s2 where 2: "os_write os fd buf1 31 s1 = Some (-1, s2)" "ok fds s2"
    using write_closed [OF 1(3) _ 1(2)] assms(2,3) by blast
  obtain s3 where 3: "os_close os fd s2 = Some (-1, s3)" "ok fds s3" using close_closed [OF 2(2) assms(3)] by blast
  obtain s4 where "report os test 0 s3 = Some (0, s4)" "ok fds s4" using report_ok [OF 3(2)] assms(5) by blast
  then show ?thesis using 1(1) 2(1) 3(1) by (simp add: err_bad_fd_def expect_passes)
qed

lemma open_lots_ok:
  "ok {2..<8 - n} s \<Longrightarrow> n \<le> 6 \<Longrightarrow> \<exists>s'. open_lots os (Suc n) cnt s = Some (cnt + 1, s') \<and> ok {2..<8} s'"
proof (induction n arbitrary: s)
  case 0
  then show ?case using open_full [of "{2..<8}" s] by auto
next
  case (Suc n)
  have "insert (8 - Suc n) {2..<8 - Suc n} = {2..<8 - n}" using Suc.prems(2) by auto
  moreover have "\<exists>s'. os_open os [46] s = Some (of_nat (8 - Suc n), s') \<and> ok (insert (8 - Suc n) {2..<8 - Suc n}) s'"
    by (rule open_dir [OF Suc.prems(1)]) (use Suc.prems(2) in simp_all)
  ultimately obtain s1 where s1: "os_open os [46] s = Some (of_nat (8 - Suc n), s1)" "ok {2..<8 - n} s1" by metis
  have "(of_nat (8 - Suc n) :: i32) \<noteq> -1"
    by (rule notI, drule arg_cong [of _ _ unat]) (simp add: unat_of_nat unat_neg_one)
  then show ?case using Suc.IH [OF s1(2)] Suc.prems(2) s1(1) by simp
qed

lemma close_all_ok: "ok {k..<8} s \<Longrightarrow> k \<le> 8 \<Longrightarrow> \<exists>s'. for_opt (close_one os) [k..<8] s = Some s' \<and> ok {} s'"
proof (induction "8 - k" arbitrary: k s)
  case 0
  then show ?case by simp
next
  case (Suc n)
  then have k: "k < 8" by simp
  have "{k..<8} - {k} = {Suc k..<8}" by auto
  then obtain r s1 where "os_close os (of_nat k) s = Some (r, s1)" "ok {Suc k..<8} s1"
    using close_open [OF Suc.prems(1), of k] k by auto
  then show ?case using Suc.hyps k by (simp add: upt_conv_Cons close_one_def)
qed

lemma open_lots_test: "ok {} s \<Longrightarrow> \<exists>s'. err_open_lots os s = Some (0, s') \<and> ok {} s'"
proof -
  assume "ok {} s"
  then obtain s1 where 1: "open_lots os 7 0 s = Some (1, s1)" "ok {2..<8} s1"
    using open_lots_ok [of 6 s 0] by (auto simp: eval_nat_numeral)
  obtain s2 where 2: "for_opt (close_one os) [2..<8] s1 = Some s2" "ok {} s2"
    using close_all_ok [OF 1(2)] by auto
  obtain s3 where 3: "report os ''err_open_lots'' 0 s2 = Some (0, s3)" "ok {} s3"
    using report_ok [OF 2(2)] by blast
  show ?thesis using 1(1) 2(1) 3 by (simp add: err_open_lots_def del: upt_rec_numeral open_lots.simps)
qed

lemma open_test: "ok {} s \<Longrightarrow> \<exists>s'. err_open os s = Some (0, s') \<and> ok {} s'"
proof -
  assume "ok {} s"
  then obtain s1 where 1: "os_open os (msg ''helloo'') s = Some (-1, s1)" "ok {} s1" using open_absent by blast
  obtain s2 where 2: "os_open os (msg ''shel'') s1 = Some (-1, s2)" "ok {} s2" using open_absent [OF 1(2)] by blast
  obtain s3 where 3: "os_open os [] s2 = Some (-1, s3)" "ok {} s3" using open_absent [OF 2(2)] by blast
  obtain s4 where "report os ''err_open'' 0 s3 = Some (0, s4)" "ok {} s4" using report_ok [OF 3(2)] by blast
  then show ?thesis using 1(1) 2(1) 3(1) by (simp add: err_open_def expect_passes)
qed

text \<open>A loop whose every call fails.\<close>

lemma expect_each_ok:
  assumes "\<And>i buf s. i \<in> set is \<Longrightarrow> ok {} s \<Longrightarrow> length buf = 32 \<Longrightarrow>
    \<exists>buf' s'. call (of_nat i) (buf, s) = Some (-1, buf', s') \<and> length buf' = 32 \<and> ok {} s'"
  shows "ok {} s \<Longrightarrow> length buf = 32 \<Longrightarrow>
    \<exists>buf' s'. expect_each os m call is fail (buf, s) = Some (fail, buf', s') \<and> length buf' = 32 \<and> ok {} s'"
  using assms
proof (induction "is" arbitrary: buf s)
  case (Cons i "is")
  obtain buf1 s1 where 1: "call (of_nat i) (buf, s) = Some (-1, buf1, s1)" "length buf1 = 32" "ok {} s1"
    using Cons.prems(3) [of i s buf] Cons.prems(1,2) by auto
  obtain buf2 s2 where "expect_each os m call is fail (buf1, s1) = Some (fail, buf2, s2)" "length buf2 = 32" "ok {} s2"
    using Cons.IH [OF 1(3,2)] Cons.prems(3) by auto
  then show ?case using 1(1) by (simp add: expect_passes)
qed simp

lemma small_fd: "2 \<le> i \<Longrightarrow> i < 8 \<Longrightarrow> (of_nat i :: i32) \<noteq> 0 \<and> (of_nat i :: i32) \<noteq> 1"
  by (auto dest!: arg_cong [of _ _ unat] simp: unat_of_nat)

lemma unopened_test: "ok {} s \<Longrightarrow> length buf = 32 \<Longrightarrow> \<exists>s'. err_unopened os buf s = Some (0, s') \<and> ok {} s'"
proof -
  assume s: "ok {} s" "length buf = 32"
  let ?close = "\<lambda>fd (buf, s). do { (v, s) \<leftarrow> os_close os fd s; Some (v, buf :: u8 list, s) }"
  let ?wr = "\<lambda>fd (buf, s). do { (v, s) \<leftarrow> os_write os fd buf 31 s; Some (v, buf, s) }"
  have c: "\<exists>buf' s'. ?close (of_nat i) (buf, s) = Some (-1, buf', s') \<and> length buf' = 32 \<and> ok {} s'"
    if st: "ok {} s" "length buf = 32" for i :: nat and buf s
    using close_closed [OF st(1), of "of_nat i"] st(2) by auto
  have r: "\<exists>buf' s'. (\<lambda>fd (buf, s). os_read os fd buf 31 s) (of_nat i) (buf, s) = Some (-1, buf', s') \<and> length buf' = 32 \<and> ok {} s'"
    if st: "ok {} s" "length buf = 32" and i: "i \<in> set [2..<8]" for i :: nat and buf s
    using read_closed [OF st(1) _ st(2), of "of_nat i"] small_fd [of i] i by auto
  have w: "\<exists>buf' s'. ?wr (of_nat i) (buf, s) = Some (-1, buf', s') \<and> length buf' = 32 \<and> ok {} s'"
    if st: "ok {} s" "length buf = 32" and i: "i \<in> set [2..<8]" for i :: nat and buf s
    using write_closed [OF st(1) _ st(2), of "of_nat i"] small_fd [of i] i st(2) by auto
  obtain buf1 s1 where 1: "expect_each os (line_of ''close unopened or invalid fd fail'') ?close [0..<8] 0 (buf, s) =
      Some (0, buf1, s1)" "length buf1 = 32" "ok {} s1"
    using expect_each_ok [of "[0..<8]" ?close, OF c s] by blast
  obtain buf2 s2 where 2: "expect_each os (line_of ''read from unopened fd fail'')
      (\<lambda>fd (buf, s). os_read os fd buf 31 s) [2..<8] 0 (buf1, s1) = Some (0, buf2, s2)" "length buf2 = 32" "ok {} s2"
    using expect_each_ok [of "[2..<8]" "\<lambda>fd (buf, s). os_read os fd buf 31 s", OF r 1(3,2)] by blast
  obtain buf3 s3 where 3: "expect_each os (line_of ''write to unopened fd fail'') ?wr [2..<8] 0 (buf2, s2) =
      Some (0, buf3, s3)" "ok {} s3"
    using expect_each_ok [of "[2..<8]" ?wr, OF w 2(3,2)] by blast
  obtain s4 where "report os ''err_unopened'' 0 s3 = Some (0, s4)" "ok {} s4" using report_ok [OF 3(2)] by blast
  then show ?thesis unfolding err_unopened_def 1(1) bind.bind_lunit prod.case 2(1) 3(1) by simp
qed

lemma vidmap_test: "ok {} s \<Longrightarrow> \<exists>s'. err_vidmap os s = Some (0, s') \<and> ok {} s'"
proof -
  assume "ok {} s"
  then obtain s1 where 1: "os_vidmap os 0 s = Some (-1, s1)" "ok {} s1" using vidmap_bad by blast
  obtain s2 where 2: "os_vidmap os 0x400000 s1 = Some (-1, s2)" "ok {} s2" using vidmap_bad [OF 1(2)] by blast
  obtain s3 where "report os ''err_vidmap'' 0 s2 = Some (0, s3)" "ok {} s3" using report_ok [OF 2(2)] by blast
  then show ?thesis using 1(1) 2(1) by (simp add: err_vidmap_def expect_passes)
qed

lemma stdin_out_test: "ok {} s \<Longrightarrow> length buf = 32 \<Longrightarrow> \<exists>s'. err_stdin_out os buf s = Some (0, s') \<and> ok {} s'"
proof -
  assume s: "ok {} s" "length buf = 32"
  then obtain s1 where 1: "os_write os 0 buf 31 s = Some (-1, s1)" "ok {} s1" using write_closed by blast
  obtain buf2 s2 where 2: "os_read os 1 buf 31 s1 = Some (-1, buf2, s2)" "ok {} s2"
    using read_closed [OF 1(2) _ s(2)] by blast
  obtain s3 where "report os ''err_stdin_out'' 0 s2 = Some (0, s3)" "ok {} s3" using report_ok [OF 2(2)] by blast
  then show ?thesis using 1(1) 2(1) by (simp add: err_stdin_out_def expect_passes)
qed

lemma syscall_num_test: "ok {} s \<Longrightarrow> \<exists>s'. err_syscall_num os s = Some (0, s') \<and> ok {} s'"
proof -
  assume s: "ok {} s"
  have n: "(12 :: u32) < 1073741823" "(12 :: u32) < - 1073741823" by (simp_all add: word_less_nat_alt)
  obtain s1 where 1: "os_call os 1073741823 s = Some (-1, s1)" "ok {} s1" using call_bad [OF s] n by blast
  obtain s2 where 2: "os_call os (- 1073741823) s1 = Some (-1, s2)" "ok {} s2" using call_bad [OF 1(2)] n by blast
  obtain s3 where 3: "os_call os 0 s2 = Some (-1, s3)" "ok {} s3" using call_bad [OF 2(2)] by blast
  obtain s4 where "report os ''err_syscall_num'' 0 s3 = Some (0, s4)" "ok {} s4" using report_ok [OF 3(2)] by blast
  then show ?thesis using 1(1) 2(1) 3(1) by (simp add: err_syscall_num_def expect_passes)
qed

lemma all_tests_pass:
  assumes "ok {} s" "length junk = 32"
  shows "\<exists>s'. syserr_all os junk s = Some (0, s') \<and> ok {} s'"
proof -
  have n: "NEG_FD \<notin> {0, 1}" "BIG_FD \<notin> {0, 1}" by simp_all
  have e: "unat k \<notin> {}" for k :: i32 by simp
  have t: "''err_neg_fd'' \<in> {''err_neg_fd'', ''err_big_fd''}" "''err_big_fd'' \<in> {''err_neg_fd'', ''err_big_fd''}" by simp_all
  obtain s1 where 1: "err_neg_fd os junk s = Some (0, s1)" "ok {} s1"
    unfolding err_neg_fd_def using bad_fd_ok [OF assms(1) n(1) e assms(2) t(1)] by blast
  obtain s2 where 2: "err_big_fd os junk s1 = Some (0, s2)" "ok {} s2"
    unfolding err_big_fd_def using bad_fd_ok [OF 1(2) n(2) e assms(2) t(2)] by blast
  obtain s3 where 3: "err_open_lots os s2 = Some (0, s3)" "ok {} s3" using open_lots_test [OF 2(2)] by blast
  obtain s4 where 4: "err_open os s3 = Some (0, s4)" "ok {} s4" using open_test [OF 3(2)] by blast
  obtain s5 where 5: "err_unopened os junk s4 = Some (0, s5)" "ok {} s5" using unopened_test [OF 4(2) assms(2)] by blast
  obtain s6 where 6: "err_vidmap os s5 = Some (0, s6)" "ok {} s6" using vidmap_test [OF 5(2)] by blast
  obtain s7 where 7: "err_stdin_out os junk s6 = Some (0, s7)" "ok {} s7" using stdin_out_test [OF 6(2) assms(2)] by blast
  obtain s8 where 8: "err_syscall_num os s7 = Some (0, s8)" "ok {} s8" using syscall_num_test [OF 7(2)] by blast
  let ?m = "[newline] @ line_of ''Overall Tests: PASS''"
  have "length ?m \<le> 64 \<and> 8 \<notin> set ?m \<and> 9 \<notin> set ?m" by (simp add: msg_def line_of_def)
  then obtain s9 where 9: "ece391_fdputs os 1 ?m s8 = Some s9" "ok {} s9" using puts_ok [OF refl 8(2)] by blast
  have "syserr_all os junk s = Some (0, s9)"
    unfolding syserr_all_def 1(1) 2(1) 3(1) 4(1) 5(1) 6(1) 7(1) 8(1) bind.bind_lunit prod.case Let_def
    using 9(1) by simp
  then show ?thesis using 9(2) by blast
qed

end

end
