(* ===== verification/UserKernel.thy ===== *)
theory UserKernel imports UserCalls SysErr begin

text \<open>
  The user programs on the kernel: the record of system calls they run on is the dispatch of \<^verbatim>\<open>linkage.S\<close> behind the
  wrappers of \<^verbatim>\<open>src/syscalls/ece391syscall.S\<close>. Buffers and strings are passed at one address \<open>a\<close> of user memory.
\<close>

section \<open>The system calls as the programs see them\<close>

definition kernel_call ::
    "frame_env \<Rightarrow> irq list \<Rightarrow> u32 \<Rightarrow> u32 \<Rightarrow> u32 \<Rightarrow> u32 \<Rightarrow> kstate \<Rightarrow> (i32 \<times> kstate) option" where
  "kernel_call env irqs eax ebx ecx edx s = do {
     (r, s) \<leftarrow> system_call env irqs eax ebx ecx edx s;
     case r of Returns v \<Rightarrow> Some (v, s) | _ \<Rightarrow> None
   }"

definition call_string :: "frame_env \<Rightarrow> irq list \<Rightarrow> u32 \<Rightarrow> u32 \<Rightarrow> u8 list \<Rightarrow> kstate \<Rightarrow> (i32 \<times> kstate) option" where
  "call_string env irqs a n str s = do { s \<leftarrow> copy_out a (str @ [0]) s; kernel_call env irqs n a 0 0 s }"

definition kernel_os :: "frame_env \<Rightarrow> irq list \<Rightarrow> u32 \<Rightarrow> kstate os" where
  "kernel_os env irqs a = \<lparr>
     os_open = call_string env irqs a 5,
     os_close = (\<lambda>fd. kernel_call env irqs 6 fd 0 0),
     os_read = (\<lambda>fd buf n s. do {
       s \<leftarrow> copy_out a buf s;
       (r, s) \<leftarrow> kernel_call env irqs 3 fd a n s;
       Some (r, copy_in a (length buf) s, s)
     }),
     os_write = (\<lambda>fd buf n s. do { s \<leftarrow> copy_out a buf s; kernel_call env irqs 4 fd a n s }),
     os_getargs = (\<lambda>buf n s. do {
       s \<leftarrow> copy_out a buf s;
       (r, s) \<leftarrow> kernel_call env irqs 7 a n 0 s;
       Some (r, copy_in a (length buf) s, s)
     }),
     os_execute = call_string env irqs a 2,
     os_create = call_string env irqs a 11,
     os_delete = call_string env irqs a 12,
     os_vidmap = (\<lambda>p. kernel_call env irqs 8 p 0 0),
     os_call = (\<lambda>n. kernel_call env irqs n 0 0 0)\<rparr>"

lemma returning_value:
  "do { (r, s) \<leftarrow> returning x; case r of Returns v \<Rightarrow> Some (v, s) | _ \<Rightarrow> None } = x"
  by (cases x) (auto simp: returning_def)

lemma kernel_call_simps [simp]:
  "kernel_call env irqs 3 fd a n s = sys_read irqs fd a n s"
  "kernel_call env irqs 4 fd a n s = sys_write fd a n s"
  "kernel_call env irqs 6 fd x y s = sys_close fd s"
  "kernel_call env irqs 7 a n x s = getargs a n s"
  "kernel_call env irqs 8 a x y s = vidmap a s"
  by (simp_all add: kernel_call_def system_call_def returning_value)

lemma kernel_call_open:
  "kernel_call env irqs 5 a x y s = do { str \<leftarrow> user_cstr a s; sys_open str s }"
  by (cases "user_cstr a s") (simp_all add: kernel_call_def system_call_def returning_value)

lemma kernel_call_bad: "n = 0 \<or> 12 < n \<Longrightarrow> kernel_call env irqs n x y z s = Some (-1, s)"
  by (auto simp: kernel_call_def system_call_def word_less_nat_alt)

section \<open>A user process with its console\<close>

definition files_of :: "nat \<Rightarrow> kstate \<Rightarrow> file_t list" where
  "files_of i s = p_files (pcbs s ! i)"

definition std_ok :: "file_t list \<Rightarrow> bool" where
  "std_ok fs \<longleftrightarrow> length fs = 8 \<and> f_present (fs ! 0) \<noteq> 0 \<and> f_ops (fs ! 0) = stdin_ops \<and>
     f_present (fs ! 1) \<noteq> 0 \<and> f_ops (fs ! 1) = stdout_ops"

text \<open>Process \<open>i\<close> is running with the 4 MB of its own page as user memory; its video window is at the physical
  address \<open>b\<close>, below the pages of the processes; \<open>off\<close> is the place of the buffers in its page.\<close>

definition user_ok :: "nat \<Rightarrow> u32 \<Rightarrow> nat \<Rightarrow> kstate \<Rightarrow> bool" where
  "user_ok i b off s \<longleftrightarrow> on_stack_of i s \<and> i < length (pcbs s) \<and> std_ok (files_of i s) \<and> user_window (mmu s) i \<and>
     window s b \<and> unat b + 4000 \<le> 0x800000 \<and> on_screen s \<and> cursor_ok s \<and>
     unat (active_term_id s) < length (terms s) \<and> off + 4096 \<le> 0x400000 \<and> wf_fs (disk s)"

abbreviation user_at :: "nat \<Rightarrow> u32" where
  "user_at off \<equiv> 0x8000000 + of_nat off"

abbreviation phys_at :: "nat \<Rightarrow> nat \<Rightarrow> u32" where
  "phys_at i off \<equiv> of_nat (user_base i + off)"

lemma user_ok_current: "user_ok i b off s \<Longrightarrow> current s = Some i"
  by (simp add: user_ok_def current_on_stack)

lemma user_ok_phys [simp]: "user_ok i b off (with_phys s m) = user_ok i b off s"
  by (auto simp: user_ok_def on_stack_of_def files_of_def on_screen_def cursor_ok_def current_def get_current_pcb_def)

lemma user_ok_frame:
  assumes "user_ok i b off s" "console_frame b s s'" "on_screen s'"
  shows "user_ok i b off s'"
proof -
  note k = console_base_keeps [OF console_frame_keeps(4) [OF assms(2)]]
  show ?thesis using assms(1,3) console_frame_keeps(1,2) [OF assms(2)] k
    by (simp add: user_ok_def on_stack_of_def files_of_def)
qed

lemma user_ok_iflag [simp]: "user_ok i b off (s\<lparr>iflag := v\<rparr>) = user_ok i b off s"
  using window_cong [of "s\<lparr>iflag := v\<rparr>" s]
  by (auto simp: user_ok_def on_stack_of_def files_of_def on_screen_def cursor_ok_def current_def get_current_pcb_def)

lemma user_ok_dir_pos [simp]: "user_ok i b off (s\<lparr>dir_pos := v\<rparr>) = user_ok i b off s"
  using window_cong [of "s\<lparr>dir_pos := v\<rparr>" s]
  by (auto simp: user_ok_def on_stack_of_def files_of_def on_screen_def cursor_ok_def current_def get_current_pcb_def)

lemma user_ok_terms: "length us = length (terms s) \<Longrightarrow> user_ok i b off (s\<lparr>terms := us\<rparr>) = user_ok i b off s"
  using window_cong [of "s\<lparr>terms := us\<rparr>" s]
  by (auto simp: user_ok_def on_stack_of_def files_of_def on_screen_def cursor_ok_def current_def get_current_pcb_def)

lemma user_ok_files: "user_ok i b off s \<Longrightarrow> std_ok fs \<Longrightarrow> user_ok i b off (set_files i fs s)"
  using window_cong [of "set_files i fs s" s]
  by (auto simp: user_ok_def on_stack_of_def files_of_def on_screen_def cursor_ok_def current_def get_current_pcb_def
      set_files_def)

lemma files_of_set [simp]: "i < length (pcbs s) \<Longrightarrow> files_of i (set_files i fs s) = fs"
  by (simp add: files_of_def set_files_def)

lemma get_file_user:
  "user_ok i b off s \<Longrightarrow> unat fd < 8 \<Longrightarrow> get_file i fd s = Some (files_of i s ! unat fd)"
  by (simp add: user_ok_def std_ok_def files_of_def get_file_def get_pcb_def nth_opt_Some)

lemma map_file_user:
  "user_ok i b off s \<Longrightarrow> unat fd < 8 \<Longrightarrow>
   map_file i fd f s = Some (set_files i ((files_of i s)[unat fd := f (files_of i s ! unat fd)]) s)"
  using get_file_user [of i b off s fd]
  by (simp add: map_file_def map_pcb_eq user_ok_def files_of_def set_files_def)

text \<open>What a buffer in user memory holds.\<close>

lemma user_copy_out:
  assumes "user_ok i b off s" "length bs \<le> 4096"
  shows "copy_out (user_at off) bs s = Some (with_phys s (put_bytes (phys_at i off) bs (phys s)))"
  by (rule copy_out_eq, rule window_mapped) (use assms in \<open>auto simp: user_ok_def\<close>)

lemma user_mapped: "user_ok i b off s \<Longrightarrow> n \<le> 4096 \<Longrightarrow> mapped s (user_at off) n (phys_at i off)"
  by (rule window_mapped) (auto simp: user_ok_def)

text \<open>User memory lies above the video window.\<close>

lemma user_outside:
  assumes "user_ok i b off s" "k < 4096"
  shows "4000 \<le> unat (phys_at i off + of_nat k - b)"
proof -
  have i: "i < MAX_PROCESS" using assms(1) by (simp add: user_ok_def on_stack_of_def)
  then have "user_base i + 0x400000 \<le> 2 ^ 31" by (simp add: user_base_def)
  then have p: "unat (phys_at i off + of_nat k) = user_base i + off + k"
    using assms by (simp add: user_ok_def unat_word_ariths unat_of_nat)
  have "0x800000 \<le> user_base i" by (simp add: user_base_def)
  moreover have "unat b + 4000 \<le> 0x800000" using assms(1) by (simp add: user_ok_def)
  ultimately have "unat b \<le> user_base i + off + k" "4000 \<le> user_base i + off + k - unat b" by linarith+
  then show ?thesis unfolding unat_sub_wrap p by simp
qed

section \<open>Printing a buffer\<close>

lemma write_bytes_eq:
  assumes "8 \<notin> set str" "9 \<notin> set str" "n = length str" "n \<le> 4096"
  shows "j \<le> n \<Longrightarrow> user_ok i b off s \<Longrightarrow> \<forall>k < n. phys s (phys_at i off + of_nat k) = str ! k \<Longrightarrow>
    \<exists>s'. for_opt (write_byte (user_at off)) [j..<n] s = Some s' \<and> console_frame b s s' \<and> on_screen s' \<and>
      console_of b s' = fold abs_putc (drop j str) (console_of b s)"
proof (induction "n - j" arbitrary: j s)
  case 0
  then have "j = n" by simp
  then show ?case using 0 assms(3) by (simp add: user_ok_def)
next
  case (Suc m)
  then have j: "j < n" by simp
  have "vload (user_at off + of_nat j) s = Some (str ! j)"
    using user_mapped [OF Suc.prems(2), of n] Suc.prems(3) j assms(4)
    by (simp add: vload_def load_virtual_def mapped_def)
  moreover have c: "str ! j \<noteq> 8" "str ! j \<noteq> 9" using assms(1-3) j nth_mem by metis+
  have u: "window s b" "on_screen s" "cursor_ok s" using Suc.prems(2) by (simp_all add: user_ok_def)
  obtain s1 where s1: "putc (str ! j) s = Some s1" "console_frame b s s1" "on_screen s1"
    "console_of b s1 = abs_putc (str ! j) (console_of b s)" using putc_eq [OF u c] by blast
  have ok1: "user_ok i b off s1" by (rule user_ok_frame [OF Suc.prems(2) s1(2,3)])
  have "phys s1 (phys_at i off + of_nat k) = str ! k" if "k < n" for k
    using console_frame_keeps(3) [OF s1(2)] user_outside [OF Suc.prems(2), of k] Suc.prems(3) that assms(4)
    by (simp add: outside_window_def)
  then have "\<exists>s'. for_opt (write_byte (user_at off)) [Suc j..<n] s1 = Some s' \<and> console_frame b s1 s' \<and> on_screen s' \<and>
      console_of b s' = fold abs_putc (drop (Suc j) str) (console_of b s1)"
    using Suc.hyps(2) j ok1 by (intro Suc.hyps(1)) auto
  moreover have "drop j str = str ! j # drop (Suc j) str" using j assms(3) by (simp add: Cons_nth_drop_Suc)
  moreover have "[j..<n] = j # [Suc j..<n]" using j by (simp add: upt_conv_Cons)
  ultimately show ?case using s1 console_frame_trans by (auto simp: write_byte_def)
qed

lemma user_buffer_bytes:
  assumes "length bs \<le> 4096" "k < length bs"
  shows "put_bytes p bs m (p + of_nat k) = bs ! k"
  using assms by (simp add: put_bytes_at unat_of_nat)

text \<open>A store to user memory is not seen on the screen.\<close>

lemma user_bytes_screen:
  assumes ok: "user_ok i b off s" and l: "length bs \<le> 4096"
  shows "console_of b (with_phys s (put_bytes (phys_at i off) bs (phys s))) = console_of b s"
proof -
  let ?m = "put_bytes (phys_at i off) bs (phys s)"
  have e: "?m (b + of_nat k) = phys s (b + of_nat k)" if k: "k < 4000" for k
  proof -
    define d where "d = unat (b + of_nat k - phys_at i off)"
    have "phys_at i off + of_nat d - b = of_nat k" by (simp add: d_def)
    then have "unat (phys_at i off + of_nat d - b) = k" using k by (simp add: unat_of_nat)
    then have "\<not> d < length bs" using user_outside [OF ok, of d] l k by auto
    then show ?thesis unfolding d_def using l by (subst put_bytes_at) simp_all
  qed
  have "screen_chars b ?m ! j = screen_chars b (phys s) ! j" if "j < 2000" for j
    using e [of "2 * j"] that by simp
  then have "screen_chars b ?m = screen_chars b (phys s)"
    by (intro nth_equalityI) simp_all
  then show ?thesis by (simp add: console_of_def)
qed

text \<open>Printing a buffer leaves the memory outside the window alone, apart from the buffer itself.\<close>

lemma kernel_prints_part:
  assumes ok: "user_ok i b off s" and lb: "length buf \<le> 4096" and n': "n \<le> length buf" "str = take n buf"
    and p: "8 \<notin> set str" "9 \<notin> set str"
  shows "\<exists>s'. os_write (kernel_os env irqs (user_at off)) 1 buf (of_nat n) s = Some (of_nat n, s') \<and>
    user_ok i b off s' \<and> console_of b s' = fold abs_putc str (console_of b s) \<and> disk s' = disk s \<and> dir_pos s' = dir_pos s \<and>
    files_of i s' = (files_of i s)[1 := advance (of_nat n) (files_of i s ! 1)]"
proof -
  let ?n = "of_nat n :: u32" and ?a = "user_at off"
  let ?s0 = "with_phys s (put_bytes (phys_at i off) buf (phys s))"
  have l: "length str \<le> 4096" "n = length str" using lb n' by simp_all
  have co: "copy_out ?a buf s = Some ?s0" by (rule user_copy_out [OF ok lb])
  have ok0: "user_ok i b off ?s0" using ok by simp
  have f1: "get_file i 1 ?s0 = Some (files_of i ?s0 ! 1)" using get_file_user [OF ok0, of 1] by simp
  have std: "f_present (files_of i ?s0 ! 1) \<noteq> 0" "f_ops (files_of i ?s0 ! 1) = stdout_ops" "std_ok (files_of i s)"
    using ok0 ok by (simp_all add: user_ok_def std_ok_def)
  have screen0: "console_of b ?s0 = console_of b s" by (rule user_bytes_screen [OF ok lb])
  have "\<exists>s1. terminal_write 1 ?a ?n ?s0 = Some (?n, s1) \<and> user_ok i b off s1 \<and>
      console_of b s1 = fold abs_putc str (console_of b s) \<and> disk s1 = disk s \<and> dir_pos s1 = dir_pos s \<and>
      files_of i s1 = files_of i s"
  proof (cases "str = []")
    case True
    then have "n = 0" using l(2) by simp
    then show ?thesis using True ok0 screen0 by (simp add: terminal_write_def files_of_def)
  next
    case False
    let ?s1 = "?s0\<lparr>iflag := False\<rparr>"
    have n: "unat ?n = length str" using l by (simp add: unat_of_nat)
    have bytes: "put_bytes (phys_at i off) buf (phys s) (phys_at i off + of_nat k) = str ! k" if "k < length str" for k
      using user_buffer_bytes [OF lb, of k] that n' by simp
    have a: "?a \<noteq> 0" using in_user_page_offset [of off] ok by (auto simp: in_user_page_def user_ok_def)
    have nz: "?n \<noteq> 0" using n False by auto
    obtain s2 where s2: "for_opt (write_byte ?a) [0..<length str] ?s1 = Some s2" "console_frame b ?s1 s2" "on_screen s2"
        "console_of b s2 = fold abs_putc str (console_of b ?s1)"
      using write_bytes_eq [OF p refl l(1), of 0 i b off ?s1] ok0 bytes by auto
    have ok2: "user_ok i b off s2" using user_ok_frame [OF _ s2(2,3)] ok0 by simp
    note k = console_base_keeps [OF console_frame_keeps(4) [OF s2(2)]]
    let ?us = "(terms s2)[unat (active_term_id s2) := (terms s2 ! unat (active_term_id s2))\<lparr>t_length := 0\<rparr>]"
    have "map_term (active_term_id s2) (\<lambda>u. u\<lparr>t_length := 0\<rparr>) s2 = Some (s2\<lparr>terms := ?us\<rparr>)"
      using ok2 by (simp add: user_ok_def map_term_eq)
    moreover have "user_ok i b off (s2\<lparr>terms := ?us, iflag := True\<rparr>)" using ok2 by (simp add: user_ok_terms)
    moreover have "console_of b (s2\<lparr>terms := ?us, iflag := True\<rparr>) = fold abs_putc str (console_of b s)"
      using s2(4) screen0 by (simp add: console_of_def)
    ultimately show ?thesis
      using a nz n s2(1) k by (simp add: terminal_write_def files_of_def)
  qed
  then obtain s1 where s1: "terminal_write 1 ?a ?n ?s0 = Some (?n, s1)" "user_ok i b off s1"
      "console_of b s1 = fold abs_putc str (console_of b s)" "disk s1 = disk s" "dir_pos s1 = dir_pos s"
      "files_of i s1 = files_of i s" by blast
  let ?s2 = "set_files i ((files_of i s)[1 := advance ?n (files_of i s ! 1)]) s1"
  have "map_file i 1 (advance ?n) s1 = Some ?s2" using map_file_user [OF s1(2), of 1] s1(6) by simp
  then have w: "sys_write 1 ?a ?n ?s0 = Some (?n, ?s2)"
    using user_ok_current [OF ok0] f1 std s1(1) by (simp add: sys_write_def bad_fd_def finish_write_def)
  have "user_ok i b off ?s2"
    by (rule user_ok_files [OF s1(2)]) (use std(3) in \<open>simp add: std_ok_def advance_def\<close>)
  moreover have "console_of b ?s2 = console_of b s1" "dir_pos ?s2 = dir_pos s1" "i < length (pcbs s1)"
    using s1(2) by (simp_all add: console_of_def set_files_def user_ok_def)
  ultimately show ?thesis using co w s1 by (simp add: kernel_os_def)
qed

lemma kernel_prints:
  assumes "user_ok i b off s" "length str \<le> 4096" "8 \<notin> set str" "9 \<notin> set str"
  shows "\<exists>s'. os_write (kernel_os env irqs (user_at off)) 1 str (of_nat (length str)) s = Some (of_nat (length str), s') \<and>
    user_ok i b off s' \<and> console_of b s' = fold abs_putc str (console_of b s) \<and> disk s' = disk s \<and> dir_pos s' = dir_pos s \<and>
    files_of i s' = (files_of i s)[1 := advance (of_nat (length str)) (files_of i s ! 1)]"
  by (rule kernel_prints_part [OF assms(1,2) order_refl _ assms(3,4)]) simp

section \<open>Opening by name\<close>

lemma user_string_eq:
  "0 \<notin> set str \<Longrightarrow> mapped s a (Suc (length str)) p \<Longrightarrow>
   \<forall>k < length str. phys s (p + of_nat k) = str ! k \<Longrightarrow> phys s (p + of_nat (length str)) = 0 \<Longrightarrow>
   user_string a s = Some str"
proof (induction str arbitrary: a p)
  case Nil
  then show ?case using mapped_Suc [of s a 0 p]
    by (subst user_string.simps) (simp add: vload_def load_virtual_def)
next
  case (Cons c str)
  have m: "translate (mmu s) a = Some p" "mapped s (a + 1) (Suc (length str)) (p + 1)"
    using mapped_Suc Cons.prems(2) by auto
  have c: "phys s p = c" using Cons.prems(3) [rule_format, of 0] by simp
  have "user_string (a + 1) s = Some str"
  proof (rule Cons.IH [OF _ m(2)])
    show "\<forall>k < length str. phys s (p + 1 + of_nat k) = str ! k"
    proof (intro allI impI)
      fix k assume "k < length str"
      then show "phys s (p + 1 + of_nat k) = str ! k"
        using Cons.prems(3) [rule_format, of "Suc k"] by (simp add: add.assoc)
    qed
    show "phys s (p + 1 + of_nat (length str)) = 0" using Cons.prems(4) by (simp add: add.assoc)
  qed (use Cons.prems(1) in simp)
  then show ?case using m(1) c Cons.prems(1) by (subst user_string.simps) (simp add: vload_def load_virtual_def)
qed

lemma user_at_nonzero: "user_ok i b off s \<Longrightarrow> user_at off \<noteq> 0"
  using in_user_page_offset [of off] by (auto simp: in_user_page_def user_ok_def)

definition with_string :: "nat \<Rightarrow> nat \<Rightarrow> u8 list \<Rightarrow> kstate \<Rightarrow> kstate" where
  "with_string i off str s = with_phys s (put_bytes (phys_at i off) (str @ [0]) (phys s))"

lemma with_string_simps [simp]:
  "user_ok i b off (with_string i off str s) = user_ok i b off s" "files_of i (with_string i off str s) = files_of i s"
  "disk (with_string i off str s) = disk s" "dir_pos (with_string i off str s) = dir_pos s"
  by (simp_all add: with_string_def files_of_def)

lemma kernel_os_open:
  assumes "user_ok i b off s" "0 \<notin> set str" "length str < 4096"
  shows "os_open (kernel_os env irqs (user_at off)) str s = sys_open (Some str) (with_string i off str s)"
proof -
  let ?s = "with_string i off str s"
  have co: "copy_out (user_at off) (str @ [0]) s = Some ?s"
    unfolding with_string_def by (rule user_copy_out [OF assms(1)]) (use assms(3) in simp)
  have ok: "user_ok i b off ?s" using assms(1) by simp
  have b: "phys ?s (phys_at i off + of_nat k) = (str @ [0]) ! k" if "k < Suc (length str)" for k
    unfolding with_string_def using user_buffer_bytes [of "str @ [0]" k] assms(3) that by simp
  have "user_string (user_at off) ?s = Some str"
  proof (rule user_string_eq [OF assms(2)])
    show "mapped ?s (user_at off) (Suc (length str)) (phys_at i off)"
      using user_mapped [OF ok, of "Suc (length str)"] assms(3) by simp
    show "\<forall>k < length str. phys ?s (phys_at i off + of_nat k) = str ! k" using b by (simp add: nth_append)
    show "phys ?s (phys_at i off + of_nat (length str)) = 0" using b [of "length str"] by simp
  qed
  then have "user_cstr (user_at off) ?s = Some (Some str)"
    using user_at_nonzero [OF assms(1)] by (simp add: user_cstr_def)
  then show ?thesis using co by (simp add: kernel_os_def call_string_def kernel_call_open)
qed

text \<open>The lowest free descriptor.\<close>

definition next_fd :: "file_t list \<Rightarrow> nat \<Rightarrow> bool" where
  "next_fd fs k \<longleftrightarrow> 2 \<le> k \<and> k < 8 \<and> f_present (fs ! k) = 0 \<and> (\<forall>j. 2 \<le> j \<and> j < k \<longrightarrow> f_present (fs ! j) \<noteq> 0)"

lemma free_fd_next: "length fs = 8 \<Longrightarrow> next_fd fs k \<Longrightarrow> free_fd fs = Some (Some k)"
proof -
  assume l: "length fs = 8" and k: "next_fd fs k"
  have "2 \<le> k" using k by (simp add: next_fd_def)
  then have "Suc (Suc (k - 2)) = k" by simp
  then have "List.find (\<lambda>i. f_present (fs ! i) = 0) [2..<8] = Some k"
    unfolding find_Some_iff using k
    by (intro exI [of _ "k - 2"]) (auto simp: next_fd_def simp del: upt_rec_numeral)
  then show ?thesis using l by (simp add: free_fd_def slice_opt_def)
qed

lemma free_fd_none: "length fs = 8 \<Longrightarrow> \<forall>j. 2 \<le> j \<and> j < 8 \<longrightarrow> f_present (fs ! j) \<noteq> 0 \<Longrightarrow> free_fd fs = Some None"
  by (simp add: free_fd_def slice_opt_def find_None_iff)

lemma free_fd_returns: "length fs = 8 \<Longrightarrow> free_fd fs = Some None \<or> (\<exists>k. free_fd fs = Some (Some k))"
  by (cases "List.find (\<lambda>i. f_present (fs ! i) = 0) [2..<8]") (auto simp: free_fd_def slice_opt_def)

lemma user_pcb: "user_ok i b off s \<Longrightarrow> get_pcb i s = Some (pcbs s ! i) \<and> p_files (pcbs s ! i) = files_of i s \<and>
    length (files_of i s) = 8"
  by (simp add: user_ok_def get_pcb_def nth_opt_Some files_of_def std_ok_def)

text \<open>The directory entry a name stands for.\<close>

definition entry_of :: "fsys \<Rightarrow> u8 list \<Rightarrow> dentry_t" where
  "entry_of fs name = dentries (boot_block fs) ! first_index name (dir_names fs)"

lemma entry_inode_small:
  assumes "wf_fs fs" "name \<in> set (dir_names fs)"
  shows "inode_num (entry_of fs name) < inode_count (boot_block fs)" "inode_num (entry_of fs name) \<noteq> -1"
    "(of_nat (first_index name (dir_names fs)) :: u32) \<noteq> -1"
proof -
  have l: "first_index name (dir_names fs) < length (dentries (boot_block fs))"
    using assms first_index_less [of name "dir_names fs"] length_dir_names [OF assms(1)] by (auto simp: wf_fs_def)
  then show i: "inode_num (entry_of fs name) < inode_count (boot_block fs)"
    using assms(1) by (auto simp: entry_of_def wf_fs_def wf_dentry_def)
  then show "inode_num (entry_of fs name) \<noteq> -1" using word_not_simps(1) by auto
  have "first_index name (dir_names fs) < 63" using l assms(1) by (simp add: wf_fs_def)
  then show "(of_nat (first_index name (dir_names fs)) :: u32) \<noteq> -1"
    by (auto simp: unat_neg_one unat_of_nat dest!: arg_cong [of _ "-1" unat])
qed

lemma sys_open_eq:
  assumes ok: "user_ok i b off s" and n: "0 \<notin> set name" "name \<in> set (dir_names (disk s))"
    and t: "file_type (entry_of (disk s) name) = of_nat ty" "ty = 1 \<or> ty = 2" and k: "next_fd (files_of i s) k"
  shows "sys_open (Some name) s = Some (of_nat k, set_files i ((files_of i s)[k :=
    set_up_file (file_ops_map ! ty) (inode_num (entry_of (disk s) name)) (files_of i s ! k)]) s)"
proof -
  have wf: "wf_fs (disk s)" using ok by (simp add: user_ok_def)
  have r: "read_dentry_by_name (disk s) (Some name) =
      Some (of_nat (first_index name (dir_names (disk s))), Some (entry_of (disk s) name))"
    using read_dentry_by_name_eq [OF wf n(1)] n(2) by (simp add: entry_of_def)
  note e = entry_inode_small [OF wf n(2)]
  have u: "unat (of_nat ty :: u32) = ty" "ty < length file_ops_map"
    using t(2) by (auto simp: file_ops_map_def)
  have "\<exists>v. v \<noteq> -1 \<and> ops_open (file_ops_map ! ty) (Some name) s = Some (v, s)"
    using t(2) r e by (auto simp: file_ops_map_def dir_open_def file_open_def)
  then obtain v where v: "v \<noteq> -1" "ops_open (file_ops_map ! ty) (Some name) s = Some (v, s)" by blast
  have k8: "unat (of_nat k :: u32) = k" "unat (of_nat k :: u32) < 8" using k unat_small_fd by (simp_all add: next_fd_def)
  show ?thesis
    using user_pcb [OF ok] free_fd_next [OF _ k] user_ok_current [OF ok] r e t(1) u v
      map_file_user [OF ok k8(2)] k8(1)
    by (simp add: sys_open_def open_at_def nth_opt_Some)
qed

lemma sys_open_full:
  "user_ok i b off s \<Longrightarrow> \<forall>j. 2 \<le> j \<and> j < 8 \<longrightarrow> f_present (files_of i s ! j) \<noteq> 0 \<Longrightarrow> sys_open name s = Some (-1, s)"
  using user_pcb [of i b off s] free_fd_none [of "files_of i s"] user_ok_current [of i b off s]
  by (simp add: sys_open_def)

lemma sys_open_absent:
  assumes ok: "user_ok i b off s" and n: "0 \<notin> set name" "name \<notin> set (dir_names (disk s))"
  shows "sys_open (Some name) s = Some (-1, s)"
proof -
  have "read_dentry_by_name (disk s) (Some name) = Some (-1, None)"
    using read_dentry_by_name_eq [of "disk s" name] ok n by (simp add: user_ok_def)
  then show ?thesis
    using user_pcb [OF ok] user_ok_current [OF ok]
      free_fd_returns [of "files_of i s"] by (auto simp: sys_open_def open_at_def)
qed

section \<open>Descriptors that are not open\<close>

lemma fd_range:
  "\<not> bad_fd 0 fd \<Longrightarrow> unat fd < 8" "\<not> bad_fd 2 fd \<Longrightarrow> 2 \<le> unat fd \<and> unat fd < 8"
proof -
  define m where "m = unat fd"
  have e: "sint fd = int m" if "0 \<le> sint fd" unfolding m_def using unat_of_sint [OF that] by (rule sym)
  have "\<not> bad_fd 0 fd \<Longrightarrow> m < 8" "\<not> bad_fd 2 fd \<Longrightarrow> 2 \<le> m \<and> m < 8"
    using e by (auto simp: bad_fd_def)
  then show "\<not> bad_fd 0 fd \<Longrightarrow> unat fd < 8" "\<not> bad_fd 2 fd \<Longrightarrow> 2 \<le> unat fd \<and> unat fd < 8"
    unfolding m_def by blast+
qed

lemma closed_calls:
  assumes ok: "user_ok i b off s" and c: "\<not> bad_fd 0 fd \<Longrightarrow> f_present (files_of i s ! unat fd) = 0"
  shows "sys_read irqs fd a n s = Some (-1, s)" "sys_write fd a n s = Some (-1, s)" "sys_close fd s = Some (-1, s)"
proof -
  have b: "bad_fd 2 fd" if "bad_fd 0 fd" using that by (auto simp: bad_fd_def)
  show "sys_read irqs fd a n s = Some (-1, s)" "sys_write fd a n s = Some (-1, s)" "sys_close fd s = Some (-1, s)"
    using user_ok_current [OF ok] get_file_user [OF ok, of fd] fd_range(1) [of fd] c b
    by (cases "bad_fd 0 fd"; simp add: sys_read_def sys_write_def sys_close_def)+
qed

lemma close_std:
  assumes ok: "user_ok i b off s" and "bad_fd 2 fd"
  shows "sys_close fd s = Some (-1, s)"
  using assms user_ok_current [OF ok] by (simp add: sys_close_def)

lemma kernel_os_read_failed:
  assumes "user_ok i b off s" "length buf \<le> 4096"
    and "\<And>m. sys_read irqs fd (user_at off) n (with_phys s m) = Some (-1, with_phys s m)"
  shows "\<exists>s'. os_read (kernel_os env irqs (user_at off)) fd buf n s = Some (-1, buf, s') \<and> (\<exists>m. s' = with_phys s m)"
proof -
  let ?m = "put_bytes (phys_at i off) buf (phys s)"
  have "mapped (with_phys s ?m) (user_at off) (length buf) (phys_at i off)"
    using user_mapped [of i b off "with_phys s ?m"] assms(1,2) by simp
  then have "copy_in (user_at off) (length buf) (with_phys s ?m) = buf"
    by (rule copy_in_put_bytes) (use assms(2) in simp_all)
  then show ?thesis using assms user_copy_out [OF assms(1,2)] by (simp add: kernel_os_def) blast
qed

lemma kernel_os_write_failed:
  assumes "user_ok i b off s" "length buf \<le> 4096"
    and "\<And>m. sys_write fd (user_at off) n (with_phys s m) = Some (-1, with_phys s' m)"
  shows "\<exists>m. os_write (kernel_os env irqs (user_at off)) fd buf n s = Some (-1, with_phys s' m)"
  using assms(3) user_copy_out [OF assms(1,2)] by (simp add: kernel_os_def) blast

text \<open>The standard descriptors the wrong way round: reading the output fails; so does writing to the input, which
  still moves the position of the descriptor.\<close>

lemma read_stdout:
  assumes ok: "user_ok i b off s"
  shows "sys_read irqs 1 a n s = Some (-1, s)"
  using user_ok_current [OF ok] get_file_user [OF ok, of 1] ok
  by (simp add: sys_read_def bad_fd_def user_ok_def std_ok_def null_read_def finish_read_def)

lemma write_stdin:
  assumes ok: "user_ok i b off s"
  shows "sys_write 0 a n s = Some (-1, set_files i ((files_of i s)[0 := advance (-1) (files_of i s ! 0)]) s)"
  using user_ok_current [OF ok] get_file_user [OF ok, of 0] map_file_user [OF ok, of 0] ok
  by (simp add: sys_write_def bad_fd_def user_ok_def std_ok_def null_write_def finish_write_def)

section \<open>The kernel passes the error tests\<close>

definition test_disk :: "fsys \<Rightarrow> bool" where
  "test_disk fs \<longleftrightarrow> [46] \<in> set (dir_names fs) \<and> file_type (entry_of fs [46]) = 1 \<and>
     msg ''helloo'' \<notin> set (dir_names fs) \<and> msg ''shel'' \<notin> set (dir_names fs) \<and> [] \<notin> set (dir_names fs)"

text \<open>Beside the standard descriptors exactly those in \<open>opn\<close> are open, each on a directory.\<close>

definition careful :: "nat \<Rightarrow> u32 \<Rightarrow> nat \<Rightarrow> nat set \<Rightarrow> kstate \<Rightarrow> bool" where
  "careful i b off opn s \<longleftrightarrow> user_ok i b off s \<and> test_disk (disk s) \<and> opn \<subseteq> {2..<8} \<and>
     (\<forall>k \<in> {2..<8}. (k \<in> opn \<longleftrightarrow> f_present (files_of i s ! k) \<noteq> 0) \<and> (k \<in> opn \<longrightarrow> f_ops (files_of i s ! k) = dir_ops))"

lemma careful_update:
  assumes "careful i b off opn s" "user_ok i b off s'" "disk s' = disk s"
    and "\<And>k. 2 \<le> k \<Longrightarrow> k < 8 \<Longrightarrow> files_of i s' ! k = files_of i s ! k"
  shows "careful i b off opn s'"
  using assms unfolding careful_def by auto

lemma careful_phys [simp]: "careful i b off opn (with_phys s m) = careful i b off opn s"
  by (simp add: careful_def files_of_def)

lemma careful_string [simp]: "careful i b off opn (with_string i off str s) = careful i b off opn s"
  by (simp add: with_string_def)

lemma careful_closed:
  assumes "careful i b off opn s" "unat fd \<notin> opn" "2 \<le> unat fd"
  shows "\<not> bad_fd 0 fd \<Longrightarrow> f_present (files_of i s ! unat fd) = 0"
  using assms fd_range(1) [of fd] by (auto simp: careful_def)

lemma careful_set:
  assumes c: "careful i b off opn s" and k: "2 \<le> k" "k < 8" and f: "f_present v \<noteq> 0 \<longrightarrow> f_ops v = dir_ops"
  shows "careful i b off (if f_present v \<noteq> 0 then insert k opn else opn - {k}) (set_files i ((files_of i s)[k := v]) s)"
proof -
  have ok: "user_ok i b off s" using c by (simp add: careful_def)
  have l: "length (files_of i s) = 8" "i < length (pcbs s)" "std_ok (files_of i s)"
    using user_pcb [OF ok] ok by (simp_all add: user_ok_def)
  have u: "user_ok i b off (set_files i ((files_of i s)[k := v]) s)"
    using k l by (intro user_ok_files [OF ok]) (simp add: std_ok_def)
  have n: "files_of i (set_files i ((files_of i s)[k := v]) s) ! j = (if j = k then v else files_of i s ! j)" if "j < 8" for j
    using that l by (simp add: nth_list_update)
  let ?opn = "if f_present v \<noteq> 0 then insert k opn else opn - {k}"
  have "(j \<in> ?opn \<longleftrightarrow> f_present (files_of i (set_files i ((files_of i s)[k := v]) s) ! j) \<noteq> 0) \<and>
      (j \<in> ?opn \<longrightarrow> f_ops (files_of i (set_files i ((files_of i s)[k := v]) s) ! j) = dir_ops)" if j: "j \<in> {2..<8}" for j
  proof -
    have "(j \<in> opn \<longleftrightarrow> f_present (files_of i s ! j) \<noteq> 0) \<and> (j \<in> opn \<longrightarrow> f_ops (files_of i s ! j) = dir_ops)"
      using c j unfolding careful_def by blast
    then show ?thesis using n [of j] j f by (cases "j = k") (simp_all split: if_splits)
  qed
  moreover have "?opn \<subseteq> {2..<8}" using c k by (auto simp: careful_def)
  ultimately show ?thesis
    using c u unfolding careful_def by simp
qed

lemma careful_open:
  assumes c: "careful i b off opn s" and k: "k \<notin> opn" "{2..<k} \<subseteq> opn" "2 \<le> k" "k < 8"
  shows "\<exists>s'. sys_open (Some [46]) s = Some (of_nat k, s') \<and> careful i b off (insert k opn) s'"
proof -
  have ok: "user_ok i b off s" and d: "[46] \<in> set (dir_names (disk s))" "file_type (entry_of (disk s) [46]) = of_nat 1"
    using c by (simp_all add: careful_def test_disk_def)
  have n: "next_fd (files_of i s) k" using c k by (auto simp: careful_def next_fd_def)
  let ?fs = "(files_of i s)[k := set_up_file dir_ops (inode_num (entry_of (disk s) [46])) (files_of i s ! k)]"
  have o: "sys_open (Some [46]) s = Some (of_nat k, set_files i ?fs s)"
    using sys_open_eq [OF ok _ d _ n] by (simp add: file_ops_map_def)
  let ?v = "set_up_file dir_ops (inode_num (entry_of (disk s) [46])) (files_of i s ! k)"
  have "careful i b off (if f_present ?v \<noteq> 0 then insert k opn else opn - {k}) (set_files i ?fs s)"
    by (rule careful_set [OF c k(3,4)]) (simp add: set_up_file_def)
  then have "careful i b off (insert k opn) (set_files i ?fs s)" by (simp add: set_up_file_def)
  then show ?thesis using o by blast
qed

lemma careful_close:
  assumes c: "careful i b off opn s" and k: "k \<in> opn"
  shows "\<exists>s'. sys_close (of_nat k) s = Some (0, s') \<and> careful i b off (opn - {k}) s'"
proof -
  have ok: "user_ok i b off s" and k8: "2 \<le> k" "k < 8" using c k by (auto simp: careful_def)
  have u: "unat (of_nat k :: u32) = k" "\<not> bad_fd 2 (of_nat k)" "unat (of_nat k :: u32) < 8"
    using unat_small_fd good_fd k8 by simp_all
  let ?f = "files_of i s ! k" and ?fs = "close_entry k (files_of i s)"
  have f: "f_present ?f \<noteq> 0" "f_ops ?f = dir_ops" using c k k8 by (auto simp: careful_def)
  have o: "sys_close (of_nat k) s = Some (0, set_files i ?fs s)"
    using user_ok_current [OF ok] get_file_user [OF ok u(3)] map_file_user [OF ok u(3)] u f
    by (simp add: sys_close_def dir_close_def finish_close_def close_entry_def)
  have "careful i b off (if f_present (?f\<lparr>f_present := 0\<rparr>) \<noteq> 0 then insert k opn else opn - {k}) (set_files i ?fs s)"
    unfolding close_entry_def by (rule careful_set [OF c k8]) simp
  then show ?thesis using o by auto
qed

lemma unat_two: "(fd :: i32) \<noteq> 0 \<Longrightarrow> fd \<noteq> 1 \<Longrightarrow> 2 \<le> unat fd"
proof -
  assume "fd \<noteq> 0" "fd \<noteq> 1"
  then have "unat fd \<noteq> unat (0 :: i32)" "unat fd \<noteq> unat (1 :: i32)" by (metis unsigned_word_eqI)+
  then show ?thesis by simp
qed

lemma kernel_read_closed:
  assumes c: "careful i b off opn s" and fd: "fd = 1 \<or> (fd \<noteq> 0 \<and> unat fd \<notin> opn)" and l: "length buf = 32"
  shows "\<exists>s' buf'. os_read (kernel_os env irqs (user_at off)) fd buf 31 s = Some (-1, buf', s') \<and> length buf' = 32 \<and>
    careful i b off opn s'"
proof -
  have ok: "user_ok i b off s" using c by (simp add: careful_def)
  have r: "sys_read irqs fd (user_at off) 31 (with_phys s m) = Some (-1, with_phys s m)" for m
  proof (cases "fd = 1")
    case True
    then show ?thesis using read_stdout [of i b off "with_phys s m"] ok by simp
  next
    case False
    then have "\<not> bad_fd 0 fd \<Longrightarrow> f_present (files_of i (with_phys s m) ! unat fd) = 0"
      using careful_closed [of i b off opn "with_phys s m" fd] c fd unat_two [of fd] by simp
    then show ?thesis using closed_calls(1) [of i b off "with_phys s m" fd] ok by simp
  qed
  obtain m where "os_read (kernel_os env irqs (user_at off)) fd buf 31 s = Some (-1, buf, with_phys s m)"
    using kernel_os_read_failed [OF ok _ r, of buf env] l by auto
  then show ?thesis using l c by auto
qed

lemma kernel_write_closed:
  assumes c: "careful i b off opn s" and fd: "fd = 0 \<or> (fd \<noteq> 1 \<and> unat fd \<notin> opn)" and l: "length buf = 32"
  shows "\<exists>s'. os_write (kernel_os env irqs (user_at off)) fd buf 31 s = Some (-1, s') \<and> careful i b off opn s'"
proof -
  have ok: "user_ok i b off s" using c by (simp add: careful_def)
  show ?thesis
  proof (cases "fd = 0")
    case True
    let ?s = "set_files i ((files_of i s)[0 := advance (-1) (files_of i s ! 0)]) s"
    have w: "sys_write fd (user_at off) 31 (with_phys s m) = Some (-1, with_phys ?s m)" for m
      using write_stdin [of i b off "with_phys s m"] ok True by (simp add: set_files_def files_of_def)
    have std: "std_ok (files_of i s)" "i < length (pcbs s)" using ok by (simp_all add: user_ok_def)
    then have u: "user_ok i b off ?s" by (intro user_ok_files [OF ok]) (simp add: std_ok_def advance_def)
    have "careful i b off opn ?s" by (rule careful_update [OF c u]) (use std in simp_all)
    then show ?thesis using kernel_os_write_failed [OF ok _ w, of buf env irqs] l by fastforce
  next
    case False
    then have "\<not> bad_fd 0 fd \<Longrightarrow> f_present (files_of i (with_phys s m) ! unat fd) = 0" for m
      using careful_closed [of i b off opn "with_phys s m" fd] c fd unat_two [of fd] by simp
    then have "sys_write fd (user_at off) 31 (with_phys s m) = Some (-1, with_phys s m)" for m
      using closed_calls(2) [of i b off "with_phys s m" fd] ok by simp
    then show ?thesis using kernel_os_write_failed [OF ok, of buf fd 31 s env irqs] l c by fastforce
  qed
qed

lemma kernel_close_closed:
  assumes c: "careful i b off opn s" and fd: "unat fd \<notin> opn"
  shows "\<exists>s'. os_close (kernel_os env irqs (user_at off)) fd s = Some (-1, s') \<and> careful i b off opn s'"
proof -
  have ok: "user_ok i b off s" using c by (simp add: careful_def)
  have "sys_close fd s = Some (-1, s)"
  proof (cases "bad_fd 2 fd")
    case True
    then show ?thesis by (rule close_std [OF ok])
  next
    case False
    then show ?thesis using closed_calls(3) [OF ok] careful_closed [OF c fd] fd_range(2) by blast
  qed
  then show ?thesis using c by (simp add: kernel_os_def)
qed

lemma msg_nonzero: "0 \<notin> set (msg ''helloo'')" "0 \<notin> set (msg ''shel'')"
  by (simp_all add: msg_def)

lemma careful_user: "careful i b off opn s \<Longrightarrow> user_ok i b off s"
  by (simp add: careful_def)

lemma kernel_prints_careful:
  assumes c: "careful i b off opn s" and p: "length str \<le> 64" "8 \<notin> set str" "9 \<notin> set str"
  shows "\<exists>r s'. os_write (kernel_os env irqs (user_at off)) 1 str (of_nat (length str)) s = Some (r, s') \<and> careful i b off opn s'"
proof -
  obtain s' where s': "os_write (kernel_os env irqs (user_at off)) 1 str (of_nat (length str)) s = Some (of_nat (length str), s')"
    "user_ok i b off s'" "disk s' = disk s" "files_of i s' = (files_of i s)[1 := advance (of_nat (length str)) (files_of i s ! 1)]"
    using kernel_prints [OF careful_user [OF c] _ p(2,3), of env irqs] p(1) by auto
  have "careful i b off opn s'" by (rule careful_update [OF c s'(2,3)]) (simp add: s'(4))
  then show ?thesis using s'(1) by blast
qed

lemma kernel_open_dir:
  assumes c: "careful i b off opn s" and k: "k \<notin> opn" "{2..<k} \<subseteq> opn" "2 \<le> k" "k < 8"
  shows "\<exists>s'. os_open (kernel_os env irqs (user_at off)) [46] s = Some (of_nat k, s') \<and> careful i b off (insert k opn) s'"
proof -
  have "os_open (kernel_os env irqs (user_at off)) [46] s = sys_open (Some [46]) (with_string i off [46] s)"
    by (rule kernel_os_open [OF careful_user [OF c]]) simp_all
  moreover have "careful i b off opn (with_string i off [46] s)" using c by simp
  ultimately show ?thesis using careful_open [OF _ k] by metis
qed

lemma kernel_open_full:
  assumes c: "careful i b off opn s" and f: "{2..<8} \<subseteq> opn"
  shows "\<exists>s'. os_open (kernel_os env irqs (user_at off)) [46] s = Some (-1, s') \<and> careful i b off opn s'"
proof -
  have "os_open (kernel_os env irqs (user_at off)) [46] s = sys_open (Some [46]) (with_string i off [46] s)"
    by (rule kernel_os_open [OF careful_user [OF c]]) simp_all
  moreover have w: "careful i b off opn (with_string i off [46] s)" using c by simp
  have b: "\<forall>k \<in> {2..<8}. k \<in> opn \<longleftrightarrow> f_present (files_of i s ! k) \<noteq> 0" using c unfolding careful_def by blast
  have "\<forall>j. 2 \<le> j \<and> j < 8 \<longrightarrow> f_present (files_of i (with_string i off [46] s) ! j) \<noteq> 0"
  proof (intro allI impI)
    fix j :: nat assume "2 \<le> j \<and> j < 8"
    then have j: "j \<in> {2..<8}" by simp
    then show "f_present (files_of i (with_string i off [46] s) ! j) \<noteq> 0" using bspec [OF b j] subsetD [OF f j] by simp
  qed
  then have "sys_open (Some [46]) (with_string i off [46] s) = Some (-1, with_string i off [46] s)"
    by (rule sys_open_full [OF careful_user [OF w]])
  ultimately show ?thesis using w by simp
qed

lemma kernel_open_absent:
  assumes c: "careful i b off opn s" and m: "str \<in> {msg ''helloo'', msg ''shel'', []}"
  shows "\<exists>s'. os_open (kernel_os env irqs (user_at off)) str s = Some (-1, s') \<and> careful i b off opn s'"
proof -
  have l: "length (msg ''helloo'') < 4096" "length (msg ''shel'') < 4096" by (simp_all add: msg_def)
  have "\<forall>v \<in> {msg ''helloo'', msg ''shel'', []}. 0 \<notin> set v \<and> length v < 4096" by (simp only: msg_nonzero l ball_simps) simp
  then have z: "0 \<notin> set str" "length str < 4096" using m by (metis (no_types))+
  have "str \<notin> set (dir_names (disk s))" using c m unfolding careful_def test_disk_def by blast
  then have "sys_open (Some str) (with_string i off str s) = Some (-1, with_string i off str s)"
    using sys_open_absent [of i b off "with_string i off str s" str] careful_user [OF c] z(1) by simp
  then show ?thesis using c kernel_os_open [OF careful_user [OF c] z] by simp
qed

lemma kernel_vidmap_bad:
  assumes c: "careful i b off opn s" and a: "a \<in> {0, 0x400000}"
  shows "\<exists>s'. os_vidmap (kernel_os env irqs (user_at off)) a s = Some (-1, s') \<and> careful i b off opn s'"
proof -
  have "\<not> in_user_page a" using a by (elim insertE emptyE) (simp_all add: in_user_page_def)
  then show ?thesis using c by (simp add: kernel_os_def vidmap_def)
qed

lemma kernel_bad_number:
  assumes c: "careful i b off opn s" and n: "n = 0 \<or> 12 < n"
  shows "\<exists>s'. os_call (kernel_os env irqs (user_at off)) n s = Some (-1, s') \<and> careful i b off opn s'"
  using c kernel_call_bad [OF n] by (simp add: kernel_os_def)

lemma kernel_close_dir:
  assumes "careful i b off opn s" "k \<in> opn"
  shows "\<exists>r s'. os_close (kernel_os env irqs (user_at off)) (of_nat k) s = Some (r, s') \<and> careful i b off (opn - {k}) s'"
  using careful_close [OF assms] by (auto simp: kernel_os_def)

interpretation kernel_tests: careful_os "kernel_os env irqs (user_at off)" "careful i b off" for env irqs i b off
proof (unfold_locales, goal_cases)
  case 1 then show ?case by (rule kernel_prints_careful)
next
  case 2 then show ?case by (rule kernel_read_closed)
next
  case 3 then show ?case by (rule kernel_write_closed)
next
  case 4 then show ?case by (rule kernel_close_closed)
next
  case 5 then show ?case by (rule kernel_close_dir)
next
  case 6 then show ?case by (rule kernel_open_dir)
next
  case 7 then show ?case by (rule kernel_open_full)
next
  case 8 then show ?case by (rule kernel_open_absent)
next
  case 9 then show ?case by (rule kernel_vidmap_bad)
next
  case 10 then show ?case by (rule kernel_bad_number)
qed

section \<open>Properties\<close>

text \<open>C9: \<^verbatim>\<open>syserr\<close>, the test program that comes with the kernel, passes on it. A process whose descriptors beyond the
  standard two are closed runs all eight tests of wrong arguments (negative, huge and closed descriptors, more opens than
  there are descriptors, missing files, bad \<^verbatim>\<open>vidmap\<close> pointers, writing to stdin and reading from stdout, numbers that are
  no system call): every test reports PASS, the program returns 0 and leaves the descriptors closed.\<close>

theorem syserr_passes:
  assumes "user_ok i b off s" "test_disk (disk s)" "length junk = 32"
    and "\<forall>k \<in> {2..<8}. f_present (files_of i s ! k) = 0"
  shows "\<exists>s'. syserr_all (kernel_os env irqs (user_at off)) junk s = Some (0, s') \<and> user_ok i b off s' \<and>
    (\<forall>k \<in> {2..<8}. f_present (files_of i s' ! k) = 0)"
proof -
  have "careful i b off {} s" using assms by (auto simp: careful_def)
  from kernel_tests.all_tests_pass [OF this assms(3)] obtain s' where
    "syserr_all (kernel_os env irqs (user_at off)) junk s = Some (0, s')" "careful i b off {} s'" by blast
  then show ?thesis by (auto simp: careful_def)
qed

text \<open>A program started in slot 3 on the screen of terminal 0.\<close>

definition plain_env :: frame_env where
  "plain_env = \<lparr>env_clobber = id, env_junk = [], env_frame = (\<lambda>a. 0)\<rparr>"

definition user_state :: kstate where
  "user_state = map_mmu (set_up_paging 3) child_state"

lemma translate_set_up_paging:
  "unat (drop_bit 22 va) \<noteq> USER_ENTRY \<Longrightarrow> translate (set_up_paging pid p) va = translate p va"
  by (simp add: translate_def set_up_paging_eq page_dir_map_def table_entry_def nth_opt_def)

lemma window_set_up_paging:
  assumes "window s b" "unat (video_mem s) + 4096 \<le> 0x800000" "mmu t = set_up_paging pid (mmu s)" "video_mem t = video_mem s"
  shows "window t b"
proof -
  have "translate (mmu t) (video_mem s + k) = translate (mmu s) (video_mem s + k)" if "k < 4096" for k
  proof -
    have "unat (video_mem s + k) < 0x800000"
      using assms(2) that by (simp add: unat_word_ariths word_less_nat_alt)
    then show ?thesis unfolding assms(3) by (intro translate_set_up_paging kernel_address)
  qed
  then show ?thesis using assms(1,4) by (simp add: window_def)
qed

lemma user_state_simps [simp]:
  "pcbs user_state = pcbs child_state" "terms user_state = terms sample_state" "disk user_state = sample_fs"
  "files_of 3 user_state = p_files (sample_pcb 3)" "p_argv (pcbs user_state ! 3) = replicate 128 0"
  by (simp_all add: user_state_def map_mmu_def child_state_def sample_state_def files_of_def sample_pcb_def)

lemma user_state_ok: "user_ok 3 0xB8000 0x1000 user_state"
proof -
  have m: "mmu user_state = set_up_paging 3 (mmu sample_state)" "video_mem user_state = video_mem sample_state"
    by (simp_all add: user_state_def map_mmu_def child_state_def)
  have "window user_state 0xB8000"
    by (rule window_set_up_paging [OF sample_window _ m]) (simp add: sample_state_def)
  moreover have st: "on_stack_of 3 user_state"
    by (simp add: on_stack_of_def unat_pcb_addr user_state_def child_state_def map_mmu_def)
  moreover have "user_window (mmu user_state) 3"
    using set_up_paging_window [OF user_dir_ok_init, of 3] unfolding m by (simp add: sample_state_def)
  moreover have "std_ok (p_files (sample_pcb 3))" by (simp add: std_ok_def sample_pcb_def)
  moreover have "cursor_ok user_state"
    using current_on_stack [OF st] by (simp add: cursor_ok_def) (simp add: user_state_def map_mmu_def child_state_def sample_state_def)
  moreover have "on_screen user_state" "unat (active_term_id user_state) < length (terms user_state)" "3 < length (pcbs user_state)"
    by (simp_all add: on_screen_def user_state_def map_mmu_def child_state_def sample_state_def)
  ultimately show ?thesis using wf_sample by (simp add: user_ok_def)
qed

lemma sample_entries:
  "entry_of sample_fs [46] = sample_dentry [46] 1 0" "entry_of sample_fs [97, 98] = sample_dentry [97, 98] 2 1"
  by (simp_all add: entry_of_def dir_names_sample) (simp_all add: sample_fs_def)

theorem syserr_passes_witness:
  "\<exists>s'. syserr_all (kernel_os plain_env [] 0x8001000) (replicate 32 7) user_state = Some (0, s')"
proof -
  have "test_disk sample_fs"
    by (simp add: test_disk_def dir_names_sample sample_entries msg_def) (simp add: sample_dentry_def)
  moreover have "f_present (p_files (sample_pcb 3) ! k) = 0" if k: "k \<in> {2..<8}" for k
  proof -
    from k have "k - 2 < 6" by auto
    then show ?thesis using k by (simp add: sample_pcb_def sample_file_def nth_append)
  qed
  ultimately show ?thesis using syserr_passes [OF user_state_ok, of "replicate 32 7" plain_env "[]"] by auto
qed

end
