(* ===== verification/KernelCat.thy ===== *)
theory KernelCat imports UserKernel begin

text \<open>
  The program \<^verbatim>\<open>cat\<close> on the kernel: the laws of the interface \<open>reader_os\<close> hold of the system calls, so the program
  shows the file its argument names.
\<close>

section \<open>A buffer in user memory\<close>

lemma copy_in_over:
  assumes "mapped s a (length buf) p" "phys s = put_bytes p bs (put_bytes p buf m)" "length bs \<le> length buf"
    "length buf \<le> 4096"
  shows "copy_in a (length buf) s = bs @ drop (length bs) buf"
  unfolding copy_in_mapped [OF assms(1)] assms(2)
  by (rule nth_equalityI) (use assms(3,4) in \<open>auto simp: put_bytes_at unat_of_nat nth_append\<close>)

lemma user_copy_in:
  assumes "user_ok i b off s" "phys s = put_bytes (phys_at i off) bs (put_bytes (phys_at i off) buf m)"
    "length bs \<le> length buf" "length buf \<le> 4096"
  shows "copy_in (user_at off) (length buf) s = bs @ drop (length bs) buf"
  by (rule copy_in_over [OF user_mapped [OF assms(1,4)] assms(2-4)])

definition with_buffer :: "nat \<Rightarrow> nat \<Rightarrow> u8 list \<Rightarrow> kstate \<Rightarrow> kstate" where
  "with_buffer i off bs s = with_phys s (put_bytes (phys_at i off) bs (phys s))"

lemma with_buffer_simps [simp]:
  "user_ok i b off (with_buffer i off bs s) = user_ok i b off s" "files_of i (with_buffer i off bs s) = files_of i s"
  "disk (with_buffer i off bs s) = disk s" "pcbs (with_buffer i off bs s) = pcbs s"
  by (simp_all add: with_buffer_def files_of_def)

lemma with_buffer_screen:
  "user_ok i b off s \<Longrightarrow> length bs \<le> 4096 \<Longrightarrow> console_of b (with_buffer i off bs s) = console_of b s"
  unfolding with_buffer_def by (rule user_bytes_screen)

lemma with_buffer_copy_out:
  "user_ok i b off s \<Longrightarrow> length bs \<le> 4096 \<Longrightarrow> copy_out (user_at off) bs s = Some (with_buffer i off bs s)"
  unfolding with_buffer_def by (rule user_copy_out)

lemma with_buffer_copy_in:
  assumes "user_ok i b off s" "length bs \<le> length buf" "length buf \<le> 4096"
  shows "copy_in (user_at off) (length buf) (with_buffer i off bs (with_buffer i off buf s)) = bs @ drop (length bs) buf"
  by (rule user_copy_in [where b = b]) (use assms in \<open>simp_all add: with_buffer_def\<close>)

section \<open>The argument\<close>

text \<open>Ready: the program runs, its argument is terminated and a descriptor is free.\<close>

definition cat_ready :: "nat \<Rightarrow> u32 \<Rightarrow> nat \<Rightarrow> kstate \<Rightarrow> bool" where
  "cat_ready i b off s \<longleftrightarrow> user_ok i b off s \<and> 0 \<in> set (p_argv (pcbs s ! i)) \<and> (\<exists>k. next_fd (files_of i s) k)"

definition cat_arg :: "nat \<Rightarrow> kstate \<Rightarrow> u8 list" where
  "cat_arg i s = argument_of (pcbs s ! i)"

lemma cat_ready_buffer [simp]: "cat_ready i b off (with_buffer i off bs s) = cat_ready i b off s"
  by (simp add: cat_ready_def)

lemma kernel_getargs:
  assumes r: "cat_ready i b off s" and l: "length buf = 1024" "length (cat_arg i s) < 1024"
  shows "os_getargs (kernel_os env irqs (user_at off)) buf 1024 s =
    Some (0, cat_arg i s @ 0 # drop (Suc (length (cat_arg i s))) buf,
      with_buffer i off (cat_arg i s @ [0]) (with_buffer i off buf s))"
proof -
  let ?s1 = "with_buffer i off buf s" and ?w = "cat_arg i s"
  have ok: "user_ok i b off s" "user_ok i b off ?s1" and z: "0 \<in> set (p_argv (pcbs s ! i))"
    using r by (simp_all add: cat_ready_def)
  then have o: "on_stack_of i ?s1" "i < length (pcbs ?s1)" "user_window (mmu ?s1) i" "off + 4096 \<le> 0x400000"
    by (simp_all add: user_ok_def)
  have c: "copy_out (user_at off) buf s = Some ?s1" by (rule with_buffer_copy_out [OF ok(1)]) (use l in simp)
  have "getargs (user_at off) 1024 ?s1 = Some (0, with_buffer i off (?w @ [0]) ?s1)"
    unfolding with_buffer_def [of i off "?w @ [0]"]
    by (rule getargs_eq [OF o(1,2) _ o(3)]) (use z l o(4) in \<open>simp_all add: cat_arg_def\<close>)
  moreover have "copy_in (user_at off) 1024 (with_buffer i off (?w @ [0]) ?s1) = ?w @ 0 # drop (Suc (length ?w)) buf"
    using with_buffer_copy_in [OF ok(1), of "?w @ [0]" buf] l by simp
  ultimately show ?thesis using c l(1) by (simp add: kernel_os_def)
qed

lemma kernel_args:
  assumes r: "cat_ready i b off s" and l: "length buf = 1024" "length (cat_arg i s) < 1024"
  shows "\<exists>rest s'. os_getargs (kernel_os env irqs (user_at off)) buf 1024 s = Some (0, cat_arg i s @ 0 # rest, s') \<and>
    length (cat_arg i s @ 0 # rest) = 1024 \<and> cat_ready i b off s' \<and> console_of b s' = console_of b s \<and> disk s' = disk s"
proof -
  have ok: "user_ok i b off s" using r by (simp add: cat_ready_def)
  have "console_of b (with_buffer i off (cat_arg i s @ [0]) (with_buffer i off buf s)) = console_of b s"
    using with_buffer_screen [of i b off] ok l by simp
  then show ?thesis using kernel_getargs [OF assms] r l by fastforce
qed

section \<open>Regular files\<close>

definition file_named :: "fsys \<Rightarrow> u8 list \<Rightarrow> u8 list option" where
  "file_named fs name = (if 0 \<notin> set name \<and> name \<in> set (dir_names fs) \<and> file_type (entry_of fs name) = 2
     then Some (file_content fs (inode_num (entry_of fs name))) else None)"

text \<open>Descriptor \<open>fd\<close> is open on a regular file with content \<open>c\<close>, at position \<open>p\<close>.\<close>

definition file_opened :: "nat \<Rightarrow> u32 \<Rightarrow> nat \<Rightarrow> i32 \<Rightarrow> u8 list \<Rightarrow> nat \<Rightarrow> kstate \<Rightarrow> bool" where
  "file_opened i b off fd c p s \<longleftrightarrow> user_ok i b off s \<and> 2 \<le> unat fd \<and> unat fd < 8 \<and>
     (let f = files_of i s ! unat fd in f_present f \<noteq> 0 \<and> f_ops f = file_ops \<and>
       f_inode f < inode_count (boot_block (disk s)) \<and> c = file_content (disk s) (f_inode f) \<and> unat (f_pos f) = p)"

lemma kernel_open_at:
  assumes ok: "user_ok i b off s" and k: "next_fd (files_of i s) k"
    and n: "length name < 1024" "file_named (disk s) name = Some c"
  shows "\<exists>s' f. os_open (kernel_os env irqs (user_at off)) name s = Some (of_nat k, s') \<and>
    file_opened i b off (of_nat k) c 0 s' \<and> console_of b s' = console_of b s \<and> disk s' = disk s \<and>
    files_of i s' = (files_of i s)[k := f]"
proof -
  let ?s1 = "with_string i off name s" and ?d = "entry_of (disk s) name"
  have ok1: "user_ok i b off ?s1" using ok by simp
  note ok = ok ok1
  have z: "0 \<notin> set name" "name \<in> set (dir_names (disk s))" "file_type ?d = of_nat 2" "c = file_content (disk s) (inode_num ?d)"
    using n(2) by (auto simp: file_named_def split: if_splits)
  let ?f = "set_up_file file_ops (inode_num ?d) (files_of i s ! k)"
  let ?s2 = "set_files i ((files_of i s)[k := ?f]) ?s1"
  have "os_open (kernel_os env irqs (user_at off)) name s = sys_open (Some name) ?s1"
    by (rule kernel_os_open [OF ok(1) z(1)]) (use n(1) in simp)
  then have "os_open (kernel_os env irqs (user_at off)) name s = Some (of_nat k, ?s2)"
    using sys_open_eq [OF ok(2), of name 2 k] z k by (simp add: file_ops_map_def)
  moreover have k8: "2 \<le> k" "k < 8" "unat (of_nat k :: i32) = k" using k unat_small_fd by (simp_all add: next_fd_def)
  have l: "length (files_of i s) = 8" "i < length (pcbs ?s1)" "std_ok (files_of i s)"
    using user_pcb [OF ok(1)] ok by (simp_all add: user_ok_def)
  have u: "user_ok i b off ?s2" by (rule user_ok_files [OF ok(2)]) (use l k8 in \<open>simp add: std_ok_def\<close>)
  have "inode_num ?d < inode_count (boot_block (disk s))"
    using entry_inode_small(1) [OF _ z(2)] ok(1) by (simp add: user_ok_def)
  then have "file_opened i b off (of_nat k) c 0 ?s2"
    using u k8 l z(4) by (simp add: file_opened_def set_up_file_def Let_def)
  moreover have "console_of b ?s1 = console_of b s"
    unfolding with_string_def by (rule user_bytes_screen [OF ok(1)]) (use n(1) in simp)
  then have "console_of b ?s2 = console_of b s" by (simp add: set_files_def console_of_def)
  moreover have "disk ?s2 = disk s" by (simp add: set_files_def)
  moreover have "files_of i ?s2 = (files_of i s)[k := ?f]" using l by simp
  ultimately show ?thesis by blast
qed

lemma kernel_open_file:
  assumes r: "cat_ready i b off s" and n: "length name < 1024" "file_named (disk s) name = Some c"
  shows "\<exists>fd s'. os_open (kernel_os env irqs (user_at off)) name s = Some (fd, s') \<and> fd \<noteq> -1 \<and>
    file_opened i b off fd c 0 s' \<and> console_of b s' = console_of b s"
proof -
  obtain k where k: "next_fd (files_of i s) k" and ok: "user_ok i b off s" using r by (auto simp: cat_ready_def)
  have "k < 8" using k by (simp add: next_fd_def)
  then have "(of_nat k :: i32) \<noteq> -1" using unat_small_fd by (auto simp: unat_neg_one dest!: arg_cong [of _ _ unat])
  then show ?thesis using kernel_open_at [OF ok k n, of env irqs] by blast
qed

text \<open>A read of a regular file, with what it leaves of the other descriptors.\<close>

lemma kernel_read_at:
  assumes o: "file_opened i b off fd c p s" and l: "length buf \<le> 4096" "0 < n" "n \<le> 1024" "n \<le> length buf"
    and bs: "bs = take n (drop p c)"
  shows "\<exists>s'. os_read (kernel_os env irqs (user_at off)) fd buf (of_nat n) s =
      Some (of_nat (length bs), bs @ drop (length bs) buf, s') \<and>
    file_opened i b off fd c (p + length bs) s' \<and> console_of b s' = console_of b s \<and> disk s' = disk s \<and>
    files_of i s' = (files_of i s)[unat fd := advance (of_nat (length bs)) (files_of i s ! unat fd)]"
proof -
  let ?f = "files_of i s ! unat fd" and ?s1 = "with_buffer i off buf s"
  let ?s2 = "with_buffer i off bs ?s1" and ?r = "of_nat (length bs) :: i32"
  let ?s3 = "set_files i ((files_of i s)[unat fd := advance ?r ?f]) ?s2"
  have ok: "user_ok i b off s" "user_ok i b off ?s1" "user_ok i b off ?s2" and fd: "2 \<le> unat fd" "unat fd < 8"
    and f: "f_present ?f \<noteq> 0" "f_ops ?f = file_ops" "f_inode ?f < inode_count (boot_block (disk s))"
      "c = file_content (disk s) (f_inode ?f)" "unat (f_pos ?f) = p"
    using o by (simp_all add: file_opened_def Let_def)
  have wf: "wf_fs (disk s)" using ok(1) by (simp add: user_ok_def)
  have ln: "length (files_of i s) = 8" "i < length (pcbs ?s2)" "std_ok (files_of i s)"
    using user_pcb [OF ok(1)] ok by (simp_all add: user_ok_def)
  have u: "user_ok i b off ?s3"
    by (rule user_ok_files [OF ok(3)]) (use ln fd in \<open>simp add: std_ok_def\<close>)
  have lb: "length bs \<le> 1024" "length bs \<le> length buf" using l by (simp_all add: bs)
  have n: "unat (of_nat n :: u32) = n" "(of_nat n :: u32) \<noteq> 0" using l(2,3) by (simp_all add: unat_of_nat unat_eq_zero [symmetric])
  have c1: "copy_out (user_at off) buf s = Some ?s1" by (rule with_buffer_copy_out [OF ok(1)]) (use l in simp)
  have c2: "copy_out (user_at off) bs ?s1 = Some ?s2" by (rule with_buffer_copy_out [OF ok(2)]) (use lb in simp)
  have "read_data (disk s) (f_inode ?f) (f_pos ?f) (user_at off) (of_nat n) = Some (?r, bs)"
    using read_data_slice [OF wf f(3) user_at_nonzero [OF ok(1)], of "of_nat n" "f_pos ?f"] f(4,5) bs n by (simp add: Let_def)
  then have rd: "file_read irqs fd (user_at off) (of_nat n) ?s1 = Some (?r, ?s2)"
    using user_ok_current [OF ok(2)] get_file_user [OF ok(2) fd(2)] c2 by (simp add: file_read_def read_data_to_def)
  have r0: "0 \<le> sint ?r" using lb by (subst sint_small) (simp_all add: unat_of_nat)
  have bad: "\<not> bad_fd 0 fd" using good_fd [of "unat fd"] fd by (auto simp: bad_fd_def)
  have "sys_read irqs fd (user_at off) (of_nat n) ?s1 = Some (?r, ?s3)"
    using user_ok_current [OF ok(2)] get_file_user [OF ok(2) fd(2)] bad f(1,2) rd r0 map_file_user [OF ok(3) fd(2)]
    by (simp add: sys_read_def finish_read_def)
  moreover have "copy_in (user_at off) (length buf) ?s3 = bs @ drop (length bs) buf"
    by (rule user_copy_in [OF u]) (use lb l in \<open>simp_all add: with_buffer_def set_files_def\<close>)
  ultimately have "os_read (kernel_os env irqs (user_at off)) fd buf (of_nat n) s = Some (?r, bs @ drop (length bs) buf, ?s3)"
    using c1 l by (simp add: kernel_os_def)
  moreover have "console_of b ?s3 = console_of b ?s2" by (simp add: set_files_def console_of_def)
  then have "console_of b ?s3 = console_of b s" using with_buffer_screen [of i b off] ok lb l by simp
  moreover have "file_opened i b off fd c (p + length bs) ?s3"
  proof -
    have "p + length bs < 2 ^ 32"
    proof -
      have "length c < 2 ^ 31" using length_file_content [OF wf f(3)] file_size_bound [OF wf f(3)] f(4) by simp
      moreover have "p < 2 ^ 32" unfolding f(5) [symmetric] by (rule unat_u32_less)
      moreover have "length bs \<le> length c - p" by (simp add: bs)
      ultimately show ?thesis by (cases "length c \<le> p") simp_all
    qed
    then have "unat (f_pos (advance ?r ?f)) = p + length bs"
      using f(5) by (simp add: advance_def unat_word_ariths unat_of_nat)
    then show ?thesis using u fd ln f by (simp add: file_opened_def Let_def) (simp add: advance_def set_files_def)
  qed
  moreover have "disk ?s3 = disk s" by (simp add: set_files_def)
  moreover have "files_of i ?s3 = (files_of i s)[unat fd := advance ?r ?f]" using ln by simp
  ultimately show ?thesis by blast
qed

lemma kernel_read_some:
  assumes o: "file_opened i b off fd c p s" and l: "length buf \<le> 4096" "0 < n" "n \<le> 1024" "n \<le> length buf"
    and bs: "bs = take n (drop p c)"
  shows "\<exists>s'. os_read (kernel_os env irqs (user_at off)) fd buf (of_nat n) s =
      Some (of_nat (length bs), bs @ drop (length bs) buf, s') \<and>
    file_opened i b off fd c (p + length bs) s' \<and> console_of b s' = console_of b s"
  using kernel_read_at [OF assms, of env irqs] by blast

lemma kernel_read_file:
  assumes "file_opened i b off fd c p s" "length buf = 1024" "bs = take 1024 (drop p c)"
  shows "\<exists>s'. os_read (kernel_os env irqs (user_at off)) fd buf 1024 s =
      Some (of_nat (length bs), bs @ drop (length bs) buf, s') \<and>
    file_opened i b off fd c (p + length bs) s' \<and> console_of b s' = console_of b s"
  using kernel_read_some [OF assms(1) _ _ _ _ assms(3), of buf env irqs] assms(2) by simp

lemma kernel_write_opened:
  assumes o: "file_opened i b off fd c p s" and l: "length buf = 1024" "n \<le> 1024"
    and t: "8 \<notin> set (take n buf)" "9 \<notin> set (take n buf)"
  shows "\<exists>s'. os_write (kernel_os env irqs (user_at off)) 1 buf (of_nat n) s = Some (of_nat n, s') \<and>
    file_opened i b off fd c p s' \<and> console_of b s' = fold abs_putc (take n buf) (console_of b s)"
proof -
  have ok: "user_ok i b off s" and fd: "2 \<le> unat fd" using o by (simp_all add: file_opened_def)
  have b: "length buf \<le> 4096" "n \<le> length buf" using l by simp_all
  obtain s' where s': "os_write (kernel_os env irqs (user_at off)) 1 buf (of_nat n) s = Some (of_nat n, s')"
      "user_ok i b off s'" "console_of b s' = fold abs_putc (take n buf) (console_of b s)" "disk s' = disk s"
      "files_of i s' = (files_of i s)[1 := advance (of_nat n) (files_of i s ! 1)]"
    using kernel_prints_part [OF ok b refl t] by blast
  then have "file_opened i b off fd c p s'" using o fd by (simp add: file_opened_def Let_def)
  then show ?thesis using s' by blast
qed

interpretation kernel_reader: reader_os "kernel_os env irqs (user_at off)" "cat_ready i b off" "cat_arg i"
    "\<lambda>s. file_named (disk s)" "file_opened i b off" "console_of b" abs_putc for env irqs i b off
proof (unfold_locales, goal_cases)
  case (1 s buf) then show ?case using kernel_args [of i b off s buf env irqs] by metis
next
  case (2 s) then show ?case by (auto simp: cat_arg_def argument_of_def dest: set_takeWhileD)
next
  case 3 then show ?case by (rule kernel_open_file)
next
  case 4 then show ?case by (rule kernel_read_file)
next
  case 5 then show ?case by (rule kernel_write_opened)
qed

section \<open>Properties\<close>

text \<open>C7: \<^verbatim>\<open>cat\<close> on the kernel shows the file its argument names. A process with a free descriptor whose argument is
  the name of a regular file returns 0 (its loop of 1024-byte reads and writes ends) and the screen it writes to has
  received the bytes of the file, in order and nothing else, as the abstract console shows them; files with a backspace
  or a tab are left aside, for which the console may fault.\<close>

theorem cat_prints_file:
  assumes "user_ok i b off s" "0 \<in> set (p_argv (pcbs s ! i))" "next_fd (files_of i s) k"
    and "argument_of (pcbs s ! i) = name" "length name < 1024" "length buf = 1024"
    and "name \<in> set (dir_names (disk s))" "file_type (entry_of (disk s) name) = 2"
    and "c = file_content (disk s) (inode_num (entry_of (disk s) name))" "8 \<notin> set c" "9 \<notin> set c"
  shows "\<exists>s'. cat (kernel_os env irqs (user_at off)) buf s = Some (0, s') \<and>
    console_of b s' = fold abs_putc c (console_of b s)"
proof -
  have "cat_ready i b off s" using assms(1-3) by (auto simp: cat_ready_def)
  moreover have a: "cat_arg i s = name" using assms(4) by (simp add: cat_arg_def)
  moreover have "0 \<notin> set name" using kernel_reader.arg_string [of i s] a by simp
  then have "file_named (disk s) name = Some c" using assms(7-9) by (simp add: file_named_def)
  ultimately show ?thesis using kernel_reader.cat_prints [of i b off s buf c env irqs] assms(5,6,10,11) by simp
qed

text \<open>The program with the argument \<^verbatim>\<open>ab\<close>, the file of 4099 bytes of the sample disk (4096 ones and three twos).\<close>

definition cat_state :: kstate where
  "cat_state = user_state\<lparr>pcbs := (pcbs user_state)[3 := (pcbs user_state ! 3)\<lparr>p_argv := [97, 98] @ replicate 126 0\<rparr>]\<rparr>"

lemma cat_state_ok: "user_ok 3 0xB8000 0x1000 cat_state"
proof -
  have l: "3 < length (pcbs user_state)" using user_state_ok by (simp add: user_ok_def)
  have "current cat_state = current user_state" by (simp add: cat_state_def current_def get_current_pcb_def)
  moreover have "window cat_state b = window user_state b" for b by (rule window_cong) (simp_all add: cat_state_def)
  ultimately show ?thesis
    using user_state_ok l unfolding user_ok_def cursor_ok_def on_screen_def on_stack_of_def files_of_def
    by (simp add: cat_state_def)
qed

lemma cat_state_simps:
  "p_argv (pcbs cat_state ! 3) = [97, 98] @ replicate 126 0" "files_of 3 cat_state = p_files (sample_pcb 3)"
  "disk cat_state = sample_fs"
proof -
  have l: "3 < length (pcbs user_state)" using user_state_ok by (simp add: user_ok_def)
  then show "p_argv (pcbs cat_state ! 3) = [97, 98] @ replicate 126 0" by (simp add: cat_state_def)
  show "files_of 3 cat_state = p_files (sample_pcb 3)"
    using l user_state_simps(4) by (simp only: files_of_def cat_state_def) simp
  show "disk cat_state = sample_fs" by (simp add: cat_state_def)
qed

theorem cat_prints_file_witness:
  "\<exists>s'. cat (kernel_os plain_env [] 0x8001000) (replicate 1024 7) cat_state = Some (0, s') \<and>
    console_of 0xB8000 s' = fold abs_putc (replicate 4096 1 @ replicate 3 2) (console_of 0xB8000 cat_state)"
proof -
  have c: "file_content sample_fs 1 = replicate 4096 1 @ replicate 3 2"
    by (simp add: file_content_def file_bytes_def used_blocks_def sample_fs_def sample_inode_def)
  have "next_fd (p_files (sample_pcb 3)) 2"
    by (auto simp: next_fd_def sample_pcb_def sample_file_def nth_append)
  moreover have "argument_of (pcbs cat_state ! 3) = [97, 98]"
    by (simp add: argument_of_def cat_state_simps takeWhile_replicate_0)
  moreover have "0 \<in> set (p_argv (pcbs cat_state ! 3))" by (simp add: cat_state_simps)
  moreover have "8 \<notin> set (replicate 4096 1 @ replicate 3 (2 :: u8))" "9 \<notin> set (replicate 4096 1 @ replicate 3 (2 :: u8))"
    by simp_all
  moreover have "inode_num (entry_of sample_fs [97, 98]) = 1" "file_type (entry_of sample_fs [97, 98]) = 2"
    by (simp_all add: sample_entries sample_dentry_def)
  ultimately show ?thesis
    using cat_prints_file [OF cat_state_ok, of 2 "[97, 98]" "replicate 1024 7" "replicate 4096 1 @ replicate 3 2" plain_env "[]"] c
    by (simp add: cat_state_simps dir_names_sample)
qed

end
