(* ===== verification/Grep.thy ===== *)
theory Grep imports KernelCat CString "HOL-Library.Sublist" begin

text \<open>
  The program \<^verbatim>\<open>src/syscalls/ece391grep.c\<close>. It reads a file through a buffer of 1024 bytes (and one more for a
  terminator), moves the line that is cut by the end of the buffer to its front and reads on. The reference is the
  list of the lines of the file: what the program prints for a file is what the lines that contain the pattern give.
\<close>

section \<open>The program\<close>

text \<open>The positions in the buffer are signed; \<open>at\<close> and \<open>put\<close> are the checked accesses.\<close>

definition at :: "u8 list \<Rightarrow> int \<Rightarrow> u8 option" where
  "at data i = (if 0 \<le> i then nth_opt data (nat i) else None)"

definition put :: "u8 list \<Rightarrow> int \<Rightarrow> u8 \<Rightarrow> u8 list option" where
  "put data i v = (if 0 \<le> i then upd_opt data (nat i) v else None)"

definition string_at :: "u8 list \<Rightarrow> int \<Rightarrow> u8 list option" where
  "string_at data i = (if 0 \<le> i then string_in (drop (nat i) data) else None)"

text \<open>\<^verbatim>\<open>while (line_end < last && '\n' != data[line_end]) line_end++\<close>\<close>

function scan_line :: "u8 list \<Rightarrow> int \<Rightarrow> int \<Rightarrow> int option" where
  "scan_line data lst i =
     (if i < lst then do { c \<leftarrow> at data i; if c \<noteq> newline then scan_line data lst (i + 1) else Some i } else Some i)"
  by pat_completeness auto
termination by (relation "measure (\<lambda>(data, lst, i). nat (lst - i))") auto

declare scan_line.simps [simp del]

text \<open>The search for the pattern in a line.\<close>

function find_match :: "u8 list \<Rightarrow> u8 list \<Rightarrow> int \<Rightarrow> int \<Rightarrow> bool option" where
  "find_match pat data check line_end =
     (if check < line_end then do {
        c \<leftarrow> at data check;
        if cstr_head pat = c then do {
          str \<leftarrow> string_at data check;
          if cmp_ref ucast (length pat) str pat = 0 then Some True else find_match pat data (check + 1) line_end
        } else find_match pat data (check + 1) line_end
      } else Some False)"
  by pat_completeness auto
termination by (relation "measure (\<lambda>(pat, data, check, line_end). nat (line_end - check))") auto

declare find_match.simps [simp del]

definition show_line :: "'s os \<Rightarrow> u8 list \<Rightarrow> u8 list \<Rightarrow> int \<Rightarrow> 's \<Rightarrow> 's option" where
  "show_line os fname data line_start s = do {
     s \<leftarrow> ece391_fdputs os 1 fname s;
     s \<leftarrow> ece391_fdputs os 1 [58] s;
     line \<leftarrow> string_at data line_start;
     s \<leftarrow> ece391_fdputs os 1 line s;
     ece391_fdputs os 1 [newline] s
   }"

text \<open>The lines of the buffer; the result is the buffer, \<^verbatim>\<open>last\<close> and the state for the next read.\<close>

partial_function (option) grep_lines ::
    "'s os \<Rightarrow> u8 list \<Rightarrow> u8 list \<Rightarrow> i32 \<Rightarrow> int \<Rightarrow> u8 list \<Rightarrow> int \<Rightarrow> 's \<Rightarrow> (u8 list \<times> int \<times> 's) option" where
  "grep_lines os pat fname cnt lst data line_start s = do {
     line_end \<leftarrow> scan_line data lst line_start;
     c \<leftarrow> at data line_end;
     if c \<noteq> newline \<and> cnt \<noteq> 0 \<and> line_start \<noteq> 0 then do {
       data \<leftarrow> put data line_end 0;
       str \<leftarrow> string_at data line_start;
       data \<leftarrow> blit_opt data 0 (str @ [0]);
       Some (data, lst - line_start, s)
     }
     else do {
       data \<leftarrow> put data line_end 0;
       found \<leftarrow> find_match pat data line_start line_end;
       s \<leftarrow> (if found then show_line os fname data line_start s else Some s);
       if line_end + 1 \<ge> lst then Some (data, 0, s)
       else grep_lines os pat fname cnt lst data (line_end + 1) s
     }
   }"

text \<open>The loop over the reads: \<open>Inl\<close> is an early return.\<close>

partial_function (option) grep_reads ::
    "'s os \<Rightarrow> u8 list \<Rightarrow> u8 list \<Rightarrow> i32 \<Rightarrow> int \<Rightarrow> u8 list \<Rightarrow> 's \<Rightarrow> ((i32 + unit) \<times> 's) option" where
  "grep_reads os pat fname fd lst data s =
     (if lst < 0 then None
      else do {
        (cnt, bytes, s) \<leftarrow> os_read os fd (drop (nat lst) data) (of_int (1024 - lst)) s;
        let data = take (nat lst) data @ bytes;
        if cnt = -1 then do { s \<leftarrow> ece391_fdputs os 1 (line_of ''file read failed'') s; Some (Inl (-1), s) }
        else do {
          (data, lst, s) \<leftarrow> grep_lines os pat fname cnt (lst + sint cnt) data 0 s;
          if cnt = 0 then Some (Inr (), s) else grep_reads os pat fname fd lst data s
        }
      })"

text \<open>The buffer of \<^verbatim>\<open>do_one_file\<close> is uninitialised: \<open>junk\<close>, 1025 bytes.\<close>

definition do_one_file :: "'s os \<Rightarrow> u8 list \<Rightarrow> u8 list \<Rightarrow> u8 list \<Rightarrow> 's \<Rightarrow> (i32 \<times> 's) option" where
  "do_one_file os pat fname junk s = do {
     (fd, s) \<leftarrow> os_open os fname s;
     if fd = -1 then do { s \<leftarrow> ece391_fdputs os 1 (line_of ''file open failed'') s; Some (-1, s) }
     else do {
       (r, s) \<leftarrow> grep_reads os pat fname fd 0 junk s;
       case r of Inl v \<Rightarrow> Some (v, s)
       | Inr _ \<Rightarrow> do {
           (r, s) \<leftarrow> os_close os fd s;
           if r = -1 then do { s \<leftarrow> ece391_fdputs os 1 (line_of ''file close failed'') s; Some (-1, s) } else Some (0, s)
         }
     }
   }"

partial_function (option) grep_dir ::
    "'s os \<Rightarrow> u8 list \<Rightarrow> u8 list \<Rightarrow> i32 \<Rightarrow> u8 list \<Rightarrow> 's \<Rightarrow> (i32 \<times> 's) option" where
  "grep_dir os junk search fd buf s = do {
     (cnt, buf, s) \<leftarrow> os_read os fd buf 32 s;
     if cnt = 0 then Some (0, s)
     else if cnt = -1 then do { s \<leftarrow> ece391_fdputs os 1 (line_of ''directory entry read failed'') s; Some (3, s) }
     else do {
       c \<leftarrow> nth_opt buf 0;
       if c = 46 then grep_dir os junk search fd buf s
       else do {
         buf \<leftarrow> upd_opt buf (unat cnt) 0;
         pat \<leftarrow> string_in search;
         fname \<leftarrow> string_in buf;
         (r, s) \<leftarrow> do_one_file os pat fname junk s;
         if r \<noteq> 0 then Some (3, s) else grep_dir os junk search fd buf s
       }
     }
   }"

definition grep :: "'s os \<Rightarrow> u8 list \<Rightarrow> u8 list \<Rightarrow> u8 list \<Rightarrow> 's \<Rightarrow> (i32 \<times> 's) option" where
  "grep os junk search buf s = do {
     (r, search, s) \<leftarrow> os_getargs os search 1024 s;
     if r \<noteq> 0 then do { s \<leftarrow> ece391_fdputs os 1 (line_of ''could not read argument'') s; Some (3, s) }
     else do {
       (fd, s) \<leftarrow> os_open os [46] s;
       if fd = -1 then do { s \<leftarrow> ece391_fdputs os 1 (line_of ''directory open failed'') s; Some (2, s) }
       else grep_dir os junk search fd buf s
     }
   }"

section \<open>The lines of a text\<close>

fun lines :: "u8 list \<Rightarrow> u8 list list" where
  "lines [] = [[]]"
| "lines (c # cs) = (if c = newline then [] # lines cs else (c # hd (lines cs)) # tl (lines cs))"

definition line_report :: "u8 list \<Rightarrow> u8 list \<Rightarrow> u8 list \<Rightarrow> u8 list" where
  "line_report pat fname l = (if sublist pat l then fname @ [58] @ l @ [newline] else [])"

definition grep_report :: "u8 list \<Rightarrow> u8 list \<Rightarrow> u8 list list \<Rightarrow> u8 list" where
  "grep_report pat fname xs = concat (map (line_report pat fname) xs)"

lemma lines_nonempty [simp]: "lines t \<noteq> []"
  by (induction t) auto

lemma lines_line [simp]: "newline \<notin> set w \<Longrightarrow> lines w = [w]"
  by (induction w) auto

lemma lines_append [simp]: "newline \<notin> set w \<Longrightarrow> lines (w @ newline # t) = w # lines t"
  by (induction w) auto

lemma lines_prefix: "newline \<notin> set w \<Longrightarrow> lines (w @ t) = (w @ hd (lines t)) # tl (lines t)"
  by (induction w) auto

lemma lines_subset: "l \<in> set (lines t) \<Longrightarrow> set l \<subseteq> set t"
proof (induction t arbitrary: l)
  case (Cons c t)
  have "set (hd (lines t)) \<subseteq> set t" "set (tl (lines t)) \<subseteq> set (lines t)"
    using Cons.IH lines_nonempty by (simp_all add: list.set_sel(1) set_mono_suffix suffix_tl)
  then show ?case using Cons.IH Cons.prems by (fastforce split: if_splits)
qed simp

lemma grep_report_append [simp]: "grep_report pat fname (xs @ ys) = grep_report pat fname xs @ grep_report pat fname ys"
  by (simp add: grep_report_def)

lemma grep_report_Cons: "grep_report pat fname (l # xs) = line_report pat fname l @ grep_report pat fname xs"
  by (simp add: grep_report_def)

lemma grep_report_Nil [simp]: "grep_report pat fname [] = []"
  by (simp add: grep_report_def)

lemma line_report_Nil [simp]: "pat \<noteq> [] \<Longrightarrow> line_report pat fname [] = []"
  by (simp add: line_report_def)

text \<open>A text is its first line, or its first line, a newline and the rest.\<close>

lemma first_line:
  obtains (only) "newline \<notin> set u" | (more) w t where "u = w @ newline # t" "newline \<notin> set w"
  using split_list_first [of newline u] by blast

section \<open>The buffer\<close>

lemma at_int [simp]: "at data (int i) = nth_opt data i"
  by (simp add: at_def)

lemma put_int [simp]: "put data (int i) v = upd_opt data i v"
  by (simp add: put_def)

lemma string_at_int [simp]: "string_at data (int i) = string_in (drop i data)"
  by (simp add: string_at_def)

lemma int_plus_1: "int i + 1 = int (Suc i)"
  by simp

lemma drop_take_split: "i \<le> L \<Longrightarrow> L \<le> length data \<Longrightarrow> drop i data = drop i (take L data) @ drop L data"
proof -
  assume "i \<le> L" "L \<le> length data"
  then have "drop i (take L data @ drop L data) = drop i (take L data) @ drop L data" by (simp only: drop_append) simp
  then show ?thesis by simp
qed

lemma scan_line_eq:
  assumes "newline \<notin> set w" "drop i (take L data) = w @ r" "r = [] \<or> hd r = newline" "i \<le> L" "L \<le> length data"
  shows "scan_line data (int L) (int i) = Some (int (i + length w))"
  using assms
proof (induction w arbitrary: i)
  case Nil
  show ?case
  proof (cases "i < L")
    case True
    then have "data ! i = newline"
      using Nil.prems by (metis append_Nil drop_eq_Nil hd_drop_conv_nth leD length_take min.absorb2 nth_take)
    then show ?thesis using True Nil.prems by (subst scan_line.simps) (simp add: nth_opt_Some)
  qed (use Nil.prems in \<open>simp add: scan_line.simps\<close>)
next
  case (Cons c w)
  have i: "i < L" using Cons.prems(2) by (metis append_Cons drop_eq_Nil leI length_take list.distinct(1) min.coboundedI2 min_def)
  have d: "drop i (take L data) = data ! i # drop (Suc i) (take L data)"
    using i Cons.prems(5) by (subst Cons_nth_drop_Suc [symmetric]) simp_all
  then have "scan_line data (int L) (int (Suc i)) = Some (int (Suc i + length w))"
    using Cons.prems i by (intro Cons.IH) auto
  moreover have "data ! i \<noteq> newline" "i < length data" using d Cons.prems i by auto
  ultimately show ?case using i by (subst scan_line.simps) (simp add: nth_opt_Some int_plus_1 del: of_nat_Suc)
qed

lemma string_in_prefix: "0 \<notin> set w \<Longrightarrow> string_in (w @ 0 # r) = Some w"
proof -
  assume "0 \<notin> set w"
  then have "\<forall>x \<in> set w. x \<noteq> 0" by metis
  then show ?thesis by (simp add: string_in_def)
qed

lemma find_match_eq:
  assumes "0 \<notin> set w" "0 \<notin> set pat" "pat \<noteq> []" "drop i data = w @ 0 # r"
  shows "find_match pat data (int i) (int (i + length w)) = Some (sublist pat w)"
  using assms(1,4)
proof (induction w arbitrary: i)
  case Nil
  then show ?case using assms(3) by (simp add: find_match.simps)
next
  case (Cons c w)
  have d: "drop i data = c # (w @ 0 # r)" using Cons.prems(2) by simp
  then have i: "i < length data" "data ! i = c" "drop (Suc i) data = w @ 0 # r"
    using nth_via_drop [OF d] by (auto simp: drop_Suc tl_drop [symmetric]) (metis drop_eq_Nil list.distinct(1) leI)
  have n: "find_match pat data (int i + 1) (int i + (1 + int (length w))) = Some (sublist pat w)"
    using Cons.IH [OF _ i(3)] Cons.prems(1) by (simp add: algebra_simps)
  have s: "string_in (drop i data) = Some (c # w)" using string_in_prefix [of "c # w" r] Cons.prems by simp
  have m: "cmp_ref ucast (length pat) (c # w) pat = 0 \<longleftrightarrow> prefix pat (c # w)"
    using cmp_ref_0 [OF inj_casts(2), of "c # w" pat "length pat"] Cons.prems(1) assms(2)
    by (simp add: prefix_def) (metis append_eq_conv_conj append_take_drop_id)
  have h: "prefix pat (c # w) \<Longrightarrow> cstr_head pat = c" using assms(3) by (cases pat) (auto simp: cstr_head_def)
  show ?case
    using n s m h i(1,2)
    by (subst find_match.simps) (auto simp: nth_opt_Some sublist_Cons_right ac_simps)
qed

lemma grep_lines_step:
  assumes "scan_line data (int L) i = Some (int e)" "data ! e = newline" "e < length data"
    "find_match pat (data[e := 0]) i (int e) = Some found"
    "(if found then show_line os fname (data[e := 0]) i s else Some s) = Some s1"
  shows "grep_lines os pat fname cnt (int L) data i s =
    (if L \<le> Suc e then Some (data[e := 0], 0, s1)
     else grep_lines os pat fname cnt (int L) (data[e := 0]) (int (Suc e)) s1)"
  using assms by (subst grep_lines.simps) (auto simp: nth_opt_Some upd_opt_Some int_plus_1 simp del: of_nat_Suc)

text \<open>Bytes that the console shows as they are, and no terminator.\<close>

definition plain :: "u8 list \<Rightarrow> bool" where
  "plain str \<longleftrightarrow> 0 \<notin> set str \<and> 8 \<notin> set str \<and> 9 \<notin> set str"

lemma plain_append: "plain (xs @ ys) \<longleftrightarrow> plain xs \<and> plain ys"
  by (auto simp: plain_def)

lemma plain_Cons: "plain (x # xs) \<longleftrightarrow> x \<notin> {0, 8, 9} \<and> plain xs"
  by (auto simp: plain_def)

section \<open>What the program shows\<close>

text \<open>Beyond what \<^verbatim>\<open>cat\<close> needs: reads of any length, output while the file is open, and closing.\<close>

locale search_os = reader_os os ready arg content opened view emit
  for os :: "'s os" and ready arg content opened and view :: "'s \<Rightarrow> 'v" and emit +
  assumes reads_some: "opened fd c p s \<Longrightarrow> length buf \<le> 1025 \<Longrightarrow> 0 < n \<Longrightarrow> n \<le> 1024 \<Longrightarrow> n \<le> length buf \<Longrightarrow>
      bytes = take n (drop p c) \<Longrightarrow>
      \<exists>s'. os_read os fd buf (of_nat n) s = Some (of_nat (length bytes), bytes @ drop (length bytes) buf, s') \<and>
        opened fd c (p + length bytes) s' \<and> view s' = view s"
    and prints: "opened fd c p s \<Longrightarrow> length str \<le> 1024 \<Longrightarrow> 8 \<notin> set str \<Longrightarrow> 9 \<notin> set str \<Longrightarrow>
      \<exists>s'. ece391_fdputs os 1 str s = Some s' \<and> opened fd c p s' \<and> view s' = fold emit str (view s)"
    and closes: "opened fd c p s \<Longrightarrow> \<exists>s'. os_close os fd s = Some (0, s') \<and> view s' = view s"
begin

lemma prints_plain:
  "opened fd c p s \<Longrightarrow> length str \<le> 1024 \<Longrightarrow> plain str \<Longrightarrow>
   \<exists>s'. ece391_fdputs os 1 str s = Some s' \<and> opened fd c p s' \<and> view s' = fold emit str (view s)"
  by (rule prints) (simp_all add: plain_def)

lemma show_line_eq:
  assumes o: "opened fd c p s" and f: "plain fname" "length fname \<le> 1024" and w: "plain w" "length w \<le> 1024"
    and d: "drop i data = w @ 0 # r"
  shows "\<exists>s'. show_line os fname data (int i) s = Some s' \<and> opened fd c p s' \<and>
    view s' = fold emit (fname @ [58] @ w @ [newline]) (view s)"
proof -
  have l: "plain [58]" "plain [newline]" by (simp_all add: plain_def)
  obtain s1 where s1: "ece391_fdputs os 1 fname s = Some s1" "opened fd c p s1" "view s1 = fold emit fname (view s)"
    using prints_plain [OF o f(2,1)] by blast
  obtain s2 where s2: "ece391_fdputs os 1 [58] s1 = Some s2" "opened fd c p s2" "view s2 = fold emit [58] (view s1)"
    using prints_plain [OF s1(2) _ l(1)] by auto
  obtain s3 where s3: "ece391_fdputs os 1 w s2 = Some s3" "opened fd c p s3" "view s3 = fold emit w (view s2)"
    using prints_plain [OF s2(2) w(2,1)] by blast
  obtain s4 where s4: "ece391_fdputs os 1 [newline] s3 = Some s4" "opened fd c p s4" "view s4 = fold emit [newline] (view s3)"
    using prints_plain [OF s3(2) _ l(2)] by auto
  have "string_in (drop i data) = Some w" unfolding d by (rule string_in_prefix) (use w in \<open>simp add: plain_def\<close>)
  then show ?thesis using s1 s2 s3 s4 by (auto simp: show_line_def)
qed

text \<open>One line: \<open>data\<close> already has the terminator.\<close>

lemma search_line:
  assumes o: "opened fd c p s" and f: "plain fname" "length fname \<le> 1024" and w: "plain w" "length w \<le> 1024"
    and pat: "0 \<notin> set pat" "pat \<noteq> []" and d: "drop i data = w @ 0 # r"
  shows "\<exists>found s'. find_match pat data (int i) (int (i + length w)) = Some found \<and>
    (if found then show_line os fname data (int i) s else Some s) = Some s' \<and> opened fd c p s' \<and>
    view s' = fold emit (line_report pat fname w) (view s)"
proof -
  have "find_match pat data (int i) (int (i + length w)) = Some (sublist pat w)"
    by (rule find_match_eq) (use w pat d in \<open>simp_all add: plain_def\<close>)
  then show ?thesis using show_line_eq [OF o f w d] o by (auto simp: line_report_def)
qed

text \<open>How the buffer is left: the cut line \<open>w\<close> at its front for the next read, or everything searched; the last case
  needs the end of the input, a newline behind the bytes read, or a line that fills the buffer.\<close>

definition kept :: "u8 list \<Rightarrow> int \<Rightarrow> i32 \<Rightarrow> u8 list \<Rightarrow> bool" where
  "kept data k cnt w \<longleftrightarrow> k = int (length w) \<and> take (length w) data = w \<and> cnt \<noteq> 0 \<and> length w < 1024"

definition searched :: "int \<Rightarrow> i32 \<Rightarrow> u8 \<Rightarrow> bool \<Rightarrow> u8 list \<Rightarrow> bool" where
  "searched k cnt c whole w \<longleftrightarrow> k = 0 \<and> (cnt = 0 \<or> w = [] \<or> c = newline \<or> whole)"

definition lines_result ::
    "u8 list \<Rightarrow> u8 list \<Rightarrow> i32 \<Rightarrow> i32 \<Rightarrow> u8 list \<Rightarrow> nat \<Rightarrow> nat \<Rightarrow> u8 list \<Rightarrow> u8 list \<Rightarrow> nat \<Rightarrow> 's \<Rightarrow> u8 list \<times> int \<times> 's \<Rightarrow> bool" where
  "lines_result pat fname fd cnt data L i u c p s = (\<lambda>(data', k, s').
     \<exists>w xs. length data' = 1025 \<and> data' ! 1024 \<in> {0, data ! 1024} \<and> opened fd c p s' \<and>
       newline \<notin> set w \<and> (\<forall>r. lines (u @ r) = xs @ lines (w @ r)) \<and>
       (kept data' k cnt w \<and> view s' = fold emit (grep_report pat fname xs) (view s) \<or>
        searched k cnt (data ! L) (i = 0 \<and> w = u) w \<and> view s' = fold emit (grep_report pat fname (xs @ [w])) (view s)))"

lemma lines_resultI:
  assumes "length data' = 1025" "data' ! 1024 \<in> {0, data ! 1024}" "opened fd c p s'" "newline \<notin> set w"
    "\<And>r. lines (u @ r) = xs @ lines (w @ r)"
    "kept data' k cnt w \<and> view s' = fold emit (grep_report pat fname xs) (view s) \<or>
        searched k cnt (data ! L) (i = 0 \<and> w = u) w \<and> view s' = fold emit (grep_report pat fname (xs @ [w])) (view s)"
  shows "lines_result pat fname fd cnt data L i u c p s (data', k, s')"
  using assms unfolding lines_result_def prod.case by blast

lemma grep_lines_last:
  assumes o: "opened fd c p s" and f: "plain fname" "length fname \<le> 1024" and pat: "0 \<notin> set pat" "pat \<noteq> []"
    and d: "length data = 1025" "L \<le> 1024" "i \<le> L" "u = drop i (take L data)" "plain u" "newline \<notin> set u"
  shows "\<exists>v. grep_lines os pat fname cnt (int L) data (int i) s = Some v \<and> lines_result pat fname fd cnt data L i u c p s v"
proof -
  have lu: "length u = L - i" using d(1-4) by simp
  have sc: "scan_line data (int L) (int i) = Some (int L)"
    using scan_line_eq [OF d(6) _ _ d(3), of data "[]"] d(1-3) lu unfolding d(4) [symmetric] by simp
  let ?data = "data[L := 0]"
  have d1: "drop i ?data = u @ 0 # drop (Suc L) data"
  proof -
    have "drop i ?data = drop i (take L data) @ drop L ?data"
      using d(1-3) by (subst append_take_drop_id [of L ?data, symmetric]) (simp only: drop_append, simp)
    moreover have "drop L ?data = 0 # drop (Suc L) data" using d(1,2) by (simp add: Cons_nth_drop_Suc [symmetric])
    ultimately show ?thesis using d(4) by simp
  qed
  have su: "string_in (drop i ?data) = Some u"
    unfolding d1 by (rule string_in_prefix) (use d(5) in \<open>simp add: plain_def\<close>)
  have at: "nth_opt data L = Some (data ! L)" "upd_opt data L 0 = Some ?data"
    using d(1,2) by (simp_all add: nth_opt_Some upd_opt_Some)
  show ?thesis
  proof (cases "data ! L \<noteq> newline \<and> cnt \<noteq> 0 \<and> i \<noteq> 0")
    case True
    let ?new = "u @ 0 # drop (Suc (length u)) ?data"
    have b: "blit_opt ?data 0 (u @ [0]) = Some ?new" using d(1,2) lu by (simp add: blit_opt_def)
    have g: "grep_lines os pat fname cnt (int L) data (int i) s = Some (?new, int L - int i, s)"
      using sc at su b True by (subst grep_lines.simps) (simp add: nth_opt_Some upd_opt_Some blit_opt_Some)
    have "i \<noteq> 0" using True by blast
    then have lw: "length u < 1024" using lu d(2) by linarith
    have "drop (length (u @ [0])) ?data ! (1024 - length (u @ [0])) = ?data ! 1024"
      by (subst nth_drop) (use lw d(1) in simp_all)
    then have n: "?new ! 1024 = ?data ! 1024"
      using lw nth_append_right [of "u @ [0]" 1024 "drop (Suc (length u)) ?data"] by simp
    have k: "kept ?new (int L - int i) cnt u" using lw lu d(3) True by (simp add: kept_def)
    have n0: "?data ! 1024 \<in> {0, data ! 1024}" using d(1,2) by (simp add: nth_list_update)
    have "lines_result pat fname fd cnt data L i u c p s (?new, int L - int i, s)"
      by (rule lines_resultI [where xs = "[]", OF _ _ o d(6)]) (use d(1) lw n n0 k in simp_all)
    then show ?thesis using g by blast
  next
    case False
    have lb: "length u \<le> 1024" using lu d(2) by simp
    obtain found s' where m: "find_match pat ?data (int i) (int (i + length u)) = Some found"
        "(if found then show_line os fname ?data (int i) s else Some s) = Some s'" "opened fd c p s'"
        "view s' = fold emit (line_report pat fname u) (view s)"
      using search_line [OF o f d(5) lb pat d1] by blast
    have e: "int (i + length u) = int L" using lu d(3) by simp
    have g: "grep_lines os pat fname cnt (int L) data (int i) s = Some (?data, 0, s')"
      using sc at m(1,2) False unfolding e by (subst grep_lines.simps) (auto simp: nth_opt_Some upd_opt_Some)
    have n0: "?data ! 1024 \<in> {0, data ! 1024}" using d(1,2) by (simp add: nth_list_update)
    have "lines_result pat fname fd cnt data L i u c p s (?data, 0, s')"
      by (rule lines_resultI [where xs = "[]", OF _ n0 m(3) d(6)])
        (use d(1) m(4) False in \<open>auto simp: searched_def grep_report_Cons\<close>)
    then show ?thesis using g by blast
  qed
qed

text \<open>A complete line in front of the rest \<open>t\<close>.\<close>

lemma lines_result_Cons:
  assumes r: "lines_result pat fname fd cnt (data[e := 0]) L (Suc e) t c p s1 v" and e: "e < L" "L \<le> 1024" "length data = 1025"
    and w: "newline \<notin> set w" and s1: "view s1 = fold emit (line_report pat fname w) (view s)"
  shows "lines_result pat fname fd cnt data L i (w @ newline # t) c p s v"
proof -
  obtain data' k s' where v: "v = (data', k, s')" by (cases v) auto
  obtain w' xs where r': "length data' = 1025" "data' ! 1024 \<in> {0, data[e := 0] ! 1024}" "opened fd c p s'" "newline \<notin> set w'"
      "\<forall>r. lines (t @ r) = xs @ lines (w' @ r)"
      "kept data' k cnt w' \<and> view s' = fold emit (grep_report pat fname xs) (view s1) \<or>
       searched k cnt (data[e := 0] ! L) (Suc e = 0 \<and> w' = t) w' \<and>
         view s' = fold emit (grep_report pat fname (xs @ [w'])) (view s1)"
    using r unfolding v lines_result_def prod.case by blast
  have l: "lines ((w @ newline # t) @ r) = (w # xs) @ lines (w' @ r)" for r using w r'(5) by simp
  have d: "data[e := 0] ! L = data ! L" "data' ! 1024 \<in> {0, data ! 1024}"
    using e r'(2) by (auto simp: nth_list_update split: if_splits)
  have f: "fold emit (grep_report pat fname ys) (view s1) = fold emit (grep_report pat fname (w # ys)) (view s)" for ys
    by (simp add: s1 grep_report_Cons)
  have "kept data' k cnt w' \<and> view s' = fold emit (grep_report pat fname (w # xs)) (view s) \<or>
      searched k cnt (data ! L) (i = 0 \<and> w' = w @ newline # t) w' \<and>
        view s' = fold emit (grep_report pat fname ((w # xs) @ [w'])) (view s)"
    using r'(6) unfolding d(1) f append_Cons by (auto simp: searched_def)
  then show ?thesis unfolding v by (intro lines_resultI [OF r'(1) d(2) r'(3,4) l])
qed

lemma grep_lines_spec:
  assumes f: "plain fname" "length fname \<le> 1024" and pat: "0 \<notin> set pat" "pat \<noteq> []"
  shows "opened fd c p s \<Longrightarrow> length data = 1025 \<Longrightarrow> L \<le> 1024 \<Longrightarrow> i \<le> L \<Longrightarrow> u = drop i (take L data) \<Longrightarrow> plain u \<Longrightarrow>
    \<exists>v. grep_lines os pat fname cnt (int L) data (int i) s = Some v \<and> lines_result pat fname fd cnt data L i u c p s v"
proof (induction "length u" arbitrary: u data i s rule: less_induct)
  case less
  note o = less.prems(1) and d = less.prems(2-5) and u = less.prems(6)
  show ?case
  proof (cases rule: first_line [of u])
    case only
    then show ?thesis using grep_lines_last [OF o f pat d u] by blast
  next
    case (more w t)
    let ?e = "i + length w"
    let ?data = "data[?e := 0]"
    have lu: "length u = L - i" using d by simp
    then have e: "?e < L" using more(1) d(3) by simp
    have sc: "scan_line data (int L) (int i) = Some (int ?e)"
      by (rule scan_line_eq [OF more(2) _ _ d(3), of data "newline # t"]) (use d more in simp_all)
    have at: "data ! ?e = newline"
    proof -
      have "u ! length w = newline" unfolding more(1) by simp
      then show ?thesis unfolding d(4) using e d by simp
    qed
    have pw: "plain w" "plain t" using u unfolding more(1) by (simp_all add: plain_append plain_Cons)
    have dr: "drop i data = w @ newline # t @ drop L data"
    proof -
      have "drop i data = u @ drop L data" unfolding d(4) by (rule drop_take_split [OF d(3)]) (use d(1,2) in simp)
      then show ?thesis using more(1) by simp
    qed
    have dr0: "drop i ?data = w @ 0 # t @ drop L data"
      using dr d e by (simp add: drop_update_swap)
    have lw: "length w \<le> 1024" using e d(2) by simp
    obtain found s1 where m: "find_match pat ?data (int i) (int ?e) = Some found"
        "(if found then show_line os fname ?data (int i) s else Some s) = Some s1" "opened fd c p s1"
        "view s1 = fold emit (line_report pat fname w) (view s)"
      using search_line [OF o f pw(1) lw pat dr0] by blast
    have g: "grep_lines os pat fname cnt (int L) data (int i) s =
        (if L \<le> Suc ?e then Some (?data, 0, s1) else grep_lines os pat fname cnt (int L) ?data (int (Suc ?e)) s1)"
      by (rule grep_lines_step [OF sc at _ m(1,2)]) (use e d(1,2) in simp)
    have t: "t = drop (Suc ?e) (take L ?data)" "length t = L - Suc ?e"
    proof -
      have "t = drop (Suc (length w)) u" unfolding more(1) by simp
      also have "\<dots> = drop (Suc ?e) (take L data)" unfolding d(4) by (simp add: ac_simps)
      finally show "t = drop (Suc ?e) (take L ?data)" by (simp add: take_update_swap)
      then show "length t = L - Suc ?e" using d(1,2) by simp
    qed
    show ?thesis
    proof (cases "L \<le> Suc ?e")
      case True
      then have t0: "t = []" using t(2) by simp
      have n0: "?data ! 1024 \<in> {0, data ! 1024}" using d(1,2) e by (simp add: nth_list_update)
      have "lines_result pat fname fd cnt data L i u c p s (?data, 0, s1)"
        by (rule lines_resultI [where xs = "[w]" and w = "[]", OF _ n0 m(3)])
          (use more t0 d(1) m(4) pat in \<open>simp_all add: searched_def grep_report_Cons\<close>)
      then show ?thesis using g True by simp
    next
      case False
      have lt: "length t < length u" unfolding more(1) by simp
      have ld: "length ?data = 1025" using d(1) by simp
      obtain v where v: "grep_lines os pat fname cnt (int L) ?data (int (Suc ?e)) s1 = Some v"
          "lines_result pat fname fd cnt ?data L (Suc ?e) t c p s1 v"
        using less.hyps [OF lt m(3) ld d(2) _ t(1) pw(2)] False by auto
      have "lines_result pat fname fd cnt data L i u c p s v"
        unfolding more(1) by (rule lines_result_Cons [OF v(2) e d(2,1) more(2) m(4)])
      then show ?thesis using g v(1) False by simp
    qed
  qed
qed

text \<open>The reads; \<open>w\<close> is the line cut by the last one.\<close>

lemma searched_all:
  assumes q: "searched k cnt c (w' = u) w'" and cnt: "cnt \<noteq> 0" and r: "c = newline \<Longrightarrow> r = []" "1024 \<le> length u \<or> r = []"
    and w: "newline \<notin> set w'" "\<forall>l \<in> set (lines (u @ r)). length l < 1024"
  shows "k = 0 \<and> (w' = [] \<or> r = [])"
proof -
  have "length u < 1024" if "w' = u"
    using w lines_prefix [of u r] unfolding that by (auto simp: trans_less_add1)
  then show ?thesis using assms by (auto simp: searched_def)
qed

lemma report_rest: "pat \<noteq> [] \<Longrightarrow> newline \<notin> set w \<Longrightarrow> w = [] \<or> r = [] \<Longrightarrow>
    grep_report pat fname (xs @ lines (w @ r)) = grep_report pat fname (xs @ [w]) @ grep_report pat fname (lines r)"
  by (auto simp: grep_report_Cons)

text \<open>One read and the search of the lines it completes.\<close>

lemma grep_read_step:
  assumes f: "plain fname" "length fname \<le> 1024" and pat: "0 \<notin> set pat" "pat \<noteq> []"
    and o: "opened fd c p s" and d: "length data = 1025" "data ! 1024 \<noteq> newline" "take (length w) data = w"
    and w: "newline \<notin> set w" "length w < 1024"
    and t: "plain (w @ drop p c)" "\<forall>l \<in> set (lines (w @ drop p c)). length l < 1024"
    and bs: "bs = take (1024 - length w) (drop p c)" and r: "r = drop (p + length bs) c"
  shows "\<exists>data' k s2 w' xs. grep_reads os pat fname fd (int (length w)) data s =
      (if bs = [] then Some (Inr (), s2) else grep_reads os pat fname fd k data' s2) \<and>
    length data' = 1025 \<and> data' ! 1024 \<noteq> newline \<and> opened fd c (p + length bs) s2 \<and> newline \<notin> set w' \<and> plain (w' @ r) \<and>
    lines (w @ drop p c) = xs @ lines (w' @ r) \<and>
    (kept data' k (of_nat (length bs)) w' \<and> view s2 = fold emit (grep_report pat fname xs) (view s) \<or>
     (bs \<noteq> [] \<longrightarrow> k = 0 \<and> (w' = [] \<or> r = [])) \<and> view s2 = fold emit (grep_report pat fname (xs @ [w'])) (view s))"
proof -
  define data1 where "data1 = w @ bs @ drop (length bs) (drop (length w) data)"
  define cnt where "cnt = (of_nat (length bs) :: i32)"
  define n where "n = 1024 - length w"
  define L where "L = length w + length bs"
  have n: "0 < n" "n \<le> 1024" "n \<le> length (drop (length w) data)" "length (drop (length w) data) \<le> 1025"
    using w(2) d(1) by (simp_all add: n_def)
  have bs': "bs = take n (drop p c)" by (simp add: bs n_def)
  obtain s1 where s1: "os_read os fd (drop (length w) data) (of_nat n) s =
      Some (cnt, bs @ drop (length bs) (drop (length w) data), s1)" "opened fd c (p + length bs) s1" "view s1 = view s"
    using reads_some [OF o n(4,1,2,3) bs'] unfolding cnt_def by blast
  have lb: "length bs \<le> n" "L \<le> 1024" using w(2) by (simp_all add: bs' n_def L_def)
  have cnt: "cnt \<noteq> -1" "cnt = 0 \<longleftrightarrow> bs = []" "int (length w) + sint cnt = int L"
    using small_count [of "length bs"] sint_small [of "length bs"] lb(1) n(2) by (simp_all add: cnt_def L_def)
  have ld: "length data1 = 1025" using d(1) lb by (simp add: data1_def L_def)
  have nth: "data1 ! 1024 = data ! 1024"
  proof -
    have "drop (length bs) (drop (length w) data) ! (1024 - length (w @ bs)) = data ! 1024"
      using d(1) lb(2) by (simp add: L_def)
    then show ?thesis
      using nth_append_right [of "w @ bs" 1024 "drop (length bs) (drop (length w) data)"] lb(2) by (simp add: data1_def L_def)
  qed
  have split: "(w @ bs) @ r = w @ drop p c"
  proof -
    have "drop (length bs) (drop p c) = drop n (drop p c)" unfolding bs' by (cases "length (drop p c) \<le> n") simp_all
    then have "r = drop n (drop p c)" by (simp add: r add.commute)
    then show ?thesis unfolding bs' by (simp only: append_assoc append_take_drop_id)
  qed
  have pu: "plain (w @ bs)" "plain r" using t(1) unfolding split [symmetric] plain_append [of "w @ bs" r] by simp_all
  have u: "w @ bs = drop 0 (take L data1)"
    using take_length_append [of "w @ bs" "drop (length bs) (drop (length w) data)"]
    by (simp only: drop_0 length_append append_assoc data1_def L_def)
  obtain v where v: "grep_lines os pat fname cnt (int L) data1 (int 0) s1 = Some v"
      "lines_result pat fname fd cnt data1 L 0 (w @ bs) c (p + length bs) s1 v"
    using grep_lines_spec [OF f pat s1(2) ld lb(2) _ u pu(1), of cnt] by auto
  obtain data' k s2 where v': "v = (data', k, s2)" by (cases v) auto
  obtain w' xs where q: "length data' = 1025" "data' ! 1024 \<in> {0, data1 ! 1024}" "opened fd c (p + length bs) s2"
      "newline \<notin> set w'" "\<forall>r. lines ((w @ bs) @ r) = xs @ lines (w' @ r)"
      "kept data' k cnt w' \<and> view s2 = fold emit (grep_report pat fname xs) (view s1) \<or>
       searched k cnt (data1 ! L) (0 = (0 :: nat) \<and> w' = w @ bs) w' \<and> view s2 = fold emit (grep_report pat fname (xs @ [w'])) (view s1)"
    using v(2) unfolding v' lines_result_def prod.case by blast
  have lw: "(of_int (1024 - int (length w)) :: i32) = of_nat n" using w(2) by (simp add: of_nat_diff n_def)
  have g: "grep_reads os pat fname fd (int (length w)) data s =
      (if bs = [] then Some (Inr (), s2) else grep_reads os pat fname fd k data' s2)"
  proof -
    have e: "take (length w) data @ bs @ drop (length bs) (drop (length w) data) = data1" by (simp only: data1_def d(3))
    show ?thesis
      using s1(1) v(1) cnt unfolding v'
      by (subst grep_reads.simps) (simp only: of_nat_0_less_iff of_nat_less_0_iff if_False nat_int lw bind.bind_lunit prod.case Let_def e, simp)
  qed
  have d': "data' ! 1024 \<noteq> newline" using q(2) nth d(2) by auto
  have "set w' \<subseteq> set (w @ bs)" using q(4) q(5) [rule_format, of "[]"] lines_subset [of w' "w @ bs"] by simp
  then have pw: "plain (w' @ r)" using pu by (auto simp: plain_def)
  have l: "lines (w @ drop p c) = xs @ lines (w' @ r)" using q(5) unfolding split [symmetric] by blast
  have "bs \<noteq> [] \<longrightarrow> k = 0 \<and> (w' = [] \<or> r = [])" if a: "searched k cnt (data1 ! L) (w' = w @ bs) w'"
  proof
    assume "bs \<noteq> []"
    then have c0: "cnt \<noteq> 0" using cnt(2) by blast
    have full: "L = 1024 \<or> r = []"
      using w(2) by (cases "n \<le> length (drop p c)") (auto simp: r bs' L_def n_def)
    then have "1024 \<le> length (w @ bs) \<or> r = []" by (auto simp: L_def)
    moreover have "data1 ! L = newline \<Longrightarrow> r = []" using full nth d(2) by auto
    moreover have "\<forall>l \<in> set (lines ((w @ bs) @ r)). length l < 1024" unfolding split by (rule t(2))
    ultimately show "k = 0 \<and> (w' = [] \<or> r = [])" by (intro searched_all [OF a c0 _ _ q(4)])
  qed
  then have "kept data' k (of_nat (length bs)) w' \<and> view s2 = fold emit (grep_report pat fname xs) (view s) \<or>
     (bs \<noteq> [] \<longrightarrow> k = 0 \<and> (w' = [] \<or> r = [])) \<and> view s2 = fold emit (grep_report pat fname (xs @ [w'])) (view s)"
    using q(6) unfolding s1(3) cnt_def simp_thms by blast
  note q' = this
  show ?thesis by (intro exI conjI) (rule g q(1) d' q(3) q(4) pw l q')+
qed

lemma grep_reads_spec:
  assumes f: "plain fname" "length fname \<le> 1024" and pat: "0 \<notin> set pat" "pat \<noteq> []"
  shows "opened fd c p s \<Longrightarrow> length data = 1025 \<Longrightarrow> data ! 1024 \<noteq> newline \<Longrightarrow> take (length w) data = w \<Longrightarrow>
    newline \<notin> set w \<Longrightarrow> length w < 1024 \<Longrightarrow> plain (w @ drop p c) \<Longrightarrow> \<forall>l \<in> set (lines (w @ drop p c)). length l < 1024 \<Longrightarrow>
    \<exists>s' p'. grep_reads os pat fname fd (int (length w)) data s = Some (Inr (), s') \<and> opened fd c p' s' \<and>
      view s' = fold emit (grep_report pat fname (lines (w @ drop p c))) (view s)"
proof (induction "length c - p" arbitrary: p s data w rule: less_induct)
  case less
  define bs where "bs = take (1024 - length w) (drop p c)"
  define r where "r = drop (p + length bs) c"
  obtain data' k s2 w' xs where g: "grep_reads os pat fname fd (int (length w)) data s =
        (if bs = [] then Some (Inr (), s2) else grep_reads os pat fname fd k data' s2)"
      and d: "length data' = 1025" "data' ! 1024 \<noteq> newline" and o: "opened fd c (p + length bs) s2"
      and w: "newline \<notin> set w'" "plain (w' @ r)" and l: "lines (w @ drop p c) = xs @ lines (w' @ r)"
      and q: "kept data' k (of_nat (length bs)) w' \<and> view s2 = fold emit (grep_report pat fname xs) (view s) \<or>
        (bs \<noteq> [] \<longrightarrow> k = 0 \<and> (w' = [] \<or> r = [])) \<and> view s2 = fold emit (grep_report pat fname (xs @ [w'])) (view s)"
    using grep_read_step [OF f pat less.prems(1-8) bs_def r_def] by blast
  have sl: "\<forall>v \<in> set (lines (w' @ r)). length v < 1024" using less.prems(8) unfolding l by simp
  show ?case
  proof (cases "bs = []")
    case True
    then have e: "drop p c = []" using less.prems(6) by (simp add: bs_def)
    then have r0: "r = []" by (simp add: r_def True)
    have "view s2 = fold emit (grep_report pat fname (xs @ [w'])) (view s)" using q True by (simp add: kept_def)
    moreover have "lines (w @ drop p c) = xs @ [w']" using l w(1) r0 by simp
    ultimately show ?thesis using g o True by auto
  next
    case False
    then have m: "length c - (p + length bs) < length c - p" by (auto simp: bs_def diff_less_mono2)
    from q show ?thesis
    proof
      assume a: "kept data' k (of_nat (length bs)) w' \<and> view s2 = fold emit (grep_report pat fname xs) (view s)"
      then have k: "k = int (length w')" "take (length w') data' = w'" "length w' < 1024" by (simp_all add: kept_def)
      show ?thesis
        using less.hyps [OF m o d k(2) w(1) k(3), folded r_def, OF w(2) sl] a g k(1) l False by auto
    next
      assume a: "(bs \<noteq> [] \<longrightarrow> k = 0 \<and> (w' = [] \<or> r = [])) \<and> view s2 = fold emit (grep_report pat fname (xs @ [w'])) (view s)"
      then have k: "k = 0" "w' = [] \<or> r = []" using False by simp_all
      have "plain ([] @ r)" using w(2) by (simp add: plain_append)
      moreover have "\<forall>v \<in> set (lines ([] @ r)). length v < 1024" using k(2) sl by auto
      ultimately obtain s3 p' where s3: "grep_reads os pat fname fd (int (length ([] :: u8 list))) data' s2 = Some (Inr (), s3)"
          "opened fd c p' s3" "view s3 = fold emit (grep_report pat fname (lines ([] @ r))) (view s2)"
        using less.hyps [OF m o d, of "[]", folded r_def] by auto
      then show ?thesis
        using a g k(1) False report_rest [OF pat(2) w(1) k(2), of fname xs] unfolding l by auto
    qed
  qed
qed

lemma do_one_file_shows:
  assumes f: "plain fname" "length fname < 1024" and pat: "0 \<notin> set pat" "pat \<noteq> []"
    and r: "ready s" "content s fname = Some c" and c: "plain c" "\<forall>l \<in> set (lines c). length l < 1024"
    and junk: "length junk = 1025" "junk ! 1024 \<noteq> newline"
  shows "\<exists>s'. do_one_file os pat fname junk s = Some (0, s') \<and> view s' = fold emit (grep_report pat fname (lines c)) (view s)"
proof -
  obtain fd s1 where s1: "os_open os fname s = Some (fd, s1)" "fd \<noteq> -1" "opened fd c 0 s1" "view s1 = view s"
    using opens [OF r(1) f(2) r(2)] by blast
  have "length fname \<le> 1024" using f(2) by simp
  from grep_reads_spec [OF f(1) this pat s1(3) junk, of "[]"] c obtain s2 p' where s2:
      "grep_reads os pat fname fd 0 junk s1 = Some (Inr (), s2)" "opened fd c p' s2"
      "view s2 = fold emit (grep_report pat fname (lines c)) (view s1)" by auto
  obtain s3 where "os_close os fd s2 = Some (0, s3)" "view s3 = view s2" using closes [OF s2(2)] by blast
  then show ?thesis using s1 s2 by (simp add: do_one_file_def)
qed

end

section \<open>The laws on the kernel\<close>

lemma kernel_fdputs:
  assumes o: "file_opened i b off fd c p s" and t: "length str \<le> 1024" "8 \<notin> set str" "9 \<notin> set str"
  shows "\<exists>s'. ece391_fdputs (kernel_os env irqs (user_at off)) 1 str s = Some s' \<and> file_opened i b off fd c p s' \<and>
    console_of b s' = fold abs_putc str (console_of b s)"
proof -
  have ok: "user_ok i b off s" and fd: "2 \<le> unat fd" using o by (simp_all add: file_opened_def)
  have "length str \<le> 4096" using t(1) by simp
  from kernel_prints [OF ok this t(2,3), of env irqs] obtain s' where s':
      "os_write (kernel_os env irqs (user_at off)) 1 str (of_nat (length str)) s = Some (of_nat (length str), s')"
      "user_ok i b off s'" "console_of b s' = fold abs_putc str (console_of b s)" "disk s' = disk s"
      "files_of i s' = (files_of i s)[1 := advance (of_nat (length str)) (files_of i s ! 1)]" by blast
  then have "file_opened i b off fd c p s'" using o fd by (simp add: file_opened_def Let_def)
  then show ?thesis using s' by (simp add: ece391_fdputs_def)
qed

lemma kernel_close_file:
  assumes o: "file_opened i b off fd c p s"
  shows "\<exists>s'. os_close (kernel_os env irqs (user_at off)) fd s = Some (0, s') \<and> console_of b s' = console_of b s"
proof -
  have ok: "user_ok i b off s" and fd: "2 \<le> unat fd" "unat fd < 8"
    and f: "f_present (files_of i s ! unat fd) \<noteq> 0" "f_ops (files_of i s ! unat fd) = file_ops"
    using o by (simp_all add: file_opened_def Let_def)
  have bad: "\<not> bad_fd 2 fd" using good_fd [of "unat fd"] fd by (auto simp: bad_fd_def)
  let ?s = "set_files i ((files_of i s)[unat fd := (files_of i s ! unat fd)\<lparr>f_present := 0\<rparr>]) s"
  have "sys_close fd s = Some (0, ?s)"
    using user_ok_current [OF ok] get_file_user [OF ok fd(2)] map_file_user [OF ok fd(2)] bad f
    by (simp add: sys_close_def file_close_def finish_close_def)
  moreover have "console_of b ?s = console_of b s" by (simp add: set_files_def console_of_def)
  ultimately show ?thesis by (simp add: kernel_os_def)
qed

interpretation kernel_search: search_os "kernel_os env irqs (user_at off)" "cat_ready i b off" "cat_arg i"
    "\<lambda>s. file_named (disk s)" "file_opened i b off" "console_of b" abs_putc for env irqs i b off
proof (unfold_locales, goal_cases)
  case (1 fd c p s buf n bytes)
  then have "length buf \<le> 4096" by simp
  from kernel_read_some [OF 1(1) this 1(3-6)] show ?case .
next
  case 2 then show ?case by (rule kernel_fdputs)
next
  case 3 then show ?case by (rule kernel_close_file)
qed

section \<open>Properties\<close>

text \<open>C8: \<^verbatim>\<open>do_one_file\<close> of \<^verbatim>\<open>grep\<close> on the kernel prints for a file exactly the lines that contain the pattern: the screen
  receives, in order, name, colon, line and newline for each of them and nothing else, wherever the 1024-byte reads cut
  the lines. It needs lines of fewer than 1024 bytes without zeros (and without backspaces and tabs, for which the console
  may fault), and that the last byte of the uninitialised buffer is no newline: with a newline there, a line cut by the
  first read is searched in two pieces.\<close>

theorem grep_shows_matches:
  assumes "user_ok i b off s" "0 \<in> set (p_argv (pcbs s ! i))" "next_fd (files_of i s) k"
    and "fname \<in> set (dir_names (disk s))" "file_type (entry_of (disk s) fname) = 2"
    and "c = file_content (disk s) (inode_num (entry_of (disk s) fname))"
    and "length fname < 1024" "set fname \<inter> {0, 8, 9} = {}" "set c \<inter> {0, 8, 9} = {}" "pat \<noteq> []" "0 \<notin> set pat"
    and "\<forall>l \<in> set (lines c). length l < 1024" "length junk = 1025" "junk ! 1024 \<noteq> 10"
  shows "\<exists>s'. do_one_file (kernel_os env irqs (user_at off)) pat fname junk s = Some (0, s') \<and>
    console_of b s' = fold abs_putc (concat (map (\<lambda>l. if sublist pat l then fname @ [58] @ l @ [10] else []) (lines c)))
      (console_of b s)"
proof -
  have r: "cat_ready i b off s" using assms(1-3) by (auto simp: cat_ready_def)
  have p: "plain fname" "plain c" "0 \<notin> set fname"
    using assms(8,9) by (auto simp: plain_def)
  have n: "file_named (disk s) fname = Some c" using assms(4-6) p(3) by (simp add: file_named_def)
  have "grep_report pat fname (lines c) = concat (map (\<lambda>l. if sublist pat l then fname @ [58] @ l @ [10] else []) (lines c))"
    by (simp add: grep_report_def line_report_def cong: map_cong)
  then show ?thesis
    using kernel_search.do_one_file_shows [OF p(1) assms(7,11,10) r n p(2) assms(12-14), of env irqs] by simp
qed

text \<open>The sample disk with the name \<^verbatim>\<open>ab\<close> on the file of three threes.\<close>

definition grep_fs :: fsys where
  "grep_fs = sample_fs\<lparr>boot_block := (boot_block sample_fs)\<lparr>dentries :=
     sample_dentry [46] 1 0 # sample_dentry [97, 98] 2 2 # replicate 61 (sample_dentry [] 0 0)\<rparr>\<rparr>"

definition grep_state :: kstate where
  "grep_state = user_state\<lparr>disk := grep_fs\<rparr>"

lemma wf_grep_fs: "wf_fs grep_fs"
  by (auto simp: wf_fs_def wf_inode_def wf_dentry_def used_blocks_def grep_fs_def sample_fs_def
      sample_inode_def sample_dentry_def)

lemma grep_fs_names: "dir_names grep_fs = [[46], [97, 98]]" "entry_of grep_fs [97, 98] = sample_dentry [97, 98] 2 2"
proof -
  show n: "dir_names grep_fs = [[46], [97, 98]]"
    by (simp add: dir_names_def grep_fs_def sample_fs_def dentry_name_def sample_dentry_def takeWhile_replicate_0)
  show "entry_of grep_fs [97, 98] = sample_dentry [97, 98] 2 2"
    by (simp add: entry_of_def n) (simp add: grep_fs_def)
qed

lemma grep_state_ok: "user_ok 3 0xB8000 0x1000 grep_state"
proof -
  have "current grep_state = current user_state" by (simp add: grep_state_def current_def get_current_pcb_def)
  moreover have "window grep_state b = window user_state b" for b by (rule window_cong) (simp_all add: grep_state_def)
  ultimately show ?thesis
    using user_state_ok wf_grep_fs unfolding user_ok_def cursor_ok_def on_screen_def on_stack_of_def files_of_def
    by (simp add: grep_state_def)
qed

theorem grep_shows_matches_witness:
  "\<exists>s'. do_one_file (kernel_os plain_env [] 0x8001000) [3] [97, 98] (replicate 1025 7) grep_state = Some (0, s') \<and>
    console_of 0xB8000 s' = fold abs_putc [97, 98, 58, 3, 3, 3, 10] (console_of 0xB8000 grep_state)"
proof -
  have c: "file_content grep_fs 2 = [3, 3, 3]"
    by (simp add: file_content_def file_bytes_def used_blocks_def grep_fs_def sample_fs_def sample_inode_def replicate_3)
  have e: "inode_num (entry_of grep_fs [97, 98]) = 2" "file_type (entry_of grep_fs [97, 98]) = 2"
    by (simp_all add: grep_fs_names sample_dentry_def)
  have f: "files_of 3 grep_state = p_files (sample_pcb 3)" "p_argv (pcbs grep_state ! 3) = replicate 128 0" "disk grep_state = grep_fs"
    using user_state_simps(4,5) by (simp_all add: grep_state_def files_of_def)
  have "next_fd (p_files (sample_pcb 3)) 2"
    by (auto simp: next_fd_def sample_pcb_def sample_file_def nth_append)
  moreover have "[97, 98] \<in> set (dir_names grep_fs)" by (simp add: grep_fs_names)
  moreover have "sublist [3] [3, 3, 3 :: u8]" by (simp add: sublist_code)
  moreover have "(0 :: u8) \<in> set (replicate 128 0)" "0 \<notin> set [3 :: u8]" "replicate 1025 7 ! 1024 \<noteq> (10 :: u8)" by simp_all
  ultimately show ?thesis
    using grep_shows_matches [OF grep_state_ok, of 2 "[97, 98]" "[3, 3, 3]" "[3]" "replicate 1025 7" plain_env "[]"] c e
    by (simp add: f)
qed

end
