(* ===== verification/FileInit.thy ===== *)
theory FileInit imports FileWrite Directory begin

text \<open>
  \<^verbatim>\<open>file_system_init\<close> of \<^verbatim>\<open>src/student-distrib/filesys.c\<close>: the image the boot loader has put in memory is
  overwritten by what the disk holds, the structures of \<^verbatim>\<open>filesys.h\<close> are laid over it by casts, and the two
  bitmaps are filled from the directory. The casts are the functions \<open>boot_block_of\<close> and \<open>fsys_of\<close> from the bytes
  of the image, the inverses of \<open>boot_block_bytes\<close> and \<open>image_bytes\<close>.
\<close>

section \<open>The structures over the bytes of an image\<close>

definition chunks :: "nat \<Rightarrow> nat \<Rightarrow> 'a list \<Rightarrow> 'a list list" where
  "chunks k n xs = map (\<lambda>i. take k (drop (k * i) xs)) [0..<n]"

definition inode_of :: "u8 list \<Rightarrow> inode_t" where
  "inode_of bs = \<lparr>file_size = of_le32 (take 4 bs),
     inode_data_blocks = map of_le32 (chunks 4 BLOCKS_PER_INODE (drop 4 bs))\<rparr>"

definition dentry_of :: "u8 list \<Rightarrow> dentry_t" where
  "dentry_of bs = \<lparr>file_name = take 32 bs, file_type = of_le32 (take 4 (drop 32 bs)),
     inode_num = of_le32 (take 4 (drop 36 bs)), dentry_reserved = take 24 (drop 40 bs)\<rparr>"

definition boot_block_of :: "u8 list \<Rightarrow> boot_block_t" where
  "boot_block_of bs = \<lparr>dentry_count = of_le32 (take 4 bs), inode_count = of_le32 (take 4 (drop 4 bs)),
     data_block_count = of_le32 (take 4 (drop 8 bs)), boot_reserved = take 52 (drop 12 bs),
     dentries = map dentry_of (chunks 64 DENTRY_COUNT (drop 64 bs))\<rparr>"

text \<open>The three pointers: the inodes follow the boot block, the data blocks follow the inodes.\<close>

definition fsys_of :: "u32 \<Rightarrow> u8 list \<Rightarrow> fsys \<Rightarrow> fsys option" where
  "fsys_of start img fs = do {
     boot \<leftarrow> slice_opt img 0 BLK;
     let b = boot_block_of boot;
     let n = unat (inode_count b);
     let m = unat (data_block_count b);
     inodes \<leftarrow> slice_opt img BLK (BLK * n);
     data \<leftarrow> slice_opt img (BLK * (1 + n)) (BLK * m);
     Some (fs\<lparr>boot_block := b, inode_blocks := map inode_of (chunks BLK n inodes),
       data_blocks := chunks BLK m data, boot_block_addr := start\<rparr>)
   }"

section \<open>Filling the bitmaps\<close>

text \<open>The inner loop looks at the block before it tests the bound; the bitmaps have 64 entries.\<close>

function mark_blocks :: "inode_t \<Rightarrow> nat \<Rightarrow> u8 list \<Rightarrow> u8 list option" where
  "mark_blocks n j bitmap = do {
     b \<leftarrow> nth_opt (inode_data_blocks n) j;
     if b \<noteq> 0 \<and> j < 64 then do {
       bitmap \<leftarrow> upd_opt bitmap (unat b) 1;
       mark_blocks n (Suc j) bitmap
     } else Some bitmap
   }"
  by pat_completeness auto
termination by (relation "measure (\<lambda>(n, j, bitmap). 64 - j)") auto

declare mark_blocks.simps [simp del]

definition mark_entry :: "dentry_t \<Rightarrow> fsys \<Rightarrow> fsys option" where
  "mark_entry d fs = do {
     c \<leftarrow> nth_opt (file_name d) 0;
     if c \<noteq> 0 then do {
       inodes \<leftarrow> upd_opt (inode_bitmap fs) (unat (inode_num d)) 1;
       n \<leftarrow> nth_opt (inode_blocks fs) (unat (inode_num d));
       data \<leftarrow> mark_blocks n 0 (data_block_bitmap fs);
       Some (fs\<lparr>inode_bitmap := inodes, data_block_bitmap := data\<rparr>)
     } else Some fs
   }"

function mark_entries :: "nat \<Rightarrow> nat \<Rightarrow> fsys \<Rightarrow> fsys option" where
  "mark_entries count i fs =
     (if i < count then do {
        d \<leftarrow> nth_opt (dentries (boot_block fs)) i;
        fs \<leftarrow> mark_entry d fs;
        mark_entries count (Suc i) fs
      } else Some fs)"
  by pat_completeness auto
termination by (relation "measure (\<lambda>(count, i, fs). count - i)") auto

declare mark_entries.simps [simp del]

text \<open>The number of sectors comes from the image in memory, before the disk has been read.\<close>

definition file_system_init :: "u32 \<Rightarrow> u8 list \<Rightarrow> fsys \<Rightarrow> io \<Rightarrow> (fsys \<times> io) option" where
  "file_system_init start img fs s = do {
     boot \<leftarrow> slice_opt img 0 BLK;
     let b = boot_block_of boot;
     (_, data, s) \<leftarrow> read_ata_sectors 5000 (inode_count b + data_block_count b + 1) start s;
     img \<leftarrow> blit_opt img 0 data;
     fs \<leftarrow> fsys_of start img fs;
     fs \<leftarrow> mark_entries (unat (dentry_count (boot_block fs))) 0 fs;
     Some (fs, s)
   }"

section \<open>Reading back what was encoded\<close>

lemma chunks_Suc: "chunks k (Suc n) xs = take k xs # chunks k n (drop k xs)"
  by (simp add: chunks_def upt_conv_Cons map_Suc_upt [symmetric] add.commute del: upt_Suc)

lemma chunks_concat:
  "\<forall>x \<in> set xs. length x = k \<Longrightarrow> chunks k (length xs) (concat xs @ rest) = xs"
proof (induction xs)
  case Nil
  then show ?case by (simp add: chunks_def)
qed (simp add: chunks_Suc)

lemma chunks_concat_exact: "\<forall>x \<in> set xs. length x = k \<Longrightarrow> n = length xs \<Longrightarrow> chunks k n (concat xs) = xs"
  using chunks_concat [of xs k "[]"] by simp

lemma inode_of_bytes: "length (inode_data_blocks n) = BLOCKS_PER_INODE \<Longrightarrow> inode_of (inode_bytes n) = n"
proof -
  assume l: "length (inode_data_blocks n) = BLOCKS_PER_INODE"
  have "chunks 4 BLOCKS_PER_INODE (concat (map le32 (inode_data_blocks n))) = map le32 (inode_data_blocks n)"
    by (rule chunks_concat_exact) (simp_all add: l)
  then show ?thesis by (simp add: inode_of_def inode_bytes_def comp_def)
qed

lemma dentry_of_bytes: "wf_dentry fs d \<Longrightarrow> dentry_of (dentry_bytes d) = d"
  by (simp add: wf_dentry_def dentry_of_def dentry_bytes_def)

lemma boot_block_of_bytes:
  assumes "wf_fs fs"
  shows "boot_block_of (boot_block_bytes (boot_block fs)) = boot_block fs"
proof -
  let ?b = "boot_block fs"
  have r: "length (boot_reserved ?b) = 52" and d: "\<forall>d \<in> set (dentries ?b). wf_dentry fs d"
    "length (dentries ?b) = DENTRY_COUNT"
    using assms by (simp_all add: wf_fs_def)
  have "chunks 64 DENTRY_COUNT (concat (map dentry_bytes (dentries ?b))) = map dentry_bytes (dentries ?b)"
    by (rule chunks_concat_exact) (use d length_dentry_bytes in auto)
  moreover have "map dentry_of (map dentry_bytes (dentries ?b)) = dentries ?b"
    using d(1) dentry_of_bytes [of fs] by (auto intro!: map_idI)
  ultimately show ?thesis using r by (simp add: boot_block_of_def boot_block_bytes_def)
qed

lemma fsys_of_image:
  assumes wf: "wf_fs fs"
  shows "fsys_of start (image_bytes fs @ rest) st = Some (fs\<lparr>inode_bitmap := inode_bitmap st,
    data_block_bitmap := data_block_bitmap st, boot_block_addr := start\<rparr>)"
proof -
  let ?b = "boot_block fs" and ?ns = "map inode_bytes (inode_blocks fs)"
  have b: "length (boot_block_bytes ?b) = BLK" by (rule length_boot_block_bytes [OF wf])
  have n: "\<forall>x \<in> set ?ns. length x = BLK" "\<forall>n \<in> set (inode_blocks fs). length (inode_data_blocks n) = BLOCKS_PER_INODE"
    using wf length_inode_bytes by (auto simp: wf_fs_def wf_inode_def)
  have d: "\<forall>x \<in> set (data_blocks fs). length x = BLK" using wf by (simp add: wf_fs_def)
  have l: "length (concat ?ns) = BLK * unat (inode_count ?b)" "length ?ns = unat (inode_count ?b)"
    "length (concat (data_blocks fs)) = BLK * unat (data_block_count ?b)" "length (data_blocks fs) = unat (data_block_count ?b)"
    using length_concat_uniform [OF n(1)] length_concat_uniform [OF d] wf by (simp_all add: wf_fs_def)
  have i: "image_bytes fs @ rest = boot_block_bytes ?b @ concat ?ns @ concat (data_blocks fs) @ rest"
    by (simp add: image_bytes_def)
  have 1: "slice_opt (image_bytes fs @ rest) 0 BLK = Some (boot_block_bytes ?b)"
    unfolding i using b by (simp add: slice_opt_def)
  have 2: "slice_opt (image_bytes fs @ rest) BLK (BLK * unat (inode_count ?b)) = Some (concat ?ns)"
    unfolding i using b l by (simp add: slice_opt_def)
  have 3: "slice_opt (image_bytes fs @ rest) (BLK * (1 + unat (inode_count ?b))) (BLK * unat (data_block_count ?b)) =
      Some (concat (data_blocks fs))"
    unfolding i using b l by (simp add: slice_opt_def)
  have 4: "chunks BLK (unat (inode_count ?b)) (concat ?ns) = ?ns"
    by (rule chunks_concat_exact [OF n(1)]) (simp only: l)
  have 5: "chunks BLK (unat (data_block_count ?b)) (concat (data_blocks fs)) = data_blocks fs"
    by (rule chunks_concat_exact [OF d]) (simp only: l)
  have 6: "map inode_of ?ns = inode_blocks fs"
    using n(2) inode_of_bytes by (simp add: map_idI)
  show ?thesis
    using 1 2 3 by (simp only: fsys_of_def boot_block_of_bytes [OF wf] Let_def bind.bind_lunit 4 5 6) simp
qed

section \<open>What the loops mark\<close>

definition set_ones :: "nat list \<Rightarrow> u8 list \<Rightarrow> u8 list" where
  "set_ones is m = fold (\<lambda>i m. m[i := 1]) is m"

lemma set_ones_simps [simp]:
  "set_ones [] m = m" "set_ones (i # is) m = set_ones is (m[i := 1])"
  "set_ones (is @ js) m = set_ones js (set_ones is m)" "length (set_ones is m) = length m"
proof -
  show "length (set_ones is m) = length m"
    by (induction "is" arbitrary: m) (simp_all add: set_ones_def)
qed (simp_all add: set_ones_def)

lemma nth_set_ones: "k < length m \<Longrightarrow> set_ones is m ! k = (if k \<in> set is then 1 else m ! k)"
  by (induction "is" arbitrary: m) (auto simp: nth_list_update)

text \<open>The blocks of an inode that are marked: those before the first zero, 64 at most.\<close>

definition marked_blocks :: "inode_t \<Rightarrow> u32 list" where
  "marked_blocks n = takeWhile (\<lambda>b. b \<noteq> 0) (take 64 (inode_data_blocks n))"

lemma mark_blocks_eq:
  assumes "length (inode_data_blocks n) = BLOCKS_PER_INODE" "j \<le> 64"
    and "\<forall>b \<in> set (takeWhile (\<lambda>b. b \<noteq> 0) (drop j (take 64 (inode_data_blocks n)))). unat b < length m"
  shows "mark_blocks n j m =
    Some (set_ones (map unat (takeWhile (\<lambda>b. b \<noteq> 0) (drop j (take 64 (inode_data_blocks n))))) m)"
  using assms(2,3)
proof (induction "64 - j" arbitrary: j m)
  case 0
  then have "j = 64" by simp
  then show ?case using assms(1) mark_blocks.simps [of n 64 m] by (simp add: nth_opt_Some)
next
  case (Suc d)
  then have j: "j < 64" by simp
  let ?b = "inode_data_blocks n ! j" and ?rest = "drop (Suc j) (take 64 (inode_data_blocks n))"
  have d: "drop j (take 64 (inode_data_blocks n)) = ?b # ?rest"
    using j assms(1) by (simp add: Cons_nth_drop_Suc [symmetric])
  have g: "nth_opt (inode_data_blocks n) j = Some ?b" using j assms(1) by (simp add: nth_opt_Some)
  show ?case
  proof (cases "?b = 0")
    case True
    then show ?thesis by (simp add: mark_blocks.simps [of n j m] g d)
  next
    case False
    then have b: "unat ?b < length m" using Suc.prems by (simp add: d)
    have "mark_blocks n (Suc j) (m[unat ?b := 1]) = Some (set_ones (map unat (takeWhile (\<lambda>b. b \<noteq> 0) ?rest)) (m[unat ?b := 1]))"
      using Suc.hyps(2) Suc.prems j False by (intro Suc.hyps(1)) (simp_all add: d)
    then show ?thesis using False j b by (simp add: mark_blocks.simps [of n j m] g d upd_opt_Some)
  qed
qed

definition named :: "dentry_t \<Rightarrow> bool" where
  "named d \<longleftrightarrow> file_name d ! 0 \<noteq> 0"

definition counted_entries :: "fsys \<Rightarrow> dentry_t list" where
  "counted_entries fs = take (unat (dentry_count (boot_block fs))) (dentries (boot_block fs))"

definition entry_inode :: "fsys \<Rightarrow> dentry_t \<Rightarrow> inode_t" where
  "entry_inode fs d = inode_blocks fs ! unat (inode_num d)"

text \<open>An entry that stays inside the two bitmaps.\<close>

definition markable :: "fsys \<Rightarrow> dentry_t \<Rightarrow> bool" where
  "markable fs d \<longleftrightarrow> unat (inode_num d) < BITMAP_SIZE \<and>
     (\<forall>b \<in> set (marked_blocks (entry_inode fs d)). unat b < BITMAP_SIZE)"

definition mark :: "dentry_t list \<Rightarrow> fsys \<Rightarrow> fsys" where
  "mark es fs = fs\<lparr>inode_bitmap := set_ones (map (\<lambda>d. unat (inode_num d)) (filter named es)) (inode_bitmap fs),
     data_block_bitmap := set_ones (concat (map (\<lambda>d. map unat (marked_blocks (entry_inode fs d))) (filter named es)))
       (data_block_bitmap fs)\<rparr>"

definition bitmaps_ok :: "fsys \<Rightarrow> bool" where
  "bitmaps_ok fs \<longleftrightarrow> length (inode_bitmap fs) = BITMAP_SIZE \<and> length (data_block_bitmap fs) = BITMAP_SIZE"

lemma mark_simps [simp]:
  "boot_block (mark es fs) = boot_block fs" "inode_blocks (mark es fs) = inode_blocks fs"
  "data_blocks (mark es fs) = data_blocks fs" "boot_block_addr (mark es fs) = boot_block_addr fs"
  "mark [] fs = fs" "bitmaps_ok (mark es fs) = bitmaps_ok fs" "counted_entries (mark es fs) = counted_entries fs"
  "entry_inode (mark es fs) = entry_inode fs"
  by (simp_all add: mark_def bitmaps_ok_def counted_entries_def entry_inode_def [abs_def])

lemma mark_Cons: "mark (d # es) fs = mark es (mark [d] fs)"
  by (simp add: mark_def entry_inode_def)

lemma mark_entry_eq:
  assumes "wf_fs fs" "wf_dentry fs d" "bitmaps_ok fs" "named d \<longrightarrow> markable fs d"
  shows "mark_entry d fs = Some (mark [d] fs)"
proof (cases "named d")
  case False
  then show ?thesis
    using assms(2) by (simp add: mark_entry_def named_def wf_dentry_def nth_opt_Some mark_def)
next
  case True
  let ?i = "unat (inode_num d)" and ?n = "entry_inode fs d"
  have i: "?i < length (inode_blocks fs)" "length (inode_data_blocks ?n) = BLOCKS_PER_INODE"
    using wf_fs_inode [OF assms(1), of "inode_num d"] assms(2)
    by (simp_all add: wf_dentry_def wf_inode_def entry_inode_def)
  have "mark_blocks ?n 0 (data_block_bitmap fs) = Some (set_ones (map unat (marked_blocks ?n)) (data_block_bitmap fs))"
    using mark_blocks_eq [OF i(2), of 0 "data_block_bitmap fs"] True assms(3,4)
    by (simp add: markable_def marked_blocks_def bitmaps_ok_def)
  then show ?thesis
    using True i assms by (simp add: mark_entry_def named_def wf_dentry_def nth_opt_Some upd_opt_Some mark_def
        markable_def bitmaps_ok_def entry_inode_def)
qed

lemma wf_fs_cong:
  assumes "boot_block fs' = boot_block fs" "inode_blocks fs' = inode_blocks fs" "data_blocks fs' = data_blocks fs"
  shows "wf_fs fs' = wf_fs fs"
  unfolding wf_fs_def wf_inode_def wf_dentry_def assms ..

lemma wf_mark [simp]: "wf_fs (mark es fs) = wf_fs fs"
  by (rule wf_fs_cong) simp_all

lemma mark_entries_eq:
  "wf_fs fs \<Longrightarrow> bitmaps_ok fs \<Longrightarrow> count = unat (dentry_count (boot_block fs)) \<Longrightarrow> i \<le> count \<Longrightarrow>
   \<forall>d \<in> set (drop i (counted_entries fs)). named d \<longrightarrow> markable fs d \<Longrightarrow>
   mark_entries count i fs = Some (mark (drop i (counted_entries fs)) fs)"
proof (induction "count - i" arbitrary: i fs)
  case 0
  then have "\<not> i < count" by simp
  then show ?case using 0 mark_entries.simps [of count i fs] by (simp add: counted_entries_def)
next
  case (Suc k)
  let ?es = "counted_entries fs" and ?d = "dentries (boot_block fs) ! i"
  have "i < count" "count \<le> length (dentries (boot_block fs))"
    using Suc.prems Suc.hyps(2) by (simp_all add: wf_fs_def)
  then have l: "i < length (dentries (boot_block fs))" "i < count" by simp_all
  then have e: "i < length ?es" "?es ! i = ?d" using Suc.prems(3) by (simp_all add: counted_entries_def)
  have d: "drop i ?es = ?d # drop (Suc i) ?es" using Cons_nth_drop_Suc [OF e(1)] e(2) by simp
  have w: "wf_dentry fs ?d" using Suc.prems(1) l(1) by (simp add: wf_fs_def)
  have 1: "mark_entry ?d fs = Some (mark [?d] fs)"
    using Suc.prems(5) by (intro mark_entry_eq [OF Suc.prems(1) w Suc.prems(2)]) (simp add: d)
  have m: "markable (mark [?d] fs) = markable fs" by (rule ext) (simp add: markable_def)
  have "k = count - Suc i" using Suc.hyps(2) by simp
  moreover have "\<forall>d \<in> set (drop (Suc i) ?es). named d \<longrightarrow> markable fs d" using Suc.prems(5) by (simp add: d)
  ultimately have "mark_entries count (Suc i) (mark [?d] fs) = Some (mark (drop (Suc i) ?es) (mark [?d] fs))"
    using Suc.hyps(1) [of "Suc i" "mark [?d] fs"] Suc.prems(1-3) l(2) by (simp add: m)
  moreover have "mark_entries count i fs = mark_entries count (Suc i) (mark [?d] fs)"
    by (subst mark_entries.simps) (simp add: l nth_opt_Some 1)
  ultimately show ?case by (simp only: d mark_Cons [of ?d "drop (Suc i) ?es"])
qed

section \<open>Mounting\<close>

text \<open>\<open>merged\<close> is the image once the sectors the disk delivers have replaced the start of the one in memory.\<close>

definition boot_image :: "u32 \<Rightarrow> u8 list \<Rightarrow> u8 list \<Rightarrow> io \<Rightarrow> io \<Rightarrow> bool" where
  "boot_image start img merged s s1 \<longleftrightarrow> BLK \<le> length img \<and>
     (let b = boot_block_of (take BLK img) in
      \<exists>n data. read_ata_sectors 5000 (inode_count b + data_block_count b + 1) start s = Some (n, data, s1) \<and>
        length data \<le> length img \<and> merged = data @ drop (length data) img)"

definition mountable :: "fsys \<Rightarrow> bool" where
  "mountable fs \<longleftrightarrow> wf_fs fs \<and> (\<forall>d \<in> set (counted_entries fs). named d \<longrightarrow> markable fs d)"

definition blank_maps :: "fsys \<Rightarrow> fsys" where
  "blank_maps fs = fs\<lparr>inode_bitmap := replicate BITMAP_SIZE 0, data_block_bitmap := replicate BITMAP_SIZE 0\<rparr>"

lemma file_system_init_eq:
  assumes "boot_image start img (image_bytes fs @ rest) s s1" "mountable fs"
    and "inode_bitmap st = replicate BITMAP_SIZE 0" "data_block_bitmap st = replicate BITMAP_SIZE 0"
  shows "file_system_init start img st s =
    Some (mark (counted_entries fs) ((blank_maps fs)\<lparr>boot_block_addr := start\<rparr>), s1)"
proof -
  let ?fs = "(blank_maps fs)\<lparr>boot_block_addr := start\<rparr>" and ?b = "boot_block_of (take BLK img)"
  from assms(1) obtain n data where r: "BLK \<le> length img" "length data \<le> length img"
      "read_ata_sectors 5000 (inode_count ?b + data_block_count ?b + 1) start s = Some (n, data, s1)"
      "image_bytes fs @ rest = data @ drop (length data) img"
    unfolding boot_image_def Let_def by blast
  have wf: "wf_fs fs" using assms(2) by (simp add: mountable_def)
  have "fsys_of start (data @ drop (length data) img) st = Some ?fs"
    unfolding r(4) [symmetric] using fsys_of_image [OF wf, of start rest st] assms(3,4) by (simp add: blank_maps_def)
  moreover have "mark_entries (unat (dentry_count (boot_block ?fs))) 0 ?fs = Some (mark (counted_entries fs) ?fs)"
  proof -
    have "wf_fs ?fs" using wf wf_fs_cong [of ?fs fs] by (simp add: blank_maps_def)
    moreover have "counted_entries ?fs = counted_entries fs" by (simp add: counted_entries_def blank_maps_def)
    moreover have "markable ?fs = markable fs"
      by (rule ext) (simp add: markable_def entry_inode_def blank_maps_def)
    ultimately show ?thesis
      using mark_entries_eq [of ?fs _ 0] assms(2) by (simp add: mountable_def bitmaps_ok_def blank_maps_def)
  qed
  ultimately show ?thesis
    using r by (simp add: file_system_init_def slice_opt_def blit_opt_def Let_def)
qed

lemma mark_bitmap_one:
  assumes "d \<in> set es" "named d" "k \<in> unat ` set (marked_blocks (entry_inode fs d))" "k < length (data_block_bitmap fs)"
  shows "data_block_bitmap (mark es fs) ! k = 1"
  using assms by (auto simp: mark_def nth_set_ones)

lemma used_marked:
  assumes "length (used_blocks n) \<le> 64" "0 \<notin> set (used_blocks n)"
  shows "set (used_blocks n) \<subseteq> set (marked_blocks n)"
proof -
  let ?k = "length (used_blocks n)"
  have "take ?k (take 64 (inode_data_blocks n)) = used_blocks n"
    using assms(1) by (simp add: used_blocks_def min_def)
  then have "take 64 (inode_data_blocks n) = used_blocks n @ drop ?k (take 64 (inode_data_blocks n))"
    using append_take_drop_id [of ?k "take 64 (inode_data_blocks n)"] by simp
  then have "marked_blocks n = used_blocks n @ takeWhile (\<lambda>b. b \<noteq> 0) (drop ?k (take 64 (inode_data_blocks n)))"
    using assms(2) takeWhile_append2 [of "used_blocks n" "\<lambda>b. b \<noteq> 0"] unfolding marked_blocks_def by metis
  then show ?thesis by simp
qed

section \<open>A drive that serves an image\<close>

text \<open>The \<open>k\<close>-th word read from the data port is word \<open>k\<close> of the image; the status is always ready.\<close>

definition words_read :: "io_ev list \<Rightarrow> nat" where
  "words_read h = length (filter (\<lambda>e. e = In16 ATA_DATA) h)"

definition image_drive :: "u8 list \<Rightarrow> io_ev list \<Rightarrow> u16 \<Rightarrow> u32" where
  "image_drive bs h port = (if port = ATA_DATA then ucast (le16s bs ! words_read h) else ATA_DRQ)"

lemma words_read_Cons [simp]: "words_read (e # h) = (if e = In16 ATA_DATA then Suc (words_read h) else words_read h)"
  by (simp add: words_read_def)

lemma length_le16s: "length (le16s bs) = length bs div 2"
  by (induction bs rule: le16s.induct) auto

lemma ucast_word16: "ucast (ucast (w :: u16) AND (0xFFFF :: u32)) = w"
proof -
  have m: "(0xFFFF :: u32) = mask 16" by (simp add: mask_eq_exp_minus_1)
  show ?thesis unfolding m by (rule bit_word_eqI) (auto simp: bit_simps)
qed

lemma read_words_image:
  "device s = image_drive bs \<Longrightarrow> words_read (hist s) + n \<le> length (le16s bs) \<Longrightarrow>
   \<exists>b s'. read_words n bytes s = (b, concat (map le16 (take n (drop (words_read (hist s)) (le16s bs)))), s') \<and>
     device s' = image_drive bs \<and> words_read (hist s') = words_read (hist s) + n"
proof (induction n arbitrary: bytes s)
  case 0
  then show ?case by simp
next
  case (Suc n)
  let ?c = "words_read (hist s)"
  obtain t where t: "inw ATA_DATA s = (ucast (le16s bs ! ?c) AND 0xFFFF, t)" "device t = image_drive bs"
      "words_read (hist t) = Suc ?c"
    by (simp add: inw_def Suc.prems(1)) (simp add: image_drive_def)
  from Suc.IH [OF t(2), of "bytes + 2"] t(3) Suc.prems(2) obtain b s'
    where r: "read_words n (bytes + 2) t = (b, concat (map le16 (take n (drop (Suc ?c) (le16s bs)))), s')"
      "device s' = image_drive bs" "words_read (hist s') = Suc ?c + n" by auto
  have "drop ?c (le16s bs) = le16s bs ! ?c # drop (Suc ?c) (le16s bs)"
    using Suc.prems(2) by (simp add: Cons_nth_drop_Suc [symmetric])
  then show ?case using t r by (simp add: ucast_word16)
qed

lemma words_read_command [simp]: "words_read (hist (ata_command i c s)) = words_read (hist s)"
  by (simp add: ata_command_def Let_def)

lemma poll_ready_image:
  assumes "device s = image_drive bs"
  shows "poll_ready s = Some (snd (inb ATA_STATUS s))"
  using assms by (subst poll_ready.simps) (simp add: inb_def image_drive_def ata_ports)

lemma take_append_drop: "take n xs @ take m (drop n xs) = take (n + m) xs"
  by (simp add: take_add)

lemma read_sectors_image:
  "device s = image_drive bs \<Longrightarrow> words_read (hist s) + 256 * n \<le> length (le16s bs) \<Longrightarrow>
   \<exists>b s'. read_sectors n index bytes s = Some (b, concat (map le16 (take (256 * n) (drop (words_read (hist s)) (le16s bs)))), s')"
proof (induction n arbitrary: index bytes s)
  case 0
  then show ?case by simp
next
  case (Suc n)
  let ?p = "snd (inb ATA_STATUS (ata_command index ATA_CMD_READ s))" and ?c = "words_read (hist s)"
  have p: "poll_ready (ata_command index ATA_CMD_READ s) = Some ?p" "device ?p = image_drive bs" "words_read (hist ?p) = ?c"
    using Suc.prems(1) poll_ready_image [of "ata_command index ATA_CMD_READ s" bs] by simp_all
  obtain b t where t: "read_words 256 bytes ?p = (b, concat (map le16 (take 256 (drop ?c (le16s bs)))), t)"
      "device t = image_drive bs" "words_read (hist t) = ?c + 256"
    using read_words_image [OF p(2), of 256 bytes] p(3) Suc.prems(2) by auto
  obtain b' s' where r: "read_sectors n (index + 1) b t =
      Some (b', concat (map le16 (take (256 * n) (drop (?c + 256) (le16s bs)))), s')"
    using Suc.IH [OF t(2), of "index + 1" b] t(3) Suc.prems(2) by auto
  have "take (256 * Suc n) (drop ?c (le16s bs)) =
      take 256 (drop ?c (le16s bs)) @ take (256 * n) (drop (?c + 256) (le16s bs))"
    using take_append_drop [of 256 "drop ?c (le16s bs)" "256 * n"] by (simp add: add.commute)
  then show ?case using p(1) t(1) r by simp
qed

lemma concat_le16_take: "even (length bs) \<Longrightarrow> concat (map le16 (take n (le16s bs))) = take (2 * n) bs"
proof (induction bs arbitrary: n rule: le16s.induct)
  case (1 a b bs)
  then show ?case by (cases n) (auto simp: le16_of_le16)
qed auto

lemma read_ata_image:
  assumes "device s = image_drive bs" "words_read (hist s) = 0" "start \<noteq> 0" "count \<noteq> 0" "even (length bs)"
    and "512 * unat count \<le> length bs"
  shows "\<exists>n s1. read_ata_sectors 5000 count start s = Some (n, take (512 * unat count) bs, s1)"
proof -
  have "256 * unat count \<le> length (le16s bs)" using assms(6) by (simp add: length_le16s)
  then obtain n s1 where r: "read_sectors (unat count) 5000 0 s = Some (n, concat (map le16 (take (256 * unat count) (le16s bs))), s1)"
    using read_sectors_image [OF assms(1), of "unat count" 5000 0] assms(2) by auto
  have "concat (map le16 (take (256 * unat count) (le16s bs))) = take (512 * unat count) bs"
    using concat_le16_take [OF assms(5), of "256 * unat count"] by simp
  then show ?thesis using r assms(3,4) by (simp add: read_ata_sectors_def word_le_nat_alt)
qed

section \<open>Properties\<close>

text \<open>C23: mounting reads back exactly the file system whose image memory holds once the sectors from the disk have
  replaced its beginning: every field of the boot block, every inode and every data block. The inode bitmap has a
  one for exactly the inodes of the counted entries that have a name, and the block bitmap for exactly the blocks
  of their inodes that come before the first zero block number, 64 per inode at most.\<close>

theorem file_system_init_mounts:
  assumes "boot_image start img (image_bytes fs @ rest) s s1" "mountable fs"
    and "inode_bitmap st = replicate BITMAP_SIZE 0" "data_block_bitmap st = replicate BITMAP_SIZE 0"
  shows "\<exists>im dm. file_system_init start img st s =
      Some (fs\<lparr>inode_bitmap := im, data_block_bitmap := dm, boot_block_addr := start\<rparr>, s1) \<and>
    length im = BITMAP_SIZE \<and> length dm = BITMAP_SIZE \<and>
    (\<forall>k < BITMAP_SIZE. im ! k = (if \<exists>d \<in> set (counted_entries fs). named d \<and> k = unat (inode_num d) then 1 else 0) \<and>
       dm ! k = (if \<exists>d \<in> set (counted_entries fs). named d \<and> (\<exists>b \<in> set (marked_blocks (entry_inode fs d)). k = unat b)
                 then 1 else 0))"
proof -
  let ?es = "filter named (counted_entries fs)"
  let ?im = "set_ones (map (\<lambda>d. unat (inode_num d)) ?es) (replicate BITMAP_SIZE 0)"
  let ?dm = "set_ones (concat (map (\<lambda>d. map unat (marked_blocks (entry_inode fs d))) ?es)) (replicate BITMAP_SIZE 0)"
  have "mark (counted_entries fs) ((blank_maps fs)\<lparr>boot_block_addr := start\<rparr>) =
      fs\<lparr>inode_bitmap := ?im, data_block_bitmap := ?dm, boot_block_addr := start\<rparr>"
    by (simp add: mark_def blank_maps_def entry_inode_def)
  moreover have "?im ! k = (if \<exists>d \<in> set (counted_entries fs). named d \<and> k = unat (inode_num d) then 1 else 0)"
    "?dm ! k = (if \<exists>d \<in> set (counted_entries fs). named d \<and> (\<exists>b \<in> set (marked_blocks (entry_inode fs d)). k = unat b)
      then 1 else 0)" if "k < BITMAP_SIZE" for k
    using that by (auto simp: nth_set_ones)
  ultimately show ?thesis
    using file_system_init_eq [OF assms] by (intro exI [of _ ?im] exI [of _ ?dm]) simp
qed

text \<open>C24: after mounting, the block that the allocator hands out first, if there is one, belongs to no file of the
  directory that has at most 64 blocks, none of them block 0 (the loop that marks the blocks of a file stops there): a write
  that extends a file then overwrites no such file. The map has 64 positions whatever the number of blocks is; a
  search that gets past them has no result.\<close>

theorem mounted_free_block:
  assumes "boot_image start img (image_bytes fs @ rest) s s1" "mountable fs"
    and "inode_bitmap st = replicate BITMAP_SIZE 0" "data_block_bitmap st = replicate BITMAP_SIZE 0"
    and "file_system_init start img st s = Some (fs', s')"
    and "find_free_datablock fs' = Some f" "f \<noteq> -1"
    and "d \<in> set (counted_entries fs)" "named d"
    and "length (used_blocks (entry_inode fs d)) \<le> 64" "0 \<notin> set (used_blocks (entry_inode fs d))"
  shows "f \<noteq> 0 \<and> f \<notin> set (used_blocks (entry_inode fs' d)) \<and> f < data_block_count (boot_block fs')"
proof -
  let ?n = "entry_inode fs d"
  have fs': "fs' = mark (counted_entries fs) ((blank_maps fs)\<lparr>boot_block_addr := start\<rparr>)"
    using file_system_init_eq [OF assms(1-4)] assms(5) by simp
  let ?m = "data_block_bitmap fs'" and ?c = "unat (data_block_count (boot_block fs))"
  have l: "length ?m = BITMAP_SIZE" "boot_block fs' = boot_block fs" "entry_inode fs' d = ?n"
    by (simp_all add: fs' mark_def blank_maps_def entry_inode_def)
  have "find_free ?m 1 ?c = Some f" using assms(6) l(2) by (simp add: find_free_datablock_def)
  then obtain k where k: "f = of_nat k" "1 \<le> k" "k < ?c" "k < length ?m" "?m ! k = 0"
    using find_free_result [OF _ assms(7) unat_u32_less] by blast
  then have f: "unat f = k" "unat f < ?c" "0 < unat f" "?m ! unat f = 0"
    using unat_u32_less [of "data_block_count (boot_block fs)"] by (simp_all add: unat_of_nat)
  have "set (used_blocks ?n) \<subseteq> set (marked_blocks ?n)" by (rule used_marked [OF assms(10,11)])
  moreover have "unat f \<notin> set (map unat (marked_blocks ?n))"
  proof
    assume "unat f \<in> set (map unat (marked_blocks ?n))"
    then have "unat f \<in> unat ` set (marked_blocks (entry_inode ((blank_maps fs)\<lparr>boot_block_addr := start\<rparr>) d))"
      by (simp add: entry_inode_def blank_maps_def)
    moreover have "unat f < length (data_block_bitmap ((blank_maps fs)\<lparr>boot_block_addr := start\<rparr>))"
      using k(4) f(1) l(1) by (simp add: blank_maps_def)
    ultimately have "?m ! unat f = 1"
      unfolding fs' using mark_bitmap_one [OF assms(8,9)] by blast
    then show False using f(4) by simp
  qed
  ultimately have "f \<notin> set (used_blocks ?n)" by auto
  moreover have "f \<noteq> 0" using f(3) by auto
  ultimately show ?thesis using f(2) l by (simp add: word_less_nat_alt)
qed

definition image_io :: io where
  "image_io = \<lparr>hist = [], device = image_drive (image_bytes sample_fs)\<rparr>"

lemma image_drive_boots:
  assumes "device io = image_drive (image_bytes sample_fs)" "words_read (hist io) = 0"
  shows "\<exists>s1. boot_image 0x500000 (image_bytes sample_fs) (image_bytes sample_fs @ []) io s1"
proof -
  let ?img = "image_bytes sample_fs"
  have l: "length ?img = 9 * BLK" using length_image [OF wf_sample] by (simp add: sample_fs_def)
  have "take BLK ?img = boot_block_bytes (boot_block sample_fs)"
    using length_boot_block_bytes [OF wf_sample] by (simp add: image_bytes_def)
  then have b: "boot_block_of (take BLK ?img) = boot_block sample_fs"
    using boot_block_of_bytes [OF wf_sample] by simp
  have c: "inode_count (boot_block sample_fs) + data_block_count (boot_block sample_fs) + 1 = 9"
    by (simp add: sample_fs_def)
  obtain n s1 where "read_ata_sectors 5000 9 0x500000 io = Some (n, take (512 * unat (9 :: u32)) ?img, s1)"
    using read_ata_image [of io ?img "0x500000" 9] l assms by auto
  then show ?thesis unfolding boot_image_def Let_def b c using l by auto
qed

lemma sample_boot_image: "\<exists>s1. boot_image 0x500000 (image_bytes sample_fs) (image_bytes sample_fs @ []) image_io s1"
  by (rule image_drive_boots) (simp_all add: image_io_def words_read_def)

lemma sample_mountable: "mountable sample_fs"
proof -
  have "\<forall>d \<in> set (counted_entries sample_fs). markable sample_fs d"
    by (simp add: markable_def counted_entries_def entry_inode_def marked_blocks_def sample_fs_def sample_inode_def
        sample_dentry_def)
  then show ?thesis by (simp add: mountable_def wf_sample)
qed

theorem file_system_init_mounts_witness:
  "\<exists>im dm s1. file_system_init 0x500000 (image_bytes sample_fs) (blank_maps sample_fs) image_io =
     Some (sample_fs\<lparr>inode_bitmap := im, data_block_bitmap := dm, boot_block_addr := 0x500000\<rparr>, s1) \<and> im ! 1 = 1 \<and> im ! 2 = 0"
proof -
  obtain s1 where b: "boot_image 0x500000 (image_bytes sample_fs) (image_bytes sample_fs @ []) image_io s1"
    using sample_boot_image by blast
  have e: "counted_entries sample_fs = [sample_dentry [46] 1 0, sample_dentry [97, 98] 2 1]"
    by (simp add: counted_entries_def sample_fs_def)
  obtain im dm where "file_system_init 0x500000 (image_bytes sample_fs) (blank_maps sample_fs) image_io =
      Some (sample_fs\<lparr>inode_bitmap := im, data_block_bitmap := dm, boot_block_addr := 0x500000\<rparr>, s1)"
    "\<forall>k < BITMAP_SIZE. im ! k = (if \<exists>d \<in> set (counted_entries sample_fs). named d \<and> k = unat (inode_num d) then 1 else 0)"
    using file_system_init_mounts [OF b sample_mountable, of "blank_maps sample_fs"] by (auto simp: blank_maps_def)
  then show ?thesis unfolding e by (auto simp: named_def sample_dentry_def)
qed

theorem mounted_free_block_witness:
  "\<exists>fs' s1 f. file_system_init 0x500000 (image_bytes sample_fs) (blank_maps sample_fs) image_io = Some (fs', s1) \<and>
     find_free_datablock fs' = Some f \<and> f \<notin> {1, 2}"
proof -
  obtain s1 where b: "boot_image 0x500000 (image_bytes sample_fs) (image_bytes sample_fs @ []) image_io s1"
    using sample_boot_image by blast
  have e: "counted_entries sample_fs = [sample_dentry [46] 1 0, sample_dentry [97, 98] 2 1]"
    by (simp add: counted_entries_def sample_fs_def)
  let ?fs = "mark (counted_entries sample_fs) ((blank_maps sample_fs)\<lparr>boot_block_addr := 0x500000\<rparr>)"
  let ?d = "sample_dentry [97, 98] 2 1"
  have i: "file_system_init 0x500000 (image_bytes sample_fs) (blank_maps sample_fs) image_io = Some (?fs, s1)"
    by (rule file_system_init_eq [OF b sample_mountable]) (simp_all add: blank_maps_def)
  have u: "used_blocks (entry_inode sample_fs ?d) = [1, 2]" "used_blocks (entry_inode ?fs ?d) = [1, 2]"
    by (simp_all add: used_blocks_def entry_inode_def blank_maps_def sample_fs_def sample_inode_def sample_dentry_def)
  have m: "data_block_bitmap ?fs ! 3 = 0" "length (data_block_bitmap ?fs) = 64" "unat (data_block_count (boot_block ?fs)) = 5"
    unfolding e by (simp_all add: mark_def nth_set_ones blank_maps_def named_def entry_inode_def marked_blocks_def
        sample_fs_def sample_inode_def sample_dentry_def)
  let ?P = "\<lambda>k. 1 \<le> k \<and> data_block_bitmap ?fs ! k = 0"
  have "find_free_datablock ?fs = Some (of_nat (LEAST k. ?P k))"
    unfolding find_free_datablock_def using find_free_spec [of 5 "data_block_bitmap ?fs" 1] m by fastforce
  moreover have "(LEAST k. ?P k) \<le> 3" using m(1) by (intro Least_le) simp
  then have "(of_nat (LEAST k. ?P k) :: u32) \<noteq> -1"
    by (auto simp: unat_neg_one unat_of_nat dest!: arg_cong [of _ "-1" unat])
  moreover have d: "?d \<in> set (counted_entries sample_fs)" "named ?d"
    unfolding e by (simp_all add: named_def sample_dentry_def)
  moreover have "length (used_blocks (entry_inode sample_fs ?d)) \<le> 64" "0 \<notin> set (used_blocks (entry_inode sample_fs ?d))"
    unfolding u by simp_all
  moreover have "inode_bitmap (blank_maps sample_fs) = replicate BITMAP_SIZE 0"
    "data_block_bitmap (blank_maps sample_fs) = replicate BITMAP_SIZE 0" by (simp_all add: blank_maps_def)
  ultimately have "(of_nat (LEAST k. ?P k) :: u32) \<notin> set (used_blocks (entry_inode ?fs ?d))"
    using mounted_free_block [OF b sample_mountable _ _ i, of "of_nat (LEAST k. ?P k)" ?d] by blast
  then have "(of_nat (LEAST k. ?P k) :: u32) \<notin> {1, 2}" unfolding u(2) by simp
  then show ?thesis
    using i \<open>find_free_datablock ?fs = Some (of_nat (LEAST k. ?P k))\<close> by blast
qed

end
