(* ===== verification/Forest.thy ===== *)
theory Forest imports Prelude begin

text \<open>
  The abstract specification of the process table: a forest of processes whose three leaves run on the
  three terminals. \<^verbatim>\<open>execute\<close> hangs a new leaf below the leaf of a terminal, \<^verbatim>\<open>halt\<close> takes a leaf away and its
  parent becomes the leaf again. A locale states what a kernel promises about its steps, and proves what
  follows for all states it can reach.
\<close>

record forest =
  alive :: "nat set"
  parent_of :: "nat \<Rightarrow> nat option"
  runs :: "nat \<Rightarrow> nat"

text \<open>The first three processes are the shells: always alive, and without a parent.\<close>

definition wf_forest :: "forest \<Rightarrow> bool" where
  "wf_forest f \<longleftrightarrow> alive f \<subseteq> {..<6} \<and> {0, 1, 2} \<subseteq> alive f \<and> (\<forall>i < 3. parent_of f i = None) \<and>
     (\<forall>t < 3. runs f t \<in> alive f) \<and> inj_on (runs f) {..<3} \<and>
     (\<forall>i \<in> alive f. 3 \<le> i \<longrightarrow> (\<exists>k \<in> alive f. parent_of f i = Some k)) \<and>
     (\<forall>i \<in> alive f. \<forall>j \<in> alive f. parent_of f i = parent_of f j \<longrightarrow> parent_of f i \<noteq> None \<longrightarrow> i = j) \<and>
     (\<forall>i \<in> alive f. \<forall>t < 3. parent_of f i \<noteq> Some (runs f t))"

definition spawn :: "nat \<Rightarrow> nat \<Rightarrow> forest \<Rightarrow> forest" where
  "spawn n t f = \<lparr>alive = insert n (alive f), parent_of = (parent_of f)(n := Some (runs f t)), runs = (runs f)(t := n)\<rparr>"

definition leave :: "nat \<Rightarrow> nat \<Rightarrow> forest \<Rightarrow> forest" where
  "leave t k f = \<lparr>alive = alive f - {runs f t}, parent_of = parent_of f, runs = (runs f)(t := k)\<rparr>"

lemma wf_forestD:
  assumes "wf_forest f"
  shows "i \<in> alive f \<Longrightarrow> i < 6" "i < 3 \<Longrightarrow> i \<in> alive f" "i < 3 \<Longrightarrow> parent_of f i = None" "t < 3 \<Longrightarrow> runs f t \<in> alive f"
    "t < 3 \<Longrightarrow> u < 3 \<Longrightarrow> runs f t = runs f u \<Longrightarrow> t = u"
    "i \<in> alive f \<Longrightarrow> parent_of f i = Some k \<Longrightarrow> k \<in> alive f \<and> 3 \<le> i"
    "i \<in> alive f \<Longrightarrow> t < 3 \<Longrightarrow> parent_of f i \<noteq> Some (runs f t)"
proof -
  show "i < 3 \<Longrightarrow> i \<in> alive f"
    using assms unfolding wf_forest_def by (metis One_nat_def insert_subset less_2_cases less_Suc_eq numeral_2_eq_2 numeral_3_eq_3)
  show "i \<in> alive f \<Longrightarrow> parent_of f i = Some k \<Longrightarrow> k \<in> alive f \<and> 3 \<le> i"
    using assms unfolding wf_forest_def by (metis not_le option.distinct(1) option.inject)
qed (use assms in \<open>auto simp: wf_forest_def inj_on_def\<close>)

lemma wf_spawn:
  assumes "wf_forest f" "n < 6" "n \<notin> alive f" "t < 3"
  shows "wf_forest (spawn n t f)"
proof -
  note d = wf_forestD [OF assms(1)]
  have n: "3 \<le> n" using d(2) [of n] assms(3) by (cases "n < 3") auto
  have ne: "parent_of f i \<noteq> Some n" if "i \<in> alive f" for i using d(6) [OF that, of n] assms(3) by auto
  have rn: "runs f u \<noteq> n" if "u < 3" for u using d(4) [OF that] assms(3) by auto
  have r: "runs f t \<noteq> runs f u" if "u < 3" "u \<noteq> t" for u using d(5) [OF assms(4) that(1)] that(2) by auto
  have "inj_on ((runs f)(t := n)) {..<3}"
    using assms(1) rn by (auto simp: wf_forest_def inj_on_def)
  then show ?thesis
    using assms n ne d(4) [OF assms(4)] unfolding wf_forest_def spawn_def
    by (simp; intro conjI ballI allI impI) (auto simp: ne r dest: d(7))
qed

lemma wf_leave:
  assumes "wf_forest f" "t < 3" "parent_of f (runs f t) = Some k"
  shows "wf_forest (leave t k f)"
proof -
  note d = wf_forestD [OF assms(1)]
  let ?i = "runs f t"
  have i: "?i \<in> alive f" "k \<in> alive f" "3 \<le> ?i" using d(4) [OF assms(2)] d(6) [OF _ assms(3)] by auto
  have k: "k \<noteq> runs f u" if "u < 3" for u using d(7) [OF i(1) that] assms(3) by auto
  have r: "runs f u \<noteq> ?i" if "u < 3" "u \<noteq> t" for u using d(5) [OF that(1) assms(2)] that(2) by auto
  have p: "parent_of f j \<noteq> Some k" if "j \<in> alive f" "j \<noteq> ?i" for j
    using assms(1,3) i(1) that unfolding wf_forest_def by (metis option.distinct(1))
  have "inj_on ((runs f)(t := k)) {..<3}"
    using assms(1) k by (auto simp: wf_forest_def inj_on_def)
  moreover have "\<forall>j \<in> alive f - {?i}. 3 \<le> j \<longrightarrow> (\<exists>m \<in> alive f - {?i}. parent_of f j = Some m)"
    using assms(1) d(7) [OF _ assms(2)] unfolding wf_forest_def by fastforce
  moreover have "\<forall>j \<in> alive f - {?i}. \<forall>u < 3. parent_of f j \<noteq> Some (((runs f)(t := k)) u)"
    using p d(7) by simp
  moreover have "\<forall>u < 3. ((runs f)(t := k)) u \<in> alive f - {?i}"
    using i(2) k [OF assms(2)] d(4) r by auto
  moreover have "{0, 1, 2} \<subseteq> alive f - {?i}" using i(3) d(2) [of 0] d(2) [of 1] d(2) [of 2] by auto
  moreover have "alive f - {?i} \<subseteq> {..<6}" "\<forall>i < 3. parent_of f i = None"
    "\<forall>i \<in> alive f - {?i}. \<forall>j \<in> alive f - {?i}. parent_of f i = parent_of f j \<longrightarrow> parent_of f i \<noteq> None \<longrightarrow> i = j"
    using assms(1) unfolding wf_forest_def by blast+
  ultimately show ?thesis unfolding wf_forest_def leave_def forest.simps by (intro conjI)
qed

section \<open>Kernels\<close>

text \<open>Each step of the kernel leaves the forest alone, starts a process on a terminal in a free slot, or ends the
  process of a terminal that has a parent.\<close>

locale process_kernel =
  fixes step :: "'s \<Rightarrow> 's \<Rightarrow> bool" and abs :: "'s \<Rightarrow> forest" and ok :: "'s \<Rightarrow> bool"
  assumes step_ok: "ok s \<Longrightarrow> step s s' \<Longrightarrow> ok s'"
    and ok_wf: "ok s \<Longrightarrow> wf_forest (abs s)"
    and step_forest: "ok s \<Longrightarrow> step s s' \<Longrightarrow> abs s' = abs s \<or>
      (\<exists>n t. n < 6 \<and> n \<notin> alive (abs s) \<and> t < 3 \<and> abs s' = spawn n t (abs s)) \<or>
      (\<exists>t k. t < 3 \<and> parent_of (abs s) (runs (abs s) t) = Some k \<and> abs s' = leave t k (abs s))"
begin

lemma reachable_ok: "step\<^sup>*\<^sup>* s s' \<Longrightarrow> ok s \<Longrightarrow> ok s'"
  by (induction rule: rtranclp_induct) (auto intro: step_ok)

lemma reachable_wf: "step\<^sup>*\<^sup>* s s' \<Longrightarrow> ok s \<Longrightarrow> wf_forest (abs s')"
  using reachable_ok ok_wf by blast

text \<open>A suspended process stays suspended, with the same parent, until its only child ends.\<close>

lemma child_keeps_parent:
  assumes "ok s" "step s s'" "i \<in> alive (abs s)" "parent_of (abs s) i = Some k"
  shows "(i \<in> alive (abs s') \<and> parent_of (abs s') i = Some k \<and> k \<in> alive (abs s')) \<or>
    (\<exists>t < 3. runs (abs s) t = i \<and> runs (abs s') t = k \<and> i \<notin> alive (abs s') \<and> k \<in> alive (abs s'))"
proof -
  note d = wf_forestD [OF ok_wf [OF assms(1)]]
  have k: "k \<in> alive (abs s)" using d(6) [OF assms(3,4)] by simp
  have kt: "k \<noteq> runs (abs s) t" if "t < 3" for t using d(7) [OF assms(3) that] assms(4) by auto
  from step_forest [OF assms(1,2)] show ?thesis
  proof (elim disjE exE conjE)
    fix n t assume "n \<notin> alive (abs s)" "abs s' = spawn n t (abs s)"
    then show ?thesis using assms(3,4) k by (auto simp: spawn_def)
  next
    fix t j assume "t < 3" "parent_of (abs s) (runs (abs s) t) = Some j" "abs s' = leave t j (abs s)"
    then show ?thesis using assms(3,4) k kt by (cases "runs (abs s) t = i") (auto simp: leave_def)
  qed (use assms(3,4) k in auto)
qed

text \<open>At most three programs run beside the shells.\<close>

lemma program_bound:
  assumes "ok s"
  shows "card (alive (abs s) - {0, 1, 2}) \<le> 3"
proof -
  have "alive (abs s) - {0, 1, 2} \<subseteq> {3, 4, 5}" using wf_forestD(1) [OF ok_wf [OF assms]] by fastforce
  from card_mono [OF _ this] show ?thesis by simp
qed

end

end
