(* ===== verification/Scheduling.thy ===== *)
theory Scheduling imports KernelMap Forest begin

text \<open>
  The state of the scheduler, seen apart from the rest of the kernel: the control blocks, what the terminals run,
  which terminal is active and which is shown, the part of the paging tables that they determine, and the kernel stack
  of the next entry. The timer interrupt and the function keys act on it as one abstract switch; the invariant
  says that video memory, user memory and kernel stack always belong to the process of the active terminal.
\<close>

section \<open>The scheduler's view of the kernel\<close>

record proc =
  pr_present :: u8
  pr_pid :: i32
  pr_parent :: u32
  pr_ebp :: u32
  pr_parent_ebp :: u32
  pr_esp0 :: u32

record sched =
  s_procs :: "proc list"
  s_runs :: "i32 list"
  s_active :: u32
  s_shown :: u32
  s_map :: paging
  s_kstack :: u32

definition proc_of :: "pcb_t \<Rightarrow> proc" where
  "proc_of p = \<lparr>pr_present = p_present p, pr_pid = p_pid p, pr_parent = p_parent p, pr_ebp = p_ebp p,
     pr_parent_ebp = p_parent_ebp p, pr_esp0 = p_esp0 p\<rparr>"

text \<open>The user's video table is left out: \<^verbatim>\<open>vidmap\<close> changes it on its own.\<close>

definition sched_of :: "kstate \<Rightarrow> sched" where
  "sched_of s = \<lparr>s_procs = map proc_of (pcbs s), s_runs = map t_pid (terms s), s_active = active_term_id s,
     s_shown = shown_term_id s, s_map = (mmu s)\<lparr>page_table_user_vidmem := []\<rparr>, s_kstack = tss_esp0 s\<rparr>"

definition run_by :: "sched \<Rightarrow> nat \<Rightarrow> nat" where
  "run_by v t = unat (s_runs v ! t)"

text \<open>The process of the active terminal.\<close>

definition running :: "sched \<Rightarrow> nat" where
  "running v = run_by v (unat (s_active v))"

definition forest_of :: "sched \<Rightarrow> forest" where
  "forest_of v = \<lparr>alive = {i. i < MAX_PROCESS \<and> pr_present (s_procs v ! i) \<noteq> 0},
     parent_of = (\<lambda>i. if i < MAX_PROCESS then pcb_index (pr_parent (s_procs v ! i)) else None), runs = run_by v\<rparr>"

text \<open>A frame pointer in the kernel stack of process \<open>i\<close>, with the saved registers below the top and room for two
  more words above the bottom.\<close>

definition in_stack :: "nat \<Rightarrow> u32 \<Rightarrow> bool" where
  "in_stack i a \<longleftrightarrow> i < MAX_PROCESS \<and> unat (pcb_addr i) + 8 \<le> unat a \<and> unat a + 8 < unat (pcb_addr i) + 0x2000"

definition video_frame :: "u32 \<Rightarrow> u32 \<Rightarrow> u32" where
  "video_frame t shown = (if t = shown then of_nat VIDMEM_INDEX else video_page_of t)"

definition view_ok :: "sched \<Rightarrow> bool" where
  "view_ok v \<longleftrightarrow> length (s_procs v) = MAX_PROCESS \<and> length (s_runs v) = TERMINAL_COUNT \<and>
     unat (s_active v) < TERMINAL_COUNT \<and> unat (s_shown v) < TERMINAL_COUNT \<and> wf_forest (forest_of v) \<and>
     (\<forall>i \<in> alive (forest_of v). pr_pid (s_procs v ! i) = of_nat i \<and> pr_esp0 (s_procs v ! i) = pcb_addr i + KERNEL_STACK_SIZE \<and>
        (\<forall>k. parent_of (forest_of v) i = Some k \<longrightarrow> in_stack k (pr_parent_ebp (s_procs v ! i)))) \<and>
     (\<forall>t < TERMINAL_COUNT. t \<noteq> unat (s_active v) \<longrightarrow> in_stack (run_by v t) (pr_ebp (s_procs v ! run_by v t))) \<and>
     video_map (s_map v) (video_frame (s_active v) (s_shown v)) \<and> user_page (s_map v) = 2 + of_nat (running v) \<and>
     s_kstack v = pcb_addr (running v) + KERNEL_STACK_SIZE"

definition sched_ok :: "kstate \<Rightarrow> bool" where
  "sched_ok s \<longleftrightarrow> view_ok (sched_of s)"

text \<open>The kernel has been entered from the running process, and works on its stack.\<close>

definition entered :: "kstate \<Rightarrow> bool" where
  "entered s \<longleftrightarrow> on_stack_of (running (sched_of s)) s \<and> in_stack (running (sched_of s)) (ebp s)"

section \<open>The abstract switch\<close>

definition switch_to :: "u32 \<Rightarrow> u32 \<Rightarrow> u32 \<Rightarrow> sched \<Rightarrow> sched" where
  "switch_to t shown bp v =
     (let ps = (s_procs v)[running v := (s_procs v ! running v)\<lparr>pr_ebp := bp, pr_esp0 := s_kstack v\<rparr>];
          n = run_by v (unat t)
      in v\<lparr>s_procs := ps, s_active := t, s_shown := shown,
           s_map := set_user_page (2 + pr_pid (ps ! n))
             (kernel_pte_map VIDMEM_INDEX (set_page_base_address (video_frame t shown)) (s_map v)),
           s_kstack := pr_esp0 (ps ! n)\<rparr>)"

lemma terminal_cases: "unat (t :: u32) < 3 \<Longrightarrow> t = 0 \<or> t = 1 \<or> t = 2"
proof -
  assume t: "unat t < 3"
  then have "unat t = 0 \<or> unat t = 1 \<or> unat t = 2" by auto
  then show ?thesis using eq_of_nat_iff [of 0 t] eq_of_nat_iff [of 1 t] eq_of_nat_iff [of 2 t] by auto
qed

lemma video_frame_bits: "unat t < 3 \<Longrightarrow> take_bit 20 (video_frame t u) = video_frame t u"
  by (drule terminal_cases) (auto simp: video_frame_def video_page_of_def)

lemma small_user_page: "i < MAX_PROCESS \<Longrightarrow> take_bit 10 (2 + of_nat i :: u32) = 2 + of_nat i"
  by (rule small_field)

lemma forest_of_cong:
  assumes "length (s_procs v') = length (s_procs v)" "s_runs v' = s_runs v"
    and "\<And>i. i < MAX_PROCESS \<Longrightarrow> pr_present (s_procs v' ! i) = pr_present (s_procs v ! i) \<and> pr_parent (s_procs v' ! i) = pr_parent (s_procs v ! i)"
  shows "forest_of v' = forest_of v"
  using assms by (auto simp: forest_of_def run_by_def fun_eq_iff)

lemma runs_forest_of [simp]: "runs (forest_of v) = run_by v"
  by (simp add: forest_of_def)

lemma view_okD:
  assumes "view_ok v"
  shows "length (s_procs v) = MAX_PROCESS" "length (s_runs v) = TERMINAL_COUNT" "unat (s_active v) < TERMINAL_COUNT"
    "unat (s_shown v) < TERMINAL_COUNT" "wf_forest (forest_of v)"
    "t < TERMINAL_COUNT \<Longrightarrow> run_by v t < MAX_PROCESS \<and> run_by v t \<in> alive (forest_of v)"
    "i \<in> alive (forest_of v) \<Longrightarrow> pr_pid (s_procs v ! i) = of_nat i \<and> pr_esp0 (s_procs v ! i) = pcb_addr i + KERNEL_STACK_SIZE"
    "i \<in> alive (forest_of v) \<Longrightarrow> parent_of (forest_of v) i = Some k \<Longrightarrow> in_stack k (pr_parent_ebp (s_procs v ! i))"
    "t < TERMINAL_COUNT \<Longrightarrow> t \<noteq> unat (s_active v) \<Longrightarrow> in_stack (run_by v t) (pr_ebp (s_procs v ! run_by v t))"
    "running v < MAX_PROCESS" "video_map (s_map v) (video_frame (s_active v) (s_shown v))"
    "user_page (s_map v) = 2 + of_nat (running v)" "s_kstack v = pcb_addr (running v) + KERNEL_STACK_SIZE"
proof -
  have wf: "wf_forest (forest_of v)" using assms by (simp add: view_ok_def)
  have r: "run_by v t < MAX_PROCESS \<and> run_by v t \<in> alive (forest_of v)" if "t < TERMINAL_COUNT" for t
  proof -
    have a: "run_by v t \<in> alive (forest_of v)" using wf_forestD(4) [OF wf that] by simp
    from wf_forestD(1) [OF wf this] this show ?thesis by simp
  qed
  then show "t < TERMINAL_COUNT \<Longrightarrow> run_by v t < MAX_PROCESS \<and> run_by v t \<in> alive (forest_of v)" by blast
  show "running v < MAX_PROCESS" using r assms by (simp add: running_def view_ok_def)
qed (use assms in \<open>simp_all add: view_ok_def\<close>)

text \<open>A switch keeps the invariant, whichever terminal it goes to.\<close>

lemma view_ok_switch:
  assumes "view_ok v" "unat t < TERMINAL_COUNT" "unat shown < TERMINAL_COUNT" "in_stack (running v) bp"
  shows "view_ok (switch_to t shown bp v)" and "running (switch_to t shown bp v) = run_by v (unat t)"
    and "forest_of (switch_to t shown bp v) = forest_of v"
    and "u < TERMINAL_COUNT \<Longrightarrow> in_stack (run_by v u) (pr_ebp (s_procs (switch_to t shown bp v) ! run_by v u))"
proof -
  note d = view_okD [OF assms(1)]
  let ?c = "running v" and ?n = "run_by v (unat t)"
  let ?ps = "(s_procs v)[?c := (s_procs v ! ?c)\<lparr>pr_ebp := bp, pr_esp0 := s_kstack v\<rparr>]"
  let ?v = "switch_to t shown bp v"
  have c: "?c < length (s_procs v)" "?c \<in> alive (forest_of v)"
    using d(1,3,10) d(6) [of "unat (s_active v)"] by (simp_all add: running_def)
  have v: "s_procs ?v = ?ps" "s_runs ?v = s_runs v" "s_active ?v = t" "s_shown ?v = shown"
    by (simp_all add: switch_to_def Let_def)
  have keep: "pr_present (?ps ! i) = pr_present (s_procs v ! i)" "pr_parent (?ps ! i) = pr_parent (s_procs v ! i)"
    "pr_pid (?ps ! i) = pr_pid (s_procs v ! i)" "pr_parent_ebp (?ps ! i) = pr_parent_ebp (s_procs v ! i)"
    "pr_esp0 (?ps ! i) = pr_esp0 (s_procs v ! i)" for i
    using c d(7) [OF c(2)] d(13) by (cases "i = ?c"; simp)+
  have n: "?n < MAX_PROCESS" "?n \<in> alive (forest_of v)" using d(6) assms(2) by simp_all
  show f: "forest_of ?v = forest_of v" using keep by (intro forest_of_cong) (simp_all add: v)
  have rb: "run_by ?v = run_by v" by (simp add: fun_eq_iff run_by_def v)
  show r: "running ?v = ?n" by (simp add: running_def rb v)
  have m: "s_map ?v = set_user_page (2 + of_nat ?n)
      (kernel_pte_map VIDMEM_INDEX (set_page_base_address (video_frame t shown)) (s_map v))"
    using d(7) [OF n(2)] by (simp add: switch_to_def Let_def keep)
  have "user_dir_ok (s_map v)" using d(11) by (simp add: video_map_def)
  then have "user_page (s_map ?v) = 2 + of_nat ?n"
    unfolding m using small_user_page [OF n(1)] by (intro user_page_set) simp_all
  moreover have "video_map (s_map ?v) (video_frame t shown)"
    unfolding m using video_map_set [OF d(11) video_frame_bits] assms(2) by simp
  moreover have "s_kstack ?v = pcb_addr ?n + KERNEL_STACK_SIZE"
    using d(7) [OF n(2)] by (simp add: switch_to_def Let_def keep)
  moreover have st: "in_stack (run_by v u) (pr_ebp (?ps ! run_by v u))" if "u < TERMINAL_COUNT" for u
  proof (cases "run_by v u = ?c")
    case True
    then show ?thesis using c assms(4) by simp
  next
    case False
    then have "u \<noteq> unat (s_active v)" by (auto simp: running_def)
    then show ?thesis using d(9) [OF that] False by simp
  qed
  ultimately show "view_ok ?v"
    using d(1,2,5,7,8) assms(2,3) unfolding view_ok_def f r rb v by (simp add: keep)
  show "u < TERMINAL_COUNT \<Longrightarrow> in_stack (run_by v u) (pr_ebp (s_procs ?v ! run_by v u))" using st v by simp
qed

section \<open>The kernel refines it\<close>

lemma sched_of_simps [simp]:
  "sched_of (s\<lparr>ports := io\<rparr>) = sched_of s" "sched_of (s\<lparr>screen_x := x\<rparr>) = sched_of s"
  "sched_of (s\<lparr>screen_y := x\<rparr>) = sched_of s" "sched_of (s\<lparr>phys := m\<rparr>) = sched_of s"
  "sched_of (s\<lparr>ebp := a\<rparr>) = sched_of s" "sched_of (s\<lparr>esp := a\<rparr>) = sched_of s" "sched_of (s\<lparr>iflag := b\<rparr>) = sched_of s"
  "sched_of (s\<lparr>pics := q\<rparr>) = sched_of s" "sched_of (s\<lparr>tss_ss0 := h\<rparr>) = sched_of s"
  "sched_of (s\<lparr>exception_occurred := z\<rparr>) = sched_of s"
  by (simp_all add: sched_of_def)

lemma stack_word:
  assumes "kernel_dir (mmu s)" "0x400000 \<le> unat x" "unat x + 4 \<le> 0x800000"
  shows "vload32 x s = Some (of_le32 (map (\<lambda>k. phys s (x + of_nat k)) [0..<4]))"
proof -
  have "mapped s x 4 x"
    unfolding mapped_def
  proof (intro allI impI)
    fix k :: nat assume "k < 4"
    moreover from this have "unat (x + of_nat k) = unat x + k" using assms(3) by (simp add: unat_word_ariths unat_of_nat)
    ultimately show "translate (mmu s) (x + of_nat k) = Some (x + of_nat k)"
      using assms(2,3) by (intro translate_kernel [OF assms(1)]) simp_all
  qed
  from copy_in_mapped [OF this] show ?thesis by (simp add: vload32_def slice_opt_def)
qed

lemma in_stack_bounds:
  assumes "in_stack i a"
  shows "0x400000 \<le> unat a" "unat a + 8 < 0x800000" "unat (a + 4) = unat a + 4"
proof -
  have i: "i < MAX_PROCESS" and u: "unat (pcb_addr i) + 8 \<le> unat a" "unat a + 8 < unat (pcb_addr i) + 0x2000"
    using assms by (auto simp: in_stack_def)
  show b: "0x400000 \<le> unat a" "unat a + 8 < 0x800000" using u unat_pcb_addr [OF i] i by simp_all
  show "unat (a + 4) = unat a + 4" using b by (simp add: unat_word_ariths)
qed

lemma leave_ret_ok:
  assumes "kernel_dir (mmu s)" "in_stack i a"
  shows "\<exists>b eip. vload32 a s = Some b \<and> vload32 (a + 4) s = Some eip \<and> leave_ret a s = Some (eip, s\<lparr>ebp := b, esp := a + 8\<rparr>)"
  using stack_word [OF assms(1)] in_stack_bounds [OF assms(2)] by (simp add: leave_ret_def)

text \<open>What is stored outside the pages of the kernel changes no frame on a kernel stack.\<close>

lemma stack_word_cong:
  assumes "kernel_dir (mmu s)" "kernel_dir (mmu r)" "in_stack i a" "\<And>x. 0x400000 \<le> unat x \<Longrightarrow> unat x < 0x800000 \<Longrightarrow> phys r x = phys s x"
  shows "vload32 a r = vload32 a s" "vload32 (a + 4) r = vload32 (a + 4) s"
proof -
  have w: "vload32 x r = vload32 x s" if x: "0x400000 \<le> unat x" "unat x + 4 \<le> 0x800000" for x
  proof -
    have "phys r (x + of_nat k) = phys s (x + of_nat k)" if "k < 4" for k
    proof -
      have "unat (x + of_nat k) = unat x + k" using x that by (simp add: unat_word_ariths unat_of_nat)
      then show ?thesis using assms(4) x that by simp
    qed
    then have "map (\<lambda>k. phys r (x + of_nat k)) [0..<4] = map (\<lambda>k. phys s (x + of_nat k)) [0..<4]" by (intro map_cong refl) simp
    then show ?thesis using stack_word [OF assms(1) x] stack_word [OF assms(2) x] by (simp only:)
  qed
  show "vload32 a r = vload32 a s" "vload32 (a + 4) r = vload32 (a + 4) s"
    using in_stack_bounds [OF assms(3)] by (auto intro!: w)
qed

text \<open>The state after \<^verbatim>\<open>change_process\<close> from process \<open>c\<close> to process \<open>n\<close>.\<close>

definition suspended :: "nat \<Rightarrow> kstate \<Rightarrow> pcb_t list" where
  "suspended c s = (pcbs s)[c := (pcbs s ! c)\<lparr>p_ebp := ebp s, p_esp0 := tss_esp0 s\<rparr>]"

definition changed :: "nat \<Rightarrow> nat \<Rightarrow> kstate \<Rightarrow> kstate" where
  "changed c n s = s\<lparr>pcbs := suspended c s, tss_esp0 := p_esp0 (suspended c s ! n),
     mmu := user_pte_map VIDMEM_INDEX (set_present (ucast (p_vidmap (suspended c s ! n))))
       (set_user_page (2 + p_pid (suspended c s ! n)) (mmu s))\<rparr>"

lemma change_process_eq:
  assumes "current s = Some c" "c < length (pcbs s)" "n < length (pcbs s)"
  shows "change_process n s = Some (changed c n s)"
  using assms by (simp add: change_process_def changed_def suspended_def map_pcb_eq get_pcb_def nth_opt_Some map_mmu_def)

lemma changed_simps [simp]:
  "pcbs (changed c n s) = suspended c s" "terms (changed c n s) = terms s" "screen_x (changed c n s) = screen_x s"
  "screen_y (changed c n s) = screen_y s" "phys (changed c n s) = phys s" "active_term_id (changed c n s) = active_term_id s"
  "shown_term_id (changed c n s) = shown_term_id s" "iflag (changed c n s) = iflag s"
  "ports (changed c n s) = ports s" "disk (changed c n s) = disk s" "length (suspended c s) = length (pcbs s)"
  by (simp_all add: changed_def suspended_def)

lemma set_video_pages_simps [simp]:
  "pcbs (set_video_pages f s) = pcbs s" "terms (set_video_pages f s) = terms s" "screen_x (set_video_pages f s) = screen_x s"
  "screen_y (set_video_pages f s) = screen_y s" "phys (set_video_pages f s) = phys s" "ports (set_video_pages f s) = ports s"
  "active_term_id (set_video_pages f s) = active_term_id s" "shown_term_id (set_video_pages f s) = shown_term_id s"
  "esp (set_video_pages f s) = esp s" "ebp (set_video_pages f s) = ebp s" "tss_esp0 (set_video_pages f s) = tss_esp0 s"
  "mmu (set_video_pages f s) = user_pte_map VIDMEM_INDEX (set_page_base_address f)
     (kernel_pte_map VIDMEM_INDEX (set_page_base_address f) (mmu s))"
  by (simp_all add: set_video_pages_def map_mmu_def Let_def)

text \<open>What both ways of switching have done to the state before they change the process.\<close>

definition prepared :: "u32 \<Rightarrow> u32 \<Rightarrow> kstate \<Rightarrow> kstate \<Rightarrow> bool" where
  "prepared t shown s r \<longleftrightarrow> pcbs r = pcbs s \<and> map t_pid (terms r) = map t_pid (terms s) \<and> active_term_id r = t \<and>
     shown_term_id r = shown \<and> esp r = esp s \<and> ebp r = ebp s \<and> tss_esp0 r = tss_esp0 s \<and>
     mmu r = user_pte_map VIDMEM_INDEX (set_page_base_address (video_frame t shown))
       (kernel_pte_map VIDMEM_INDEX (set_page_base_address (video_frame t shown)) (mmu s))"

lemma paging_without_user_table [simp]:
  "(user_pte_map i f p)\<lparr>page_table_user_vidmem := []\<rparr> = p\<lparr>page_table_user_vidmem := []\<rparr>"
  "(kernel_pte_map i f p)\<lparr>page_table_user_vidmem := []\<rparr> = kernel_pte_map i f (p\<lparr>page_table_user_vidmem := []\<rparr>)"
  "(set_user_page n p)\<lparr>page_table_user_vidmem := []\<rparr> = set_user_page n (p\<lparr>page_table_user_vidmem := []\<rparr>)"
  "kernel_dir (p\<lparr>page_table_user_vidmem := []\<rparr>) = kernel_dir p"
  "video_dir (p\<lparr>page_table_user_vidmem := []\<rparr>) = video_dir p"
  "user_dir_ok (p\<lparr>page_table_user_vidmem := []\<rparr>) = user_dir_ok p"
  "frame_at (p\<lparr>page_table_user_vidmem := []\<rparr>) i g = frame_at p i g"
  "user_page (p\<lparr>page_table_user_vidmem := []\<rparr>) = user_page p"
  by (simp_all add: user_pte_map_def kernel_pte_map_def set_user_page_def page_dir_map_def kernel_dir_def video_dir_def
      user_dir_ok_def frame_at_def user_page_def)

lemma video_map_without [simp]: "video_map (p\<lparr>page_table_user_vidmem := []\<rparr>) f = video_map p f"
  by (simp add: video_map_def)

lemma sched_of_fields [simp]:
  "s_procs (sched_of s) = map proc_of (pcbs s)" "s_runs (sched_of s) = map t_pid (terms s)"
  "s_active (sched_of s) = active_term_id s" "s_shown (sched_of s) = shown_term_id s"
  "s_map (sched_of s) = (mmu s)\<lparr>page_table_user_vidmem := []\<rparr>" "s_kstack (sched_of s) = tss_esp0 s"
  by (simp_all add: sched_of_def)

lemma sched_okD:
  assumes "sched_ok s"
  shows "length (pcbs s) = MAX_PROCESS" "length (terms s) = TERMINAL_COUNT" "kernel_dir (mmu s)" "video_dir (mmu s)"
    "unat (active_term_id s) < TERMINAL_COUNT" "unat (shown_term_id s) < TERMINAL_COUNT"
    "running (sched_of s) < MAX_PROCESS" "t < TERMINAL_COUNT \<Longrightarrow> unat (t_pid (terms s ! t)) < MAX_PROCESS"
proof -
  note d = view_okD [OF assms [unfolded sched_ok_def]]
  show l: "length (pcbs s) = MAX_PROCESS" "length (terms s) = TERMINAL_COUNT" using d(1,2) by simp_all
  show "t < TERMINAL_COUNT \<Longrightarrow> unat (t_pid (terms s ! t)) < MAX_PROCESS"
    using d(6) [of t] l(2) by (simp add: run_by_def)
qed (use view_okD [OF assms [unfolded sched_ok_def]] in \<open>simp_all add: video_map_def\<close>)

text \<open>Changing the process in a prepared state is the abstract switch.\<close>

lemma change_prepared:
  assumes "sched_ok s" "entered s" "prepared t shown s r" "unat t < TERMINAL_COUNT" "unat shown < TERMINAL_COUNT"
  defines "n \<equiv> unat (t_pid (terms s ! unat t))"
  shows "pcb_of_pid (t_pid (terms s ! unat t)) r = Some n" "change_process n r = Some (changed (running (sched_of s)) n r)"
    and "sched_of (changed (running (sched_of s)) n r) = switch_to t shown (ebp s) (sched_of s)"
    and "sched_ok (changed (running (sched_of s)) n r)" "n < MAX_PROCESS"
proof -
  note p = assms(3) [unfolded prepared_def] and d = sched_okD [OF assms(1)]
  let ?c = "running (sched_of s)"
  show n: "n < MAX_PROCESS" unfolding n_def by (rule d(8) [OF assms(4)])
  have "current s = Some ?c" using assms(2) current_on_stack by (simp add: entered_def)
  then have c: "current r = Some ?c" using p by (simp add: current_def get_current_pcb_def)
  show "pcb_of_pid (t_pid (terms s ! unat t)) r = Some n"
    using p n d(1) by (simp add: pcb_of_pid_def get_pcb_def nth_opt_Some n_def)
  show "change_process n r = Some (changed ?c n r)"
    using c p d(1,7) n by (intro change_process_eq) simp_all
  have nb: "n = run_by (sched_of s) (unat t)" using assms(4) d(2) by (simp add: n_def run_by_def)
  show e: "sched_of (changed ?c n r) = switch_to t shown (ebp s) (sched_of s)"
    using p d(1,7) n unfolding switch_to_def Let_def nb [symmetric]
    by (simp add: sched_of_def changed_def suspended_def map_update proc_of_def nth_list_update)
  show "sched_ok (changed ?c n r)"
    unfolding sched_ok_def e
    using view_ok_switch(1) [OF assms(1) [unfolded sched_ok_def] assms(4,5)] assms(2) by (simp add: entered_def)
qed

section \<open>The timer interrupt\<close>

lemma unat_next_terminal: "unat t < TERMINAL_COUNT \<Longrightarrow> unat (next_terminal t) = (unat t + 1) mod TERMINAL_COUNT"
  by (drule terminal_cases) (auto simp: next_terminal_def)

lemma next_terminal_other: "unat t < TERMINAL_COUNT \<Longrightarrow> unat (next_terminal t) < TERMINAL_COUNT \<and> unat (next_terminal t) \<noteq> unat t"
  by (drule terminal_cases) (auto simp: next_terminal_def)

definition save_cursor :: "kstate \<Rightarrow> terminal_t list" where
  "save_cursor s = (terms s)[unat (active_term_id s) := (terms s ! unat (active_term_id s))
     \<lparr>t_cursor_x := screen_x s, t_cursor_y := screen_y s\<rparr>]"

lemma save_cursor_pids [simp]: "map t_pid (save_cursor s) = map t_pid (terms s)"
  by (cases "unat (active_term_id s) < length (terms s)")
     (simp_all add: save_cursor_def map_update list_update_same_conv list_update_beyond)

definition pit_end ::
    "(file_t list \<Rightarrow> file_t list) \<Rightarrow> u32 \<Rightarrow> terminal_t \<Rightarrow> kstate \<Rightarrow> (switched \<times> kstate) option" where
  "pit_end clobber here u r = do {
     n \<leftarrow> pcb_of_pid (t_pid u) r;
     r \<leftarrow> change_process n r;
     p \<leftarrow> get_pcb n r;
     if t_to_be_halt u \<noteq> 0 then interrupted clobber here (p_ebp p) r else resume (p_ebp p) r
   }"

lemma pit_prepared:
  assumes "sched_ok s"
  defines "t \<equiv> next_terminal (active_term_id s)"
  shows "\<exists>r. prepared t (shown_term_id s) s r \<and> terms r = save_cursor s \<and> phys r = phys s \<and>
    screen_x r = t_cursor_x (terms s ! unat t) \<and> screen_y r = t_cursor_y (terms s ! unat t) \<and>
    pit_handler clobber here s = pit_end clobber here (terms s ! unat t) r"
proof -
  note d = sched_okD [OF assms(1)]
  note t = next_terminal_other [OF d(5), folded t_def]
  let ?u = "terms s ! unat t"
  let ?s1 = "s\<lparr>ports := send_eoi 0 (ports s), terms := save_cursor s\<rparr>"
  let ?s2 = "if t = shown_term_id s then move_cursor (t_cursor_x ?u) (t_cursor_y ?u) (set_video_pages (of_nat VIDMEM_INDEX) ?s1)
    else set_video_pages (video_page_of t) ?s1"
  let ?r = "(set_screen_coordinate (t_cursor_x ?u) (t_cursor_y ?u) ?s2)\<lparr>active_term_id := t\<rparr>"
  have m: "set_term_cursor (active_term_id s) (screen_x s) (screen_y s) (s\<lparr>ports := send_eoi 0 (ports s)\<rparr>) = Some ?s1"
    using d(2,5) by (simp add: set_term_cursor_def map_term_eq save_cursor_def)
  have g: "get_term t ?s1 = Some ?u"
    using d(2) t by (simp add: get_term_def nth_opt_Some save_cursor_def)
  have "prepared t (shown_term_id s) s ?r"
    by (simp add: prepared_def set_screen_coordinate_def move_cursor_def video_frame_def)
  moreover have "terms ?r = save_cursor s" "phys ?r = phys s" "screen_x ?r = t_cursor_x ?u" "screen_y ?r = t_cursor_y ?u"
    by (simp_all add: set_screen_coordinate_def move_cursor_def)
  moreover have "pit_handler clobber here s = pit_end clobber here ?u ?r"
    using m g by (simp add: pit_handler_def get_screen_coordinate_def t_def [symmetric] pit_end_def Let_def)
  ultimately show ?thesis by blast
qed

lemma pit_handler_eq:
  assumes "sched_ok s" "entered s"
  defines "t \<equiv> next_terminal (active_term_id s)"
  assumes "t_to_be_halt (terms s ! unat t) = 0"
  shows "\<exists>eip s'. pit_handler clobber here s = Some (Switched eip, s') \<and> sched_ok s' \<and>
    sched_of s' = switch_to t (shown_term_id s) (ebp s) (sched_of s) \<and> terms s' = save_cursor s \<and> phys s' = phys s \<and>
    screen_x s' = t_cursor_x (terms s ! unat t) \<and> screen_y s' = t_cursor_y (terms s ! unat t) \<and>
    esp s' = p_ebp (pcbs s ! unat (t_pid (terms s ! unat t))) + 8"
proof -
  note d = sched_okD [OF assms(1)] and v = view_okD [OF assms(1) [unfolded sched_ok_def]]
  note t = next_terminal_other [OF d(5), folded t_def]
  let ?n = "unat (t_pid (terms s ! unat t))" and ?c = "running (sched_of s)"
  obtain r where r: "prepared t (shown_term_id s) s r" "terms r = save_cursor s" "phys r = phys s"
      "screen_x r = t_cursor_x (terms s ! unat t)" "screen_y r = t_cursor_y (terms s ! unat t)"
      "pit_handler clobber here s = pit_end clobber here (terms s ! unat t) r"
    using pit_prepared [OF assms(1), of clobber here, folded t_def] by blast
  note c = change_prepared [OF assms(1,2) r(1) conjunct1 [OF t] d(6)]
  have n: "?n = run_by (sched_of s) (unat t)" using d(2) t by (simp add: run_by_def)
  have "?n \<noteq> ?c"
    using wf_forestD(5) [OF v(5), of "unat t" "unat (active_term_id s)"] t d(5) by (auto simp: n running_def)
  then have e: "p_ebp (pcbs (changed ?c ?n r) ! ?n) = p_ebp (pcbs s ! ?n)"
    using r(1) by (simp add: suspended_def prepared_def)
  have "in_stack ?n (p_ebp (pcbs s ! ?n))"
    using v(9) [of "unat t"] t c(5) d(1) unfolding n [symmetric] by (simp add: proc_of_def)
  moreover have "kernel_dir (mmu (changed ?c ?n r))" using sched_okD(3) [OF c(4)] .
  ultimately obtain b eip where l: "leave_ret (p_ebp (pcbs s ! ?n)) (changed ?c ?n r) =
      Some (eip, (changed ?c ?n r)\<lparr>ebp := b, esp := p_ebp (pcbs s ! ?n) + 8\<rparr>)"
    using leave_ret_ok by blast
  have g: "get_pcb ?n (changed ?c ?n r) = Some (pcbs (changed ?c ?n r) ! ?n)"
    using sched_okD(1) [OF c(4)] c(5) by (simp only: get_pcb_def nth_opt_Some)
  have "pit_handler clobber here s = Some (Switched eip, (changed ?c ?n r)\<lparr>ebp := b, esp := p_ebp (pcbs s ! ?n) + 8\<rparr>)"
    unfolding r(6) pit_end_def c(1) bind.bind_lunit c(2) g using assms(4) e l by (simp add: resume_def)
  then show ?thesis using c(3,4) r(2-5) by (simp add: sched_ok_def)
qed

section \<open>Switching the terminal\<close>

definition page_bytes :: "u32 \<Rightarrow> mem \<Rightarrow> u8 list" where
  "page_bytes f m = map (\<lambda>k. m (push_bit 12 f + of_nat k)) [0..<4096]"

text \<open>Where the screen of terminal \<open>t\<close> is kept.\<close>

definition screen_of :: "u32 \<Rightarrow> kstate \<Rightarrow> u8 list" where
  "screen_of t s = page_bytes (video_frame t (shown_term_id s)) (phys s)"

lemma length_page_bytes [simp]: "length (page_bytes f m) = 4096"
  by (simp add: page_bytes_def)

lemma page_bytes_other:
  assumes "f \<noteq> g" "length bs = 4096" "unat f < 0x1000" "unat g < 0x1000"
  shows "page_bytes f (put_bytes (push_bit 12 g) bs m) = page_bytes f m"
  unfolding page_bytes_def
proof (rule map_cong [OF refl])
  fix k assume "k \<in> set [0..<4096]"
  then have k: "k < 4096" by simp
  have uf: "unat (push_bit 12 f + of_nat k) = unat f * 4096 + k"
    using assms(3) k by (simp add: push_bit_eq_mult unat_word_ariths unat_of_nat)
  have ug: "unat (push_bit 12 g) = unat g * 4096"
    using assms(4) by (simp add: push_bit_eq_mult unat_word_ariths)
  have "unat f \<noteq> unat g" using assms(1) by (metis unsigned_word_eqI)
  then have "\<not> unat (push_bit 12 f + of_nat k - push_bit 12 g) < 4096"
    unfolding unat_sub_wrap uf ug using k assms(3,4) by (cases "unat f < unat g") auto
  then show "put_bytes (push_bit 12 g) bs m (push_bit 12 f + of_nat k) = m (push_bit 12 f + of_nat k)"
    using put_bytes_at [of bs] assms(2) by simp
qed

lemma page_bytes_same:
  assumes "length bs = 4096"
  shows "page_bytes f (put_bytes (push_bit 12 f) bs m) = bs"
  by (rule nth_equalityI) (use assms in \<open>simp_all add: page_bytes_def put_bytes_at unat_of_nat_small\<close>)

lemma copy_page_eq:
  assumes "video_map (mmu s) h" "frame_at (mmu s) i f" "frame_at (mmu s) j g" "i < PAGING_COUNT" "j < PAGING_COUNT"
  shows "copy_page (of_nat (j * 4096)) (of_nat (i * 4096)) s =
    Some (s\<lparr>phys := put_bytes (push_bit 12 g) (page_bytes f (phys s)) (phys s)\<rparr>)"
proof -
  have "copy_in (of_nat (i * 4096)) 4096 s = page_bytes f (phys s)"
    unfolding page_bytes_def by (rule copy_in_mapped [OF video_map_mapped [OF assms(1,2,4)]]) simp
  moreover have "copy_out (of_nat (j * 4096)) (page_bytes f (phys s)) s =
      Some (s\<lparr>phys := put_bytes (push_bit 12 g) (page_bytes f (phys s)) (phys s)\<rparr>)"
    by (rule copy_out_eq [OF video_map_mapped [OF assms(1,3,5)]]) simp
  ultimately show ?thesis by (simp add: copy_page_def slice_opt_def del: of_nat_mult)
qed

text \<open>The hidden page of terminal \<open>t\<close>.\<close>

lemma hidden_page:
  assumes "video_map p h" "unat t < TERMINAL_COUNT"
  shows "frame_at p (VIDMEM_INDEX + unat t + 2) (video_page_of t)" "VIDEO + (t + 2) * VIDEO_SIZE = of_nat ((VIDMEM_INDEX + unat t + 2) * 4096)"
  using terminal_cases [OF assms(2)] assms(1) by (auto simp: video_map_def video_page_of_def)

text \<open>The memory after the two copies.\<close>

definition swapped :: "u32 \<Rightarrow> kstate \<Rightarrow> mem" where
  "swapped t s =
     (let m = put_bytes (push_bit 12 (video_page_of (shown_term_id s))) (page_bytes 0xB8 (phys s)) (phys s)
      in put_bytes (push_bit 12 0xB8) (page_bytes (video_page_of t) m) m)"

lemma video_pages_differ:
  "unat t < TERMINAL_COUNT \<Longrightarrow> unat u < TERMINAL_COUNT \<Longrightarrow> t \<noteq> u \<Longrightarrow> video_page_of t \<noteq> video_page_of u"
  "unat t < TERMINAL_COUNT \<Longrightarrow> video_page_of t \<noteq> 0xB8 \<and> unat (video_page_of t) < 0x1000"
  by (drule terminal_cases; auto simp: video_page_of_def)+

lemma swapped_screens:
  assumes "unat (shown_term_id s) < TERMINAL_COUNT" "unat t < TERMINAL_COUNT" "t \<noteq> shown_term_id s"
    and "phys r = swapped t s" "shown_term_id r = t" "unat u < TERMINAL_COUNT"
  shows "screen_of u r = screen_of u s"
proof -
  note d = video_pages_differ(2) [OF assms(1)] video_pages_differ(2) [OF assms(2)] video_pages_differ(2) [OF assms(6)]
  let ?m = "put_bytes (push_bit 12 (video_page_of (shown_term_id s))) (page_bytes 0xB8 (phys s)) (phys s)"
  have m: "page_bytes f ?m = (if f = video_page_of (shown_term_id s) then page_bytes 0xB8 (phys s) else page_bytes f (phys s))"
    if "unat f < 0x1000" for f
    using page_bytes_other [of f "video_page_of (shown_term_id s)"] page_bytes_same d(1) that by auto
  have n: "page_bytes f (swapped t s) = (if f = 0xB8 then page_bytes (video_page_of t) ?m else page_bytes f ?m)"
    if "unat f < 0x1000" for f
    using page_bytes_other [of f "0xB8"] page_bytes_same [of _ "0xB8"] that by (auto simp: swapped_def Let_def)
  show ?thesis
    using m n d video_pages_differ(1) [OF assms(2,1,3)] video_pages_differ(1) [OF assms(6,1)] assms(3,5)
    by (auto simp: screen_of_def video_frame_def assms(4))
qed

lemma swapped_above:
  assumes "unat (shown_term_id s) < TERMINAL_COUNT" "0x400000 \<le> unat x"
  shows "swapped t s x = phys s x"
proof -
  have n: "\<not> unat (x - push_bit 12 f) < 4096" if "unat f < 0x100" for f :: u32
  proof -
    have "unat (push_bit 12 f) = unat f * 4096" using that by (simp add: push_bit_eq_mult unat_word_ariths)
    then show ?thesis using that assms(2) unfolding unat_sub_wrap by simp
  qed
  have "unat (video_page_of (shown_term_id s)) < 0x100" using terminal_cases [OF assms(1)] by (auto simp: video_page_of_def)
  then show ?thesis using n [of "0xB8"] n [of "video_page_of (shown_term_id s)"]
    by (simp add: swapped_def Let_def put_bytes_at)
qed

text \<open>The frame that process \<open>n\<close> left on its kernel stack: that of the call made now, or the one saved when it was left.\<close>

definition saved_frame :: "nat \<Rightarrow> kstate \<Rightarrow> u32" where
  "saved_frame n s = (if n = running (sched_of s) then ebp s else p_ebp (pcbs s ! n))"

lemma mmu_iflag: "mmu (s\<lparr>iflag := b\<rparr>) = mmu s"
  by simp

lemma switch_terminal_eq:
  assumes "sched_ok s" "entered s" "unat t < TERMINAL_COUNT" "t \<noteq> shown_term_id s"
  shows "\<exists>eip s'. switch_terminal t s = Some (Some eip, s') \<and> sched_ok s' \<and>
    sched_of s' = switch_to t t (ebp s) (sched_of s) \<and> terms s' = save_cursor s \<and> phys s' = swapped t s \<and>
    screen_x s' = t_cursor_x (save_cursor s ! unat t) \<and> screen_y s' = t_cursor_y (save_cursor s ! unat t) \<and>
    ports s' = set_cursor_pos (screen_x s') (screen_y s') (ports s) \<and>
    (let a = saved_frame (unat (t_pid (terms s ! unat t))) s
     in vload32 a s = Some (ebp s') \<and> vload32 (a + 4) s = Some eip \<and> esp s' = a + 8)"
proof -
  note d = sched_okD [OF assms(1)] and v = view_okD [OF assms(1) [unfolded sched_ok_def]]
  let ?u = "save_cursor s ! unat t" and ?sh = "shown_term_id s"
  let ?n = "unat (t_pid (terms s ! unat t))" and ?c = "running (sched_of s)"
  have vm: "video_map (mmu s) (video_frame (active_term_id s) ?sh)" using v(11) by simp
  then have f9: "frame_at (mmu s) (VIDMEM_INDEX + 1) 0xB8" by (simp add: video_map_def)
  have b9: "VIDEO + VIDEO_SIZE = of_nat ((VIDMEM_INDEX + 1) * 4096)" by simp
  note h1 = hidden_page [OF vm d(6)] and h2 = hidden_page [OF vm assms(3)]
  let ?s0 = "s\<lparr>iflag := False\<rparr>"
  let ?m = "put_bytes (push_bit 12 (video_page_of ?sh)) (page_bytes 0xB8 (phys s)) (phys s)"
  let ?s1 = "?s0\<lparr>phys := ?m\<rparr>"
  let ?s2 = "?s0\<lparr>phys := swapped t s\<rparr>"
  have c1: "copy_page (VIDEO + (shown_term_id ?s0 + 2) * VIDEO_SIZE) (VIDEO + VIDEO_SIZE) ?s0 = Some ?s1"
    using copy_page_eq [of ?s0 _ "VIDMEM_INDEX + 1" "0xB8" "VIDMEM_INDEX + unat ?sh + 2" "video_page_of ?sh"] vm f9 h1(1) d(6)
    unfolding b9 kstate.simps h1(2) by simp
  have c2: "copy_page (VIDEO + VIDEO_SIZE) (VIDEO + (t + 2) * VIDEO_SIZE) ?s1 = Some ?s2"
    using copy_page_eq [of ?s1 _ "VIDMEM_INDEX + unat t + 2" "video_page_of t" "VIDMEM_INDEX + 1" "0xB8"] vm f9 h2(1) assms(3)
    unfolding b9 kstate.simps h2(2) by (simp add: swapped_def Let_def)
  let ?s3 = "?s2\<lparr>terms := save_cursor s\<rparr>"
  have c3: "set_term_cursor (active_term_id ?s2) (screen_x ?s2) (screen_y ?s2) ?s2 = Some ?s3"
    using d(2,5) by (simp add: set_term_cursor_def map_term_eq save_cursor_def)
  let ?s4 = "set_video_pages (of_nat VIDMEM_INDEX) ?s3"
  have lt: "unat t < length (save_cursor s)" using d(2) assms(3) by (simp add: save_cursor_def)
  have c4: "get_term t ?s4 = Some ?u" using lt by (simp add: get_term_def nth_opt_Some)
  let ?s5 = "move_cursor (t_cursor_x ?u) (t_cursor_y ?u) (set_screen_coordinate (t_cursor_x ?u) (t_cursor_y ?u) ?s4)"
  let ?r = "?s5\<lparr>active_term_id := t, shown_term_id := t\<rparr>"
  have tp: "t_pid ?u = t_pid (terms s ! unat t)"
    using lt nth_map [of "unat t" "save_cursor s" t_pid] nth_map [of "unat t" "terms s" t_pid] d(2) assms(3) by simp
  have r: "prepared t t s ?r"
    by (simp add: prepared_def set_screen_coordinate_def move_cursor_def video_frame_def)
  note c = change_prepared [OF assms(1,2) r assms(3) assms(3)]
  have c5: "pcb_of_pid (t_pid ?u) ?s5 = Some ?n"
    using c(1) unfolding tp by (simp add: pcb_of_pid_def get_pcb_def)
  let ?q = "changed ?c ?n ?r"
  have g: "get_pcb ?n ?q = Some (pcbs ?q ! ?n)"
    using sched_okD(1) [OF c(4)] c(5) by (simp only: get_pcb_def nth_opt_Some)
  have nb: "?n = run_by (sched_of s) (unat t)" using assms(3) d(2) by (simp add: run_by_def)
  have e: "in_stack ?c (ebp s)" using assms(2) by (simp add: entered_def)
  have "in_stack ?n (pr_ebp (s_procs (sched_of ?q) ! ?n))"
    using view_ok_switch(4) [OF assms(1) [unfolded sched_ok_def] assms(3,3) e assms(3)]
    unfolding c(3) nb [symmetric] .
  then have st: "in_stack ?n (p_ebp (pcbs ?q ! ?n))"
    unfolding sched_of_fields using sched_okD(1) [OF c(4)] c(5) by (simp only: nth_map) (simp add: proc_of_def)
  have kd: "kernel_dir (mmu (?q\<lparr>iflag := True\<rparr>))" unfolding mmu_iflag by (rule sched_okD(3) [OF c(4)])
  obtain b eip where w: "vload32 (p_ebp (pcbs ?q ! ?n)) (?q\<lparr>iflag := True\<rparr>) = Some b"
      "vload32 (p_ebp (pcbs ?q ! ?n) + 4) (?q\<lparr>iflag := True\<rparr>) = Some eip"
    and l: "leave_ret (p_ebp (pcbs ?q ! ?n)) (?q\<lparr>iflag := True\<rparr>) =
      Some (eip, ?q\<lparr>iflag := True, ebp := b, esp := p_ebp (pcbs ?q ! ?n) + 8\<rparr>)"
    using leave_ret_ok [OF kd st] by blast
  have "phys (?q\<lparr>iflag := True\<rparr>) x = phys s x" if "0x400000 \<le> unat x" for x
    using swapped_above [OF d(6) that] by (simp add: move_cursor_def set_screen_coordinate_def)
  note same = stack_word_cong [OF d(3) kd st this]
  have fr: "p_ebp (pcbs ?q ! ?n) = saved_frame ?n s"
    using d(1,7) r by (simp add: saved_frame_def suspended_def prepared_def nth_list_update)
  let ?s' = "?q\<lparr>iflag := True, ebp := b, esp := p_ebp (pcbs ?q ! ?n) + 8\<rparr>"
  have "switch_terminal t s = Some (Some eip, ?s')"
    using c2 c3 c4 c(2) c5 g l assms(4) unfolding switch_terminal_def if_not_P [OF assms(4)] Let_def c1 bind.bind_lunit
    by (simp add: get_screen_coordinate_def)
  moreover have "phys ?s' = swapped t s" "terms ?s' = save_cursor s"
    "screen_x ?s' = t_cursor_x ?u" "screen_y ?s' = t_cursor_y ?u"
    "ports ?s' = set_cursor_pos (t_cursor_x ?u) (t_cursor_y ?u) (ports s)"
    by (simp_all add: move_cursor_def set_screen_coordinate_def)
  moreover have "vload32 (saved_frame ?n s) s = Some (ebp ?s')" "vload32 (saved_frame ?n s + 4) s = Some eip"
    "esp ?s' = saved_frame ?n s + 8"
    using w same fr by simp_all
  ultimately show ?thesis using c(3,4) unfolding Let_def by (intro exI conjI) (assumption | simp add: sched_ok_def)+
qed

end
