(* ===== verification/KernelSteps.thy ===== *)
theory KernelSteps imports Scheduling begin

text \<open>
  The kernel as a transition system: the timer interrupt, the terminal switch, \<^verbatim>\<open>execute\<close> and \<^verbatim>\<open>halt\<close>, each taken on
  an entry from the running process, with anything in between that leaves the scheduler's state alone. Every
  reachable state satisfies the scheduler's invariant; the steps refine the process forest; and the timer
  gives every terminal its turn.
\<close>

section \<open>What leaves the scheduler alone\<close>

definition sched_frame :: "kstate \<Rightarrow> kstate \<Rightarrow> bool" where
  "sched_frame s s' \<longleftrightarrow> sched_of s' = sched_of s \<and> esp s' = esp s \<and> ebp s' = ebp s"

lemma sched_frame_refl [simp]: "sched_frame s s"
  by (simp add: sched_frame_def)

lemma sched_frame_trans: "sched_frame s s' \<Longrightarrow> sched_frame s' s'' \<Longrightarrow> sched_frame s s''"
  by (simp add: sched_frame_def)

lemma sched_frame_current: "sched_frame s s' \<Longrightarrow> current s' = current s"
  by (simp add: sched_frame_def current_def get_current_pcb_def)

lemma map_pcb_sched:
  assumes "map_pcb i f s = Some s'" "\<And>p. proc_of (f p) = proc_of p"
  shows "sched_frame s s'"
proof -
  have i: "i < length (pcbs s)" "s' = s\<lparr>pcbs := (pcbs s)[i := f (pcbs s ! i)]\<rparr>"
    using assms(1) by (auto simp: map_pcb_def get_pcb_def bind_eq_Some_conv)
  have "map proc_of (pcbs s') = map proc_of (pcbs s)"
    using i assms(2) by (simp add: map_update list_update_same_conv)
  then show ?thesis using i by (simp add: sched_frame_def sched_of_def)
qed

lemma map_term_sched:
  assumes "map_term t f s = Some s'" "\<And>u. t_pid (f u) = t_pid u"
  shows "sched_frame s s'"
proof -
  have i: "unat t < length (terms s)" "s' = s\<lparr>terms := (terms s)[unat t := f (terms s ! unat t)]\<rparr>"
    using assms(1) by (auto simp: map_term_def get_term_def bind_eq_Some_conv)
  have "map t_pid (terms s') = map t_pid (terms s)"
    using i assms(2) by (simp add: map_update list_update_same_conv)
  then show ?thesis using i by (simp add: sched_frame_def sched_of_def)
qed

lemma map_file_sched: "map_file i fd f s = Some s' \<Longrightarrow> sched_frame s s'"
  unfolding map_file_def bind_eq_Some_conv by (auto intro!: map_pcb_sched simp: proc_of_def)

lemma copy_out_phys: "copy_out a bs s = Some s' \<Longrightarrow> \<exists>m. s' = s\<lparr>phys := m\<rparr>"
proof (induction a bs s rule: copy_out.induct)
  case (1 a s)
  then show ?case by (intro exI [of _ "phys s"]) simp
next
  case (2 a b bs s)
  then obtain s1 where s1: "vstore a b s = Some s1" "copy_out (a + 1) bs s1 = Some s'" by (auto simp: bind_eq_Some_conv)
  then obtain m where "s1 = s\<lparr>phys := m\<rparr>" by (auto simp: vstore_def bind_eq_Some_conv)
  then show ?case using "2.IH" [OF s1] by auto
qed

lemma ops_close_sched: "ops_close ops fd s = Some (r, s') \<Longrightarrow> sched_frame s s'"
  by (cases ops; auto simp: null_close_def terminal_close_def file_close_def dir_close_def rtc_close_def bind_eq_Some_conv
      intro!: map_pcb_sched simp: proc_of_def)

lemma halt_file_sched: "halt_file i j s = Some s' \<Longrightarrow> sched_frame s s'"
  unfolding halt_file_def bind_eq_Some_conv
  by (auto split: if_splits simp: bind_eq_Some_conv intro: sched_frame_trans [OF ops_close_sched map_file_sched])

lemma halt_files_sched: "for_opt (halt_file i) js s = Some s' \<Longrightarrow> sched_frame s s'"
  by (rule for_opt_invariant [where I = "sched_frame s" and f = "halt_file i" and xs = js and s = s])
     (auto intro: sched_frame_trans halt_file_sched)

section \<open>Starting a process\<close>

definition spawned :: "nat \<Rightarrow> u32 \<Rightarrow> u32 \<Rightarrow> sched \<Rightarrow> sched" where
  "spawned n a bp v = v\<lparr>
     s_procs := (s_procs v)[n := (s_procs v ! n)\<lparr>pr_present := 1, pr_pid := of_nat n,
       pr_parent := (if n < TERMINAL_COUNT then 0 else a), pr_parent_ebp := bp,
       pr_esp0 := KERNEL_STACK - KERNEL_STACK_SIZE * of_nat n\<rparr>],
     s_runs := (s_runs v)[unat (s_active v) := of_nat n],
     s_map := set_up_paging n (s_map v), s_kstack := KERNEL_STACK - KERNEL_STACK_SIZE * of_nat n\<rparr>"

lemma load_program_phys: "load_program inode s = Some (e, s') \<Longrightarrow> \<exists>m. s' = s\<lparr>phys := m\<rparr>"
  unfolding load_program_def read_data_to_def
  by (auto simp: bind_eq_Some_conv split: prod.splits dest!: copy_out_phys)

lemma set_up_pcb_proc:
  "proc_of (set_up_pcb clobber n a bp arg p) = (proc_of p)\<lparr>pr_present := 1, pr_pid := of_nat n,
     pr_parent := (if n < TERMINAL_COUNT then 0 else a), pr_parent_ebp := bp,
     pr_esp0 := KERNEL_STACK - KERNEL_STACK_SIZE * of_nat n\<rparr>"
  by (simp add: proc_of_def set_up_pcb_def set_argv_def Let_def split: option.splits)

lemma paging_spawn [simp]:
  "(set_up_paging n p)\<lparr>page_table_user_vidmem := []\<rparr> = set_up_paging n (p\<lparr>page_table_user_vidmem := []\<rparr>)"
  by (simp add: set_up_paging_eq page_dir_map_def)

lemma start_process_inv:
  assumes "start_process clobber n inode arg s = Some (out, s')"
  shows "n < length (pcbs s) \<and> (\<exists>e. out = Enters_user e) \<and>
    sched_of s' = spawned n (get_current_pcb s) (ebp s) (sched_of s)"
proof -
  let ?f = "set_up_pcb clobber n (get_current_pcb s) (ebp s) arg"
  obtain s1 s2 entry s3 p where
    s: "map_pcb n ?f s = Some s1" "map_term (active_term_id s1) (\<lambda>u. u\<lparr>t_pid := of_nat n\<rparr>) s1 = Some s2"
      "load_program inode (map_mmu (set_up_paging n) s2) = Some (entry, s3)" "get_pcb n s3 = Some p"
      "out = Enters_user entry"
      "s' = s3\<lparr>tss_esp0 := p_esp0 p, tss_ss0 := KERNEL_DS, esp := USER_STACK, iflag := True\<rparr>"
    using assms by (auto simp: start_process_def bind_eq_Some_conv Let_def)
  have n: "n < length (pcbs s)" and s1: "s1 = s\<lparr>pcbs := (pcbs s)[n := ?f (pcbs s ! n)]\<rparr>"
    using s(1) by (auto simp: map_pcb_def get_pcb_def bind_eq_Some_conv)
  obtain m where m: "s3 = (map_mmu (set_up_paging n) s2)\<lparr>phys := m\<rparr>" using load_program_phys [OF s(3)] by blast
  have s2: "s2 = s1\<lparr>terms := (terms s)[unat (active_term_id s) := (terms s ! unat (active_term_id s))\<lparr>t_pid := of_nat n\<rparr>]\<rparr>"
    using s(2) s1 by (auto simp: map_term_def get_term_def bind_eq_Some_conv)
  have "p = ?f (pcbs s ! n)" using s(4) n by (auto simp: m s2 s1 get_pcb_def map_mmu_def nth_opt_Some)
  then have "sched_of s' = spawned n (get_current_pcb s) (ebp s) (sched_of s)"
    using n by (simp add: s(6) m s2 s1 map_mmu_def sched_of_def spawned_def map_update set_up_pcb_proc)
  then show ?thesis using n s(5) by blast
qed

lemma execute_inv:
  assumes "execute clobber cmd s = Some (out, s')"
  shows "(\<exists>v. out = Returns v \<and> sched_frame s s') \<or>
    (\<exists>e n. out = Enters_user e \<and> free_pid s = Some (Some n) \<and> n < length (pcbs s) \<and>
      sched_of s' = spawned n (get_current_pcb s) (ebp s) (sched_of s))"
proof -
  let ?s0 = "s\<lparr>iflag := False\<rparr>"
  have f: "sched_frame s ?s0" "get_current_pcb ?s0 = get_current_pcb s" "free_pid ?s0 = free_pid s"
    by (simp_all add: sched_frame_def get_current_pcb_def free_pid_def)
  have "(out = Returns (-1) \<and> (s' = s \<or> s' = ?s0)) \<or>
    (\<exists>inode n arg. free_pid ?s0 = Some (Some n) \<and> start_process clobber n inode arg ?s0 = Some (out, s'))"
    using assms unfolding execute_def Let_def
    by (auto split: option.splits prod.splits simp: bind_eq_Some_conv)
  then show ?thesis
    using start_process_inv [of clobber _ _ _ ?s0 out s'] f by auto
qed

lemma video_map_spawn: "video_map p f \<Longrightarrow> n < MAX_PROCESS \<Longrightarrow> video_map (set_up_paging n p) f \<and> user_page (set_up_paging n p) = 2 + of_nat n"
proof -
  assume p: "video_map p f" and n: "n < MAX_PROCESS"
  have u: "user_dir_ok p" using p by (simp add: video_map_def)
  have "video_map (set_up_paging n p) f"
    using p set_up_paging_window(2) [OF u n] unfolding video_map_def by (simp add: set_up_paging_eq)
  moreover have "user_page (set_up_paging n p) = 2 + of_nat n"
    using u small_user_page [OF n] by (simp add: user_page_def set_up_paging_eq user_dir_ok_def get_set_field_same)
  ultimately show ?thesis by simp
qed

lemma kernel_stack_top: "KERNEL_STACK - KERNEL_STACK_SIZE * of_nat n = pcb_addr n + KERNEL_STACK_SIZE"
  by (simp add: pcb_addr_def algebra_simps)

lemma pcb_index_null [simp]: "pcb_index 0 = None"
  by (simp add: pcb_index_def pcb_addr_def upt_rec)

lemma run_by_spawned:
  assumes "view_ok v" "n < MAX_PROCESS"
  shows "t < TERMINAL_COUNT \<Longrightarrow> run_by (spawned n a bp v) t = (if t = unat (s_active v) then n else run_by v t)"
    and "running (spawned n a bp v) = n"
  using view_okD(2,3) [OF assms(1)] assms(2) by (auto simp: run_by_def spawned_def running_def unat_of_nat_small nth_list_update)

text \<open>A new program below the running process.\<close>

lemma view_ok_spawned:
  assumes "view_ok v" "n < MAX_PROCESS" "pr_present (s_procs v ! n) = 0" "in_stack (running v) bp" "a = pcb_addr (running v)"
  shows "view_ok (spawned n a bp v) \<and> n \<notin> alive (forest_of v) \<and>
    forest_of (spawned n a bp v) = spawn n (unat (s_active v)) (forest_of v)"
proof -
  note d = view_okD [OF assms(1)] and w = wf_forestD [OF view_okD(5) [OF assms(1)]]
  let ?v = "spawned n a bp v" and ?t = "unat (s_active v)"
  have n: "n \<notin> alive (forest_of v)" using assms(3) by (simp add: forest_of_def)
  then have n3: "\<not> n < TERMINAL_COUNT" using w(2) by auto
  have procs: "s_procs ?v ! i = (if i = n then (s_procs v ! n)\<lparr>pr_present := 1, pr_pid := of_nat n, pr_parent := a,
      pr_parent_ebp := bp, pr_esp0 := pcb_addr n + KERNEL_STACK_SIZE\<rparr> else s_procs v ! i)" for i
    using d(1) assms(2) n3 by (simp add: spawned_def kernel_stack_top)
  note rb = run_by_spawned [OF assms(1,2), where a = a and bp = bp]
  have "run_by ?v t = ((run_by v)(?t := n)) t" for t
    using d(2,3) assms(2) by (simp add: run_by_def spawned_def unat_of_nat_small)
  then have "run_by ?v = (run_by v)(?t := n)" by blast
  moreover have "pcb_index a = Some (run_by v ?t)" using assms(5) d(10) by (simp add: running_def)
  ultimately have f: "forest_of ?v = spawn n ?t (forest_of v)"
    using assms(2) by (auto simp: forest_of_def spawn_def procs fun_eq_iff)
  have wf: "wf_forest (forest_of ?v)"
    unfolding f using d(3,5) n assms(2) by (intro wf_spawn)
  have al: "alive (forest_of ?v) = insert n (alive (forest_of v))" unfolding f by (simp add: spawn_def)
  have par: "parent_of (forest_of ?v) = (parent_of (forest_of v))(n := Some (running v))"
    unfolding f by (simp add: spawn_def running_def)
  note vm = video_map_spawn [OF d(11) assms(2)]
  have "view_ok ?v"
    unfolding view_ok_def
  proof (intro conjI ballI allI impI)
    fix i assume i: "i \<in> alive (forest_of ?v)"
    then show "pr_pid (s_procs ?v ! i) = of_nat i" "pr_esp0 (s_procs ?v ! i) = pcb_addr i + KERNEL_STACK_SIZE"
      using d(7) [of i] by (auto simp: al procs)
    fix k assume "parent_of (forest_of ?v) i = Some k"
    then show "in_stack k (pr_parent_ebp (s_procs ?v ! i))"
      using i d(8) [of i k] assms(4) by (auto simp: al par procs split: if_splits)
  next
    fix t assume t: "t < TERMINAL_COUNT" "t \<noteq> unat (s_active ?v)"
    then have u: "t \<noteq> ?t" by (simp add: spawned_def)
    have "run_by v t \<noteq> n" using d(6) [OF t(1)] n by auto
    then show "in_stack (run_by ?v t) (pr_ebp (s_procs ?v ! run_by ?v t))"
      using d(9) [OF t(1) u] rb(1) [OF t(1)] u by (simp add: procs)
  qed (use d(1-4) vm wf rb(2) in \<open>simp_all add: spawned_def kernel_stack_top\<close>)
  then show ?thesis using f n by simp
qed

section \<open>Ending a process\<close>

definition set_proc :: "nat \<Rightarrow> (proc \<Rightarrow> proc) \<Rightarrow> sched \<Rightarrow> sched" where
  "set_proc i f v = v\<lparr>s_procs := (s_procs v)[i := f (s_procs v ! i)]\<rparr>"

definition left_to :: "nat \<Rightarrow> sched \<Rightarrow> sched" where
  "left_to k v = v\<lparr>s_runs := (s_runs v)[unat (s_active v) := pr_pid (s_procs v ! k)],
     s_map := set_user_page (2 + pr_pid (s_procs v ! k)) (s_map v), s_kstack := pr_esp0 (s_procs v ! k)\<rparr>"

text \<open>The running process \<open>i\<close> is gone and its parent \<open>k\<close> runs again.\<close>

lemma view_ok_left:
  assumes "view_ok v" "parent_of (forest_of v) (running v) = Some k"
  defines "v' \<equiv> left_to k (set_proc (running v) (\<lambda>p. p\<lparr>pr_present := 0\<rparr>) v)"
  shows "view_ok v' \<and> forest_of v' = leave (unat (s_active v)) k (forest_of v)"
proof -
  note d = view_okD [OF assms(1)] and w = wf_forestD [OF view_okD(5) [OF assms(1)]]
  let ?i = "running v" and ?t = "unat (s_active v)"
  have i: "?i \<in> alive (forest_of v)" "?i < MAX_PROCESS" using d(6) [OF d(3)] by (simp_all add: running_def)
  have k: "k \<in> alive (forest_of v)" "k < MAX_PROCESS" using w(6) [OF i(1) assms(2)] w(1) by auto
  have ki: "k \<noteq> ?i" using w(7) [OF i(1) d(3)] assms(2) by (auto simp: running_def)
  have procs: "s_procs v' ! j = (if j = ?i then (s_procs v ! j)\<lparr>pr_present := 0\<rparr> else s_procs v ! j)" for j
    using d(1) i(2) by (simp add: v'_def left_to_def set_proc_def)
  have pk: "pr_pid (s_procs v ! k) = of_nat k" "pr_esp0 (s_procs v ! k) = pcb_addr k + KERNEL_STACK_SIZE"
    using d(7) [OF k(1)] by simp_all
  have rb: "run_by v' = (run_by v)(?t := k)"
    using d(1-3) ki k(2) i(2) by (auto simp: fun_eq_iff run_by_def v'_def left_to_def set_proc_def pk unat_of_nat_small)
  have f: "forest_of v' = leave ?t k (forest_of v)"
    using i(2) by (auto simp: forest_of_def leave_def procs rb running_def fun_eq_iff)
  have wf: "wf_forest (forest_of v')"
    unfolding f using d(3,5) assms(2) by (intro wf_leave) (simp_all add: running_def)
  have al: "alive (forest_of v') = alive (forest_of v) - {?i}" "parent_of (forest_of v') = parent_of (forest_of v)"
    unfolding f by (simp_all add: leave_def running_def)
  have map: "s_map v' = set_user_page (2 + of_nat k) (s_map v)" "s_kstack v' = pcb_addr k + KERNEL_STACK_SIZE"
    using ki i(2) d(1) pk by (simp_all add: v'_def left_to_def set_proc_def)
  have same: "s_active v' = s_active v" "s_shown v' = s_shown v" by (simp_all add: v'_def left_to_def set_proc_def)
  have "view_ok v'"
    unfolding view_ok_def
  proof (intro conjI ballI allI impI)
    fix j assume j: "j \<in> alive (forest_of v')"
    then show "pr_pid (s_procs v' ! j) = of_nat j" "pr_esp0 (s_procs v' ! j) = pcb_addr j + KERNEL_STACK_SIZE"
      using d(7) [of j] by (simp_all add: al procs)
    fix m assume "parent_of (forest_of v') j = Some m"
    then show "in_stack m (pr_parent_ebp (s_procs v' ! j))"
      using j d(8) [of j m] by (simp add: al procs)
  next
    fix t assume t: "t < TERMINAL_COUNT" "t \<noteq> unat (s_active v')"
    have "run_by v t \<noteq> ?i" using w(5) [OF t(1) d(3)] t(2) by (auto simp: running_def same)
    then show "in_stack (run_by v' t) (pr_ebp (s_procs v' ! run_by v' t))"
      using d(9) [OF t(1)] t(2) by (simp add: rb procs same)
  next
    show "length (s_procs v') = MAX_PROCESS" "length (s_runs v') = TERMINAL_COUNT"
      using d(1,2) by (simp_all add: v'_def left_to_def set_proc_def)
    show "user_page (s_map v') = 2 + of_nat (running v')"
      unfolding map running_def rb same
      using d(11) small_user_page [OF k(2)] by (simp add: user_page_set video_map_def)
    show "s_kstack v' = pcb_addr (running v') + KERNEL_STACK_SIZE" unfolding running_def rb same by (simp add: map)
    show "video_map (s_map v') (video_frame (s_active v') (s_shown v'))" unfolding map same using d(11) by simp
  qed (use d(3,4) wf in \<open>simp_all add: same\<close>)
  then show ?thesis using f by simp
qed

text \<open>A shell that ends is started again in its own slot.\<close>

lemma view_ok_restarted:
  fixes a bp :: u32
  assumes "view_ok v" "running v < TERMINAL_COUNT"
  defines "v' \<equiv> spawned (running v) a bp (set_proc (running v) (\<lambda>p. p\<lparr>pr_present := 0\<rparr>) v)"
  shows "view_ok v' \<and> forest_of v' = forest_of v"
proof -
  note d = view_okD [OF assms(1)] and w = wf_forestD [OF view_okD(5) [OF assms(1)]]
  let ?i = "running v" and ?t = "unat (s_active v)"
  have procs: "s_procs v' ! j = (if j = ?i then (s_procs v ! j)\<lparr>pr_present := 1, pr_pid := of_nat ?i, pr_parent := 0,
      pr_parent_ebp := bp, pr_esp0 := pcb_addr ?i + KERNEL_STACK_SIZE\<rparr> else s_procs v ! j)" for j
    using d(1) assms(2) by (simp add: v'_def spawned_def set_proc_def kernel_stack_top)
  have same: "s_active v' = s_active v" "s_shown v' = s_shown v" "length (s_procs v') = length (s_procs v)"
    "s_map v' = set_up_paging ?i (s_map v)" "s_kstack v' = pcb_addr ?i + KERNEL_STACK_SIZE" "length (s_runs v') = length (s_runs v)"
    by (simp_all add: v'_def spawned_def set_proc_def kernel_stack_top)
  have rb: "run_by v' = run_by v"
    using d(2,3) assms(2) by (auto simp: fun_eq_iff run_by_def v'_def spawned_def set_proc_def running_def nth_list_update)
  have "?i \<in> alive (forest_of v)" using w(2) [OF assms(2)] .
  moreover have "parent_of (forest_of v) ?i = None" by (rule w(3) [OF assms(2)])
  ultimately have f: "forest_of v' = forest_of v"
    by (auto simp: forest_of_def procs rb fun_eq_iff)
  have r: "running v' = ?i" by (simp add: running_def rb same)
  note vm = video_map_spawn [OF d(11) d(10)]
  have "view_ok v'"
    unfolding view_ok_def r f
  proof (intro conjI ballI allI impI)
    fix j assume j: "j \<in> alive (forest_of v)"
    then show "pr_pid (s_procs v' ! j) = of_nat j" "pr_esp0 (s_procs v' ! j) = pcb_addr j + KERNEL_STACK_SIZE"
      using d(7) [of j] by (simp_all add: procs)
    fix m assume m: "parent_of (forest_of v) j = Some m"
    then have "j \<noteq> ?i" using w(3) [OF assms(2)] by auto
    then show "in_stack m (pr_parent_ebp (s_procs v' ! j))" using d(8) [OF j m] by (simp add: procs)
  next
    fix t assume t: "t < TERMINAL_COUNT" "t \<noteq> unat (s_active v')"
    have "run_by v t \<noteq> ?i" using w(5) [OF t(1) d(3)] t(2) by (auto simp: running_def same)
    then show "in_stack (run_by v' t) (pr_ebp (s_procs v' ! run_by v' t))"
      using d(9) [OF t(1)] t(2) by (simp add: rb procs same)
  qed (use d(1-5) vm in \<open>simp_all add: same\<close>)
  then show ?thesis using f by simp
qed

lemma halt_to_parent_inv:
  assumes "halt_to_parent i status s = Some (out, s')" "i < length (pcbs s)"
  shows "\<exists>k. pcb_index (p_parent (pcbs s ! i)) = Some k \<and> sched_of s' = left_to k (sched_of s)"
proof -
  obtain k q s1 eip s2 where
    s: "pcb_index (p_parent (pcbs s ! i)) = Some k" "get_pcb k s = Some q"
      "map_term (active_term_id s) (\<lambda>u. u\<lparr>t_pid := p_pid q\<rparr>) s = Some s1"
      "leave_ret (p_parent_ebp (pcbs s ! i)) ((map_mmu (set_user_page (2 + p_pid q)) s1)
         \<lparr>tss_esp0 := p_esp0 q, tss_ss0 := KERNEL_DS, exception_occurred := 0, iflag := True\<rparr>) = Some (eip, s2)" "s' = s2"
    using assms by (auto simp: halt_to_parent_def bind_eq_Some_conv Let_def get_pcb_def)
  have k: "k < length (pcbs s)" "q = pcbs s ! k" using s(2) by (auto simp: get_pcb_def)
  have s1: "s1 = s\<lparr>terms := (terms s)[unat (active_term_id s) := (terms s ! unat (active_term_id s))\<lparr>t_pid := p_pid q\<rparr>]\<rparr>"
    using s(3) by (auto simp: map_term_def get_term_def bind_eq_Some_conv)
  have "sched_of s' = sched_of ((map_mmu (set_user_page (2 + p_pid q)) s1)\<lparr>tss_esp0 := p_esp0 q\<rparr>)"
    using s(4,5) by (auto simp: leave_ret_def bind_eq_Some_conv sched_of_def)
  also have "\<dots> = left_to k (sched_of s)"
    using k by (simp add: s1 map_mmu_def sched_of_def left_to_def map_update proc_of_def)
  finally show ?thesis using s(1) by blast
qed

lemma set_proc_twice: "set_proc i (\<lambda>p. p\<lparr>pr_present := 0\<rparr>) (set_proc i (\<lambda>p. p\<lparr>pr_present := 0\<rparr>) v) = set_proc i (\<lambda>p. p\<lparr>pr_present := 0\<rparr>) v"
  by (cases "i < length (s_procs v)") (simp_all add: set_proc_def list_update_beyond)

lemma map_pcb_gone:
  assumes "map_pcb i f s = Some s'" "\<And>p. proc_of (f p) = (proc_of p)\<lparr>pr_present := 0\<rparr>"
  shows "i < length (pcbs s) \<and> sched_of s' = set_proc i (\<lambda>p. p\<lparr>pr_present := 0\<rparr>) (sched_of s) \<and>
    esp s' = esp s \<and> length (pcbs s') = length (pcbs s)"
  using assms by (auto simp: map_pcb_def get_pcb_def bind_eq_Some_conv sched_of_def set_proc_def map_update)

lemma parent_of_sched: "i < MAX_PROCESS \<Longrightarrow> length (pcbs s) = MAX_PROCESS \<Longrightarrow>
    parent_of (forest_of (sched_of s)) i = pcb_index (p_parent (pcbs s ! i))"
  by (simp add: forest_of_def proc_of_def)

lemma present_sched: "i < MAX_PROCESS \<Longrightarrow> length (pcbs s) = MAX_PROCESS \<Longrightarrow>
    i \<in> alive (forest_of (sched_of s)) \<longleftrightarrow> p_present (pcbs s ! i) \<noteq> 0"
  by (simp add: forest_of_def proc_of_def)

text \<open>\<^verbatim>\<open>halt\<close> of the running process ends it in favour of its parent, or starts a shell again.\<close>

lemma halt_inv:
  assumes "sched_ok s" "current s = Some (running (sched_of s))" "halt clobber status s = Some (out, s')"
  shows "sched_ok s' \<and> (forest_of (sched_of s') = forest_of (sched_of s) \<or>
    (\<exists>k. parent_of (forest_of (sched_of s)) (running (sched_of s)) = Some k \<and>
      forest_of (sched_of s') = leave (unat (active_term_id s)) k (forest_of (sched_of s))))"
proof -
  note vok = assms(1) [unfolded sched_ok_def]
  note v = view_okD [OF vok] and w = wf_forestD [OF view_okD(5) [OF vok]] and d = sched_okD [OF assms(1)]
  let ?i = "running (sched_of s)" and ?gone = "\<lambda>p. p\<lparr>pr_present := 0\<rparr>"
  have al: "?i \<in> alive (forest_of (sched_of s))" using v(6) [OF v(3)] by (simp add: running_def)
  have cu: "current (s\<lparr>iflag := False\<rparr>) = Some ?i" using assms(2) by (simp add: current_def get_current_pcb_def)
  obtain s1 where s1: "map_pcb ?i (\<lambda>p. p\<lparr>p_present := 0, p_vidmap := 0, p_rtc := 0\<rparr>) (s\<lparr>iflag := False\<rparr>) = Some s1"
    using assms(3) unfolding halt_def Let_def cu bind.bind_lunit by (auto simp: bind_eq_Some_conv)
  obtain s2 where s2: "for_opt (halt_file ?i) [2..<8] s1 = Some s2"
    using assms(3) unfolding halt_def Let_def cu bind.bind_lunit s1 bind_eq_Some_conv by blast
  obtain s3 where s3: "map_term (active_term_id s2) (\<lambda>u. u\<lparr>t_to_be_halt := 0\<rparr>) s2 = Some s3"
    using assms(3) unfolding halt_def Let_def cu bind.bind_lunit s1 s2 bind_eq_Some_conv by blast
  obtain p where p: "get_pcb ?i s3 = Some p"
    using assms(3) unfolding halt_def Let_def cu bind.bind_lunit s1 s2 s3 bind_eq_Some_conv by blast
  note rest = assms(3) [unfolded halt_def Let_def cu bind.bind_lunit s1 s2 s3 p]
  have g1: "sched_of s1 = set_proc ?i ?gone (sched_of s)" "esp s1 = esp s"
    using map_pcb_gone [OF s1] by (simp_all add: proc_of_def)
  have fr: "sched_frame s1 s3"
    using halt_files_sched [OF s2] map_term_sched [OF s3] by (auto intro: sched_frame_trans)
  have g3: "sched_of s3 = set_proc ?i ?gone (sched_of s)" using fr g1 by (simp add: sched_frame_def)
  have l3: "length (pcbs s3) = MAX_PROCESS"
    using arg_cong [OF g3, of "\<lambda>v. length (s_procs v)"] d(1) by (simp add: set_proc_def)
  have pr: "map proc_of (pcbs s3) ! ?i = ?gone (map proc_of (pcbs s) ! ?i)"
    using arg_cong [OF g3, of "\<lambda>v. s_procs v ! ?i"] d(1) v(10) by (simp add: set_proc_def)
  have pp: "p = pcbs s3 ! ?i" using p by (auto simp: get_pcb_def)
  have ids: "p_pid p = of_nat ?i" "p_parent p = p_parent (pcbs s ! ?i)"
    using pr v(7) [OF al] d(1) l3 v(10) by (simp_all add: pp proc_of_def)
  have par: "parent_of (forest_of (sched_of s)) ?i = pcb_index (p_parent p)"
    using parent_of_sched [OF v(10) d(1)] ids(2) by simp
  have sp: "sint (p_pid p) = int ?i" using ids v(10) by (simp add: sint_small)
  show ?thesis
  proof (cases "?i < TERMINAL_COUNT")
    case False
    then have "halt_to_parent ?i status s3 = Some (out, s')" using rest sp by simp
    from halt_to_parent_inv [OF this] l3 v(10) obtain k where
      k: "pcb_index (p_parent p) = Some k" "sched_of s' = left_to k (set_proc ?i ?gone (sched_of s))"
      by (auto simp: pp g3)
    then show ?thesis using view_ok_left [OF vok, of k] par by (simp add: sched_ok_def)
  next
    case True
    have np: "pcb_index (p_parent p) = None" using w(3) [OF True] par by simp
    obtain s4 r s5 where s4: "map_pcb ?i (\<lambda>p. p\<lparr>p_present := 0\<rparr>) s3 = Some s4"
      and s5: "execute clobber (Some (map of_char ''shell'')) s4 = Some (r, s5)"
      and out: "(case r of Returns _ \<Rightarrow> halt_to_parent ?i status s5 | _ \<Rightarrow> Some (r, s5)) = Some (out, s')"
      using rest sp True by (auto simp: bind_eq_Some_conv)
    have g4: "sched_of s4 = set_proc ?i ?gone (sched_of s)" "length (pcbs s4) = MAX_PROCESS"
      using map_pcb_gone [OF s4] l3 by (simp_all add: proc_of_def g3 set_proc_twice)
    from execute_inv [OF s5] show ?thesis
    proof (elim disjE exE conjE)
      fix x assume x: "r = Returns x" "sched_frame s4 s5"
      have e5: "sched_of s5 = set_proc ?i ?gone (sched_of s)" using x(2) g4 by (simp add: sched_frame_def)
      have l5: "length (pcbs s5) = MAX_PROCESS"
        using arg_cong [OF e5, of "\<lambda>v. length (s_procs v)"] d(1) by (simp add: set_proc_def)
      have "map proc_of (pcbs s5) ! ?i = ?gone (map proc_of (pcbs s) ! ?i)"
        using arg_cong [OF e5, of "\<lambda>v. s_procs v ! ?i"] d(1) v(10) by (simp add: set_proc_def)
      then have "p_parent (pcbs s5 ! ?i) = p_parent p" using l5 d(1) v(10) ids(2) by (simp add: proc_of_def)
      then show ?thesis using halt_to_parent_inv [of ?i status s5 out s'] out x(1) np l5 v(10) by simp
    next
      fix e n assume n: "r = Enters_user e" "free_pid s4 = Some (Some n)"
        "sched_of s5 = spawned n (get_current_pcb s4) (ebp s4) (sched_of s4)"
      have "s' = s5" using out n(1) by simp
      have pr4: "map proc_of (pcbs s4) ! j = (if j = ?i then ?gone (map proc_of (pcbs s) ! j) else map proc_of (pcbs s) ! j)" for j
        using arg_cong [OF g4(1), of "\<lambda>v. s_procs v ! j"] d(1) v(10) by (simp add: set_proc_def nth_list_update)
      have pres: "p_present (pcbs s4 ! j) = (if j = ?i then 0 else p_present (pcbs s ! j))" if "j < MAX_PROCESS" for j
        using pr4 [of j] that g4(2) d(1) by (auto simp: proc_of_def split: if_splits)
      note f = free_pid_spec [OF n(2)]
      have "n \<le> ?i"
      proof (rule ccontr)
        assume "\<not> n \<le> ?i"
        then show False using f pres [OF v(10)] by auto
      qed
      moreover have "\<not> n < ?i"
      proof
        assume lt: "n < ?i"
        then have "n \<in> alive (forest_of (sched_of s))" using w(2) True by simp
        then show False using f lt pres [of n] present_sched [of n s] d(1) by simp
      qed
      ultimately have "n = ?i" by simp
      then show ?thesis
        using view_ok_restarted [OF vok True] n(3) g4(1) \<open>s' = s5\<close> by (simp add: sched_ok_def)
    qed
  qed
qed

section \<open>The transition system\<close>

inductive kstep :: "(file_t list \<Rightarrow> file_t list) \<Rightarrow> u32 \<Rightarrow> kstate \<Rightarrow> kstate \<Rightarrow> bool" for clobber here where
  elsewhere: "sched_of s' = sched_of s \<Longrightarrow> kstep clobber here s s'"
| timer: "entered s \<Longrightarrow> pit_handler clobber here s = Some (r, s') \<Longrightarrow> kstep clobber here s s'"
| function_key: "entered s \<Longrightarrow> unat t < TERMINAL_COUNT \<Longrightarrow> switch_terminal t s = Some (eip, s') \<Longrightarrow> kstep clobber here s s'"
| start: "entered s \<Longrightarrow> execute clobber cmd s = Some (out, s') \<Longrightarrow> kstep clobber here s s'"
| finish: "entered s \<Longrightarrow> halt clobber status s = Some (out, s') \<Longrightarrow> kstep clobber here s s'"

inductive_cases kstepE: "kstep clobber here s s'"

text \<open>Ctrl-C: the switch has been made when \<^verbatim>\<open>halt\<close> is called on the stack of the process resumed.\<close>

lemma interrupted_inv:
  assumes "sched_ok s" "in_stack (running (sched_of s)) a" "interrupted clobber here a s = Some (r, s')"
  shows "\<exists>s1 out. sched_of s1 = sched_of s \<and> current s1 = Some (running (sched_of s)) \<and> halt clobber 6 s1 = Some (out, s')"
proof -
  let ?n = "running (sched_of s)"
  obtain b s1 s2 out where
    s: "push32 6 (s\<lparr>ebp := b, esp := a + 4\<rparr>) = Some s1" "push32 here s1 = Some s2" "halt clobber 6 s2 = Some (out, s')"
    using assms(3) by (auto simp: interrupted_def bind_eq_Some_conv)
  obtain m1 where m1: "s1 = s\<lparr>ebp := b, esp := a, phys := m1\<rparr>"
    using s(1) by (auto simp: push32_def Let_def dest!: copy_out_phys)
  obtain m2 where m2: "s2 = s\<lparr>ebp := b, esp := a - 4, phys := m2\<rparr>"
    using s(2) by (auto simp: m1 push32_def Let_def dest!: copy_out_phys)
  have "unat (a - 4) = unat a - 4" using assms(2) by (simp add: in_stack_def unat_sub_wrap)
  then have "on_stack_of ?n s2" using assms(2) by (auto simp: m2 on_stack_of_def in_stack_def)
  then have "current s2 = Some ?n" by (rule current_on_stack)
  moreover have "sched_of s2 = sched_of s" by (simp add: m2)
  ultimately show ?thesis using s(3) by blast
qed

definition forest_step :: "forest \<Rightarrow> forest \<Rightarrow> bool" where
  "forest_step f g \<longleftrightarrow> g = f \<or> (\<exists>n t. n < 6 \<and> n \<notin> alive f \<and> t < 3 \<and> g = spawn n t f) \<or>
     (\<exists>t k. t < 3 \<and> parent_of f (runs f t) = Some k \<and> g = leave t k f)"

lemma forest_step_refl: "forest_step f f"
  by (simp add: forest_step_def)

lemma forest_step_left:
  "sched_ok s \<Longrightarrow> parent_of (forest_of (sched_of s)) (running (sched_of s)) = Some k \<Longrightarrow>
   forest_step (forest_of (sched_of s)) (leave (unat (active_term_id s)) k (forest_of (sched_of s)))"
  using sched_okD(5) [of s] unfolding forest_step_def by (auto simp: running_def)

lemma halt_step:
  assumes "sched_ok s" "current s = Some (running (sched_of s))" "halt clobber status s = Some (out, s')"
  shows "sched_ok s' \<and> forest_step (forest_of (sched_of s)) (forest_of (sched_of s'))"
  using halt_inv [OF assms] forest_step_left [OF assms(1)] forest_step_refl by metis

lemma pit_step:
  assumes "sched_ok s" "entered s" "pit_handler clobber here s = Some (r, s')"
  shows "sched_ok s' \<and> forest_step (forest_of (sched_of s)) (forest_of (sched_of s'))"
proof -
  let ?t = "next_terminal (active_term_id s)"
  note d = sched_okD [OF assms(1)] and v = assms(1) [unfolded sched_ok_def]
  note t = next_terminal_other [OF d(5)]
  have e: "in_stack (running (sched_of s)) (ebp s)" using assms(2) by (simp add: entered_def)
  show ?thesis
  proof (cases "t_to_be_halt (terms s ! unat ?t) = 0")
    case True
    obtain eip s'' where s'': "pit_handler clobber here s = Some (Switched eip, s'')" "sched_ok s''"
        "sched_of s'' = switch_to ?t (shown_term_id s) (ebp s) (sched_of s)"
      using pit_handler_eq [OF assms(1,2) True, of clobber here] by blast
    then show ?thesis
      using assms(3) view_ok_switch(3) [OF v conjunct1 [OF t] _ e, of "shown_term_id s"] d(6) by (simp add: forest_step_def)
  next
    case False
    obtain r0 where r0: "prepared ?t (shown_term_id s) s r0"
        "pit_handler clobber here s = pit_end clobber here (terms s ! unat ?t) r0"
      using pit_prepared [OF assms(1), of clobber here] by blast
    let ?n = "unat (t_pid (terms s ! unat ?t))"
    let ?q = "changed (running (sched_of s)) ?n r0"
    note c = change_prepared [OF assms(1,2) r0(1) conjunct1 [OF t] d(6)]
    have g: "get_pcb ?n ?q = Some (pcbs ?q ! ?n)"
      using sched_okD(1) [OF c(4)] c(5) by (simp only: get_pcb_def nth_opt_Some)
    have i: "interrupted clobber here (p_ebp (pcbs ?q ! ?n)) ?q = Some (r, s')"
      using assms(3) False unfolding r0(2) pit_end_def c(1) bind.bind_lunit c(2) g by simp
    have n: "?n = run_by (sched_of s) (unat ?t)" using t d(2) by (simp add: run_by_def)
    have rn: "running (sched_of ?q) = ?n"
      using view_ok_switch(2) [OF v conjunct1 [OF t] d(6) e] unfolding c(3) n [symmetric] .
    have "in_stack ?n (pr_ebp (s_procs (sched_of ?q) ! ?n))"
      using view_ok_switch(4) [OF v conjunct1 [OF t] d(6) e conjunct1 [OF t]] unfolding c(3) n [symmetric] .
    then have st: "in_stack (running (sched_of ?q)) (p_ebp (pcbs ?q ! ?n))"
      unfolding rn unfolding sched_of_fields using sched_okD(1) [OF c(4)] c(5) by (simp only: nth_map) (simp add: proc_of_def)
    obtain s1 out where s1: "sched_of s1 = sched_of ?q" "current s1 = Some (running (sched_of ?q))"
        "halt clobber 6 s1 = Some (out, s')"
      using interrupted_inv [OF c(4) st i] by blast
    have "sched_ok s1" using c(4) s1(1) by (simp only: sched_ok_def)
    moreover have "forest_of (sched_of s1) = forest_of (sched_of s)"
      unfolding s1(1) c(3) by (rule view_ok_switch(3) [OF v conjunct1 [OF t] d(6) e])
    ultimately show ?thesis using halt_step [of s1 clobber 6 out s'] s1 by simp
  qed
qed

lemma switch_step:
  assumes "sched_ok s" "entered s" "unat t < TERMINAL_COUNT" "switch_terminal t s = Some (eip, s')"
  shows "sched_ok s' \<and> forest_of (sched_of s') = forest_of (sched_of s)"
proof (cases "t = shown_term_id s")
  case True
  then show ?thesis using assms by (simp add: switch_terminal_def)
next
  case False
  then show ?thesis
    using switch_terminal_eq [OF assms(1-3) False] assms(4)
      view_ok_switch(3) [OF assms(1) [unfolded sched_ok_def] assms(3,3), of "ebp s"] assms(2)
    by (auto simp: entered_def)
qed

lemma execute_step:
  assumes "sched_ok s" "entered s" "execute clobber cmd s = Some (out, s')"
  shows "sched_ok s' \<and> forest_step (forest_of (sched_of s)) (forest_of (sched_of s'))"
  using execute_inv [OF assms(3)]
proof (elim disjE exE conjE)
  fix x assume "sched_frame s s'"
  then show ?thesis using assms(1) by (simp add: sched_frame_def sched_ok_def forest_step_def)
next
  fix e n assume n: "free_pid s = Some (Some n)" "sched_of s' = spawned n (get_current_pcb s) (ebp s) (sched_of s)"
  note d = sched_okD [OF assms(1)] and f = free_pid_spec [OF n(1)]
  have "current s = Some (running (sched_of s))" using assms(2) current_on_stack by (simp add: entered_def)
  then have a: "get_current_pcb s = pcb_addr (running (sched_of s))" by (simp add: current_def pcb_index_less)
  have p: "pr_present (s_procs (sched_of s) ! n) = 0" using f d(1) by (simp add: proc_of_def)
  have e: "in_stack (running (sched_of s)) (ebp s)" using assms(2) by (simp add: entered_def)
  have x: "view_ok (spawned n (get_current_pcb s) (ebp s) (sched_of s)) \<and> n \<notin> alive (forest_of (sched_of s)) \<and>
      forest_of (spawned n (get_current_pcb s) (ebp s) (sched_of s)) = spawn n (unat (active_term_id s)) (forest_of (sched_of s))"
    using view_ok_spawned [OF assms(1) [unfolded sched_ok_def] _ p e a] f by simp
  then have "forest_step (forest_of (sched_of s)) (forest_of (sched_of s'))"
    using f d(5) unfolding forest_step_def n(2) by blast
  then show ?thesis using x n(2) by (simp add: sched_ok_def)
qed

lemma kstep_ok:
  assumes "kstep clobber here s s'" "sched_ok s"
  shows "sched_ok s' \<and> forest_step (forest_of (sched_of s)) (forest_of (sched_of s'))"
  using assms(1)
proof (elim kstepE)
  assume "sched_of s' = sched_of s"
  then show ?thesis using assms(2) forest_step_refl by (simp add: sched_ok_def)
next
  fix r assume "entered s" "pit_handler clobber here s = Some (r, s')"
  then show ?thesis by (rule pit_step [OF assms(2)])
next
  fix t eip assume "entered s" "unat t < TERMINAL_COUNT" "switch_terminal t s = Some (eip, s')"
  then show ?thesis using switch_step [OF assms(2)] forest_step_refl by metis
next
  fix cmd out assume "entered s" "execute clobber cmd s = Some (out, s')"
  then show ?thesis by (rule execute_step [OF assms(2)])
next
  fix status out assume a: "entered s" "halt clobber status s = Some (out, s')"
  then have "current s = Some (running (sched_of s))" using current_on_stack by (simp add: entered_def)
  then show ?thesis using halt_step [OF assms(2)] a(2) by blast
qed

text \<open>The kernel provides the contract of the process forest.\<close>

interpretation kernel: process_kernel "kstep clobber here" "\<lambda>s. forest_of (sched_of s)" sched_ok
proof unfold_locales
  fix s s' assume "sched_ok s" "kstep clobber here s s'"
  then show "sched_ok s'" "forest_of (sched_of s') = forest_of (sched_of s) \<or>
      (\<exists>n t. n < 6 \<and> n \<notin> alive (forest_of (sched_of s)) \<and> t < 3 \<and> forest_of (sched_of s') = spawn n t (forest_of (sched_of s))) \<or>
      (\<exists>t k. t < 3 \<and> parent_of (forest_of (sched_of s)) (runs (forest_of (sched_of s)) t) = Some k \<and>
        forest_of (sched_of s') = leave t k (forest_of (sched_of s)))"
    using kstep_ok [of clobber here s s'] unfolding forest_step_def by blast+
qed (simp add: sched_ok_def view_okD)

end
