(* ===== verification/FileCalls.thy ===== *)
theory FileCalls imports Syscall begin

text \<open>
  What \<^verbatim>\<open>create\<close> and \<^verbatim>\<open>delete\<close> of \<^verbatim>\<open>src/student-distrib/syscall.c\<close> do to the directory, seen through the
  list of its names: both keep the file system well formed, \<^verbatim>\<open>create\<close> appends a name and \<^verbatim>\<open>delete\<close> takes
  the first occurrence away. The allocation map is another matter: \<^verbatim>\<open>delete\<close> frees the first positions of
  the map instead of the blocks of the file.
\<close>

section \<open>Well-formed file systems\<close>

text \<open>\<open>wf_fs\<close> with another directory.\<close>

definition set_dir :: "u32 \<Rightarrow> dentry_t list \<Rightarrow> fsys \<Rightarrow> fsys" where
  "set_dir c ds fs = fs\<lparr>boot_block := (boot_block fs)\<lparr>dentries := ds, dentry_count := c\<rparr>\<rparr>"

lemma wf_set_dir:
  assumes "wf_fs fs" "length ds = DENTRY_COUNT" "\<forall>d \<in> set ds. wf_dentry fs d" "unat c \<le> DENTRY_COUNT"
  shows "wf_fs (set_dir c ds fs)"
proof -
  have "wf_inode (set_dir c ds fs) = wf_inode fs" "wf_dentry (set_dir c ds fs) = wf_dentry fs"
    by (auto simp: fun_eq_iff set_dir_def wf_dentry_def wf_inode_def)
  then show ?thesis using assms by (simp add: wf_fs_def) (simp add: set_dir_def)
qed

lemma wf_bitmap [simp]: "wf_fs (fs\<lparr>data_block_bitmap := m\<rparr>) = wf_fs fs"
  by (simp add: wf_fs_def wf_dentry_def wf_inode_def)

lemma dir_names_set_dir: "dir_names (set_dir c ds fs) = map dentry_name (take (unat c) ds)"
  by (simp add: dir_names_def set_dir_def)

lemma wf_empty_file:
  assumes "wf_fs fs"
  shows "wf_fs (fs\<lparr>inode_blocks := (inode_blocks fs)[k := (inode_blocks fs ! k)\<lparr>file_size := 0\<rparr>]\<rparr>)"
proof (cases "k < length (inode_blocks fs)")
  case True
  then have "wf_inode fs (inode_blocks fs ! k)" using assms by (simp add: wf_fs_def)
  then show ?thesis
    using assms by (auto simp: wf_fs_def wf_inode_def wf_dentry_def used_blocks_def
        dest!: set_update_subset_insert [THEN subsetD])
qed (use assms in \<open>simp add: list_update_beyond\<close>)

section \<open>Creating\<close>

lemma length_pad_name [simp]: "length (pad_name s) = FS_MAX_LEN"
  by (simp add: pad_name_def)

lemma takeWhile_pad_name: "0 \<notin> set s \<Longrightarrow> takeWhile (\<lambda>b. b \<noteq> 0) (pad_name s) = take FS_MAX_LEN s"
proof -
  assume "0 \<notin> set s"
  then have "\<forall>b \<in> set (take FS_MAX_LEN s). b \<noteq> 0" by (auto dest: in_set_takeD)
  then show ?thesis
    by (simp add: pad_name_def takeWhile_append2 takeWhile_replicate_0)
qed

lemma first_index_append: "x \<notin> set xs \<Longrightarrow> first_index x (xs @ ys) = length xs + first_index x ys"
  by (induction xs) auto

definition new_dentry :: "u8 list \<Rightarrow> u8 list \<Rightarrow> u32 \<Rightarrow> dentry_t" where
  "new_dentry junk name inode = \<lparr>file_name = pad_name name, file_type = 2, inode_num = inode, dentry_reserved = junk\<rparr>"

lemma add_dentry_eq:
  assumes "wf_fs fs" "add_dentry (new_dentry junk name inode) fs = Some fs'"
    and "inode < inode_count (boot_block fs)" "length junk = 24" "0 \<notin> set name"
  shows "wf_fs fs' \<and> unat (dentry_count (boot_block fs)) < DENTRY_COUNT \<and>
    dir_names fs' = dir_names fs @ [take FS_MAX_LEN name] \<and>
    dentries (boot_block fs') ! unat (dentry_count (boot_block fs)) = new_dentry junk name inode \<and>
    file_size (inode_blocks fs' ! unat inode) = 0"
proof -
  let ?b = "boot_block fs"
  let ?c = "unat (dentry_count ?b)"
  let ?k = "unat inode"
  let ?fs0 = "fs\<lparr>inode_blocks := (inode_blocks fs)[?k := (inode_blocks fs ! ?k)\<lparr>file_size := 0\<rparr>]\<rparr>"
  let ?ds = "(dentries ?b)[?c := new_dentry junk name inode]"
  have k: "?k < length (inode_blocks fs)" and ds: "length (dentries ?b) = DENTRY_COUNT"
    using wf_fs_inode [OF assms(1,3)] assms(1) by (auto simp: wf_fs_def)
  have c: "?c < DENTRY_COUNT" and fs': "fs' = set_dir (dentry_count ?b + 1) ?ds ?fs0"
    using assms(2) k ds by (auto simp: add_dentry_def new_dentry_def nth_opt_Some bind_eq_Some_conv set_dir_def Let_def)
  have c1: "unat (dentry_count ?b + 1) = Suc ?c" using c by (simp add: unat_inc)
  have wd: "wf_dentry ?fs0 d = wf_dentry fs d" for d by (simp add: wf_dentry_def)
  have "wf_dentry fs (new_dentry junk name inode)"
    using assms(3,4) by (simp add: wf_dentry_def new_dentry_def)
  then have "\<forall>d \<in> set ?ds. wf_dentry ?fs0 d"
    using assms(1) by (auto simp: wd wf_fs_def dest!: set_update_subset_insert [THEN subsetD])
  then have "wf_fs fs'"
    unfolding fs' using wf_empty_file [OF assms(1)] ds c c1 by (intro wf_set_dir) simp_all
  moreover have "dir_names fs' = dir_names fs @ [take FS_MAX_LEN name]"
    unfolding fs' dir_names_set_dir c1 using c ds takeWhile_pad_name [OF assms(5)]
    by (simp add: take_Suc_conv_app_nth dir_names_def dentry_name_def new_dentry_def)
  moreover have "dentries (boot_block fs') ! ?c = new_dentry junk name inode"
    unfolding fs' set_dir_def using c ds by simp
  moreover have "file_size (inode_blocks fs' ! ?k) = 0" unfolding fs' set_dir_def using k by simp
  ultimately show ?thesis using c by blast
qed

lemma found_index:
  assumes "wf_fs fs" "name \<in> set (dir_names fs)"
  shows "first_index name (dir_names fs) < unat (dentry_count (boot_block fs))"
    and "unat (of_nat (first_index name (dir_names fs)) :: u32) = first_index name (dir_names fs)"
    and "(of_nat (first_index name (dir_names fs)) :: u32) \<noteq> -1"
proof -
  show lt: "first_index name (dir_names fs) < unat (dentry_count (boot_block fs))"
    using assms(2) first_index_less [of name "dir_names fs"] length_dir_names [OF assms(1)] by simp
  then have "first_index name (dir_names fs) < DENTRY_COUNT" using assms(1) by (auto simp: wf_fs_def)
  then show u: "unat (of_nat (first_index name (dir_names fs)) :: u32) = first_index name (dir_names fs)"
    and "(of_nat (first_index name (dir_names fs)) :: u32) \<noteq> -1"
    by (simp_all add: unat_of_nat_small) (auto simp: unat_neg_one unat_of_nat_small dest!: arg_cong [of _ "-1" unat])
qed

lemma create_cases:
  assumes "create junk fname s = Some (r, s')" "r \<noteq> -1"
  shows "\<exists>c i name inode fs. fname = Some name \<and> current s = Some c \<and> 2 \<le> i \<and> i < 8 \<and> r = of_nat i \<and>
    (\<exists>den. read_dentry_by_name (disk s) (Some name) = Some (-1, den)) \<and>
    find_free_inode (disk s) = Some inode \<and> inode \<noteq> -1 \<and>
    add_dentry (new_dentry junk name inode) (disk s) = Some fs \<and>
    map_file c (of_nat i) (set_up_file (file_ops_map ! 2) inode) (s\<lparr>disk := fs\<rparr>) = Some s'"
proof -
  obtain c p free where c: "current s = Some c" "get_pcb c s = Some p" "free_fd (p_files p) = Some free"
    and r: "(case free of None \<Rightarrow> Some (-1, s) | Some i \<Rightarrow> create_at junk c i fname s) = Some (r, s')"
    using assms(1) unfolding create_def bind_eq_Some_conv by blast
  obtain i where i: "free = Some i" using r assms(2) by (cases free) auto
  then have at: "create_at junk c i fname s = Some (r, s')" using r by simp
  have bi: "2 \<le> i \<and> i < 8"
    using c(3) find_lowest [of _ 2 8 i] unfolding i free_fd_def bind_eq_Some_conv by blast
  obtain r' den where lk: "read_dentry_by_name (disk s) fname = Some (r', den)"
    using at by (cases "read_dentry_by_name (disk s) fname") (auto simp: create_at_def)
  have r': "r' = -1" using at assms(2) by (auto simp: create_at_def lk split: if_splits)
  obtain inode where inode: "find_free_inode (disk s) = Some inode"
    using at by (cases "find_free_inode (disk s)") (auto simp: create_at_def lk r')
  have ne: "inode \<noteq> -1" using at assms(2) by (auto simp: create_at_def lk r' inode split: if_splits)
  obtain name where name: "fname = Some name" using at lk r' inode ne by (cases fname) (auto simp: create_at_def)
  obtain fs where fs: "add_dentry (new_dentry junk name inode) (disk s) = Some fs"
      "map_file c (of_nat i) (set_up_file (file_ops_map ! 2) inode) (s\<lparr>disk := fs\<rparr>) = Some s'" "r = of_nat i"
    using at [unfolded create_at_def name lk [unfolded name r'] inode bind.bind_lunit prod.case] ne
    by (auto simp: new_dentry_def bind_eq_Some_conv)
  show ?thesis using name c(1) bi fs lk r' inode ne by blast
qed

section \<open>Deleting\<close>

text \<open>The blocks the loop of \<^verbatim>\<open>delete\<close> visits: the leading non-zero block numbers.\<close>

definition cleared_list :: "nat \<Rightarrow> inode_t \<Rightarrow> nat \<Rightarrow> u32 list" where
  "cleared_list c n i = takeWhile (\<lambda>b. b \<noteq> 0) (drop i (take c (inode_data_blocks n)))"

lemma cleared_list_step:
  assumes "i < length (inode_data_blocks n)"
  shows "cleared_list c n i =
    (if inode_data_blocks n ! i \<noteq> 0 \<and> i < c then inode_data_blocks n ! i # cleared_list c n (Suc i) else [])"
proof (cases "i < c")
  case True
  then have "drop i (take c (inode_data_blocks n)) =
      inode_data_blocks n ! i # drop (Suc i) (take c (inode_data_blocks n))"
    using assms by (simp add: Cons_nth_drop_Suc [symmetric])
  then show ?thesis using True by (simp add: cleared_list_def)
qed (simp add: cleared_list_def)

definition zero_blocks :: "u32 list \<Rightarrow> u8 list list \<Rightarrow> u8 list list" where
  "zero_blocks bs ds = fold (\<lambda>b ds. ds[unat b := replicate BLK 0]) bs ds"

lemma zero_blocks_simps [simp]:
  "zero_blocks [] ds = ds"
  "zero_blocks (b # bs) ds = zero_blocks bs (ds[unat b := replicate BLK 0])"
  by (simp_all add: zero_blocks_def)

lemma length_zero_blocks [simp]: "length (zero_blocks bs ds) = length ds"
  by (induction bs arbitrary: ds) simp_all

lemma nth_zero_blocks:
  "b < length ds \<Longrightarrow> zero_blocks bs ds ! b = (if b \<in> unat ` set bs then replicate BLK 0 else ds ! b)"
proof (induction bs arbitrary: ds)
  case (Cons a bs)
  then show ?case by (cases "b = unat a") simp_all
qed simp

text \<open>The loop clears those blocks, and as many map entries from \<open>i\<close> on.\<close>

lemma clear_blocks_eq:
  assumes "clear_blocks n i fs = Some fs'"
  defines "bs \<equiv> cleared_list (unat (inode_count (boot_block fs))) n i"
  shows "fs' = fs\<lparr>data_blocks := zero_blocks bs (data_blocks fs),
      data_block_bitmap := take i (data_block_bitmap fs) @ replicate (length bs) 0 @
        drop (i + length bs) (data_block_bitmap fs)\<rparr>"
  using assms(1) unfolding bs_def
proof (induction n i fs rule: clear_blocks.induct)
  case (1 n i fs)
  let ?b = "inode_data_blocks n ! i" and ?c = "unat (inode_count (boot_block fs))"
  note unf = clear_blocks.simps [of n i fs]
  have i: "i < length (inode_data_blocks n)"
    using "1.prems" unfolding unf by (auto simp: bind_eq_Some_conv)
  show ?case
  proof (cases "?b \<noteq> 0 \<and> i < ?c")
    case True
    let ?fs1 = "fs\<lparr>data_blocks := (data_blocks fs)[unat ?b := replicate BLK 0], data_block_bitmap := (data_block_bitmap fs)[i := 0]\<rparr>"
    have k: "unat ?b < length (data_blocks fs)" "i < length (data_block_bitmap fs)" "clear_blocks n (Suc i) ?fs1 = Some fs'"
      using "1.prems" True i unfolding unf by (auto simp: nth_opt_Some bind_eq_Some_conv)
    have "take (Suc i) ((data_block_bitmap fs)[i := 0]) = take i (data_block_bitmap fs) @ [0]"
      using k(2) by (simp add: take_Suc_conv_app_nth)
    then show ?thesis
      using "1.IH" [OF _ True, of "data_blocks fs ! unat ?b" "(data_block_bitmap fs)[i := 0]"] k i True
      by (simp add: nth_opt_Some upd_opt_Some cleared_list_step [OF i])
  next
    case False
    then have "fs' = fs" using "1.prems" i unfolding unf by (auto simp: nth_opt_Some)
    moreover have "cleared_list ?c n i = []" using False by (subst cleared_list_step [OF i]) auto
    ultimately show ?thesis by simp
  qed
qed

lemma wf_zero_blocks:
  assumes "wf_fs fs"
  shows "wf_fs (fs\<lparr>data_blocks := zero_blocks bs (data_blocks fs)\<rparr>)"
proof -
  let ?fs = "fs\<lparr>data_blocks := zero_blocks bs (data_blocks fs)\<rparr>"
  have "wf_inode ?fs = wf_inode fs" "wf_dentry ?fs = wf_dentry fs"
    by (auto simp: fun_eq_iff wf_inode_def wf_dentry_def)
  moreover have "\<forall>d \<in> set (zero_blocks bs (data_blocks fs)). length d = BLK"
    using assms wf_fs_block [OF assms] by (auto simp: in_set_conv_nth nth_zero_blocks)
  ultimately show ?thesis using assms by (simp add: wf_fs_def)
qed

definition without :: "nat \<Rightarrow> 'a list \<Rightarrow> 'a list" where
  "without i xs = take i xs @ drop (Suc i) xs"

lemma remove_dentry_eq:
  assumes "wf_fs fs" "index < unat (dentry_count (boot_block fs))" "remove_dentry index fs = Some fs'"
  shows "wf_fs fs' \<and> dir_names fs' = without index (dir_names fs) \<and>
    data_block_bitmap fs' = data_block_bitmap fs \<and> data_blocks fs' = data_blocks fs \<and> inode_blocks fs' = inode_blocks fs"
proof -
  let ?b = "boot_block fs"
  let ?c = "unat (dentry_count ?b)" and ?ds = "dentries ?b"
  let ?m = "take index ?ds @ take (?c - Suc index) (drop (Suc index) ?ds) @ drop (?c - 1) ?ds"
  let ?ds' = "?m[?c - 1 := zero_dentry]"
  have ds: "length ?ds = DENTRY_COUNT" "?c \<le> DENTRY_COUNT" "\<forall>d \<in> set ?ds. wf_dentry fs d"
    using assms(1) by (auto simp: wf_fs_def)
  have lm: "length ?m = DENTRY_COUNT" using ds assms(2) by simp
  have e: "index + (?c - Suc index) = ?c - 1" using assms(2) by simp
  have fs': "fs' = set_dir (dentry_count ?b - 1) ?ds' fs"
    using assms(2,3) ds e by (auto simp: remove_dentry_def set_dir_def Let_def bind_eq_Some_conv)
  have c1: "unat (dentry_count ?b - 1) = ?c - 1" using assms(2) by (simp add: unat_sub_wrap)
  have "?ds \<noteq> []" using ds(1) by auto
  then have "wf_dentry fs (hd ?ds)" using ds(3) by simp
  then have "wf_dentry fs zero_dentry"
    by (simp add: wf_dentry_def zero_dentry_def word_less_nat_alt)
  moreover have "set ?m \<subseteq> set ?ds" by (auto dest: in_set_takeD in_set_dropD)
  moreover have "set ?ds' \<subseteq> insert zero_dentry (set ?m)" by (rule set_update_subset_insert)
  ultimately have "\<forall>d \<in> set ?ds'. wf_dentry fs d" using ds(3) by blast
  then have "wf_fs fs'"
    unfolding fs' using lm ds c1 assms(2) by (intro wf_set_dir [OF assms(1)]) simp_all
  moreover have "take (?c - 1) ?ds' = without index (take ?c ?ds)"
    using ds assms(2) by (simp add: without_def drop_take)
  then have "dir_names fs' = without index (dir_names fs)"
    unfolding fs' dir_names_set_dir c1 by (simp add: dir_names_def without_def take_map drop_map)
  ultimately show ?thesis unfolding fs' by (simp add: set_dir_def)
qed

lemma delete_cases:
  assumes "wf_fs (disk s)" "0 \<notin> set name" "name \<in> set (dir_names (disk s))" "delete frame (Some name) s = Some (0, s')"
  defines "index \<equiv> first_index name (dir_names (disk s))"
  defines "inode \<equiv> inode_num (dentries (boot_block (disk s)) ! index)"
  shows "inode_in_use inode s = Some False \<and> index < unat (dentry_count (boot_block (disk s))) \<and>
    (\<exists>fs. clear_blocks (inode_blocks (disk s) ! unat inode) 0 (disk s) = Some fs \<and> remove_dentry index fs = Some (disk s'))"
proof -
  have lk: "read_dentry_by_name (disk s) (Some name) = Some (of_nat index, Some (dentries (boot_block (disk s)) ! index))"
    using read_dentry_by_name_eq [OF assms(1,2)] assms(3) by (simp add: index_def)
  note lt = found_index(1) [OF assms(1,3), folded index_def]
  note r = found_index(2,3) [OF assms(1,3), folded index_def]
  obtain used where used: "inode_in_use inode s = Some used"
    using assms(4) r(2) by (cases "inode_in_use inode s") (auto simp: delete_def lk inode_def)
  have nu: "\<not> used"
    using assms(4) r(2) used by (auto simp: delete_def lk inode_def bind_eq_Some_conv split: if_splits)
  obtain fs1 fs2 io where fs: "clear_blocks (inode_blocks (disk s) ! unat inode) 0 (disk s) = Some fs1"
      "remove_dentry index fs1 = Some fs2" "s' = s\<lparr>disk := fs2, ports := io\<rparr>"
    using assms(4) r used nu by (auto simp: delete_def lk inode_def bind_eq_Some_conv)
  then show ?thesis using used nu lt by auto
qed

section \<open>Samples\<close>

definition roomy_fs :: fsys where
  "roomy_fs = sample_fs\<lparr>boot_block := (boot_block sample_fs)\<lparr>inode_count := 6\<rparr>,
     inode_blocks := inode_blocks sample_fs @ replicate 3 (sample_inode 0 [])\<rparr>"

lemma wf_roomy: "wf_fs roomy_fs"
  by (auto simp: wf_fs_def wf_inode_def wf_dentry_def used_blocks_def roomy_fs_def sample_fs_def
      sample_inode_def sample_dentry_def)

lemma dir_names_roomy: "dir_names roomy_fs = [[46], [97, 98]]"
  using dir_names_sample by (simp add: dir_names_def roomy_fs_def)

lemma roomy_free: "find_free_inode roomy_fs = Some 4"
  by (simp add: find_free_inode_def roomy_fs_def sample_fs_def nth_opt_def find_free.simps [of _ "Suc 0"]
      find_free.simps [of _ 2] find_free.simps [of _ "Suc (Suc (Suc 0))"] find_free.simps [of _ "Suc (Suc 0)"]
      find_free.simps [of _ "Suc (Suc (Suc (Suc 0)))"])

lemma roomy_create: "\<exists>s'. create (replicate 24 0) (Some [99]) (sample_state\<lparr>disk := roomy_fs\<rparr>) = Some (2, s')"
proof -
  let ?s = "sample_state\<lparr>disk := roomy_fs\<rparr>"
  let ?j = "replicate 24 0 :: u8 list"
  have "4 < length (inode_blocks roomy_fs)" "dentry_count (boot_block roomy_fs) = 2"
    "length (dentries (boot_block roomy_fs)) = DENTRY_COUNT"
    by (simp_all add: roomy_fs_def sample_fs_def)
  then obtain fs where add: "add_dentry (new_dentry ?j [99] 4) roomy_fs = Some fs"
    by (simp add: add_dentry_def new_dentry_def nth_opt_Some upd_opt_Some Let_def)
  have p: "get_pcb 0 ?s = Some (sample_pcb 0)" by (simp add: get_pcb_def sample_state_def upt_conv_Cons)
  have "fds (?s\<lparr>disk := fs\<rparr>) = fds sample_state" by (simp add: fds_def)
  then have "get_file 0 2 (?s\<lparr>disk := fs\<rparr>) = Some sample_file"
    by (simp add: get_file_iff fds_sample sample_pcb_def)
  from map_file_eq [OF this] obtain s1 where
    m: "map_file 0 2 (set_up_file (file_ops_map ! 2) 4) (?s\<lparr>disk := fs\<rparr>) = Some s1" by blast
  have lk: "read_dentry_by_name roomy_fs (Some [99]) = Some (-1, None)"
    using read_dentry_by_name_eq [OF wf_roomy, of "[99]"] by (simp add: dir_names_roomy)
  have "create_at ?j 0 2 (Some [99]) ?s = Some (2, s1)"
    using add m by (simp add: create_at_def lk roomy_free new_dentry_def)
  then show ?thesis
    using p by (simp add: create_def current_sample_process sample_free_fd)
qed

lemma sample_flush: "wf_fs fs \<Longrightarrow> \<exists>io. flush_image fs (ports sample_state) = Some io"
  using flush_image_returns [of fs "ports sample_state"] by (simp add: ata_responsive_def sample_state_def)

lemma sample_unused: "inode_in_use 1 sample_state = Some False"
  by (simp add: inode_in_use_def sample_state_def sample_pcb_def sample_file_def slice_opt_def upt_conv_Cons)

lemma sample_delete: "\<exists>s'. delete (\<lambda>a. 0) (Some [97, 98]) sample_state = Some (0, s')"
proof -
  let ?n = "sample_inode 4099 [1, 2]"
  have d: "disk sample_state = sample_fs" by (simp add: sample_state_def)
  have blk: "inode_data_blocks ?n ! 0 = 1" "inode_data_blocks ?n ! Suc 0 = 2" "inode_data_blocks ?n ! Suc (Suc 0) = 0"
    by (simp_all add: sample_inode_def nth_append)
  have "length (inode_data_blocks ?n) = 1023" by (simp add: sample_inode_def)
  moreover have "inode_count (boot_block sample_fs) = 3" "length (data_block_bitmap sample_fs) = 64"
    "length (data_blocks sample_fs) = 5"
    by (simp_all add: sample_fs_def)
  ultimately have "\<exists>fs. clear_blocks ?n 0 sample_fs = Some fs"
    using blk by (simp add: clear_blocks.simps [of ?n 0] clear_blocks.simps [of ?n "Suc 0"]
        clear_blocks.simps [of ?n "Suc (Suc 0)"] nth_opt_def upd_opt_def)
  then obtain fs where fs: "clear_blocks ?n 0 sample_fs = Some fs" by blast
  note e = clear_blocks_eq [OF fs]
  have wf: "wf_fs fs" unfolding e using wf_zero_blocks [OF wf_sample] by simp
  have b: "boot_block fs = boot_block sample_fs" unfolding e by simp
  have c: "dentry_count (boot_block sample_fs) = 2" "length (dentries (boot_block sample_fs)) = DENTRY_COUNT"
    by (simp_all add: sample_fs_def)
  then obtain fs2 where r: "remove_dentry 1 fs = Some fs2"
    by (simp add: remove_dentry_def b Let_def slice_opt_def blit_opt_def upd_opt_def)
  then have "wf_fs fs2" using remove_dentry_eq [OF wf _ r] b c by simp
  then obtain io where "flush_image fs2 (ports sample_state) = Some io" using sample_flush by blast
  moreover have "1 < length (inode_blocks sample_fs)" "inode_blocks sample_fs ! 1 = ?n" by (simp_all add: sample_fs_def)
  ultimately show ?thesis
    using fs r sample_unused by (simp add: delete_def d sample_lookup sample_dentry_def nth_opt_Some)
qed

section \<open>Properties\<close>

text \<open>C27: \<^verbatim>\<open>create\<close>, when it returns a descriptor, has added an entry of type 2 for a file of size 0 under the
  first 32 bytes of the name behind the entries of the directory, which had room for it. The inode number of the entry is
  the least number from 1 on whose entry in the map of the data blocks (not in that of the inodes) is clear, and is below
  the number of inodes. The file system stays well formed, and a lookup of a name of at most 32 bytes then finds
  the new entry.\<close>

theorem create_adds_file:
  assumes "wf_fs (disk s)" "0 \<notin> set name" "length junk = 24"
    and "create junk (Some name) s = Some (r, s')" "r \<noteq> -1"
  shows "wf_fs (disk s') \<and> dir_names (disk s') = dir_names (disk s) @ [take FS_MAX_LEN name] \<and>
    length (dir_names (disk s)) < DENTRY_COUNT \<and>
    (\<exists>k. 1 \<le> k \<and> k < unat (inode_count (boot_block (disk s))) \<and> k < length (data_block_bitmap (disk s)) \<and>
      data_block_bitmap (disk s) ! k = 0 \<and> (\<forall>j. 1 \<le> j \<and> j < k \<longrightarrow> data_block_bitmap (disk s) ! j \<noteq> 0) \<and>
      file_size (inode_blocks (disk s') ! k) = 0 \<and>
      dentries (boot_block (disk s')) ! length (dir_names (disk s)) = new_dentry junk name (of_nat k) \<and>
      (length name \<le> FS_MAX_LEN \<longrightarrow> read_dentry_by_name (disk s') (Some name) =
         Some (dentry_count (boot_block (disk s)), Some (new_dentry junk name (of_nat k)))))"
proof -
  from create_cases [OF assms(4,5)] obtain c i inode fs den where
    lk: "read_dentry_by_name (disk s) (Some name) = Some (-1, den)" and
    inode: "find_free_inode (disk s) = Some inode" "inode \<noteq> -1" and
    add: "add_dentry (new_dentry junk name inode) (disk s) = Some fs" and
    m: "map_file c (of_nat i) (set_up_file (file_ops_map ! 2) inode) (s\<lparr>disk := fs\<rparr>) = Some s'" by blast
  have d: "disk s' = fs" using m by (auto simp: map_file_def map_pcb_def bind_eq_Some_conv)
  obtain k where k: "inode = of_nat k" "1 \<le> k" "k < unat (inode_count (boot_block (disk s)))" "k < length (data_block_bitmap (disk s))"
      "data_block_bitmap (disk s) ! k = 0" "\<forall>j. 1 \<le> j \<and> j < k \<longrightarrow> data_block_bitmap (disk s) ! j \<noteq> 0"
    using find_free_result [OF inode(1) [unfolded find_free_inode_def] inode(2) unat_u32_less] by (elim exE conjE) (rule that)
  have uk: "unat inode = k" using k(1,3) unat_u32_less [of "inode_count (boot_block (disk s))"] by (simp add: unat_of_nat_small)
  then have lt: "inode < inode_count (boot_block (disk s))" using k(3) by (simp add: word_less_nat_alt)
  note a = add_dentry_eq [OF assms(1) add lt assms(3,2)]
  let ?c = "unat (dentry_count (boot_block (disk s)))"
  have len: "length (dir_names (disk s)) = ?c" by (rule length_dir_names [OF assms(1)])
  have "read_dentry_by_name fs (Some name) = Some (dentry_count (boot_block (disk s)), Some (new_dentry junk name inode))"
    if "length name \<le> FS_MAX_LEN"
  proof -
    have "dir_names fs = dir_names (disk s) @ [name]" using a that by simp
    moreover have "name \<notin> set (dir_names (disk s))"
      using lk read_dentry_by_name_eq [OF assms(1,2)] found_index(3) [OF assms(1)] by (auto split: if_splits)
    then have "first_index name (dir_names (disk s) @ [name]) = ?c"
      using first_index_append [of name "dir_names (disk s)" "[name]"] len by simp
    ultimately show ?thesis using read_dentry_by_name_eq [of fs name] a assms(2) by simp
  qed
  then show ?thesis using a d len k uk by auto
qed

theorem create_adds_file_witness:
  "\<exists>s'. create (replicate 24 0) (Some [99]) (sample_state\<lparr>disk := roomy_fs\<rparr>) = Some (2, s') \<and>
     dir_names (disk s') = [[46], [97, 98], [99]] \<and> inode_num (dentries (boot_block (disk s')) ! 2) = 4"
proof -
  let ?s = "sample_state\<lparr>disk := roomy_fs\<rparr>"
  obtain s' where s': "create (replicate 24 0) (Some [99]) ?s = Some (2, s')"
    using roomy_create by blast
  note c = create_adds_file [OF _ _ _ s', simplified, OF wf_roomy, unfolded dir_names_roomy]
  obtain k where k: "k < unat (inode_count (boot_block roomy_fs))" "data_block_bitmap roomy_fs ! k = 0"
      "\<forall>j. 1 \<le> j \<and> j < k \<longrightarrow> data_block_bitmap roomy_fs ! j \<noteq> 0" "dentries (boot_block (disk s')) ! 2 = new_dentry (replicate 24 0) [99] (of_nat k)"
    using c by (auto simp: numeral_2_eq_2)
  have "k = 4"
  proof -
    have m: "data_block_bitmap roomy_fs = [1, 1, 1, 1] @ replicate 60 0" "k < 6" using k(1) by (simp_all add: roomy_fs_def sample_fs_def)
    have "\<not> 4 < k" using k(3) [rule_format, of 4] by (auto simp: m(1))
    then have "k \<in> {0, 1, 2, 3, 4}" by auto
    then show ?thesis using k(2) unfolding m(1) by auto
  qed
  then show ?thesis using c s' k(4) by (simp add: new_dentry_def)
qed

text \<open>C28: \<^verbatim>\<open>delete\<close> of an existing file that no program has open takes the first entry of that name out of the
  directory, keeps the order of the others and the well-formedness of the file system, and zeroes the blocks of the
  inode up to its first unused block number, but at most as many as the file system has inodes (the bound of
  the loop), leaving every other block. In the map of the data blocks it clears the first positions, as many as it has
  zeroed blocks, whichever blocks those are, and changes no other position: what is freed is the lowest block numbers and
  not the blocks of the file.\<close>

theorem delete_removes_file:
  assumes "wf_fs (disk s)" "0 \<notin> set name" "name \<in> set (dir_names (disk s))" "delete frame (Some name) s = Some (0, s')"
  defines "index \<equiv> first_index name (dir_names (disk s))"
  defines "inode \<equiv> inode_num (dentries (boot_block (disk s)) ! index)"
  defines "bs \<equiv> takeWhile (\<lambda>b. b \<noteq> 0) (take (unat (inode_count (boot_block (disk s))))
    (inode_data_blocks (inode_blocks (disk s) ! unat inode)))"
  shows "inode_in_use inode s = Some False \<and> wf_fs (disk s') \<and>
    dir_names (disk s') = take index (dir_names (disk s)) @ drop (Suc index) (dir_names (disk s)) \<and>
    (\<forall>b < length (data_blocks (disk s)). data_blocks (disk s') ! b =
       (if b \<in> unat ` set bs then replicate BLK 0 else data_blocks (disk s) ! b)) \<and>
    data_block_bitmap (disk s') = replicate (length bs) 0 @ drop (length bs) (data_block_bitmap (disk s))"
proof -
  note d = delete_cases [OF assms(1-4)]
  have bs: "bs = cleared_list (unat (inode_count (boot_block (disk s)))) (inode_blocks (disk s) ! unat inode) 0"
    by (simp add: bs_def cleared_list_def)
  obtain fs where fs: "clear_blocks (inode_blocks (disk s) ! unat inode) 0 (disk s) = Some fs"
      "remove_dentry index fs = Some (disk s')" and lt: "index < unat (dentry_count (boot_block (disk s)))"
      and use: "inode_in_use inode s = Some False"
    using d unfolding index_def inode_def by blast
  let ?fs0 = "disk s\<lparr>data_blocks := zero_blocks bs (data_blocks (disk s))\<rparr>"
  let ?m = "replicate (length bs) 0 @ drop (length bs) (data_block_bitmap (disk s))"
  have e: "fs = ?fs0\<lparr>data_block_bitmap := ?m\<rparr>" using clear_blocks_eq [OF fs(1)] bs by simp
  have "wf_fs fs" unfolding e using wf_zero_blocks [OF assms(1)] by simp
  moreover have "boot_block fs = boot_block (disk s)" "dir_names fs = dir_names (disk s)"
    by (simp_all add: e dir_names_def)
  ultimately show ?thesis
    using remove_dentry_eq [of fs index "disk s'"] fs(2) lt use by (simp add: e without_def nth_zero_blocks)
qed

theorem delete_removes_file_witness:
  "\<exists>s'. delete (\<lambda>a. 0) (Some [97, 98]) sample_state = Some (0, s') \<and> dir_names (disk s') = [[46]] \<and>
     data_block_bitmap (disk s') = [0, 0, 1, 1] @ replicate 60 0"
proof -
  obtain s' where s': "delete (\<lambda>a. 0) (Some [97, 98]) sample_state = Some (0, s')" using sample_delete by blast
  have d: "disk sample_state = sample_fs" by (simp add: sample_state_def)
  have i: "first_index [97, 98] (dir_names sample_fs) = 1" by (simp add: dir_names_sample)
  have k: "inode_num (dentries (boot_block sample_fs) ! 1) = 1" "inode_count (boot_block sample_fs) = 3"
    "inode_blocks sample_fs ! 1 = sample_inode 4099 [1, 2]" "data_block_bitmap sample_fs = [1, 1, 1, 1] @ replicate 60 0"
    by (simp_all add: sample_fs_def sample_dentry_def)
  have u: "unat (1 :: u32) = 1" "unat (3 :: u32) = 3" by simp_all
  have b: "take 3 (inode_data_blocks (sample_inode 4099 [1, 2])) = [1, 2, 0]"
    by (simp add: sample_inode_def take_Cons' replicate_add [of 1 1020, simplified])
  show ?thesis
    using delete_removes_file [OF _ _ _ s', unfolded d i k u b] wf_sample s' by (simp add: dir_names_sample)
qed

end
