(* ===== verification/Shells.thy ===== *)
theory Shells imports KernelSteps FileCalls begin

text \<open>
  The start of the scheduler and what it promises: \<^verbatim>\<open>initiate_shells\<close> leaves a state that satisfies the invariant,
  so every state reached from it does; the timer gives the terminals their turns in a circle; a function key
  shows another screen and loses none.
\<close>

section \<open>Starting the shells\<close>

definition shell_up :: "nat \<Rightarrow> sched \<Rightarrow> sched" where
  "shell_up pid v = v\<lparr>
     s_procs := (s_procs v)[pid := (s_procs v ! pid)\<lparr>pr_present := 1, pr_pid := of_nat pid, pr_parent := 0,
       pr_ebp := KERNEL_STACK - KERNEL_STACK_SIZE * of_nat pid - 28, pr_parent_ebp := 0,
       pr_esp0 := KERNEL_STACK - KERNEL_STACK_SIZE * of_nat pid\<rparr>],
     s_runs := (s_runs v)[pid := of_nat pid], s_map := set_user_page (2 + of_nat pid) (s_map v)\<rparr>"

lemma push32_phys: "push32 v s = Some s' \<Longrightarrow> \<exists>m. s' = s\<lparr>esp := esp s - 4, phys := m\<rparr>"
  by (auto simp: push32_def Let_def dest!: copy_out_phys)

lemma pushes_phys: "for_opt push32 vs s = Some s' \<Longrightarrow> \<exists>m. s' = s\<lparr>esp := esp s - 4 * of_nat (length vs), phys := m\<rparr>"
proof (induction vs arbitrary: s)
  case Nil
  then show ?case by (intro exI [of _ "phys s"]) simp
next
  case (Cons v vs)
  then obtain s1 where s1: "push32 v s = Some s1" "for_opt push32 vs s1 = Some s'" by (auto simp: bind_eq_Some_conv)
  from push32_phys [OF s1(1)] Cons.IH [OF s1(2)] show ?case by (auto simp: algebra_simps)
qed

lemma start_shell_inv:
  assumes "start_shell eflags iret_exec inode pid s = Some s'" "unat (of_nat pid :: u32) = pid"
  shows "pid < length (pcbs s) \<and> pid < length (terms s) \<and> sched_of s' = shell_up pid (sched_of s)"
proof -
  let ?top = "KERNEL_STACK - KERNEL_STACK_SIZE * of_nat pid"
  obtain s1 s2 entry s3 p a s4 where
    s: "map_term (of_nat pid) (reset_terminal pid) s = Some s1" "map_pcb pid (reset_shell_pcb pid) s1 = Some s2"
      "load_program inode (map_mmu (set_user_page (2 + of_nat pid)) s2) = Some (entry, s3)" "get_pcb pid s3 = Some p"
      "user_frame eflags iret_exec (p_esp0 p) entry s3 = Some (a, s4)" "map_pcb pid (\<lambda>p. p\<lparr>p_ebp := a\<rparr>) s4 = Some s'"
    using assms(1) by (auto simp: start_shell_def bind_eq_Some_conv Let_def)
  have s1: "pid < length (terms s)" "s1 = s\<lparr>terms := (terms s)[pid := reset_terminal pid (terms s ! pid)]\<rparr>"
    using s(1) assms(2) by (auto simp: map_term_def get_term_def bind_eq_Some_conv)
  have s2: "pid < length (pcbs s)" "s2 = s1\<lparr>pcbs := (pcbs s)[pid := reset_shell_pcb pid (pcbs s ! pid)]\<rparr>"
    using s(2) by (auto simp: map_pcb_def get_pcb_def bind_eq_Some_conv s1)
  obtain m where m: "s3 = (map_mmu (set_user_page (2 + of_nat pid)) s2)\<lparr>phys := m\<rparr>" using load_program_phys [OF s(3)] by blast
  have p: "p_esp0 p = ?top" using s(4) s2 by (auto simp: m map_mmu_def get_pcb_def reset_shell_pcb_def Let_def)
  obtain s5 where s5: "for_opt push32 [USER_DS, USER_STACK, eflags, USER_CS, entry, iret_exec, entry] (s3\<lparr>esp := p_esp0 p\<rparr>) = Some s5"
      "a = esp s5" "s4 = s5\<lparr>esp := esp s3\<rparr>"
    using s(5) by (auto simp: user_frame_def bind_eq_Some_conv Let_def)
  obtain m' where m': "s5 = s3\<lparr>esp := ?top - 28, phys := m'\<rparr>" using pushes_phys [OF s5(1)] p by auto
  have "sched_of s' = shell_up pid (sched_of s)"
    using s(6) s1(1) s2(1) by (auto simp: s5(2,3) m' m s2(2) s1(2) map_mmu_def map_pcb_def get_pcb_def bind_eq_Some_conv sched_of_def
        shell_up_def map_update proc_of_def reset_shell_pcb_def reset_terminal_def Let_def)
  then show ?thesis using s1(1) s2(1) by blast
qed

text \<open>What the kernel has set up before: cleared control blocks, and the tables of \<^verbatim>\<open>paging_init\<close>.\<close>

definition boot_ok :: "kstate \<Rightarrow> bool" where
  "boot_ok s \<longleftrightarrow> length (pcbs s) = MAX_PROCESS \<and> length (terms s) = TERMINAL_COUNT \<and> boot_map (mmu s) \<and>
     active_term_id s = 0 \<and> shown_term_id s = 0 \<and> (\<forall>i. 3 \<le> i \<and> i < MAX_PROCESS \<longrightarrow> p_present (pcbs s ! i) = 0)"

lemma view_ok_shells:
  assumes "length (s_procs v) = MAX_PROCESS" "length (s_runs v) = TERMINAL_COUNT" "s_active v = 0" "s_shown v = 0"
    and "video_map (s_map v) 0xB8" "\<forall>i. 3 \<le> i \<and> i < MAX_PROCESS \<longrightarrow> pr_present (s_procs v ! i) = 0"
  defines "u \<equiv> (shell_up 0 (shell_up 1 (shell_up 2 v)))\<lparr>s_kstack := KERNEL_STACK\<rparr>"
  shows "view_ok u"
proof -
  have runs: "s_runs u = [0, 1, 2]"
    by (rule nth_equalityI) (use assms(2) in \<open>auto simp: u_def shell_up_def nth_list_update less_Suc_eq numeral_3_eq_3\<close>)
  have rb: "run_by u t = t" if "t < TERMINAL_COUNT" for t
  proof -
    have "t = 0 \<or> t = 1 \<or> t = 2" using that by auto
    then show ?thesis by (auto simp: run_by_def runs)
  qed
  have proc: "pr_present (s_procs u ! i) = 1 \<and> pr_pid (s_procs u ! i) = of_nat i \<and> pr_parent (s_procs u ! i) = 0 \<and>
      pr_ebp (s_procs u ! i) = pcb_addr i + KERNEL_STACK_SIZE - 28 \<and> pr_esp0 (s_procs u ! i) = pcb_addr i + KERNEL_STACK_SIZE"
    if "i < 3" for i
  proof -
    have "i = 0 \<or> i = 1 \<or> i = 2" using that by auto
    then show ?thesis using assms(1) by (auto simp: u_def shell_up_def pcb_addr_def)
  qed
  have other: "pr_present (s_procs u ! i) = 0" if "3 \<le> i" "i < MAX_PROCESS" for i
    using assms(6) that by (simp add: u_def shell_up_def)
  have al: "alive (forest_of u) = {..<3}"
    using proc other by (auto simp: forest_of_def) (metis not_le)
  have par: "parent_of (forest_of u) i = None" if "i < 3" for i
    using proc [OF that] that by (simp add: forest_of_def)
  have wf: "wf_forest (forest_of u)"
    using par rb unfolding wf_forest_def al by (auto simp: inj_on_def)
  have st: "in_stack i (pcb_addr i + KERNEL_STACK_SIZE - 28)" if "i < 3" for i
  proof -
    have "i = 0 \<or> i = 1 \<or> i = 2" using that by auto
    then show ?thesis by (auto simp: in_stack_def pcb_addr_def)
  qed
  have same: "s_active u = 0" "s_shown u = 0" "length (s_procs u) = MAX_PROCESS" "s_kstack u = KERNEL_STACK"
    using assms(1,3,4) by (simp_all add: u_def shell_up_def)
  have map: "s_map u = set_user_page 2 (set_user_page 3 (set_user_page 4 (s_map v)))"
    by (simp add: u_def shell_up_def)
  have "user_dir_ok (s_map v)" using assms(5) by (simp add: video_map_def)
  then have up: "user_page (s_map u) = 2" unfolding map by (simp add: user_page_set)
  have vm: "video_map (s_map u) 0xB8" unfolding map using assms(5) by simp
  show ?thesis
    unfolding view_ok_def same al runs
    using proc par st rb wf up vm by (simp add: running_def same video_frame_def pcb_addr_def)
qed

lemma initiate_shells_inv:
  assumes "boot_ok s" "initiate_shells frame eflags iret_exec s = Some (Switched eip, s')"
  shows "sched_ok s'"
proof -
  note b = assms(1) [unfolded boot_ok_def]
  let ?s0 = "map_mmu set_up_shell_paging s"
  obtain inode a c s1 p s2 where
    l: "start_shell eflags iret_exec inode 2 ?s0 = Some a" "start_shell eflags iret_exec inode 1 a = Some c"
      "start_shell eflags iret_exec inode 0 c = Some s1" and
    s: "get_pcb 0 s1 = Some p" "pit_init 100 (s1\<lparr>tss_esp0 := p_esp0 p, tss_ss0 := KERNEL_DS\<rparr>) = Some s2"
      "resume (p_ebp p) (set_screen_coordinate 0 0 s2) = Some (Switched eip, s')"
    using assms(2) by (auto simp: initiate_shells_def Let_def bind_eq_Some_conv split: option.splits)
  have e: "sched_of s1 = shell_up 0 (shell_up 1 (shell_up 2 (sched_of ?s0)))"
    using start_shell_inv [OF l(1)] start_shell_inv [OF l(2)] start_shell_inv [OF l(3)] by simp
  have len: "0 < length (pcbs c)" using start_shell_inv [OF l(3)] by simp
  have e0: "pr_esp0 (s_procs (sched_of s1) ! 0) = KERNEL_STACK"
    using b by (simp add: e) (simp add: shell_up_def map_mmu_def)
  have "0 < length (pcbs s1)" using s(1) by (auto simp: get_pcb_def)
  then have pe: "p_esp0 p = KERNEL_STACK" using e0 s(1) by (auto simp: get_pcb_def proc_of_def)
  have "sched_of s2 = (sched_of s1)\<lparr>s_kstack := KERNEL_STACK\<rparr>"
    using s(2) pe by (auto simp: pit_init_def Let_def sched_of_def split: prod.splits)
  moreover have "sched_of s' = sched_of s2"
    using s(3) by (auto simp: resume_def leave_ret_def bind_eq_Some_conv set_screen_coordinate_def)
  moreover have "view_ok ((shell_up 0 (shell_up 1 (shell_up 2 (sched_of ?s0))))\<lparr>s_kstack := KERNEL_STACK\<rparr>)"
  proof (rule view_ok_shells)
    show "video_map (s_map (sched_of ?s0)) 0xB8" using video_map_shells b by (simp add: map_mmu_def)
    show "\<forall>i. 3 \<le> i \<and> i < MAX_PROCESS \<longrightarrow> pr_present (s_procs (sched_of ?s0) ! i) = 0"
      using b by (simp add: map_mmu_def proc_of_def)
  qed (use b in \<open>simp_all add: map_mmu_def\<close>)
  ultimately show ?thesis by (simp add: sched_ok_def e)
qed

section \<open>The shells do start\<close>

lemma kernel_word:
  assumes "kernel_dir (mmu s)" "0x400000 \<le> unat x" "unat x + 4 \<le> 0x800000"
  shows "mapped s x 4 x"
  unfolding mapped_def
proof (intro allI impI)
  fix k :: nat assume "k < 4"
  moreover from this have "unat (x + of_nat k) = unat x + k" using assms by (simp add: unat_word_ariths unat_of_nat)
  ultimately show "translate (mmu s) (x + of_nat k) = Some (x + of_nat k)"
    using assms by (intro translate_kernel [OF assms(1)]) simp_all
qed

lemma push32_eq:
  assumes "kernel_dir (mmu s)" "0x400004 \<le> unat (esp s)" "unat (esp s) \<le> 0x800000"
  shows "push32 v s = Some (s\<lparr>esp := esp s - 4, phys := put_bytes (esp s - 4) (le32 v) (phys s)\<rparr>)"
proof -
  have u: "unat (esp s - 4) = unat (esp s) - 4" using assms(2) by (simp add: unat_sub_wrap)
  have "mapped (s\<lparr>esp := esp s - 4\<rparr>) (esp s - 4) (length (le32 v)) (esp s - 4)"
    using kernel_word [of "s\<lparr>esp := esp s - 4\<rparr>" "esp s - 4"] assms u by simp
  from copy_out_eq [OF this] show ?thesis by (simp add: push32_def)
qed

lemma pushes_ok:
  "kernel_dir (mmu s) \<Longrightarrow> 0x400000 + 4 * length vs \<le> unat (esp s) \<Longrightarrow> unat (esp s) \<le> 0x800000 \<Longrightarrow>
   \<exists>m. for_opt push32 vs s = Some (s\<lparr>esp := esp s - 4 * of_nat (length vs), phys := m\<rparr>)"
proof (induction vs arbitrary: s)
  case Nil
  then show ?case by (intro exI [of _ "phys s"]) simp
next
  case (Cons v vs)
  have u: "unat (esp s - 4) = unat (esp s) - 4" using Cons.prems(2) by (simp add: unat_sub_wrap)
  let ?s1 = "s\<lparr>esp := esp s - 4, phys := put_bytes (esp s - 4) (le32 v) (phys s)\<rparr>"
  have "push32 v s = Some ?s1" using Cons.prems by (intro push32_eq) simp_all
  moreover have "\<exists>m. for_opt push32 vs ?s1 = Some (?s1\<lparr>esp := esp ?s1 - 4 * of_nat (length vs), phys := m\<rparr>)"
    using Cons.prems u by (intro Cons.IH) simp_all
  ultimately show ?case by (auto simp: algebra_simps)
qed

lemma vload32_kernel:
  assumes "kernel_dir (mmu s)" "0x400000 \<le> unat x" "unat x + 4 \<le> 0x800000"
    and "\<And>k. k < 4 \<Longrightarrow> phys s (x + of_nat k) = le32 v ! k"
  shows "vload32 x s = Some v"
proof -
  have "copy_in x 4 s = map (\<lambda>k. phys s (x + of_nat k)) [0..<4]"
    by (rule copy_in_mapped [OF kernel_word [OF assms(1-3)]])
  also have "\<dots> = le32 v" by (rule nth_equalityI) (use assms(4) in simp_all)
  finally show ?thesis by (simp add: vload32_def slice_opt_def)
qed

lemma two_words:
  assumes "m = put_bytes a (le32 e) (put_bytes (a + 4) (le32 i) m0)" "k < 4"
  shows "m (a + of_nat k) = le32 e ! k" "m (a + 4 + of_nat k) = le32 i ! k"
proof -
  have u: "unat (of_nat k :: u32) = k" "unat (4 + of_nat k :: u32) = 4 + k"
    using assms(2) by (simp_all add: unat_of_nat_small unat_word_ariths)
  have d: "a + of_nat k - a = of_nat k" "a + 4 + of_nat k - a = 4 + of_nat k" "a + 4 + of_nat k - (a + 4) = of_nat k"
    by simp_all
  show "m (a + of_nat k) = le32 e ! k" "m (a + 4 + of_nat k) = le32 i ! k"
    using assms(2) by (simp_all add: assms(1) put_bytes_at d u)
qed

lemma user_frame_eq:
  assumes "kernel_dir (mmu s)" "0x400100 \<le> unat sp" "unat sp \<le> 0x800000"
  shows "\<exists>m. user_frame eflags iret_exec sp entry s = Some (sp - 28, s\<lparr>phys := m\<rparr>) \<and>
    (\<forall>k < 4. m (sp - 24 + of_nat k) = le32 iret_exec ! k) \<and> (\<forall>k < 4. m (sp - 28 + of_nat k) = le32 entry ! k)"
proof -
  let ?s = "s\<lparr>esp := sp\<rparr>"
  obtain m where m: "for_opt push32 [USER_DS, USER_STACK, eflags, USER_CS, entry] ?s = Some (?s\<lparr>esp := sp - 20, phys := m\<rparr>)"
  proof -
    have "\<exists>m. for_opt push32 [USER_DS, USER_STACK, eflags, USER_CS, entry] ?s =
        Some (?s\<lparr>esp := esp ?s - 4 * of_nat (length [USER_DS, USER_STACK, eflags, USER_CS, entry]), phys := m\<rparr>)"
      by (rule pushes_ok) (use assms in simp_all)
    then show ?thesis using that by (auto simp del: for_opt.simps)
  qed
  have u: "unat (sp - 20) = unat sp - 20" "unat (sp - 24) = unat sp - 24" using assms by (simp_all add: unat_sub_wrap)
  let ?s1 = "?s\<lparr>esp := sp - 20, phys := m\<rparr>"
  let ?s2 = "?s\<lparr>esp := sp - 24, phys := put_bytes (sp - 24) (le32 iret_exec) m\<rparr>"
  let ?m3 = "put_bytes (sp - 28) (le32 entry) (put_bytes (sp - 24) (le32 iret_exec) m)"
  have p1: "push32 iret_exec ?s1 = Some ?s2" using push32_eq [of ?s1 iret_exec] assms u by simp
  have p2: "push32 entry ?s2 = Some (?s\<lparr>esp := sp - 28, phys := ?m3\<rparr>)"
    using push32_eq [of ?s2 entry] assms u by simp
  define xs where "xs = [USER_DS, USER_STACK, eflags, USER_CS, entry]"
  have l: "[USER_DS, USER_STACK, eflags, USER_CS, entry, iret_exec, entry] = xs @ [iret_exec, entry]" by (simp add: xs_def)
  have "user_frame eflags iret_exec sp entry s = Some (sp - 28, s\<lparr>phys := ?m3\<rparr>)"
    unfolding user_frame_def Let_def l for_opt_append m [folded xs_def] bind.bind_lunit for_opt.simps p1 p2 by simp
  moreover have "?m3 = put_bytes (sp - 28) (le32 entry) (put_bytes (sp - 28 + 4) (le32 iret_exec) m)" by simp
  note t = two_words [OF this]
  have "\<forall>k < 4. ?m3 (sp - 24 + of_nat k) = le32 iret_exec ! k" using t(2) by simp
  ultimately show ?thesis using t(1) by blast
qed

definition shell_name :: "u8 list" where
  "shell_name = map of_char ''shell''"

lemma start_shell_ok:
  assumes "program_file s shell_name inode c" "disk t = disk s" "kernel_dir (mmu t)" "user_dir_ok (mmu t)"
    "bit (page_directories (mmu t) ! USER_ENTRY) 0" "pid < TERMINAL_COUNT" "length (pcbs t) = MAX_PROCESS" "length (terms t) = TERMINAL_COUNT"
  shows "\<exists>t'. start_shell eflags iret_exec inode pid t = Some t' \<and> disk t' = disk s \<and> mmu t' = set_user_page (2 + of_nat pid) (mmu t) \<and>
    length (pcbs t') = MAX_PROCESS \<and> length (terms t') = TERMINAL_COUNT \<and>
    p_ebp (pcbs t' ! pid) = KERNEL_STACK - KERNEL_STACK_SIZE * of_nat pid - 28 \<and>
    (\<forall>k < 4. phys t' (KERNEL_STACK - KERNEL_STACK_SIZE * of_nat pid - 24 + of_nat k) = le32 iret_exec ! k)"
proof -
  let ?top = "KERNEL_STACK - KERNEL_STACK_SIZE * of_nat pid"
  let ?t1 = "t\<lparr>terms := (terms t)[pid := reset_terminal pid (terms t ! pid)]\<rparr>"
  let ?t2 = "?t1\<lparr>pcbs := (pcbs t)[pid := reset_shell_pcb pid (pcbs t ! pid)]\<rparr>"
  let ?t3 = "map_mmu (set_user_page (2 + of_nat pid)) ?t2"
  have p: "unat (of_nat pid :: u32) = pid" "pid < MAX_PROCESS" using assms(6) by (simp_all add: unat_of_nat_small)
  have m1: "map_term (of_nat pid) (reset_terminal pid) t = Some ?t1" using p assms(6,8) by (simp add: map_term_eq)
  have m2: "map_pcb pid (reset_shell_pcb pid) ?t1 = Some ?t2" using p assms(7) by (simp add: map_pcb_eq)
  have ud: "length (page_directories (mmu t)) = PAGING_COUNT" "bit (page_directories (mmu t) ! USER_ENTRY) 7"
    using assms(4) by (simp_all add: user_dir_ok_def)
  have "user_window (mmu ?t3) pid"
    using ud assms(5) small_field [OF p(2)]
    by (intro user_window_entry [OF _ refl]) (simp_all add: map_mmu_def set_user_page_def bit_set_field get_set_field_same)
  then obtain e m where lp: "load_program inode ?t3 = Some (e, ?t3\<lparr>phys := m\<rparr>)"
    using load_program_eq [OF assms(1), of ?t3 pid] assms(2) by (simp add: map_mmu_def)
  have "pid = 0 \<or> pid = 1 \<or> pid = 2" using assms(6) by auto
  then have top: "0x400100 \<le> unat ?top" "unat ?top \<le> 0x800000" by auto
  let ?t4 = "?t3\<lparr>phys := m\<rparr>"
  have kd: "kernel_dir (mmu ?t4)" using assms(3) by (simp add: map_mmu_def)
  obtain m' where uf: "user_frame eflags iret_exec ?top e ?t4 = Some (?top - 28, ?t4\<lparr>phys := m'\<rparr>)"
      "\<forall>k < 4. m' (?top - 24 + of_nat k) = le32 iret_exec ! k"
    using user_frame_eq [OF kd top, of eflags iret_exec e] by blast
  let ?t5 = "?t4\<lparr>phys := m'\<rparr>"
  have g: "get_pcb pid ?t4 = Some (reset_shell_pcb pid (pcbs t ! pid))" "p_esp0 (reset_shell_pcb pid (pcbs t ! pid)) = ?top"
    using p assms(7) by (simp_all add: get_pcb_def nth_opt_Some map_mmu_def reset_shell_pcb_def Let_def)
  let ?t' = "?t5\<lparr>pcbs := (pcbs ?t5)[pid := (pcbs ?t5 ! pid)\<lparr>p_ebp := ?top - 28\<rparr>]\<rparr>"
  have m6: "map_pcb pid (\<lambda>p. p\<lparr>p_ebp := ?top - 28\<rparr>) ?t5 = Some ?t'"
    using p assms(7) by (simp add: map_pcb_eq map_mmu_def)
  have "start_shell eflags iret_exec inode pid t = Some ?t'"
    unfolding start_shell_def m1 m2 bind.bind_lunit Let_def lp prod.case g uf(1) m6 ..
  moreover have "disk ?t' = disk s" "mmu ?t' = set_user_page (2 + of_nat pid) (mmu t)" "length (pcbs ?t') = MAX_PROCESS"
    "length (terms ?t') = TERMINAL_COUNT" "p_ebp (pcbs ?t' ! pid) = ?top - 28" "phys ?t' = m'"
    using assms(2,7,8) p by (simp_all add: map_mmu_def)
  ultimately show ?thesis using uf(2) by metis
qed

lemma user_entry_present:
  "user_dir_ok p \<Longrightarrow> bit (page_directories (set_user_page n p) ! USER_ENTRY) 0 = bit (page_directories p ! USER_ENTRY) 0"
  by (simp add: set_user_page_def user_dir_ok_def bit_set_field)

lemma pit_init_keeps: "pit_init f s = Some s' \<Longrightarrow> mmu s' = mmu s \<and> phys s' = phys s \<and> pcbs s' = pcbs s"
  by (auto simp: pit_init_def Let_def split: prod.splits if_splits)

lemma pit_init_returns: "f \<noteq> 0 \<Longrightarrow> \<exists>s'. pit_init f s = Some s'"
  by (auto simp: pit_init_def Let_def split: prod.split)

lemma initiate_shells_eq:
  assumes "boot_ok s" "program_file s shell_name inode c"
  shows "\<exists>s'. initiate_shells frame eflags iret_exec s = Some (Switched iret_exec, s') \<and> sched_ok s'"
proof -
  note b = assms(1) [unfolded boot_ok_def]
  let ?s0 = "map_mmu set_up_shell_paging s"
  have vm: "video_map (mmu ?s0) 0xB8" using video_map_shells b by (simp add: map_mmu_def)
  have k0: "kernel_dir (mmu ?s0)" "user_dir_ok (mmu ?s0)" using vm by (simp_all add: video_map_def)
  have "length (page_directories (mmu s)) = PAGING_COUNT" using b by (simp add: boot_map_def video_dir_def)
  then have e0: "bit (page_directories (mmu ?s0) ! USER_ENTRY) 0"
    by (simp add: map_mmu_def set_up_shell_paging_eq bit_set_field)
  have l0: "disk ?s0 = disk s" "length (pcbs ?s0) = MAX_PROCESS" "length (terms ?s0) = TERMINAL_COUNT"
    using b by (simp_all add: map_mmu_def)
  note start = start_shell_ok [OF assms(2), where eflags = eflags and iret_exec = iret_exec]
  obtain t1 where t1: "start_shell eflags iret_exec inode 2 ?s0 = Some t1" "disk t1 = disk s"
      "mmu t1 = set_user_page (2 + of_nat 2) (mmu ?s0)" "length (pcbs t1) = MAX_PROCESS" "length (terms t1) = TERMINAL_COUNT"
    using start [of ?s0 2, OF l0(1) k0 e0 _ l0(2,3)] by auto
  have k1: "kernel_dir (mmu t1)" "user_dir_ok (mmu t1)" "bit (page_directories (mmu t1) ! USER_ENTRY) 0"
    unfolding t1(3) using k0 e0 user_entry_present [OF k0(2)] by simp_all
  obtain t2 where t2: "start_shell eflags iret_exec inode 1 t1 = Some t2" "disk t2 = disk s"
      "mmu t2 = set_user_page (2 + of_nat 1) (mmu t1)" "length (pcbs t2) = MAX_PROCESS" "length (terms t2) = TERMINAL_COUNT"
    using start [of t1 1, OF t1(2) k1 _ t1(4,5)] by auto
  have k2: "kernel_dir (mmu t2)" "user_dir_ok (mmu t2)" "bit (page_directories (mmu t2) ! USER_ENTRY) 0"
    unfolding t2(3) using k1 user_entry_present [OF k1(2)] by simp_all
  obtain t3 where t3: "start_shell eflags iret_exec inode 0 t2 = Some t3" "mmu t3 = set_user_page (2 + of_nat 0) (mmu t2)"
      "length (pcbs t3) = MAX_PROCESS" "p_ebp (pcbs t3 ! 0) = KERNEL_STACK - 28"
      "\<forall>k < 4. phys t3 (KERNEL_STACK - 24 + of_nat k) = le32 iret_exec ! k"
    using start [of t2 0, OF t2(2) k2 _ t2(4,5)] by auto
  have loop: "for_opt (start_shell eflags iret_exec inode) [2, 1, 0] ?s0 = Some t3"
    using t1(1) t2(1) t3(1) by simp
  let ?p = "pcbs t3 ! 0"
  let ?t4 = "t3\<lparr>tss_esp0 := p_esp0 ?p, tss_ss0 := KERNEL_DS\<rparr>"
  obtain t5 where t5: "pit_init 100 ?t4 = Some t5" using pit_init_returns [of 100] by auto
  let ?t6 = "set_screen_coordinate 0 0 t5"
  have t6: "mmu ?t6 = mmu t3" "phys ?t6 = phys t3" using pit_init_keeps [OF t5] by (simp_all add: set_screen_coordinate_def)
  have k6: "kernel_dir (mmu ?t6)" unfolding t6 t3(2) using k2 by simp
  have "in_stack 0 (KERNEL_STACK - 28)" by (simp add: in_stack_def pcb_addr_def)
  from leave_ret_ok [OF k6 this] obtain w eip where l: "leave_ret (KERNEL_STACK - 28) ?t6 =
      Some (eip, ?t6\<lparr>ebp := w, esp := KERNEL_STACK - 28 + 8\<rparr>)" by blast
  have "vload32 (KERNEL_STACK - 24) ?t6 = Some iret_exec"
    by (rule vload32_kernel [OF k6]) (use t3(5) t6(2) in simp_all)
  then have "eip = iret_exec" using l by (auto simp: leave_ret_def bind_eq_Some_conv)
  then have r: "resume (p_ebp ?p) ?t6 = Some (Switched iret_exec, ?t6\<lparr>ebp := w, esp := KERNEL_STACK - 28 + 8\<rparr>)"
    using l unfolding t3(4) resume_def by simp
  have ck: "check_executable (map of_char ''shell'') ?s0 = Some (Some inode)"
    using check_executable_eq [OF assms(2) l0(1)] unfolding shell_name_def .
  have g: "get_pcb 0 t3 = Some ?p" using t3(3) by (simp add: get_pcb_def nth_opt_Some)
  have "initiate_shells frame eflags iret_exec s = Some (Switched iret_exec, ?t6\<lparr>ebp := w, esp := KERNEL_STACK - 28 + 8\<rparr>)"
    unfolding initiate_shells_def Let_def ck bind.bind_lunit option.case loop g t5 r ..
  then show ?thesis using initiate_shells_inv [OF assms(1)] by blast
qed

section \<open>Turns\<close>

text \<open>A sequence of time slices: the running process is entered by the timer interrupt, with no Ctrl-C pending for
  the next terminal, and another process goes on.\<close>

inductive slices :: "(file_t list \<Rightarrow> file_t list) \<Rightarrow> u32 \<Rightarrow> kstate \<Rightarrow> kstate list \<Rightarrow> bool" for clobber here where
  no_slice: "slices clobber here s []"
| slice: "sched_of s1 = sched_of s \<Longrightarrow> entered s1 \<Longrightarrow> t_to_be_halt (terms s1 ! unat (next_terminal (active_term_id s1))) = 0 \<Longrightarrow>
    pit_handler clobber here s1 = Some (r, s2) \<Longrightarrow> slices clobber here s2 ss \<Longrightarrow> slices clobber here s (s2 # ss)"

inductive_simps slices_simps [simp]: "slices clobber here s []" "slices clobber here s (t # ss)"

lemma one_slice:
  assumes "sched_ok s" "entered s" "t_to_be_halt (terms s ! unat (next_terminal (active_term_id s))) = 0"
    and "pit_handler clobber here s = Some (r, s')"
  shows "sched_ok s' \<and> unat (active_term_id s') = Suc (unat (active_term_id s)) mod TERMINAL_COUNT \<and>
    shown_term_id s' = shown_term_id s \<and> forest_of (sched_of s') = forest_of (sched_of s)"
proof -
  note d = sched_okD [OF assms(1)]
  let ?t = "next_terminal (active_term_id s)"
  obtain eip s'' where "pit_handler clobber here s = Some (Switched eip, s'')" and s'': "sched_ok s''"
      "sched_of s'' = switch_to ?t (shown_term_id s) (ebp s) (sched_of s)"
    using pit_handler_eq [OF assms(1-3), of clobber here] by blast
  then have "s'' = s'" using assms(4) by simp
  moreover have "s_active (sched_of s'') = ?t" "s_shown (sched_of s'') = shown_term_id s"
    unfolding s''(2) by (simp_all add: switch_to_def Let_def)
  moreover have "forest_of (sched_of s'') = forest_of (sched_of s)"
    unfolding s''(2) using assms(2)
    by (intro view_ok_switch(3) [OF assms(1) [unfolded sched_ok_def] conjunct1 [OF next_terminal_other [OF d(5)]] d(6)])
       (simp add: entered_def)
  ultimately show ?thesis using s''(1) unat_next_terminal [OF d(5)] by simp
qed

lemma slices_turns:
  assumes "slices clobber here s ss" "sched_ok s"
  shows "k < length ss \<Longrightarrow> sched_ok (ss ! k) \<and> forest_of (sched_of (ss ! k)) = forest_of (sched_of s) \<and>
    unat (active_term_id (ss ! k)) = (unat (active_term_id s) + Suc k) mod TERMINAL_COUNT"
  using assms
proof (induction ss arbitrary: s k rule: list.induct)
  case Nil
  then show ?case by simp
next
  case (Cons t ss)
  then obtain s1 r where s1: "sched_of s1 = sched_of s" "entered s1"
      "t_to_be_halt (terms s1 ! unat (next_terminal (active_term_id s1))) = 0" "pit_handler clobber here s1 = Some (r, t)"
      and ss: "slices clobber here t ss" by auto
  have a: "active_term_id s1 = active_term_id s" using arg_cong [OF s1(1), of s_active] by simp
  have "sched_ok s1" using Cons.prems(3) s1(1) by (simp add: sched_ok_def)
  note o = one_slice [OF this s1(2-4), unfolded a s1(1)]
  show ?case
  proof (cases k)
    case 0
    then show ?thesis using o by simp
  next
    case (Suc j)
    then have "j < length ss" using Cons.prems(1) by simp
    from Cons.IH [OF this ss conjunct1 [OF o]] show ?thesis using o Suc
      by simp (metis (no_types, lifting) Suc_eq_plus1 add_Suc mod_add_left_eq)
  qed
qed

lemma slices_extend:
  "slices clobber here s ss \<Longrightarrow> sched_of s1 = sched_of (last (s # ss)) \<Longrightarrow> entered s1 \<Longrightarrow>
   t_to_be_halt (terms s1 ! unat (next_terminal (active_term_id s1))) = 0 \<Longrightarrow>
   pit_handler clobber here s1 = Some (r, s2) \<Longrightarrow> slices clobber here s (ss @ [s2])"
proof (induction rule: slices.induct)
  case (no_slice s)
  then show ?case by auto
next
  case (slice s0 s r0 s2' ss)
  have "slices clobber here s2' (ss @ [s2])" using slice.IH slice.prems by (simp split: if_splits)
  then show ?case using slice.hyps by auto
qed

text \<open>The invariant in terms of the machine.\<close>

lemma sched_ok_facts:
  assumes "sched_ok s"
  shows "(\<exists>i < MAX_PROCESS. t_pid (terms s ! unat (active_term_id s)) = of_nat i \<and> p_present (pcbs s ! i) \<noteq> 0 \<and>
      get_field 22 10 (page_directories (mmu s) ! USER_ENTRY) = 2 + of_nat i \<and> tss_esp0 s = pcb_addr i + KERNEL_STACK_SIZE) \<and>
    (\<forall>off < 4096. translate (mmu s) (VIDEO + of_nat off) = Some (of_nat off +
      (if active_term_id s = shown_term_id s then VIDEO else VIDEO + (active_term_id s + 2) * VIDEO_SIZE)))"
proof (intro conjI allI impI)
  note d = sched_okD [OF assms] and v = view_okD [OF assms [unfolded sched_ok_def]]
  let ?i = "running (sched_of s)"
  have i: "?i = unat (t_pid (terms s ! unat (active_term_id s)))" using d(2,5) by (simp add: running_def run_by_def)
  have al: "?i \<in> alive (forest_of (sched_of s))" using v(6) [OF v(3)] by (simp add: running_def)
  have "p_present (pcbs s ! ?i) \<noteq> 0" using present_sched [OF v(10) d(1)] al by simp
  moreover have "t_pid (terms s ! unat (active_term_id s)) = of_nat ?i" unfolding i by simp
  ultimately show "\<exists>i < MAX_PROCESS. t_pid (terms s ! unat (active_term_id s)) = of_nat i \<and> p_present (pcbs s ! i) \<noteq> 0 \<and>
      get_field 22 10 (page_directories (mmu s) ! USER_ENTRY) = 2 + of_nat i \<and> tss_esp0 s = pcb_addr i + KERNEL_STACK_SIZE"
    using v(10,12,13) by (intro exI [of _ ?i]) (simp add: user_page_def)
  fix off :: nat assume off: "off < 4096"
  have vm: "video_map (mmu s) (video_frame (active_term_id s) (shown_term_id s))" using v(11) by simp
  then have "translate (mmu s) (of_nat (VIDMEM_INDEX * 4096 + off)) =
      Some (push_bit 12 (video_frame (active_term_id s) (shown_term_id s)) + of_nat off)"
    by (intro translate_frame) (use off in \<open>simp_all add: video_map_def\<close>)
  then show "translate (mmu s) (VIDEO + of_nat off) = Some (of_nat off +
      (if active_term_id s = shown_term_id s then VIDEO else VIDEO + (active_term_id s + 2) * VIDEO_SIZE))"
    using terminal_cases [OF d(5)] by (auto simp: video_frame_def video_page_of_def)
qed

section \<open>Samples\<close>

text \<open>A machine after booting, whose file system holds the program \<^verbatim>\<open>shell\<close>, and a machine with three shells.\<close>

definition shell_fs :: fsys where
  "shell_fs = exec_fs\<lparr>boot_block := (boot_block exec_fs)\<lparr>dentries :=
     sample_dentry shell_name 2 1 # tl (dentries (boot_block exec_fs))\<rparr>\<rparr>"

definition boot_state :: kstate where
  "boot_state = sample_state\<lparr>disk := shell_fs\<rparr>"

lemma boot_state_ok: "boot_ok boot_state"
proof -
  have "p_present (pcbs sample_state ! i) = 0" if "3 \<le> i" "i < MAX_PROCESS" for i
  proof -
    have "i = 3 \<or> i = 4 \<or> i = 5" using that by auto
    then show ?thesis by (auto simp: sample_state_def nth_append)
  qed
  then show ?thesis using boot_map_init [OF wf_sample_layout] by (simp add: boot_ok_def boot_state_def) (simp add: sample_state_def)
qed

lemma boot_program: "program_file boot_state shell_name 1 (elf_block @ replicate 3 2)"
proof -
  note p = exec_program [unfolded program_file_def exec_state_def kstate.simps]
  have w: "wf_fs exec_fs" using exec_program by (simp add: program_file_def exec_state_def)
  have d: "dentries (boot_block exec_fs) = sample_dentry [46] 1 0 # sample_dentry [97, 98] 2 1 # replicate 61 (sample_dentry [] 0 0)"
    by (simp add: exec_fs_def sample_fs_def)
  have "wf_fs (set_dir (dentry_count (boot_block exec_fs)) (sample_dentry shell_name 2 1 # tl (dentries (boot_block exec_fs))) exec_fs)"
    by (rule wf_set_dir [OF w])
       (use w d in \<open>auto simp: wf_fs_def wf_dentry_def sample_dentry_def shell_name_def exec_fs_def sample_fs_def\<close>)
  moreover have e: "shell_fs = set_dir (dentry_count (boot_block exec_fs)) (sample_dentry shell_name 2 1 # tl (dentries (boot_block exec_fs))) exec_fs"
    by (simp add: shell_fs_def set_dir_def)
  ultimately have wf: "wf_fs shell_fs" by simp
  have c: "dentry_count (boot_block exec_fs) = 2" by (simp add: exec_fs_def sample_fs_def)
  have dn: "dir_names shell_fs = [shell_name, [97, 98]]"
    using c by (simp add: e dir_names_set_dir d dentry_name_def sample_dentry_def shell_name_def takeWhile_replicate_0)
  have "file_content shell_fs 1 = elf_block @ replicate 3 2"
    using exec_content by (simp add: file_content_def file_bytes_def shell_fs_def)
  moreover have "of_le32 [0x7F, 0x45, 0x4C, 0x46] = EXECUTABLE_MAGIC" by (simp add: of_le32_def)
  moreover have "inode_num (dentries (boot_block shell_fs) ! 0) = 1" by (simp add: shell_fs_def sample_dentry_def)
  ultimately show ?thesis
    using wf dn by (simp add: program_file_def boot_state_def elf_block_def) (simp add: shell_name_def)
qed

definition shells_map :: paging where
  "shells_map = set_user_page 2 (set_user_page 3 (set_user_page 4 (set_up_shell_paging (paging_init sample_layout))))"

definition shells_state :: kstate where
  "shells_state = sample_state\<lparr>mmu := shells_map,
     pcbs := map (\<lambda>i. (sample_pcb i)\<lparr>p_ebp := KERNEL_STACK - KERNEL_STACK_SIZE * of_nat i - 28\<rparr>) [0..<3] @
       map (\<lambda>i. (sample_pcb i)\<lparr>p_present := 0\<rparr>) [3..<6]\<rparr>"

lemma shells_sched: "sched_of shells_state =
    (shell_up 0 (shell_up 1 (shell_up 2 (sched_of (map_mmu set_up_shell_paging sample_state)))))\<lparr>s_kstack := KERNEL_STACK\<rparr>"
  by (simp add: sched_of_def shells_state_def shells_map_def shell_up_def map_mmu_def sample_state_def proc_of_def sample_pcb_def
      sample_terminal_def upt_conv_Cons)

lemma shells_state_ok: "sched_ok shells_state"
  unfolding sched_ok_def shells_sched
proof (rule view_ok_shells)
  let ?s = "map_mmu set_up_shell_paging sample_state"
  show "video_map (s_map (sched_of ?s)) 0xB8"
    using video_map_shells [OF boot_map_init [OF wf_sample_layout]] by (simp add: map_mmu_def sample_state_def)
  show "\<forall>i. 3 \<le> i \<and> i < MAX_PROCESS \<longrightarrow> pr_present (s_procs (sched_of ?s) ! i) = 0"
  proof (intro allI impI)
    fix i assume "3 \<le> i \<and> i < MAX_PROCESS"
    then have "i = 3 \<or> i = 4 \<or> i = 5" by auto
    then show "pr_present (s_procs (sched_of ?s) ! i) = 0" by (auto simp: map_mmu_def sample_state_def nth_append proc_of_def)
  qed
qed (simp_all add: map_mmu_def sample_state_def)

lemma shells_entered: "entered shells_state"
proof -
  have "running (sched_of shells_state) = 0"
    by (simp add: running_def run_by_def shells_state_def sample_state_def sample_terminal_def upt_conv_Cons)
  then show ?thesis by (simp add: entered_def on_stack_of_def in_stack_def pcb_addr_def shells_state_def sample_state_def)
qed

section \<open>Properties\<close>

text \<open>C1: after booting, with cleared control blocks, the tables of \<^verbatim>\<open>paging_init\<close> and an executable file
  \<^verbatim>\<open>shell\<close>, \<^verbatim>\<open>initiate_shells\<close> continues at the \<^verbatim>\<open>iret\<close> that enters the first shell; from there on, through any
  sequence of timer interrupts, terminal switches, \<^verbatim>\<open>execute\<close>, \<^verbatim>\<open>halt\<close>, Ctrl-C and code that leaves the scheduler's
  variables alone, user memory and the kernel stack of the next entry are those of the process that the active
  terminal runs, which is alive, and the video page is the screen if that terminal is shown and otherwise its own hidden page.\<close>

theorem scheduler_invariant:
  assumes "boot_ok s0" "program_file s0 shell_name inode c"
  shows "\<exists>s. initiate_shells frame eflags iret_exec s0 = Some (Switched iret_exec, s) \<and>
    (\<forall>s'. (kstep clobber here)\<^sup>*\<^sup>* s s' \<longrightarrow>
      (\<exists>i < MAX_PROCESS. t_pid (terms s' ! unat (active_term_id s')) = of_nat i \<and> p_present (pcbs s' ! i) \<noteq> 0 \<and>
        get_field 22 10 (page_directories (mmu s') ! USER_ENTRY) = 2 + of_nat i \<and> tss_esp0 s' = pcb_addr i + KERNEL_STACK_SIZE) \<and>
      (\<forall>off < 4096. translate (mmu s') (VIDEO + of_nat off) = Some (of_nat off +
        (if active_term_id s' = shown_term_id s' then VIDEO else VIDEO + (active_term_id s' + 2) * VIDEO_SIZE))))"
proof -
  obtain s where s: "initiate_shells frame eflags iret_exec s0 = Some (Switched iret_exec, s)" "sched_ok s"
    using initiate_shells_eq [OF assms] by blast
  have "(\<exists>i < MAX_PROCESS. t_pid (terms s' ! unat (active_term_id s')) = of_nat i \<and> p_present (pcbs s' ! i) \<noteq> 0 \<and>
        get_field 22 10 (page_directories (mmu s') ! USER_ENTRY) = 2 + of_nat i \<and> tss_esp0 s' = pcb_addr i + KERNEL_STACK_SIZE) \<and>
      (\<forall>off < 4096. translate (mmu s') (VIDEO + of_nat off) = Some (of_nat off +
        (if active_term_id s' = shown_term_id s' then VIDEO else VIDEO + (active_term_id s' + 2) * VIDEO_SIZE)))"
    if "(kstep clobber here)\<^sup>*\<^sup>* s s'" for s'
    using sched_ok_facts [OF kernel.reachable_ok [OF that s(2)]] by blast
  then show ?thesis using s(1) by blast
qed

theorem scheduler_invariant_witness:
  "\<exists>s. initiate_shells (\<lambda>a. 0) 0x202 0x400123 boot_state = Some (Switched 0x400123, s) \<and>
     (\<exists>i < MAX_PROCESS. t_pid (terms s ! unat (active_term_id s)) = of_nat i \<and> tss_esp0 s = pcb_addr i + KERNEL_STACK_SIZE)"
  using scheduler_invariant [OF boot_state_ok boot_program, of "\<lambda>a. 0" "0x202" "0x400123" id 0] rtranclp.rtrancl_refl by metis

text \<open>C15: with no Ctrl-C pending, the timer interrupt never gets stuck, and over any time slices the terminals run in
  turn: after slice \<open>k\<close> the active terminal is \<open>k\<close> further in the circle, so three slices give every terminal its turn and
  come back to the process that was interrupted first; no process starts or ends.\<close>

theorem every_terminal_runs:
  assumes "sched_ok s" "slices clobber here s ss"
  shows "(\<forall>k < length ss. unat (active_term_id (ss ! k)) = (unat (active_term_id s) + Suc k) mod TERMINAL_COUNT \<and>
      forest_of (sched_of (ss ! k)) = forest_of (sched_of s)) \<and>
    (\<forall>s1. sched_of s1 = sched_of (last (s # ss)) \<longrightarrow> entered s1 \<longrightarrow>
      t_to_be_halt (terms s1 ! unat (next_terminal (active_term_id s1))) = 0 \<longrightarrow>
      (\<exists>s2. slices clobber here s (ss @ [s2]) \<and> esp s2 =
        p_ebp (pcbs s1 ! unat (t_pid (terms s1 ! unat (next_terminal (active_term_id s1))))) + 8))"
proof (intro conjI allI impI)
  fix s1 assume s1: "sched_of s1 = sched_of (last (s # ss))" "entered s1"
    "t_to_be_halt (terms s1 ! unat (next_terminal (active_term_id s1))) = 0"
  have "sched_ok (last (s # ss))"
    using slices_turns [OF assms(2,1), of "length ss - 1"] assms(1) by (cases "ss = []") (simp_all add: last_conv_nth)
  then have "sched_ok s1" using s1(1) by (simp add: sched_ok_def)
  then obtain eip s2 where "pit_handler clobber here s1 = Some (Switched eip, s2)"
      "esp s2 = p_ebp (pcbs s1 ! unat (t_pid (terms s1 ! unat (next_terminal (active_term_id s1))))) + 8"
    using pit_handler_eq [OF _ s1(2,3)] by blast
  then show "\<exists>s2. slices clobber here s (ss @ [s2]) \<and> esp s2 =
      p_ebp (pcbs s1 ! unat (t_pid (terms s1 ! unat (next_terminal (active_term_id s1))))) + 8"
    using slices_extend [OF assms(2) s1(1,2)] s1(3) by blast
qed (use slices_turns [OF assms(2,1)] in \<open>simp_all\<close>)

theorem every_terminal_runs_witness: "\<exists>s2. slices id 0 shells_state [s2] \<and> unat (active_term_id s2) = 1"
proof -
  have h: "t_to_be_halt (terms shells_state ! unat (next_terminal (active_term_id shells_state))) = 0"
    by (simp add: shells_state_def sample_state_def next_terminal_def sample_terminal_def upt_conv_Cons)
  have l: "sched_of shells_state = sched_of (last [shells_state])" by simp
  note step = conjunct2 [OF every_terminal_runs [OF shells_state_ok no_slice, of id 0]]
  obtain s2 where s2: "slices id 0 shells_state [s2]"
    using step [rule_format, OF l shells_entered h] unfolding append_Nil by blast
  then show ?thesis
    using every_terminal_runs [OF shells_state_ok s2] by (auto simp: shells_state_def sample_state_def simp del: slices_simps)
qed

text \<open>C21: \<^verbatim>\<open>switch_terminal\<close> to a terminal that is not shown makes it the active and the shown one and continues its
  process: user memory and the kernel stack of the next entry are those of the process, and the frame pointer, the stack
  pointer and the address where execution goes on are taken from the frame it left on its kernel stack, which is the one
  in its saved frame pointer, or the frame of this call when the terminal was active already. The screen of every terminal,
  wherever it is kept, has the same 4096 bytes before and after, and the video memory now shows the screen of the new one;
  the coordinates of the terminal left are saved in it, printing goes on at the saved coordinates of the new one
  (those printing is at, when it was active already), and the hardware cursor is moved there.\<close>

theorem switch_terminal_keeps_screens:
  assumes "sched_ok s" "entered s" "unat t < TERMINAL_COUNT" "t \<noteq> shown_term_id s"
  shows "\<exists>n eip s'. n < MAX_PROCESS \<and> t_pid (terms s ! unat t) = of_nat n \<and> switch_terminal t s = Some (Some eip, s') \<and>
    sched_ok s' \<and> active_term_id s' = t \<and> shown_term_id s' = t \<and>
    get_field 22 10 (page_directories (mmu s') ! USER_ENTRY) = 2 + of_nat n \<and> tss_esp0 s' = pcb_addr n + KERNEL_STACK_SIZE \<and>
    (\<exists>a. a = (if current s = Some n then ebp s else p_ebp (pcbs s ! n)) \<and>
      vload32 a s = Some (ebp s') \<and> vload32 (a + 4) s = Some eip \<and> esp s' = a + 8) \<and>
    (\<forall>u. unat u < TERMINAL_COUNT \<longrightarrow> screen_of u s' = screen_of u s) \<and> page_bytes 0xB8 (phys s') = screen_of t s \<and>
    t_cursor_x (terms s' ! unat (active_term_id s)) = screen_x s \<and> t_cursor_y (terms s' ! unat (active_term_id s)) = screen_y s \<and>
    (screen_x s', screen_y s') = (if t = active_term_id s then (screen_x s, screen_y s)
      else (t_cursor_x (terms s ! unat t), t_cursor_y (terms s ! unat t))) \<and>
    ports s' = set_cursor_pos (screen_x s') (screen_y s') (ports s)"
proof -
  note d = sched_okD [OF assms(1)]
  let ?n = "unat (t_pid (terms s ! unat t))"
  obtain eip s' where s': "switch_terminal t s = Some (Some eip, s')" "sched_ok s'"
      "sched_of s' = switch_to t t (ebp s) (sched_of s)" "terms s' = save_cursor s" "phys s' = swapped t s"
      "screen_x s' = t_cursor_x (save_cursor s ! unat t)" "screen_y s' = t_cursor_y (save_cursor s ! unat t)"
      "ports s' = set_cursor_pos (screen_x s') (screen_y s') (ports s)"
      "vload32 (saved_frame ?n s) s = Some (ebp s')" "vload32 (saved_frame ?n s + 4) s = Some eip" "esp s' = saved_frame ?n s + 8"
    using switch_terminal_eq [OF assms] by (auto simp: Let_def)
  have a: "active_term_id s' = t" "shown_term_id s' = t"
    using arg_cong [OF s'(3), of s_active] arg_cong [OF s'(3), of s_shown] by (simp_all add: switch_to_def Let_def)
  have sc: "screen_of u s' = screen_of u s" if "unat u < TERMINAL_COUNT" for u
    by (rule swapped_screens [OF d(6) assms(3,4) s'(5) a(2) that])
  have p: "page_bytes 0xB8 (phys s') = screen_of t s"
    using sc [OF assms(3)] by (simp add: screen_of_def a video_frame_def)
  have len: "unat t < length (terms s)" "unat (active_term_id s) < length (terms s)" using d(2,5) assms(3) by simp_all
  have tp: "t_pid (save_cursor s ! unat t) = t_pid (terms s ! unat t)"
    using len by (simp add: save_cursor_def nth_list_update)
  have "current s = Some (running (sched_of s))" using assms(2) current_on_stack by (simp add: entered_def)
  then have fr: "saved_frame ?n s = (if current s = Some ?n then ebp s else p_ebp (pcbs s ! ?n))" by (auto simp: saved_frame_def)
  have neq: "t \<noteq> active_term_id s \<Longrightarrow> unat (active_term_id s) \<noteq> unat t" by (metis unsigned_word_eqI)
  have cur: "t_cursor_x (terms s' ! unat (active_term_id s)) = screen_x s" "t_cursor_y (terms s' ! unat (active_term_id s)) = screen_y s"
    using len(2) by (simp_all add: s'(4) save_cursor_def)
  have xy: "(screen_x s', screen_y s') = (if t = active_term_id s then (screen_x s, screen_y s)
      else (t_cursor_x (terms s ! unat t), t_cursor_y (terms s ! unat t)))"
    using len neq unfolding s'(6,7) by (cases "t = active_term_id s") (simp_all add: save_cursor_def)
  obtain i where i: "i < MAX_PROCESS" "t_pid (terms s ! unat t) = of_nat i"
      "get_field 22 10 (page_directories (mmu s') ! USER_ENTRY) = 2 + of_nat i" "tss_esp0 s' = pcb_addr i + KERNEL_STACK_SIZE"
    using sched_ok_facts [OF s'(2)] tp by (auto simp: a(1) s'(4))
  then have "?n = i" by (simp add: unat_of_nat_small)
  with fr have e: "saved_frame ?n s = (if current s = Some i then ebp s else p_ebp (pcbs s ! i))" by (simp only:)
  show ?thesis using s'(1,2,8) i a sc p cur xy s'(9-11) [unfolded e]
    by (intro exI [of _ i] exI [of _ eip] exI [of _ s'] conjI exI [of _ "if current s = Some i then ebp s else p_ebp (pcbs s ! i)"] allI impI)
      (assumption | rule refl | blast)+
qed

theorem switch_terminal_keeps_screens_witness:
  "\<exists>eip s'. switch_terminal 2 shells_state = Some (Some eip, s') \<and> active_term_id s' = 2 \<and>
     esp s' = p_ebp (pcbs shells_state ! 2) + 8 \<and> tss_esp0 s' = pcb_addr 2 + KERNEL_STACK_SIZE \<and> (screen_x s', screen_y s') = (0, 0)"
proof -
  have "(2 :: u32) \<noteq> shown_term_id shells_state" "active_term_id shells_state = 0" by (simp_all add: shells_state_def sample_state_def)
  moreover have t: "terms shells_state ! 2 = sample_terminal 2" by (simp add: shells_state_def sample_state_def upt_conv_Cons numeral_2_eq_2)
  moreover have "current shells_state = Some 0"
    using current_on_stack shells_entered
    by (simp add: entered_def running_def run_by_def shells_state_def sample_state_def sample_terminal_def upt_conv_Cons)
  moreover obtain n eip s' where n: "n < MAX_PROCESS" "t_pid (terms shells_state ! 2) = of_nat n"
      and r: "switch_terminal 2 shells_state = Some (Some eip, s')" "active_term_id s' = 2" "tss_esp0 s' = pcb_addr n + KERNEL_STACK_SIZE"
      "esp s' = (if current shells_state = Some n then ebp shells_state else p_ebp (pcbs shells_state ! n)) + 8"
      "(screen_x s', screen_y s') = (if 2 = active_term_id shells_state then (screen_x shells_state, screen_y shells_state)
        else (t_cursor_x (terms shells_state ! 2), t_cursor_y (terms shells_state ! 2)))"
    using switch_terminal_keeps_screens [OF shells_state_ok shells_entered, of 2] calculation(1) by auto
  moreover have "n = 2" using arg_cong [OF n(2), of unat] n(1) t by (simp add: sample_terminal_def unat_of_nat_small)
  ultimately show ?thesis by (simp add: sample_terminal_def)
qed

text \<open>C2: every step of the kernel is a step of the process forest: nothing, a new leaf in a free slot below the process of a
  terminal, or the end of a terminal's process in favour of its parent. A process that waits for a child thus stays as it
  is until that child ends, and is then what the terminal runs.\<close>

theorem kernel_refines_forest:
  assumes "sched_ok s" "kstep clobber here s s'"
  shows "wf_forest (forest_of (sched_of s')) \<and> forest_step (forest_of (sched_of s)) (forest_of (sched_of s')) \<and>
    (\<forall>i k. i \<in> alive (forest_of (sched_of s)) \<longrightarrow> parent_of (forest_of (sched_of s)) i = Some k \<longrightarrow>
      (i \<in> alive (forest_of (sched_of s')) \<and> parent_of (forest_of (sched_of s')) i = Some k) \<or>
      (\<exists>t < TERMINAL_COUNT. run_by (sched_of s) t = i \<and> run_by (sched_of s') t = k \<and> k \<in> alive (forest_of (sched_of s'))))"
  using kstep_ok [OF assms(2,1)] kernel.child_keeps_parent [OF assms] kernel.ok_wf by simp blast

theorem kernel_refines_forest_witness:
  "\<exists>s'. kstep id 0 shells_state s' \<and> wf_forest (forest_of (sched_of s'))"
proof -
  have "kstep id 0 shells_state shells_state" by (rule elsewhere) simp
  then show ?thesis using kernel_refines_forest [OF shells_state_ok] by blast
qed

end
