(* ===== verification/Keyboard.thy ===== *)
theory Keyboard imports Shells begin

text \<open>
  The keyboard of \<^verbatim>\<open>src/student-distrib/keyboard.c\<close>: the interrupt handler that reads a scan code, keeps the
  modifiers, echoes to the terminal shown and edits its input line, and the abstract line editor that it
  refines. With \<^verbatim>\<open>terminal_read\<close> of \<^verbatim>\<open>term.c\<close> it makes the path of a typed line to a program.
\<close>

abbreviation KEYBOARD_PORT :: u16 where "KEYBOARD_PORT \<equiv> 0x60"
abbreviation KEYBOARD_IRQ :: u32 where "KEYBOARD_IRQ \<equiv> 1"

abbreviation SC_BACKSPACE :: u8 where "SC_BACKSPACE \<equiv> 0x0E"
abbreviation SC_TAB :: u8 where "SC_TAB \<equiv> 0x0F"
abbreviation SC_ENTER :: u8 where "SC_ENTER \<equiv> 0x1C"
abbreviation SC_LEFTCONTROL :: u8 where "SC_LEFTCONTROL \<equiv> 0x1D"
abbreviation SC_LEFTSHIFT :: u8 where "SC_LEFTSHIFT \<equiv> 0x2A"
abbreviation SC_RIGHTSHIFT :: u8 where "SC_RIGHTSHIFT \<equiv> 0x36"
abbreviation SC_LEFTALT :: u8 where "SC_LEFTALT \<equiv> 0x38"
abbreviation SC_CAPSLOCK :: u8 where "SC_CAPSLOCK \<equiv> 0x3A"
abbreviation SC_LEFTCONTROLREL :: u8 where "SC_LEFTCONTROLREL \<equiv> 0x9D"
abbreviation SC_LEFTSHIFTREL :: u8 where "SC_LEFTSHIFTREL \<equiv> 0xAA"
abbreviation SC_RIGHTSHIFTREL :: u8 where "SC_RIGHTSHIFTREL \<equiv> 0xB6"

abbreviation KBF_SHIFT :: u32 where "KBF_SHIFT \<equiv> 0x0003"
abbreviation KBF_LEFTSHIFT :: u32 where "KBF_LEFTSHIFT \<equiv> 0x0001"
abbreviation KBF_RIGHTSHIFT :: u32 where "KBF_RIGHTSHIFT \<equiv> 0x0002"
abbreviation KBF_ALT :: u32 where "KBF_ALT \<equiv> 0x0004"
abbreviation KBF_CAPSLOCK :: u32 where "KBF_CAPSLOCK \<equiv> 0x0008"
abbreviation KBF_CONTROL :: u32 where "KBF_CONTROL \<equiv> 0x0010"

section \<open>The scan code maps\<close>

definition visible_scancode_map :: "u8 list" where
  "visible_scancode_map = [0, 0] @ map of_char ''1234567890-='' @ [0, 0] @ map of_char ''qwertyuiop[]'' @ [0, 0] @
     map of_char ''asdfghjkl;'' @ [39, 96, 0, 92] @ map of_char ''zxcvbnm,./'' @ [0, 0, 0, 32]"

definition visible_scancode_map_shifted :: "u8 list" where
  "visible_scancode_map_shifted = [0, 0] @ map of_char ''!@#$%^&*()_+'' @ [0, 0] @ map of_char ''QWERTYUIOP[]'' @ [0, 0] @
     map of_char ''ASDFGHJKL:'' @ [34, 126, 0, 124] @ map of_char ''ZXCVBNM<>?'' @ [0, 0, 0, 32]"

section \<open>The handler\<close>

definition keyboard_init :: "kstate \<Rightarrow> kstate" where
  "keyboard_init s = (let (p, io) = enable_irq KEYBOARD_IRQ (pics s, ports s) in s\<lparr>pics := p, ports := io\<rparr>)"

definition set_modifier :: "u32 \<Rightarrow> kstate \<Rightarrow> kstate" where
  "set_modifier f s = s\<lparr>keyboard_bitmap := keyboard_bitmap s OR f\<rparr>"

definition clear_modifier :: "u32 \<Rightarrow> kstate \<Rightarrow> kstate" where
  "clear_modifier f s = s\<lparr>keyboard_bitmap := keyboard_bitmap s AND NOT f\<rparr>"

text \<open>\<^verbatim>\<open>content[length++] = c\<close> on the terminal shown; a store past the 128 bytes is \<open>None\<close>.\<close>

definition push_input :: "u8 \<Rightarrow> kstate \<Rightarrow> kstate option" where
  "push_input c s = do {
     u \<leftarrow> get_term (shown_term_id s) s;
     if unat (t_length u) < length (t_content u)
     then map_term (shown_term_id s)
       (\<lambda>u. u\<lparr>t_content := (t_content u)[unat (t_length u) := c], t_length := t_length u + 1\<rparr>) s
     else None
   }"

text \<open>\<^verbatim>\<open>content[--length] = 0\<close>.\<close>

definition pop_input :: "kstate \<Rightarrow> kstate option" where
  "pop_input s = do {
     u \<leftarrow> get_term (shown_term_id s) s;
     if unat (t_length u - 1) < length (t_content u)
     then map_term (shown_term_id s)
       (\<lambda>u. u\<lparr>t_content := (t_content u)[unat (t_length u - 1) := 0], t_length := t_length u - 1\<rparr>) s
     else None
   }"

definition backspace_key :: "kstate \<Rightarrow> kstate option" where
  "backspace_key s = do {
     u \<leftarrow> get_term (shown_term_id s) s;
     if t_length u > 0 then do { s \<leftarrow> echo 8 s; pop_input s } else Some s
   }"

definition visible_key :: "u8 \<Rightarrow> kstate \<Rightarrow> kstate option" where
  "visible_key scancode s =
     (if unat scancode < length visible_scancode_map \<and> visible_scancode_map ! unat scancode \<noteq> 0
      then if keyboard_bitmap s AND KBF_CONTROL \<noteq> 0
           then if scancode = 0x26 then clear s
                else if scancode = 0x2E then map_term (shown_term_id s) (\<lambda>u. u\<lparr>t_to_be_halt := 1\<rparr>) s
                else Some s
           else do {
             let ch = (if keyboard_bitmap s AND KBF_LEFTSHIFT \<noteq> 0 \<or> keyboard_bitmap s AND KBF_RIGHTSHIFT \<noteq> 0
                       then visible_scancode_map_shifted else visible_scancode_map) ! unat scancode;
             s \<leftarrow> echo ch s;
             u \<leftarrow> get_term (shown_term_id s) s;
             if t_length u < of_nat MAX_TERMINAL then push_input ch s else Some s
           }
      else Some s)"

text \<open>What the handler does with a scan code; \<open>Some eip\<close> is a terminal switch, which leaves the handler.\<close>

definition handle_key :: "u8 \<Rightarrow> kstate \<Rightarrow> (u32 option \<times> kstate) option" where
  "handle_key scancode s =
     (if scancode = SC_LEFTSHIFT then Some (None, set_modifier KBF_LEFTSHIFT s)
      else if scancode = SC_RIGHTSHIFT then Some (None, set_modifier KBF_RIGHTSHIFT s)
      else if scancode = SC_LEFTSHIFTREL \<or> scancode = SC_RIGHTSHIFTREL
      then Some (None, clear_modifier (KBF_LEFTSHIFT OR KBF_RIGHTSHIFT) s)
      else if scancode = SC_CAPSLOCK then Some (None, clear_modifier KBF_CAPSLOCK s)
      else if scancode = SC_LEFTALT then Some (None, set_modifier KBF_ALT s)
      else if scancode = SC_LEFTCONTROL then Some (None, set_modifier KBF_CONTROL s)
      else if scancode = SC_LEFTCONTROLREL then Some (None, clear_modifier KBF_CONTROL s)
      else if scancode = SC_TAB then do { s \<leftarrow> echo 9 s; s \<leftarrow> push_input 9 s; Some (None, s) }
      else if scancode = SC_BACKSPACE then do { s \<leftarrow> backspace_key s; Some (None, s) }
      else if scancode = SC_ENTER then do {
        s \<leftarrow> echo 10 s;
        s \<leftarrow> map_term (shown_term_id s) (\<lambda>u. u\<lparr>t_in_progress := 0\<rparr>) s;
        Some (None, s)
      }
      else if 0x3B \<le> scancode \<and> scancode \<le> 0x3D then switch_terminal (ucast scancode - 0x3B) s
      else do { s \<leftarrow> visible_key scancode s; Some (None, s) })"

text \<open>A handler that returns has acknowledged its interrupt; one that switches the terminal has not.\<close>

definition keyboard_handler :: "kstate \<Rightarrow> (u32 option \<times> kstate) option" where
  "keyboard_handler s = do {
     let (data, io) = inb KEYBOARD_PORT (ports s);
     (eip, s) \<leftarrow> handle_key (ucast data) (s\<lparr>ports := io\<rparr>);
     case eip of
       Some a \<Rightarrow> Some (Some a, s)
     | None \<Rightarrow> Some (None, s\<lparr>ports := send_eoi KEYBOARD_IRQ (ports s)\<rparr>)
   }"

lemma keyboard_handler_eq:
  "keyboard_handler s = do {
     (eip, s) \<leftarrow> handle_key (ucast (fst (inb KEYBOARD_PORT (ports s)))) (s\<lparr>ports := snd (inb KEYBOARD_PORT (ports s))\<rparr>);
     case eip of
       Some a \<Rightarrow> Some (Some a, s)
     | None \<Rightarrow> Some (None, s\<lparr>ports := send_eoi KEYBOARD_IRQ (ports s)\<rparr>)
   }"
  by (simp add: keyboard_handler_def split: prod.split)

section \<open>The abstract line editor\<close>

text \<open>One terminal's line: the modifiers, the text typed so far, whether the line was ended by Enter, and
  whether the program was asked to stop.\<close>

record line =
  l_shift :: bool
  l_ctrl :: bool
  l_text :: "u8 list"
  l_entered :: bool
  l_stop :: bool

definition type_char :: "u8 \<Rightarrow> line \<Rightarrow> line" where
  "type_char c l = (if length (l_text l) < MAX_TERMINAL then l\<lparr>l_text := l_text l @ [c]\<rparr> else l)"

definition key_char :: "bool \<Rightarrow> u8 \<Rightarrow> u8" where
  "key_char shifted sc = (if shifted then visible_scancode_map_shifted else visible_scancode_map) ! unat sc"

definition visible :: "u8 \<Rightarrow> bool" where
  "visible sc \<longleftrightarrow> unat sc < length visible_scancode_map \<and> visible_scancode_map ! unat sc \<noteq> 0"

definition edit_key :: "u8 \<Rightarrow> line \<Rightarrow> line" where
  "edit_key sc l =
     (if sc = SC_LEFTSHIFT \<or> sc = SC_RIGHTSHIFT then l\<lparr>l_shift := True\<rparr>
      else if sc = SC_LEFTSHIFTREL \<or> sc = SC_RIGHTSHIFTREL then l\<lparr>l_shift := False\<rparr>
      else if sc = SC_LEFTCONTROL then l\<lparr>l_ctrl := True\<rparr>
      else if sc = SC_LEFTCONTROLREL then l\<lparr>l_ctrl := False\<rparr>
      else if sc = SC_TAB then type_char 9 l
      else if sc = SC_BACKSPACE then l\<lparr>l_text := butlast (l_text l)\<rparr>
      else if sc = SC_ENTER then l\<lparr>l_entered := True\<rparr>
      else if \<not> visible sc then l
      else if l_ctrl l then (if sc = 0x2E then l\<lparr>l_stop := True\<rparr> else l)
      else type_char (key_char (l_shift l) sc) l)"

section \<open>The lines of the terminals\<close>

text \<open>The terminals without their cursors, which only the console changes.\<close>

definition hide_cursor :: "terminal_t \<Rightarrow> terminal_t" where
  "hide_cursor u = u\<lparr>t_cursor_x := 0, t_cursor_y := 0\<rparr>"

definition inputs :: "kstate \<Rightarrow> terminal_t list" where
  "inputs s = map hide_cursor (terms s)"

definition line_of :: "kstate \<Rightarrow> terminal_t \<Rightarrow> line" where
  "line_of s u = \<lparr>l_shift = (keyboard_bitmap s AND KBF_SHIFT \<noteq> 0), l_ctrl = (keyboard_bitmap s AND KBF_CONTROL \<noteq> 0),
     l_text = take (unat (t_length u)) (t_content u), l_entered = (t_in_progress u = 0),
     l_stop = (t_to_be_halt u \<noteq> 0)\<rparr>"

text \<open>The line of the terminal shown.\<close>

definition shown_line :: "kstate \<Rightarrow> line" where
  "shown_line s = line_of s (inputs s ! unat (shown_term_id s))"

definition input_ok :: "kstate \<Rightarrow> bool" where
  "input_ok s \<longleftrightarrow> unat (shown_term_id s) < length (terms s) \<and>
     (\<forall>u \<in> set (inputs s). length (t_content u) = MAX_TERMINAL \<and> unat (t_length u) \<le> MAX_TERMINAL)"

text \<open>Every terminal but the one shown keeps its input.\<close>

definition only_shown :: "kstate \<Rightarrow> kstate \<Rightarrow> bool" where
  "only_shown s s' \<longleftrightarrow> shown_term_id s' = shown_term_id s \<and> active_term_id s' = active_term_id s \<and>
     length (inputs s') = length (inputs s) \<and>
     (\<forall>t < length (inputs s). t \<noteq> unat (shown_term_id s) \<longrightarrow> inputs s' ! t = inputs s ! t)"

text \<open>What the line editor sees of a state.\<close>

definition edit_view :: "kstate \<Rightarrow> u32 \<times> u32 \<times> u32 \<times> terminal_t list" where
  "edit_view s = (keyboard_bitmap s, shown_term_id s, active_term_id s, inputs s)"

lemma edit_view_eq:
  "edit_view s' = edit_view s \<longleftrightarrow> keyboard_bitmap s' = keyboard_bitmap s \<and> shown_term_id s' = shown_term_id s \<and>
     active_term_id s' = active_term_id s \<and> inputs s' = inputs s"
  by (simp add: edit_view_def)

lemma edit_view_cong:
  assumes "edit_view s' = edit_view s"
  shows "shown_line s' = shown_line s" "input_ok s' = input_ok s" "only_shown s s'"
    "only_shown s' = only_shown s" "only_shown x s' = only_shown x s"
proof -
  have "length (terms s') = length (inputs s')" "length (terms s) = length (inputs s)" for s by (simp_all add: inputs_def)
  then show "shown_line s' = shown_line s" "input_ok s' = input_ok s" "only_shown s s'"
    "only_shown s' = only_shown s" "only_shown x s' = only_shown x s"
    using assms by (simp_all add: edit_view_eq shown_line_def line_of_def input_ok_def only_shown_def fun_eq_iff)
qed

lemma same_edit_view: "console_same s s' \<Longrightarrow> edit_view s' = edit_view s"
proof -
  assume "console_same s s'"
  then have b: "console_base s' = console_base s" by (simp add: console_same_def)
  have "map (\<lambda>u. u\<lparr>t_cursor_x := 0, t_cursor_y := 0\<rparr>) (terms s') = map (\<lambda>u. u\<lparr>t_cursor_x := 0, t_cursor_y := 0\<rparr>) (terms s)"
    using arg_cong [OF b, of terms] by (simp add: console_base_def)
  then have "inputs s' = inputs s" unfolding inputs_def hide_cursor_def [abs_def] .
  then show ?thesis using console_base_keeps(6,7,12) [OF b] by (simp add: edit_view_eq)
qed

lemma edit_view_updates [simp]:
  "edit_view (s\<lparr>screen_x := x\<rparr>) = edit_view s" "edit_view (s\<lparr>screen_y := y\<rparr>) = edit_view s"
  "edit_view (s\<lparr>video_mem := v\<rparr>) = edit_view s" "edit_view (s\<lparr>ports := io\<rparr>) = edit_view s"
  "edit_view (move_cursor x y s) = edit_view s"
  "edit_view (s\<lparr>screen_x := x, screen_y := y\<rparr>) = edit_view s"
  by (simp_all add: edit_view_def inputs_def move_cursor_def)

lemma echo_edit_view:
  assumes "echo c s = Some s'"
  shows "edit_view s' = edit_view s"
proof (cases "active_term_id s = shown_term_id s")
  case True
  then show ?thesis using assms by (auto simp: echo_def dest!: putc_same same_edit_view)
next
  case False
  then obtain u :: terminal_t and s1 s2 where s: "putc c (s\<lparr>screen_x := t_cursor_x u, screen_y := t_cursor_y u, video_mem := VIDEO + VIDEO_SIZE\<rparr>) = Some s1"
    "set_term_cursor (shown_term_id s1) (screen_x s1) (screen_y s1) (s1\<lparr>video_mem := VIDEO\<rparr>) = Some s2"
    "s' = (move_cursor (screen_x s2) (screen_y s2) s2)\<lparr>screen_x := screen_x s, screen_y := screen_y s\<rparr>"
    using assms False by (auto simp: echo_def Let_def bind_eq_Some_conv)
  have "edit_view s1 = edit_view s"
    using same_edit_view [OF putc_same [OF s(1)]] by (simp add: edit_view_def inputs_def)
  moreover have "edit_view s2 = edit_view s1"
    using same_edit_view [OF set_term_cursor_same [OF s(2)]] by simp
  ultimately show ?thesis using s(3) by simp
qed

section \<open>The handler refines the line editor\<close>

definition edits :: "(line \<Rightarrow> line) \<Rightarrow> kstate \<Rightarrow> kstate \<Rightarrow> bool" where
  "edits f s s' \<longleftrightarrow> input_ok s' \<and> only_shown s s' \<and> shown_line s' = f (shown_line s)"

lemma edits_view:
  "edit_view s1 = edit_view s \<Longrightarrow> edits f s1 s' = edits f s s'"
  "edit_view s1 = edit_view s' \<Longrightarrow> edits f s s1 = edits f s s'"
  using edit_view_cong [of s1 s] edit_view_cong [of s1 s'] by (simp_all add: edits_def)

lemma edits_idle: "input_ok s \<Longrightarrow> edit_view s' = edit_view s \<Longrightarrow> f (shown_line s) = shown_line s \<Longrightarrow> edits f s s'"
  using edit_view_cong [of s' s] by (simp add: edits_def)

lemma map_shown:
  assumes "map_term (shown_term_id s) f s = Some s'" "\<And>u. hide_cursor (f u) = f (hide_cursor u)"
  shows "edit_view s' = (keyboard_bitmap s, shown_term_id s, active_term_id s,
    (inputs s)[unat (shown_term_id s) := f (inputs s ! unat (shown_term_id s))])"
proof -
  have "unat (shown_term_id s) < length (terms s)"
    "s' = s\<lparr>terms := (terms s)[unat (shown_term_id s) := f (terms s ! unat (shown_term_id s))]\<rparr>"
    using assms(1) by (auto simp: map_term_def get_term_def bind_eq_Some_conv)
  then show ?thesis by (simp add: edit_view_def inputs_def map_update assms(2))
qed

text \<open>An update of the line shown that keeps its buffer well formed is an edit.\<close>

lemma map_shown_edits:
  assumes m: "map_term (shown_term_id s) f s = Some s'" and f: "\<And>u. hide_cursor (f u) = f (hide_cursor u)"
    and ok: "input_ok s"
    and u: "u = inputs s ! unat (shown_term_id s)"
    and len: "length (t_content (f u)) = MAX_TERMINAL" "unat (t_length (f u)) \<le> MAX_TERMINAL"
    and g: "line_of s (f u) = g (line_of s u)"
  shows "edits g s s'"
proof -
  let ?t = "unat (shown_term_id s)"
  have v: "keyboard_bitmap s' = keyboard_bitmap s" "shown_term_id s' = shown_term_id s"
    "active_term_id s' = active_term_id s" "inputs s' = (inputs s)[?t := f u]"
    using map_shown [OF m f] u by (simp_all add: edit_view_def)
  have t: "?t < length (inputs s)" "length (terms s') = length (inputs s)"
    using ok arg_cong [OF v(4), of length] by (simp_all add: input_ok_def) (simp_all add: inputs_def)
  have "\<forall>u \<in> set (inputs s'). length (t_content u) = MAX_TERMINAL \<and> unat (t_length u) \<le> MAX_TERMINAL"
    using ok len set_update_subset_insert [of "inputs s" ?t "f u"] unfolding v(4) input_ok_def by blast
  then have "input_ok s'" using t v(2) by (simp add: input_ok_def)
  moreover have "only_shown s s'" using v by (simp add: only_shown_def)
  moreover have "shown_line s' = g (shown_line s)"
    using t(1) v g u by (simp add: shown_line_def line_of_def)
  ultimately show ?thesis by (simp add: edits_def)
qed

lemma shown_input_ok:
  assumes "input_ok s" "get_term (shown_term_id s) s = Some u"
  shows "hide_cursor u = inputs s ! unat (shown_term_id s)"
    "length (t_content u) = MAX_TERMINAL" "unat (t_length u) \<le> MAX_TERMINAL"
proof -
  have t: "unat (shown_term_id s) < length (terms s)" "u = terms s ! unat (shown_term_id s)"
    using assms(2) by (auto simp: get_term_def)
  then show h: "hide_cursor u = inputs s ! unat (shown_term_id s)" by (simp add: inputs_def)
  have "hide_cursor u \<in> set (inputs s)" using t by (simp add: inputs_def)
  then show "length (t_content u) = MAX_TERMINAL" "unat (t_length u) \<le> MAX_TERMINAL"
    using assms(1) by (auto simp: input_ok_def hide_cursor_def)
qed

lemma push_input_edits:
  assumes "push_input c s = Some s'" "input_ok s"
  shows "edits (type_char c) s s'"
proof -
  let ?f = "\<lambda>u. u\<lparr>t_content := (t_content u)[unat (t_length u) := c], t_length := t_length u + 1\<rparr>"
  obtain u where u: "get_term (shown_term_id s) s = Some u" "unat (t_length u) < length (t_content u)"
    and m: "map_term (shown_term_id s) ?f s = Some s'"
    using assms(1) by (auto simp: push_input_def bind_eq_Some_conv split: if_splits)
  note ok = shown_input_ok [OF assms(2) u(1)]
  let ?u = "hide_cursor u"
  have len: "unat (t_length u) < 128" "unat (t_length u + 1) = Suc (unat (t_length u))"
    using u(2) ok(2) by (simp_all add: unat_word_ariths)
  show ?thesis
  proof (rule map_shown_edits [OF m _ assms(2) ok(1)])
    show "line_of s (?f ?u) = type_char c (line_of s ?u)"
      using len ok(2) by (simp add: line_of_def type_char_def hide_cursor_def take_Suc_conv_app_nth)
  qed (use len ok(2) in \<open>simp_all add: hide_cursor_def\<close>)
qed

lemma pop_input_edits:
  assumes "pop_input s = Some s'" "input_ok s"
    "get_term (shown_term_id s) s = Some v" "t_length v \<noteq> 0"
  shows "edits (\<lambda>l. l\<lparr>l_text := butlast (l_text l)\<rparr>) s s'"
proof -
  let ?f = "\<lambda>u. u\<lparr>t_content := (t_content u)[unat (t_length u - 1) := 0], t_length := t_length u - 1\<rparr>"
  obtain u where u: "get_term (shown_term_id s) s = Some u" "unat (t_length u - 1) < length (t_content u)"
    and m: "map_term (shown_term_id s) ?f s = Some s'"
    using assms(1) by (auto simp: pop_input_def bind_eq_Some_conv split: if_splits)
  note ok = shown_input_ok [OF assms(2) u(1)]
  let ?u = "hide_cursor u"
  have "t_length u \<noteq> 0" using assms(3,4) u(1) by simp
  then have len: "unat (t_length u - 1) = unat (t_length u) - 1" "unat (t_length u) \<le> 128"
    using ok(3) by (simp_all add: unat_minus_one)
  show ?thesis
  proof (rule map_shown_edits [OF m _ assms(2) ok(1)])
    show "line_of s (?f ?u) = (line_of s ?u)\<lparr>l_text := butlast (l_text (line_of s ?u))\<rparr>"
      using len ok(2) by (simp add: line_of_def hide_cursor_def butlast_take)
  qed (use len ok(2) in \<open>simp_all add: hide_cursor_def\<close>)
qed

lemma visible_key_edits:
  assumes "visible_key sc s = Some s'" "input_ok s"
  shows "edits (\<lambda>l. if \<not> visible sc then l
    else if l_ctrl l then (if sc = 0x2E then l\<lparr>l_stop := True\<rparr> else l)
    else type_char (key_char (l_shift l) sc) l) s s'"
proof -
  consider (hidden) "\<not> visible sc" "s' = s"
    | (clear) "visible sc" "keyboard_bitmap s AND KBF_CONTROL \<noteq> 0" "sc \<noteq> 0x2E" "s' = s \<or> clear s = Some s'"
    | (stop) "visible sc" "keyboard_bitmap s AND KBF_CONTROL \<noteq> 0" "sc = 0x2E"
        "map_term (shown_term_id s) (\<lambda>u. u\<lparr>t_to_be_halt := 1\<rparr>) s = Some s'"
    | (type) ch s1 u where "visible sc" "keyboard_bitmap s AND KBF_CONTROL = 0"
        "ch = key_char (keyboard_bitmap s AND KBF_LEFTSHIFT \<noteq> 0 \<or> keyboard_bitmap s AND KBF_RIGHTSHIFT \<noteq> 0) sc"
        "echo ch s = Some s1" "get_term (shown_term_id s1) s1 = Some u"
        "if t_length u < of_nat MAX_TERMINAL then push_input ch s1 = Some s' else s' = s1"
    using assms(1) unfolding visible_key_def visible_def [symmetric] key_char_def
    by (auto simp: Let_def bind_eq_Some_conv split: if_splits)
  then show ?thesis
  proof cases
    case hidden
    then show ?thesis using assms(2) by (simp add: edits_idle)
  next
    case clear
    then have "edit_view s' = edit_view s" by (auto dest: clear_same same_edit_view)
    then show ?thesis using clear assms(2) by (simp add: edits_idle shown_line_def line_of_def)
  next
    case stop
    obtain u where u: "get_term (shown_term_id s) s = Some u" using stop(4) by (auto simp: map_term_def bind_eq_Some_conv)
    show ?thesis
      by (rule map_shown_edits [OF stop(4) _ assms(2) shown_input_ok(1) [OF assms(2) u]])
         (use stop shown_input_ok(2,3) [OF assms(2) u] in
           \<open>simp_all add: hide_cursor_def line_of_def flip: shown_input_ok(1) [OF assms(2) u]\<close>)
  next
    case type
    have v: "edit_view s1 = edit_view s" by (rule echo_edit_view [OF type(4)])
    then have ok: "input_ok s1" using edit_view_cong(2) assms(2) by blast
    have "KBF_SHIFT = KBF_LEFTSHIFT OR KBF_RIGHTSHIFT" by simp
    then have shift: "(keyboard_bitmap s AND KBF_LEFTSHIFT \<noteq> 0 \<or> keyboard_bitmap s AND KBF_RIGHTSHIFT \<noteq> 0) = l_shift (shown_line s)"
      unfolding shown_line_def line_of_def by (simp only: bit.conj_disj_distrib or_eq_0_iff line.simps) auto
    have "edits (type_char ch) s1 s'"
    proof (cases "t_length u < of_nat MAX_TERMINAL")
      case True
      then show ?thesis using push_input_edits [OF _ ok] type(6) by simp
    next
      case False
      have "unat (t_length u) = MAX_TERMINAL"
        using False shown_input_ok(3) [OF ok type(5)] by (simp add: word_less_nat_alt)
      then have "length (l_text (shown_line s1)) = MAX_TERMINAL"
        using shown_input_ok [OF ok type(5)] by (simp add: shown_line_def line_of_def hide_cursor_def flip: shown_input_ok(1) [OF ok type(5)])
      then show ?thesis using False type(6) ok by (simp add: edits_idle type_char_def)
    qed
    then have "edits (type_char ch) s s'" using edits_view(1) [OF v] by simp
    moreover have "\<not> l_ctrl (shown_line s)" using type(2) by (simp add: shown_line_def line_of_def)
    moreover have "ch = key_char (l_shift (shown_line s)) sc" using type(3) shift by simp
    ultimately show ?thesis using type(1) by (simp add: edits_def)
  qed
qed

lemma modifier_edits:
  assumes "input_ok s" "f (shown_line s) = (shown_line s)\<lparr>l_shift := (b AND KBF_SHIFT \<noteq> 0), l_ctrl := (b AND KBF_CONTROL \<noteq> 0)\<rparr>"
  shows "edits f s (s\<lparr>keyboard_bitmap := b\<rparr>)"
  using assms by (simp add: edits_def input_ok_def only_shown_def shown_line_def line_of_def inputs_def)

lemma and_or_modifier: "(b OR f) AND m = (b AND m) OR (f AND m)" for b :: u32
  by (rule bit.conj_disj_distrib2)

lemma and_clear_modifier: "(b AND NOT f) AND m = b AND (NOT f AND m)" for b :: u32
  by (rule and.assoc)

lemma set_modifiers:
  "(b OR KBF_LEFTSHIFT) AND KBF_SHIFT \<noteq> 0" "(b OR KBF_RIGHTSHIFT) AND KBF_SHIFT \<noteq> 0"
  "(b OR KBF_ALT) AND KBF_SHIFT = b AND KBF_SHIFT" "(b OR KBF_CONTROL) AND KBF_SHIFT = b AND KBF_SHIFT"
  "(b OR KBF_LEFTSHIFT) AND KBF_CONTROL = b AND KBF_CONTROL" "(b OR KBF_RIGHTSHIFT) AND KBF_CONTROL = b AND KBF_CONTROL"
  "(b OR KBF_ALT) AND KBF_CONTROL = b AND KBF_CONTROL" "(b OR KBF_CONTROL) AND KBF_CONTROL \<noteq> 0"
  by (simp_all add: and_or_modifier or_eq_0_iff)

lemma clear_modifiers:
  "(b AND NOT KBF_SHIFT) AND KBF_SHIFT = 0" "(b AND NOT KBF_SHIFT) AND KBF_CONTROL = b AND KBF_CONTROL"
  "(b AND NOT KBF_CAPSLOCK) AND KBF_SHIFT = b AND KBF_SHIFT" "(b AND NOT KBF_CAPSLOCK) AND KBF_CONTROL = b AND KBF_CONTROL"
  "(b AND NOT KBF_CONTROL) AND KBF_SHIFT = b AND KBF_SHIFT" "(b AND NOT KBF_CONTROL) AND KBF_CONTROL = 0"
  by (simp_all only: and_clear_modifier) simp_all

text \<open>The keys that only change the modifiers.\<close>

lemma modifier_keys:
  assumes h: "handle_key sc s = Some (eip, s')" and
    sc: "sc \<in> {SC_LEFTSHIFT, SC_RIGHTSHIFT, SC_LEFTSHIFTREL, SC_RIGHTSHIFTREL, SC_CAPSLOCK, SC_LEFTALT,
      SC_LEFTCONTROL, SC_LEFTCONTROLREL}"
  shows "\<exists>b. s' = s\<lparr>keyboard_bitmap := b\<rparr> \<and> eip = None \<and> edit_key sc (shown_line s) =
      (shown_line s)\<lparr>l_shift := (b AND KBF_SHIFT \<noteq> 0), l_ctrl := (b AND KBF_CONTROL \<noteq> 0)\<rparr>"
proof -
  have hidden: "\<not> visible SC_CAPSLOCK" "\<not> visible SC_LEFTALT" by (simp_all add: visible_def visible_scancode_map_def)
  have s: "l_shift (shown_line s) = (keyboard_bitmap s AND KBF_SHIFT \<noteq> 0)" "l_ctrl (shown_line s) = (keyboard_bitmap s AND KBF_CONTROL \<noteq> 0)"
    by (simp_all add: shown_line_def line_of_def)
  then obtain t e p where l: "shown_line s = \<lparr>l_shift = (keyboard_bitmap s AND KBF_SHIFT \<noteq> 0),
      l_ctrl = (keyboard_bitmap s AND KBF_CONTROL \<noteq> 0), l_text = t, l_entered = e, l_stop = p\<rparr>"
    by (cases "shown_line s") simp
  have three: "KBF_LEFTSHIFT OR KBF_RIGHTSHIFT = KBF_SHIFT" by simp
  show ?thesis
    using sc h unfolding l handle_key_def set_modifier_def clear_modifier_def three
    by (elim insertE emptyE) (auto simp: edit_key_def hidden set_modifiers clear_modifiers clear_modifiers [simplified]
      intro!: exI [of _ "keyboard_bitmap s'"])
qed

lemma handle_key_edits:
  assumes h: "handle_key sc s = Some (eip, s')" and ok: "input_ok s" and sc: "\<not> (0x3B \<le> sc \<and> sc \<le> 0x3D)"
  shows "eip = None \<and> edits (edit_key sc) s s'"
proof -
  let ?b = "keyboard_bitmap s"
  consider (modifier) b where "s' = s\<lparr>keyboard_bitmap := b\<rparr>" "eip = None"
      "edit_key sc (shown_line s) = (shown_line s)\<lparr>l_shift := (b AND KBF_SHIFT \<noteq> 0), l_ctrl := (b AND KBF_CONTROL \<noteq> 0)\<rparr>"
    | (tab) s1 where "sc = SC_TAB" "echo 9 s = Some s1" "push_input 9 s1 = Some s'" "eip = None"
    | (bs) "sc = SC_BACKSPACE" "backspace_key s = Some s'" "eip = None"
    | (enter) s1 where "sc = SC_ENTER" "echo 10 s = Some s1" "eip = None"
        "map_term (shown_term_id s1) (\<lambda>u. u\<lparr>t_in_progress := 0\<rparr>) s1 = Some s'"
    | (other) "visible_key sc s = Some s'" "eip = None"
        "edit_key sc = (\<lambda>l. if \<not> visible sc then l
          else if l_ctrl l then (if sc = 0x2E then l\<lparr>l_stop := True\<rparr> else l)
          else type_char (key_char (l_shift l) sc) l)"
  proof (cases "sc \<in> {SC_LEFTSHIFT, SC_RIGHTSHIFT, SC_LEFTSHIFTREL, SC_RIGHTSHIFTREL, SC_CAPSLOCK, SC_LEFTALT,
      SC_LEFTCONTROL, SC_LEFTCONTROLREL}")
    case True
    from modifier_keys [OF h this]
    show ?thesis using modifier by blast
  next
    case False
    then show ?thesis using h sc tab bs enter other
      by (auto simp: handle_key_def edit_key_def bind_eq_Some_conv fun_eq_iff split: if_splits)
  qed
  then show ?thesis
  proof cases
    case modifier
    then show ?thesis using modifier_edits ok by simp
  next
    case tab
    have v: "edit_view s1 = edit_view s" by (rule echo_edit_view [OF tab(2)])
    then have "edits (type_char 9) s s'"
      using push_input_edits [OF tab(3)] edits_view(1) [OF v] edit_view_cong(2) [OF v] ok by simp
    then show ?thesis using tab by (simp add: edits_def edit_key_def)
  next
    case bs
    obtain u where u: "get_term (shown_term_id s) s = Some u" using bs(2) by (auto simp: backspace_key_def bind_eq_Some_conv)
    show ?thesis
    proof (cases "t_length u = 0")
      case True
      then have "l_text (shown_line s) = []"
        by (simp add: shown_line_def line_of_def hide_cursor_def flip: shown_input_ok(1) [OF ok u])
      then show ?thesis using True bs u ok by (simp add: backspace_key_def edit_key_def edits_idle)
    next
      case False
      then obtain s1 where s1: "echo 8 s = Some s1" "pop_input s1 = Some s'"
        using bs u by (auto simp: backspace_key_def bind_eq_Some_conv word_gt_0)
      have v: "edit_view s1 = edit_view s" by (rule echo_edit_view [OF s1(1)])
      then have ok1: "input_ok s1" using ok edit_view_cong(2) by blast
      obtain w where w: "get_term (shown_term_id s1) s1 = Some w" using s1(2) by (auto simp: pop_input_def bind_eq_Some_conv)
      have "hide_cursor w = hide_cursor u"
        using shown_input_ok(1) [OF ok1 w] shown_input_ok(1) [OF ok u] v by (simp add: edit_view_eq)
      from arg_cong [OF this, of t_length] have "t_length w \<noteq> 0" using False by (simp add: hide_cursor_def)
      then have "edits (\<lambda>l. l\<lparr>l_text := butlast (l_text l)\<rparr>) s s'"
        using pop_input_edits [OF s1(2) ok1 w] edits_view(1) [OF v] by simp
      then show ?thesis using bs by (simp add: edits_def edit_key_def)
    qed
  next
    case enter
    have v: "edit_view s1 = edit_view s" by (rule echo_edit_view [OF enter(2)])
    then have ok1: "input_ok s1" using ok edit_view_cong(2) by blast
    obtain u where u: "get_term (shown_term_id s1) s1 = Some u" using enter(4) by (auto simp: map_term_def bind_eq_Some_conv)
    have "edits (\<lambda>l. l\<lparr>l_entered := True\<rparr>) s1 s'"
      by (rule map_shown_edits [OF enter(4) _ ok1 shown_input_ok(1) [OF ok1 u]])
         (use shown_input_ok(2,3) [OF ok1 u] in \<open>simp_all add: hide_cursor_def line_of_def\<close>)
    then show ?thesis using enter edits_view(1) [OF v] by (simp add: edits_def edit_key_def)
  next
    case other
    then show ?thesis using visible_key_edits [OF other(1) ok] by simp
  qed
qed

section \<open>The keyboard and the scheduler\<close>

lemma same_sched: "console_same s s' \<Longrightarrow> sched_of s' = sched_of s"
proof -
  assume "console_same s s'"
  then have b: "console_base s' = console_base s" by (simp add: console_same_def)
  have "map t_pid (terms x) = map t_pid (terms (console_base x))" for x by (simp add: console_base_def)
  then have "map t_pid (terms s') = map t_pid (terms s)" using b by metis
  then show ?thesis using console_base_keeps [OF b] by (simp add: sched_of_def)
qed

lemma echo_sched: "echo c s = Some s' \<Longrightarrow> sched_of s' = sched_of s"
proof (cases "active_term_id s = shown_term_id s")
  case False
  assume "echo c s = Some s'"
  then obtain u :: terminal_t and s1 s2 where s: "putc c (s\<lparr>screen_x := t_cursor_x u, screen_y := t_cursor_y u, video_mem := VIDEO + VIDEO_SIZE\<rparr>) = Some s1"
    "set_term_cursor (shown_term_id s1) (screen_x s1) (screen_y s1) (s1\<lparr>video_mem := VIDEO\<rparr>) = Some s2"
    "s' = (move_cursor (screen_x s2) (screen_y s2) s2)\<lparr>screen_x := screen_x s, screen_y := screen_y s\<rparr>"
    using False by (auto simp: echo_def Let_def bind_eq_Some_conv)
  have "sched_of s1 = sched_of s" using same_sched [OF putc_same [OF s(1)]] by (simp add: sched_of_def)
  moreover have "sched_of s2 = sched_of s1" using same_sched [OF set_term_cursor_same [OF s(2)]] by (simp add: sched_of_def)
  ultimately show ?thesis using s(3) by (simp add: sched_of_def move_cursor_def)
qed (auto simp: echo_def dest!: putc_same same_sched)

lemma input_updates_sched:
  "push_input c s = Some s' \<Longrightarrow> sched_of s' = sched_of s" "pop_input s = Some s' \<Longrightarrow> sched_of s' = sched_of s"
  by (auto simp: push_input_def pop_input_def bind_eq_Some_conv sched_frame_def split: if_splits dest!: map_term_sched)

lemma visible_key_sched: "visible_key sc s = Some s' \<Longrightarrow> sched_of s' = sched_of s"
  by (auto simp: visible_key_def Let_def bind_eq_Some_conv sched_frame_def split: if_splits
      dest!: echo_sched input_updates_sched(1) map_term_sched clear_same same_sched)

lemma handle_key_sched:
  assumes "handle_key sc s = Some (eip, s')" "\<not> (0x3B \<le> sc \<and> sc \<le> 0x3D)"
  shows "eip = None \<and> sched_of s' = sched_of s"
proof (cases "sc \<in> {SC_LEFTSHIFT, SC_RIGHTSHIFT, SC_LEFTSHIFTREL, SC_RIGHTSHIFTREL, SC_CAPSLOCK, SC_LEFTALT,
      SC_LEFTCONTROL, SC_LEFTCONTROLREL}")
  case True
  from modifier_keys [OF assms(1) this] show ?thesis by (auto simp: sched_of_def)
next
  case False
  then consider s1 where "echo 9 s = Some s1" "push_input 9 s1 = Some s'" "eip = None"
    | "backspace_key s = Some s'" "eip = None"
    | s1 where "echo 10 s = Some s1" "map_term (shown_term_id s1) (\<lambda>u. u\<lparr>t_in_progress := 0\<rparr>) s1 = Some s'" "eip = None"
    | "visible_key sc s = Some s'" "eip = None"
    using assms by (auto simp: handle_key_def bind_eq_Some_conv split: if_splits)
  then show ?thesis
    by cases (auto simp: backspace_key_def bind_eq_Some_conv sched_frame_def split: if_splits
      dest!: echo_sched input_updates_sched map_term_sched visible_key_sched)
qed

section \<open>Typing a line\<close>

text \<open>A key press as an interrupt: the controller presents the scan code at its port.\<close>

definition key_port :: "u8 \<Rightarrow> kstate \<Rightarrow> kstate" where
  "key_port sc s = s\<lparr>ports := (ports s)\<lparr>device := (\<lambda>h port. if port = KEYBOARD_PORT then ucast sc else device (ports s) h port)\<rparr>\<rparr>"

definition press :: "u8 \<Rightarrow> irq" where
  "press sc s = do {
     (eip, s) \<leftarrow> keyboard_handler (key_port sc s);
     case eip of None \<Rightarrow> Some s | Some _ \<Rightarrow> None
   }"

text \<open>A console that can print, on the terminal that is both shown and running.\<close>

definition ready :: "u32 \<Rightarrow> kstate \<Rightarrow> bool" where
  "ready b s \<longleftrightarrow> window s b \<and> on_screen s \<and> cursor_ok s \<and> active_term_id s = shown_term_id s \<and> input_ok s"

lemma ready_ports [simp]: "ready b (s\<lparr>ports := io\<rparr>) = ready b s"
  by (simp add: ready_def window_def on_screen_def cursor_ok_def current_def get_current_pcb_def input_ok_def inputs_def)

lemma key_port_simps [simp]:
  "ready b (key_port sc s) = ready b s" "mmu (key_port sc s) = mmu s" "shown_line (key_port sc s) = shown_line s"
  by (simp_all add: key_port_def) (simp add: shown_line_def line_of_def inputs_def)

lemma map_term_ready:
  assumes "map_term t f s = Some s'" "input_ok s'" "ready b s"
  shows "ready b s' \<and> mmu s' = mmu s"
proof -
  have "s' = s\<lparr>terms := (terms s)[unat t := f (terms s ! unat t)]\<rparr>"
    using assms(1) by (auto simp: map_term_def get_term_def bind_eq_Some_conv)
  then show ?thesis using assms(2,3)
    by (simp add: ready_def window_def on_screen_def cursor_ok_def current_def get_current_pcb_def)
qed

lemma echo_ready:
  assumes "ready b s" "c \<noteq> 8" "c \<noteq> 9"
  shows "\<exists>s'. echo c s = Some s' \<and> ready b s' \<and> mmu s' = mmu s"
proof -
  obtain s' where s': "putc c s = Some s'" "console_frame b s s'" "on_screen s'"
    using putc_eq [of s b c] assms by (auto simp: ready_def)
  then have e: "echo c s = Some s'" using assms(1) by (simp add: echo_def ready_def)
  note v = echo_edit_view [OF e]
  have "ready b s'" using console_frame_keeps(1,2) [OF s'(2)] s'(3) assms(1) edit_view_cong(2) [OF v] v
    by (simp add: ready_def edit_view_eq)
  moreover have "mmu s' = mmu s" using console_base_keeps(1) [OF console_frame_keeps(4) [OF s'(2)]] .
  ultimately show ?thesis using e by blast
qed

lemma key_char_plain:
  assumes "visible sc"
  shows "key_char shifted sc \<noteq> 8" "key_char shifted sc \<noteq> 9"
proof -
  have len: "length visible_scancode_map_shifted = length visible_scancode_map"
    by (simp add: visible_scancode_map_def visible_scancode_map_shifted_def)
  have "8 \<notin> set visible_scancode_map" "9 \<notin> set visible_scancode_map"
    "8 \<notin> set visible_scancode_map_shifted" "9 \<notin> set visible_scancode_map_shifted"
    by (simp_all add: visible_scancode_map_def visible_scancode_map_shifted_def of_char_def)
  moreover have "key_char shifted sc \<in> set visible_scancode_map \<union> set visible_scancode_map_shifted"
    using assms len by (auto simp: key_char_def visible_def)
  ultimately show "key_char shifted sc \<noteq> 8" "key_char shifted sc \<noteq> 9" by auto
qed

lemma push_ready:
  assumes r: "ready b s" and u: "get_term (shown_term_id s) s = Some u" "t_length u < of_nat MAX_TERMINAL"
  shows "\<exists>s'. push_input c s = Some s' \<and> ready b s' \<and> mmu s' = mmu s"
proof -
  have ok: "input_ok s" using r by (simp add: ready_def)
  have "unat (t_length u) < length (t_content u)"
    using u(2) shown_input_ok(2) [OF ok u(1)] by (simp add: word_less_nat_alt)
  then obtain s' where s': "push_input c s = Some s'" using u(1) by (simp add: push_input_def map_term_def)
  then have "input_ok s'" using push_input_edits [OF s' ok] by (simp add: edits_def)
  then show ?thesis
    using s' map_term_ready [OF _ _ r] by (auto simp: push_input_def bind_eq_Some_conv split: if_splits)
qed

lemma visible_key_ready:
  assumes r: "ready b s" and v: "visible sc" "keyboard_bitmap s AND KBF_CONTROL = 0"
  shows "\<exists>s'. visible_key sc s = Some s' \<and> ready b s' \<and> mmu s' = mmu s"
proof -
  let ?ch = "key_char (keyboard_bitmap s AND KBF_LEFTSHIFT \<noteq> 0 \<or> keyboard_bitmap s AND KBF_RIGHTSHIFT \<noteq> 0) sc"
  obtain s1 where s1: "echo ?ch s = Some s1" "ready b s1" "mmu s1 = mmu s"
    using echo_ready [OF r key_char_plain [OF v(1)]] by blast
  obtain u where u: "get_term (shown_term_id s1) s1 = Some u"
    using s1(2) by (simp add: ready_def input_ok_def get_term_def nth_opt_Some)
  obtain s2 where s2: "(if t_length u < of_nat MAX_TERMINAL then push_input ?ch s1 else Some s1) = Some s2"
    "ready b s2" "mmu s2 = mmu s"
    using push_ready [OF s1(2) u, of ?ch] s1(2,3) by (cases "t_length u < of_nat MAX_TERMINAL") auto
  have "visible_key sc s = Some s2"
    unfolding visible_key_def visible_def [symmetric] Let_def key_char_def [symmetric] s1(1) bind.bind_lunit u
    using v s2(1) by (simp split: if_splits)
  then show ?thesis using s2 by blast
qed

lemma visible_plain:
  assumes "visible sc"
  shows "sc \<notin> {SC_LEFTSHIFT, SC_RIGHTSHIFT, SC_LEFTSHIFTREL, SC_RIGHTSHIFTREL, SC_CAPSLOCK, SC_LEFTALT,
      SC_LEFTCONTROL, SC_LEFTCONTROLREL, SC_TAB, SC_BACKSPACE, SC_ENTER}" "\<not> (0x3B \<le> sc \<and> sc \<le> 0x3D)"
proof -
  show "\<not> (0x3B \<le> sc \<and> sc \<le> 0x3D)"
    using assms by (auto simp: visible_def visible_scancode_map_def word_le_nat_alt)
  show "sc \<notin> {SC_LEFTSHIFT, SC_RIGHTSHIFT, SC_LEFTSHIFTREL, SC_RIGHTSHIFTREL, SC_CAPSLOCK, SC_LEFTALT,
      SC_LEFTCONTROL, SC_LEFTCONTROLREL, SC_TAB, SC_BACKSPACE, SC_ENTER}"
    using assms by (auto simp: visible_def visible_scancode_map_def)
qed

text \<open>The keys of plain typing: characters and the shift keys.\<close>

definition typing_key :: "u8 \<Rightarrow> bool" where
  "typing_key sc \<longleftrightarrow> visible sc \<or> sc \<in> {SC_LEFTSHIFT, SC_RIGHTSHIFT, SC_LEFTSHIFTREL, SC_RIGHTSHIFTREL}"

lemma typing_key_plain: "typing_key sc \<Longrightarrow> \<not> (0x3B \<le> sc \<and> sc \<le> 0x3D)"
  using visible_plain(2) by (auto simp: typing_key_def)

lemma handle_key_ready:
  assumes r: "ready b s" and sc: "typing_key sc \<or> sc = SC_ENTER" and ctrl: "\<not> l_ctrl (shown_line s)"
  shows "\<exists>s'. handle_key sc s = Some (None, s') \<and> ready b s' \<and> mmu s' = mmu s"
proof -
  have ok: "input_ok s" using r by (simp add: ready_def)
  have kb: "keyboard_bitmap s AND KBF_CONTROL = 0" using ctrl by (simp add: shown_line_def line_of_def)
  consider (visible) "visible sc" | (shift) "sc \<in> {SC_LEFTSHIFT, SC_RIGHTSHIFT, SC_LEFTSHIFTREL, SC_RIGHTSHIFTREL}"
    | (enter) "sc = SC_ENTER" using sc by (auto simp: typing_key_def)
  then show ?thesis
  proof cases
    case visible
    have "handle_key sc s = do { s \<leftarrow> visible_key sc s; Some (None, s) }"
      using visible_plain [OF visible] by (auto simp: handle_key_def)
    then show ?thesis using visible_key_ready [OF r visible kb] by auto
  next
    case shift
    have "ready b (s\<lparr>keyboard_bitmap := w\<rparr>)" for w
      using r by (simp add: ready_def window_def on_screen_def cursor_ok_def current_def get_current_pcb_def input_ok_def inputs_def)
    then show ?thesis using shift by (auto simp: handle_key_def set_modifier_def clear_modifier_def)
  next
    case enter
    obtain s1 where s1: "echo 10 s = Some s1" "ready b s1" "mmu s1 = mmu s" using echo_ready [OF r, of 10] by auto
    obtain s2 where s2: "map_term (shown_term_id s1) (\<lambda>u. u\<lparr>t_in_progress := 0\<rparr>) s1 = Some s2"
      using s1(2) by (auto simp: ready_def input_ok_def map_term_def get_term_def nth_opt_Some)
    have h: "handle_key sc s = Some (None, s2)" using s1 s2 enter by (simp add: handle_key_def)
    then have "input_ok s2" using handle_key_edits [OF h ok] enter by (simp add: edits_def)
    then show ?thesis using h map_term_ready [OF s2 _ s1(2)] s1(3) by auto
  qed
qed

lemma press_ready:
  assumes r: "ready b s" and sc: "typing_key sc \<or> sc = SC_ENTER" and ctrl: "\<not> l_ctrl (shown_line s)"
  shows "\<exists>s'. press sc s = Some s' \<and> ready b s' \<and> mmu s' = mmu s \<and> only_shown s s' \<and>
    shown_line s' = edit_key sc (shown_line s)"
proof -
  obtain io where data: "inb KEYBOARD_PORT (ports (key_port sc s)) = (ucast sc AND 0xFF, io)"
    by (simp add: key_port_def inb_def)
  let ?s1 = "(key_port sc s)\<lparr>ports := io\<rparr>"
  have m: "(0xFF :: u32) = mask 8" by (simp add: mask_eq_exp_minus_1)
  have byte: "ucast (ucast sc AND 0xFF :: u32) = sc" unfolding m by (rule bit_word_eqI) (simp add: bit_simps)
  have v: "edit_view ?s1 = edit_view s" by (simp add: key_port_def)
  have "ready b ?s1" "\<not> l_ctrl (shown_line ?s1)" using r ctrl edit_view_cong(1) [OF v] by simp_all
  from handle_key_ready [OF this(1) sc this(2)] obtain s2 where s2: "handle_key sc ?s1 = Some (None, s2)"
    "ready b s2" "mmu s2 = mmu s" by auto
  have "press sc s = Some (s2\<lparr>ports := send_eoi KEYBOARD_IRQ (ports s2)\<rparr>)"
    unfolding press_def keyboard_handler_def data using s2(1) by (simp add: byte)
  moreover have "input_ok ?s1" using \<open>ready b ?s1\<close> by (simp add: ready_def)
  then have "edits (edit_key sc) ?s1 s2"
    using handle_key_edits [OF s2(1)] typing_key_plain sc by auto
  then have "edits (edit_key sc) s s2" using edits_view(1) [OF v] by simp
  ultimately show ?thesis using s2(2,3) edit_view_cong [of "s2\<lparr>ports := send_eoi KEYBOARD_IRQ (ports s2)\<rparr>" s2]
    by (simp add: edits_def)
qed

lemma shown_terminal:
  assumes "ready b s"
  obtains u where "get_term (active_term_id s) s = Some u" "length (t_content u) = MAX_TERMINAL"
    "unat (t_length u) \<le> MAX_TERMINAL" "l_text (shown_line s) = take (unat (t_length u)) (t_content u)"
    "l_entered (shown_line s) = (t_in_progress u = 0)"
proof -
  have ok: "input_ok s" "active_term_id s = shown_term_id s" using assms by (simp_all add: ready_def)
  then obtain u where u: "get_term (shown_term_id s) s = Some u" by (simp add: input_ok_def get_term_def nth_opt_Some)
  note h = shown_input_ok [OF ok(1) u]
  have "l_text (shown_line s) = take (unat (t_length u)) (t_content u)" "l_entered (shown_line s) = (t_in_progress u = 0)"
    unfolding shown_line_def h(1) [symmetric] by (simp_all add: line_of_def hide_cursor_def)
  with h u show ?thesis using that ok(2) by simp
qed

lemma edit_typing_key:
  "typing_key sc \<Longrightarrow> l_ctrl (edit_key sc l) = l_ctrl l"
  "typing_key sc \<Longrightarrow> l_entered (edit_key sc l) = l_entered l"
  using visible_plain(1) [of sc] by (auto simp: typing_key_def edit_key_def type_char_def)

lemma wait_typed:
  "ready b s \<Longrightarrow> \<not> l_ctrl (shown_line s) \<Longrightarrow> \<not> l_entered (shown_line s) \<Longrightarrow> list_all typing_key codes \<Longrightarrow>
   \<exists>s'. wait_input (map press (codes @ [SC_ENTER])) s = Some s' \<and> ready b s' \<and> mmu s' = mmu s \<and>
     only_shown s s' \<and> shown_line s' = edit_key SC_ENTER (fold edit_key codes (shown_line s))"
proof (induction codes arbitrary: s)
  case Nil
  obtain u where u: "get_term (active_term_id s) s = Some u" "t_in_progress u \<noteq> 0"
    using shown_terminal [OF Nil.prems(1)] Nil.prems(3) by metis
  obtain s' where s': "press SC_ENTER s = Some s'" "ready b s'" "mmu s' = mmu s" "only_shown s s'"
    "shown_line s' = edit_key SC_ENTER (shown_line s)" using press_ready [OF Nil.prems(1) _ Nil.prems(2)] by blast
  have "l_entered (shown_line s')" using s'(5) by (simp add: edit_key_def)
  then obtain v where "get_term (active_term_id s') s' = Some v" "t_in_progress v = 0"
    using shown_terminal [OF s'(2)] by metis
  then have "wait_input [] s' = Some s'" by (subst wait_input.simps) simp
  then have "wait_input [press SC_ENTER] s = Some s'"
    using u s'(1) by (subst wait_input.simps) simp
  then show ?case using s' by simp
next
  case (Cons sc codes)
  obtain u where u: "get_term (active_term_id s) s = Some u" "t_in_progress u \<noteq> 0"
    using shown_terminal [OF Cons.prems(1)] Cons.prems(3) by metis
  obtain s1 where s1: "press sc s = Some s1" "ready b s1" "mmu s1 = mmu s" "only_shown s s1"
    "shown_line s1 = edit_key sc (shown_line s)"
    using press_ready [OF Cons.prems(1) _ Cons.prems(2), of sc] Cons.prems(4) by auto
  have "\<not> l_ctrl (shown_line s1)" "\<not> l_entered (shown_line s1)" "list_all typing_key codes"
    using s1(5) Cons.prems edit_typing_key by auto
  from Cons.IH [OF s1(2) this] obtain s' where s': "wait_input (map press (codes @ [SC_ENTER])) s1 = Some s'"
    "ready b s'" "mmu s' = mmu s" "only_shown s1 s'"
    "shown_line s' = edit_key SC_ENTER (fold edit_key (sc # codes) (shown_line s))" using s1 by auto
  have "wait_input (map press ((sc # codes) @ [SC_ENTER])) s = Some s'"
    using u s1(1) s'(1) by (subst wait_input.simps) simp
  moreover have "only_shown s s'" using s1(4) s'(4) by (simp add: only_shown_def)
  ultimately show ?case using s' by blast
qed

text \<open>The return of \<^verbatim>\<open>terminal_read\<close> once the line has been entered.\<close>

lemma map_active_ready:
  assumes "ready b s" "\<And>u. length (t_content (f u)) = length (t_content u)" "\<And>u. unat (t_length (f u)) \<le> unat (t_length u)"
    and "\<And>u. hide_cursor (f u) = f (hide_cursor u)" "\<And>u. line_of s (f u) = g (line_of s u)"
  shows "\<exists>s'. map_term (active_term_id s) f s = Some s' \<and> ready b s' \<and> mmu s' = mmu s \<and> phys s' = phys s \<and>
    edits g s s'"
proof -
  have r: "input_ok s" "active_term_id s = shown_term_id s" using assms(1) by (simp_all add: ready_def)
  obtain u where u: "get_term (shown_term_id s) s = Some u"
    using r by (simp add: input_ok_def get_term_def nth_opt_Some)
  then obtain s' where s': "map_term (shown_term_id s) f s = Some s'" "phys s' = phys s" by (simp add: map_term_def)
  have "length (t_content (f (hide_cursor u))) = MAX_TERMINAL" "unat (t_length (f (hide_cursor u))) \<le> MAX_TERMINAL"
    using assms(2,3) [of "hide_cursor u"] shown_input_ok(2,3) [OF r(1) u] by (simp_all add: hide_cursor_def)
  then have e: "edits g s s'"
    using map_shown_edits [OF s'(1) assms(4) r(1) shown_input_ok(1) [OF r(1) u]] assms(5) by blast
  then have "input_ok s'" by (simp add: edits_def)
  then show ?thesis using map_term_ready [OF s'(1) _ assms(1)] s' r(2) e by simp
qed

lemma ready_phys [simp]: "ready b (s\<lparr>phys := m\<rparr>) = ready b s"
  by (simp add: ready_def on_screen_def cursor_ok_def current_def get_current_pcb_def input_ok_def inputs_def)

lemma phys_edit_view [simp]: "edit_view (s\<lparr>phys := m\<rparr>) = edit_view s"
  by (simp add: edit_view_def inputs_def)

lemma edit_entered:
  "typing_key sc \<Longrightarrow> edit_key sc (l\<lparr>l_entered := e\<rparr>) = (edit_key sc l)\<lparr>l_entered := e\<rparr>"
  using visible_plain(1) [of sc] by (auto simp: typing_key_def edit_key_def type_char_def)

lemma fold_edit_entered:
  "list_all typing_key codes \<Longrightarrow> fold edit_key codes (l\<lparr>l_entered := e\<rparr>) = (fold edit_key codes l)\<lparr>l_entered := e\<rparr>"
  by (induction codes arbitrary: l) (simp_all add: edit_entered)

lemma copy_in_cong: "mmu s' = mmu s \<Longrightarrow> phys s' = phys s \<Longrightarrow> copy_in a n s' = copy_in a n s"
  by (induction n arbitrary: a) (simp_all add: vload_def split: option.split)

text \<open>What is delivered for an entered line of length \<open>len\<close>: the terminator if it fits, then the bytes.\<close>

lemma deliver_line:
  assumes m: "mapped s buf (unat (count :: u32)) p" and len: "length str < 2 ^ 31"
  shows "\<exists>s1 s2. (if count > of_nat (length str) then vstore (buf + of_nat (length str)) 0 s else Some s) = Some s1 \<and>
    copy_out buf (take (unat count) str) s1 = Some s2 \<and> (\<exists>m. s2 = s\<lparr>phys := m\<rparr>) \<and> (\<exists>m. s1 = s\<lparr>phys := m\<rparr>) \<and>
    copy_in buf (min (unat count) (length str)) s2 = take (unat count) str \<and>
    (length str < unat count \<longrightarrow> vload (buf + of_nat (length str)) s2 = Some 0)"
proof -
  let ?l = "length str" and ?n = "min (unat count) (length str)"
  let ?m = "if ?l < unat count then (phys s)(p + of_nat ?l := 0) else phys s"
  have ul: "unat (of_nat ?l :: u32) = ?l" using len by (intro unat_of_nat_small) simp
  have cmp: "count > of_nat ?l \<longleftrightarrow> ?l < unat count" using ul by (simp add: word_less_nat_alt)
  have at: "translate (mmu s) (buf + of_nat ?l) = Some (p + of_nat ?l)" if "?l < unat count"
    using m that by (simp add: mapped_def)
  have one: "(if count > of_nat ?l then vstore (buf + of_nat ?l) 0 s else Some s) = Some (s\<lparr>phys := ?m\<rparr>)"
    using at unfolding cmp by (simp add: vstore_def store_virtual_def)
  let ?s2 = "s\<lparr>phys := put_bytes p (take (unat count) str) ?m\<rparr>"
  have ln: "length (take (unat count) str) = ?n" "?n < 2 ^ 32" using len by auto
  have mn: "mapped (s\<lparr>phys := w\<rparr>) buf ?n p" for w using m by (simp add: mapped_def)
  have "copy_out buf (take (unat count) str) (s\<lparr>phys := ?m\<rparr>) = Some ?s2"
    using copy_out_eq [of "s\<lparr>phys := ?m\<rparr>" buf "take (unat count) str" p] mn ln by simp
  moreover have "copy_in buf ?n ?s2 = take (unat count) str"
    using copy_in_put_bytes [of ?s2 buf "take (unat count) str" p ?m] mn ln by simp
  moreover have "vload (buf + of_nat ?l) ?s2 = Some 0" if "?l < unat count"
  proof -
    have "unat (p + of_nat ?l - p) = ?l" using ul by simp
    then have "put_bytes p (take (unat count) str) ?m (p + of_nat ?l) = 0"
      using that ln by (subst put_bytes_at) auto
    then show ?thesis using at [OF that] by (simp add: vload_def load_virtual_def)
  qed
  ultimately show ?thesis using one by blast
qed

lemma typed_line_read:
  assumes "ready b s" "\<not> l_ctrl (shown_line s)" "list_all typing_key codes"
    and "buf \<noteq> 0" "count \<noteq> 0" "mapped s buf (unat count) p"
    and "str = l_text (fold edit_key codes (shown_line s))"
  shows "\<exists>s'. terminal_read (map press (codes @ [SC_ENTER])) fd buf count s =
      Some (of_nat (min (unat count) (length str)), s') \<and>
    copy_in buf (min (unat count) (length str)) s' = take (unat count) str \<and>
    (length str < unat count \<longrightarrow> vload (buf + of_nat (length str)) s' = Some 0) \<and>
    l_text (shown_line s') = [] \<and> only_shown s s' \<and> ready b s'"
proof -
  obtain s1 where s1: "map_term (active_term_id s) (\<lambda>u. u\<lparr>t_in_progress := 1\<rparr>) s = Some s1" "ready b s1" "mmu s1 = mmu s"
    "edits (\<lambda>l. l\<lparr>l_entered := False\<rparr>) s s1"
    using map_active_ready [OF assms(1), of "\<lambda>u. u\<lparr>t_in_progress := 1\<rparr>" "\<lambda>l. l\<lparr>l_entered := False\<rparr>"]
    by (auto simp: hide_cursor_def line_of_def)
  have l1: "shown_line s1 = (shown_line s)\<lparr>l_entered := False\<rparr>" using s1(4) by (simp add: edits_def)
  obtain s2 where s2: "wait_input (map press (codes @ [SC_ENTER])) s1 = Some s2" "ready b s2" "mmu s2 = mmu s"
    "only_shown s1 s2" "shown_line s2 = edit_key SC_ENTER (fold edit_key codes (shown_line s1))"
    using wait_typed [OF s1(2) _ _ assms(3)] l1 assms(2) s1(3) by auto
  have typed: "l_text (shown_line s2) = str"
    unfolding s2(5) l1 fold_edit_entered [OF assms(3)] assms(7) by (simp add: edit_key_def)
  obtain u where u: "get_term (active_term_id s2) s2 = Some u" "length (t_content u) = MAX_TERMINAL"
    "unat (t_length u) \<le> MAX_TERMINAL" "str = take (unat (t_length u)) (t_content u)"
    using shown_terminal [OF s2(2)] typed by metis
  have len: "t_length u = of_nat (length str)" "length str \<le> MAX_TERMINAL" "str = take (length str) (t_content u)"
    unfolding u(4) using u(2,3) by simp_all
  have m: "mapped s2 buf (unat count) p" using assms(6) s2(3) by (simp add: mapped_def)
  obtain s3 s4 w w' where d: "(if count > of_nat (length str) then vstore (buf + of_nat (length str)) 0 s2 else Some s2) = Some s3"
    "copy_out buf (take (unat count) str) s3 = Some s4" "s4 = s2\<lparr>phys := w\<rparr>" "s3 = s2\<lparr>phys := w'\<rparr>"
    "copy_in buf (min (unat count) (length str)) s4 = take (unat count) str"
    "length str < unat count \<longrightarrow> vload (buf + of_nat (length str)) s4 = Some 0"
    using deliver_line [OF m, of str] len(2) by auto
  let ?n = "min (unat count) (length str)"
  have n: "(if count > of_nat (length str) then of_nat (length str) else count) = of_nat ?n"
    using len(2) by (auto simp: word_less_nat_alt unat_of_nat_small min_def)
  have un: "unat (of_nat ?n :: u32) = ?n" using len(2) by (simp add: unat_of_nat_small)
  have "take ?n (t_content u) = take (unat count) (take (length str) (t_content u))" by (simp add: take_take)
  also have "\<dots> = take (unat count) str" by (simp only: len(3) [symmetric])
  finally have bytes: "slice_opt (t_content u) 0 ?n = Some (take (unat count) str)"
    using u(2) len(2) by (simp add: slice_opt_def)
  have r4: "ready b s4" using s2(2) by (simp add: d(3))
  obtain s' where s': "map_term (active_term_id s4) (\<lambda>u. u\<lparr>t_length := 0, t_in_progress := 1\<rparr>) s4 = Some s'"
    "mmu s' = mmu s4" "phys s' = phys s4" "edits (\<lambda>l. l\<lparr>l_text := [], l_entered := False\<rparr>) s4 s'" "ready b s'"
    using map_active_ready [OF r4, of "\<lambda>u. u\<lparr>t_length := 0, t_in_progress := 1\<rparr>" "\<lambda>l. l\<lparr>l_text := [], l_entered := False\<rparr>"]
    by (auto simp: hide_cursor_def line_of_def)
  have "terminal_read (map press (codes @ [SC_ENTER])) fd buf count s = Some (of_nat ?n, s')"
    using assms(4,5) s'(1) unfolding terminal_read_def s1(1) s2(1) u(1) bind.bind_lunit len(1) d(1) Let_def n un bytes d(2)
    by simp
  moreover have "copy_in buf ?n s' = take (unat count) str"
  proof -
    have "copy_in buf ?n s' = copy_in buf ?n s4" using copy_in_cong s'(2,3) by blast
    then show ?thesis using d(5) by simp
  qed
  moreover have "vload (buf + of_nat (length str)) s' = vload (buf + of_nat (length str)) s4"
    using s'(2,3) by (simp add: vload_def)
  moreover have "only_shown s4 s'" "l_text (shown_line s') = []" using s'(4) by (simp_all add: edits_def)
  moreover have "only_shown s s1" using s1(4) by (simp add: edits_def)
  moreover have "only_shown s2 s4" using edit_view_cong(3) [of s4 s2] by (simp add: d(3))
  ultimately show ?thesis using d(6) s2(4) s'(5) by (auto simp: only_shown_def)
qed

section \<open>Properties\<close>

text \<open>C6: for every scan code but those of the function keys, a keyboard interrupt that returns has
  changed the line of the terminal shown as the line editor does (shift and control, a character of the right map
  while there is room, tab, backspace, Enter, Ctrl+C), has left the input of every other terminal alone, keeps
  the buffers well formed and ends with the end-of-interrupt command for line 1.\<close>

theorem keyboard_refines:
  assumes "keyboard_handler s = Some (eip, s')" "input_ok s" "sc = ucast (fst (inb KEYBOARD_PORT (ports s)))"
    and "\<not> (0x3B \<le> sc \<and> sc \<le> 0x3D)"
  shows "eip = None \<and> shown_line s' = edit_key sc (shown_line s) \<and> only_shown s s' \<and> input_ok s' \<and>
    hd (hist (ports s')) = Out8 MASTER_8259_COMMAND 0x61"
proof -
  let ?s1 = "s\<lparr>ports := snd (inb KEYBOARD_PORT (ports s))\<rparr>"
  obtain e s2 where k: "handle_key sc ?s1 = Some (e, s2)"
    "(case e of Some a \<Rightarrow> Some (Some a, s2) | None \<Rightarrow> Some (None, s2\<lparr>ports := send_eoi KEYBOARD_IRQ (ports s2)\<rparr>)) = Some (eip, s')"
    using assms(1,3) by (auto simp: keyboard_handler_def bind_eq_Some_conv split: prod.splits)
  have "input_ok ?s1" using assms(2) edit_view_cong(2) [of ?s1 s] by simp
  then have e: "e = None" "edits (edit_key sc) s s2"
    using handle_key_edits [OF k(1) _ assms(4)] edits_view(1) [of ?s1 s] by auto
  then have s': "eip = None" "s' = s2\<lparr>ports := send_eoi KEYBOARD_IRQ (ports s2)\<rparr>" using k(2) by simp_all
  have "edits (edit_key sc) s s'" using e(2) edits_view(2) [of s' s2] by (simp only: s'(2) edit_view_updates)
  then show ?thesis using s' by (simp add: edits_def send_eoi_def MASTER_8259_COMMAND_def)
qed

text \<open>C5: a program that reads the terminal while the user types characters and shift keys and then
  Enter gets exactly the line: \<^verbatim>\<open>terminal_read\<close> returns the length of the text, cut to the buffer given, the
  buffer holds the text, with a terminating 0 when it fits, and the line is empty again. The text is cut at 128
  characters.\<close>

theorem typed_line_is_read:
  assumes "ready b s" "\<not> l_ctrl (shown_line s)" "list_all typing_key codes"
    and "buf \<noteq> 0" "count \<noteq> 0" "mapped s buf (unat count) p"
    and "str = l_text (fold edit_key codes (shown_line s))"
  shows "\<exists>s'. terminal_read (map press (codes @ [SC_ENTER])) fd buf count s =
      Some (of_nat (min (unat count) (length str)), s') \<and>
    copy_in buf (min (unat count) (length str)) s' = take (unat count) str \<and>
    (length str < unat count \<longrightarrow> vload (buf + of_nat (length str)) s' = Some 0) \<and>
    l_text (shown_line s') = [] \<and> only_shown s s'"
  using typed_line_read [OF assms] by blast

text \<open>The sample state, with its terminal being read.\<close>

lemma sample_input_ok: "input_ok sample_state" "shown_line sample_state = \<lparr>l_shift = False, l_ctrl = False, l_text = [], l_entered = True, l_stop = False\<rparr>"
  by (simp_all add: input_ok_def shown_line_def line_of_def inputs_def hide_cursor_def sample_state_def sample_terminal_def upt_conv_Cons)

lemma sample_ready: "ready 0xB8000 sample_state"
  using sample_window sample_on_screen sample_cursor sample_input_ok by (simp add: ready_def) (simp add: sample_state_def)

theorem keyboard_refines_witness:
  "\<exists>s'. keyboard_handler (key_port 0x1E sample_state) = Some (None, s') \<and> l_text (shown_line s') = [97]"
proof -
  let ?s = "key_port 0x1E sample_state"
  have vis: "visible 0x1E" by (simp add: visible_def visible_scancode_map_def)
  obtain s1 where "press 0x1E sample_state = Some s1"
    using press_ready [OF sample_ready, of "0x1E"] vis by (auto simp: typing_key_def sample_input_ok)
  then obtain s' where s': "keyboard_handler ?s = Some (None, s')"
    by (auto simp: press_def bind_eq_Some_conv split: option.splits)
  have ok: "input_ok ?s" using sample_ready key_port_simps(1) by (simp add: ready_def) (simp add: key_port_def input_ok_def inputs_def)
  have "shown_line s' = edit_key 0x1E (shown_line ?s)"
    using keyboard_refines [OF s' ok refl] by (simp add: key_port_def inb_def)
  also have "\<dots> = edit_key 0x1E (shown_line sample_state)" by simp
  also have "l_text \<dots> = [97]"
    by (simp add: edit_key_def vis sample_input_ok type_char_def key_char_def visible_scancode_map_def of_char_def)
  finally show ?thesis using s' by auto
qed

theorem typed_line_is_read_witness:
  "\<exists>s'. terminal_read (map press ([0x23, 0x17] @ [SC_ENTER])) 0 0x500000 4 sample_state = Some (2, s') \<and>
     copy_in 0x500000 2 s' = [104, 105] \<and> vload 0x500002 s' = Some 0"
proof -
  have vis: "visible 0x23" "visible 0x17" by (simp_all add: visible_def visible_scancode_map_def)
  have m: "mapped sample_state 0x500000 (unat (4 :: u32)) 0x500000" using sample_buffer [of sample_state] by (simp add: sample_state_def)
  have typed: "[104, 105] = l_text (fold edit_key [0x23, 0x17] (shown_line sample_state))"
    by (simp add: edit_key_def vis sample_input_ok type_char_def key_char_def visible_scancode_map_def of_char_def)
  have two: "min (unat (4 :: u32)) (length [104, 105 :: u8]) = 2" "take (unat (4 :: u32)) [104, 105 :: u8] = [104, 105]"
    "length [104, 105 :: u8] < unat (4 :: u32)" "(0x500000 :: u32) + of_nat (length [104, 105 :: u8]) = 0x500002"
    "(of_nat 2 :: u32) = 2" by simp_all
  have "\<not> l_ctrl (shown_line sample_state)" "list_all typing_key [0x23, 0x17]" "(0x500000 :: u32) \<noteq> 0" "(4 :: u32) \<noteq> 0"
    by (simp_all add: sample_input_ok typing_key_def vis)
  from typed_line_is_read [OF sample_ready this m typed, of 0, unfolded two] show ?thesis using two(3) by blast
qed

lemma echo_tab:
  assumes "ready b s"
  shows "\<exists>s'. echo 9 s = Some s'"
proof -
  have w: "window s b" "on_screen s" "cursor_ok s" "active_term_id s = shown_term_id s" using assms by (simp_all add: ready_def)
  obtain s1 where s1: "putc_tab s = Some s1" "console_frame b s s1" using putc_tab_eq [OF w(1,2)] by blast
  have "cursor_ok s1" using console_frame_keeps(2) [OF s1(2)] w(3) by simp
  then obtain s2 where "putc_cursor s1 = Some s2" using putc_cursor_eq by blast
  then show ?thesis using s1(1) w(4) by (simp add: echo_def putc_def)
qed

text \<open>C38: a tab is stored without a test of the length. It is always echoed, and its place in the buffer of 128 bytes
  is the length of the line; so the interrupt of the tab key goes wrong exactly when the line is full: the
  byte is then to be stored at index 128, one past the end of the array.\<close>

theorem tab_overruns_full_line:
  assumes "ready b s" "ucast (fst (inb KEYBOARD_PORT (ports s))) = SC_TAB"
  shows "\<exists>s1 u. echo 9 (s\<lparr>ports := snd (inb KEYBOARD_PORT (ports s))\<rparr>) = Some s1 \<and>
    get_term (shown_term_id s1) s1 = Some u \<and> length (t_content u) = MAX_TERMINAL \<and>
    unat (t_length u) = length (l_text (shown_line s)) \<and>
    (length (l_text (shown_line s)) < MAX_TERMINAL \<longrightarrow>
      (\<exists>s'. keyboard_handler s = Some (None, s') \<and> l_text (shown_line s') = l_text (shown_line s) @ [9])) \<and>
    (length (l_text (shown_line s)) = MAX_TERMINAL \<longrightarrow> keyboard_handler s = None)"
proof -
  let ?s0 = "s\<lparr>ports := snd (inb KEYBOARD_PORT (ports s))\<rparr>"
  have r0: "ready b ?s0" using assms(1) by simp
  obtain s1 where s1: "echo 9 ?s0 = Some s1" using echo_tab [OF r0] by blast
  have v: "edit_view s1 = edit_view s" using echo_edit_view [OF s1] by simp
  have ok: "input_ok s1" "shown_line s1 = shown_line s" using assms(1) edit_view_cong(1,2) [OF v] by (simp_all add: ready_def)
  then obtain u where u: "get_term (shown_term_id s1) s1 = Some u" by (auto simp: input_ok_def get_term_def nth_opt_Some)
  note h = shown_input_ok [OF ok(1) u]
  have "unat (t_length u) = length (l_text (shown_line s1))"
    unfolding shown_line_def h(1) [symmetric] using h(2,3) by (simp add: line_of_def hide_cursor_def)
  then have len: "unat (t_length u) = length (l_text (shown_line s))" using ok(2) by simp
  have k: "keyboard_handler s = (case push_input 9 s1 of None \<Rightarrow> None
      | Some s2 \<Rightarrow> Some (None, s2\<lparr>ports := send_eoi KEYBOARD_IRQ (ports s2)\<rparr>))"
    using assms(2) s1 by (cases "push_input 9 s1") (simp_all add: keyboard_handler_eq handle_key_def)
  have "keyboard_handler s = None" if "length (l_text (shown_line s)) = MAX_TERMINAL"
    using that len h(2) u by (simp add: k push_input_def)
  moreover have "\<exists>s'. keyboard_handler s = Some (None, s') \<and> l_text (shown_line s') = l_text (shown_line s) @ [9]"
    if short: "length (l_text (shown_line s)) < MAX_TERMINAL"
  proof -
    have "push_input 9 s1 \<noteq> None" using short len h(2) u by (simp add: push_input_def map_term_def)
    then obtain s2 where s2: "push_input 9 s1 = Some s2" by blast
    have "shown_line s2 = type_char 9 (shown_line s)" using push_input_edits [OF s2 ok(1)] ok(2) by (simp add: edits_def)
    moreover have "shown_line (s2\<lparr>ports := io\<rparr>) = shown_line s2" for io by (simp add: shown_line_def inputs_def line_of_def)
    ultimately show ?thesis using s2 short by (simp add: k type_char_def)
  qed
  ultimately show ?thesis using s1 u h(2) len by (intro exI [of _ s1] exI [of _ u]) simp
qed

theorem tab_overruns_full_line_witness:
  "keyboard_handler (key_port SC_TAB (sample_state\<lparr>terms := map (\<lambda>u. u\<lparr>t_length := 128\<rparr>) (terms sample_state)\<rparr>)) = None"
proof -
  let ?s = "key_port SC_TAB (sample_state\<lparr>terms := map (\<lambda>u. u\<lparr>t_length := 128\<rparr>) (terms sample_state)\<rparr>)"
  have "input_ok ?s"
    by (simp add: key_port_def input_ok_def inputs_def hide_cursor_def sample_state_def sample_terminal_def upt_conv_Cons)
  moreover have "window ?s 0xB8000"
    using sample_window by (simp add: key_port_def window_def)
  moreover have "cursor_ok ?s" using sample_cursor by (simp add: key_port_def cursor_ok_def current_def get_current_pcb_def)
  ultimately have r: "ready 0xB8000 ?s"
    using sample_on_screen by (simp add: ready_def on_screen_def key_port_def) (simp add: sample_state_def)
  have l: "length (l_text (shown_line ?s)) = MAX_TERMINAL"
    by (simp add: key_port_def shown_line_def line_of_def inputs_def hide_cursor_def sample_state_def sample_terminal_def upt_conv_Cons)
  have "ucast (fst (inb KEYBOARD_PORT (ports ?s))) = SC_TAB"
    by (simp add: key_port_def inb_def)
  then show ?thesis using tab_overruns_full_line [OF r] l by blast
qed

text \<open>C22: the keyboard interrupt keeps the scheduler's invariant: a function key of a terminal that is not
  shown leaves the handler for the process of that terminal, which is then both shown and running; every other key returns
  to the process interrupted and leaves the processes, the terminals' programs and the address space as they were.\<close>

theorem keyboard_keeps_schedule:
  assumes "sched_ok s" "entered s" "keyboard_handler s = Some (eip, s')"
    and "sc = (ucast (fst (inb KEYBOARD_PORT (ports s))) :: u8)" "k = ucast sc - 0x3B"
  shows "sched_ok s' \<and>
    (if 0x3B \<le> sc \<and> sc \<le> 0x3D \<and> k \<noteq> shown_term_id s
     then eip \<noteq> None \<and> active_term_id s' = k \<and> shown_term_id s' = k
     else eip = None \<and> sched_of s' = sched_of s)"
proof -
  let ?s1 = "s\<lparr>ports := snd (inb KEYBOARD_PORT (ports s))\<rparr>"
  obtain e s2 where h: "handle_key sc ?s1 = Some (e, s2)"
    "(case e of Some a \<Rightarrow> Some (Some a, s2) | None \<Rightarrow> Some (None, s2\<lparr>ports := send_eoi KEYBOARD_IRQ (ports s2)\<rparr>)) = Some (eip, s')"
    using assms(3,4) by (auto simp: keyboard_handler_eq bind_eq_Some_conv)
  have v: "sched_of ?s1 = sched_of s" "entered ?s1" "shown_term_id ?s1 = shown_term_id s"
    using assms(2) by (simp_all add: sched_of_def entered_def on_stack_of_def)
  have ok1: "sched_ok ?s1" using assms(1) v(1) by (simp add: sched_ok_def)
  have ret: "eip = None \<and> sched_of s' = sched_of s2" if "e = None" using h(2) that by (auto simp: sched_of_def)
  show ?thesis
  proof (cases "0x3B \<le> sc \<and> sc \<le> 0x3D")
    case False
    then show ?thesis using handle_key_sched [OF h(1) False] ret v(1) assms(1) by (auto simp: sched_ok_def)
  next
    case True
    have sc: "unat sc = 59 \<or> unat sc = 60 \<or> unat sc = 61" using True by (auto simp: word_le_nat_alt)
    moreover have "sc = of_nat (unat sc)" by simp
    ultimately have "sc = of_nat 59 \<or> sc = of_nat 60 \<or> sc = of_nat 61" by metis
    then have sck: "(sc = 59 \<and> k = 0) \<or> (sc = 60 \<and> k = 1) \<or> (sc = 61 \<and> k = 2)" using assms(5) by auto
    then have k: "unat k < TERMINAL_COUNT" by auto
    have sw: "switch_terminal k ?s1 = Some (e, s2)" using h(1) sck by (auto simp: handle_key_def)
    show ?thesis
    proof (cases "k = shown_term_id s")
      case True
      then have "e = None" "s2 = ?s1" using sw by (auto simp: switch_terminal_def)
      then show ?thesis using True ret v(1) assms(1) by (simp add: sched_ok_def)
    next
      case neq: False
      obtain a s3 where s3: "switch_terminal k ?s1 = Some (Some a, s3)" "sched_ok s3"
        "sched_of s3 = switch_to k k (ebp ?s1) (sched_of ?s1)"
        using switch_terminal_eq [OF ok1 v(2) k] neq by auto
      then have "eip = Some a" "s' = s3" using sw h(2) by auto
      moreover have "active_term_id s3 = k" "shown_term_id s3 = k"
        using arg_cong [OF s3(3), of s_active] arg_cong [OF s3(3), of s_shown] by (simp_all add: sched_of_def switch_to_def Let_def)
      ultimately show ?thesis using s3(2) True neq by simp
    qed
  qed
qed

theorem keyboard_keeps_schedule_witness:
  "\<exists>eip s'. keyboard_handler (key_port 0x3D shells_state) = Some (Some eip, s') \<and> shown_term_id s' = 2"
proof -
  let ?s = "key_port 0x3D shells_state" and ?s1 = "(key_port 0x3D shells_state)\<lparr>ports := snd (inb KEYBOARD_PORT (ports (key_port 0x3D shells_state)))\<rparr>"
  have v: "sched_of ?s = sched_of shells_state" "sched_of ?s1 = sched_of shells_state" "esp ?s = esp shells_state"
    "ebp ?s = ebp shells_state" "shown_term_id ?s = 0" "shown_term_id ?s1 = 0" "esp ?s1 = esp shells_state" "ebp ?s1 = ebp shells_state"
    by (simp_all add: key_port_def sched_of_def) (simp_all add: shells_state_def sample_state_def)
  have ok: "sched_ok ?s" "entered ?s" "sched_ok ?s1" "entered ?s1"
    using shells_state_ok shells_entered v by (simp_all add: sched_ok_def entered_def on_stack_of_def)
  have code: "ucast (fst (inb KEYBOARD_PORT (ports ?s))) = (0x3D :: u8)" by (simp add: key_port_def inb_def)
  obtain a s' where "switch_terminal 2 ?s1 = Some (Some a, s')"
    using switch_terminal_eq [OF ok(3,4), of 2] v(6) by auto
  then have k: "keyboard_handler ?s = Some (Some a, s')" unfolding keyboard_handler_eq code by (simp add: handle_key_def)
  from keyboard_keeps_schedule [OF ok(1,2) k refl refl] show ?thesis using k code v(5) by auto
qed

end
