(* ===== verification/Idt.thy ===== *)
theory Idt imports Keyboard begin

text \<open>
  The interrupt descriptor table and the exception handlers of \<^verbatim>\<open>src/student-distrib/idt.c\<close>. A descriptor is a pair of
  words whose bit fields are those of \<^verbatim>\<open>idt_desc_t\<close> in \<^verbatim>\<open>x86_desc.h\<close>; what the processor makes of it is the abstract
  gate \<open>gate_of\<close>. The addresses of the handlers and of the wrappers of \<^verbatim>\<open>linkage.S\<close> are parameters.
\<close>

section \<open>The exception handlers\<close>

text \<open>The address that faulted is in a control register, the parameter \<open>cr2\<close>; \<open>frame\<close> is the stack frame of
  \<^verbatim>\<open>printf\<close>.\<close>

type_synonym exception_handler = "mem \<Rightarrow> u32 \<Rightarrow> (file_t list \<Rightarrow> file_t list) \<Rightarrow> kstate \<Rightarrow> (outcome \<times> kstate) option"

text \<open>The body that the handlers share: print, record, end the process.\<close>

definition report_exception :: "string \<Rightarrow> u32 list \<Rightarrow> mem \<Rightarrow> (file_t list \<Rightarrow> file_t list) \<Rightarrow> kstate \<Rightarrow> (outcome \<times> kstate) option" where
  "report_exception format args frame clobber s = do {
     (_, s) \<leftarrow> printf frame (map of_char format @ [10]) args s;
     halt clobber 255 (s\<lparr>exception_occurred := 1\<rparr>)
   }"

definition exception_divide_by_zero :: exception_handler where
  "exception_divide_by_zero frame cr2 clobber = report_exception '' Exception 0x00: Divide By Zero'' [] frame clobber"

definition exception_debug :: exception_handler where
  "exception_debug frame cr2 clobber = report_exception '' Exception 0x01: Debug'' [] frame clobber"

definition exception_non_maskable_interrupt :: exception_handler where
  "exception_non_maskable_interrupt frame cr2 clobber = report_exception '' Exception 0x02: Non-maskable interrupt'' [] frame clobber"

definition exception_breakpoint :: exception_handler where
  "exception_breakpoint frame cr2 clobber = report_exception '' Exception 0x03: Breakpoint'' [] frame clobber"

definition exception_overflow :: exception_handler where
  "exception_overflow frame cr2 clobber = report_exception '' Exception 0x04: Overflow'' [] frame clobber"

definition exception_bound_range_exceeded :: exception_handler where
  "exception_bound_range_exceeded frame cr2 clobber = report_exception '' Exception 0x05: Bound Range Exceeded'' [] frame clobber"

definition exception_invalid_opcode :: exception_handler where
  "exception_invalid_opcode frame cr2 clobber = report_exception '' Exception 0x06: Invalid Opcode'' [] frame clobber"

definition exception_device_not_available :: exception_handler where
  "exception_device_not_available frame cr2 clobber = report_exception '' Exception 0x07: Device Not Available'' [] frame clobber"

definition exception_double_fault :: exception_handler where
  "exception_double_fault frame cr2 clobber = report_exception '' Exception 0x08: Double Fault'' [] frame clobber"

definition exception_segment_overrun :: exception_handler where
  "exception_segment_overrun frame cr2 clobber = report_exception '' Exception 0x09: Coprocessor Segment Overrun'' [] frame clobber"

definition exception_invalid_tss :: exception_handler where
  "exception_invalid_tss frame cr2 clobber = report_exception '' Exception 0x0A: Invalid TSS'' [] frame clobber"

definition exception_segment_not_present :: exception_handler where
  "exception_segment_not_present frame cr2 clobber = report_exception '' Exception 0x0B: Segment Not Present'' [] frame clobber"

definition exception_stack_segment_fault :: exception_handler where
  "exception_stack_segment_fault frame cr2 clobber = report_exception '' Exception 0x0C: Stack-Segment Fault'' [] frame clobber"

definition exception_general_protection :: exception_handler where
  "exception_general_protection frame cr2 clobber = report_exception '' Exception 0x0D: General Protection'' [] frame clobber"

definition exception_page_fault :: exception_handler where
  "exception_page_fault frame cr2 clobber = report_exception '' Exception 0x0E: Page Fault (at 0x%x)'' [cr2] frame clobber"

definition exception_reserved :: exception_handler where
  "exception_reserved frame cr2 clobber = report_exception '' Exception 0x0F: Reserved'' [] frame clobber"

definition exception_x87_floating_point_error :: exception_handler where
  "exception_x87_floating_point_error frame cr2 clobber = report_exception '' Exception 0x10: x87 FPU Floating-Point Error'' [] frame clobber"

definition exception_alignment_check :: exception_handler where
  "exception_alignment_check frame cr2 clobber = report_exception '' Exception 0x11: Alignment Check'' [] frame clobber"

definition exception_machine_check :: exception_handler where
  "exception_machine_check frame cr2 clobber = report_exception '' Exception 0x12: Machine Check'' [] frame clobber"

definition exception_SIMD_floating_point :: exception_handler where
  "exception_SIMD_floating_point frame cr2 clobber = report_exception '' Exception 0x13: SIMD Floating-Point'' [] frame clobber"

definition system_call0 :: exception_handler where
  "system_call0 frame cr2 clobber = report_exception ''System call ^_^'' [] frame clobber"

definition exception_handlers :: "exception_handler list" where
  "exception_handlers = [
     exception_divide_by_zero, exception_debug, exception_non_maskable_interrupt, exception_breakpoint, exception_overflow,
     exception_bound_range_exceeded, exception_invalid_opcode, exception_device_not_available, exception_double_fault, exception_segment_overrun,
     exception_invalid_tss, exception_segment_not_present, exception_stack_segment_fault, exception_general_protection, exception_page_fault,
     exception_reserved, exception_x87_floating_point_error, exception_alignment_check, exception_machine_check, exception_SIMD_floating_point]"


section \<open>The descriptors\<close>

abbreviation KERNEL_CS :: u32 where "KERNEL_CS \<equiv> 0x10"
abbreviation NUM_VEC :: nat where "NUM_VEC \<equiv> 256"
abbreviation PIT_INTR_INDEX :: nat where "PIT_INTR_INDEX \<equiv> 0x20"
abbreviation KEYBOARD_INTR_INDEX :: nat where "KEYBOARD_INTR_INDEX \<equiv> 0x21"
abbreviation RTC_INTR_INDEX :: nat where "RTC_INTR_INDEX \<equiv> 0x28"
abbreviation SYSCALL_INTR_INDEX :: nat where "SYSCALL_INTR_INDEX \<equiv> 0x80"

text \<open>The two words \<^verbatim>\<open>val[0]\<close> and \<^verbatim>\<open>val[1]\<close> of the union; an assignment to a bit field changes its bits only.\<close>

record idt_desc_t =
  idt_lo :: u32
  idt_hi :: u32

definition set_idt_lo :: "nat \<Rightarrow> nat \<Rightarrow> u32 \<Rightarrow> idt_desc_t \<Rightarrow> idt_desc_t" where
  "set_idt_lo p l v d = d\<lparr>idt_lo := set_field p l v (idt_lo d)\<rparr>"

definition set_idt_hi :: "nat \<Rightarrow> nat \<Rightarrow> u32 \<Rightarrow> idt_desc_t \<Rightarrow> idt_desc_t" where
  "set_idt_hi p l v d = d\<lparr>idt_hi := set_field p l v (idt_hi d)\<rparr>"

abbreviation "set_offset_15_00 \<equiv> set_idt_lo 0 16"
abbreviation "set_seg_selector \<equiv> set_idt_lo 16 16"
abbreviation "set_reserved4 \<equiv> set_idt_hi 0 8"
abbreviation "set_reserved3 \<equiv> set_idt_hi 8 1"
abbreviation "set_reserved2 \<equiv> set_idt_hi 9 1"
abbreviation "set_reserved1 \<equiv> set_idt_hi 10 1"
abbreviation "set_gate_size \<equiv> set_idt_hi 11 1"
abbreviation "set_reserved0 \<equiv> set_idt_hi 12 1"
abbreviation "set_dpl \<equiv> set_idt_hi 13 2"
abbreviation "set_gate_present \<equiv> set_idt_hi 15 1"
abbreviation "set_offset_31_16 \<equiv> set_idt_hi 16 16"

definition SET_IDT_ENTRY :: "u32 \<Rightarrow> idt_desc_t \<Rightarrow> idt_desc_t" where
  "SET_IDT_ENTRY handler d =
     set_offset_15_00 (handler AND 0xFFFF) (set_offset_31_16 (drop_bit 16 (handler AND 0xFFFF0000)) d)"

definition INIT_IDT_UNPRESENT :: "idt_desc_t \<Rightarrow> idt_desc_t" where
  "INIT_IDT_UNPRESENT d = set_gate_present 0 d"

definition INIT_IDT_PRESENT :: "u32 \<Rightarrow> u32 \<Rightarrow> u32 \<Rightarrow> idt_desc_t \<Rightarrow> idt_desc_t" where
  "INIT_IDT_PRESENT ddppll type entry d =
     (let d = set_gate_present 1 d;
          d = set_dpl ddppll d;
          d = set_reserved0 0 d;
          d = set_gate_size 1 d;
          d = set_reserved1 1 d;
          d = set_reserved2 1 d;
          d = set_reserved3 type d;
          d = set_reserved4 0 d;
          d = set_seg_selector KERNEL_CS d
      in SET_IDT_ENTRY entry d)"

definition INIT_INTERRUPT :: "u32 \<Rightarrow> idt_desc_t \<Rightarrow> idt_desc_t" where
  "INIT_INTERRUPT entry = INIT_IDT_PRESENT 0 0 entry"

definition INIT_EXCEPTION :: "u32 \<Rightarrow> idt_desc_t \<Rightarrow> idt_desc_t" where
  "INIT_EXCEPTION entry = INIT_IDT_PRESENT 0 1 entry"

definition INIT_SYSTEMCALL :: "u32 \<Rightarrow> idt_desc_t \<Rightarrow> idt_desc_t" where
  "INIT_SYSTEMCALL entry = INIT_IDT_PRESENT 3 1 entry"

text \<open>The addresses of the handlers, exceptions by their number.\<close>

record entries =
  en_exception :: "nat \<Rightarrow> u32"
  en_pit :: u32
  en_keyboard :: u32
  en_rtc :: u32
  en_system_call :: u32

definition idt_set :: "nat \<Rightarrow> (idt_desc_t \<Rightarrow> idt_desc_t) \<Rightarrow> idt_desc_t list \<Rightarrow> idt_desc_t list" where
  "idt_set i f idt = idt[i := f (idt ! i)]"

definition idt_init :: "entries \<Rightarrow> idt_desc_t list \<Rightarrow> idt_desc_t list" where
  "idt_init e idt =
     (let idt = fold (\<lambda>i. idt_set i (INIT_EXCEPTION (en_exception e i))) [0..<0x14] idt;
          idt = fold (\<lambda>i. idt_set i INIT_IDT_UNPRESENT) [0x14..<NUM_VEC] idt;
          idt = idt_set PIT_INTR_INDEX (INIT_INTERRUPT (en_pit e)) idt;
          idt = idt_set KEYBOARD_INTR_INDEX (INIT_INTERRUPT (en_keyboard e)) idt;
          idt = idt_set RTC_INTR_INDEX (INIT_INTERRUPT (en_rtc e)) idt
      in idt_set SYSCALL_INTR_INDEX (INIT_SYSTEMCALL (en_system_call e)) idt)"

section \<open>What the processor sees\<close>

text \<open>A gate: the handler's segment and offset, and the least privileged level that may call it. An interrupt gate
  also masks interrupts, a trap gate does not.\<close>

datatype gate = Not_present | Interrupt_gate u32 u32 u32 | Trap_gate u32 u32 u32 | Other_descriptor

definition gate_of :: "idt_desc_t \<Rightarrow> gate" where
  "gate_of d =
     (let selector = get_field 16 16 (idt_lo d);
          offset = get_field 0 16 (idt_lo d) OR push_bit 16 (get_field 16 16 (idt_hi d));
          dpl = get_field 13 2 (idt_hi d)
      in if get_field 15 1 (idt_hi d) = 0 then Not_present
         else if get_field 0 13 (idt_hi d) = 0xE00 then Interrupt_gate selector offset dpl
         else if get_field 0 13 (idt_hi d) = 0xF00 then Trap_gate selector offset dpl
         else Other_descriptor)"

definition gate_for :: "entries \<Rightarrow> nat \<Rightarrow> gate" where
  "gate_for e v =
     (if v < 0x14 then Trap_gate KERNEL_CS (en_exception e v) 0
      else if v = PIT_INTR_INDEX then Interrupt_gate KERNEL_CS (en_pit e) 0
      else if v = KEYBOARD_INTR_INDEX then Interrupt_gate KERNEL_CS (en_keyboard e) 0
      else if v = RTC_INTR_INDEX then Interrupt_gate KERNEL_CS (en_rtc e) 0
      else if v = SYSCALL_INTR_INDEX then Trap_gate KERNEL_CS (en_system_call e) 3
      else Not_present)"

lemma entry_offset: "get_field 0 16 (set_field 0 16 (h AND 0xFFFF) w) OR
    push_bit 16 (get_field 16 16 (set_field 16 16 (drop_bit 16 (h AND 0xFFFF0000)) w')) = h"
proof -
  have m: "(0xFFFF :: u32) = mask 16" "(0xFFFF0000 :: u32) = push_bit 16 (mask 16)" by (simp_all add: mask_eq_exp_minus_1)
  show ?thesis unfolding m
    by (rule bit_word_eqI) (auto simp: bit_simps bit_get_field bit_set_field)
qed

lemma bits_below_13:
  assumes "\<And>n. n \<in> {0, 1, 2, 3, 4, 5, 6, 7, 8, 9, 10, 11, 12} \<Longrightarrow> bit w n = bit v n" "take_bit 13 v = v"
  shows "get_field 0 13 w = (v :: u32)"
proof (rule bit_word_eqI)
  fix n
  show "bit (get_field 0 13 w) n = bit v n"
  proof (cases "n < 13")
    case True
    then have "n \<in> {0, 1, 2, 3, 4, 5, 6, 7, 8, 9, 10, 11, 12}" by (simp, presburger)
    then show ?thesis using True assms(1) [of n] by (auto simp: bit_get_field)
  next
    case False
    then show ?thesis using assms(2) by (metis bit_get_field bit_take_bit_iff)
  qed
qed

lemma gate_type:
  "get_field 0 13 (set_field 16 16 a (set_field 0 8 0 (set_field 8 1 0 (set_field 9 1 1 (set_field 10 1 1 (set_field 11 1 1
    (set_field 12 1 0 w))))))) = 0xE00"
  "get_field 0 13 (set_field 16 16 a (set_field 0 8 0 (set_field 8 1 1 (set_field 9 1 1 (set_field 10 1 1 (set_field 11 1 1
    (set_field 12 1 0 w))))))) = 0xF00"
proof -
  let ?w = "\<lambda>t. set_field 16 16 a (set_field 0 8 0 (set_field 8 1 t (set_field 9 1 1 (set_field 10 1 1 (set_field 11 1 1
    (set_field 12 1 0 w))))))"
  have bits: "bit (?w 0) n = bit (0xE00 :: u32) n \<and> bit (?w 1) n = bit (0xF00 :: u32) n"
    if "n \<in> {0, 1, 2, 3, 4, 5, 6, 7, 8, 9, 10, 11, 12}" for n
    using that by (elim insertE emptyE) (simp_all add: bit_set_field)
  show "get_field 0 13 (?w 0) = 0xE00" by (rule bits_below_13) (rule conjunct1 [OF bits], assumption, simp)
  show "get_field 0 13 (?w 1) = 0xF00" by (rule bits_below_13) (rule conjunct2 [OF bits], assumption, simp)
qed

lemma set_entry_offset:
  "get_field 0 16 (idt_lo (SET_IDT_ENTRY h d)) OR push_bit 16 (get_field 16 16 (idt_hi (SET_IDT_ENTRY h d))) = h"
  using entry_offset [of h "idt_lo d" "idt_hi d"] by (simp add: SET_IDT_ENTRY_def set_idt_lo_def set_idt_hi_def)

lemma gate_of_present:
  assumes "t = 0 \<or> t = 1" "l < 4"
  shows "gate_of (INIT_IDT_PRESENT l t h d) = (if t = 0 then Interrupt_gate KERNEL_CS h l else Trap_gate KERNEL_CS h l)"
proof -
  have "take_bit 2 (unat l) = unat l" using assms(2) by (intro take_bit_nat_eq_self) (simp add: word_less_nat_alt)
  then have "unat (take_bit 2 l) = unat l" by (simp add: unsigned_take_bit_eq)
  then have l: "take_bit 2 l = l" by (rule unsigned_word_eqI)
  have o: "get_field 16 16 (idt_lo (INIT_IDT_PRESENT l t h d)) = KERNEL_CS"
    "get_field 0 16 (idt_lo (INIT_IDT_PRESENT l t h d)) OR push_bit 16 (get_field 16 16 (idt_hi (INIT_IDT_PRESENT l t h d))) = h"
    by (simp add: INIT_IDT_PRESENT_def SET_IDT_ENTRY_def set_idt_lo_def set_idt_hi_def Let_def get_set_field_same
      get_set_field_other)
     (simp only: INIT_IDT_PRESENT_def Let_def set_entry_offset)
  have p: "get_field 13 2 (idt_hi (INIT_IDT_PRESENT l t h d)) = l" "get_field 15 1 (idt_hi (INIT_IDT_PRESENT l t h d)) = 1"
    by (simp_all add: INIT_IDT_PRESENT_def SET_IDT_ENTRY_def set_idt_lo_def set_idt_hi_def Let_def get_set_field_same
      get_set_field_other l)
  have "get_field 0 13 (idt_hi (INIT_IDT_PRESENT l t h d)) = (if t = 0 then 0xE00 else 0xF00)"
    unfolding INIT_IDT_PRESENT_def SET_IDT_ENTRY_def set_idt_lo_def set_idt_hi_def Let_def using assms(1) by (auto simp: gate_type simp del: One_nat_def)
  then show ?thesis unfolding gate_of_def o p Let_def using assms(1) by auto
qed

lemma gate_of_unpresent: "gate_of (INIT_IDT_UNPRESENT d) = Not_present"
  by (simp add: gate_of_def INIT_IDT_UNPRESENT_def set_idt_hi_def get_set_field_same Let_def)

lemma idt_set_simps [simp]:
  "length (idt_set i f t) = length t" "v < length t \<Longrightarrow> idt_set i f t ! v = (if v = i then f (t ! v) else t ! v)"
  by (simp_all add: idt_set_def nth_list_update)

lemma fold_idt_set:
  "distinct is \<Longrightarrow> length (fold (\<lambda>i. idt_set i (f i)) is t) = length t \<and>
   (\<forall>v < length t. fold (\<lambda>i. idt_set i (f i)) is t ! v = (if v \<in> set is then f v (t ! v) else t ! v))"
  by (induction "is" arbitrary: t) auto

section \<open>An exception ends the process\<close>

lemma render_plain: "37 \<notin> set fmt \<Longrightarrow> render fmt args = Some fmt"
  by (induction fmt) auto

lemma render_append_plain: "37 \<notin> set fmt \<Longrightarrow> render (fmt @ rest) args = map_option (append fmt) (render rest args)"
  by (induction fmt) (auto simp: option.map_comp comp_def fun_eq_iff intro!: option.map_cong, cases "render rest args", simp_all)

text \<open>The text of an exception, without its final part.\<close>

definition exception_prefix :: "nat \<Rightarrow> u8 list" where
  "exception_prefix n = map of_char '' Exception 0x'' @ [digit_char (n div 16), digit_char (n mod 16), 58, 32]"

text \<open>A text that the console prints as it stands.\<close>

definition plain_text :: "u8 list \<Rightarrow> bool" where
  "plain_text str \<longleftrightarrow> 8 \<notin> set str \<and> 9 \<notin> set str"

definition reports :: "exception_handler \<Rightarrow> mem \<Rightarrow> u32 \<Rightarrow> (file_t list \<Rightarrow> file_t list) \<Rightarrow> u8 list \<Rightarrow> bool" where
  "reports h frame cr2 clobber out \<longleftrightarrow> plain_text out \<and>
     (\<exists>fmt args. h frame cr2 clobber = report_exception fmt args frame clobber \<and>
       render (map of_char fmt @ [10]) args = Some out)"

lemma reports_plain:
  assumes "h frame cr2 clobber = report_exception fmt [] frame clobber" "out = map of_char fmt @ [10]"
    "37 \<notin> set out" "plain_text out"
  shows "reports h frame cr2 clobber out"
  using assms render_plain unfolding reports_def by blast

definition plain_handler :: "string \<Rightarrow> exception_handler" where
  "plain_handler fmt frame cr2 clobber = report_exception fmt [] frame clobber"

definition texts_before_page_fault :: "string list" where
  "texts_before_page_fault = [
     '' Exception 0x00: Divide By Zero'',
     '' Exception 0x01: Debug'',
     '' Exception 0x02: Non-maskable interrupt'',
     '' Exception 0x03: Breakpoint'',
     '' Exception 0x04: Overflow'',
     '' Exception 0x05: Bound Range Exceeded'',
     '' Exception 0x06: Invalid Opcode'',
     '' Exception 0x07: Device Not Available'',
     '' Exception 0x08: Double Fault'',
     '' Exception 0x09: Coprocessor Segment Overrun'',
     '' Exception 0x0A: Invalid TSS'',
     '' Exception 0x0B: Segment Not Present'',
     '' Exception 0x0C: Stack-Segment Fault'',
     '' Exception 0x0D: General Protection'']"

definition texts_after_page_fault :: "string list" where
  "texts_after_page_fault = [
     '' Exception 0x0F: Reserved'',
     '' Exception 0x10: x87 FPU Floating-Point Error'',
     '' Exception 0x11: Alignment Check'',
     '' Exception 0x12: Machine Check'',
     '' Exception 0x13: SIMD Floating-Point'']"

lemmas plain_handler_defs = plain_handler_def exception_divide_by_zero_def exception_debug_def exception_non_maskable_interrupt_def exception_breakpoint_def
  exception_overflow_def exception_bound_range_exceeded_def exception_invalid_opcode_def
  exception_device_not_available_def exception_double_fault_def exception_segment_overrun_def
  exception_invalid_tss_def exception_segment_not_present_def exception_stack_segment_fault_def
  exception_general_protection_def exception_reserved_def exception_x87_floating_point_error_def
  exception_alignment_check_def exception_machine_check_def exception_SIMD_floating_point_def

lemma exception_handlers_eq:
  "exception_handlers = map plain_handler texts_before_page_fault @ exception_page_fault # map plain_handler texts_after_page_fault"
  by (simp add: exception_handlers_def texts_before_page_fault_def texts_after_page_fault_def fun_eq_iff plain_handler_defs)

text \<open>A text that \<^verbatim>\<open>printf\<close> and the console print as it stands, with its number in front.\<close>

definition text_ok :: "nat \<times> string \<Rightarrow> bool" where
  "text_ok = (\<lambda>(n, fmt). let out = map of_char fmt @ [10] in 37 \<notin> set out \<and> plain_text out \<and> take 17 out = exception_prefix n)"

lemma texts_ok:
  "list_all text_ok (List.enumerate 0 texts_before_page_fault)" "list_all text_ok (List.enumerate 15 texts_after_page_fault)"
  by code_simp+

lemma digit_char_plain: "d < 36 \<Longrightarrow> digit_char d \<noteq> 8 \<and> digit_char d \<noteq> 9"
proof (intro conjI notI)
  assume d: "d < 36" "digit_char d = 8"
  then have "unat (digit_char d) = 8" by simp
  then show False using d(1) by (simp add: digit_char_def unat_of_nat split: if_splits)
next
  assume d: "d < 36" "digit_char d = 9"
  then have "unat (digit_char d) = 9" by simp
  then show False using d(1) by (simp add: digit_char_def unat_of_nat split: if_splits)
qed

lemma number_plain: "2 \<le> r \<Longrightarrow> r \<le> 36 \<Longrightarrow> plain_text (number_string r n)"
  using digit_char_plain digits_of_less [of _ r n]
  by (fastforce simp: plain_text_def number_string_def)

lemma page_fault_reports:
  "\<exists>out. reports exception_page_fault frame cr2 clobber out \<and> take 17 out = exception_prefix 14"
proof -
  let ?f = "map of_char '' Exception 0x0E: Page Fault (at 0x'' :: u8 list"
  let ?out = "?f @ number_string 16 (unat cr2) @ [41, 10]"
  have split: "map of_char '' Exception 0x0E: Page Fault (at 0x%x)'' @ [10] = ?f @ [37, 120, 41, 10]" by code_simp
  have f: "37 \<notin> set ?f \<and> plain_text ?f \<and> take 17 ?f = exception_prefix 14 \<and> 17 \<le> length ?f" by code_simp
  have "render [41, 10] [] = Some [41, 10 :: u8]" by (rule render_plain) simp
  then have "render [37, 120, 41, 10] [cr2] = Some (number_string 16 (unat cr2) @ [41, 10])"
    by (simp add: render_hex_def)
  then have "render (?f @ [37, 120, 41, 10]) [cr2] = Some ?out"
    using render_append_plain f by simp
  moreover have "plain_text ?out" using f number_plain [of 16 "unat cr2"] by (simp add: plain_text_def)
  moreover have "take 17 ?out = take 17 ?f" by simp
  then have "take 17 ?out = exception_prefix 14" using f by simp
  ultimately show ?thesis
    unfolding reports_def exception_page_fault_def split [symmetric] by blast
qed

lemma exception_reports:
  assumes "n < 20"
  shows "\<exists>out. reports (exception_handlers ! n) frame cr2 clobber out \<and> take 17 out = exception_prefix n"
proof -
  have plain: "\<exists>out. reports (plain_handler fmt) frame cr2 clobber out \<and> take 17 out = exception_prefix m"
    if "text_ok (m, fmt)" for m fmt
    using that reports_plain [of "plain_handler fmt" frame cr2 clobber fmt]
    by (auto simp: text_ok_def Let_def plain_handler_def)
  have len: "length texts_before_page_fault = 14" "length texts_after_page_fault = 5"
    by (simp_all add: texts_before_page_fault_def texts_after_page_fault_def)
  have "n < 14 \<or> n = 14 \<or> (\<exists>k < 5. n = 15 + k)" using assms by presburger
  then consider "n < 14" | "n = 14" | k where "n = 15 + k" "k < 5" by blast
  then show ?thesis
  proof cases
    case 1
    then have "text_ok (n, texts_before_page_fault ! n)"
      using texts_ok(1) len(1) by (simp add: list_all_length nth_enumerate_eq)
    then show ?thesis using plain 1 len by (simp add: exception_handlers_eq nth_append)
  next
    case 2
    then show ?thesis using page_fault_reports len by (simp add: exception_handlers_eq nth_append)
  next
    case 3
    then have "text_ok (15 + k, texts_after_page_fault ! k)"
      using texts_ok(2) len(2) by (simp add: list_all_length nth_enumerate_eq)
    then show ?thesis using plain 3 len by (simp add: exception_handlers_eq nth_append)
  qed
qed

text \<open>The suspended frame of the parent lies outside the screen.\<close>

definition frame_safe :: "u32 \<Rightarrow> u32 \<Rightarrow> kstate \<Rightarrow> bool" where
  "frame_safe w a s \<longleftrightarrow> (\<forall>k < 8. \<exists>q. translate (mmu s) (a + of_nat k) = Some q \<and> 4000 \<le> unat (q - w))"

lemma frame_safe_vload32:
  assumes "frame_safe w a s" "mmu s' = mmu s" "outside_window w (phys s) (phys s')"
  shows "vload32 a s' = vload32 a s" "vload32 (a + 4) s' = vload32 (a + 4) s"
proof -
  have v: "vload (a + of_nat k) s' = vload (a + of_nat k) s" if "k < 8" for k
    using assms that by (fastforce simp: frame_safe_def vload_def load_virtual_def outside_window_def)
  have "copy_in (a + of_nat j) n s' = copy_in (a + of_nat j) n s" if "j + n \<le> 8" for j n
    using that
  proof (induction n arbitrary: j)
    case (Suc n)
    have "copy_in (a + of_nat (Suc j)) n s' = copy_in (a + of_nat (Suc j)) n s" using Suc.prems by (intro Suc.IH) simp
    then show ?case using v [of j] Suc.prems by (simp add: ac_simps split: option.split)
  qed simp
  from this [of 0 4] this [of 4 4] show "vload32 a s' = vload32 a s" "vload32 (a + 4) s' = vload32 (a + 4) s"
    by (simp_all add: vload32_def)
qed

lemma report_exception_eq:
  assumes c: "child_of i k b eip s" and w: "window s w" "on_screen s" "cursor_ok s" "frame_safe w (p_parent_ebp (pcbs s ! i)) s"
    and r: "reports h frame cr2 clobber out"
  shows "\<exists>s1. h frame cr2 clobber s = Some (Resumes eip 0x100, ended i k b s1) \<and> console_base s1 = console_base (s\<lparr>exception_occurred := 1\<rparr>) \<and>
    console_of w s1 = fold abs_putc out (console_of w s) \<and> child_of i k b eip s1"
proof -
  obtain fmt args where h: "h frame cr2 clobber = report_exception fmt args frame clobber"
    "render (map of_char fmt @ [10]) args = Some out" "8 \<notin> set out" "9 \<notin> set out"
    using r by (auto simp: reports_def plain_text_def)
  obtain s0 where s0: "for_opt putc out s = Some s0" "console_frame w s s0" "console_of w s0 = fold abs_putc out (console_of w s)"
    using puts_eq [OF h(3,4) w(1-3)] by blast
  let ?s1 = "s0\<lparr>exception_occurred := 1\<rparr>"
  have base: "console_base s0 = console_base s" "outside_window w (phys s) (phys s0)"
    using console_frame_keeps [OF s0(2)] by simp_all
  note keeps = console_base_keeps [OF base(1)]
  have "vload32 (p_parent_ebp (pcbs s ! i)) ?s1 = vload32 (p_parent_ebp (pcbs s ! i)) s"
    "vload32 (p_parent_ebp (pcbs s ! i) + 4) ?s1 = vload32 (p_parent_ebp (pcbs s ! i) + 4) s"
    by (rule frame_safe_vload32 [OF w(4)]; use keeps(1) base(2) in simp)+
  then have c1: "child_of i k b eip ?s1"
    using c keeps by (simp add: child_of_def current_def get_current_pcb_def)
  have "console_base ?s1 = (console_base s0)\<lparr>exception_occurred := 1\<rparr>"
    "console_base (s\<lparr>exception_occurred := 1\<rparr>) = (console_base s)\<lparr>exception_occurred := 1\<rparr>" by (simp_all add: console_base_def)
  then have "console_base ?s1 = console_base (s\<lparr>exception_occurred := 1\<rparr>)" using base(1) by simp
  moreover have "h frame cr2 clobber s = Some (Resumes eip 0x100, ended i k b ?s1)"
    using halt_eq [OF c1, of clobber 255] unfolding h(1) report_exception_def printf_def printf_loop_renders [OF h(2)] s0(1) by simp
  moreover have "console_of w ?s1 = console_of w s0" by (simp add: console_of_def)
  ultimately show ?thesis using s0(3) c1 by metis
qed

section \<open>Properties\<close>

lemma idt_init_gate:
  assumes "length idt = NUM_VEC"
  shows "length (idt_init e idt) = NUM_VEC \<and> (\<forall>v < NUM_VEC. gate_of (idt_init e idt ! v) = gate_for e v)"
proof -
  let ?t1 = "fold (\<lambda>i. idt_set i (INIT_EXCEPTION (en_exception e i))) [0..<0x14] idt"
  let ?t2 = "fold (\<lambda>i. idt_set i INIT_IDT_UNPRESENT) [0x14..<NUM_VEC] ?t1"
  have t1: "length ?t1 = NUM_VEC" "\<And>v. v < NUM_VEC \<Longrightarrow> ?t1 ! v = (if v < 0x14 then INIT_EXCEPTION (en_exception e v) (idt ! v) else idt ! v)"
    using fold_idt_set [of "[0..<0x14]" "\<lambda>i. INIT_EXCEPTION (en_exception e i)" idt] assms by (auto simp del: upt_rec_numeral)
  have t2: "length ?t2 = NUM_VEC" "\<And>v. v < NUM_VEC \<Longrightarrow> ?t2 ! v = (if v < 0x14 then INIT_EXCEPTION (en_exception e v) (idt ! v) else INIT_IDT_UNPRESENT (idt ! v))"
    using fold_idt_set [of "[0x14..<NUM_VEC]" "\<lambda>i. INIT_IDT_UNPRESENT" ?t1] t1 by (auto simp del: upt_rec_numeral)
  have g: "gate_of (INIT_EXCEPTION h d) = Trap_gate KERNEL_CS h 0" "gate_of (INIT_INTERRUPT h d) = Interrupt_gate KERNEL_CS h 0"
    "gate_of (INIT_SYSTEMCALL h d) = Trap_gate KERNEL_CS h 3" for h d
    by (simp_all add: INIT_EXCEPTION_def INIT_INTERRUPT_def INIT_SYSTEMCALL_def gate_of_present)
  have "gate_of (idt_init e idt ! v) = gate_for e v" if "v < NUM_VEC" for v
    unfolding idt_init_def Let_def using that t2 by (simp add: gate_for_def g gate_of_unpresent del: upt_rec_numeral)
  moreover have "length (idt_init e idt) = NUM_VEC" unfolding idt_init_def Let_def using t2(1) by (simp del: upt_rec_numeral)
  ultimately show ?thesis by blast
qed

text \<open>Whatever the table held before, \<^verbatim>\<open>idt_init\<close> leaves each of the 256 vectors as the processor should see it: a
  kernel trap gate to its handler for the exceptions 0 to 19, interrupt gates to the wrappers of the timer, the keyboard and the
  real-time clock, a trap gate that user programs may call for the system calls, and nothing else present.\<close>

theorem idt_init_gates:
  assumes "length idt = NUM_VEC"
  shows "length (idt_init e idt) = NUM_VEC \<and> (\<forall>v < NUM_VEC. gate_of (idt_init e idt ! v) = gate_for e v)"
  by (rule idt_init_gate [OF assms])

definition sample_entries :: entries where
  "sample_entries = \<lparr>en_exception = (\<lambda>i. of_nat i), en_pit = 1, en_keyboard = 2, en_rtc = 3, en_system_call = 0x80412345\<rparr>"

theorem idt_init_gates_witness:
  "gate_of (idt_init sample_entries (replicate 256 \<lparr>idt_lo = 0xFFFFFFFF, idt_hi = 0xFFFFFFFF\<rparr>) ! 0x80) = Trap_gate 0x10 0x80412345 3"
proof -
  have len: "length (replicate 256 \<lparr>idt_lo = 0xFFFFFFFF, idt_hi = 0xFFFFFFFF\<rparr>) = NUM_VEC" by simp
  have "0x80 < NUM_VEC" by simp
  then have "gate_of (idt_init sample_entries (replicate 256 \<lparr>idt_lo = 0xFFFFFFFF, idt_hi = 0xFFFFFFFF\<rparr>) ! 0x80) = gate_for sample_entries 0x80"
    using idt_init_gates [OF len] by blast
  then show ?thesis by (simp add: gate_for_def sample_entries_def)
qed

text \<open>C33: each of the twenty exceptions, in a program that another program has started, prints a line that
  begins with its own number and ends the program as \<^verbatim>\<open>halt\<close> does: the parent's \<^verbatim>\<open>execute\<close> returns 256, the slot of the
  program is free, and the record of the exception is cleared for the next one.\<close>

theorem exception_ends_process:
  assumes "child_of i k b eip s" "window s w" "on_screen s" "cursor_ok s" "frame_safe w (p_parent_ebp (pcbs s ! i)) s" "n < 20"
  shows "\<exists>s' out. (exception_handlers ! n) frame cr2 clobber s = Some (Resumes eip 0x100, s') \<and>
    ebp s' = b \<and> esp s' = p_parent_ebp (pcbs s ! i) + 8 \<and> p_present (pcbs s' ! i) = 0 \<and> exception_occurred s' = 0 \<and>
    take 17 out = exception_prefix n \<and> console_of w s' = fold abs_putc out (console_of w s)"
proof -
  obtain out where out: "reports (exception_handlers ! n) frame cr2 clobber out" "take 17 out = exception_prefix n"
    using exception_reports [OF assms(6)] by blast
  obtain s1 where s1: "(exception_handlers ! n) frame cr2 clobber s = Some (Resumes eip 0x100, ended i k b s1)"
    "console_base s1 = console_base (s\<lparr>exception_occurred := 1\<rparr>)" "console_of w s1 = fold abs_putc out (console_of w s)" "child_of i k b eip s1"
    using report_exception_eq [OF assms(1-5) out(1)] by blast
  have p: "pcbs s1 = pcbs s" using console_base_keeps(3) [OF s1(2)] by simp
  have "i < length (pcbs s1)" using s1(4) by (auto simp: child_of_def current_def dest: pcb_index_less)
  then have "ebp (ended i k b s1) = b" "esp (ended i k b s1) = p_parent_ebp (pcbs s ! i) + 8" "p_present (pcbs (ended i k b s1) ! i) = 0"
    "exception_occurred (ended i k b s1) = 0" "console_of w (ended i k b s1) = console_of w s1"
    by (simp_all add: ended_def console_of_def p)
  then show ?thesis using s1(1,3) out(2) by metis
qed

theorem exception_ends_process_witness:
  "\<exists>s'. exception_page_fault (\<lambda>a. 0) 0xDEAD id child_state = Some (Resumes 0x401234 0x100, s') \<and> p_present (pcbs s' ! 3) = 0"
proof -
  have m: "mmu child_state = mmu sample_state" "video_mem child_state = video_mem sample_state" "p_parent_ebp (pcbs child_state ! 3) = 0x7FFF40"
    by (simp_all add: child_state_def sample_state_def)
  have w: "window child_state 0xB8000" using sample_window window_cong [OF m(1,2)] by simp
  have o: "on_screen child_state" by (simp add: on_screen_def child_state_def sample_state_def)
  have c: "cursor_ok child_state"
    using child_state_child by (auto simp: cursor_ok_def child_of_def) (simp add: child_state_def sample_state_def)
  have "mapped child_state 0x7FFF40 8 0x7FFF40"
    by (rule kernel_mapped [OF _ wf_sample_layout]; simp add: child_state_def sample_state_def)
  moreover have "4000 \<le> unat (0x7FFF40 + of_nat k - 0xB8000 :: u32)" if "k < 8" for k
  proof -
    have "k = 0 \<or> k = 1 \<or> k = 2 \<or> k = 3 \<or> k = 4 \<or> k = 5 \<or> k = 6 \<or> k = 7" using that by presburger
    then show ?thesis by (elim disjE) simp_all
  qed
  ultimately have "frame_safe 0xB8000 (p_parent_ebp (pcbs child_state ! 3)) child_state"
    unfolding frame_safe_def m(3) mapped_def by blast
  from exception_ends_process [OF child_state_child w o c this, of 14 "\<lambda>a. 0" "0xDEAD" id]
  have "\<exists>s'. (exception_handlers ! 14) (\<lambda>a. 0) 0xDEAD id child_state = Some (Resumes 0x401234 0x100, s') \<and> p_present (pcbs s' ! 3) = 0"
    by auto
  moreover have "exception_handlers ! 14 = exception_page_fault" by (simp add: exception_handlers_def)
  ultimately show ?thesis by simp
qed

end
