(* ===== verification/KmallocInit.thy ===== *)
theory KmallocInit imports Paging begin

text \<open>
  What \<^verbatim>\<open>kmalloc_init\<close> (\<^verbatim>\<open>src/student-distrib/malloc.c\<close>) does to the address space: its four
  page tables all start again at frame 0, so the 16 MB heap region is the lowest 4 MB of physical memory seen
  four times, and clearing the region clears that memory.
\<close>

definition kmalloc_entry :: "nat \<Rightarrow> u32 \<Rightarrow> u32" where
  "kmalloc_entry j v = set_page_base_address (of_nat j) (set_read_write 1 (set_user_supervisor 0 (set_present 1 v)))"

definition kmalloc_dir_entry :: "u32 \<Rightarrow> u32 \<Rightarrow> u32" where
  "kmalloc_dir_entry table v = set_page_table_base_address (drop_bit 12 table)
     (set_page_size 0 (set_read_write 1 (set_user_supervisor 0 (set_present 1 v))))"

lemma kmalloc_init_entry_eq: "kmalloc_init_entry i j p = kmalloc_pte_map (PAGING_COUNT * i + j) (kmalloc_entry j) p"
  by (simp only: kmalloc_init_entry_def Let_def maps_same kmalloc_entry_def [abs_def])

definition kmalloc_round :: "nat \<Rightarrow> nat \<Rightarrow> u32 \<Rightarrow> u32" where
  "kmalloc_round i k = kmalloc_entry (k - PAGING_COUNT * i)"

lemma fold_kmalloc_init_entry:
  "fold (kmalloc_init_entry i) [0..<b] p = p\<lparr>page_table_kmalloc :=
     upd_range (kmalloc_round i) (PAGING_COUNT * i) (PAGING_COUNT * i + b) (page_table_kmalloc p)\<rparr>"
proof (induction b)
  case (Suc b)
  have "kmalloc_round i (PAGING_COUNT * i + b) = kmalloc_entry b" by (simp add: kmalloc_round_def)
  then show ?case
    using Suc upd_range_Suc [of "PAGING_COUNT * i" "PAGING_COUNT * i + b" "kmalloc_round i" "page_table_kmalloc p"]
    by (simp add: kmalloc_init_entry_eq kmalloc_pte_map_def)
qed simp

lemma kmalloc_init_table_eq:
  "kmalloc_init_table i p = page_dir_map (KMALLOC_PDE + i)
     (kmalloc_dir_entry (kmalloc_table_at p + 4 * of_nat (PAGING_COUNT * i)))
     (p\<lparr>page_table_kmalloc := upd_range (kmalloc_round i) (PAGING_COUNT * i)
        (PAGING_COUNT * i + PAGING_COUNT) (page_table_kmalloc p)\<rparr>)"
  unfolding kmalloc_init_table_def Let_def maps_same maps_tables_at fold_kmalloc_init_entry
    kmalloc_dir_entry_def [abs_def]
  by (simp add: page_dir_map_def)

lemma kmalloc_init_table_simps [simp]:
  "page_directories (kmalloc_init_table i p) = (page_directories p)[KMALLOC_PDE + i :=
     kmalloc_dir_entry (kmalloc_table_at p + 4 * of_nat (PAGING_COUNT * i)) (page_directories p ! (KMALLOC_PDE + i))]"
  "page_table_kernel_vidmem (kmalloc_init_table i p) = page_table_kernel_vidmem p"
  "page_table_user_vidmem (kmalloc_init_table i p) = page_table_user_vidmem p"
  "page_table_kmalloc (kmalloc_init_table i p) = upd_range (kmalloc_round i) (PAGING_COUNT * i)
     (PAGING_COUNT * i + PAGING_COUNT) (page_table_kmalloc p)"
  "kernel_table_at (kmalloc_init_table i p) = kernel_table_at p"
  "user_table_at (kmalloc_init_table i p) = user_table_at p"
  "kmalloc_table_at (kmalloc_init_table i p) = kmalloc_table_at p"
  by (simp_all add: kmalloc_init_table_eq)

definition kmalloc_tables :: "paging \<Rightarrow> paging" where
  "kmalloc_tables p = fold kmalloc_init_table [0..<KMALLOC_PDE_COUNT] p"

lemma kmalloc_tables_unroll:
  "kmalloc_tables p = kmalloc_init_table 3 (kmalloc_init_table 2 (kmalloc_init_table 1 (kmalloc_init_table 0 p)))"
  by (simp add: kmalloc_tables_def numeral_eq_Suc)

lemma kmalloc_tables_simps [simp]:
  "page_table_kernel_vidmem (kmalloc_tables p) = page_table_kernel_vidmem p"
  "page_table_user_vidmem (kmalloc_tables p) = page_table_user_vidmem p"
  "kernel_table_at (kmalloc_tables p) = kernel_table_at p"
  "user_table_at (kmalloc_tables p) = user_table_at p"
  "kmalloc_table_at (kmalloc_tables p) = kmalloc_table_at p"
  "length (page_directories (kmalloc_tables p)) = length (page_directories p)"
  by (simp_all add: kmalloc_tables_unroll)

lemma kmalloc_tables_dir:
  assumes "length (page_directories p) = PAGING_COUNT" "i < KMALLOC_PDE_COUNT"
  shows "page_directories (kmalloc_tables p) ! (KMALLOC_PDE + i) =
    kmalloc_dir_entry (kmalloc_table_at p + 4 * of_nat (PAGING_COUNT * i)) (page_directories p ! (KMALLOC_PDE + i))"
proof -
  have "i = 0 \<or> i = 1 \<or> i = 2 \<or> i = 3" using assms(2) by auto
  then show ?thesis using assms(1) by (auto simp: kmalloc_tables_unroll)
qed

lemma kmalloc_tables_pte:
  assumes "length (page_table_kmalloc p) = PAGING_COUNT * KMALLOC_PDE_COUNT" "i < KMALLOC_PDE_COUNT" "j < PAGING_COUNT"
  shows "\<exists>v. page_table_kmalloc (kmalloc_tables p) ! (PAGING_COUNT * i + j) = kmalloc_entry j v"
proof -
  have "i = 0 \<or> i = 1 \<or> i = 2 \<or> i = 3" using assms(2) by auto
  then show ?thesis using assms(1,3) by (auto simp: kmalloc_tables_unroll kmalloc_round_def)
qed

lemma bit_kmalloc_entry:
  "bit (kmalloc_entry j v) n \<longleftrightarrow> (if 12 \<le> n \<and> n < 32 then bit (of_nat j :: u32) (n - 12)
     else if n \<le> 1 then True else if n = 2 then False else bit v n)"
  by (auto simp: kmalloc_entry_def bit_set_field le_Suc_eq)

lemma bit_kmalloc_dir_entry:
  "bit (kmalloc_dir_entry t v) n \<longleftrightarrow> (if 12 \<le> n \<and> n < 32 then bit t n
     else if n \<le> 1 then True else if n = 2 then False else if n = 7 then False else bit v n)"
  by (auto simp: kmalloc_dir_entry_def bit_set_field bit_simps le_Suc_eq)

section \<open>The walk through the heap tables\<close>

text \<open>The address of the \<open>i\<close>-th heap table.\<close>

abbreviation heap_table :: "paging \<Rightarrow> nat \<Rightarrow> u32" where
  "heap_table p i \<equiv> kmalloc_table_at p + 4 * of_nat (PAGING_COUNT * i)"

lemma heap_table_eq: "heap_table p i = kmalloc_table_at p + of_nat (4096 * i)"
  by simp

lemma heap_table_offset:
  assumes "i < KMALLOC_PDE_COUNT"
  shows "unat (heap_table p i - kmalloc_table_at p) = 4096 * i"
proof -
  have "heap_table p i - kmalloc_table_at p = of_nat (4096 * i)" unfolding heap_table_eq by simp
  then show ?thesis using assms by (simp only: unat_of_nat) simp
qed

lemma aligned_unat: "take_bit 12 (w :: u32) = 0 \<longleftrightarrow> unat w mod 4096 = 0"
proof -
  have "unat (take_bit 12 w) = unat w mod 4096"
    by (simp add: unsigned_take_bit_eq) (simp add: take_bit_nat_def)
  then show ?thesis by (metis unat_eq_0)
qed

lemma aligned_add:
  assumes "take_bit 12 (a :: u32) = 0"
  shows "take_bit 12 (a + of_nat (4096 * i)) = 0"
proof -
  have "unat (a + of_nat k) = (unat a + k) mod 2 ^ LENGTH(32)" for k
    by (simp only: unat_word_ariths unat_of_nat mod_add_right_eq)
  then have "unat (a + of_nat (4096 * i)) mod 4096 = (unat a + 4096 * i) mod 2 ^ 32 mod 4096"
    by (simp only:) simp
  also have "\<dots> = (unat a + 4096 * i) mod 4096" by (simp add: mod_mod_cancel)
  also have "\<dots> = 0" using assms by (simp add: aligned_unat)
  finally show ?thesis by (simp only: aligned_unat)
qed

lemma heap_table_entry:
  assumes wf: "wf_layout p" and i: "i < KMALLOC_PDE_COUNT" and j: "j < PAGING_COUNT"
  shows "table_entry (kmalloc_tables (paging_init p)) (heap_table p i) j
    = Some (page_table_kmalloc (kmalloc_tables (paging_init p)) ! (PAGING_COUNT * i + j))"
proof -
  let ?T = "heap_table p i" and ?K = "kmalloc_table_at p"
  note off = heap_table_offset [OF i, of p]
  have "unat (?T - ?K) < 0x4000" using off i by simp
  moreover have "\<not> unat (kernel_table_at p - ?K) < 0x4000" "\<not> unat (user_table_at p - ?K) < 0x4000"
    using wf by (simp_all add: wf_layout_def word_le_nat_alt)
  ultimately have "?T \<noteq> kernel_table_at p" "?T \<noteq> user_table_at p" by metis+
  moreover have "?K \<le> ?T"
  proof -
    have "unat ?K + 4096 * i < 2 ^ 32" using wf i by (simp add: wf_layout_def)
    then have "unat ?T = unat ?K + 4096 * i"
      unfolding heap_table_eq by (simp add: unat_word_ariths unat_of_nat)
    then show ?thesis by (simp add: word_le_nat_alt)
  qed
  moreover have "(?T - ?K) AND 0xFFF = 0"
  proof -
    have "unat ((?T - ?K) AND 4095) = 0" unfolding unat_and_4095 off by simp
    then show ?thesis by (simp add: unat_eq_0)
  qed
  moreover have "length (page_table_kmalloc (kmalloc_tables (paging_init p))) = PAGING_COUNT * KMALLOC_PDE_COUNT"
    using wf by (simp add: kmalloc_tables_unroll wf_layout_def)
  moreover have "PAGING_COUNT * i + j < PAGING_COUNT * KMALLOC_PDE_COUNT" using i j by simp
  moreover have "unat (?T - ?K) div 4 = PAGING_COUNT * i" unfolding off by simp
  ultimately show ?thesis by (simp add: table_entry_def nth_opt_Some)
qed

lemma kmalloc_dir_entry_walk:
  assumes "take_bit 12 t = 0"
  shows "kmalloc_dir_entry t v AND 0xFFFFF000 = t"
    and "bit (kmalloc_dir_entry t v) 0" and "\<not> bit (kmalloc_dir_entry t v) 7"
proof -
  show "kmalloc_dir_entry t v AND 0xFFFFF000 = t"
    by (rule aligned_eqI [OF assms]) (simp add: bit_kmalloc_dir_entry)
  show "bit (kmalloc_dir_entry t v) 0" "\<not> bit (kmalloc_dir_entry t v) 7"
    by (simp_all add: bit_kmalloc_dir_entry)
qed

lemma kmalloc_entry_walk:
  "bit (kmalloc_entry j w) 0"
  "(kmalloc_entry (unat (get_field 12 10 va)) w AND 0xFFFFF000) OR (va AND 0xFFF) = va AND 0x3FFFFF"
proof -
  show "bit (kmalloc_entry j w) 0" by (simp add: bit_kmalloc_entry)
  let ?j = "unat (get_field 12 10 va)"
  show "(kmalloc_entry ?j w AND 0xFFFFF000) OR (va AND 0xFFF) = va AND 0x3FFFFF"
  proof (rule bit_word_eqI)
    fix n assume "n < LENGTH(32)"
    then have n: "n < 32" by simp
    have m: "bit (va AND 0x3FFFFF) n \<longleftrightarrow> n < 22 \<and> bit va n"
      unfolding page_masks by (auto simp: bit_and_iff bit_mask_iff dest: bit_imp_le_length)
    have "(of_nat ?j :: u32) = get_field 12 10 va" by simp
    then have "bit (of_nat ?j :: u32) (n - 12) \<longleftrightarrow> n - 12 < 10 \<and> bit va (12 + (n - 12))"
      by (simp only: bit_get_field)
    then show "bit ((kmalloc_entry ?j w AND 0xFFFFF000) OR (va AND 0xFFF)) n = bit (va AND 0x3FFFFF) n"
      using n by (cases "n < 12") (simp_all only: bit_page_address m bit_kmalloc_entry, auto)
  qed
qed

lemma heap_translate:
  assumes wf: "wf_layout p" and i: "i < KMALLOC_PDE_COUNT" and va: "unat (drop_bit 22 va) = KMALLOC_PDE + i"
  shows "translate (kmalloc_tables (paging_init p)) va = Some (va AND 0x3FFFFF)"
proof -
  let ?p = "kmalloc_tables (paging_init p)" and ?j = "unat (get_field 12 10 va)"
  note j = index_12_less [of va]
  obtain v where v: "page_directories ?p ! (KMALLOC_PDE + i) = kmalloc_dir_entry (heap_table p i) v"
    using kmalloc_tables_dir [OF paging_init_lengths(1) i, of p] by simp
  have "length (page_table_kmalloc (paging_init p)) = PAGING_COUNT * KMALLOC_PDE_COUNT"
    using wf by (simp add: wf_layout_def)
  from kmalloc_tables_pte [OF this i j] obtain w
    where w: "page_table_kmalloc ?p ! (PAGING_COUNT * i + ?j) = kmalloc_entry ?j w" by blast
  have "take_bit 12 (kmalloc_table_at p) = 0" using wf by (simp add: wf_layout_def)
  then have al: "take_bit 12 (heap_table p i) = 0"
    unfolding heap_table_eq by (rule aligned_add)
  have "KMALLOC_PDE + i < length (page_directories ?p)" using i by simp
  then have dir: "nth_opt (page_directories ?p) (unat (drop_bit 22 va)) = Some (kmalloc_dir_entry (heap_table p i) v)"
    unfolding va v [symmetric] by (rule nth_opt_Some)
  note d = kmalloc_dir_entry_walk [OF al, of v]
  show ?thesis
    unfolding translate_def dir bind.bind_lunit d(1) heap_table_entry [OF wf i j] w kmalloc_entry_walk
    by (simp only: d(2,3) simp_thms if_False if_True kmalloc_entry_walk)
qed

section \<open>Clearing the region\<close>

lemma fill_virtual_eq:
  assumes "\<And>k. k < n \<Longrightarrow> translate p (va + of_nat k) = Some (f k)"
  shows "fill_virtual n p va b m = Some (\<lambda>a. if \<exists>k < n. f k = a then b else m a)"
  using assms
proof (induction n arbitrary: va m f)
  case 0
  then show ?case by simp
next
  case (Suc n)
  have first: "translate p va = Some (f 0)" using Suc.prems [of 0] by simp
  have "translate p (va + 1 + of_nat k) = Some (f (Suc k))" if "k < n" for k
    using Suc.prems [of "Suc k"] that by (simp add: add.assoc)
  from Suc.IH [of "va + 1" "\<lambda>k. f (Suc k)", OF this]
  have "fill_virtual n p (va + 1) b (m(f 0 := b))
      = Some (\<lambda>a. if \<exists>k < n. f (Suc k) = a then b else (m(f 0 := b)) a)" by blast
  moreover have "(\<exists>k < Suc n. f k = a) \<longleftrightarrow> f 0 = a \<or> (\<exists>k < n. f (Suc k) = a)" for a
    by (auto simp: less_Suc_eq_0_disj)
  ultimately show ?case using first by (auto simp: store_virtual_def fun_eq_iff)
qed

lemma heap_va_index:
  assumes "k < 0x1000000"
  shows "unat (drop_bit 22 (KMALLOC_BEGIN + of_nat k)) = KMALLOC_PDE + k div 0x400000"
    and "(KMALLOC_BEGIN + of_nat k) AND 0x3FFFFF = of_nat (k mod 0x400000)"
proof -
  have v: "unat (KMALLOC_BEGIN + of_nat k) = 0x3000000 + k"
    using assms by (simp add: unat_word_ariths unat_of_nat)
  show "unat (drop_bit 22 (KMALLOC_BEGIN + of_nat k)) = KMALLOC_PDE + k div 0x400000"
    by (subst unat_drop_bit_eq, subst v) (simp add: drop_bit_eq_div)
  have "unat ((KMALLOC_BEGIN + of_nat k) AND 0x3FFFFF) = (0x3000000 + k) mod 0x400000"
    unfolding page_masks take_bit_eq_mask [symmetric] by (simp only: unsigned_take_bit_eq v) (simp add: take_bit_nat_def)
  also have "\<dots> = (k + 12 * 0x400000) mod 0x400000" by (simp add: add.commute)
  also have "\<dots> = k mod 0x400000" by (rule mod_mult_self1)
  finally have "unat ((KMALLOC_BEGIN + of_nat k) AND 0x3FFFFF) = unat (of_nat (k mod 0x400000) :: u32)"
    using assms by (simp add: unat_of_nat)
  then show "(KMALLOC_BEGIN + of_nat k) AND 0x3FFFFF = of_nat (k mod 0x400000)"
    by (rule unsigned_word_eqI)
qed

lemma heap_translate_offset:
  assumes "wf_layout p" "k < 0x1000000"
  shows "translate (kmalloc_tables (paging_init p)) (KMALLOC_BEGIN + of_nat k) = Some (of_nat (k mod 0x400000))"
proof -
  have "k div 0x400000 < KMALLOC_PDE_COUNT" using assms(2) by (simp add: less_mult_imp_div_less)
  from heap_translate [OF assms(1) this heap_va_index(1) [OF assms(2)]] show ?thesis
    unfolding heap_va_index(2) [OF assms(2)] .
qed

section \<open>Properties\<close>

text \<open>After \<^verbatim>\<open>kmalloc_init\<close>, byte \<open>k\<close> of the heap region, for every \<open>k\<close> below 16 MB, is the
  physical byte \<open>k mod 4 MB\<close>: the region is not 16 MB of memory but the lowest 4 MB of it seen four times, so
  that bytes 4 MB apart are the same byte.\<close>

theorem kmalloc_region_aliases:
  assumes "wf_layout p" "k < 0x1000000" "kmalloc_init (paging_init p) m = Some (p', m')"
  shows "translate p' (KMALLOC_BEGIN + of_nat k) = Some (of_nat (k mod 0x400000))"
  using heap_translate_offset [OF assms(1,2)] assms(3)
  by (auto simp: kmalloc_init_def kmalloc_tables_def Let_def bind_eq_Some_conv simp del: fill_virtual.simps)

lemma kmalloc_init_eq:
  assumes "wf_layout p"
  shows "kmalloc_init (paging_init p) m =
    Some (kmalloc_tables (paging_init p), \<lambda>a. if a < 0x400000 then 0 else m a)"
proof -
  have "fill_virtual (unat KMALLOC_SIZE) (kmalloc_tables (paging_init p)) KMALLOC_BEGIN 0 m
      = Some (\<lambda>a. if \<exists>k < unat KMALLOC_SIZE. of_nat (k mod 0x400000) = a then 0 else m a)"
    by (rule fill_virtual_eq) (rule heap_translate_offset [OF assms], simp)
  moreover have "(\<exists>k < unat KMALLOC_SIZE. of_nat (k mod 0x400000) = a) \<longleftrightarrow> a < 0x400000" for a :: u32
  proof
    assume "\<exists>k < unat KMALLOC_SIZE. of_nat (k mod 0x400000) = a"
    then obtain k :: nat where k: "a = of_nat (k mod 0x400000)" by blast
    have "k mod 0x400000 < 0x400000" by simp
    then have "unat (of_nat (k mod 0x400000) :: u32) < 0x400000" by (simp add: unat_of_nat)
    then show "a < 0x400000" unfolding k by (simp only: word_less_nat_alt) simp
  next
    assume "a < 0x400000"
    then have "unat a < 0x400000" by (simp add: word_less_nat_alt)
    then have "unat a < unat KMALLOC_SIZE \<and> of_nat (unat a mod 0x400000) = a" by simp
    then show "\<exists>k < unat KMALLOC_SIZE. of_nat (k mod 0x400000) = a" by blast
  qed
  ultimately show ?thesis by (simp add: kmalloc_init_def flip: kmalloc_tables_def)
qed

text \<open>The case of \<^verbatim>\<open>kmalloc_init\<close> returns, and its clearing of the heap region sets every byte of the
  lowest 4 MB of physical memory, the video memory included, to 0 and leaves the memory above alone.\<close>

theorem kmalloc_init_clears_low_memory:
  assumes "wf_layout p"
  shows "\<exists>p'. kmalloc_init (paging_init p) m = Some (p', \<lambda>a. if a < 0x400000 then 0 else m a)"
  using kmalloc_init_eq [OF assms] by blast

theorem kmalloc_init_clears_low_memory_witness:
  "\<exists>p'. kmalloc_init (paging_init sample_layout) (\<lambda>a. 7) = Some (p', \<lambda>a. if a < 0x400000 then 0 else 7)"
  using kmalloc_init_clears_low_memory [OF wf_sample_layout, of "\<lambda>a. 7"] .

theorem kmalloc_region_aliases_witness:
  "\<exists>p' m'. kmalloc_init (paging_init sample_layout) (\<lambda>a. 7) = Some (p', m') \<and>
     translate p' (KMALLOC_BEGIN + of_nat 0x4B8000) = Some 0xB8000"
  using kmalloc_region_aliases [OF wf_sample_layout _ kmalloc_init_eq [OF wf_sample_layout, of "\<lambda>a. 7"],
      where k = "0x4B8000"]
    kmalloc_init_eq [OF wf_sample_layout, of "\<lambda>a. 7"] by auto

end
