(* ===== verification/Kmalloc.thy ===== *)
theory Kmalloc imports Process KmallocInit begin

text \<open>
  The kernel heap of \<^verbatim>\<open>src/student-distrib/malloc.c\<close>: \<^verbatim>\<open>kmalloc\<close> keeps a list of free blocks whose headers
  (\<^verbatim>\<open>block_t\<close>) lie in the heap region itself and are reached through the paging tables. The variable
  \<^verbatim>\<open>kmem_blocks\<close> is passed beside the state. What the code does amounts to a pointer that only moves up.
\<close>

text \<open>The header of a block: \<^verbatim>\<open>prev\<close>, \<^verbatim>\<open>next\<close>, \<^verbatim>\<open>start\<close> and \<^verbatim>\<open>size\<close>, 32 bits each.\<close>

abbreviation BLOCK_T :: u32 where "BLOCK_T \<equiv> 16"
definition b_prev :: "u32 \<Rightarrow> u32" where "b_prev a = a"
definition b_next :: "u32 \<Rightarrow> u32" where "b_next a = a + 4"
definition b_size :: "u32 \<Rightarrow> u32" where "b_size a = a + 12"

definition vstore32 :: "u32 \<Rightarrow> u32 \<Rightarrow> kstate \<Rightarrow> kstate option" where
  "vstore32 a v s = copy_out a (le32 v) s"

definition ALIGNED_SIZE :: "u32 \<Rightarrow> u32" where
  "ALIGNED_SIZE x = (x + 15) AND NOT 15"

section \<open>The code\<close>

text \<open>The first block from \<open>blk\<close> on that is large enough, 0 for none. The list may be cyclic: the search is a
  partial function.\<close>

partial_function (option) find_block :: "u32 \<Rightarrow> u32 \<Rightarrow> kstate \<Rightarrow> u32 option" where
  "find_block blk sz s =
     (if blk = 0 then Some 0
      else do {
        n \<leftarrow> vload32 (b_size blk) s;
        if n \<ge> sz then Some blk
        else do { nxt \<leftarrow> vload32 (b_next blk) s; find_block nxt sz s }
      })"

text \<open>The exact fit: the block leaves the list.\<close>

definition unlink_block :: "u32 \<Rightarrow> kstate \<Rightarrow> kstate option" where
  "unlink_block blk s = do {
     p \<leftarrow> vload32 (b_prev blk) s;
     s \<leftarrow> (if p \<noteq> 0 then do { n \<leftarrow> vload32 (b_next blk) s; vstore32 (b_next p) n s } else Some s);
     n \<leftarrow> vload32 (b_next blk) s;
     if n \<noteq> 0 then do { p \<leftarrow> vload32 (b_prev blk) s; vstore32 (b_prev n) p s } else Some s
   }"

text \<open>The split: the rest of the block takes its place in the list.\<close>

definition split_block :: "u32 \<Rightarrow> u32 \<Rightarrow> u32 \<Rightarrow> kstate \<Rightarrow> kstate option" where
  "split_block blk sz real_sz s = do {
     s \<leftarrow> vstore32 (b_size blk) sz s;
     let next = blk + real_sz;
     n \<leftarrow> vload32 (b_size blk) s;
     s \<leftarrow> vstore32 (b_size next) (n - real_sz) s;
     p \<leftarrow> vload32 (b_prev blk) s;
     s \<leftarrow> vstore32 (b_prev next) p s;
     n \<leftarrow> vload32 (b_next blk) s;
     s \<leftarrow> vstore32 (b_next next) n s;
     p \<leftarrow> vload32 (b_prev blk) s;
     s \<leftarrow> (if p \<noteq> 0 then vstore32 (b_next p) next s else Some s);
     n \<leftarrow> vload32 (b_next blk) s;
     if n \<noteq> 0 then vstore32 (b_prev n) next s else Some s
   }"

text \<open>The very first allocation, or one that no block can serve: the list starts again at the bottom.\<close>

definition first_block :: "u32 \<Rightarrow> u32 \<Rightarrow> kstate \<Rightarrow> (u32 \<times> kstate) option" where
  "first_block sz real_sz s = do {
     s \<leftarrow> vstore32 (b_size KMALLOC_BEGIN) sz s;
     s \<leftarrow> vstore32 (b_prev KMALLOC_BEGIN) 0 s;
     s \<leftarrow> vstore32 (b_next KMALLOC_BEGIN) 0 s;
     let head = KMALLOC_BEGIN + real_sz;
     s \<leftarrow> vstore32 (b_size head) (KMALLOC_SIZE - real_sz) s;
     s \<leftarrow> vstore32 (b_prev head) 0 s;
     s \<leftarrow> vstore32 (b_next head) 0 s;
     Some (head, s)
   }"

definition kmalloc :: "u32 \<Rightarrow> u32 \<times> kstate \<Rightarrow> (u32 \<times> u32 \<times> kstate) option" where
  "kmalloc sz = (\<lambda>(head, s).
     if sz = 0 \<or> sz > 0x400000 then Some (0, head, s)
     else do {
       let sz = ALIGNED_SIZE sz;
       let real_sz = sz + BLOCK_T;
       blk \<leftarrow> find_block head sz s;
       if blk = 0 then do {
         (head, s) \<leftarrow> first_block sz real_sz s;
         Some (KMALLOC_BEGIN + BLOCK_T, head, s)
       }
       else do {
         n \<leftarrow> vload32 (b_size blk) s;
         if n - sz < BLOCK_T then do { s \<leftarrow> unlink_block blk s; Some (blk + BLOCK_T, head, s) }
         else do {
           s \<leftarrow> split_block blk sz real_sz s;
           Some (blk + BLOCK_T, (if blk = head then blk + real_sz else head), s)
         }
       }
     })"

section \<open>Words of the heap region\<close>

text \<open>The heap as \<^verbatim>\<open>kmalloc_init\<close> maps it: four views of the lowest 4 MB, and nothing above.\<close>

definition heap_size :: nat where
  "heap_size = 0x1000000"

definition heap_map :: "paging \<Rightarrow> bool" where
  "heap_map p \<longleftrightarrow>
     (\<forall>k < heap_size. translate p (KMALLOC_BEGIN + of_nat k) = Some (of_nat (k mod 0x400000))) \<and>
     (\<forall>k. heap_size \<le> k \<and> k < heap_size + 0x400100 \<longrightarrow> translate p (KMALLOC_BEGIN + of_nat k) = None)"

definition slot :: "nat \<Rightarrow> kstate \<Rightarrow> u32 option" where
  "slot k s = vload32 (KMALLOC_BEGIN + of_nat k) s"

lemma heap_mapD:
  assumes "heap_map p"
  shows "k < heap_size \<Longrightarrow> translate p (KMALLOC_BEGIN + of_nat k) = Some (of_nat (k mod 0x400000))"
    and "heap_size \<le> k \<Longrightarrow> k < heap_size + 0x400100 \<Longrightarrow> translate p (KMALLOC_BEGIN + of_nat k) = None"
  using assms unfolding heap_map_def by simp_all

lemma mod_word:
  assumes "k mod 4 = 0" "i < 4"
  shows "(k + i) mod 0x400000 = k mod 0x400000 + (i :: nat)"
proof -
  have m: "n mod 0x400000 = 4 * (n div 4 mod 0x100000) + n mod 4" for n :: nat
    using mod_mult2_eq [of n 4 "0x100000"] by simp
  have "(k + i) div 4 = k div 4" "(k + i) mod 4 = i" using assms by presburger+
  then show ?thesis using m [of "k + i"] m [of k] assms(1) by simp
qed

lemma same_word: "x mod 4 = 0 \<Longrightarrow> y mod 4 = 0 \<Longrightarrow> x + i = y + d \<Longrightarrow> i < 4 \<Longrightarrow> d < 4 \<Longrightarrow> x = (y :: nat)"
  by presburger

lemma heap_mapped:
  assumes "heap_map (mmu s)" "k mod 4 = 0" "k < heap_size"
  shows "mapped s (KMALLOC_BEGIN + of_nat k) 4 (of_nat (k mod 0x400000))"
  unfolding mapped_def
proof (intro allI impI)
  fix i :: nat assume i: "i < 4"
  obtain q where q: "k = 4 * q" using assms(2) by (metis mod_0_imp_dvd dvdE)
  then have "q < 0x400000" using assms(3) by (simp add: heap_size_def)
  then have k: "k + i < heap_size" unfolding q heap_size_def using i by linarith
  have "translate (mmu s) (KMALLOC_BEGIN + of_nat (k + i)) = Some (of_nat ((k + i) mod 0x400000))"
    by (rule heap_mapD(1) [OF assms(1) k])
  then show "translate (mmu s) (KMALLOC_BEGIN + of_nat k + of_nat i) = Some (of_nat (k mod 0x400000) + of_nat i)"
    unfolding mod_word [OF assms(2) i] by (simp add: add.assoc)
qed

lemma slot_store:
  assumes "heap_map (mmu s)" "k mod 4 = 0" "k < heap_size"
  shows "\<exists>m. vstore32 (KMALLOC_BEGIN + of_nat k) v s = Some (s\<lparr>phys := m\<rparr>) \<and>
    (\<forall>j < heap_size. j mod 4 = 0 \<longrightarrow>
      slot j (s\<lparr>phys := m\<rparr>) = (if j mod 0x400000 = k mod 0x400000 then Some v else slot j s))"
proof -
  let ?p = "of_nat (k mod 0x400000) :: u32" and ?m = "put_bytes (of_nat (k mod 0x400000)) (le32 v) (phys s)"
  have "vstore32 (KMALLOC_BEGIN + of_nat k) v s = Some (s\<lparr>phys := ?m\<rparr>)"
    unfolding vstore32_def by (rule copy_out_eq) (use heap_mapped [OF assms] in simp)
  moreover have "slot j (s\<lparr>phys := ?m\<rparr>) = (if j mod 0x400000 = k mod 0x400000 then Some v else slot j s)"
    if j: "j < heap_size" "j mod 4 = 0" for j
  proof -
    let ?a = "KMALLOC_BEGIN + of_nat j" and ?q = "of_nat (j mod 0x400000) :: u32" and ?s = "s\<lparr>phys := ?m\<rparr>"
    have mj: "mapped x ?a 4 ?q" if "mmu x = mmu s" for x
      using heap_mapped [of x j] assms(1) j that by simp
    show ?thesis
    proof (cases "j mod 0x400000 = k mod 0x400000")
      case True
      have "copy_in ?a (length (le32 v)) ?s = le32 v"
        by (rule copy_in_put_bytes [where m = "phys s" and b = ?p]) (use mj [of ?s] True in simp_all)
      then show ?thesis using True by (simp add: slot_def vload32_def slice_opt_def)
    next
      case False
      have "\<not> unat (?q + of_nat i - ?p) < 4" if i: "i < 4" for i
      proof
        assume lt: "unat (?q + of_nat i - ?p) < 4"
        let ?d = "unat (?q + of_nat i - ?p)"
        have "?q + of_nat i = ?p + of_nat ?d" by simp
        then have "of_nat (j mod 0x400000 + i) = (of_nat (k mod 0x400000 + ?d) :: u32)" by simp
        moreover have "j mod 0x400000 < 0x400000" "k mod 0x400000 < 0x400000" by simp_all
        then have "j mod 0x400000 + i < 2 ^ 32" "k mod 0x400000 + ?d < 2 ^ 32" using i lt by simp_all
        ultimately have e: "j mod 0x400000 + i = k mod 0x400000 + ?d"
          by (metis unat_of_nat_small)
        have "j mod 0x400000 mod 4 = 0" "k mod 0x400000 mod 4 = 0" using j(2) assms(2) by (simp_all add: mod_mod_cancel)
        from same_word [OF this e i lt] False show False by simp
      qed
      then have "copy_in ?a 4 ?s = copy_in ?a 4 s"
        unfolding copy_in_mapped [OF mj [of ?s, simplified]] copy_in_mapped [OF mj [OF refl]]
        by (simp add: put_bytes_at)
      then show ?thesis using False by (simp add: slot_def vload32_def)
    qed
  qed
  ultimately show ?thesis by blast
qed

section \<open>One allocation\<close>

text \<open>A valid request, rounded up to 16 bytes.\<close>

definition valid_size :: "u32 \<Rightarrow> bool" where
  "valid_size sz \<longleftrightarrow> 0 < sz \<and> sz \<le> 0x400000"

definition rounded :: "u32 \<Rightarrow> nat" where
  "rounded sz = (unat sz + 15) div 16 * 16"

lemma aligned_size_eq:
  assumes "valid_size sz"
  shows "ALIGNED_SIZE sz = of_nat (rounded sz)" "0 < rounded sz" "rounded sz \<le> 0x400000" "rounded sz mod 16 = 0" "unat sz \<le> rounded sz"
proof -
  have u: "0 < unat sz" "unat sz \<le> 0x400000" using assms by (simp_all add: valid_size_def word_less_nat_alt word_le_nat_alt)
  show r: "0 < rounded sz" "rounded sz \<le> 0x400000" "rounded sz mod 16 = 0" "unat sz \<le> rounded sz"
    using u unfolding rounded_def by simp_all
  have m: "(NOT 15 :: u32) = NOT (mask 4)" by (simp add: mask_eq_exp_minus_1)
  have "(sz + 15) AND NOT (mask 4) = push_bit 4 (drop_bit 4 (sz + 15))"
    by (rule bit_word_eqI) (auto simp: bit_simps)
  moreover have "unat (sz + 15) = unat sz + 15" using u by (simp add: unat_word_ariths)
  then have "unat (drop_bit 4 (sz + 15)) = (unat sz + 15) div 16" by (subst unat_drop_bit_eq) (simp add: drop_bit_eq_div)
  then have "unat (push_bit 4 (drop_bit 4 (sz + 15))) = rounded sz"
    using r(2) by (simp add: push_bit_eq_mult unat_word_ariths rounded_def)
  ultimately show "ALIGNED_SIZE sz = of_nat (rounded sz)"
    unfolding ALIGNED_SIZE_def m by (metis of_nat_unat ucast_id)
qed

text \<open>The list of free blocks is the one block at byte \<open>k\<close> of the region, of size \<open>z\<close>.\<close>

definition heap_head :: "nat \<Rightarrow> u32 \<Rightarrow> kstate \<Rightarrow> bool" where
  "heap_head k z s \<longleftrightarrow> heap_map (mmu s) \<and> k mod 16 = 0 \<and> k + 16 \<le> heap_size \<and>
     slot k s = Some 0 \<and> slot (k + 4) s = Some 0 \<and> slot (k + 12) s = Some z \<and> 0x400010 \<le> unat z"

lemma no_alias: "a mod 16 \<noteq> b mod 16 \<Longrightarrow> a mod 0x400000 \<noteq> (b :: nat) mod 0x400000"
proof
  assume "a mod 16 \<noteq> b mod 16" "a mod 0x400000 = b mod 0x400000"
  moreover have "x mod 0x400000 mod 16 = x mod 16" for x :: nat by (simp add: mod_mod_cancel)
  ultimately show False by metis
qed

lemma heap_store:
  assumes "heap_map (mmu s)" "a mod 4 = 0" "a < heap_size"
  obtains s' where "vstore32 (KMALLOC_BEGIN + of_nat a) v s = Some s'" "mmu s' = mmu s" "slot a s' = Some v"
    "\<And>j. j < heap_size \<Longrightarrow> j mod 4 = 0 \<Longrightarrow> j mod 16 \<noteq> a mod 16 \<Longrightarrow> slot j s' = slot j s"
    "\<And>j. j < heap_size \<Longrightarrow> j mod 4 = 0 \<Longrightarrow> slot j s = Some v \<Longrightarrow> slot j s' = Some v"
proof -
  obtain m where m: "vstore32 (KMALLOC_BEGIN + of_nat a) v s = Some (s\<lparr>phys := m\<rparr>)"
    "\<forall>j < heap_size. j mod 4 = 0 \<longrightarrow> slot j (s\<lparr>phys := m\<rparr>) = (if j mod 0x400000 = a mod 0x400000 then Some v else slot j s)"
    using slot_store [OF assms] by blast
  show ?thesis
  proof (rule that [OF m(1)])
    show "slot a (s\<lparr>phys := m\<rparr>) = Some v" using m(2) assms(2,3) by simp
    show "slot j (s\<lparr>phys := m\<rparr>) = slot j s" if "j < heap_size" "j mod 4 = 0" "j mod 16 \<noteq> a mod 16" for j
      using m(2) that no_alias [OF that(3)] by simp
    show "slot j (s\<lparr>phys := m\<rparr>) = Some v" if "j < heap_size" "j mod 4 = 0" "slot j s = Some v" for j
      using m(2) that by simp
  qed simp
qed

lemma offset_add: "KMALLOC_BEGIN + of_nat k + of_nat j = KMALLOC_BEGIN + of_nat (k + j)"
  by simp

lemma split_block_eq:
  assumes h: "heap_head k z s" and n: "n = k + r + 16" "r mod 16 = 0" "n + 16 \<le> heap_size"
  shows "\<exists>s'. split_block (KMALLOC_BEGIN + of_nat k) (of_nat r) (of_nat r + BLOCK_T) s = Some s' \<and>
    heap_head n 0xFFFFFFF0 s' \<and> mmu s' = mmu s"
proof -
  have hm: "heap_map (mmu s)" and sl: "slot k s = Some 0" "slot (k + 4) s = Some 0" and k: "k mod 16 = 0" "k + 16 \<le> heap_size"
    using h by (simp_all add: heap_head_def)
  have n16: "n mod 16 = 0" using n k by presburger
  have r: "(k + 4) mod 16 = 4" "(k + 12) mod 16 = 12" "(n + 4) mod 16 = 4" "(n + 12) mod 16 = 12"
    "k mod 4 = 0" "(k + 4) mod 4 = 0" "(k + 12) mod 4 = 0" "n mod 4 = 0" "(n + 4) mod 4 = 0" "(n + 12) mod 4 = 0"
    using k(1) n16 by presburger+
  have lt: "k < heap_size" "k + 4 < heap_size" "k + 12 < heap_size" "n < heap_size" "n + 4 < heap_size" "n + 12 < heap_size"
    using k(2) n(3) by simp_all
  let ?a = "\<lambda>j. KMALLOC_BEGIN + of_nat j"
  have ad: "b_prev (?a j) = ?a j" "b_next (?a j) = ?a (j + 4)" "b_size (?a j) = ?a (j + 12)" for j
    by (simp_all add: b_prev_def b_next_def b_size_def)
  have nx: "?a k + (of_nat r + BLOCK_T) = ?a n" unfolding n(1) by simp
  have ne: "k mod 16 \<noteq> (k + 12) mod 16" "(k + 4) mod 16 \<noteq> (k + 12) mod 16" "k mod 16 \<noteq> (n + 12) mod 16"
    "(k + 4) mod 16 \<noteq> (n + 12) mod 16" "(n + 12) mod 16 \<noteq> n mod 16" "(k + 4) mod 16 \<noteq> n mod 16"
    "(n + 12) mod 16 \<noteq> (n + 4) mod 16" "n mod 16 \<noteq> (n + 4) mod 16" "k mod 16 \<noteq> (n + 4) mod 16"
    using r(1-4) k(1) n16 by simp_all
  obtain s1 where s1: "vstore32 (?a (k + 12)) (of_nat r) s = Some s1" "mmu s1 = mmu s" "slot (k + 12) s1 = Some (of_nat r)"
    "\<And>j. j < heap_size \<Longrightarrow> j mod 4 = 0 \<Longrightarrow> j mod 16 \<noteq> (k + 12) mod 16 \<Longrightarrow> slot j s1 = slot j s"
    by (rule heap_store [OF hm r(7) lt(3), of "of_nat r"]) blast
  have hm1: "heap_map (mmu s1)" using hm s1(2) by simp
  have t1: "slot k s1 = Some 0" "slot (k + 4) s1 = Some 0"
    using s1(4) [OF lt(1) r(5) ne(1)] s1(4) [OF lt(2) r(6) ne(2)] sl by simp_all
  have v: "of_nat r - (of_nat r + BLOCK_T) = (0xFFFFFFF0 :: u32)" by simp
  obtain s2 where s2: "vstore32 (?a (n + 12)) 0xFFFFFFF0 s1 = Some s2" "mmu s2 = mmu s1" "slot (n + 12) s2 = Some 0xFFFFFFF0"
    "\<And>j. j < heap_size \<Longrightarrow> j mod 4 = 0 \<Longrightarrow> j mod 16 \<noteq> (n + 12) mod 16 \<Longrightarrow> slot j s2 = slot j s1"
    by (rule heap_store [OF hm1 r(10) lt(6), of "0xFFFFFFF0"]) blast
  have hm2: "heap_map (mmu s2)" using hm1 s2(2) by simp
  have t2: "slot k s2 = Some 0" "slot (k + 4) s2 = Some 0"
    using s2(4) [OF lt(1) r(5) ne(3)] s2(4) [OF lt(2) r(6) ne(4)] t1 by simp_all
  obtain s3 where s3: "vstore32 (?a n) 0 s2 = Some s3" "mmu s3 = mmu s2" "slot n s3 = Some 0"
    "\<And>j. j < heap_size \<Longrightarrow> j mod 4 = 0 \<Longrightarrow> j mod 16 \<noteq> n mod 16 \<Longrightarrow> slot j s3 = slot j s2"
    "\<And>j. j < heap_size \<Longrightarrow> j mod 4 = 0 \<Longrightarrow> slot j s2 = Some 0 \<Longrightarrow> slot j s3 = Some 0"
    by (rule heap_store [OF hm2 r(8) lt(4), of 0]) blast
  have hm3: "heap_map (mmu s3)" using hm2 s3(2) by simp
  have t3: "slot (n + 12) s3 = Some 0xFFFFFFF0" "slot k s3 = Some 0" "slot (k + 4) s3 = Some 0"
    using s3(4) [OF lt(6) r(10) ne(5)] s3(5) [OF lt(1) r(5) t2(1)] s3(5) [OF lt(2) r(6) t2(2)] s2(3) by simp_all
  obtain s4 where s4: "vstore32 (?a (n + 4)) 0 s3 = Some s4" "mmu s4 = mmu s3" "slot (n + 4) s4 = Some 0"
    "\<And>j. j < heap_size \<Longrightarrow> j mod 4 = 0 \<Longrightarrow> j mod 16 \<noteq> (n + 4) mod 16 \<Longrightarrow> slot j s4 = slot j s3"
    "\<And>j. j < heap_size \<Longrightarrow> j mod 4 = 0 \<Longrightarrow> slot j s3 = Some 0 \<Longrightarrow> slot j s4 = Some 0"
    by (rule heap_store [OF hm3 r(9) lt(5), of 0]) blast
  have t4: "slot (n + 12) s4 = Some 0xFFFFFFF0" "slot n s4 = Some 0" "slot k s4 = Some 0" "slot (k + 4) s4 = Some 0"
    using s4(4) [OF lt(6) r(10) ne(7)] s4(4) [OF lt(4) r(8) ne(8)] s4(5) [OF lt(1) r(5) t3(2)] s4(5) [OF lt(2) r(6) t3(3)] t3(1) s3(3)
    by simp_all
  have "split_block (?a k) (of_nat r) (of_nat r + BLOCK_T) s = Some s4"
    unfolding split_block_def Let_def nx ad s1(1) bind.bind_lunit s1(3) [unfolded slot_def] v s2(1) t2 [unfolded slot_def] s3(1)
      t3(3) [unfolded slot_def] s4(1) t4(3,4) [unfolded slot_def]
    by (simp only: simp_thms if_False bind.bind_lunit t4(4) [unfolded slot_def])
  moreover have "heap_head n 0xFFFFFFF0 s4"
    using t4 s4(2,3) hm3 n16 n(3) by (simp add: heap_head_def)
  ultimately show ?thesis using s4(2) s3(2) s2(2) s1(2) by auto
qed

lemma kmalloc_step:
  assumes h: "heap_head k z s" and v: "valid_size sz" and n: "n = k + rounded sz + 16" "n + 16 \<le> heap_size"
  shows "\<exists>s'. kmalloc sz (KMALLOC_BEGIN + of_nat k, s) =
      Some (KMALLOC_BEGIN + of_nat (k + 16), KMALLOC_BEGIN + of_nat n, s') \<and> heap_head n 0xFFFFFFF0 s' \<and> mmu s' = mmu s"
proof -
  note a = aligned_size_eq [OF v]
  let ?r = "of_nat (rounded sz) :: u32" and ?b = "KMALLOC_BEGIN + of_nat k"
  have sl: "vload32 (b_size ?b) s = Some z" and z: "0x400010 \<le> unat z" and k: "k + 16 \<le> heap_size"
    using h by (simp_all add: heap_head_def slot_def b_size_def add.commute add.left_commute)
  have ur: "unat ?r = rounded sz" using a(3) by (simp add: unat_of_nat)
  have le: "z \<ge> ?r" "\<not> z - ?r < BLOCK_T"
    using z a(3) ur by (simp_all add: word_le_nat_alt word_less_nat_alt unat_sub)
  have nz: "?b \<noteq> 0"
  proof
    assume "?b = 0"
    moreover have "unat ?b = 0x3000000 + k" using k by (simp add: unat_word_ariths unat_of_nat heap_size_def)
    ultimately show False by simp
  qed
  have f: "find_block ?b ?r s = Some ?b"
    using nz sl le(1) by (subst find_block.simps) simp
  obtain s' where s': "split_block ?b ?r (?r + BLOCK_T) s = Some s'" "heap_head n 0xFFFFFFF0 s'" "mmu s' = mmu s"
    using split_block_eq [OF h n(1) a(4) n(2)] by blast
  have "\<not> (sz = 0 \<or> sz > 0x400000)" using v by (auto simp: valid_size_def)
  then have "kmalloc sz (?b, s) = Some (?b + BLOCK_T, ?b + (?r + BLOCK_T), s')"
    using nz sl le(2) f s'(1) by (simp add: kmalloc_def a(1))
  then show ?thesis using s'(2,3) n(1) by (simp add: add.assoc)
qed

text \<open>The first call, with no list yet.\<close>

lemma kmalloc_first:
  assumes hm: "heap_map (mmu s)" and v: "valid_size sz" and n: "n = rounded sz + 16"
  shows "\<exists>s' z. kmalloc sz (0, s) = Some (KMALLOC_BEGIN + of_nat 16, KMALLOC_BEGIN + of_nat n, s') \<and> heap_head n z s' \<and> mmu s' = mmu s"
proof -
  note a = aligned_size_eq [OF v]
  let ?r = "of_nat (rounded sz) :: u32" and ?a = "\<lambda>j. KMALLOC_BEGIN + of_nat j" and ?z = "KMALLOC_SIZE - (of_nat (rounded sz) + BLOCK_T)"
  have n16: "n mod 16 = 0" "n + 16 \<le> heap_size" using a(3,4) n by (simp_all add: heap_size_def)
  have r: "(n + 4) mod 16 = 4" "(n + 12) mod 16 = 12" "n mod 4 = 0" "(n + 4) mod 4 = 0" "(n + 12) mod 4 = 0"
    using n16(1) by presburger+
  have lt: "n < heap_size" "n + 4 < heap_size" "n + 12 < heap_size" "12 < heap_size" "0 < heap_size" "4 < heap_size"
    using n16(2) by simp_all
  have ad: "b_size KMALLOC_BEGIN = ?a 12" "b_prev KMALLOC_BEGIN = ?a 0" "b_next KMALLOC_BEGIN = ?a 4"
    "KMALLOC_BEGIN + (?r + BLOCK_T) = ?a n" "b_prev (?a j) = ?a j" "b_next (?a j) = ?a (j + 4)" "b_size (?a j) = ?a (j + 12)" for j
    using n by (simp_all add: b_prev_def b_next_def b_size_def)
  obtain s1 where s1: "vstore32 (?a 12) ?r s = Some s1" "mmu s1 = mmu s" by (rule heap_store [OF hm _ lt(4), of ?r]) simp_all
  obtain s2 where s2: "vstore32 (?a 0) 0 s1 = Some s2" "mmu s2 = mmu s"
    by (rule heap_store [of s1 0 0]) (use hm s1(2) lt(5) in simp_all)
  obtain s3 where s3: "vstore32 (?a 4) 0 s2 = Some s3" "mmu s3 = mmu s"
    by (rule heap_store [of s2 4 0]) (use hm s2(2) lt(6) in simp_all)
  have hm3: "heap_map (mmu s3)" using hm s3(2) by simp
  obtain s4 where s4: "vstore32 (?a (n + 12)) ?z s3 = Some s4" "mmu s4 = mmu s3" "slot (n + 12) s4 = Some ?z"
    by (rule heap_store [OF hm3 r(5) lt(3), of ?z]) blast
  have hm4: "heap_map (mmu s4)" using hm3 s4(2) by simp
  have ne: "(n + 12) mod 16 \<noteq> n mod 16" "(n + 12) mod 16 \<noteq> (n + 4) mod 16" "n mod 16 \<noteq> (n + 4) mod 16"
    using r(1,2) n16(1) by simp_all
  obtain s5 where s5: "vstore32 (?a n) 0 s4 = Some s5" "mmu s5 = mmu s4" "slot n s5 = Some 0"
    "\<And>j. j < heap_size \<Longrightarrow> j mod 4 = 0 \<Longrightarrow> j mod 16 \<noteq> n mod 16 \<Longrightarrow> slot j s5 = slot j s4"
    by (rule heap_store [OF hm4 r(3) lt(1), of 0]) blast
  have hm5: "heap_map (mmu s5)" using hm4 s5(2) by simp
  obtain s6 where s6: "vstore32 (?a (n + 4)) 0 s5 = Some s6" "mmu s6 = mmu s5" "slot (n + 4) s6 = Some 0"
    "\<And>j. j < heap_size \<Longrightarrow> j mod 4 = 0 \<Longrightarrow> j mod 16 \<noteq> (n + 4) mod 16 \<Longrightarrow> slot j s6 = slot j s5"
    by (rule heap_store [OF hm5 r(4) lt(2), of 0]) blast
  have t: "slot (n + 12) s6 = Some ?z" "slot n s6 = Some 0"
    using s6(4) [OF lt(3) r(5) ne(2)] s6(4) [OF lt(1) r(3) ne(3)] s5(4) [OF lt(3) r(5) ne(1)] s5(3) s4(3) by simp_all
  have "first_block ?r (?r + BLOCK_T) s = Some (?a n, s6)"
    unfolding first_block_def Let_def ad s1(1) bind.bind_lunit s2(1) s3(1) s4(1) s5(1) s6(1) ..
  moreover have "find_block 0 ?r s = Some 0" by (subst find_block.simps) simp
  moreover have "\<not> (sz = 0 \<or> sz > 0x400000)" using v by (auto simp: valid_size_def)
  ultimately have "kmalloc sz (0, s) = Some (?a 16, ?a n, s6)" by (simp add: kmalloc_def a(1))
  moreover have "unat ?z = 0x1000000 - (rounded sz + 16)"
    using a(3) by (simp add: unat_sub word_le_nat_alt unat_word_ariths unat_of_nat)
  then have "heap_head n ?z s6" using t s6(2,3) hm5 n16 a(3) by (simp add: heap_head_def)
  ultimately show ?thesis using s6(2) s5(2) s4(2) s3(2) by auto
qed

section \<open>Allocations in a row\<close>

fun kmalloc_all :: "u32 list \<Rightarrow> u32 \<times> kstate \<Rightarrow> (u32 list \<times> u32 \<times> kstate) option" where
  "kmalloc_all [] h = Some ([], h)"
| "kmalloc_all (sz # szs) h = do {
     (p, h) \<leftarrow> kmalloc sz h;
     (ps, h) \<leftarrow> kmalloc_all szs h;
     Some (p # ps, h)
   }"

text \<open>The offsets that a pointer moving up by each block and its header gives out.\<close>

fun bump :: "nat \<Rightarrow> u32 list \<Rightarrow> nat list" where
  "bump k [] = []"
| "bump k (sz # szs) = (k + 16) # bump (k + rounded sz + 16) szs"

definition heap_total :: "u32 list \<Rightarrow> nat" where
  "heap_total szs = sum_list (map (\<lambda>sz. rounded sz + 16) szs)"

lemma length_bump [simp]: "length (bump k szs) = length szs"
  by (induction szs arbitrary: k) simp_all

lemma bump_bounds:
  "j < length szs \<Longrightarrow> k + 16 \<le> bump k szs ! j \<and> bump k szs ! j + rounded (szs ! j) \<le> k + heap_total szs \<and>
    (k mod 16 = 0 \<longrightarrow> bump k szs ! j mod 16 = 0)"
proof (induction szs arbitrary: k j)
  case (Cons sz szs)
  show ?case
  proof (cases j)
    case 0
    then show ?thesis by (simp add: heap_total_def)
  next
    case (Suc i)
    have "rounded sz mod 16 = 0" by (simp add: rounded_def)
    then have "k mod 16 = 0 \<Longrightarrow> (k + rounded sz + 16) mod 16 = 0" by presburger
    then show ?thesis using Cons.IH [of i "k + rounded sz + 16"] Cons.prems Suc by (auto simp: heap_total_def)
  qed
qed simp

lemma bump_apart:
  "i < j \<Longrightarrow> j < length szs \<Longrightarrow> bump k szs ! i + rounded (szs ! i) + 16 \<le> bump k szs ! j"
proof (induction szs arbitrary: k i j)
  case (Cons sz szs)
  then obtain j' where j: "j = Suc j'" by (cases j) auto
  show ?case
  proof (cases i)
    case 0
    then show ?thesis using bump_bounds [of j' szs "k + rounded sz + 16"] Cons.prems j by simp
  next
    case (Suc i')
    then show ?thesis using Cons.IH [of i' j' "k + rounded sz + 16"] Cons.prems j by simp
  qed
qed simp

lemma kmalloc_all_step:
  "heap_head k z s \<Longrightarrow> list_all valid_size szs \<Longrightarrow> k + heap_total szs + 16 \<le> heap_size \<Longrightarrow>
   \<exists>s'. kmalloc_all szs (KMALLOC_BEGIN + of_nat k, s) =
     Some (map (\<lambda>x. KMALLOC_BEGIN + of_nat x) (bump k szs), KMALLOC_BEGIN + of_nat (k + heap_total szs), s') \<and>
     heap_head (k + heap_total szs) (if szs = [] then z else 0xFFFFFFF0) s' \<and> mmu s' = mmu s"
proof (induction szs arbitrary: k z s)
  case Nil
  then show ?case by (auto simp: heap_total_def)
next
  case (Cons sz szs)
  let ?n = "k + rounded sz + 16"
  have t: "heap_total (sz # szs) = rounded sz + 16 + heap_total szs" by (simp add: heap_total_def)
  obtain s1 where s1: "kmalloc sz (KMALLOC_BEGIN + of_nat k, s) =
      Some (KMALLOC_BEGIN + of_nat (k + 16), KMALLOC_BEGIN + of_nat ?n, s1)" "heap_head ?n 0xFFFFFFF0 s1" "mmu s1 = mmu s"
  proof -
    have "valid_size sz" "?n + 16 \<le> heap_size" using Cons.prems(2,3) t by simp_all
    from kmalloc_step [OF Cons.prems(1) this(1) refl this(2)] show ?thesis using that by blast
  qed
  obtain s2 where s2: "kmalloc_all szs (KMALLOC_BEGIN + of_nat ?n, s1) =
      Some (map (\<lambda>x. KMALLOC_BEGIN + of_nat x) (bump ?n szs), KMALLOC_BEGIN + of_nat (?n + heap_total szs), s2)"
    "heap_head (?n + heap_total szs) 0xFFFFFFF0 s2" "mmu s2 = mmu s1"
    using Cons.IH [OF s1(2)] Cons.prems(2,3) t by (auto simp del: of_nat_add)
  have e: "?n + heap_total szs = k + heap_total (sz # szs)" using t by simp
  have "kmalloc_all (sz # szs) (KMALLOC_BEGIN + of_nat k, s) =
      Some (map (\<lambda>x. KMALLOC_BEGIN + of_nat x) (bump k (sz # szs)), KMALLOC_BEGIN + of_nat (k + heap_total (sz # szs)), s2)"
    unfolding kmalloc_all.simps s1(1) bind.bind_lunit prod.case s2(1) e by simp
  then show ?case using s2(2,3) s1(3) unfolding e by auto
qed

text \<open>A run from the state with no list.\<close>

lemma kmalloc_run:
  assumes "heap_map (mmu s)" "list_all valid_size szs" "heap_total szs + 16 \<le> heap_size" "szs \<noteq> []"
  shows "\<exists>s' z. kmalloc_all szs (0, s) =
      Some (map (\<lambda>x. KMALLOC_BEGIN + of_nat x) (bump 0 szs), KMALLOC_BEGIN + of_nat (heap_total szs), s') \<and>
    heap_head (heap_total szs) z s' \<and> (2 \<le> length szs \<longrightarrow> z = 0xFFFFFFF0) \<and> mmu s' = mmu s"
proof -
  obtain sz rest where szs: "szs = sz # rest" using assms(4) by (cases szs) auto
  let ?n = "rounded sz + 16"
  have t: "heap_total szs = ?n + heap_total rest" unfolding szs by (simp add: heap_total_def)
  obtain s1 z where s1: "kmalloc sz (0, s) = Some (KMALLOC_BEGIN + of_nat 16, KMALLOC_BEGIN + of_nat ?n, s1)" "heap_head ?n z s1" "mmu s1 = mmu s"
  proof -
    have "valid_size sz" using assms(2) szs by simp
    from kmalloc_first [OF assms(1) this refl] show ?thesis using that by blast
  qed
  have "list_all valid_size rest" "?n + heap_total rest + 16 \<le> heap_size" using assms(2,3) szs t by simp_all
  from kmalloc_all_step [OF s1(2) this] obtain s2 where
    s2: "kmalloc_all rest (KMALLOC_BEGIN + of_nat ?n, s1) =
      Some (map (\<lambda>x. KMALLOC_BEGIN + of_nat x) (bump ?n rest), KMALLOC_BEGIN + of_nat (?n + heap_total rest), s2)"
    "heap_head (?n + heap_total rest) (if rest = [] then z else 0xFFFFFFF0) s2" "mmu s2 = mmu s1" by blast
  have "kmalloc_all szs (0, s) =
      Some (map (\<lambda>x. KMALLOC_BEGIN + of_nat x) (bump 0 szs), KMALLOC_BEGIN + of_nat (?n + heap_total rest), s2)"
    unfolding szs kmalloc_all.simps s1(1) bind.bind_lunit prod.case s2(1) by simp
  moreover have "2 \<le> length szs \<Longrightarrow> rest \<noteq> []" by (auto simp: szs)
  ultimately show ?thesis using s1(3) s2(2,3) unfolding t by (intro exI conjI) (assumption | auto)+
qed

text \<open>A request that the last block, whose recorded size is large, cannot hold.\<close>

lemma kmalloc_past_end:
  assumes "heap_head k z s" "valid_size sz" "heap_size \<le> k + rounded sz + 16"
  shows "kmalloc sz (KMALLOC_BEGIN + of_nat k, s) = None"
proof -
  note a = aligned_size_eq [OF assms(2)]
  let ?r = "of_nat (rounded sz) :: u32" and ?b = "KMALLOC_BEGIN + of_nat k" and ?n = "k + rounded sz + 16"
  have sl: "vload32 (b_size ?b) s = Some z" and z: "0x400010 \<le> unat z" and k: "k + 16 \<le> heap_size" "k mod 16 = 0" "heap_map (mmu s)"
    using assms(1) by (simp_all add: heap_head_def slot_def b_size_def add.commute add.left_commute)
  have ur: "unat ?r = rounded sz" using a(3) by (simp add: unat_of_nat)
  have le: "z \<ge> ?r" "\<not> z - ?r < BLOCK_T"
    using z a(3) ur by (simp_all add: word_le_nat_alt word_less_nat_alt unat_sub)
  have "unat ?b = 0x3000000 + k" using k(1) by (simp add: unat_word_ariths unat_of_nat heap_size_def)
  then have nz: "?b \<noteq> 0" by (metis add_is_0 unsigned_0 zero_neq_numeral)
  have f: "find_block ?b ?r s = Some ?b" using nz sl le(1) by (subst find_block.simps) simp
  have ad: "b_size ?b = KMALLOC_BEGIN + of_nat (k + 12)" "b_size (?b + (?r + BLOCK_T)) = KMALLOC_BEGIN + of_nat (?n + 12)"
    by (simp_all add: b_size_def)
  obtain s1 where s1: "vstore32 (b_size ?b) ?r s = Some s1" "mmu s1 = mmu s" "slot (k + 12) s1 = Some ?r"
    unfolding ad(1) by (rule heap_store [OF k(3), of "k + 12" ?r]) (use k in \<open>simp_all, presburger\<close>)
  have "translate (mmu s1) (KMALLOC_BEGIN + of_nat (?n + 12)) = None"
    unfolding s1(2) by (rule heap_mapD(2) [OF k(3)]) (use assms(3) k(1) a(3) in simp_all)
  then have "vstore32 (b_size (?b + (?r + BLOCK_T))) v s1 = None" for v
    unfolding ad(2) by (simp add: vstore32_def le32_def vstore_def store_virtual_def)
  moreover have "vload32 (b_size ?b) s1 = Some ?r" using s1(3) unfolding ad(1) slot_def .
  ultimately have "split_block ?b ?r (?r + BLOCK_T) s = None"
    unfolding split_block_def Let_def s1(1) bind.bind_lunit by simp
  moreover have "\<not> (sz = 0 \<or> sz > 0x400000)" using assms(2) by (auto simp: valid_size_def)
  ultimately show ?thesis using nz sl le(2) f by (simp add: kmalloc_def a(1))
qed

section \<open>Properties\<close>

text \<open>C34: from the mapping of \<^verbatim>\<open>kmalloc_init\<close> and no list, any sequence of requests of 1 byte to 4 MB that fits into the
  16 MB with its headers is served, when nothing is stored in the blocks meanwhile. Each request gets a block of
  virtual addresses of at least its size on a 16-byte boundary of the region, mapped throughout, and the address ranges
  of no two blocks overlap, nor those of their headers. The memory behind them is another matter: two bytes of the blocks are
  the same physical byte exactly when their addresses are a multiple of 4 MB apart. So no two blocks share memory as
  long as the requests with their headers take 4 MB together; beyond that the ranges are disjoint and
  the memory is not.\<close>

theorem kmalloc_blocks_disjoint:
  assumes "heap_map (mmu s)" "list_all valid_size szs" "heap_total szs + 16 \<le> heap_size"
  shows "\<exists>ps head s'. kmalloc_all szs (0, s) = Some (ps, head, s') \<and> length ps = length szs \<and>
    (\<forall>i < length ps. unat KMALLOC_BEGIN + 16 \<le> unat (ps ! i) \<and> unat (ps ! i) mod 16 = 0 \<and>
       unat (ps ! i) + unat (szs ! i) \<le> unat KMALLOC_BEGIN + heap_size \<and>
       (\<forall>j < length ps. i < j \<longrightarrow> unat (ps ! i) + unat (szs ! i) + 16 \<le> unat (ps ! j))) \<and>
    (\<forall>i < length ps. \<forall>a < unat (szs ! i). translate (mmu s') (ps ! i + of_nat a) \<noteq> None \<and>
       (\<forall>j < length ps. \<forall>b < unat (szs ! j).
         translate (mmu s') (ps ! i + of_nat a) = translate (mmu s') (ps ! j + of_nat b) \<longleftrightarrow>
           (unat (ps ! i) + a) mod 0x400000 = (unat (ps ! j) + b) mod 0x400000)) \<and>
    (heap_total szs \<le> 0x400000 \<longrightarrow> (\<forall>i < length ps. \<forall>j < length ps. i \<noteq> j \<longrightarrow>
       (\<forall>a < unat (szs ! i). \<forall>b < unat (szs ! j).
         translate (mmu s') (ps ! i + of_nat a) \<noteq> translate (mmu s') (ps ! j + of_nat b))))"
proof -
  let ?ps = "map (\<lambda>x. KMALLOC_BEGIN + of_nat x) (bump 0 szs) :: u32 list"
  obtain head s' where run: "kmalloc_all szs (0, s) = Some (?ps, head, s')" "mmu s' = mmu s"
  proof (cases "szs = []")
    case False
    from kmalloc_run [OF assms this] show ?thesis using that by blast
  qed (use that in simp)
  have sz: "unat (szs ! i) \<le> rounded (szs ! i)" if "i < length szs" for i
    using that assms(2) aligned_size_eq(5) by (simp add: list_all_length)
  have top: "bump 0 szs ! i + unat (szs ! i) \<le> heap_total szs" if "i < length szs" for i
    using bump_bounds [OF that, of 0] sz [OF that] by simp
  have u: "unat (?ps ! i) = unat KMALLOC_BEGIN + bump 0 szs ! i" if i: "i < length szs" for i
  proof -
    have "bump 0 szs ! i < 0x1000000" using top [OF i] assms(3) by (simp add: heap_size_def)
    then show ?thesis using i by (simp add: unat_word_ariths unat_of_nat)
  qed
  have one: "unat KMALLOC_BEGIN + 16 \<le> unat (?ps ! i) \<and> unat (?ps ! i) mod 16 = 0 \<and>
      unat (?ps ! i) + unat (szs ! i) \<le> unat KMALLOC_BEGIN + heap_size" if i: "i < length szs" for i
  proof -
    have "unat KMALLOC_BEGIN = 16 * 0x300000" by simp
    then have m: "(unat KMALLOC_BEGIN + x) mod 16 = x mod 16" for x by (simp only: mod_mult_self4)
    show ?thesis using bump_bounds [OF i, of 0] sz [OF i] assms(3) unfolding u [OF i] m by simp
  qed
  have two: "unat (?ps ! i) + unat (szs ! i) + 16 \<le> unat (?ps ! j)" if "i < j" "j < length szs" for i j
    using bump_apart [OF that, of 0] sz [of i] that u [of i] u [of j] by simp
  have tr: "translate (mmu s') (?ps ! i + of_nat a) = Some (of_nat ((bump 0 szs ! i + a) mod 0x400000))"
    if "i < length szs" "a < unat (szs ! i)" for i a
  proof -
    have "bump 0 szs ! i + a < heap_size" using top [OF that(1)] that(2) assms(3) by linarith
    from heap_mapD(1) [OF assms(1) this] show ?thesis using that(1) run(2) by (simp add: add.assoc)
  qed
  have eq: "translate (mmu s') (?ps ! i + of_nat a) = translate (mmu s') (?ps ! j + of_nat b) \<longleftrightarrow>
      (bump 0 szs ! i + a) mod 0x400000 = (bump 0 szs ! j + b) mod 0x400000"
    if "i < length szs" "a < unat (szs ! i)" "j < length szs" "b < unat (szs ! j)" for i a j b
  proof -
    have inj: "(of_nat (x mod 0x400000) :: u32) = of_nat (y mod 0x400000) \<longleftrightarrow> x mod 0x400000 = y mod 0x400000" for x y :: nat
    proof -
      have "unat (of_nat (z mod 0x400000) :: u32) = z mod 0x400000" for z :: nat
        using mod_less_divisor [of "0x400000" z] by (intro unat_of_nat_small) simp
      then show ?thesis by metis
    qed
    show ?thesis unfolding tr [OF that(1,2)] tr [OF that(3,4)] option.inject inj ..
  qed
  have shift: "(unat KMALLOC_BEGIN + x) mod 0x400000 = x mod 0x400000" for x
  proof -
    have "unat KMALLOC_BEGIN = 0x400000 * 12" by simp
    then show ?thesis by (simp only: mod_mult_self4)
  qed
  have same: "translate (mmu s') (?ps ! i + of_nat a) = translate (mmu s') (?ps ! j + of_nat b) \<longleftrightarrow>
      (unat (?ps ! i) + a) mod 0x400000 = (unat (?ps ! j) + b) mod 0x400000"
    if "i < length szs" "a < unat (szs ! i)" "j < length szs" "b < unat (szs ! j)" for i a j b
    unfolding eq [OF that] u [OF that(1)] u [OF that(3)] add.assoc shift ..
  have apart: "translate (mmu s') (?ps ! i + of_nat a) \<noteq> translate (mmu s') (?ps ! j + of_nat b)"
    if t: "heap_total szs \<le> 0x400000" and ij: "i < length szs" "j < length szs" "i \<noteq> j" and ab: "a < unat (szs ! i)" "b < unat (szs ! j)" for i j a b
  proof -
    have "bump 0 szs ! i + a < 0x400000" "bump 0 szs ! j + b < 0x400000"
      using top [OF ij(1)] top [OF ij(2)] t ab by linarith+
    moreover have "bump 0 szs ! i + a \<noteq> bump 0 szs ! j + b"
      using two [of i j] two [of j i] ij ab unfolding u [OF ij(1)] u [OF ij(2)] by (cases "i < j") (linarith | simp)+
    ultimately show ?thesis unfolding eq [OF ij(1) ab(1) ij(2) ab(2)] by simp
  qed
  have len: "length ?ps = length szs" by simp
  have some: "translate (mmu s') (?ps ! i + of_nat a) \<noteq> None" if "i < length szs" "a < unat (szs ! i)" for i a
    using tr [OF that] by simp
  show ?thesis
    by (rule exI [of _ ?ps], rule exI [of _ head], rule exI [of _ s'], unfold len)
      (intro conjI allI impI; (rule run refl same some apart | use one two in blast); assumption)
qed

text \<open>The mapping of \<^verbatim>\<open>kmalloc_init\<close> is the one assumed.\<close>

lemma heap_map_init:
  assumes wf: "wf_layout p"
  shows "heap_map (kmalloc_tables (paging_init p))"
  unfolding heap_map_def
proof (intro conjI allI impI)
  fix k assume "k < heap_size"
  then show "translate (kmalloc_tables (paging_init p)) (KMALLOC_BEGIN + of_nat k) = Some (of_nat (k mod 0x400000))"
    unfolding heap_size_def by (rule heap_translate_offset [OF wf])
next
  fix k assume k: "heap_size \<le> k \<and> k < heap_size + 0x400100"
  let ?p = "kmalloc_tables (paging_init p)" and ?va = "KMALLOC_BEGIN + of_nat k :: u32"
  have "unat ?va = 0x3000000 + k" using k by (simp add: unat_word_ariths unat_of_nat heap_size_def)
  then have "unat (drop_bit 22 ?va) = (0x3000000 + k) div 0x400000" by (subst unat_drop_bit_eq) (simp add: drop_bit_eq_div)
  moreover have "(0x3000000 + k) div 0x400000 = 16 \<or> (0x3000000 + k) div 0x400000 = 17"
  proof (cases "k < heap_size + 0x400000")
    case True
    then have "(0x3000000 + k) div 0x400000 = 16" using k by (intro div_nat_eqI) (simp_all add: heap_size_def)
    then show ?thesis ..
  next
    case False
    then have "(0x3000000 + k) div 0x400000 = 17" using k by (intro div_nat_eqI) (simp_all add: heap_size_def)
    then show ?thesis ..
  qed
  moreover have "\<not> bit (page_directories ?p ! i) 0" "i < length (page_directories ?p)" if "i = 16 \<or> i = 17" for i
    using that by (auto simp: kmalloc_tables_unroll paging_init_dir mb_entry_def bit_set_field)
  ultimately show "translate ?p ?va = None" by (auto simp: translate_def nth_opt_Some)
qed

definition heap_state :: kstate where
  "heap_state = sample_state\<lparr>mmu := kmalloc_tables (paging_init sample_layout)\<rparr>"

lemma heap_state_map: "heap_map (mmu heap_state)"
  using heap_map_init [OF wf_sample_layout] by (simp add: heap_state_def)

theorem kmalloc_blocks_disjoint_witness:
  "\<exists>p q head s'. kmalloc_all [100, 1] (0, heap_state) = Some ([p, q], head, s') \<and> unat p + 100 + 16 \<le> unat q \<and>
    translate (mmu s') p \<noteq> translate (mmu s') q"
proof -
  have v: "list_all valid_size [100, 1]" by (simp add: valid_size_def)
  have t: "heap_total [100, 1] + 16 \<le> heap_size" "heap_total [100, 1] \<le> 0x400000"
    by (simp_all add: heap_total_def rounded_def heap_size_def)
  have "\<exists>ps head s'. kmalloc_all [100, 1] (0, heap_state) = Some (ps, head, s') \<and> length ps = length [100, 1 :: u32] \<and>
    (\<forall>i < length ps. \<forall>j < length ps. i < j \<longrightarrow> unat (ps ! i) + unat ([100, 1 :: u32] ! i) + 16 \<le> unat (ps ! j)) \<and>
    (\<forall>i < length ps. \<forall>j < length ps. i \<noteq> j \<longrightarrow> (\<forall>a < unat ([100, 1 :: u32] ! i). \<forall>b < unat ([100, 1 :: u32] ! j).
      translate (mmu s') (ps ! i + of_nat a) \<noteq> translate (mmu s') (ps ! j + of_nat b)))"
    using kmalloc_blocks_disjoint [OF heap_state_map v t(1)] t(2)
    by (elim exE conjE) (intro exI conjI allI impI, assumption, assumption, drule spec, drule (1) mp, elim conjE, drule spec, drule (1) mp, drule (1) mp, assumption, drule (1) mp, rule notI, blast)
  then obtain ps head s' where r: "kmalloc_all [100, 1] (0, heap_state) = Some (ps, head, s')" "length ps = length [100, 1 :: u32]"
    and d: "\<forall>i < length ps. \<forall>j < length ps. i < j \<longrightarrow> unat (ps ! i) + unat ([100, 1 :: u32] ! i) + 16 \<le> unat (ps ! j)"
    and e: "\<forall>i < length ps. \<forall>j < length ps. i \<noteq> j \<longrightarrow> (\<forall>a < unat ([100, 1 :: u32] ! i). \<forall>b < unat ([100, 1 :: u32] ! j).
      translate (mmu s') (ps ! i + of_nat a) \<noteq> translate (mmu s') (ps ! j + of_nat b))"
    by (elim exE conjE) (rule that)
  obtain p q where ps: "ps = [p, q]" using r(2) by (auto simp: length_Suc_conv)
  have "unat p + 100 + 16 \<le> unat q" using d [rule_format, of 0 1] by (simp add: ps)
  moreover have "translate (mmu s') p \<noteq> translate (mmu s') q" using e [rule_format, of 0 1 0 0] by (simp add: ps)
  ultimately show ?thesis using r(1) ps by blast
qed

text \<open>C36: once a block has been split, the size recorded for the rest is \<^verbatim>\<open>0xFFFFFFF0\<close>, whatever is left, as
  \<^verbatim>\<open>split_block\<close> stores the new size of the block before it computes the rest from it: after any two or more requests
  that fit, the one free block, which starts right above what they took, claims 16 bytes less than 4 GB. So the
  end of the region is never noticed: a request that the region has no room for is not answered with a null
  pointer or from the bottom, the header of the rest is written past the region, and the kernel faults.\<close>

theorem kmalloc_exhausted_faults:
  assumes "heap_map (mmu s)" "list_all valid_size szs" "heap_total szs + 16 \<le> heap_size" "2 \<le> length szs"
  shows "\<exists>ps head s'. kmalloc_all szs (0, s) = Some (ps, head, s') \<and>
    head = KMALLOC_BEGIN + of_nat (heap_total szs) \<and> vload32 (b_size head) s' = Some 0xFFFFFFF0 \<and>
    (\<forall>sz. valid_size sz \<longrightarrow> heap_size \<le> heap_total szs + rounded sz + 16 \<longrightarrow> kmalloc sz (head, s') = None)"
proof -
  have "szs \<noteq> []" using assms(4) by auto
  from kmalloc_run [OF assms(1-3) this] obtain ps s' where
    r: "kmalloc_all szs (0, s) = Some (ps, KMALLOC_BEGIN + of_nat (heap_total szs), s')"
    "heap_head (heap_total szs) 0xFFFFFFF0 s'" using assms(4) by blast
  have "vload32 (b_size (KMALLOC_BEGIN + of_nat (heap_total szs))) s' = Some 0xFFFFFFF0"
    using r(2) by (simp add: heap_head_def slot_def b_size_def add.commute add.left_commute)
  then show ?thesis using r kmalloc_past_end [OF r(2)] by blast
qed

text \<open>Three requests of 4 MB leave too little for a fourth.\<close>

theorem kmalloc_exhausted_faults_witness:
  "\<exists>ps head s'. kmalloc_all [0x400000, 0x400000, 0x400000] (0, heap_state) = Some (ps, head, s') \<and>
    vload32 (b_size head) s' = Some 0xFFFFFFF0 \<and> kmalloc 0x400000 (head, s') = None"
proof -
  let ?szs = "[0x400000, 0x400000, 0x400000 :: u32]"
  have v: "valid_size 0x400000" by (simp add: valid_size_def)
  have "list_all valid_size ?szs" "heap_total ?szs + 16 \<le> heap_size" "2 \<le> length ?szs"
    "heap_size \<le> heap_total ?szs + rounded 0x400000 + 16"
    using v by (simp_all add: heap_total_def rounded_def heap_size_def)
  then show ?thesis using kmalloc_exhausted_faults [OF heap_state_map, of ?szs] v by blast
qed

end
