(* ===== verification/Boot.thy ===== *)
theory Boot imports FileInit Idt Kmalloc begin

text \<open>
  The start of the kernel: \<^verbatim>\<open>entry\<close> of \<^verbatim>\<open>src/student-distrib/kernel.c\<close>, from the boot loader's record to the idle
  loop, with the segment descriptors of \<^verbatim>\<open>x86_desc.h\<close> and \<^verbatim>\<open>launch_tests\<close> of \<^verbatim>\<open>tests.c\<close>. The processor starts
  without paging, which is the identity map \<open>flat_paging\<close> here. The symbols of the linker and what the stack holds
  are fields of \<open>symbols\<close>.
\<close>

abbreviation MULTIBOOT_BOOTLOADER_MAGIC :: u32 where "MULTIBOOT_BOOTLOADER_MAGIC \<equiv> 0x2BADB002"
abbreviation KERNEL_LDT :: u16 where "KERNEL_LDT \<equiv> 0x38"
abbreviation TSS_SIZE :: u32 where "TSS_SIZE \<equiv> 104"

section \<open>Segment descriptors\<close>

text \<open>The two words of the union; an assignment to a bit field changes its bits only.\<close>

record seg_desc_t =
  seg_lo :: u32
  seg_hi :: u32

definition set_seg_lo :: "nat \<Rightarrow> nat \<Rightarrow> u32 \<Rightarrow> seg_desc_t \<Rightarrow> seg_desc_t" where
  "set_seg_lo p l v d = d\<lparr>seg_lo := set_field p l v (seg_lo d)\<rparr>"

definition set_seg_hi :: "nat \<Rightarrow> nat \<Rightarrow> u32 \<Rightarrow> seg_desc_t \<Rightarrow> seg_desc_t" where
  "set_seg_hi p l v d = d\<lparr>seg_hi := set_field p l v (seg_hi d)\<rparr>"

abbreviation "set_seg_lim_15_00 \<equiv> set_seg_lo 0 16"
abbreviation "set_base_15_00 \<equiv> set_seg_lo 16 16"
abbreviation "set_base_23_16 \<equiv> set_seg_hi 0 8"
abbreviation "set_seg_type \<equiv> set_seg_hi 8 4"
abbreviation "set_seg_sys \<equiv> set_seg_hi 12 (Suc 0)"
abbreviation "set_seg_dpl \<equiv> set_seg_hi 13 2"
abbreviation "set_seg_present \<equiv> set_seg_hi 15 (Suc 0)"
abbreviation "set_seg_lim_19_16 \<equiv> set_seg_hi 16 4"
abbreviation "set_seg_avail \<equiv> set_seg_hi 20 (Suc 0)"
abbreviation "set_seg_reserved \<equiv> set_seg_hi 21 (Suc 0)"
abbreviation "set_seg_opsize \<equiv> set_seg_hi 22 (Suc 0)"
abbreviation "set_seg_granularity \<equiv> set_seg_hi 23 (Suc 0)"
abbreviation "set_base_31_24 \<equiv> set_seg_hi 24 8"

definition SET_LDT_PARAMS :: "u32 \<Rightarrow> u32 \<Rightarrow> seg_desc_t \<Rightarrow> seg_desc_t" where
  "SET_LDT_PARAMS addr lim str =
     (let str = set_base_31_24 (drop_bit 24 (addr AND 0xFF000000)) str;
          str = set_base_23_16 (drop_bit 16 (addr AND 0x00FF0000)) str;
          str = set_base_15_00 (addr AND 0x0000FFFF) str;
          str = set_seg_lim_19_16 (drop_bit 16 (lim AND 0x000F0000)) str
      in set_seg_lim_15_00 (lim AND 0x0000FFFF) str)"

definition SET_TSS_PARAMS :: "u32 \<Rightarrow> u32 \<Rightarrow> seg_desc_t \<Rightarrow> seg_desc_t" where
  "SET_TSS_PARAMS addr lim str =
     (let str = set_base_31_24 (drop_bit 24 (addr AND 0xFF000000)) str;
          str = set_base_23_16 (drop_bit 16 (addr AND 0x00FF0000)) str;
          str = set_base_15_00 (addr AND 0x0000FFFF) str;
          str = set_seg_lim_19_16 (drop_bit 16 (lim AND 0x000F0000)) str
      in set_seg_lim_15_00 (lim AND 0x0000FFFF) str)"

definition the_ldt_desc :: "u32 \<Rightarrow> u32 \<Rightarrow> seg_desc_t \<Rightarrow> seg_desc_t" where
  "the_ldt_desc ldt ldt_size d =
     (let d = set_seg_granularity 0 d;
          d = set_seg_opsize 1 d;
          d = set_seg_reserved 0 d;
          d = set_seg_avail 0 d;
          d = set_seg_present 1 d;
          d = set_seg_dpl 0 d;
          d = set_seg_sys 0 d;
          d = set_seg_type 2 d
      in SET_LDT_PARAMS ldt ldt_size d)"

definition the_tss_desc :: "u32 \<Rightarrow> u32 \<Rightarrow> seg_desc_t \<Rightarrow> seg_desc_t" where
  "the_tss_desc tss tss_size d =
     (let d = set_seg_granularity 0 d;
          d = set_seg_opsize 0 d;
          d = set_seg_reserved 0 d;
          d = set_seg_avail 0 d;
          d = set_seg_lim_19_16 (TSS_SIZE AND 0x000F0000) d;
          d = set_seg_present 1 d;
          d = set_seg_dpl 0 d;
          d = set_seg_sys 0 d;
          d = set_seg_type 9 d;
          d = set_seg_lim_15_00 (TSS_SIZE AND 0x0000FFFF) d
      in SET_TSS_PARAMS tss tss_size d)"

section \<open>The boot loader's record\<close>

text \<open>The fields of \<^verbatim>\<open>multiboot_info_t\<close>, \<^verbatim>\<open>module_t\<close> and \<^verbatim>\<open>memory_map_t\<close> by their offsets.\<close>

definition mbi_flags :: "u32 \<Rightarrow> u32" where "mbi_flags a = a"
definition mbi_mem_lower :: "u32 \<Rightarrow> u32" where "mbi_mem_lower a = a + 4"
definition mbi_mem_upper :: "u32 \<Rightarrow> u32" where "mbi_mem_upper a = a + 8"
definition mbi_boot_device :: "u32 \<Rightarrow> u32" where "mbi_boot_device a = a + 12"
definition mbi_cmdline :: "u32 \<Rightarrow> u32" where "mbi_cmdline a = a + 16"
definition mbi_mods_count :: "u32 \<Rightarrow> u32" where "mbi_mods_count a = a + 20"
definition mbi_mods_addr :: "u32 \<Rightarrow> u32" where "mbi_mods_addr a = a + 24"
definition mbi_elf_sec :: "u32 \<Rightarrow> u32" where "mbi_elf_sec a = a + 28"
definition mbi_mmap_length :: "u32 \<Rightarrow> u32" where "mbi_mmap_length a = a + 44"
definition mbi_mmap_addr :: "u32 \<Rightarrow> u32" where "mbi_mmap_addr a = a + 48"

definition CHECK_FLAG :: "u32 \<Rightarrow> nat \<Rightarrow> bool" where
  "CHECK_FLAG flags n \<longleftrightarrow> flags AND push_bit n 1 \<noteq> 0"

record symbols =
  ldt_at :: u32
  ldt_size :: u32
  tss_at :: u32
  tss_size :: u32
  handlers :: entries
  ldt_junk :: seg_desc_t
  tss_junk :: seg_desc_t
  conv_frame :: mem

text \<open>\<^verbatim>\<open>printf\<close> of a line.\<close>

definition print_line :: "symbols \<Rightarrow> string \<Rightarrow> u32 list \<Rightarrow> kstate \<Rightarrow> kstate option" where
  "print_line y format args s = do {
     (_, s) \<leftarrow> printf (conv_frame y) (map of_char format @ [10]) args s;
     Some s
   }"

definition show_memory :: "symbols \<Rightarrow> u32 \<Rightarrow> u32 \<Rightarrow> kstate \<Rightarrow> kstate option" where
  "show_memory y flags mbi s =
     (if CHECK_FLAG flags 0 then do {
        lower \<leftarrow> vload32 (mbi_mem_lower mbi) s;
        upper \<leftarrow> vload32 (mbi_mem_upper mbi) s;
        print_line y ''mem_lower = %uKB, mem_upper = %uKB'' [lower, upper] s
      } else Some s)"

definition show_boot_device :: "symbols \<Rightarrow> u32 \<Rightarrow> u32 \<Rightarrow> kstate \<Rightarrow> kstate option" where
  "show_boot_device y flags mbi s =
     (if CHECK_FLAG flags 1 then do {
        dev \<leftarrow> vload32 (mbi_boot_device mbi) s;
        print_line y ''boot_device = 0x%#x'' [dev] s
      } else Some s)"

definition show_cmdline :: "symbols \<Rightarrow> u32 \<Rightarrow> u32 \<Rightarrow> kstate \<Rightarrow> kstate option" where
  "show_cmdline y flags mbi s =
     (if CHECK_FLAG flags 2 then do {
        str \<leftarrow> vload32 (mbi_cmdline mbi) s;
        print_line y ''cmdline = %s'' [str] s
      } else Some s)"

text \<open>A byte of the module is a \<^verbatim>\<open>char\<close>, extended with its sign. The line has no line feed of its own.\<close>

definition show_byte :: "symbols \<Rightarrow> u32 \<Rightarrow> nat \<Rightarrow> kstate \<Rightarrow> kstate option" where
  "show_byte y start i s = do {
     b \<leftarrow> vload (start + of_nat i) s;
     (_, s) \<leftarrow> printf (conv_frame y) (map of_char ''0x%x '') [scast b] s;
     Some s
   }"

definition show_module :: "symbols \<Rightarrow> u32 \<Rightarrow> u32 \<Rightarrow> kstate \<Rightarrow> kstate option" where
  "show_module y mod_count modl s = do {
     start \<leftarrow> vload32 modl s;
     s \<leftarrow> print_line y ''Module %d loaded at address: 0x%#x'' [mod_count, start] s;
     end \<leftarrow> vload32 (modl + 4) s;
     s \<leftarrow> print_line y ''Module %d ends at address: 0x%#x'' [mod_count, end] s;
     s \<leftarrow> print_line y ''First few bytes of module:'' [] s;
     s \<leftarrow> for_opt (\<lambda>i s. do { start \<leftarrow> vload32 modl s; show_byte y start i s }) [0..<16] s;
     print_line y '''' [] s
   }"

text \<open>The count is read again before each round.\<close>

partial_function (option) show_modules :: "symbols \<Rightarrow> u32 \<Rightarrow> u32 \<Rightarrow> u32 \<Rightarrow> kstate \<Rightarrow> kstate option" where
  "show_modules y mbi mod_count modl s = do {
     n \<leftarrow> vload32 (mbi_mods_count mbi) s;
     if mod_count < n then do {
       s \<leftarrow> show_module y mod_count modl s;
       show_modules y mbi (mod_count + 1) (modl + 16) s
     } else Some s
   }"

text \<open>The image of the file system is the memory of the first module: the sectors from the drive are stored over it, and
  the file system is what the pointers of \<^verbatim>\<open>filesys.c\<close> find there.\<close>

definition load_modules :: "symbols \<Rightarrow> u32 \<Rightarrow> u32 \<Rightarrow> kstate \<Rightarrow> kstate option" where
  "load_modules y flags mbi s =
     (if CHECK_FLAG flags 3 then do {
        modl \<leftarrow> vload32 (mbi_mods_addr mbi) s;
        start \<leftarrow> vload32 modl s;
        end \<leftarrow> vload32 (modl + 4) s;
        (fs, io) \<leftarrow> file_system_init start (copy_in start (unat (end - start)) s) (disk s) (ports s);
        s \<leftarrow> copy_out start (image_bytes fs) (s\<lparr>disk := fs, ports := io\<rparr>);
        show_modules y mbi 0 modl s
      } else Some s)"

definition show_elf :: "symbols \<Rightarrow> u32 \<Rightarrow> u32 \<Rightarrow> kstate \<Rightarrow> kstate option" where
  "show_elf y flags mbi s =
     (if CHECK_FLAG flags 5 then do {
        let elf_sec = mbi_elf_sec mbi;
        num \<leftarrow> vload32 elf_sec s;
        sz \<leftarrow> vload32 (elf_sec + 4) s;
        addr \<leftarrow> vload32 (elf_sec + 8) s;
        shndx \<leftarrow> vload32 (elf_sec + 12) s;
        print_line y ''elf_sec: num = %u, size = 0x%#x, addr = 0x%#x, shndx = 0x%#x'' [num, sz, addr, shndx] s
      } else Some s)"

definition show_region :: "symbols \<Rightarrow> u32 \<Rightarrow> kstate \<Rightarrow> kstate option" where
  "show_region y mmap s = do {
     sz \<leftarrow> vload32 mmap s;
     base_low \<leftarrow> vload32 (mmap + 4) s;
     base_high \<leftarrow> vload32 (mmap + 8) s;
     length_low \<leftarrow> vload32 (mmap + 12) s;
     length_high \<leftarrow> vload32 (mmap + 16) s;
     type \<leftarrow> vload32 (mmap + 20) s;
     (_, s) \<leftarrow> printf (conv_frame y)
       (map of_char ''    size = 0x%x, base_addr = 0x%#x%#x'' @ [10] @ map of_char ''    type = 0x%x,  length    = 0x%#x%#x'' @ [10])
       [sz, base_high, base_low, type, length_high, length_low] s;
     Some s
   }"

partial_function (option) show_regions :: "symbols \<Rightarrow> u32 \<Rightarrow> u32 \<Rightarrow> kstate \<Rightarrow> kstate option" where
  "show_regions y mbi mmap s = do {
     addr \<leftarrow> vload32 (mbi_mmap_addr mbi) s;
     len \<leftarrow> vload32 (mbi_mmap_length mbi) s;
     if mmap < addr + len then do {
       s \<leftarrow> show_region y mmap s;
       sz \<leftarrow> vload32 mmap s;
       show_regions y mbi (mmap + sz + 4) s
     } else Some s
   }"

definition show_map :: "symbols \<Rightarrow> u32 \<Rightarrow> u32 \<Rightarrow> kstate \<Rightarrow> kstate option" where
  "show_map y flags mbi s =
     (if CHECK_FLAG flags 6 then do {
        addr \<leftarrow> vload32 (mbi_mmap_addr mbi) s;
        len \<leftarrow> vload32 (mbi_mmap_length mbi) s;
        s \<leftarrow> print_line y ''mmap_addr = 0x%#x, mmap_length = 0x%x'' [addr, len] s;
        addr \<leftarrow> vload32 (mbi_mmap_addr mbi) s;
        show_regions y mbi addr s
      } else Some s)"

text \<open>The whole record. \<open>False\<close> is the early return.\<close>

definition read_boot_info :: "symbols \<Rightarrow> u32 \<Rightarrow> kstate \<Rightarrow> (bool \<times> kstate) option" where
  "read_boot_info y mbi s = do {
     flags \<leftarrow> vload32 (mbi_flags mbi) s;
     s \<leftarrow> print_line y ''flags = 0x%#x'' [flags] s;
     flags \<leftarrow> vload32 (mbi_flags mbi) s;
     s \<leftarrow> show_memory y flags mbi s;
     flags \<leftarrow> vload32 (mbi_flags mbi) s;
     s \<leftarrow> show_boot_device y flags mbi s;
     flags \<leftarrow> vload32 (mbi_flags mbi) s;
     s \<leftarrow> show_cmdline y flags mbi s;
     flags \<leftarrow> vload32 (mbi_flags mbi) s;
     s \<leftarrow> load_modules y flags mbi s;
     flags \<leftarrow> vload32 (mbi_flags mbi) s;
     if CHECK_FLAG flags 4 \<and> CHECK_FLAG flags 5 then do {
       s \<leftarrow> print_line y ''Both bits 4 and 5 are set.'' [] s;
       Some (False, s)
     }
     else do {
       s \<leftarrow> show_elf y flags mbi s;
       flags \<leftarrow> vload32 (mbi_flags mbi) s;
       s \<leftarrow> show_map y flags mbi s;
       Some (True, s)
     }
   }"

section \<open>Starting the machine\<close>

text \<open>What lies outside the state of the running kernel: the interrupt table, \<^verbatim>\<open>kmem_blocks\<close>, the two descriptors of
  the global table and a field of the task state.\<close>

record machine =
  kern :: kstate
  idt :: "idt_desc_t list"
  kmem_blocks :: u32
  ldt_desc_ptr :: seg_desc_t
  tss_desc_ptr :: seg_desc_t
  tss_ldt_selector :: u16

datatype boot_result = Returned | Spins

definition init_segments :: "symbols \<Rightarrow> machine \<Rightarrow> machine" where
  "init_segments y m = m\<lparr>
     ldt_desc_ptr := the_ldt_desc (ldt_at y) (ldt_size y) (ldt_junk y),
     tss_desc_ptr := the_tss_desc (tss_at y) (tss_size y) (tss_junk y),
     tss_ldt_selector := KERNEL_LDT,
     kern := (kern m)\<lparr>tss_ss0 := KERNEL_DS, tss_esp0 := 0x800000\<rparr>\<rparr>"

definition launch_tests :: "machine \<Rightarrow> machine option" where
  "launch_tests m = do {
     (ptr, head, s) \<leftarrow> kmalloc 65536 (kmem_blocks m, kern m);
     Some (m\<lparr>kern := s, kmem_blocks := head\<rparr>)
   }"

text \<open>The boot block, the inodes and the data blocks lie in the memory of the module, at the addresses that
  \<^verbatim>\<open>file_system_init\<close> has put into its three pointers. \<open>reread\<close> is the file system that they find there when memory
  has been written since; the two bitmaps are variables of the kernel.\<close>

definition reread :: "kstate \<Rightarrow> fsys \<Rightarrow> fsys" where
  "reread s fs =
     (let n = length (inode_blocks fs);
          m = length (data_blocks fs);
          img = copy_in (boot_block_addr fs) (BLK * (1 + n + m)) s
      in fs\<lparr>boot_block := boot_block_of (take BLK img),
           inode_blocks := map inode_of (chunks BLK n (drop BLK img)),
           data_blocks := chunks BLK m (drop (BLK * (1 + n)) img)\<rparr>)"

text \<open>The heap clears the lowest 4 MB of memory, and the tests take a block of it: the file system is what the
  module's memory holds after that.\<close>

definition start_machine :: "symbols \<Rightarrow> machine \<Rightarrow> machine option" where
  "start_machine y m = do {
     let m = init_segments y m;
     let s = kern m;
     let s = s\<lparr>mmu := paging_init (mmu s)\<rparr>;
     (p, mem) \<leftarrow> kmalloc_init (mmu s) (phys s);
     let s = s\<lparr>mmu := p, phys := mem\<rparr>;
     let m = m\<lparr>idt := idt_init (handlers y) (idt m)\<rparr>;
     let s = s\<lparr>ports := i8259_init (pics s) (ports s)\<rparr>;
     let s = keyboard_init s;
     let s = rtc_init s;
     s \<leftarrow> print_line y ''Enabling Interrupts'' [] s;
     let s = s\<lparr>iflag := True\<rparr>;
     s \<leftarrow> clear s;
     m \<leftarrow> launch_tests (m\<lparr>kern := s\<rparr>);
     let s = kern m;
     Some (m\<lparr>kern := s\<lparr>disk := reread s (disk s)\<rparr>\<rparr>)
   }"

definition entry :: "symbols \<Rightarrow> u32 \<Rightarrow> u32 \<Rightarrow> machine \<Rightarrow> (boot_result \<times> machine) option" where
  "entry y magic addr m = do {
     s \<leftarrow> clear (kern m);
     if magic \<noteq> MULTIBOOT_BOOTLOADER_MAGIC then do {
       s \<leftarrow> print_line y ''Invalid magic number: 0x%#x'' [magic] s;
       Some (Returned, m\<lparr>kern := s\<rparr>)
     }
     else do {
       (go, s) \<leftarrow> read_boot_info y addr s;
       if go then do { m \<leftarrow> start_machine y (m\<lparr>kern := s\<rparr>); Some (Spins, m) }
       else Some (Returned, m\<lparr>kern := s\<rparr>)
     }
   }"

section \<open>What the processor reads in a segment descriptor\<close>

definition seg_base :: "seg_desc_t \<Rightarrow> u32" where
  "seg_base d = get_field 16 16 (seg_lo d) OR push_bit 16 (get_field 0 8 (seg_hi d)) OR push_bit 24 (get_field 24 8 (seg_hi d))"

definition seg_limit :: "seg_desc_t \<Rightarrow> u32" where
  "seg_limit d = get_field 0 16 (seg_lo d) OR push_bit 16 (get_field 16 4 (seg_hi d))"

text \<open>Type, class, level and presence; and the four flags above the limit.\<close>

definition seg_access :: "seg_desc_t \<Rightarrow> u32" where
  "seg_access d = get_field 8 8 (seg_hi d)"

definition seg_flags :: "seg_desc_t \<Rightarrow> u32" where
  "seg_flags d = get_field 20 4 (seg_hi d)"

lemmas seg_setters = set_seg_lo_def set_seg_hi_def SET_LDT_PARAMS_def SET_TSS_PARAMS_def Let_def

lemma address_masks:
  "(0xFF000000 :: u32) = push_bit 24 (mask 8)" "(0x00FF0000 :: u32) = push_bit 16 (mask 8)"
  "(0x0000FFFF :: u32) = mask 16" "(0x000F0000 :: u32) = push_bit 16 (mask 4)" "(0xFFFFF :: u32) = mask 20"
  by (simp_all add: mask_eq_exp_minus_1)

lemma params_base: "seg_base (SET_LDT_PARAMS a l d) = a"
  unfolding seg_base_def seg_setters address_masks
  by (rule bit_word_eqI) (auto simp: bit_simps bit_get_field bit_set_field)

lemma params_limit: "seg_limit (SET_LDT_PARAMS a l d) = l AND 0xFFFFF"
  unfolding seg_limit_def seg_setters address_masks
  by (rule bit_word_eqI) (auto simp: bit_simps bit_get_field bit_set_field)

lemma tss_params_eq: "SET_TSS_PARAMS = SET_LDT_PARAMS"
  by (rule ext)+ (simp only: SET_TSS_PARAMS_def SET_LDT_PARAMS_def)

lemma params_rest:
  "seg_access (SET_LDT_PARAMS a l d) = seg_access d" "seg_flags (SET_LDT_PARAMS a l d) = seg_flags d"
  unfolding seg_access_def seg_flags_def seg_setters by (simp_all add: get_set_field_other)

lemma field_eqI:
  assumes "list_all (\<lambda>n. bit (get_field p k w) n = bit v n) [0..<k]" "take_bit k v = v"
  shows "get_field p k w = (v :: u32)"
proof (rule bit_word_eqI)
  fix n
  show "bit (get_field p k w) n = bit v n"
  proof (cases "n < k")
    case True
    then show ?thesis using assms(1) by (simp add: list_all_iff)
  next
    case False
    then show ?thesis using assms(2) by (metis bit_get_field bit_take_bit_iff)
  qed
qed

lemma upt_bits: "[0..<8] = [0, 1, 2, 3, 4, 5, 6, 7]" "[0..<4] = [0, 1, 2, 3]"
  by code_simp+

lemma access_bytes:
  "seg_access (set_seg_type 2 (set_seg_sys 0 (set_seg_dpl 0 (set_seg_present 1 d)))) = 0x82"
  "seg_access (set_seg_lim_15_00 v (set_seg_type 9 (set_seg_sys 0 (set_seg_dpl 0 (set_seg_present 1 d))))) = 0x89"
  unfolding seg_access_def seg_setters
  by (rule field_eqI; simp add: upt_bits bit_get_field bit_set_field)+

lemma flag_bits:
  "seg_flags (set_seg_avail 0 (set_seg_reserved 0 (set_seg_opsize 1 (set_seg_granularity 0 d)))) = 4"
  "seg_flags (set_seg_avail 0 (set_seg_reserved 0 (set_seg_opsize 0 (set_seg_granularity 0 d)))) = 0"
  unfolding seg_flags_def seg_setters
  by (rule field_eqI; simp add: upt_bits bit_get_field bit_set_field)+

lemma flags_kept:
  "p + l \<le> 20 \<Longrightarrow> seg_flags (set_seg_hi p l v d) = seg_flags d"
  "seg_flags (set_seg_lo p l v d) = seg_flags d"
  by (simp_all add: seg_flags_def seg_setters get_set_field_other)

text \<open>Whatever the local variables held before, the descriptors that \<^verbatim>\<open>entry\<close> stores have the address of the
  table or task state as base, the low 20 bits of its size as limit in bytes, and are present system descriptors of
  level 0 for a local table and an available 32-bit task.\<close>

lemma segments_describe:
  "seg_base (the_ldt_desc a l d) = a \<and> seg_limit (the_ldt_desc a l d) = l AND 0xFFFFF \<and>
     seg_access (the_ldt_desc a l d) = 0x82 \<and> seg_flags (the_ldt_desc a l d) = 4 \<and>
   seg_base (the_tss_desc a l d) = a \<and> seg_limit (the_tss_desc a l d) = l AND 0xFFFFF \<and>
     seg_access (the_tss_desc a l d) = 0x89 \<and> seg_flags (the_tss_desc a l d) = 0"
  unfolding the_ldt_desc_def the_tss_desc_def Let_def tss_params_eq params_base params_limit params_rest access_bytes
  by (simp add: flags_kept flag_bits)

end
