(* ===== verification/BootInfo.thy ===== *)
theory BootInfo imports Boot begin

text \<open>
  Reading the boot loader's record (\<^verbatim>\<open>kernel.c\<close>, the first half of \<^verbatim>\<open>entry\<close>). Each part of it prints something and
  changes nothing else; the module is mounted. The record is read again after each line, so it must not lie on the
  screen.
\<close>

section \<open>What printing during the start changes\<close>

text \<open>Nothing is read from a port.\<close>

definition only_outs :: "io \<Rightarrow> io \<Rightarrow> bool" where
  "only_outs io io' \<longleftrightarrow> device io' = device io \<and> (\<exists>evs. hist io' = evs @ hist io \<and> (\<forall>e \<in> set evs. \<exists>p v. e = Out8 p v))"

lemma only_outs_refl [simp]: "only_outs io io"
  by (simp add: only_outs_def)

lemma only_outs_trans: "only_outs a b \<Longrightarrow> only_outs b c \<Longrightarrow> only_outs a c"
  unfolding only_outs_def by (elim conjE exE) (rule conjI, simp, rule exI, rule conjI, simp, simp, blast)

lemma only_outs_cursor: "only_outs io (set_cursor_pos x y io)"
  by (simp add: only_outs_def set_cursor_pos_def outb_def Let_def)

lemma video_store_ports: "video_store off v s = Some s' \<Longrightarrow> ports s' = ports s"
  by (auto simp: video_store_def vstore_def bind_eq_Some_conv)

lemma for_opt_ports:
  assumes "\<And>x s s'. f x s = Some s' \<Longrightarrow> ports s' = ports s"
  shows "for_opt f xs s = Some s' \<Longrightarrow> ports s' = ports s"
  using for_opt_invariant [of xs "\<lambda>t. ports t = ports s" f s s'] assms by metis

lemma scroll_ports: "scroll s = Some s' \<Longrightarrow> ports s' = ports s"
proof -
  assume "scroll s = Some s'"
  then obtain s1 s2 where s: "for_opt scroll_cell [0..<unat scroll_count div 2] s = Some s1"
    "for_opt scroll_last_cell [0..<unat NUM_COLS] s1 = Some s2" "s' = s2\<lparr>screen_y := screen_y s2 - 1\<rparr>"
    by (auto simp: scroll_def bind_eq_Some_conv)
  have "ports s1 = ports s" using s(1)
    by (rule for_opt_ports [rotated]) (auto simp: scroll_cell_def Let_def bind_eq_Some_conv dest!: video_store_ports)
  moreover have "ports s2 = ports s1" using s(2)
    by (rule for_opt_ports [rotated]) (auto simp: scroll_last_cell_def Let_def bind_eq_Some_conv dest!: video_store_ports)
  ultimately show ?thesis using s(3) by simp
qed

lemma new_line_ports: "new_line s = Some s' \<Longrightarrow> ports s' = ports s"
  by (auto simp: new_line_def Let_def split: if_splits dest!: scroll_ports)

lemma putc_char_ports: "putc_char c s = Some s' \<Longrightarrow> ports s' = ports s"
  by (auto simp: putc_char_def Let_def bind_eq_Some_conv split: if_splits dest!: video_store_ports new_line_ports)

lemma set_term_cursor_ports: "set_term_cursor t x y s = Some s' \<Longrightarrow> ports s' = ports s"
  by (auto simp: set_term_cursor_def map_term_def bind_eq_Some_conv)

lemma putc_cursor_outs: "putc_cursor s = Some s' \<Longrightarrow> only_outs (ports s) (ports s')"
  by (auto simp: putc_cursor_def move_cursor_def bind_eq_Some_conv split: if_splits dest!: set_term_cursor_ports intro: only_outs_cursor)

lemma putc_outs:
  assumes "putc c s = Some s'" "c \<noteq> 8" "c \<noteq> 9"
  shows "only_outs (ports s) (ports s')"
proof -
  obtain s1 where s1: "ports s1 = ports s" "putc_cursor s1 = Some s'"
  proof (cases "c = 10 \<or> c = 13")
    case True
    then show ?thesis using that assms(1) by (auto simp: putc_def bind_eq_Some_conv dest: new_line_ports)
  next
    case False
    then show ?thesis using that assms by (auto simp: putc_def bind_eq_Some_conv dest: putc_char_ports)
  qed
  then show ?thesis using putc_cursor_outs by metis
qed

lemma puts_outs: "for_opt putc str s = Some s' \<Longrightarrow> plain_text str \<Longrightarrow> only_outs (ports s) (ports s')"
proof (induction str arbitrary: s)
  case (Cons c str)
  then obtain s1 where "putc c s = Some s1" "for_opt putc str s1 = Some s'" by (auto simp: bind_eq_Some_conv)
  then show ?case using Cons putc_outs [of c s s1] only_outs_trans unfolding plain_text_def by fastforce
qed simp

text \<open>The part of the state that the start relies on.\<close>

definition boot_view :: "kstate \<Rightarrow> paging \<times> u32 \<times> pic \<times> pcb_t list \<times> nat \<times> u32 \<times> u32 \<times> u32 \<times> bool" where
  "boot_view s = (mmu s, video_mem s, pics s, pcbs s, length (terms s), shown_term_id s, active_term_id s, esp s, iflag s)"

definition boot_console :: "kstate \<Rightarrow> bool" where
  "boot_console s \<longleftrightarrow> window s VIDEO \<and> on_screen s \<and> cursor_ok s"

definition told :: "kstate \<Rightarrow> kstate \<Rightarrow> bool" where
  "told s s' \<longleftrightarrow> boot_view s' = boot_view s \<and> on_screen s' \<and> outside_window VIDEO (phys s) (phys s')"

definition quietly :: "kstate \<Rightarrow> kstate \<Rightarrow> bool" where
  "quietly s s' \<longleftrightarrow> told s s' \<and> disk s' = disk s \<and> only_outs (ports s) (ports s')"

lemma told_console: "told s s' \<Longrightarrow> boot_console s \<Longrightarrow> boot_console s'"
  using window_cong [of s' s VIDEO]
  by (auto simp: told_def boot_console_def boot_view_def cursor_ok_def current_def get_current_pcb_def)

lemma told_refl: "boot_console s \<Longrightarrow> told s s"
  by (simp add: told_def boot_console_def)

lemma told_trans: "told a b \<Longrightarrow> told b c \<Longrightarrow> told a c"
  using outside_window_trans by (auto simp: told_def)

lemma quietly_refl: "boot_console s \<Longrightarrow> quietly s s"
  by (simp add: quietly_def told_refl)

lemma quietly_trans: "quietly a b \<Longrightarrow> quietly b c \<Longrightarrow> quietly a c"
  using told_trans only_outs_trans by (auto simp: quietly_def)

lemma quietly_console: "quietly s s' \<Longrightarrow> boot_console s \<Longrightarrow> boot_console s'"
  using told_console [of s s'] by (simp add: quietly_def)

lemma puts_quietly:
  assumes "boot_console s" "plain_text str"
  shows "\<exists>s'. for_opt putc str s = Some s' \<and> quietly s s'"
proof -
  obtain s' where s': "for_opt putc str s = Some s'" "console_frame VIDEO s s'" "on_screen s'"
    using puts_eq [of str s VIDEO] assms unfolding boot_console_def plain_text_def by blast
  have "console_base s' = console_base s" "outside_window VIDEO (phys s) (phys s')" using s'(2) by (simp_all add: console_frame_def)
  then have "quietly s s'"
    using console_base_keeps [of s' s] s'(3) puts_outs [OF s'(1) assms(2)] by (simp add: quietly_def told_def boot_view_def)
  then show ?thesis using s'(1) by blast
qed

lemma printf_quietly:
  assumes "boot_console s" "render fmt args = Some out" "plain_text out"
  shows "\<exists>s'. printf frame fmt args s = Some (of_nat (length fmt), s') \<and> quietly s s'"
  using puts_quietly [OF assms(1,3)] printf_loop_renders [OF assms(2)] by (auto simp: printf_def)

text \<open>A format of conversions other than strings, as \<^verbatim>\<open>entry\<close> uses them: what it renders to is plain.\<close>

fun plain_format :: "u8 list \<Rightarrow> nat option" where
  "plain_format [] = Some 0"
| "plain_format (c # buf) =
     (if c = 8 \<or> c = 9 then None
      else if c = 37 then
        (case buf of
           d # buf \<Rightarrow> if d \<in> {120, 117, 100} then map_option Suc (plain_format buf)
             else if d = 35 then (case buf of e # buf \<Rightarrow> if e = 120 then map_option Suc (plain_format buf) else None | [] \<Rightarrow> None)
             else None
         | [] \<Rightarrow> None)
      else plain_format buf)"

lemma plain_text_append [simp]: "plain_text (xs @ ys) \<longleftrightarrow> plain_text xs \<and> plain_text ys"
  "plain_text (c # xs) \<longleftrightarrow> c \<noteq> 8 \<and> c \<noteq> 9 \<and> plain_text xs" "plain_text []"
  by (auto simp: plain_text_def)

lemma plain_conversions: "plain_text (number_string 10 n)" "plain_text (render_hex alternate v)" "plain_text (render_signed w)"
  using number_plain [of 10] number_plain [of 16]
  by (auto simp: render_hex_def render_signed_def Let_def) (auto simp: plain_text_def)

lemma plain_format_renders:
  "plain_format fmt = Some n \<Longrightarrow> n \<le> length args \<Longrightarrow> \<exists>out. render fmt args = Some out \<and> plain_text out"
proof (induction fmt arbitrary: n args rule: plain_format.induct)
  case (2 c buf)
  show ?case
  proof (cases "c = 37")
    case True
    obtain d rest where d: "buf = d # rest" using 2(4) True by (cases buf) auto
    show ?thesis
    proof (cases "d = 35")
      case True
      obtain rest' where r: "rest = 120 # rest'" using 2(4) True d \<open>c = 37\<close> by (cases rest) (auto split: if_splits)
      obtain k where k: "plain_format rest' = Some k" "n = Suc k" using 2(4) True d r \<open>c = 37\<close> by auto
      obtain v args' where v: "args = v # args'" using 2(5) k(2) by (cases args) auto
      obtain out where "render rest' args' = Some out" "plain_text out"
        using 2(2) [OF _ \<open>c = 37\<close> d _ True r _ k(1), of args'] 2(5) v k(2) \<open>c = 37\<close> True by auto
      then show ?thesis using plain_conversions by (simp add: True d r v \<open>c = 37\<close>)
    next
      case False
      then have d3: "d = 120 \<or> d = 117 \<or> d = 100" using 2(4) d \<open>c = 37\<close> by (auto split: if_splits)
      obtain k where k: "plain_format rest = Some k" "n = Suc k" using 2(4) d3 d \<open>c = 37\<close> by auto
      obtain v args' where v: "args = v # args'" using 2(5) k(2) by (cases args) auto
      obtain out where "render rest args' = Some out" "plain_text out"
        using 2(1) [OF _ \<open>c = 37\<close> d _ k(1), of args'] 2(5) v k(2) d3 \<open>c = 37\<close> by auto
      then show ?thesis using plain_conversions d3 by (auto simp: d v \<open>c = 37\<close>)
    qed
  next
    case False
    then have p: "plain_format buf = Some n" "c \<noteq> 8" "c \<noteq> 9" using 2(4) by (auto split: if_splits)
    obtain out where "render buf args = Some out" "plain_text out" using 2(3) [OF _ False p(1) 2(5)] p by auto
    then show ?thesis using False p by simp
  qed
qed simp

lemma print_format:
  assumes "boot_console s" "plain_format fmt = Some n" "n \<le> length args"
  shows "\<exists>s'. printf frame fmt args s = Some (of_nat (length fmt), s') \<and> quietly s s'"
  using plain_format_renders [OF assms(2,3)] printf_quietly [OF assms(1)] by blast

lemma print_line_quietly:
  assumes "boot_console s" "plain_format (map of_char fmt @ [10]) = Some n" "n \<le> length args"
  shows "\<exists>s'. print_line y fmt args s = Some s' \<and> quietly s s'"
  using print_format [OF assms, of "conv_frame y"] by (auto simp: print_line_def)

section \<open>Reading the record without paging\<close>

definition flat :: "kstate \<Rightarrow> bool" where
  "flat s \<longleftrightarrow> (\<forall>a. translate (mmu s) a = Some a)"

definition word_at :: "mem \<Rightarrow> u32 \<Rightarrow> u32" where
  "word_at m a = of_le32 [m a, m (a + 1), m (a + 2), m (a + 3)]"

definition off_screen :: "u32 \<Rightarrow> bool" where
  "off_screen a \<longleftrightarrow> 4000 \<le> unat (a - VIDEO)"

definition safe_word :: "u32 \<Rightarrow> bool" where
  "safe_word a \<longleftrightarrow> off_screen a \<and> off_screen (a + 1) \<and> off_screen (a + 2) \<and> off_screen (a + 3)"

lemma flat_vload: "flat s \<Longrightarrow> vload a s = Some (phys s a)"
  by (simp add: flat_def vload_def load_virtual_def)

lemma flat_vload32: "flat s \<Longrightarrow> vload32 a s = Some (word_at (phys s) a)"
  by (simp add: vload32_def flat_vload slice_opt_def word_at_def eval_nat_numeral add.assoc)

lemma flat_copy_in: "flat s \<Longrightarrow> copy_in a n s = map (\<lambda>k. phys s (a + of_nat k)) [0..<n]"
  by (rule copy_in_mapped) (simp add: mapped_def flat_def)

lemma told_flat: "told s s' \<Longrightarrow> flat s' = flat s"
  by (simp add: told_def boot_view_def flat_def)

lemma told_byte: "told s s' \<Longrightarrow> off_screen a \<Longrightarrow> phys s' a = phys s a"
  by (simp add: told_def outside_window_def off_screen_def)

lemma told_word: "told s s' \<Longrightarrow> safe_word a \<Longrightarrow> word_at (phys s') a = word_at (phys s) a"
  by (simp add: word_at_def safe_word_def told_byte)

text \<open>A state in which the record can be read and something printed.\<close>

definition readable :: "kstate \<Rightarrow> bool" where
  "readable s \<longleftrightarrow> flat s \<and> boot_console s"

definition runs_quietly :: "(kstate \<Rightarrow> kstate option) \<Rightarrow> kstate \<Rightarrow> bool" where
  "runs_quietly f s \<longleftrightarrow> (\<exists>s'. f s = Some s' \<and> quietly s s')"

lemma told_readable: "told s s' \<Longrightarrow> readable s \<Longrightarrow> readable s'"
  using told_flat told_console by (simp add: readable_def)

lemma quietly_told: "quietly s s' \<Longrightarrow> told s s'"
  by (simp add: quietly_def)

lemma runs_skip: "readable s \<Longrightarrow> runs_quietly Some s"
  by (simp add: runs_quietly_def readable_def quietly_refl)

lemma runs_bind:
  assumes "runs_quietly f s" "\<And>s'. f s = Some s' \<Longrightarrow> quietly s s' \<Longrightarrow> runs_quietly g s'"
  shows "runs_quietly (\<lambda>s. do { s \<leftarrow> f s; g s }) s"
proof -
  obtain s1 where s1: "f s = Some s1" "quietly s s1" using assms(1) by (auto simp: runs_quietly_def)
  then obtain s2 where "g s1 = Some s2" "quietly s1 s2" using assms(2) by (auto simp: runs_quietly_def)
  then show ?thesis using s1 quietly_trans by (auto simp: runs_quietly_def)
qed

lemma runs_print_line:
  "readable s \<Longrightarrow> plain_format (map of_char fmt @ [10]) = Some n \<Longrightarrow> n \<le> length args \<Longrightarrow> runs_quietly (print_line y fmt args) s"
  using print_line_quietly [of s fmt n args y] by (simp add: runs_quietly_def readable_def)

lemma runs_printf:
  "readable s \<Longrightarrow> plain_format fmt = Some n \<Longrightarrow> n \<le> length args \<Longrightarrow>
    runs_quietly (\<lambda>s. do { (_, s) \<leftarrow> printf frame fmt args s; Some s }) s"
  using print_format [of s fmt n args frame] by (auto simp: runs_quietly_def readable_def)

lemma runs_for:
  assumes "\<And>x s. readable s \<Longrightarrow> runs_quietly (f x) s"
  shows "readable s \<Longrightarrow> runs_quietly (for_opt f xs) s"
proof (induction xs arbitrary: s)
  case Nil
  then show ?case using runs_skip by (simp add: runs_quietly_def)
next
  case (Cons x xs)
  have "runs_quietly (\<lambda>s. do { s \<leftarrow> f x s; for_opt f xs s }) s"
    using runs_bind [OF assms [OF Cons.prems]] Cons.IH told_readable [OF quietly_told _ ] Cons.prems by blast
  then show ?case by simp
qed

lemma runs_show_memory: "readable s \<Longrightarrow> runs_quietly (show_memory y flags mbi) s"
proof -
  assume r: "readable s"
  have f: "plain_format (map of_char ''mem_lower = %uKB, mem_upper = %uKB'' @ [10]) = Some 2" by code_simp
  show ?thesis
    using runs_print_line [OF r f] runs_skip [OF r] r
    by (auto simp: runs_quietly_def show_memory_def readable_def flat_vload32)
qed

lemma runs_show_boot_device: "readable s \<Longrightarrow> runs_quietly (show_boot_device y flags mbi) s"
proof -
  assume r: "readable s"
  have f: "plain_format (map of_char ''boot_device = 0x%#x'' @ [10]) = Some 1" by code_simp
  show ?thesis
    using runs_print_line [OF r f] runs_skip [OF r] r
    by (auto simp: runs_quietly_def show_boot_device_def readable_def flat_vload32)
qed

lemma runs_show_elf: "readable s \<Longrightarrow> runs_quietly (show_elf y flags mbi) s"
proof -
  assume r: "readable s"
  have f: "plain_format (map of_char ''elf_sec: num = %u, size = 0x%#x, addr = 0x%#x, shndx = 0x%#x'' @ [10]) = Some 4"
    by code_simp
  show ?thesis
    using runs_print_line [OF r f] runs_skip [OF r] r
    by (auto simp: runs_quietly_def show_elf_def readable_def flat_vload32 Let_def)
qed

lemma runs_show_region: "readable s \<Longrightarrow> runs_quietly (show_region y mmap) s"
proof -
  assume r: "readable s"
  have f: "plain_format (map of_char ''    size = 0x%x, base_addr = 0x%#x%#x'' @ [10] @
    map of_char ''    type = 0x%x,  length    = 0x%#x%#x'' @ [10]) = Some 6" by code_simp
  show ?thesis
    using runs_printf [OF r f, of _ "conv_frame y"] r
    by (simp add: runs_quietly_def show_region_def readable_def flat_vload32)
qed

lemma runs_show_module: "readable s \<Longrightarrow> runs_quietly (show_module y i modl) s"
proof -
  assume r: "readable s"
  have f: "plain_format (map of_char ''Module %d loaded at address: 0x%#x'' @ [10]) = Some 2"
    "plain_format (map of_char ''Module %d ends at address: 0x%#x'' @ [10]) = Some 2"
    "plain_format (map of_char ''First few bytes of module:'' @ [10]) = Some 0"
    "plain_format (map of_char '''' @ [10]) = Some 0"
    "plain_format (map of_char ''0x%x '') = Some 1" by code_simp+
  let ?byte = "\<lambda>i s. do { start \<leftarrow> vload32 modl s; show_byte y start i s }"
  have byte: "runs_quietly (?byte k) t" if "readable t" for k t
    using runs_printf [OF that f(5), of _ "conv_frame y"] that
    by (simp add: runs_quietly_def readable_def flat_vload32 flat_vload show_byte_def)
  note keep = told_readable [OF quietly_told]
  have end_line: "runs_quietly (print_line y '''' []) t" if "readable t" for t
    using runs_print_line [OF that f(4), of "[]"] by simp
  have loop: "runs_quietly (\<lambda>t. do { t \<leftarrow> for_opt ?byte [0..<16] t; print_line y '''' [] t }) t" if t: "readable t" for t
    by (rule runs_bind [OF runs_for [OF byte t]]) (use end_line keep t in blast)+
  have first: "runs_quietly (\<lambda>t. do { t \<leftarrow> print_line y ''First few bytes of module:'' [] t; t \<leftarrow> for_opt ?byte [0..<16] t; print_line y '''' [] t }) t"
    if t: "readable t" for t
    by (rule runs_bind [OF runs_print_line [OF t f(3)]]) (use loop keep t in \<open>simp_all, blast?\<close>)
  have ends: "runs_quietly (\<lambda>t. do { end \<leftarrow> vload32 (modl + 4) t; t \<leftarrow> print_line y ''Module %d ends at address: 0x%#x'' [i, end] t;
      t \<leftarrow> print_line y ''First few bytes of module:'' [] t; t \<leftarrow> for_opt ?byte [0..<16] t; print_line y '''' [] t }) t"
    if t: "readable t" for t
  proof -
    let ?e = "word_at (phys t) (modl + 4)"
    have "runs_quietly (\<lambda>t. do { t \<leftarrow> print_line y ''Module %d ends at address: 0x%#x'' [i, ?e] t;
      t \<leftarrow> print_line y ''First few bytes of module:'' [] t; t \<leftarrow> for_opt ?byte [0..<16] t; print_line y '''' [] t }) t"
      by (rule runs_bind [OF runs_print_line [OF t f(2)]]) (use first keep t in \<open>simp_all, blast?\<close>)
    then show ?thesis using t by (simp add: runs_quietly_def readable_def flat_vload32)
  qed
  let ?b = "word_at (phys s) modl"
  have "runs_quietly (\<lambda>t. do { t \<leftarrow> print_line y ''Module %d loaded at address: 0x%#x'' [i, ?b] t;
      end \<leftarrow> vload32 (modl + 4) t; t \<leftarrow> print_line y ''Module %d ends at address: 0x%#x'' [i, end] t;
      t \<leftarrow> print_line y ''First few bytes of module:'' [] t; t \<leftarrow> for_opt ?byte [0..<16] t; print_line y '''' [] t }) s"
    by (rule runs_bind [OF runs_print_line [OF r f(1)]]) (use ends keep r in \<open>simp_all, blast?\<close>)
  then show ?thesis using r by (simp add: runs_quietly_def readable_def flat_vload32 show_module_def)
qed

section \<open>The parts that follow pointers\<close>

text \<open>A string of the boot loader: printable, terminated and outside the screen.\<close>

fun text_at :: "mem \<Rightarrow> u32 \<Rightarrow> u8 list \<Rightarrow> bool" where
  "text_at m a [] \<longleftrightarrow> m a = 0 \<and> off_screen a"
| "text_at m a (c # cs) \<longleftrightarrow> m a = c \<and> c \<notin> {0, 8, 9} \<and> off_screen a \<and> text_at m (a + 1) cs"

lemma text_at_told: "told s s' \<Longrightarrow> text_at (phys s) a cs \<Longrightarrow> text_at (phys s') a cs"
  by (induction cs arbitrary: a) (auto simp: told_byte)

lemma runs_putc: "readable s \<Longrightarrow> c \<noteq> 8 \<Longrightarrow> c \<noteq> 9 \<Longrightarrow> runs_quietly (putc c) s"
  using puts_quietly [of s "[c]"] by (cases "putc c s") (auto simp: runs_quietly_def readable_def)

lemma runs_puts_at: "readable s \<Longrightarrow> text_at (phys s) a cs \<Longrightarrow> runs_quietly (puts_at a) s"
proof (induction cs arbitrary: a s)
  case Nil
  then show ?case using runs_skip [of s]
    by (subst runs_quietly_def, subst puts_at.simps) (simp add: runs_quietly_def readable_def flat_vload)
next
  case (Cons c cs)
  have "runs_quietly (putc c) s"
    using runs_putc [of s c] Cons.prems by simp
  moreover have "runs_quietly (puts_at (a + 1)) t" if "quietly s t" for t
    using Cons that told_readable [OF quietly_told [OF that]] text_at_told [OF quietly_told [OF that]] by simp
  ultimately have "runs_quietly (\<lambda>s. do { s \<leftarrow> putc c s; puts_at (a + 1) s }) s" by (rule runs_bind)
  then show ?case using Cons.prems by (subst runs_quietly_def, subst puts_at.simps) (simp add: runs_quietly_def readable_def flat_vload)
qed

lemma printf_loop_plain: "37 \<notin> set pre \<Longrightarrow>
    printf_loop frame (pre @ rest) args s = do { s \<leftarrow> for_opt putc pre s; printf_loop frame rest args s }"
  by (induction pre arbitrary: s) (auto intro: Option.bind_cong)

lemma string_loop: "printf_loop frame [37, 115, 10] [str] s = do { s \<leftarrow> puts_at str s; putc 10 s }"
proof -
  have stop: "do { s \<leftarrow> putc 10 t; printf_loop frame [] [] s } = putc 10 t" for t by (cases "putc 10 t") simp_all
  show ?thesis by (cases "puts_at str s") (simp_all add: nth_opt_def stop)
qed

lemma print_cmdline:
  "print_line y ''cmdline = %s'' [str] s =
     do { s \<leftarrow> for_opt putc (map of_char ''cmdline = '') s; s \<leftarrow> puts_at str s; putc 10 s }"
proof -
  have split: "map of_char ''cmdline = %s'' @ [10] = map of_char ''cmdline = '' @ [37, 115, 10 :: u8]" by code_simp
  have p: "37 \<notin> set (map of_char ''cmdline = '' :: u8 list)" by code_simp
  have drop: "do { (_, s) \<leftarrow> do { s \<leftarrow> x; Some (n :: i32, s) }; Some s } = x" for x :: "kstate option" and n
    by (cases x) simp_all
  show ?thesis unfolding print_line_def printf_def split printf_loop_plain [OF p] string_loop drop ..
qed

lemma runs_show_cmdline:
  assumes r: "readable s" and cs: "CHECK_FLAG flags 2 \<Longrightarrow> text_at (phys s) (word_at (phys s) (mbi_cmdline mbi)) cs"
  shows "runs_quietly (show_cmdline y flags mbi) s"
proof (cases "CHECK_FLAG flags 2")
  case False
  then show ?thesis using runs_skip [OF r] by (simp add: show_cmdline_def runs_quietly_def)
next
  case True
  let ?a = "word_at (phys s) (mbi_cmdline mbi)" and ?pre = "map of_char ''cmdline = '' :: u8 list"
  note keep = told_readable [OF quietly_told]
  have "plain_text ?pre" by code_simp
  then have "runs_quietly (for_opt putc ?pre) s" and nl: "runs_quietly (putc 10) t" if "readable t" for t
    using puts_quietly [of s ?pre] runs_putc [of t 10] r that by (simp_all add: runs_quietly_def readable_def)
  moreover have "runs_quietly (\<lambda>t. do { t \<leftarrow> puts_at ?a t; putc 10 t }) t" if t: "quietly s t" for t
    by (rule runs_bind [OF runs_puts_at [OF keep [OF t r] text_at_told [OF quietly_told [OF t] cs [OF True]]]])
       (use nl keep [OF _ keep [OF t r]] in blast)
  ultimately have "runs_quietly (\<lambda>s. do { s \<leftarrow> for_opt putc ?pre s; s \<leftarrow> puts_at ?a s; putc 10 s }) s"
    using runs_bind [of "for_opt putc ?pre" s "\<lambda>t. do { t \<leftarrow> puts_at ?a t; putc 10 t }"] r by blast
  then show ?thesis
    using True r by (simp only: show_cmdline_def print_cmdline runs_quietly_def readable_def flat_vload32 Option.bind.bind_lunit if_True)
qed

lemma runs_show_modules:
  assumes "readable s0" "safe_word (mbi_mods_count mbi)"
  shows "told s0 s \<Longrightarrow> runs_quietly (show_modules y mbi i modl) s"
proof (induction "unat (word_at (phys s0) (mbi_mods_count mbi)) - unat i" arbitrary: i modl s rule: less_induct)
  case less
  let ?n = "word_at (phys s0) (mbi_mods_count mbi)"
  have r: "readable s" by (rule told_readable [OF less.prems assms(1)])
  have n: "vload32 (mbi_mods_count mbi) s = Some ?n"
    using r told_word [OF less.prems assms(2)] by (simp add: readable_def flat_vload32)
  show ?case
  proof (cases "i < ?n")
    case True
    then have "unat (i + 1) = Suc (unat i)" using unat_u32_less [of ?n] by (simp add: unat_word_ariths word_less_nat_alt)
    then have shorter: "unat ?n - unat (i + 1) < unat ?n - unat i" using True by (simp add: word_less_nat_alt)
    have "runs_quietly (\<lambda>s. do { s \<leftarrow> show_module y i modl s; show_modules y mbi (i + 1) (modl + 16) s }) s"
      by (rule runs_bind [OF runs_show_module [OF r]])
         (use less.hyps [OF shorter] told_trans [OF less.prems quietly_told] in blast)
    then show ?thesis using True n by (subst runs_quietly_def, subst show_modules.simps) (simp add: runs_quietly_def)
  next
    case False
    then show ?thesis using n runs_skip [OF r] by (subst runs_quietly_def, subst show_modules.simps) (simp add: runs_quietly_def)
  qed
qed

text \<open>The chain of the memory map ends, and its sizes are outside the screen.\<close>

inductive map_ends :: "mem \<Rightarrow> u32 \<Rightarrow> u32 \<Rightarrow> bool" for m limit where
  at_end: "limit \<le> a \<Longrightarrow> map_ends m limit a"
| region: "safe_word a \<Longrightarrow> map_ends m limit (a + word_at m a + 4) \<Longrightarrow> map_ends m limit a"

inductive_simps map_ends_iff: "map_ends m limit a"

lemma runs_show_regions:
  assumes "map_ends (phys s0) (word_at (phys s0) (mbi_mmap_addr mbi) + word_at (phys s0) (mbi_mmap_length mbi)) a"
    and "readable s0" "safe_word (mbi_mmap_addr mbi)" "safe_word (mbi_mmap_length mbi)"
  shows "told s0 s \<Longrightarrow> runs_quietly (show_regions y mbi a) s"
  using assms(1)
proof (induction arbitrary: s rule: map_ends.induct)
  case (at_end a)
  have r: "readable s" by (rule told_readable [OF at_end(2) assms(2)])
  have "\<not> a < word_at (phys s0) (mbi_mmap_addr mbi) + word_at (phys s0) (mbi_mmap_length mbi)" using at_end(1) by simp
  then show ?case
    using r runs_skip [OF r] told_word [OF at_end(2) assms(3)] told_word [OF at_end(2) assms(4)]
    by (subst runs_quietly_def, subst show_regions.simps) (simp add: runs_quietly_def readable_def flat_vload32)
next
  case (region a)
  let ?limit = "word_at (phys s0) (mbi_mmap_addr mbi) + word_at (phys s0) (mbi_mmap_length mbi)"
  have r: "readable s" by (rule told_readable [OF region(4) assms(2)])
  have rest: "runs_quietly (\<lambda>t. do { sz \<leftarrow> vload32 a t; show_regions y mbi (a + sz + 4) t }) t" if "quietly s t" for t
  proof -
    have t: "told s0 t" by (rule told_trans [OF region(4) quietly_told [OF that]])
    have "vload32 a t = Some (word_at (phys s0) a)"
      using told_readable [OF t assms(2)] told_word [OF t region(1)] by (simp add: readable_def flat_vload32)
    then show ?thesis using region.IH [OF t] by (simp add: runs_quietly_def)
  qed
  have step: "runs_quietly (\<lambda>s. do { s \<leftarrow> show_region y a s; sz \<leftarrow> vload32 a s; show_regions y mbi (a + sz + 4) s }) s"
    by (rule runs_bind [OF runs_show_region [OF r]]) (rule rest)
  have w: "vload32 (mbi_mmap_addr mbi) s = Some (word_at (phys s0) (mbi_mmap_addr mbi))"
    "vload32 (mbi_mmap_length mbi) s = Some (word_at (phys s0) (mbi_mmap_length mbi))"
    using r told_word [OF region(4)] assms(3,4) by (simp_all add: readable_def flat_vload32)
  show ?case
    using step runs_skip [OF r] w by (subst runs_quietly_def, subst show_regions.simps) (simp add: runs_quietly_def)
qed

section \<open>A file system in memory\<close>

text \<open>The bytes of the file system lie in the page of the kernel, from 4 MB to 8 MB.\<close>

definition in_kernel_page :: "u32 \<Rightarrow> nat \<Rightarrow> bool" where
  "in_kernel_page a n \<longleftrightarrow> 0x400000 \<le> unat a \<and> unat a + n \<le> 0x800000"

definition holds_image :: "mem \<Rightarrow> fsys \<Rightarrow> bool" where
  "holds_image m fs \<longleftrightarrow> wf_fs fs \<and> in_kernel_page (boot_block_addr fs) (length (image_bytes fs)) \<and>
     (\<forall>k < length (image_bytes fs). m (boot_block_addr fs + of_nat k) = image_bytes fs ! k)"

lemma kernel_page_offset: "in_kernel_page a n \<Longrightarrow> k < n \<Longrightarrow> unat (a + of_nat k) = unat a + k"
  by (simp add: in_kernel_page_def unat_word_ariths unat_of_nat)

lemma kernel_page_inside:
  "in_kernel_page a n \<Longrightarrow> k < n \<Longrightarrow> 0x400000 \<le> unat (a + of_nat k) \<and> unat (a + of_nat k) < 0x800000"
  using kernel_page_offset [of a n k] by (simp add: in_kernel_page_def)

lemma kernel_page_off_screen: "0x400000 \<le> unat a \<Longrightarrow> off_screen a"
proof -
  assume h: "0x400000 \<le> unat a"
  then have "VIDEO \<le> a" by (simp add: word_le_nat_alt)
  then have "unat (a - VIDEO) = unat a - 0xB8000" by (simp add: unat_sub)
  then show ?thesis using h by (simp add: off_screen_def)
qed

lemma holds_image_cong:
  assumes "holds_image m fs" "\<And>a. 0x400000 \<le> unat a \<Longrightarrow> m' a = m a"
  shows "holds_image m' fs"
proof -
  note h = assms(1) [unfolded holds_image_def]
  have "m' (boot_block_addr fs + of_nat k) = m (boot_block_addr fs + of_nat k)" if "k < length (image_bytes fs)" for k
    using kernel_page_inside [OF h [THEN conjunct2, THEN conjunct1] that] by (intro assms(2)) simp
  then show ?thesis using h by (simp add: holds_image_def)
qed

lemma holds_image_told: "told s s' \<Longrightarrow> holds_image (phys s) fs \<Longrightarrow> holds_image (phys s') fs"
  by (erule holds_image_cong) (rule told_byte [OF _ kernel_page_off_screen])

text \<open>Where the bytes are those of a well-formed file system, the pointers find that file system.\<close>

lemma reread_image:
  assumes "wf_fs fs" "copy_in (boot_block_addr fs) (length (image_bytes fs)) s = image_bytes fs"
  shows "reread s fs = fs"
proof -
  let ?ns = "map inode_bytes (inode_blocks fs)"
  have b: "length (boot_block_bytes (boot_block fs)) = BLK" by (rule length_boot_block_bytes [OF assms(1)])
  have n: "\<forall>x \<in> set ?ns. length x = BLK" "\<forall>n \<in> set (inode_blocks fs). length (inode_data_blocks n) = BLOCKS_PER_INODE"
    using assms(1) length_inode_bytes by (auto simp: wf_fs_def wf_inode_def)
  have d: "\<forall>x \<in> set (data_blocks fs). length x = BLK" using assms(1) by (simp add: wf_fs_def)
  have l: "length (concat ?ns) = BLK * length (inode_blocks fs)" using length_concat_uniform [OF n(1)] by simp
  have i: "image_bytes fs = boot_block_bytes (boot_block fs) @ concat ?ns @ concat (data_blocks fs)" by (simp add: image_bytes_def)
  have c: "copy_in (boot_block_addr fs) (BLK * (1 + length (inode_blocks fs) + length (data_blocks fs))) s = image_bytes fs"
    using assms(2) length_image [OF assms(1)] by metis
  have "take BLK (image_bytes fs) = boot_block_bytes (boot_block fs)" "drop BLK (image_bytes fs) = concat ?ns @ concat (data_blocks fs)"
    "drop (BLK * (1 + length (inode_blocks fs))) (image_bytes fs) = concat (data_blocks fs)"
    unfolding i using b l by simp_all
  moreover have "chunks BLK (length (inode_blocks fs)) (concat ?ns @ concat (data_blocks fs)) = ?ns"
    using chunks_concat [OF n(1), of "concat (data_blocks fs)"] by simp
  moreover have "chunks BLK (length (data_blocks fs)) (concat (data_blocks fs)) = data_blocks fs"
    by (rule chunks_concat_exact [OF d refl])
  moreover have "map inode_of ?ns = inode_blocks fs" using n(2) inode_of_bytes by (simp add: map_idI)
  ultimately show ?thesis
    unfolding reread_def Let_def c by (simp only: boot_block_of_bytes [OF assms(1)]) simp
qed

section \<open>The record as a whole\<close>

definition module_image :: "mem \<Rightarrow> u32 \<Rightarrow> u8 list" where
  "module_image m modl = map (\<lambda>k. m (word_at m modl + of_nat k)) [0..<unat (word_at m (modl + 4) - word_at m modl)]"

text \<open>The first module lies in the page of the kernel, and once the sectors of the drive have replaced its beginning it
  is a file system that can be mounted, whatever the start has sent to the ports before.\<close>

definition module_ok :: "u32 \<Rightarrow> kstate \<Rightarrow> bool" where
  "module_ok mbi s \<longleftrightarrow>
     (let m = phys s; modl = word_at m (mbi_mods_addr mbi) in
      safe_word (mbi_mods_count mbi) \<and> safe_word (mbi_mods_addr mbi) \<and> safe_word modl \<and> safe_word (modl + 4) \<and>
      in_kernel_page (word_at m modl) (length (module_image m modl)) \<and>
      inode_bitmap (disk s) = replicate BITMAP_SIZE 0 \<and> data_block_bitmap (disk s) = replicate BITMAP_SIZE 0 \<and>
      (\<forall>io. only_outs (ports s) io \<longrightarrow>
         (\<exists>fs rest io'. boot_image (word_at m modl) (module_image m modl) (image_bytes fs @ rest) io io' \<and> mountable fs)))"

text \<open>Memory when the file system has been mounted: only the module has changed, if there is one.\<close>

definition has_module :: "u32 \<Rightarrow> mem \<Rightarrow> bool" where
  "has_module mbi m \<longleftrightarrow> CHECK_FLAG (word_at m (mbi_flags mbi)) 3"

definition in_module :: "u32 \<Rightarrow> mem \<Rightarrow> u32 \<Rightarrow> bool" where
  "in_module mbi m a \<longleftrightarrow>
     (let modl = word_at m (mbi_mods_addr mbi) in
      has_module mbi m \<and> unat (a - word_at m modl) < length (module_image m modl))"

definition beside_module :: "u32 \<Rightarrow> mem \<Rightarrow> u32 \<Rightarrow> bool" where
  "beside_module mbi m a \<longleftrightarrow>
     \<not> in_module mbi m a \<and> \<not> in_module mbi m (a + 1) \<and> \<not> in_module mbi m (a + 2) \<and> \<not> in_module mbi m (a + 3)"

definition loaded_over :: "u32 \<Rightarrow> mem \<Rightarrow> mem \<Rightarrow> bool" where
  "loaded_over mbi m m' \<longleftrightarrow> (\<forall>a. \<not> in_module mbi m a \<longrightarrow> m' a = m a)"

definition mounted :: "u32 \<Rightarrow> kstate \<Rightarrow> fsys \<Rightarrow> bool" where
  "mounted mbi s fs \<longleftrightarrow>
     (let m = phys s; modl = word_at m (mbi_mods_addr mbi) in
      \<exists>io io'. only_outs (ports s) io \<and> file_system_init (word_at m modl) (module_image m modl) (disk s) io = Some (fs, io'))"

definition boot_info_ok :: "u32 \<Rightarrow> kstate \<Rightarrow> bool" where
  "boot_info_ok mbi s \<longleftrightarrow>
     (let m = phys s; flags = word_at m (mbi_flags mbi) in
      flat s \<and> boot_console s \<and> safe_word (mbi_flags mbi) \<and> beside_module mbi m (mbi_flags mbi) \<and>
      \<not> (CHECK_FLAG flags 4 \<and> CHECK_FLAG flags 5) \<and>
      (CHECK_FLAG flags 2 \<longrightarrow> safe_word (mbi_cmdline mbi) \<and> (\<exists>cs. text_at m (word_at m (mbi_cmdline mbi)) cs)) \<and>
      (CHECK_FLAG flags 3 \<longrightarrow> module_ok mbi s) \<and>
      (CHECK_FLAG flags 6 \<longrightarrow> safe_word (mbi_mmap_addr mbi) \<and> safe_word (mbi_mmap_length mbi) \<and>
         (\<forall>m'. loaded_over mbi m m' \<longrightarrow>
           map_ends m' (word_at m' (mbi_mmap_addr mbi) + word_at m' (mbi_mmap_length mbi)) (word_at m' (mbi_mmap_addr mbi)))))"

lemma beside_word: "loaded_over mbi m m' \<Longrightarrow> beside_module mbi m a \<Longrightarrow> word_at m' a = word_at m a"
  by (simp add: loaded_over_def beside_module_def word_at_def)

text \<open>The state \<open>s1\<close> that the rest of the start is told from: \<open>s0\<close> with the file system in memory.\<close>

definition mount_base :: "u32 \<Rightarrow> kstate \<Rightarrow> kstate \<Rightarrow> bool" where
  "mount_base mbi s0 s1 \<longleftrightarrow> loaded_over mbi (phys s0) (phys s1) \<and> (\<exists>m. s1 = s0\<lparr>phys := m\<rparr>)"

lemma mount_base_refl: "mount_base mbi s s"
  by (simp add: mount_base_def loaded_over_def exI [of _ "phys s"])

lemma mount_base_readable: "mount_base mbi s0 s1 \<Longrightarrow> readable s0 \<Longrightarrow> readable s1"
  by (auto simp: mount_base_def readable_def flat_def boot_console_def window_def on_screen_def cursor_ok_def current_def get_current_pcb_def)

lemma mount_base_view: "mount_base mbi s0 s1 \<Longrightarrow> boot_view s1 = boot_view s0"
  by (auto simp: mount_base_def boot_view_def)

lemma put_bytes_outside_window:
  assumes "outside_window b m m'" "length bs < 2 ^ 32"
  shows "outside_window b (put_bytes a bs m) (put_bytes a bs m')"
  using assms(1) unfolding outside_window_def put_bytes_at [OF assms(2)] by simp

lemma image_fits:
  assumes "boot_image start img (image_bytes fs @ rest) io io'"
  shows "length (image_bytes fs) \<le> length img"
proof -
  obtain data where "length data \<le> length img" "image_bytes fs @ rest = data @ drop (length data) img"
    using assms unfolding boot_image_def Let_def by blast
  then have "length (image_bytes fs @ rest) = length img" by (metis le_add_diff_inverse length_append length_drop)
  then show ?thesis by simp
qed

text \<open>Mounting in any state: what \<^verbatim>\<open>file_system_init\<close> leaves in the file system and in memory.\<close>

lemma mount_result:
  assumes "boot_image start img (image_bytes fs0 @ rest) io io'" "mountable fs0"
    and "inode_bitmap st = replicate BITMAP_SIZE 0" "data_block_bitmap st = replicate BITMAP_SIZE 0"
  shows "\<exists>fs. file_system_init start img st io = Some (fs, io') \<and> wf_fs fs \<and> boot_block_addr fs = start \<and>
    length (image_bytes fs) \<le> length img"
proof -
  let ?fs = "mark (counted_entries fs0) ((blank_maps fs0)\<lparr>boot_block_addr := start\<rparr>)"
  have "wf_fs ?fs" using assms(2) wf_fs_cong [of "(blank_maps fs0)\<lparr>boot_block_addr := start\<rparr>" fs0] by (simp add: mountable_def blank_maps_def)
  moreover have "image_bytes ?fs = image_bytes fs0" by (simp add: image_bytes_def blank_maps_def)
  ultimately show ?thesis
    using file_system_init_eq [OF assms] image_fits [OF assms(1)] by (simp add: blank_maps_def)
qed

lemma put_bytes_holds:
  assumes "wf_fs fs" "in_kernel_page (boot_block_addr fs) (length (image_bytes fs))"
  shows "holds_image (put_bytes (boot_block_addr fs) (image_bytes fs) m) fs"
proof -
  have l: "length (image_bytes fs) < 2 ^ 32" using assms(2) by (simp add: in_kernel_page_def)
  show ?thesis unfolding holds_image_def put_bytes_at [OF l] using assms l by (auto simp: unat_of_nat)
qed

lemma flat_mapped: "flat s \<Longrightarrow> mapped s a n a"
  by (simp add: mapped_def flat_def)

lemma load_modules_told:
  assumes q: "quietly s0 s" and r0: "readable s0" and ok: "CHECK_FLAG flags 3 \<Longrightarrow> module_ok mbi s0"
    and fl: "flags = word_at (phys s0) (mbi_flags mbi)"
  shows "\<exists>s1 s'. load_modules y flags mbi s = Some s' \<and> mount_base mbi s0 s1 \<and> told s1 s' \<and>
    (CHECK_FLAG flags 3 \<longrightarrow> mounted mbi s0 (disk s') \<and> holds_image (phys s') (disk s'))"
proof (cases "CHECK_FLAG flags 3")
  case False
  then show ?thesis using q mount_base_refl by (auto simp: load_modules_def quietly_def)
next
  case True
  let ?m = "phys s0"
  let ?modl = "word_at ?m (mbi_mods_addr mbi)"
  let ?start = "word_at ?m ?modl" and ?img = "module_image ?m ?modl"
  note t = quietly_told [OF q]
  have safe: "safe_word (mbi_mods_count mbi)" "safe_word (mbi_mods_addr mbi)" "safe_word ?modl" "safe_word (?modl + 4)"
    and page: "in_kernel_page ?start (length ?img)"
    and maps: "inode_bitmap (disk s0) = replicate BITMAP_SIZE 0" "data_block_bitmap (disk s0) = replicate BITMAP_SIZE 0"
    and image: "\<And>io. only_outs (ports s0) io \<Longrightarrow>
      \<exists>fs rest io'. boot_image ?start ?img (image_bytes fs @ rest) io io' \<and> mountable fs"
    using ok [OF True] unfolding module_ok_def Let_def by blast+
  have f: "flat s" using told_readable [OF t r0] by (simp add: readable_def)
  have reads: "vload32 (mbi_mods_addr mbi) s = Some ?modl" "vload32 ?modl s = Some ?start"
    "vload32 (?modl + 4) s = Some (word_at ?m (?modl + 4))"
    using flat_vload32 [OF f] told_word [OF t] safe by simp_all
  have same: "phys s (?start + of_nat k) = ?m (?start + of_nat k)" if "k < length ?img" for k
    using told_byte [OF t] kernel_page_off_screen kernel_page_inside [OF page that] by blast
  have img: "copy_in ?start (unat (word_at ?m (?modl + 4) - ?start)) s = ?img"
    unfolding flat_copy_in [OF f] module_image_def using same by (auto simp: module_image_def)
  have io: "only_outs (ports s0) (ports s)" "disk s = disk s0" using q by (simp_all add: quietly_def)
  obtain fs io' where fs: "file_system_init ?start ?img (disk s0) (ports s) = Some (fs, io')" "wf_fs fs"
    "boot_block_addr fs = ?start" "length (image_bytes fs) \<le> length ?img"
    using image [OF io(1)] mount_result [OF _ _ maps] by blast
  have page_fs: "in_kernel_page (boot_block_addr fs) (length (image_bytes fs))"
    using page fs(3,4) by (simp add: in_kernel_page_def)
  then have l: "length (image_bytes fs) < 2 ^ 32" by (simp add: in_kernel_page_def)
  let ?put = "put_bytes ?start (image_bytes fs)"
  let ?s = "s\<lparr>disk := fs, ports := io', phys := ?put (phys s)\<rparr>" and ?b = "s0\<lparr>phys := ?put ?m\<rparr>"
  have out: "copy_out ?start (image_bytes fs) (s\<lparr>disk := fs, ports := io'\<rparr>) = Some ?s"
    using copy_out_eq [OF flat_mapped, of "s\<lparr>disk := fs, ports := io'\<rparr>" ?start "image_bytes fs"] f by (simp add: flat_def)
  have "loaded_over mbi ?m (?put ?m)"
    unfolding loaded_over_def in_module_def has_module_def Let_def put_bytes_at [OF l] using fs(4) True fl by auto
  then have base: "mount_base mbi s0 ?b" by (auto simp: mount_base_def)
  have t1: "told ?b ?s"
    using t put_bytes_outside_window [OF _ l, of VIDEO ?m "phys s" ?start] by (simp add: told_def boot_view_def on_screen_def)
  have h: "holds_image (phys ?s) fs" using put_bytes_holds [OF fs(2) page_fs] fs(3) by simp
  obtain s' where s': "show_modules y mbi 0 ?modl ?s = Some s'" "quietly ?s s'"
    using runs_show_modules [OF mount_base_readable [OF base r0] safe(1) t1, of y 0 ?modl] unfolding runs_quietly_def by blast
  have "load_modules y flags mbi s = Some s'" using True reads img fs(1) s'(1) io(2) out by (simp add: load_modules_def)
  moreover have "told ?b s'" by (rule told_trans [OF t1 quietly_told [OF s'(2)]])
  moreover have d: "disk s' = fs" using s'(2) by (simp add: quietly_def)
  then have "mounted mbi s0 (disk s')" using fs(1) io(1) unfolding mounted_def Let_def by blast
  moreover have "holds_image (phys s') (disk s')"
    unfolding d by (rule holds_image_told [OF quietly_told [OF s'(2)] h])
  ultimately show ?thesis using base by blast
qed

lemma show_map_runs:
  assumes "told s0 s" "readable s0" "flags = word_at (phys s0) (mbi_flags mbi)"
    and ok: "CHECK_FLAG flags 6 \<Longrightarrow> safe_word (mbi_mmap_addr mbi) \<and> safe_word (mbi_mmap_length mbi) \<and>
      map_ends (phys s0) (word_at (phys s0) (mbi_mmap_addr mbi) + word_at (phys s0) (mbi_mmap_length mbi)) (word_at (phys s0) (mbi_mmap_addr mbi))"
  shows "runs_quietly (show_map y flags mbi) s"
proof (cases "CHECK_FLAG flags 6")
  case False
  then show ?thesis using runs_skip [OF told_readable [OF assms(1,2)]] by (simp add: show_map_def runs_quietly_def)
next
  case True
  note safe = ok [OF True, THEN conjunct1] ok [OF True, THEN conjunct2, THEN conjunct1]
  let ?a = "word_at (phys s0) (mbi_mmap_addr mbi)" and ?l = "word_at (phys s0) (mbi_mmap_length mbi)"
  have fmt: "plain_format (map of_char ''mmap_addr = 0x%#x, mmap_length = 0x%x'' @ [10]) = Some 2" by code_simp
  have word: "vload32 (mbi_mmap_addr mbi) t = Some ?a" "vload32 (mbi_mmap_length mbi) t = Some ?l" if "told s0 t" for t
    using told_readable [OF that assms(2)] told_word [OF that] safe by (simp_all add: readable_def flat_vload32)
  have r: "readable s" by (rule told_readable [OF assms(1,2)])
  have rest: "runs_quietly (\<lambda>t. do { a \<leftarrow> vload32 (mbi_mmap_addr mbi) t; show_regions y mbi a t }) t" if "quietly s t" for t
  proof -
    have t: "told s0 t" by (rule told_trans [OF assms(1) quietly_told [OF that]])
    show ?thesis
      using word(1) [OF t] runs_show_regions [OF ok [OF True, THEN conjunct2, THEN conjunct2] assms(2) safe t]
      by (simp add: runs_quietly_def)
  qed
  have "runs_quietly (\<lambda>t. do { t \<leftarrow> print_line y ''mmap_addr = 0x%#x, mmap_length = 0x%x'' [?a, ?l] t;
      a \<leftarrow> vload32 (mbi_mmap_addr mbi) t; show_regions y mbi a t }) s"
    by (rule runs_bind [OF runs_print_line [OF r fmt]]) (use rest in simp_all)
  then show ?thesis using True word [OF assms(1)] by (simp add: show_map_def runs_quietly_def)
qed

lemma read_boot_info_told:
  assumes q: "quietly s0 s" and ok: "boot_info_ok mbi s0"
  shows "\<exists>s1 s'. read_boot_info y mbi s = Some (True, s') \<and> mount_base mbi s0 s1 \<and> told s1 s' \<and>
    (has_module mbi (phys s0) \<longrightarrow> mounted mbi s0 (disk s') \<and> holds_image (phys s') (disk s'))"
proof -
  let ?m = "phys s0"
  let ?flags = "word_at ?m (mbi_flags mbi)"
  let ?ends = "\<lambda>m. map_ends m (word_at m (mbi_mmap_addr mbi) + word_at m (mbi_mmap_length mbi)) (word_at m (mbi_mmap_addr mbi))"
  have hyps: "readable s0" "safe_word (mbi_flags mbi)" "\<not> (CHECK_FLAG ?flags 4 \<and> CHECK_FLAG ?flags 5)"
    "CHECK_FLAG ?flags 2 \<Longrightarrow> safe_word (mbi_cmdline mbi) \<and> (\<exists>cs. text_at ?m (word_at ?m (mbi_cmdline mbi)) cs)"
    "CHECK_FLAG ?flags 3 \<Longrightarrow> module_ok mbi s0"
    "CHECK_FLAG ?flags 6 \<Longrightarrow> safe_word (mbi_mmap_addr mbi) \<and> safe_word (mbi_mmap_length mbi) \<and>
       (\<forall>m'. loaded_over mbi ?m m' \<longrightarrow> ?ends m')" "beside_module mbi ?m (mbi_flags mbi)"
    using ok unfolding boot_info_ok_def Let_def readable_def by blast+
  note r0 = hyps(1)
  have flags: "vload32 (mbi_flags mbi) t = Some ?flags" if "told s0 t" for t
    using told_readable [OF that r0] told_word [OF that hyps(2)] by (simp add: readable_def flat_vload32)
  have on: "quietly s0 t'" "readable t'" if "quietly s0 t" "quietly t t'" for t t'
    using quietly_trans [OF that] told_readable [OF quietly_told r0] by blast+
  have fmt: "plain_format (map of_char ''flags = 0x%#x'' @ [10]) = Some 1" by code_simp
  have r: "readable s" by (rule told_readable [OF quietly_told [OF q] r0])
  obtain s1 where s1: "print_line y ''flags = 0x%#x'' [?flags] s = Some s1" "quietly s s1"
    using runs_print_line [OF r fmt, of "[?flags]" y] by (auto simp: runs_quietly_def)
  note q1 = on [OF q s1(2)]
  obtain s2 where s2: "show_memory y ?flags mbi s1 = Some s2" "quietly s1 s2"
    using runs_show_memory [OF q1(2)] unfolding runs_quietly_def by blast
  note q2 = on [OF q1(1) s2(2)]
  obtain s3 where s3: "show_boot_device y ?flags mbi s2 = Some s3" "quietly s2 s3"
    using runs_show_boot_device [OF q2(2)] unfolding runs_quietly_def by blast
  note q3 = on [OF q2(1) s3(2)]
  have "\<exists>cs. CHECK_FLAG ?flags 2 \<longrightarrow> text_at (phys s3) (word_at (phys s3) (mbi_cmdline mbi)) cs"
    using hyps(4) told_word [OF quietly_told [OF q3(1)]] text_at_told [OF quietly_told [OF q3(1)]] by metis
  then obtain s4 where s4: "show_cmdline y ?flags mbi s3 = Some s4" "quietly s3 s4"
    using runs_show_cmdline [OF q3(2)] unfolding runs_quietly_def by blast
  note q4 = on [OF q3(1) s4(2)]
  obtain b s5 where s5: "load_modules y ?flags mbi s4 = Some s5" "mount_base mbi s0 b" "told b s5"
    "CHECK_FLAG ?flags 3 \<longrightarrow> mounted mbi s0 (disk s5) \<and> holds_image (phys s5) (disk s5)"
    using load_modules_told [OF q4(1) r0 hyps(5) refl] by blast
  have lo: "loaded_over mbi ?m (phys b)" using s5(2) by (simp add: mount_base_def)
  have rb: "readable b" by (rule mount_base_readable [OF s5(2) r0])
  have fb: "word_at (phys b) (mbi_flags mbi) = ?flags" by (rule beside_word [OF lo hyps(7)])
  have flags_b: "vload32 (mbi_flags mbi) t = Some ?flags" if "told b t" for t
    using told_readable [OF that rb] told_word [OF that hyps(2)] fb by (simp add: readable_def flat_vload32)
  obtain s6 where s6: "show_elf y ?flags mbi s5 = Some s6" "quietly s5 s6"
    using runs_show_elf [OF told_readable [OF s5(3) rb]] unfolding runs_quietly_def by blast
  have t6: "told b s6" by (rule told_trans [OF s5(3) quietly_told [OF s6(2)]])
  obtain s7 where s7: "show_map y ?flags mbi s6 = Some s7" "quietly s6 s7"
    using show_map_runs [OF t6 rb fb [symmetric], of y] hyps(6) lo unfolding runs_quietly_def by blast
  note f = flags [OF quietly_told [OF q]] flags [OF quietly_told [OF q1(1)]] flags [OF quietly_told [OF q2(1)]]
    flags [OF quietly_told [OF q3(1)]] flags [OF quietly_told [OF q4(1)]] flags_b [OF s5(3)] flags_b [OF t6]
  have "read_boot_info y mbi s = Some (True, s7)"
    unfolding read_boot_info_def using hyps(3) by (simp only: f s1(1) s2(1) s3(1) s4(1) s5(1) s6(1) s7(1) Option.bind.bind_lunit if_False)
  moreover have t7: "told s5 s7" by (rule told_trans [OF quietly_told [OF s6(2)] quietly_told [OF s7(2)]])
  then have "told b s7" by (rule told_trans [OF s5(3)])
  moreover have d: "disk s7 = disk s5" using s6(2) s7(2) by (simp add: quietly_def)
  moreover have "has_module mbi ?m \<longrightarrow> mounted mbi s0 (disk s7) \<and> holds_image (phys s7) (disk s7)"
    unfolding d has_module_def using s5(4) holds_image_told [OF t7] by blast
  ultimately show ?thesis using s5(2) by blast
qed

end
