(* ===== verification/BootStart.thy ===== *)
theory BootStart imports BootInfo begin

text \<open>
  The second half of \<^verbatim>\<open>entry\<close>: tables, devices, interrupts and heap, and the properties of the start as a whole.
\<close>

section \<open>Clearing the screen\<close>

definition blank_cells :: "u32 \<Rightarrow> mem \<Rightarrow> nat \<Rightarrow> mem" where
  "blank_cells b m k = fold (\<lambda>i. put_cell b i 32 ATTRIB) [0..<k] m"

lemma blank_cells_screen: "k \<le> 2000 \<Longrightarrow>
    screen_chars b (blank_cells b m k) = replicate k 32 @ drop k (screen_chars b m) \<and> outside_window b m (blank_cells b m k)"
proof (induction k)
  case 0
  then show ?case by (simp add: blank_cells_def)
next
  case (Suc k)
  have k: "k < 2000" using Suc.prems by simp
  have step: "blank_cells b m (Suc k) = put_cell b k 32 ATTRIB (blank_cells b m k)" by (simp add: blank_cells_def)
  have upd: "(replicate k v @ drop k xs)[k := v] = replicate (Suc k) v @ drop (Suc k) xs" if "length xs = 2000" for xs :: "u8 list" and v
    using that k Cons_nth_drop_Suc [of k xs] by (metis (no_types, lifting) length_replicate list_update_length replicate_append_same append_Cons append_assoc append_Nil replicate_Suc)
  show ?case
    unfolding step put_cell_screen [OF k] using Suc upd [of "screen_chars b m"] outside_window_trans [OF _ put_cell_outside [OF k]] k by simp
qed

lemma clear_eq:
  assumes "window s b" "unat (shown_term_id s) < length (terms s)"
  shows "\<exists>s'. clear s = Some s' \<and> console_same s s' \<and> ports s' = ports s \<and> screen_chars b (phys s') = replicate 2000 32 \<and>
    outside_window b (phys s) (phys s') \<and>
    (if shown_term_id s = active_term_id s then screen_x s' = 0 \<and> screen_y s' = 0 else screen_x s' = screen_x s \<and> screen_y s' = screen_y s)"
proof -
  let ?m = "blank_cells b (phys s) 2000"
  have "for_opt clear_cell [0..<2000] (with_phys s (blank_cells b (phys s) 0)) = Some (with_phys s ?m)"
  proof (rule for_opt_steps [where g = "\<lambda>k. with_phys s (blank_cells b (phys s) k)"])
    fix i :: nat assume i: "i < 2000"
    have "clear_cell i t = do { t \<leftarrow> video_store (of_nat (2 * i)) 32 t; video_store (of_nat (2 * i) + 1) ATTRIB t }" for t
      unfolding clear_cell_def double_offset ..
    then show "clear_cell i (with_phys s (blank_cells b (phys s) i)) = Some (with_phys s (blank_cells b (phys s) (Suc i)))"
      using store_cell [of "with_phys s (blank_cells b (phys s) i)" b i 32 ATTRIB] assms(1) i by (simp add: blank_cells_def)
  qed
  then have cells: "for_opt clear_cell [0..<unat (NUM_ROWS * NUM_COLS)] s = Some (with_phys s ?m)"
    by (simp add: blank_cells_def del: upt_rec_numeral)
  obtain s1 where s1: "set_term_cursor (shown_term_id s) 0 0 (with_phys s ?m) = Some s1" "phys s1 = ?m"
    "screen_x s1 = screen_x s" "screen_y s1 = screen_y s" "shown_term_id s1 = shown_term_id s" "active_term_id s1 = active_term_id s"
    using assms(2) by (auto simp: set_term_cursor_def map_term_def get_term_def nth_opt_Some)
  let ?s' = "if shown_term_id s1 = active_term_id s1 then s1\<lparr>screen_x := 0, screen_y := 0\<rparr> else s1"
  have "clear s = Some ?s'" unfolding clear_def cells using s1(1) by simp
  moreover have "console_same s ?s'"
  proof -
    have "console_same s s1" using set_term_cursor_same [OF s1(1)] console_same_trans [of s "with_phys s ?m" s1] by simp
    then show ?thesis using console_same_trans [of s s1 "s1\<lparr>screen_x := 0, screen_y := 0\<rparr>"] by simp
  qed
  moreover have "ports ?s' = ports s" using set_term_cursor_ports [OF s1(1)] by simp
  ultimately show ?thesis using s1 blank_cells_screen [of 2000 b "phys s"] by (auto simp del: upt_rec_numeral)
qed

lemma clear_quietly:
  assumes "boot_console s"
  shows "runs_quietly clear s"
proof -
  have w: "window s VIDEO" "unat (shown_term_id s) < length (terms s)" "on_screen s"
    using assms by (auto simp: boot_console_def cursor_ok_def)
  obtain s' where s': "clear s = Some s'" "console_same s s'" "ports s' = ports s" "outside_window VIDEO (phys s) (phys s')"
    "if shown_term_id s = active_term_id s then screen_x s' = 0 \<and> screen_y s' = 0 else screen_x s' = screen_x s \<and> screen_y s' = screen_y s"
    using clear_eq [OF w(1,2)] by auto
  have "on_screen s'" using w(3) s'(5) by (auto simp: on_screen_def split: if_splits)
  then have "quietly s s'"
    using s'(2-4) console_base_keeps [of s' s] by (simp add: quietly_def told_def boot_view_def console_same_def)
  then show ?thesis using s'(1) by (auto simp: runs_quietly_def)
qed

section \<open>The start of the machine\<close>

lemma low_table_kept:
  assumes "wf_layout p" "unat (drop_bit 22 va) = 0"
  shows "translate (kmalloc_tables (paging_init p)) va = translate (paging_init p) va"
proof -
  let ?pde = "set_present 1 0 OR kernel_table_at p"
  have al: "take_bit 12 (kernel_table_at p) = 0" using assms(1) by (simp add: wf_layout_def)
  have table: "?pde AND 0xFFFFF000 = kernel_table_at p"
    by (rule aligned_eqI [OF al]) (auto simp: bit_or_iff bit_set_field)
  have dir: "page_directories (kmalloc_tables (paging_init p)) ! 0 = ?pde" "page_directories (paging_init p) ! 0 = ?pde"
    by (simp_all add: kmalloc_tables_unroll paging_init_dir)
  have big: "\<not> bit ?pde 7" using aligned_bit [OF al, of 7] by (simp add: bit_or_iff bit_set_field)
  show ?thesis using assms(2) big by (simp add: translate_def nth_opt_Some dir table table_entry_def)
qed

lemma video_window:
  assumes "wf_layout p" "mmu s = kmalloc_tables (paging_init p)" "video_mem s = VIDEO"
  shows "window s VIDEO"
  unfolding window_def
proof (intro allI impI)
  fix off :: u32 assume "off < 4096"
  then have o: "unat off < 4096" by (simp add: word_less_nat_alt)
  then have u: "unat (VIDEO + off) = 0xB8000 + unat off" by (simp add: unat_word_ariths)
  have "unat (drop_bit 12 (VIDEO + off)) = unat (0xB8 :: u32)" unfolding unat_drop_12 using u o by simp
  then have p: "drop_bit 12 (VIDEO + off) = 0xB8" by (rule unsigned_word_eqI)
  have "unat (drop_bit 22 (VIDEO + off)) = 0" by (subst unat_drop_bit_eq, subst u) (use o in \<open>simp add: drop_bit_eq_div\<close>)
  then show "translate (mmu s) (video_mem s + off) = Some (VIDEO + off)"
    using low_table_kept [OF assms(1)] paging_init_translate [OF assms(1)] p assms(2,3) by simp
qed

text \<open>The heap changes nothing but memory.\<close>

definition memory_only :: "kstate \<Rightarrow> kstate \<Rightarrow> bool" where
  "memory_only s s' \<longleftrightarrow> (\<exists>m. s' = s\<lparr>phys := m\<rparr>)"

lemma memory_only_refl [simp]: "memory_only s s"
  by (simp add: memory_only_def exI [of _ "phys s"])

lemma memory_only_trans: "memory_only a b \<Longrightarrow> memory_only b c \<Longrightarrow> memory_only a c"
  by (auto simp: memory_only_def)

lemma copy_out_memory: "copy_out a bs s = Some s' \<Longrightarrow> memory_only s s'"
proof (induction bs arbitrary: a s)
  case (Cons b bs)
  then obtain s1 where "vstore a b s = Some s1" "copy_out (a + 1) bs s1 = Some s'" by (auto simp: bind_eq_Some_conv)
  moreover from this(1) have "memory_only s s1" by (auto simp: vstore_def memory_only_def bind_eq_Some_conv)
  ultimately show ?case using Cons.IH memory_only_trans by blast
qed simp

lemma vstore32_memory: "vstore32 a v s = Some s' \<Longrightarrow> memory_only s s'"
  by (simp add: vstore32_def copy_out_memory)

lemma first_block_memory: "first_block sz real_sz s = Some (head, s') \<Longrightarrow> memory_only s s'"
  unfolding first_block_def Let_def by (auto simp: bind_eq_Some_conv dest!: vstore32_memory elim!: memory_only_trans)

text \<open>The heap stores in the lowest 4 MB only.\<close>

definition high_same :: "kstate \<Rightarrow> kstate \<Rightarrow> bool" where
  "high_same s s' \<longleftrightarrow> mmu s' = mmu s \<and> (\<forall>a. 0x400000 \<le> unat a \<longrightarrow> phys s' a = phys s a)"

lemma high_same_trans: "high_same a b \<Longrightarrow> high_same b c \<Longrightarrow> high_same a c"
  by (simp add: high_same_def)

lemma heap_store_high:
  assumes "heap_map (mmu s)" "k mod 4 = 0" "k < heap_size"
  shows "\<exists>s'. vstore32 (KMALLOC_BEGIN + of_nat k) v s = Some s' \<and> high_same s s'"
proof -
  let ?p = "of_nat (k mod 0x400000) :: u32"
  have st: "vstore32 (KMALLOC_BEGIN + of_nat k) v s = Some (s\<lparr>phys := put_bytes ?p (le32 v) (phys s)\<rparr>)"
    unfolding vstore32_def by (rule copy_out_eq) (use heap_mapped [OF assms] in simp)
  obtain j where j: "k mod 0x400000 = j" "j + 4 \<le> 0x400000"
  proof -
    have "(k mod 0x400000) mod 4 = 0" using assms(2) mod_mod_cancel [of 4 "0x400000" k] by simp
    then obtain q where q: "k mod 0x400000 = 4 * q" by (metis mod_0_imp_dvd dvdE)
    moreover have "k mod 0x400000 < 0x400000" by simp
    ultimately have "q < 0x100000" by linarith
    then have "4 * q + 4 \<le> 0x400000" by linarith
    then show thesis using that q by simp
  qed
  have "put_bytes (of_nat j) (le32 v) (phys s) a = phys s a" if "0x400000 \<le> unat a" for a
  proof -
    have u: "unat (of_nat j :: u32) = j" using j(2) by (intro unat_of_nat_small) simp
    then have "unat (a - of_nat j) = unat a - j" using that j(2) by (simp add: unat_sub word_le_nat_alt)
    then have "\<not> unat (a - of_nat j) < length (le32 v)" using that j(2) by simp
    then show ?thesis using put_bytes_at [of "le32 v" "of_nat j" "phys s" a] by simp
  qed
  then show ?thesis using st unfolding j(1) by (simp add: high_same_def)
qed

lemma first_block_high:
  assumes hm: "heap_map (mmu s)" and n: "n mod 16 = 0" "n + 16 \<le> heap_size" "r = of_nat n"
    and run: "first_block sz r s = Some (head, s')"
  shows "high_same s s'"
proof -
  let ?a = "\<lambda>j. KMALLOC_BEGIN + of_nat j"
  have m: "(n + 4) mod 4 = 0" "(n + 12) mod 4 = 0" "n mod 4 = 0" using n(1) by presburger+
  have lt: "n < heap_size" "n + 4 < heap_size" "n + 12 < heap_size" using n(2) by simp_all
  have ad: "b_size KMALLOC_BEGIN = ?a 12" "b_prev KMALLOC_BEGIN = ?a 0" "b_next KMALLOC_BEGIN = ?a 4"
    "KMALLOC_BEGIN + r = ?a n" "b_prev (?a j) = ?a j" "b_next (?a j) = ?a (j + 4)" "b_size (?a j) = ?a (j + 12)" for j
    using n(3) by (simp_all add: b_prev_def b_next_def b_size_def)
  have step: "high_same s t" if "high_same s x" "vstore32 (?a j) v x = Some t" "j mod 4 = 0" "j < heap_size" for x t j v
    using heap_store_high [of x j v] that hm high_same_trans [of s x t] by (auto simp: high_same_def)
  obtain s1 s2 s3 s4 s5 where st: "vstore32 (?a 12) sz s = Some s1" "vstore32 (?a 0) 0 s1 = Some s2" "vstore32 (?a 4) 0 s2 = Some s3"
    "vstore32 (?a (n + 12)) (KMALLOC_SIZE - r) s3 = Some s4" "vstore32 (?a n) 0 s4 = Some s5" "vstore32 (?a (n + 4)) 0 s5 = Some s'"
    using run unfolding first_block_def Let_def ad by (auto simp only: bind_eq_Some_conv option.inject prod.inject)
  have "high_same s s" by (simp add: high_same_def)
  from step [OF this st(1)] have "high_same s s1" using heap_size_def by simp
  from step [OF this st(2)] have "high_same s s2" using heap_size_def by simp
  from step [OF this st(3)] have "high_same s s3" using heap_size_def by simp
  from step [OF step [OF step [OF this st(4) m(2) lt(3)] st(5) m(3) lt(1)] st(6) m(1) lt(2)] show ?thesis .
qed

lemma launch_tests_start:
  assumes "kmem_blocks m = 0" "heap_map (mmu (kern m))"
  shows "\<exists>s' z. launch_tests m = Some (m\<lparr>kern := s', kmem_blocks := KMALLOC_BEGIN + 65552\<rparr>) \<and> heap_head 65552 z s' \<and>
    memory_only (kern m) s' \<and> high_same (kern m) s'"
proof -
  have v: "valid_size 65536" "65552 = rounded 65536 + 16" by (simp_all add: valid_size_def rounded_def)
  obtain s' z where k: "kmalloc 65536 (0, kern m) = Some (KMALLOC_BEGIN + of_nat 16, KMALLOC_BEGIN + of_nat 65552, s')"
    "heap_head 65552 z s'" using kmalloc_first [OF assms(2) v] by blast
  have f: "first_block (ALIGNED_SIZE 65536) (ALIGNED_SIZE 65536 + BLOCK_T) (kern m) = Some (KMALLOC_BEGIN + of_nat 65552, s')"
    using k(1) by (auto simp: kmalloc_def find_block.simps [of 0] Let_def bind_eq_Some_conv)
  have "ALIGNED_SIZE 65536 = 65536" by (simp add: aligned_size_eq(1) [OF v(1)] rounded_def)
  then have "high_same (kern m) s'"
    using first_block_high [OF assms(2) _ _ _ f, of 65552] by (simp add: heap_size_def)
  then show ?thesis using k first_block_memory [OF f] assms(1) by (auto simp: launch_tests_def)
qed

text \<open>With the heap mapped the page of the kernel is still mapped to itself.\<close>

lemma kernel_page_kept:
  assumes "wf_layout p" "0x400000 \<le> unat va" "unat va < 0x800000"
  shows "translate (kmalloc_tables (paging_init p)) va = Some va"
proof -
  have i: "unat (drop_bit 22 va) = 1"
  proof (subst unat_drop_bit_eq)
    have "unat va div 0x400000 = 1" by (rule div_nat_eqI) (use assms in simp_all)
    then show "drop_bit 22 (unat va) = 1" by (simp add: drop_bit_eq_div)
  qed
  have "page_directories (kmalloc_tables (paging_init p)) ! 1 = page_directories (paging_init p) ! 1"
    by (simp add: kmalloc_tables_unroll paging_init_dir)
  moreover have "translate (paging_init p) va = Some va"
    using paging_init_translate [OF assms(1)] i by (metis unat_1 unsigned_word_eqI)
  moreover have "bit (page_directories (paging_init p) ! 1) 7" "bit (page_directories (paging_init p) ! 1) 0"
    by (simp_all add: paging_init_dir bit_kernel_dir_entry)
  ultimately show ?thesis using i by (simp add: translate_def nth_opt_Some)
qed

lemma boot_lines: "enabled_lines pic_boot = {2}"
proof -
  have low: "list_all (\<lambda>n. line_enabled pic_boot n = (n = 2)) [0..<16]" by code_simp
  have "line_enabled pic_boot n = (n = 2)" for n
  proof (cases "n < 16")
    case True
    then show ?thesis using low by (simp add: list_all_iff del: upt_rec_numeral)
  qed (simp add: line_enabled_def)
  then show ?thesis by (simp add: enabled_lines_def)
qed

lemma init_devices:
  defines "t s \<equiv> rtc_init (keyboard_init s)"
  shows "t s = s\<lparr>pics := pics (t s), ports := ports (t s), iflag := True\<rparr>"
    and "enabled_lines (pics (t s)) = {1, 8} \<union> enabled_lines (pics s)"
proof -
  show "t s = s\<lparr>pics := pics (t s), ports := ports (t s), iflag := True\<rparr>"
    by (cases s) (simp add: t_def rtc_init_def keyboard_init_def rtc_set_rate_def Let_def inb_def split_beta)
  have "\<exists>io. pics (t s) = fst (enable_irq RTC_IRQ (fst (enable_irq KEYBOARD_IRQ (pics s, ports s)), io))"
    by (simp add: t_def rtc_init_def keyboard_init_def rtc_set_rate_def Let_def inb_def split_beta) (rule exI, rule refl)
  then show "enabled_lines (pics (t s)) = {1, 8} \<union> enabled_lines (pics s)"
    using enable_irq_line by auto
qed

section \<open>The whole start\<close>

text \<open>A file system in the page of the kernel is found where it was.\<close>

lemma kernel_page_read:
  assumes "wf_layout p" "mmu s = kmalloc_tables (paging_init p)" "holds_image (phys s) fs"
  shows "copy_in (boot_block_addr fs) (length (image_bytes fs)) s = image_bytes fs \<and> reread s fs = fs"
proof -
  note h = assms(3) [unfolded holds_image_def]
  have "mapped s (boot_block_addr fs) (length (image_bytes fs)) (boot_block_addr fs)"
    unfolding mapped_def assms(2)
  proof (intro allI impI)
    fix k assume "k < length (image_bytes fs)"
    from kernel_page_inside [OF h [THEN conjunct2, THEN conjunct1] this]
    show "translate (kmalloc_tables (paging_init p)) (boot_block_addr fs + of_nat k) = Some (boot_block_addr fs + of_nat k)"
      by (intro kernel_page_kept [OF assms(1)]) simp_all
  qed
  from copy_in_mapped [OF this] have "copy_in (boot_block_addr fs) (length (image_bytes fs)) s = image_bytes fs"
    using h by (auto intro: nth_equalityI)
  then show ?thesis using reread_image h by blast
qed

lemma copy_in_disk [simp]: "copy_in a n (s\<lparr>disk := d\<rparr>) = copy_in a n s"
  by (induction n arbitrary: a) (simp_all add: vload_def split: option.split)

lemma heap_head_disk [simp]: "heap_head k z (s\<lparr>disk := d\<rparr>) = heap_head k z s"
  by (simp add: heap_head_def slot_def vload32_def)

lemma start_machine_eq:
  assumes wf: "wf_layout (mmu (kern m))" and vm: "video_mem (kern m) = VIDEO" and pic: "pics (kern m) = pic_boot"
    and con: "on_screen (kern m)" "cursor_ok (kern m)" "shown_term_id (kern m) = active_term_id (kern m)"
    and idt: "length (idt m) = NUM_VEC" and heap: "kmem_blocks m = 0"
  shows "\<exists>m' z. start_machine y m = Some m' \<and> iflag (kern m') \<and> mmu (kern m') = kmalloc_tables (paging_init (mmu (kern m))) \<and>
    enabled_lines (pics (kern m')) = {1, 2, 8} \<and> (\<forall>v < NUM_VEC. gate_of (idt m' ! v) = gate_for (handlers y) v) \<and>
    pcbs (kern m') = pcbs (kern m) \<and> screen_x (kern m') = 0 \<and> screen_y (kern m') = 0 \<and>
    heap_head 65552 z (kern m') \<and>
    (holds_image (phys (kern m)) (disk (kern m)) \<longrightarrow> disk (kern m') = disk (kern m) \<and>
      copy_in (boot_block_addr (disk (kern m))) (length (image_bytes (disk (kern m)))) (kern m') = image_bytes (disk (kern m))) \<and>
    ldt_desc_ptr m' = the_ldt_desc (ldt_at y) (ldt_size y) (ldt_junk y) \<and> tss_desc_ptr m' = the_tss_desc (tss_at y) (tss_size y) (tss_junk y)"
proof -
  let ?m1 = "init_segments y m" and ?p = "mmu (kern m)"
  let ?t = "kmalloc_tables (paging_init ?p)"
  let ?mem = "\<lambda>a. if a < 0x400000 then 0 else phys (kern ?m1) a"
  let ?s2 = "(kern ?m1)\<lparr>mmu := ?t, phys := ?mem\<rparr>"
  let ?s3 = "?s2\<lparr>ports := i8259_init (pics ?s2) (ports ?s2)\<rparr>"
  have k1: "mmu (kern ?m1) = ?p" "video_mem (kern ?m1) = VIDEO" "pics (kern ?m1) = pic_boot" "pcbs (kern ?m1) = pcbs (kern m)"
    "disk (kern ?m1) = disk (kern m)" "idt ?m1 = idt m" "kmem_blocks ?m1 = 0"
    "phys (kern ?m1) = phys (kern m)"
    "ldt_desc_ptr ?m1 = the_ldt_desc (ldt_at y) (ldt_size y) (ldt_junk y)" "tss_desc_ptr ?m1 = the_tss_desc (tss_at y) (tss_size y) (tss_junk y)"
    using vm pic heap by (simp_all add: init_segments_def)
  obtain p io where dev: "rtc_init (keyboard_init ?s3) = ?s3\<lparr>pics := p, ports := io, iflag := True\<rparr>" "enabled_lines p = {1, 2, 8}"
  proof -
    have "pics ?s3 = pic_boot" using k1(3) by simp
    then have "enabled_lines (pics (rtc_init (keyboard_init ?s3))) = {1, 2, 8}"
      using init_devices(2) [of ?s3] boot_lines by (simp only:) auto
    then show thesis by (rule that [OF init_devices(1) [of ?s3]])
  qed
  let ?s4 = "?s3\<lparr>pics := p, ports := io, iflag := True\<rparr>"
  have c4: "mmu ?s4 = ?t" "video_mem ?s4 = VIDEO" "pcbs ?s4 = pcbs (kern m)" "disk ?s4 = disk (kern m)" "iflag ?s4"
    "shown_term_id ?s4 = active_term_id ?s4" "on_screen ?s4" "cursor_ok ?s4"
    using k1 con by (simp_all add: init_segments_def on_screen_def cursor_ok_def current_def get_current_pcb_def)
  have b4: "boot_console ?s4" using video_window [OF wf c4(1,2)] c4 by (simp add: boot_console_def)
  have fmt: "plain_format (map of_char ''Enabling Interrupts'' @ [10]) = Some 0" by code_simp
  obtain s5 where s5: "print_line y ''Enabling Interrupts'' [] ?s4 = Some s5" "quietly ?s4 s5"
    using print_line_quietly [OF b4 fmt, of "[]" y] by auto
  let ?s6 = "s5\<lparr>iflag := True\<rparr>"
  have v5: "boot_view s5 = boot_view ?s4" "disk s5 = disk (kern m)" using s5(2) c4 by (simp_all add: quietly_def told_def)
  have b6: "boot_console ?s6"
    using quietly_console [OF s5(2) b4]
    by (auto simp: boot_console_def on_screen_def cursor_ok_def current_def get_current_pcb_def window_def)
  have v6: "shown_term_id ?s6 = active_term_id ?s6" "mmu ?s6 = ?t" "pics ?s6 = pics ?s4" "pcbs ?s6 = pcbs (kern m)"
    using v5 c4 by (simp_all add: boot_view_def)
  have "window ?s6 VIDEO" "unat (shown_term_id ?s6) < length (terms ?s6)" using b6 by (auto simp: boot_console_def cursor_ok_def)
  then obtain s7 where s7: "clear ?s6 = Some s7" "console_same ?s6 s7" "screen_x s7 = 0" "screen_y s7 = 0"
    "outside_window VIDEO (phys ?s6) (phys s7)"
    using clear_eq [of ?s6 VIDEO] v6(1) by auto
  note k7 = console_base_keeps [OF s7(2) [unfolded console_same_def]]
  let ?m7 = "?m1\<lparr>idt := idt_init (handlers y) (idt m), kern := s7\<rparr>"
  have "heap_map (mmu (kern ?m7))" using heap_map_init [OF wf] k7(1) v6(2) by simp
  then obtain s8 z where s8: "launch_tests ?m7 = Some (?m7\<lparr>kern := s8, kmem_blocks := KMALLOC_BEGIN + 65552\<rparr>)" "heap_head 65552 z s8"
    "memory_only s7 s8" "high_same s7 s8" using launch_tests_start [of ?m7] k1(7) by auto
  let ?s9 = "s8\<lparr>disk := reread s8 (disk s8)\<rparr>"
  let ?m9 = "?m7\<lparr>kern := ?s9, kmem_blocks := KMALLOC_BEGIN + 65552\<rparr>"
  have "start_machine y m = Some ?m9"
    unfolding start_machine_def Let_def using kmalloc_init_eq [OF wf, of "phys (kern ?m1)"] s5(1) s7(1) s8(1) k1 dev(1)
    by simp
  moreover have keep: "mmu s8 = mmu s7" "iflag s8 = iflag s7" "pics s8 = pics s7" "pcbs s8 = pcbs s7" "disk s8 = disk s7"
    "screen_x s8 = screen_x s7" "screen_y s8 = screen_y s7" using s8(3) by (auto simp: memory_only_def)
  moreover have "reread s8 (disk s8) = disk (kern m) \<and> copy_in (boot_block_addr (disk (kern m))) (length (image_bytes (disk (kern m)))) ?s9 = image_bytes (disk (kern m))"
    if h: "holds_image (phys (kern m)) (disk (kern m))"
  proof -
    have "phys s8 a = phys (kern m) a" if "0x400000 \<le> unat a" for a
    proof -
      have "4000 \<le> unat (a - VIDEO)" using kernel_page_off_screen [OF that] by (simp add: off_screen_def)
      then have "phys s7 a = phys s5 a" "phys s5 a = phys ?s4 a"
        using s7(5) s5(2) by (simp_all add: outside_window_def quietly_def told_def)
      moreover have "phys ?s4 a = phys (kern m) a" using that k1(8) by (simp add: word_less_nat_alt)
      moreover have "phys s8 a = phys s7 a" using s8(4) that by (simp add: high_same_def)
      ultimately show ?thesis by simp
    qed
    from holds_image_cong [OF h this] have h8: "holds_image (phys s8) (disk (kern m))" .
    have d: "disk s8 = disk (kern m)" using keep(5) k7 v5(2) by simp
    have m: "mmu s8 = ?t" using keep(1) k7(1) v6(2) by simp
    from kernel_page_read [OF wf m h8] show ?thesis unfolding d by simp
  qed
  ultimately show ?thesis
    using s8(2) k7 v6 dev(2) s7(3,4) v5(2) idt_init_gate [OF idt, of "handlers y"] k1(9,10)
    by (intro exI [of _ ?m9] exI [of _ z]) simp
qed

section \<open>Properties\<close>

text \<open>C16: started by a multiboot loader whose record can be read (no page is mapped elsewhere; the record, the command line
  and the memory map lie outside the screen; flags 4 and 5 are not both set; the flags are not part of the module and
  the map ends, whatever the module holds; the first module lies in the page of the kernel, from 4 MB to 8 MB, and is a
  mountable file system once the sectors of the drive have been read over it), \<^verbatim>\<open>entry\<close> reaches its idle loop. Then
  interrupts are on; lines 1, 2 and 8 are enabled; every vector has its gate; the two segment descriptors name the local
  table and the task state; the tables are those of \<^verbatim>\<open>paging_init\<close> and \<^verbatim>\<open>kmalloc_init\<close>; the cursor is at the upper left
  and the heap has one block taken. With a module the file system is the mounted one, and its image, byte for byte, is
  what the kernel then reads through its page tables at the boot block's address: the memory that the heap clears, the
  lowest 4 MB, does not contain it. No process has been started: the process control blocks are as they were.\<close>

theorem entry_boots:
  assumes ok: "boot_info_ok mbi (kern m)" and wf: "wf_layout (mmu (kern m))" and vm: "video_mem (kern m) = VIDEO"
    and pic: "pics (kern m) = pic_boot" and shown: "shown_term_id (kern m) = active_term_id (kern m)"
    and idt: "length (idt m) = NUM_VEC" and heap: "kmem_blocks m = 0"
  shows "\<exists>m' z. entry y MULTIBOOT_BOOTLOADER_MAGIC mbi m = Some (Spins, m') \<and> iflag (kern m') \<and>
    enabled_lines (pics (kern m')) = {1, 2, 8} \<and> (\<forall>v < NUM_VEC. gate_of (idt m' ! v) = gate_for (handlers y) v) \<and>
    seg_base (ldt_desc_ptr m') = ldt_at y \<and> seg_limit (ldt_desc_ptr m') = ldt_size y AND 0xFFFFF \<and> seg_access (ldt_desc_ptr m') = 0x82 \<and>
    seg_base (tss_desc_ptr m') = tss_at y \<and> seg_limit (tss_desc_ptr m') = tss_size y AND 0xFFFFF \<and> seg_access (tss_desc_ptr m') = 0x89 \<and>
    mmu (kern m') = kmalloc_tables (paging_init (mmu (kern m))) \<and>
    (has_module mbi (phys (kern m)) \<longrightarrow> mounted mbi (kern m) (disk (kern m')) \<and>
      copy_in (boot_block_addr (disk (kern m'))) (length (image_bytes (disk (kern m')))) (kern m') = image_bytes (disk (kern m'))) \<and>
    pcbs (kern m') = pcbs (kern m) \<and> screen_x (kern m') = 0 \<and> screen_y (kern m') = 0 \<and> heap_head 65552 z (kern m')"
proof -
  have b: "boot_console (kern m)" using ok by (simp add: boot_info_ok_def Let_def)
  obtain s1 where s1: "clear (kern m) = Some s1" "quietly (kern m) s1"
    using clear_quietly [OF b] by (auto simp: runs_quietly_def)
  obtain sb s2 where s2: "read_boot_info y mbi s1 = Some (True, s2)" "mount_base mbi (kern m) sb" "told sb s2"
    "has_module mbi (phys (kern m)) \<longrightarrow> mounted mbi (kern m) (disk s2) \<and> holds_image (phys s2) (disk s2)"
    using read_boot_info_told [OF s1(2) ok] by blast
  let ?m2 = "m\<lparr>kern := s2\<rparr>"
  have v: "boot_view s2 = boot_view (kern m)" using s2(3) mount_base_view [OF s2(2)] by (simp add: told_def)
  have "readable sb" using mount_base_readable [OF s2(2)] ok b by (simp add: readable_def boot_info_ok_def Let_def)
  then have b2: "boot_console s2" using told_readable [OF s2(3)] by (simp add: readable_def)
  obtain m' z where m': "start_machine y ?m2 = Some m'" "iflag (kern m')" "mmu (kern m') = kmalloc_tables (paging_init (mmu s2))"
    "enabled_lines (pics (kern m')) = {1, 2, 8}" "\<forall>v < NUM_VEC. gate_of (idt m' ! v) = gate_for (handlers y) v"
    "pcbs (kern m') = pcbs s2" "screen_x (kern m') = 0" "screen_y (kern m') = 0" "heap_head 65552 z (kern m')"
    "ldt_desc_ptr m' = the_ldt_desc (ldt_at y) (ldt_size y) (ldt_junk y)" "tss_desc_ptr m' = the_tss_desc (tss_at y) (tss_size y) (tss_junk y)"
    "holds_image (phys s2) (disk s2) \<longrightarrow> disk (kern m') = disk s2 \<and>
      copy_in (boot_block_addr (disk s2)) (length (image_bytes (disk s2))) (kern m') = image_bytes (disk s2)"
    using start_machine_eq [of ?m2 y] v wf vm pic shown idt heap b2 by (auto simp: boot_view_def boot_console_def)
  have "entry y MULTIBOOT_BOOTLOADER_MAGIC mbi m = Some (Spins, m')" using s1(1) s2(1) m'(1) by (simp add: entry_def)
  moreover have "has_module mbi (phys (kern m)) \<longrightarrow> mounted mbi (kern m) (disk (kern m')) \<and>
      copy_in (boot_block_addr (disk (kern m'))) (length (image_bytes (disk (kern m')))) (kern m') = image_bytes (disk (kern m'))"
    using s2(4) m'(12) by auto
  ultimately show ?thesis
    using m'(2-11) v segments_describe by (intro exI [of _ m'] exI [of _ z]) (simp add: boot_view_def)
qed

text \<open>C40: with any other magic number, when the video memory is mapped and the terminal shown is the active one, \<^verbatim>\<open>entry\<close>
  returns after it has cleared the screen and printed one line at its top, a message with the number in hexadecimal.
  Nothing else is initialised: the page tables, the interrupt table and controller, the descriptors, the processes and
  the file system are as they were, memory has changed in the 4000 bytes of the screen only, and no port has been read.\<close>

theorem entry_rejects_magic:
  assumes "boot_console (kern m)" "shown_term_id (kern m) = active_term_id (kern m)" "magic \<noteq> MULTIBOOT_BOOTLOADER_MAGIC"
  shows "\<exists>s. entry y magic mbi m = Some (Returned, m\<lparr>kern := s\<rparr>) \<and> quietly (kern m) s \<and>
    console_of VIDEO s = fold abs_putc (map of_char ''Invalid magic number: 0x'' @ render_hex True magic @ [10]) (replicate 2000 32, 0, 0)"
proof -
  let ?str = "map of_char ''Invalid magic number: 0x'' @ render_hex True magic @ [10]"
  have w: "window (kern m) VIDEO" "unat (shown_term_id (kern m)) < length (terms (kern m))"
    using assms(1) by (auto simp: boot_console_def cursor_ok_def)
  obtain s1 where s1: "clear (kern m) = Some s1" "quietly (kern m) s1"
    using clear_quietly [OF assms(1)] by (auto simp: runs_quietly_def)
  then have c1: "console_of VIDEO s1 = (replicate 2000 32, 0, 0)"
    using clear_eq [OF w] assms(2) by (auto simp: console_of_def)
  have b1: "boot_console s1" by (rule quietly_console [OF s1(2) assms(1)])
  have r: "render (map of_char ''Invalid magic number: 0x%#x'' @ [10]) [magic] = Some ?str"
    by simp
  have p: "plain_text ?str" using plain_conversions(2) by (simp add: plain_text_def)
  then have n: "8 \<notin> set ?str" "9 \<notin> set ?str" unfolding plain_text_def by blast+
  obtain s2 where s2: "for_opt putc ?str s1 = Some s2" "console_of VIDEO s2 = fold abs_putc ?str (console_of VIDEO s1)"
    using puts_eq [OF n] b1 unfolding boot_console_def by blast
  moreover have "quietly s1 s2" using puts_quietly [OF b1 p] s2(1) by (simp del: append_Cons)
  moreover have "entry y magic mbi m = Some (Returned, m\<lparr>kern := s2\<rparr>)"
    using assms(3) s1(1) s2(1) printf_loop_renders [OF r] by (simp add: entry_def print_line_def printf_def del: append_Cons)
  ultimately show ?thesis using quietly_trans [OF s1(2)] c1 by auto
qed

section \<open>A machine that boots\<close>

text \<open>The identity map, as pages of 4 MB.\<close>

definition flat_paging :: "paging \<Rightarrow> paging" where
  "flat_paging p = p\<lparr>page_directories := map (\<lambda>i. push_bit 22 (of_nat i) OR 0x81) [0..<PAGING_COUNT]\<rparr>"

lemma flat_paging_translate: "translate (flat_paging p) va = Some va"
proof -
  let ?e = "push_bit 22 (drop_bit 22 va) OR 0x81 :: u32"
  have i: "page_directories (flat_paging p) ! unat (drop_bit 22 va) = ?e"
    using index_22_less [of va] by (simp add: flat_paging_def del: upt_rec_numeral)
  have low: "bit (0x81 :: u32) n \<longleftrightarrow> n = 0 \<or> n = 7" for n
  proof -
    have w: "(0x81 :: u32) = 1 OR push_bit 7 1" by simp
    show ?thesis unfolding w bit_or_iff bit_push_bit_iff bit_1_iff by auto
  qed
  have e: "bit ?e n \<longleftrightarrow> (if n < 22 then n = 0 \<or> n = 7 else bit va n)" for n
    unfolding bit_or_iff low bit_push_bit_iff bit_drop_bit_eq comp_def by (cases "n < 22") (auto dest: bit_imp_le_length)
  then have b: "bit ?e 0" "bit ?e 7" by simp_all
  have "(?e AND 0xFFC00000) OR (va AND 0x3FFFFF) = va"
    by (rule bit_word_eqI) (simp only: bit_big_page_address e split: if_split, simp)
  moreover have "length (page_directories (flat_paging p)) = PAGING_COUNT" by (simp add: flat_paging_def del: upt_rec_numeral)
  ultimately show ?thesis using b i index_22_less [of va] by (simp add: translate_def nth_opt_Some)
qed

text \<open>The record at \<open>0x9000\<close> has one module, the sample file system at \<open>0x500000\<close>.\<close>

definition boot_mem :: mem where
  "boot_mem a =
     (if 0x500000 \<le> a \<and> a < 0x509000 then image_bytes sample_fs ! unat (a - 0x500000)
      else if a = 0x9000 then 8 else if a = 0x9014 then 1 else if a = 0x9019 then 0x91
      else if a = 0x9102 then 0x50 else if a = 0x9105 then 0x90 else if a = 0x9106 then 0x50 else 0)"

definition boot_machine :: machine where
  "boot_machine = \<lparr>
     kern = sample_state\<lparr>mmu := flat_paging sample_layout, phys := boot_mem, ports := image_io, disk := blank_maps sample_fs\<rparr>,
     idt = replicate NUM_VEC \<lparr>idt_lo = 0, idt_hi = 0\<rparr>, kmem_blocks = 0,
     ldt_desc_ptr = \<lparr>seg_lo = 0, seg_hi = 0\<rparr>, tss_desc_ptr = \<lparr>seg_lo = 0, seg_hi = 0\<rparr>, tss_ldt_selector = 0\<rparr>"

definition sample_symbols :: symbols where
  "sample_symbols = \<lparr>ldt_at = 0x412340, ldt_size = 31, tss_at = 0x412400, tss_size = 103, handlers = sample_entries,
     ldt_junk = \<lparr>seg_lo = 0xDEADBEEF, seg_hi = 0xDEADBEEF\<rparr>, tss_junk = \<lparr>seg_lo = 0xFFFFFFFF, seg_hi = 0xFFFFFFFF\<rparr>,
     conv_frame = (\<lambda>a. 0)\<rparr>"

lemma boot_words:
  "word_at boot_mem 0x9000 = 8" "word_at boot_mem 0x9018 = 0x9100" "word_at boot_mem 0x9100 = 0x500000"
  "word_at boot_mem 0x9104 = 0x509000"
  by (simp_all add: word_at_def boot_mem_def of_le32_def)

lemma boot_module: "module_image boot_mem 0x9100 = image_bytes sample_fs"
proof -
  have l: "length (image_bytes sample_fs) = 36864" using length_image [OF wf_sample] by (simp add: sample_fs_def)
  have "boot_mem (0x500000 + of_nat k) = image_bytes sample_fs ! k" if "k < 36864" for k
  proof -
    have u: "unat (0x500000 + of_nat k :: u32) = 0x500000 + k" using that by (simp add: unat_word_ariths unat_of_nat)
    have "(0x500000 + of_nat k :: u32) - 0x500000 = of_nat k" by simp
    then have "unat ((0x500000 + of_nat k :: u32) - 0x500000) = k" using that by (simp only: unat_of_nat) simp
    then show ?thesis using that u by (simp add: boot_mem_def word_le_nat_alt word_less_nat_alt)
  qed
  then show ?thesis unfolding module_image_def using l by (auto simp: boot_words intro!: nth_equalityI simp del: upt_rec_numeral)
qed

lemma words_read_outs: "(\<forall>e \<in> set evs. \<exists>p v. e = Out8 p v) \<Longrightarrow> words_read (evs @ h) = words_read h"
  by (induction evs) auto

lemma boot_machine_image:
  assumes "only_outs image_io io"
  shows "\<exists>io'. boot_image 0x500000 (image_bytes sample_fs) (image_bytes sample_fs @ []) io io'"
proof -
  have "device io = image_drive (image_bytes sample_fs)" "words_read (hist io) = 0"
    using assms words_read_outs by (auto simp: only_outs_def image_io_def words_read_def)
  then show ?thesis using image_drive_boots by blast
qed

lemma boot_machine_mounts:
  assumes "only_outs image_io io"
  shows "\<exists>io'. file_system_init 0x500000 (image_bytes sample_fs) (blank_maps sample_fs) io =
    Some (mark (counted_entries sample_fs) ((blank_maps sample_fs)\<lparr>boot_block_addr := 0x500000\<rparr>), io')"
proof -
  obtain s1 where "boot_image 0x500000 (image_bytes sample_fs) (image_bytes sample_fs @ []) io s1"
    using boot_machine_image [OF assms] by blast
  from file_system_init_eq [OF this sample_mountable, of "blank_maps sample_fs"] show ?thesis by (auto simp: blank_maps_def)
qed

lemma boot_machine_ok: "boot_info_ok 0x9000 (kern boot_machine)"
proof -
  let ?s = "kern boot_machine"
  have s: "phys ?s = boot_mem" "ports ?s = image_io" "disk ?s = blank_maps sample_fs" "mmu ?s = flat_paging sample_layout"
    "video_mem ?s = VIDEO" by (simp_all add: boot_machine_def sample_state_def)
  have l: "length (image_bytes sample_fs) = 36864" using length_image [OF wf_sample] by (simp add: sample_fs_def)
  have f: "flat ?s" by (simp add: flat_def s flat_paging_translate)
  have "boot_console ?s"
    using sample_on_screen sample_cursor
    by (simp add: boot_console_def window_def s flat_paging_translate)
       (simp add: boot_machine_def on_screen_def cursor_ok_def current_def get_current_pcb_def)
  moreover have "module_ok 0x9000 ?s"
  proof -
    have "\<exists>fs rest io'. boot_image 0x500000 (image_bytes sample_fs) (image_bytes fs @ rest) io io' \<and> mountable fs"
      if "only_outs image_io io" for io
      using boot_machine_image [OF that] sample_mountable by blast
    then show ?thesis
      unfolding module_ok_def Let_def s
      by (simp add: boot_words boot_module l mbi_mods_count_def mbi_mods_addr_def safe_word_def in_kernel_page_def blank_maps_def off_screen_def)
  qed
  moreover have "beside_module 0x9000 boot_mem 0x9000"
    by (simp add: beside_module_def in_module_def Let_def boot_words boot_module l mbi_mods_addr_def)
  ultimately show ?thesis
    using f by (simp add: boot_info_ok_def Let_def s mbi_flags_def boot_words CHECK_FLAG_def) (simp add: safe_word_def off_screen_def)
qed

theorem entry_boots_witness:
  "\<exists>m'. entry sample_symbols MULTIBOOT_BOOTLOADER_MAGIC 0x9000 boot_machine = Some (Spins, m') \<and>
     seg_base (tss_desc_ptr m') = 0x412400 \<and> gate_of (idt m' ! 0x80) = Trap_gate 0x10 0x80412345 3 \<and>
     boot_block (disk (kern m')) = boot_block sample_fs \<and> copy_in 0x500000 36864 (kern m') = image_bytes sample_fs"
proof -
  let ?s = "kern boot_machine"
  have m: "wf_layout (mmu ?s)" "video_mem ?s = VIDEO" "pics ?s = pic_boot" "shown_term_id ?s = active_term_id ?s"
    "length (idt boot_machine) = NUM_VEC" "kmem_blocks boot_machine = 0" "phys ?s = boot_mem" "ports ?s = image_io"
    "disk ?s = blank_maps sample_fs"
    using wf_sample_layout by (simp_all add: boot_machine_def sample_state_def wf_layout_def flat_paging_def)
  have h: "has_module 0x9000 (phys ?s)" by (simp add: has_module_def m(7) mbi_flags_def boot_words CHECK_FLAG_def)
  obtain m' where m': "entry sample_symbols MULTIBOOT_BOOTLOADER_MAGIC 0x9000 boot_machine = Some (Spins, m')"
    "\<forall>v < NUM_VEC. gate_of (idt m' ! v) = gate_for (handlers sample_symbols) v" "seg_base (tss_desc_ptr m') = tss_at sample_symbols"
    "mounted 0x9000 ?s (disk (kern m'))"
    "copy_in (boot_block_addr (disk (kern m'))) (length (image_bytes (disk (kern m')))) (kern m') = image_bytes (disk (kern m'))"
    using entry_boots [OF boot_machine_ok m(1-6), of sample_symbols] h by blast
  obtain io io' where io: "only_outs image_io io"
    "file_system_init 0x500000 (image_bytes sample_fs) (blank_maps sample_fs) io = Some (disk (kern m'), io')"
    using m'(4) unfolding mounted_def Let_def m(7-9) by (auto simp: mbi_mods_addr_def boot_words boot_module)
  then have d: "disk (kern m') = mark (counted_entries sample_fs) ((blank_maps sample_fs)\<lparr>boot_block_addr := 0x500000\<rparr>)"
    using boot_machine_mounts [OF io(1)] by auto
  then have "boot_block (disk (kern m')) = boot_block sample_fs" by (simp add: blank_maps_def)
  moreover have "image_bytes (disk (kern m')) = image_bytes sample_fs" "boot_block_addr (disk (kern m')) = 0x500000"
    unfolding d by (simp_all add: image_bytes_def blank_maps_def)
  then have "copy_in 0x500000 36864 (kern m') = image_bytes sample_fs"
    using m'(5) length_image [OF wf_sample] by (simp add: sample_fs_def del: copy_in.simps)
  moreover have "gate_of (idt m' ! 0x80) = gate_for sample_entries 0x80" using m'(2) by (simp add: sample_symbols_def)
  then have "gate_of (idt m' ! 0x80) = Trap_gate 0x10 0x80412345 3" by (simp add: gate_for_def sample_entries_def)
  moreover have "seg_base (tss_desc_ptr m') = 0x412400" using m'(3) by (simp add: sample_symbols_def)
  ultimately show ?thesis using m'(1) by blast
qed

theorem entry_rejects_magic_witness:
  "\<exists>s. entry sample_symbols 0 0x9000 boot_machine = Some (Returned, boot_machine\<lparr>kern := s\<rparr>) \<and> disk s = blank_maps sample_fs"
proof -
  have d: "disk (kern boot_machine) = blank_maps sample_fs" by (simp add: boot_machine_def)
  have b: "boot_console (kern boot_machine)" using boot_machine_ok by (simp add: boot_info_ok_def Let_def)
  have t: "shown_term_id (kern boot_machine) = active_term_id (kern boot_machine)" by (simp add: boot_machine_def sample_state_def)
  have "(0 :: u32) \<noteq> MULTIBOOT_BOOTLOADER_MAGIC" by simp
  from entry_rejects_magic [OF b t this, of sample_symbols "0x9000"] show ?thesis using d unfolding quietly_def by auto
qed

end
