(* ===== verification/FileTypes.thy ===== *)
theory FileTypes imports UserCalls UserKernel FileCalls KernelSteps begin

text \<open>
  The types of the open files. A slot of the file table of a process is free, or holds the table of operations that
  its number asks for: the terminal's for 0 and 1, and from 2 on one that \<^verbatim>\<open>open\<close> or \<^verbatim>\<open>create\<close> has put there. No
  system call, whatever its arguments, breaks this for any process, and no call loses the standard descriptors.
\<close>

section \<open>Well-typed tables\<close>

definition slot_typed :: "nat \<Rightarrow> file_t \<Rightarrow> bool" where
  "slot_typed j f \<longleftrightarrow> (f_present f \<noteq> 0 \<longrightarrow>
     f_ops f \<in> (if j = 0 then {stdin_ops} else if j = 1 then {stdout_ops} else set file_ops_map))"

definition table_typed :: "file_t list \<Rightarrow> bool" where
  "table_typed fs \<longleftrightarrow> length fs = 8 \<and> (\<forall>j < 8. slot_typed j (fs ! j))"

definition files_typed :: "kstate \<Rightarrow> bool" where
  "files_typed s \<longleftrightarrow> list_all table_typed (fds s)"

text \<open>What every change of a table preserves.\<close>

definition keeps_table :: "file_t list \<Rightarrow> file_t list \<Rightarrow> bool" where
  "keeps_table fs fs' \<longleftrightarrow> (table_typed fs \<longrightarrow> table_typed fs') \<and> (std_ok fs \<longrightarrow> std_ok fs')"

definition keeps_types :: "kstate \<Rightarrow> kstate \<Rightarrow> bool" where
  "keeps_types s s' \<longleftrightarrow> list_all2 keeps_table (fds s) (fds s')"

lemma keeps_table_refl [simp]: "keeps_table fs fs"
  by (simp add: keeps_table_def)

lemma keeps_types_refl [simp, intro]: "keeps_types s s"
  by (simp add: keeps_types_def list_all2_refl)

lemma keeps_types_trans [trans]: "keeps_types s s1 \<Longrightarrow> keeps_types s1 s2 \<Longrightarrow> keeps_types s s2"
  unfolding keeps_types_def by (erule (1) list_all2_trans [rotated]) (simp add: keeps_table_def)

lemma keeps_types_same: "fds s' = fds s \<Longrightarrow> keeps_types s s'"
  by (simp add: keeps_types_def list_all2_refl)

lemma keeps_types_frame: "fd_frame s s' \<Longrightarrow> keeps_types s s'"
  by (simp add: keeps_types_same fd_frame_def)

lemma keeps_table_update:
  assumes "2 \<le> j \<and> (f_present f = 0 \<or> f_ops f \<in> set file_ops_map) \<or> f_present f = f_present (fs ! j) \<and> f_ops f = f_ops (fs ! j)"
  shows "keeps_table fs (fs[j := f])"
proof -
  have "table_typed (fs[j := f])" if t: "table_typed fs"
  proof (cases "j < 8")
    case True
    have "slot_typed j f" using assms t True by (auto simp: slot_typed_def table_typed_def)
    then show ?thesis using t True by (auto simp: table_typed_def nth_list_update)
  next
    case False
    then show ?thesis using t by (simp add: table_typed_def list_update_beyond)
  qed
  moreover have "std_ok (fs[j := f])" if t: "std_ok fs"
    using assms t by (cases "j = 0 \<or> j = 1") (auto simp: std_ok_def)
  ultimately show ?thesis by (simp add: keeps_table_def)
qed

lemma keeps_types_update:
  assumes "fds s' = upd_fd i j g (fds s)"
    and "\<And>f. 2 \<le> j \<and> (f_present (g f) = 0 \<or> f_ops (g f) \<in> set file_ops_map) \<or> f_present (g f) = f_present f \<and> f_ops (g f) = f_ops f"
  shows "keeps_types s s'"
proof -
  have k: "keeps_table fs (fs[j := g (fs ! j)])" for fs by (rule keeps_table_update) (rule assms(2))
  show ?thesis unfolding keeps_types_def assms(1) upd_fd_def
    by (cases "i < length (fds s)") (auto simp: list_all2_conv_all_nth nth_list_update k list_update_beyond)
qed

lemma keeps_advance: "fds s' = upd_fd i j (advance r) (fds s) \<Longrightarrow> keeps_types s s'"
  by (erule keeps_types_update) (simp add: advance_def)

lemma keeps_closed: "fds s' = upd_fd i j (\<lambda>f. f\<lparr>f_present := 0\<rparr>) (fds s) \<Longrightarrow> 2 \<le> j \<Longrightarrow> keeps_types s s'"
  by (erule keeps_types_update) simp

lemma keeps_opened:
  "fds s' = upd_fd i j (set_up_file ops inode) (fds s) \<Longrightarrow> 2 \<le> j \<Longrightarrow> ops \<in> set file_ops_map \<Longrightarrow> keeps_types s s'"
  by (erule keeps_types_update) (simp add: set_up_file_def)

section \<open>The descriptor calls\<close>

lemma read_types: "sys_read irqs fd buf count s = Some (r, s') \<Longrightarrow> quiet irqs \<Longrightarrow> keeps_types s s'"
proof -
  assume r: "sys_read irqs fd buf count s = Some (r, s')" and q: "quiet irqs"
  then obtain i where i: "current s = Some i" by (auto simp: sys_read_def bind_eq_Some_conv)
  have "fds s' = fds s \<or> fds s' = upd_fd i (unat fd) (advance r) (fds s)"
    using sys_read_cases [OF i r] ops_read_effect [OF _ q] by (metis (no_types))
  then show ?thesis using keeps_advance by (auto simp: keeps_types_def list_all2_refl)
qed

text \<open>The shape of the three calls on a descriptor.\<close>

lemma on_file_cases:
  "(if b then Some (-1, s) else do { f \<leftarrow> get_file i fd s; if f_present f = 0 then Some (-1, s) else g f }) = Some (r, s') \<Longrightarrow>
   s' = s \<or> \<not> b \<and> (\<exists>f. get_file i fd s = Some f \<and> g f = Some (r, s'))"
  by (auto simp: bind_eq_Some_conv simp del: get_file_iff split: if_splits)

lemma write_types: "sys_write fd buf count s = Some (r, s') \<Longrightarrow> keeps_types s s'"
  unfolding sys_write_def bind_eq_Some_conv using ops_write_effect keeps_advance
  by (elim exE conjE) (drule on_file_cases, blast)

lemma close_types: "sys_close fd s = Some (r, s') \<Longrightarrow> keeps_types s s'"
proof -
  assume c: "sys_close fd s = Some (r, s')"
  then obtain i where i: "current s = Some i" by (auto simp: sys_close_def bind_eq_Some_conv)
  have "s' = s \<or> \<not> bad_fd 2 fd \<and> (\<exists>f. get_file i fd s = Some f \<and>
      do { rs \<leftarrow> ops_close (f_ops f) fd s; finish_close i fd rs } = Some (r, s'))"
    using c on_file_cases [where g = "\<lambda>f. do { rs \<leftarrow> ops_close (f_ops f) fd s; finish_close i fd rs }"]
    unfolding sys_close_def i bind.bind_lunit by blast
  then show ?thesis
  proof (elim disjE exE conjE)
    fix f assume fd: "\<not> bad_fd 2 fd" and f: "get_file i fd s = Some f"
      and "do { rs \<leftarrow> ops_close (f_ops f) fd s; finish_close i fd rs } = Some (r, s')"
    note e = ops_close_effect [OF f this(3)]
    show ?thesis
    proof (cases "r = 0")
      case True
      then show ?thesis using keeps_closed [of s' i "unat fd" s] e fd_range(2) [OF fd] by simp
    qed (use e in \<open>simp add: keeps_types_frame fd_frame_def\<close>)
  qed simp
qed

lemma open_types: "sys_open fname s = Some (r, s') \<Longrightarrow> keeps_types s s'"
proof -
  assume o: "sys_open fname s = Some (r, s')"
  then obtain c free and p :: pcb_t where c: "current s = Some c" "free_fd (p_files p) = Some free"
      "(case free of None \<Rightarrow> Some (-1, s) | Some i \<Rightarrow> open_at c i fname s) = Some (r, s')"
    unfolding sys_open_def bind_eq_Some_conv by blast
  show ?thesis
  proof (cases "r = -1")
    case False
    then show ?thesis using sys_open_effect [OF c(1) o] keeps_opened by metis
  next
    case r: True
    show ?thesis
    proof (cases free)
      case (Some i)
      have "i < 8" using c(2) find_lowest [of _ 2 8 i] unfolding Some free_fd_def bind_eq_Some_conv by blast
      then have i: "(of_nat i :: i32) \<noteq> -1" using unat_small_fd [of i] by (auto simp: unat_neg_one)
      have "open_at c i fname s = Some (r, s')" using c(3) Some by simp
      then have "s' = s \<or> (\<exists>ops r. ops_open ops fname s = Some (r, s'))"
        using i r unfolding open_at_def by (auto simp: bind_eq_Some_conv simp del: nth_opt_eq_Some split: if_splits)
      then show ?thesis using ops_open_frame keeps_types_frame by blast
    qed (use c(3) in simp)
  qed
qed

section \<open>The other calls\<close>

lemma getargs_copy_frame: "getargs_copy src n dest s = Some s' \<Longrightarrow> fd_frame s s'"
proof (induction src n dest s rule: getargs_copy.induct)
  case (2 c src n dest s)
  show ?case
  proof (cases "c \<noteq> 0 \<and> 0 < n")
    case True
    then obtain s1 where "vstore dest c s = Some s1" "getargs_copy src (n - 1) (dest + 1) s1 = Some s'"
      using 2(2) by (auto simp: bind_eq_Some_conv)
    then show ?thesis using 2(1) [OF True] vstore_frame fd_frame_trans by blast
  qed (use 2(2) vstore_frame in auto)
qed simp

lemma getargs_frame: "getargs buf count s = Some (r, s') \<Longrightarrow> fd_frame s s'"
  by (auto simp: getargs_def bind_eq_Some_conv split: if_splits intro: getargs_copy_frame)

lemma map_mmu_frame [simp]: "fd_frame (map_mmu f s) s' = fd_frame s s'" "fd_frame s (map_mmu f s') = fd_frame s s'"
  by (simp_all add: fd_frame_def fds_def map_mmu_def)

lemma vidmap_frame: "vidmap start s = Some (r, s') \<Longrightarrow> fd_frame s s'"
  unfolding vidmap_def Let_def
  by (auto simp: bind_eq_Some_conv split: if_splits intro: fd_frame_trans [OF map_pcb_frame] dest!: copy_out_frame)

lemma print_plain_frame: "printf_loop frame fmt args s = Some s' \<Longrightarrow> 37 \<notin> set fmt \<Longrightarrow> fd_frame s s'"
  by (induction fmt arbitrary: s) (auto simp: bind_eq_Some_conv intro: fd_frame_trans putc_frame)

lemma printf_frame: "printf frame fmt args s = Some (r, s') \<Longrightarrow> 37 \<notin> set fmt \<Longrightarrow> fd_frame s s'"
  by (auto simp: printf_def bind_eq_Some_conv dest: print_plain_frame)

lemma delete_frame: "delete frame fname s = Some (r, s') \<Longrightarrow> fd_frame s s'"
  unfolding delete_def
  by (auto simp: bind_eq_Some_conv of_char_def split: if_splits elim!: printf_frame)

lemma create_types: "create junk fname s = Some (r, s') \<Longrightarrow> keeps_types s s'"
proof (cases "r = -1")
  case False
  assume "create junk fname s = Some (r, s')"
  from create_cases [OF this False] obtain c i inode fs where
    i: "2 \<le> i" "i < 8" and m: "map_file c (of_nat i) (set_up_file (file_ops_map ! 2) inode) (s\<lparr>disk := fs\<rparr>) = Some s'" by blast
  obtain f where f: "get_file c (of_nat i) (s\<lparr>disk := fs\<rparr>) = Some f"
    using m unfolding map_file_def bind_eq_Some_conv by (auto simp: get_file_def bind_eq_Some_conv)
  have "fds s' = upd_fd c i (set_up_file (file_ops_map ! 2) inode) (fds s)"
    using map_file_eq [OF f, of "set_up_file (file_ops_map ! 2) inode"] m unat_small_fd [OF i(2)] by (auto simp: fds_def)
  then show ?thesis using keeps_opened i(1) by (simp add: file_ops_map_def)
next
  case r: True
  assume "create junk fname s = Some (r, s')"
  then obtain c free and p :: pcb_t where c: "current s = Some c" "free_fd (p_files p) = Some free"
      "(case free of None \<Rightarrow> Some (-1, s) | Some i \<Rightarrow> create_at junk c i fname s) = Some (r, s')"
    unfolding create_def bind_eq_Some_conv by blast
  show ?thesis
  proof (cases free)
    case (Some i)
    have "i < 8" using c(2) find_lowest [of _ 2 8 i] unfolding Some free_fd_def bind_eq_Some_conv by blast
    then have i: "(of_nat i :: i32) \<noteq> -1" using unat_small_fd [of i] by (auto simp: unat_neg_one)
    have "create_at junk c i fname s = Some (r, s')" using c(3) Some by simp
    then have "s' = s" using i r unfolding create_at_def by (auto simp: bind_eq_Some_conv split: if_splits)
    then show ?thesis by simp
  qed (use c(3) in simp)
qed

section \<open>Starting and ending a process\<close>

lemma std_files_types: "length fs' = length fs \<Longrightarrow> keeps_table fs (std_files fs')"
proof -
  assume l: "length fs' = length fs"
  have "table_typed (std_files fs') \<and> std_ok (std_files fs')" if "length fs = 8"
  proof -
    have "length fs' = 8" using l that by simp
    then obtain f0 f1 r where "fs' = f0 # f1 # r" "length r = 6"
      by (cases fs'; cases "tl fs'") auto
    then show ?thesis
      by (auto simp: std_files_def clear_files_def table_typed_def std_ok_def slot_typed_def nth_Cons')
  qed
  then show ?thesis by (auto simp: keeps_table_def table_typed_def std_ok_def)
qed

lemma start_types:
  assumes "start_process clobber pid inode arg s = Some (out, s')" "\<And>fs. length (clobber fs) = length fs"
  shows "keeps_types s s'"
proof -
  let ?f = "set_up_pcb clobber pid (get_current_pcb s) (ebp s) arg"
  obtain s1 s2 entry s3 p where
    s: "map_pcb pid ?f s = Some s1" "map_term (active_term_id s1) (\<lambda>u. u\<lparr>t_pid := of_nat pid\<rparr>) s1 = Some s2"
      "load_program inode (map_mmu (set_up_paging pid) s2) = Some (entry, s3)" "get_pcb pid s3 = Some p"
      "s' = s3\<lparr>tss_esp0 := p_esp0 p, tss_ss0 := KERNEL_DS, esp := USER_STACK, iflag := True\<rparr>"
    using assms(1) by (auto simp: start_process_def bind_eq_Some_conv Let_def)
  have i: "pid < length (pcbs s)" and s1: "s1 = s\<lparr>pcbs := (pcbs s)[pid := ?f (pcbs s ! pid)]\<rparr>"
    using s(1) by (auto simp: map_pcb_def get_pcb_def bind_eq_Some_conv)
  have "\<exists>m. s3 = (map_mmu (set_up_paging pid) s2)\<lparr>phys := m\<rparr>" by (rule load_program_phys [OF s(3)])
  then have "fds s' = fds s1" using map_term_frame [OF s(2)] by (auto simp: s(5) fd_frame_def fds_def map_mmu_def)
  also have "\<dots> = (fds s)[pid := p_files (?f (pcbs s ! pid))]" by (simp add: s1 fds_def map_update)
  finally have e: "fds s' = (fds s)[pid := p_files (?f (pcbs s ! pid))]" .
  obtain fs' where "p_files (?f (pcbs s ! pid)) = std_files fs'" "length fs' = length (fds s ! pid)"
    using assms(2) i by (cases arg) (simp_all add: set_up_pcb_def set_argv_def Let_def fds_def)
  then have "keeps_table (fds s ! pid) (p_files (?f (pcbs s ! pid)))" by (simp add: std_files_types)
  moreover have "pid < length (fds s)" using i by (simp add: fds_def)
  ultimately show ?thesis by (auto simp: keeps_types_def e list_all2_conv_all_nth nth_list_update)
qed

lemma execute_types:
  assumes "execute clobber cmd s = Some (out, s')" "\<And>fs. length (clobber fs) = length fs"
  shows "keeps_types s s'"
proof -
  let ?s0 = "s\<lparr>iflag := False\<rparr>"
  have "s' = s \<or> s' = ?s0 \<or> (\<exists>n inode arg. start_process clobber n inode arg ?s0 = Some (out, s'))"
    using assms(1) unfolding execute_def Let_def
    by (auto split: option.splits prod.splits simp: bind_eq_Some_conv)
  moreover have "keeps_types s ?s0" by (simp add: keeps_types_frame)
  ultimately show ?thesis using start_types assms(2) keeps_types_trans by blast
qed

lemma ops_close_frame: "ops_close ops fd s = Some (r, s') \<Longrightarrow> fd_frame s s'"
  by (cases ops) (simp_all add: null_drv.close_frame stdin_drv.close_frame file_drv.close_frame
      dir_drv.close_frame rtc_drv.close_frame)

lemma halt_file_types: "halt_file i j s = Some s' \<Longrightarrow> 2 \<le> j \<Longrightarrow> j < 8 \<Longrightarrow> keeps_types s s'"
proof -
  assume h: "halt_file i j s = Some s'" and j: "2 \<le> j" "j < 8"
  obtain f where f: "get_file i (of_nat j) s = Some f" using h by (auto simp: halt_file_def bind_eq_Some_conv)
  show ?thesis
  proof (cases "f_present f = 0")
    case False
    then obtain r s1 where s1: "ops_close (f_ops f) (of_nat j) s = Some (r, s1)"
      "map_file i (of_nat j) (\<lambda>f. f\<lparr>f_present := 0\<rparr>) s1 = Some s'"
      using h f by (auto simp: halt_file_def bind_eq_Some_conv)
    note fr = ops_close_frame [OF s1(1)]
    have "fds s' = upd_fd i j (\<lambda>f. f\<lparr>f_present := 0\<rparr>) (fds s1)"
      using map_file_eq [OF get_file_frame [OF fr f], of "\<lambda>f. f\<lparr>f_present := 0\<rparr>"] s1(2) unat_small_fd [OF j(2)] by auto
    then show ?thesis using keeps_closed [OF _ j(1)] keeps_types_trans keeps_types_frame [OF fr] by blast
  qed (use h f in \<open>simp add: halt_file_def\<close>)
qed

lemma to_parent_types: "halt_to_parent i status s = Some (out, s') \<Longrightarrow> keeps_types s s'"
  by (rule keeps_types_same)
     (auto simp: halt_to_parent_def leave_ret_def bind_eq_Some_conv Let_def map_mmu_def fd_frame_def fds_def dest!: map_term_frame)

lemma halt_types:
  assumes "halt clobber status s = Some (out, s')" "\<And>fs. length (clobber fs) = length fs"
  shows "keeps_types s s'"
proof -
  let ?s0 = "s\<lparr>iflag := False\<rparr>"
  define shell :: cstr where "shell = Some (map of_char ''shell'')"
  obtain i s1 s2 s3 p where h: "map_pcb i (\<lambda>p. p\<lparr>p_present := 0, p_vidmap := 0, p_rtc := 0\<rparr>) ?s0 = Some s1"
      "for_opt (halt_file i) [2..<8] s1 = Some s2" "map_term (active_term_id s2) (\<lambda>u. u\<lparr>t_to_be_halt := 0\<rparr>) s2 = Some s3"
      "get_pcb i s3 = Some p"
    and out: "(if sint (p_pid p) < int TERMINAL_COUNT then do {
         s \<leftarrow> map_pcb i (\<lambda>p. p\<lparr>p_present := 0\<rparr>) s3;
         (r, s) \<leftarrow> execute clobber shell s;
         case r of Returns _ \<Rightarrow> halt_to_parent i status s | _ \<Rightarrow> Some (r, s)
       } else halt_to_parent i status s3) = Some (out, s')"
    using assms(1) unfolding halt_def shell_def Let_def bind_eq_Some_conv by blast
  have "fd_frame ?s0 s1" by (rule map_pcb_frame [OF h(1)]) simp
  then have "keeps_types s s1" by (auto intro!: keeps_types_same simp: fd_frame_def fds_def)
  also have "keeps_types s1 s2"
    by (rule for_opt_invariant [where I = "keeps_types s1", OF _ keeps_types_refl h(2)])
       (use halt_file_types keeps_types_trans in auto)
  also have "keeps_types s2 s3" by (rule keeps_types_frame [OF map_term_frame [OF h(3)]])
  also have "keeps_types s3 s'"
  proof (cases "sint (p_pid p) < int TERMINAL_COUNT")
    case True
    then obtain s4 r s5 where s4: "map_pcb i (\<lambda>p. p\<lparr>p_present := 0\<rparr>) s3 = Some s4"
      "execute clobber shell s4 = Some (r, s5)"
      "(case r of Returns _ \<Rightarrow> halt_to_parent i status s5 | _ \<Rightarrow> Some (r, s5)) = Some (out, s')"
      using out by (auto simp: bind_eq_Some_conv)
    have "fd_frame s3 s4" by (rule map_pcb_frame [OF s4(1)]) simp
    then have "keeps_types s3 s4" by (rule keeps_types_frame)
    also have "keeps_types s4 s5" by (rule execute_types [OF s4(2) assms(2)])
    also have "keeps_types s5 s'" using s4(3) by (auto split: outcome.splits dest: to_parent_types)
    finally show ?thesis .
  qed (use out in \<open>simp add: to_parent_types\<close>)
  finally show ?thesis .
qed

lemma call_types:
  assumes "system_call env irqs eax ebx ecx edx s = Some (out, s')" "\<And>fs. length (env_clobber env fs) = length fs" "quiet irqs"
  shows "keeps_types s s'"
  using assms unfolding system_call_def returning_def
  by (auto simp: bind_eq_Some_conv set_handler_def sigreturn_def split: if_splits
      dest: halt_types execute_types read_types write_types open_types close_types getargs_frame vidmap_frame create_types delete_frame
      intro: keeps_types_frame)

section \<open>Every system call\<close>

lemma keeps_typesD:
  assumes "keeps_types s s'"
  shows "length (fds s') = length (fds s)" "files_typed s \<Longrightarrow> files_typed s'"
    "i < length (fds s) \<Longrightarrow> std_ok (fds s ! i) \<Longrightarrow> std_ok (fds s' ! i)"
  using assms by (auto simp: keeps_types_def files_typed_def keeps_table_def list_all2_conv_all_nth list_all_length)

text \<open>C10: whatever its number and arguments, a system call that comes back leaves the file tables of all processes
  well-typed: slots 0 and 1 hold the terminal's tables or nothing, the others one of the three tables of
  \<^verbatim>\<open>file_ops_map\<close> or nothing, so that no call is ever dispatched through the empty table or the wrong one of the
  terminal. No call takes the standard descriptors from a process that has them. The interrupts that occur while the
  call waits are assumed to leave the descriptors alone, and the over-long copy in \<^verbatim>\<open>execute\<close> to stay a table of
  eight.\<close>

theorem system_calls_keep_types:
  assumes "system_call env irqs eax ebx ecx edx s = Some (out, s')" "files_typed s"
    and "\<And>fs. length (env_clobber env fs) = length fs" "quiet irqs"
  shows "files_typed s' \<and> length (fds s') = length (fds s) \<and>
    (\<forall>i < length (fds s). std_ok (fds s ! i) \<longrightarrow> std_ok (fds s' ! i))"
  using keeps_typesD [OF call_types [OF assms(1,3,4)]] assms(2) by blast

text \<open>A write on the standard input, which is refused.\<close>

theorem system_calls_keep_types_witness:
  "\<exists>s'. system_call plain_env [] 4 0 0x500000 4 sample_state = Some (Returns (-1), s') \<and> files_typed s' \<and> std_ok (fds s' ! 0)"
proof -
  let ?f = "sample_file\<lparr>f_ops := stdin_ops, f_present := 1\<rparr>"
  have f: "get_file 0 0 sample_state = Some ?f" by (simp add: get_file_iff fds_sample sample_pcb_def)
  from map_file_eq [OF f, of "advance (-1)"] obtain s' where "map_file 0 0 (advance (-1)) sample_state = Some s'" by blast
  then have "sys_write 0 0x500000 4 sample_state = Some (-1, s')"
    using f by (simp add: sys_write_def current_sample bad_fd_def null_write_def finish_write_def)
  then have c: "system_call plain_env [] 4 0 0x500000 4 sample_state = Some (Returns (-1), s')"
    by (simp add: system_call_def returning_def)
  have t: "table_typed (p_files (sample_pcb 0))" "std_ok (p_files (sample_pcb 0))"
    by (simp_all add: table_typed_def slot_typed_def std_ok_def sample_pcb_def sample_file_def nth_Cons' All_less_Suc eval_nat_numeral)
  then have "files_typed sample_state" "std_ok (fds sample_state ! 0)" "0 < length (fds sample_state)"
    by (simp_all add: files_typed_def fds_sample list_all_iff)
  then show ?thesis
    using c system_calls_keep_types [OF c] by (auto simp: plain_env_def quiet_def)
qed

end
