(* ===== verification/TestProgs.thy ===== *)
theory TestProgs imports UserProgs CString begin

text \<open>
  The test programs \<^verbatim>\<open>src/syscalls/ece391counter.c\<close> and \<^verbatim>\<open>ece391pingpong.c\<close>. The first converts numbers in the
  buffer it read its input with, the second bounces a letter between two walls for ever, one frame for each tick of
  the clock.
\<close>

section \<open>counter\<close>

text \<open>\<^verbatim>\<open>ece391_itoa(value, buf, 10)\<close> on a buffer of the program, as a memory of its own.\<close>

definition itoa_buf :: "u32 \<Rightarrow> u8 list \<Rightarrow> u8 list option" where
  "itoa_buf value buf = do {
     m \<leftarrow> ece391_itoa value 0 10 (\<lambda>a. if unat a < length buf then buf ! unat a else 0);
     Some (map (\<lambda>k. m (of_nat k)) [0..<length buf])
   }"

definition count_step :: "'s os \<Rightarrow> nat \<Rightarrow> u8 list \<times> 's \<Rightarrow> (u8 list \<times> 's) option" where
  "count_step os i = (\<lambda>(buf, s). do {
     buf \<leftarrow> itoa_buf (of_nat i + 1) buf;
     str \<leftarrow> string_in buf;
     s \<leftarrow> ece391_fdputs os 1 str s;
     s \<leftarrow> ece391_fdputs os 1 [newline] s;
     Some (buf, s)
   })"

definition counter_max :: "u8 \<Rightarrow> u32" where
  "counter_max c = (if c = 48 then 100 else if c = 49 then 10000 else if c = 50 then 100000 else 0)"

definition wrong_choice :: "u8 list \<Rightarrow> u8 \<Rightarrow> bool" where
  "wrong_choice str c \<longleftrightarrow> length str > 2 \<or> length str = 2 \<and> (c < 48 \<or> c > 50)"

definition counter :: "'s os \<Rightarrow> u8 list \<Rightarrow> 's \<Rightarrow> (i32 \<times> 's) option" where
  "counter os buf s = do {
     s \<leftarrow> ece391_fdputs os 1 (line_of ''Enter the Test Number: (0): 100, (1): 10000, (2): 100000'') s;
     (cnt, buf, s) \<leftarrow> os_read os 0 buf 1023 s;
     if cnt = -1 then do { s \<leftarrow> ece391_fdputs os 1 (msg ''Can'' @ [39] @ line_of ''t read the number from keyboard.'') s; Some (3, s) }
     else do {
       buf \<leftarrow> upd_opt buf (unat cnt) 0;
       str \<leftarrow> string_in buf;
       c \<leftarrow> nth_opt buf 0;
       if wrong_choice str c then do { s \<leftarrow> ece391_fdputs os 1 (line_of ''Wrong Choice!'') s; Some (0, s) }
       else do {
         (_, s) \<leftarrow> for_opt (count_step os) [0..<unat (counter_max c)] (buf, s);
         Some (0, s)
       }
     }
   }"

section \<open>pingpong\<close>

abbreviation BUFMAX :: nat where "BUFMAX \<equiv> 81"
abbreviation STARTLOOP :: nat where "STARTLOOP \<equiv> 2"
abbreviation LOOPMAX :: nat where "LOOPMAX \<equiv> 78"

definition ping_buffer :: "u8 list" where
  "ping_buffer =
     (let buf = replicate BUFMAX 32;
          buf = buf[BUFMAX - 1 := 0];
          buf = buf[BUFMAX - 2 := newline];
          buf = buf[BUFMAX - 3 := 124]
      in buf[1 := 124])"

text \<open>One position: the inner part is blanked, the letter drawn, the line printed, and a tick waited for.\<close>

definition ping_frame :: "'s os \<Rightarrow> i32 \<Rightarrow> u8 list \<Rightarrow> u8 \<Rightarrow> nat \<Rightarrow> u8 list \<times> 's \<Rightarrow> (u8 list \<times> 's) option" where
  "ping_frame os rtc_fd garbage curchar j = (\<lambda>(buf, s). do {
     buf \<leftarrow> for_opt (\<lambda>i buf. upd_opt buf i 32) [STARTLOOP..<LOOPMAX] buf;
     buf \<leftarrow> upd_opt buf j curchar;
     str \<leftarrow> string_in buf;
     s \<leftarrow> ece391_fdputs os 1 str s;
     (_, _, s) \<leftarrow> os_read os rtc_fd garbage 4 s;
     Some (buf, s)
   })"

definition ping_round :: "'s os \<Rightarrow> i32 \<Rightarrow> u8 list \<Rightarrow> u8 \<times> u8 list \<times> 's \<Rightarrow> (u8 \<times> u8 list \<times> 's) option" where
  "ping_round os rtc_fd garbage = (\<lambda>(curchar, buf, s). do {
     (buf, s) \<leftarrow> for_opt (ping_frame os rtc_fd garbage curchar) [STARTLOOP..<LOOPMAX] (buf, s);
     (buf, s) \<leftarrow> for_opt (ping_frame os rtc_fd garbage curchar) (rev [STARTLOOP..<LOOPMAX]) (buf, s);
     Some (if curchar = 90 then 65 else curchar + 1, buf, s)
   })"

text \<open>The state after \<open>n\<close> rounds of the endless loop.\<close>

definition pingpong :: "nat \<Rightarrow> 's os \<Rightarrow> u8 list \<Rightarrow> 's \<Rightarrow> (u8 \<times> u8 list \<times> 's) option" where
  "pingpong n os garbage s = do {
     (rtc_fd, s) \<leftarrow> os_open os (msg ''rtc'') s;
     (_, s) \<leftarrow> os_write os rtc_fd (le32 32) 4 s;
     for_opt (\<lambda>_. ping_round os rtc_fd garbage) [0..<n] (65, ping_buffer, s)
   }"

end
