(* ===== verification/Typing.thy ===== *)
theory Typing imports KernelCat TestProgs Idt begin

text \<open>
  Programs that talk to the user: a line is typed while the program waits in \<^verbatim>\<open>terminal_read\<close>, and the program answers.
  The keyboard interrupts of the wait change the console and the line of the terminal and nothing that the program
  relies on.
\<close>

section \<open>What the keys of a line leave alone\<close>

definition typing_view :: "kstate \<Rightarrow> pcb_t list \<times> u32 \<times> fsys \<times> paging \<times> nat \<times> u32 \<times> u32" where
  "typing_view s = (pcbs s, esp s, disk s, mmu s, length (terms s), active_term_id s, shown_term_id s)"

lemma console_typing: "console_same s s' \<Longrightarrow> typing_view s' = typing_view s"
  using console_base_keeps [of s' s] by (simp add: console_same_def typing_view_def)

lemma echo_typing: "echo c s = Some s' \<Longrightarrow> active_term_id s = shown_term_id s \<Longrightarrow> typing_view s' = typing_view s"
  by (auto simp: echo_def dest!: putc_same console_typing)

lemma map_term_typing: "map_term t f s = Some s' \<Longrightarrow> typing_view s' = typing_view s"
  by (auto simp: map_term_def bind_eq_Some_conv typing_view_def)

lemma input_typing:
  "push_input c s = Some s' \<Longrightarrow> typing_view s' = typing_view s" "pop_input s = Some s' \<Longrightarrow> typing_view s' = typing_view s"
  by (auto simp: push_input_def pop_input_def bind_eq_Some_conv split: if_splits dest!: map_term_typing)

lemma typing_view_terms: "typing_view s' = typing_view s \<Longrightarrow> active_term_id s = shown_term_id s \<Longrightarrow> active_term_id s' = shown_term_id s'"
  by (simp add: typing_view_def)

lemma visible_key_typing:
  "visible_key sc s = Some s' \<Longrightarrow> active_term_id s = shown_term_id s \<Longrightarrow> typing_view s' = typing_view s"
  by (auto simp: visible_key_def Let_def bind_eq_Some_conv split: if_splits
      dest!: echo_typing input_typing(1) map_term_typing clear_same console_typing)

lemma handle_key_typing:
  assumes "handle_key sc s = Some (eip, s')" "\<not> (0x3B \<le> sc \<and> sc \<le> 0x3D)" "active_term_id s = shown_term_id s"
  shows "typing_view s' = typing_view s"
proof (cases "sc \<in> {SC_LEFTSHIFT, SC_RIGHTSHIFT, SC_LEFTSHIFTREL, SC_RIGHTSHIFTREL, SC_CAPSLOCK, SC_LEFTALT,
      SC_LEFTCONTROL, SC_LEFTCONTROLREL}")
  case True
  from modifier_keys [OF assms(1) this] show ?thesis by (auto simp: typing_view_def)
next
  case False
  then consider s1 where "echo 9 s = Some s1" "push_input 9 s1 = Some s'"
    | "backspace_key s = Some s'"
    | s1 where "echo 10 s = Some s1" "map_term (shown_term_id s1) (\<lambda>u. u\<lparr>t_in_progress := 0\<rparr>) s1 = Some s'"
    | "visible_key sc s = Some s'"
    using assms by (auto simp: handle_key_def bind_eq_Some_conv split: if_splits)
  then show ?thesis using assms(3)
    by cases (auto simp: backspace_key_def bind_eq_Some_conv split: if_splits
      dest!: echo_typing input_typing map_term_typing visible_key_typing)
qed

lemma press_typing:
  assumes "press sc s = Some s'" "\<not> (0x3B \<le> sc \<and> sc \<le> 0x3D)" "active_term_id s = shown_term_id s"
  shows "typing_view s' = typing_view s"
proof -
  let ?s = "(key_port sc s)\<lparr>ports := snd (inb KEYBOARD_PORT (ports (key_port sc s)))\<rparr>"
  have k: "ucast (fst (inb KEYBOARD_PORT (ports (key_port sc s)))) = sc" by (simp add: key_port_def inb_def and_FF_ucast)
  obtain s1 where h: "handle_key sc ?s = Some (None, s1)" "s' = s1\<lparr>ports := send_eoi KEYBOARD_IRQ (ports s1)\<rparr>"
    using assms(1) by (auto simp: press_def keyboard_handler_eq bind_eq_Some_conv k split: option.splits)
  have "active_term_id ?s = shown_term_id ?s" using assms(3) by (simp add: key_port_def)
  from handle_key_typing [OF h(1) assms(2) this] show ?thesis by (simp add: h(2) typing_view_def key_port_def)
qed

lemma wait_typing:
  assumes "\<forall>sc \<in> set codes. \<not> (0x3B \<le> sc \<and> sc \<le> (0x3D :: u8))"
  shows "wait_input (map press codes) s = Some s' \<Longrightarrow> active_term_id s = shown_term_id s \<Longrightarrow> typing_view s' = typing_view s"
  using assms
proof (induction codes arbitrary: s)
  case Nil
  then show ?case by (subst (asm) wait_input.simps) (auto simp: bind_eq_Some_conv split: if_splits)
next
  case (Cons sc codes)
  consider "s' = s" | s1 where "press sc s = Some s1" "wait_input (map press codes) s1 = Some s'"
    using Cons.prems(1) by (subst (asm) wait_input.simps) (auto simp: bind_eq_Some_conv split: if_splits)
  then show ?case
  proof cases
    case 2
    have v: "typing_view s1 = typing_view s" using press_typing [OF 2(1)] Cons.prems by simp
    then show ?thesis using Cons.IH [OF 2(2) typing_view_terms [OF v Cons.prems(2)]] Cons.prems(3) by simp
  qed simp
qed

lemma memory_typing: "typing_view (s\<lparr>phys := m\<rparr>) = typing_view s"
  by (simp add: typing_view_def)

lemma vstore_typing: "vstore a v s = Some s' \<Longrightarrow> typing_view s' = typing_view s"
  by (auto simp: vstore_def bind_eq_Some_conv typing_view_def)

lemma copy_out_typing: "copy_out a bs s = Some s' \<Longrightarrow> typing_view s' = typing_view s"
  by (induction bs arbitrary: a s) (fastforce simp: bind_eq_Some_conv dest!: vstore_typing)+

lemma terminal_read_typing:
  assumes "terminal_read (map press codes) fd buf count s = Some (r, s')" "\<forall>sc \<in> set codes. \<not> (0x3B \<le> sc \<and> sc \<le> (0x3D :: u8))"
    and "active_term_id s = shown_term_id s"
  shows "typing_view s' = typing_view s"
proof (cases "buf = 0 \<or> count = 0")
  case True
  then show ?thesis using assms(1) by (auto simp: terminal_read_def)
next
  case False
  obtain s1 s2 u s3 s4 n where d: "map_term (active_term_id s) (\<lambda>u. u\<lparr>t_in_progress := 1\<rparr>) s = Some s1"
    "wait_input (map press codes) s1 = Some s2" "get_term (active_term_id s2) s2 = Some u"
    "(if count > t_length u then vstore (buf + t_length u) 0 s2 else Some s2) = Some s3"
    "copy_out buf n s3 = Some s4"
    "map_term (active_term_id s4) (\<lambda>u. u\<lparr>t_length := 0, t_in_progress := 1\<rparr>) s4 = Some s'"
    using assms(1) False unfolding terminal_read_def Let_def by (simp add: bind_eq_Some_conv del: split_paired_Ex) (elim exE conjE, rule that, assumption+)
  note v1 = map_term_typing [OF d(1)]
  have "typing_view s2 = typing_view s1" by (rule wait_typing [OF assms(2) d(2) typing_view_terms [OF v1 assms(3)]])
  moreover have "typing_view s3 = typing_view s2" using d(4) by (auto split: if_splits dest: vstore_typing)
  ultimately show ?thesis using v1 copy_out_typing [OF d(5)] map_term_typing [OF d(6)] by simp
qed

section \<open>Printing keeps the line\<close>

text \<open>The terminal of the program is shown and its line is empty; Ctrl is not held down.\<close>

definition line_ready :: "kstate \<Rightarrow> bool" where
  "line_ready s \<longleftrightarrow> input_ok s \<and> active_term_id s = shown_term_id s \<and> \<not> l_ctrl (shown_line s) \<and> l_text (shown_line s) = []"

lemma line_ready_view:
  assumes "edit_view s' = edit_view s"
  shows "line_ready s' = line_ready s" "shown_line s' = shown_line s"
  using edit_view_cong(1,2) [OF assms] assms by (simp_all add: line_ready_def edit_view_eq)

lemma phys_edits: "edit_view (s\<lparr>phys := m\<rparr>) = edit_view s" "edit_view (s\<lparr>iflag := v\<rparr>) = edit_view s"
  "edit_view (s\<lparr>pcbs := ps\<rparr>) = edit_view s"
  by (simp_all add: edit_view_def inputs_def)

lemma copy_out_edit_view: "copy_out a bs s = Some s' \<Longrightarrow> edit_view s' = edit_view s"
proof (induction bs arbitrary: a s)
  case (Cons b bs)
  then obtain s1 where "vstore a b s = Some s1" "copy_out (a + 1) bs s1 = Some s'" by (auto simp: bind_eq_Some_conv)
  moreover from this(1) have "edit_view s1 = edit_view s" by (auto simp: vstore_def bind_eq_Some_conv)
  ultimately show ?case using Cons.IH by simp
qed simp

lemma map_file_edit_view: "map_file i fd f s = Some s' \<Longrightarrow> edit_view s' = edit_view s"
  by (auto simp: map_file_def map_pcb_def bind_eq_Some_conv phys_edits)

lemma terminal_write_line:
  assumes "terminal_write fd buf count s = Some (r, s')" "line_ready s"
  shows "line_ready s' \<and> shown_line s' = shown_line s"
proof (cases "buf = 0 \<or> count = 0")
  case True
  then show ?thesis using assms by (auto simp: terminal_write_def)
next
  case False
  then obtain s1 s2 where d: "for_opt (write_byte buf) [0..<unat count] (s\<lparr>iflag := False\<rparr>) = Some s1"
    "map_term (active_term_id s1) (\<lambda>u. u\<lparr>t_length := 0\<rparr>) s1 = Some s2" "s' = s2\<lparr>iflag := True\<rparr>"
    using assms(1) by (auto simp: terminal_write_def bind_eq_Some_conv)
  have "console_same (s\<lparr>iflag := False\<rparr>) s1" using d(1)
    by (rule for_opt_same [rotated]) (auto simp: write_byte_def bind_eq_Some_conv dest: putc_same)
  then have v: "edit_view s1 = edit_view s" using same_edit_view phys_edits(2) by metis
  have l1: "line_ready s1" "shown_line s1 = shown_line s" using line_ready_view [OF v] assms(2) by simp_all
  then have ok: "input_ok s1" "active_term_id s1 = shown_term_id s1" by (simp_all add: line_ready_def)
  let ?u = "inputs s1 ! unat (shown_term_id s1)"
  have "?u \<in> set (inputs s1)" using ok(1) by (simp add: input_ok_def inputs_def)
  then have len: "length (t_content ?u) = MAX_TERMINAL" using ok(1) by (simp add: input_ok_def)
  have "edits (\<lambda>l. l\<lparr>l_text := []\<rparr>) s1 s2"
  proof (rule map_shown_edits [where f = "\<lambda>u. u\<lparr>t_length := 0\<rparr>" and u = ?u])
    show "map_term (shown_term_id s1) (\<lambda>u. u\<lparr>t_length := 0\<rparr>) s1 = Some s2" using d(2) ok(2) by simp
  qed (use ok(1) len in \<open>simp_all add: hide_cursor_def Keyboard.line_of_def\<close>)
  then have "line_ready s2" "shown_line s2 = (shown_line s1)\<lparr>l_text := []\<rparr>" using l1(1) by (simp_all add: edits_def line_ready_def only_shown_def)
  moreover have "(shown_line s1)\<lparr>l_text := []\<rparr> = shown_line s1" using l1(1) by (simp add: line_ready_def)
  ultimately show ?thesis using d(3) line_ready_view [OF phys_edits(2)] l1(2) by simp
qed

lemma kernel_write_line:
  assumes "os_write (kernel_os env irqs (user_at off)) 1 buf n s = Some (r, s')" "user_ok i b off s" "length buf \<le> 4096" "line_ready s"
  shows "line_ready s' \<and> shown_line s' = shown_line s"
proof -
  let ?a = "user_at off"
  obtain s1 where s1: "copy_out ?a buf s = Some s1" "sys_write 1 ?a n s1 = Some (r, s')"
    using assms(1) by (auto simp: kernel_os_def bind_eq_Some_conv)
  have ok1: "user_ok i b off s1" using user_copy_out [OF assms(2,3)] s1(1) assms(2) by simp
  have l1: "line_ready s1" "shown_line s1 = shown_line s" using line_ready_view [OF copy_out_edit_view [OF s1(1)]] assms(4) by simp_all
  have f: "get_file i 1 s1 = Some (files_of i s1 ! 1)" using get_file_user [OF ok1, of 1] by simp
  have std: "f_present (files_of i s1 ! 1) \<noteq> 0" "f_ops (files_of i s1 ! 1) = stdout_ops" using ok1 by (simp_all add: user_ok_def std_ok_def)
  obtain w s2 where s2: "terminal_write 1 ?a n s1 = Some (w, s2)" "map_file i 1 (advance w) s2 = Some s'"
    using s1(2) user_ok_current [OF ok1] f std by (auto simp: sys_write_def bad_fd_def finish_write_def bind_eq_Some_conv)
  show ?thesis
    using terminal_write_line [OF s2(1) l1(1)] l1(2) line_ready_view [OF map_file_edit_view [OF s2(2)]] by simp
qed

section \<open>Reading a typed line\<close>

lemma user_ok_typing:
  assumes "user_ok i b off s" "typing_view s' = typing_view s" "window s' b" "on_screen s'" "cursor_ok s'"
  shows "user_ok i b off s'"
  using assms by (simp add: user_ok_def typing_view_def on_stack_of_def files_of_def)

lemma user_ready: "user_ok i b off s \<Longrightarrow> line_ready s \<Longrightarrow> ready b s"
  by (simp add: user_ok_def line_ready_def ready_def)

lemma kernel_read_line:
  assumes ok: "user_ok i b off s" "line_ready s" and codes: "list_all typing_key codes"
    and l: "l = l_text (fold edit_key codes (shown_line s))" "length buf = 1024" "length l \<le> 1023"
  shows "\<exists>rest s'. os_read (kernel_os env (map press (codes @ [SC_ENTER])) (user_at off)) 0 buf 1023 s =
      Some (of_nat (length l), l @ rest, s') \<and> length (l @ rest) = 1024 \<and> user_ok i b off s'"
proof -
  let ?a = "user_at off" and ?irqs = "map press (codes @ [SC_ENTER])" and ?s1 = "with_buffer i off buf s"
  have c1: "copy_out ?a buf s = Some ?s1" by (rule with_buffer_copy_out [OF ok(1)]) (use l in simp)
  have ok1: "user_ok i b off ?s1" using ok(1) by simp
  have e1: "edit_view ?s1 = edit_view s" by (rule copy_out_edit_view [OF c1])
  note l1 = line_ready_view [OF e1]
  have r1: "ready b ?s1" using user_ready [OF ok1] l1 ok(2) by simp
  have m: "mapped ?s1 ?a (unat (1023 :: u32)) (phys_at i off)" using user_mapped [OF ok1, of 1023] by simp
  have ctrl: "\<not> l_ctrl (shown_line ?s1)" using ok(2) l1 by (simp add: line_ready_def)
  have a0: "?a \<noteq> 0" by (rule user_at_nonzero [OF ok(1)])
  obtain s2 where s2: "terminal_read ?irqs 0 ?a 1023 ?s1 = Some (of_nat (length l), s2)" "copy_in ?a (length l) s2 = l" "ready b s2"
    using typed_line_read [OF r1 ctrl codes a0 _ m, of l 0] l l1 by (auto simp: min_def)
  have keys: "\<forall>sc \<in> set (codes @ [SC_ENTER]). \<not> (0x3B \<le> sc \<and> sc \<le> 0x3D)"
    using codes typing_key_plain by (auto simp: list_all_iff)
  have "typing_view s2 = typing_view ?s1"
    by (rule terminal_read_typing [OF s2(1) keys]) (use r1 in \<open>simp add: ready_def\<close>)
  then have ok2: "user_ok i b off s2" using user_ok_typing [OF ok1] s2(3) by (simp add: ready_def)
  have f: "get_file i 0 ?s1 = Some (files_of i ?s1 ! 0)" using get_file_user [OF ok1, of 0] by simp
  have std: "f_present (files_of i ?s1 ! 0) \<noteq> 0" "f_ops (files_of i ?s1 ! 0) = stdin_ops" "std_ok (files_of i s2)"
    using ok1 ok2 by (simp_all add: user_ok_def std_ok_def)
  have ln: "unat (of_nat (length l) :: i32) = length l" using l(3) by (simp add: unat_of_nat_small)
  then have r0: "0 \<le> sint (of_nat (length l) :: i32)" using l(3) by (subst sint_small) simp_all
  let ?s3 = "set_files i ((files_of i s2)[0 := advance (of_nat (length l)) (files_of i s2 ! 0)]) s2"
  have "map_file i 0 (advance (of_nat (length l))) s2 = Some ?s3" using map_file_user [OF ok2, of 0] by simp
  then have "sys_read ?irqs 0 ?a 1023 ?s1 = Some (of_nat (length l), ?s3)"
    using user_ok_current [OF ok1] f std(1,2) s2(1) r0 by (simp add: sys_read_def bad_fd_def finish_read_def)
  moreover have ok3: "user_ok i b off ?s3" by (rule user_ok_files [OF ok2]) (use std(3) in \<open>simp add: std_ok_def advance_def\<close>)
  moreover have "copy_in ?a 1024 ?s3 = l @ drop (length l) (copy_in ?a 1024 ?s3)"
  proof -
    have m3: "mapped ?s3 ?a n (phys_at i off)" if "n \<le> 4096" for n using user_mapped [OF ok3 that] .
    have "take (length l) (copy_in ?a 1024 ?s3) = copy_in ?a (length l) ?s3"
      using copy_in_mapped [OF m3] l(3) by (simp add: take_map)
    also have "\<dots> = copy_in ?a (length l) s2" by (rule copy_in_cong) (simp_all add: set_files_def)
    finally show ?thesis using s2(2) by (metis append_take_drop_id)
  qed
  moreover have "length (copy_in ?a 1024 ?s3) = 1024" using copy_in_mapped [OF user_mapped [OF ok3, of 1024]] by simp
  moreover have "os_read (kernel_os env ?irqs ?a) 0 buf 1023 s = Some (of_nat (length l), copy_in ?a 1024 ?s3, ?s3)"
    using c1 calculation(1) l(2) by (simp add: kernel_os_def del: map_append list.map)
  ultimately show ?thesis by metis
qed


end
