(* ===== verification/Prompt.thy ===== *)
theory Prompt imports Typing TestProgs begin

text \<open>
  The programs \<^verbatim>\<open>ece391hello.c\<close> and \<^verbatim>\<open>ece391counter.c\<close>, which print a question, read a line and answer it: what
  they print on a system that answers reads with a typed line, and the kernel as such a system.
\<close>

section \<open>Numbers in the buffer of a program\<close>

lemma itoa_buf_string:
  assumes "32 < length buf"
  shows "\<exists>buf'. itoa_buf v buf = Some buf' \<and> length buf' = length buf \<and> string_in buf' = Some (number_string 10 (unat v))"
proof -
  let ?str = "number_string 10 (unat v)"
  obtain m where m: "ece391_itoa v 0 10 (\<lambda>a. if unat a < length buf then buf ! unat a else 0) = Some m" "cstr_at m 0 ?str"
    using itoa_string [of 10 v 0] by (auto simp: word_le_nat_alt)
  have n: "length ?str \<le> 32"
    using length_digits_of [of 10 "unat v" 32] unat_u32_less [of v] by (simp add: number_string_def)
  have b: "m (of_nat k) = ?str ! k" "?str ! k \<noteq> 0" if "k < length ?str" for k
    using cstr_at_byte(1,2) [OF m(2) that] by simp_all
  have z: "m (of_nat (length ?str)) = 0" using cstr_at_byte(3) [OF m(2)] by simp
  have "[0..<length buf] = [0..<length ?str] @ length ?str # [Suc (length ?str)..<length buf]"
    using n assms upt_add_eq_append [of 0 "length ?str" "length buf - length ?str"] by (simp add: upt_conv_Cons)
  moreover have "map (\<lambda>k. m (of_nat k)) [0..<length ?str] = ?str" using b(1) by (intro nth_equalityI) simp_all
  ultimately have split: "map (\<lambda>k. m (of_nat k)) [0..<length buf] = ?str @ 0 # map (\<lambda>k. m (of_nat k)) [Suc (length ?str)..<length buf]"
    using z by (simp)
  have "\<forall>c \<in> set ?str. c \<noteq> 0" using b(2) by (metis in_set_conv_nth)
  then have "string_in (map (\<lambda>k. m (of_nat k)) [0..<length buf]) = Some ?str" unfolding split string_in_def by (simp add: takeWhile_append2)
  moreover have "itoa_buf v buf = Some (map (\<lambda>k. m (of_nat k)) [0..<length buf])" using m(1) by (simp add: itoa_buf_def)
  ultimately show ?thesis by simp
qed

text \<open>The lines of the numbers \<open>1 \<dots> n\<close>.\<close>

definition counted :: "nat \<Rightarrow> u8 list" where
  "counted n = concat (map (\<lambda>i. number_string 10 (Suc i) @ [newline]) [0..<n])"

section \<open>A program that asks\<close>

text \<open>What a program needs that prints, reads one line and answers: \<open>asked l\<close> is the state in which the user is going to
  type the line \<open>l\<close>.\<close>

locale prompt_os =
  fixes os :: "'s os" and ok :: "'s \<Rightarrow> bool" and asked :: "u8 list \<Rightarrow> 's \<Rightarrow> bool" and view :: "'s \<Rightarrow> 'v" and emit :: "u8 \<Rightarrow> 'v \<Rightarrow> 'v"
  assumes prints: "ok s \<Longrightarrow> length str \<le> 4096 \<Longrightarrow> 8 \<notin> set str \<Longrightarrow> 9 \<notin> set str \<Longrightarrow>
      \<exists>s'. os_write os 1 str (of_nat (length str)) s = Some (of_nat (length str), s') \<and> ok s' \<and> view s' = fold emit str (view s)"
    and print_asked: "ok s \<Longrightarrow> asked l s \<Longrightarrow> length str \<le> 4096 \<Longrightarrow> os_write os 1 str n s = Some (r, s') \<Longrightarrow> asked l s'"
    and answers: "ok s \<Longrightarrow> asked l s \<Longrightarrow> length buf = 1024 \<Longrightarrow> length l \<le> 1022 \<Longrightarrow>
      \<exists>rest s'. os_read os 0 buf 1023 s = Some (of_nat (length l), l @ rest, s') \<and> length (l @ rest) = 1024 \<and> ok s'"
begin

lemma puts_plain:
  assumes "ok s" "length str \<le> 4096" "plain_text str"
  shows "\<exists>s'. ece391_fdputs os 1 str s = Some s' \<and> ok s' \<and> view s' = fold emit str (view s)"
  using prints [of s str] assms unfolding ece391_fdputs_def plain_text_def by force

lemma puts_asked:
  "ece391_fdputs os 1 str s = Some s' \<Longrightarrow> ok s \<Longrightarrow> asked l s \<Longrightarrow> length str \<le> 4096 \<Longrightarrow> asked l s'"
  using print_asked by (auto simp: ece391_fdputs_def bind_eq_Some_conv)

lemma answer_string:
  assumes "ok s" "asked l s" "length buf = 1024" "length l \<le> 1022" "0 \<notin> set l"
  shows "\<exists>buf' buf'' s'. os_read os 0 buf 1023 s = Some (of_nat (length l), buf', s') \<and> upd_opt buf' (length l) 0 = Some buf'' \<and>
    string_in buf'' = Some l \<and> length buf'' = 1024 \<and> nth_opt buf'' 0 = Some ((l @ [0]) ! 0) \<and> ok s'"
proof -
  obtain rest s' where r: "os_read os 0 buf 1023 s = Some (of_nat (length l), l @ rest, s')" "length (l @ rest) = 1024" "ok s'"
    using answers [OF assms(1-4)] by blast
  then obtain c rest' where c: "rest = c # rest'" using assms(4) by (cases rest) auto
  have u: "upd_opt (l @ rest) (length l) 0 = Some (l @ 0 # rest')" using c by (simp add: upd_opt_Some)
  have "\<forall>c \<in> set l. c \<noteq> 0" using assms(5) by metis
  then have "string_in (l @ 0 # rest') = Some l" by (simp add: string_in_def takeWhile_append2)
  moreover have "nth_opt (l @ 0 # rest') 0 = Some ((l @ [0]) ! 0)" by (cases l) (simp_all add: nth_opt_Some)
  moreover have "length (l @ 0 # rest') = 1024" using r(2) c by simp
  ultimately show ?thesis using r(1,3) u by (intro exI conjI) assumption+
qed

lemma hello_greets:
  assumes "ok s" "asked name s" "length buf = 1024" "length name \<le> 1022" "0 \<notin> set name" "plain_text name"
  shows "\<exists>v s'. hello os buf s = Some (0, s') \<and> ok s' \<and> view s' = fold emit (msg ''Hello, '' @ name) v"
proof -
  let ?q = "msg ''Hi, what'' @ [39] @ msg ''s your name? ''"
  have q: "length ?q \<le> 4096" "plain_text ?q" "length (msg ''Hello, '') \<le> 4096" "plain_text (msg ''Hello, '')"
    unfolding msg_def plain_text_def by code_simp+
  obtain s1 where s1: "ece391_fdputs os 1 ?q s = Some s1" "ok s1" using puts_plain [OF assms(1) q(1,2)] by blast
  have a: "asked name s1" by (rule puts_asked [OF s1(1) assms(1,2) q(1)])
  obtain buf1 buf2 s2 where s2: "os_read os 0 buf 1023 s1 = Some (of_nat (length name), buf1, s2)"
    "upd_opt buf1 (length name) 0 = Some buf2" "string_in buf2 = Some name" "ok s2"
    using answer_string [OF s1(2) a assms(3,4,5)] by blast
  obtain s3 where s3: "ece391_fdputs os 1 (msg ''Hello, '') s2 = Some s3" "ok s3" "view s3 = fold emit (msg ''Hello, '') (view s2)"
    using puts_plain [OF s2(4) q(3,4)] by blast
  obtain s4 where s4: "ece391_fdputs os 1 name s3 = Some s4" "view s4 = fold emit name (view s3)" "ok s4"
    using puts_plain [OF s3(2) _ assms(6)] assms(4) by auto
  have n: "unat (of_nat (length name) :: i32) = length name" "(of_nat (length name) :: i32) \<noteq> -1"
    using assms(4) by (auto simp: unat_of_nat_small unat_neg_one dest!: arg_cong [of _ _ unat])
  have "hello os buf s = Some (0, s4)"
    unfolding hello_def using s1(1) s2 s3(1) s4(1) n by (simp del: upd_opt_eq_Some)
  then show ?thesis using s3(3) s4(2,3) by (metis fold_append o_apply)
qed

end

section \<open>What a program has written\<close>

text \<open>A screen keeps only the last 25 lines. \<open>logged os\<close> is the system \<open>os\<close> with a record, beside its state, of every
  byte that the calls of \<^verbatim>\<open>write\<close> on the standard output have accepted; it does nothing else.\<close>

definition log_call :: "('s \<Rightarrow> (i32 \<times> 's) option) \<Rightarrow> u8 list \<times> 's \<Rightarrow> (i32 \<times> u8 list \<times> 's) option" where
  "log_call f = (\<lambda>(out, s). do { (r, s) \<leftarrow> f s; Some (r, out, s) })"

definition log_read :: "('s \<Rightarrow> (i32 \<times> u8 list \<times> 's) option) \<Rightarrow> u8 list \<times> 's \<Rightarrow> (i32 \<times> u8 list \<times> u8 list \<times> 's) option" where
  "log_read f = (\<lambda>(out, s). do { (r, buf, s) \<leftarrow> f s; Some (r, buf, out, s) })"

definition logged :: "'s os \<Rightarrow> (u8 list \<times> 's) os" where
  "logged os = \<lparr>
     os_open = (\<lambda>str. log_call (os_open os str)),
     os_close = (\<lambda>fd. log_call (os_close os fd)),
     os_read = (\<lambda>fd buf n. log_read (os_read os fd buf n)),
     os_write = (\<lambda>fd buf n (out, s). do {
       (r, s) \<leftarrow> os_write os fd buf n s;
       Some (r, if fd = 1 \<and> r \<noteq> -1 then out @ take (unat r) buf else out, s)
     }),
     os_getargs = (\<lambda>buf n. log_read (os_getargs os buf n)),
     os_execute = (\<lambda>str. log_call (os_execute os str)),
     os_create = (\<lambda>str. log_call (os_create os str)),
     os_delete = (\<lambda>str. log_call (os_delete os str)),
     os_vidmap = (\<lambda>p. log_call (os_vidmap os p)),
     os_call = (\<lambda>n. log_call (os_call os n))\<rparr>"

text \<open>Leaving the record out of a run gives the run of the system itself.\<close>

lemma logged_fdputs:
  "ece391_fdputs (logged os) fd str (out, s) = Some (out', s') \<Longrightarrow> ece391_fdputs os fd str s = Some s'"
  by (auto simp: ece391_fdputs_def logged_def bind_eq_Some_conv)

lemma logged_counting:
  "for_opt (count_step (logged os)) is (buf, out, s) = Some (buf', out', s') \<Longrightarrow>
    for_opt (count_step os) is (buf, s) = Some (buf', s')"
proof (induction "is" arbitrary: buf out s)
  case (Cons i "is")
  then obtain buf1 out1 s1 where "count_step (logged os) i (buf, out, s) = Some (buf1, out1, s1)"
    "for_opt (count_step (logged os)) is (buf1, out1, s1) = Some (buf', out', s')"
    by (auto simp: bind_eq_Some_conv)
  moreover from this(1) have "count_step os i (buf, s) = Some (buf1, s1)"
    by (fastforce simp: count_step_def bind_eq_Some_conv dest: logged_fdputs)
  ultimately show ?case using Cons.IH by simp
qed simp

lemma logged_counter:
  assumes "counter (logged os) buf (out, s) = Some (r, out', s')"
  shows "counter os buf s = Some (r, s')"
proof -
  let ?q = "UserProgs.line_of ''Enter the Test Number: (0): 100, (1): 10000, (2): 100000''"
  obtain out1 s1 cnt buf1 s2 where s1: "ece391_fdputs (logged os) 1 ?q (out, s) = Some (out1, s1)"
    and s2: "os_read os 0 buf 1023 s1 = Some (cnt, buf1, s2)"
    and rest: "(if cnt = -1 then do { s \<leftarrow> ece391_fdputs (logged os) 1 (msg ''Can'' @ [39] @ UserProgs.line_of ''t read the number from keyboard.'') (out1, s2); Some (3, s) }
     else do {
       buf \<leftarrow> upd_opt buf1 (unat cnt) 0;
       str \<leftarrow> string_in buf;
       c \<leftarrow> nth_opt buf 0;
       if wrong_choice str c then do { s \<leftarrow> ece391_fdputs (logged os) 1 (UserProgs.line_of ''Wrong Choice!'') (out1, s2); Some (0, s) }
       else do {
         (_, s) \<leftarrow> for_opt (count_step (logged os)) [0..<unat (counter_max c)] (buf, out1, s2);
         Some (0, s)
       }
     }) = Some (r, out', s')"
    using assms unfolding counter_def by (auto simp: bind_eq_Some_conv logged_def log_read_def)
  have "(if cnt = -1 then do { s \<leftarrow> ece391_fdputs os 1 (msg ''Can'' @ [39] @ UserProgs.line_of ''t read the number from keyboard.'') s2; Some (3, s) }
     else do {
       buf \<leftarrow> upd_opt buf1 (unat cnt) 0;
       str \<leftarrow> string_in buf;
       c \<leftarrow> nth_opt buf 0;
       if wrong_choice str c then do { s \<leftarrow> ece391_fdputs os 1 (UserProgs.line_of ''Wrong Choice!'') s2; Some (0, s) }
       else do {
         (_, s) \<leftarrow> for_opt (count_step os) [0..<unat (counter_max c)] (buf, s2);
         Some (0, s)
       }
     }) = Some (r, s')"
    using rest by (fastforce simp: bind_eq_Some_conv simp del: upd_opt_eq_Some nth_opt_eq_Some upt_rec_numeral
        split: if_splits dest: logged_fdputs logged_counting)
  then show ?thesis unfolding counter_def using logged_fdputs [OF s1] s2 by simp
qed

text \<open>What \<^verbatim>\<open>counter\<close> asks, and what it prints for a line.\<close>

definition counter_question :: "u8 list" where
  "counter_question = UserProgs.line_of ''Enter the Test Number: (0): 100, (1): 10000, (2): 100000''"

definition counter_answer :: "u8 list \<Rightarrow> u8 list" where
  "counter_answer l =
     (if length l > 2 \<or> length l = 2 \<and> (l ! 0 < 48 \<or> l ! 0 > 50) then UserProgs.line_of ''Wrong Choice!''
      else if l = [] then []
      else counted (if l ! 0 = 48 then 100 else if l ! 0 = 49 then 10000 else if l ! 0 = 50 then 100000 else 0))"

lemma counter_answer_def':
  "counter_answer l = (if wrong_choice l ((l @ [0]) ! 0) then UserProgs.line_of ''Wrong Choice!''
     else counted (unat (counter_max ((l @ [0]) ! 0))))"
  by (cases l) (auto simp: counter_answer_def wrong_choice_def counter_max_def counted_def)

section \<open>A program that counts\<close>

text \<open>The bytes written so far, as \<open>logged\<close> keeps them.\<close>

locale written_os = prompt_os +
  fixes written :: "'a \<Rightarrow> u8 list"
  assumes written_print: "os_write os 1 str n s = Some (of_nat (length str), s') \<Longrightarrow> length str \<le> 4096 \<Longrightarrow> written s' = written s @ str"
    and written_read: "os_read os fd buf n s = Some (r, buf', s') \<Longrightarrow> written s' = written s"
begin

lemma puts_written:
  assumes "ok s" "length str \<le> 4096" "plain_text str"
  shows "\<exists>s'. ece391_fdputs os 1 str s = Some s' \<and> ok s' \<and> view s' = fold emit str (view s) \<and> written s' = written s @ str"
  using prints [of s str] written_print [of str _ s] assms unfolding ece391_fdputs_def plain_text_def by force

lemma count_step_prints:
  assumes "ok s" "length buf = 1024"
  shows "\<exists>buf' s'. count_step os i (buf, s) = Some (buf', s') \<and> length buf' = 1024 \<and> ok s' \<and>
    view s' = fold emit (number_string 10 (unat (of_nat i + 1 :: u32)) @ [newline]) (view s) \<and>
    written s' = written s @ number_string 10 (unat (of_nat i + 1 :: u32)) @ [newline]"
proof -
  let ?str = "number_string 10 (unat (of_nat i + 1 :: u32))"
  obtain buf' where b: "itoa_buf (of_nat i + 1) buf = Some buf'" "length buf' = 1024" "string_in buf' = Some ?str"
    using itoa_buf_string [of buf "of_nat i + 1"] assms(2) by auto
  have n: "length ?str \<le> 32"
    using length_digits_of [of 10 "unat (of_nat i + 1 :: u32)" 32] unat_u32_less [of "of_nat i + 1"] by (simp add: number_string_def)
  have p: "plain_text ?str" by (rule number_plain) simp_all
  obtain s1 where s1: "ece391_fdputs os 1 ?str s = Some s1" "ok s1" "view s1 = fold emit ?str (view s)" "written s1 = written s @ ?str"
    using puts_written [OF assms(1) _ p] n by auto
  obtain s2 where s2: "ece391_fdputs os 1 [newline] s1 = Some s2" "ok s2" "view s2 = fold emit [newline] (view s1)"
    "written s2 = written s1 @ [newline]" using puts_written [OF s1(2), of "[newline]"] by (auto simp: plain_text_def)
  have "count_step os i (buf, s) = Some (buf', s2)"
    unfolding count_step_def using b(1,3) s1(1) s2(1) by simp
  then show ?thesis using s2 s1(3,4) b(2) by simp
qed

lemma counting_prints:
  assumes "ok s" "length buf = 1024" "n < 2 ^ 32"
  shows "\<exists>buf' s'. for_opt (count_step os) [0..<n] (buf, s) = Some (buf', s') \<and> length buf' = 1024 \<and> ok s' \<and>
    view s' = fold emit (counted n) (view s) \<and> written s' = written s @ counted n"
  using assms(3)
proof (induction n)
  case 0
  then show ?case using assms by (simp add: counted_def)
next
  case (Suc n)
  then obtain buf1 s1 where s1: "for_opt (count_step os) [0..<n] (buf, s) = Some (buf1, s1)" "length buf1 = 1024" "ok s1"
    "view s1 = fold emit (counted n) (view s)" "written s1 = written s @ counted n" by auto
  have "unat (of_nat n + 1 :: u32) = Suc n"
  proof -
    have "(of_nat n + 1 :: u32) = of_nat (Suc n)" by simp
    then show ?thesis using Suc.prems unat_of_nat_small [of "Suc n"] by (simp only:)
  qed
  then show ?case using count_step_prints [OF s1(3,2), of n] s1(1,4,5)
    by (fastforce simp: for_opt_append counted_def)
qed

lemma counter_counts:
  assumes "ok s" "asked l s" "length buf = 1024" "length l \<le> 1022" "0 \<notin> set l"
  shows "\<exists>v s'. counter os buf s = Some (0, s') \<and> ok s' \<and> view s' = fold emit (counter_answer l) v \<and>
    written s' = written s @ counter_question @ counter_answer l"
proof -
  let ?c = "(l @ [0]) ! 0"
  have q: "length counter_question \<le> 4096" "plain_text counter_question"
    "length (UserProgs.line_of ''Wrong Choice!'') \<le> 4096" "plain_text (UserProgs.line_of ''Wrong Choice!'')"
    unfolding counter_question_def UserProgs.line_of_def msg_def plain_text_def by code_simp+
  obtain s1 where s1: "ece391_fdputs os 1 counter_question s = Some s1" "ok s1" "written s1 = written s @ counter_question"
    using puts_written [OF assms(1) q(1,2)] by blast
  have a: "asked l s1" by (rule puts_asked [OF s1(1) assms(1,2) q(1)])
  obtain buf1 buf2 s2 where s2: "os_read os 0 buf 1023 s1 = Some (of_nat (length l), buf1, s2)" "upd_opt buf1 (length l) 0 = Some buf2"
    "string_in buf2 = Some l" "length buf2 = 1024" "nth_opt buf2 0 = Some ?c" "ok s2"
    using answer_string [OF s1(2) a assms(3,4,5)] by blast
  have n: "unat (of_nat (length l) :: i32) = length l" "(of_nat (length l) :: i32) \<noteq> -1"
    using assms(4) by (auto simp: unat_of_nat_small unat_neg_one dest!: arg_cong [of _ _ unat])
  note w2 = written_read [OF s2(1)]
  show ?thesis
  proof (cases "wrong_choice l ?c")
    case True
    obtain s3 where s3: "ece391_fdputs os 1 (UserProgs.line_of ''Wrong Choice!'') s2 = Some s3" "ok s3"
      "view s3 = fold emit (UserProgs.line_of ''Wrong Choice!'') (view s2)"
      "written s3 = written s2 @ UserProgs.line_of ''Wrong Choice!''"
      using puts_written [OF s2(6) q(3,4)] by blast
    have "counter os buf s = Some (0, s3)"
      unfolding counter_def using s1(1) s2 s3(1) n True by (simp add: counter_question_def del: upd_opt_eq_Some nth_opt_eq_Some)
    then show ?thesis using s3 w2 s1(3) True by (auto simp: counter_answer_def')
  next
    case False
    have "unat (counter_max ?c) < 2 ^ 32" by (rule unat_u32_less)
    then obtain buf3 s3 where s3: "for_opt (count_step os) [0..<unat (counter_max ?c)] (buf2, s2) = Some (buf3, s3)"
      "ok s3" "view s3 = fold emit (counted (unat (counter_max ?c))) (view s2)"
      "written s3 = written s2 @ counted (unat (counter_max ?c))"
      using counting_prints [OF s2(6,4)] by blast
    have "counter os buf s = Some (0, s3)"
      unfolding counter_def using s1(1) s2 s3(1) n False
      by (simp add: counter_question_def del: upt_rec_numeral upd_opt_eq_Some nth_opt_eq_Some)
    then show ?thesis using s3(2-4) w2 s1(3) False by (auto simp: counter_answer_def')
  qed
qed

end

section \<open>The kernel answers\<close>

text \<open>The user presses the keys \<open>codes\<close> and Enter while the program waits: that is the line \<open>l\<close>.\<close>

definition types_line :: "u8 list \<Rightarrow> u8 list \<Rightarrow> kstate \<Rightarrow> bool" where
  "types_line codes l s \<longleftrightarrow> line_ready s \<and> list_all typing_key codes \<and> l = l_text (fold edit_key codes (shown_line s))"

interpretation kernel_prompt: prompt_os "kernel_os env (map press (codes @ [SC_ENTER])) (user_at off)" "user_ok i b off"
    "types_line codes" "console_of b" abs_putc for env codes i b off
proof (unfold_locales, goal_cases)
  case (1 s str)
  then show ?case using kernel_prints [of i b off s str env "map press (codes @ [SC_ENTER])"] by metis
next
  case (2 s l str n r s')
  then show ?case using kernel_write_line [OF 2(4,1,3)] by (simp add: types_line_def)
next
  case (3 s l buf)
  then show ?case using kernel_read_line [of i b off s codes l buf env] by (simp add: types_line_def del: map_append list.map)
qed

text \<open>C11: \<^verbatim>\<open>hello\<close> on the kernel: the user types a name while the program waits, and the screen then ends with the
  greeting and exactly that name; the program returns 0.\<close>

theorem hello_greets_user:
  assumes "user_ok i b off s" "types_line codes name s" "length buf = 1024" "length name \<le> 1022" "0 \<notin> set name" "plain_text name"
  shows "\<exists>v s'. hello (kernel_os env (map press (codes @ [SC_ENTER])) (user_at off)) buf s = Some (0, s') \<and>
    user_ok i b off s' \<and> console_of b s' = fold abs_putc (msg ''Hello, '' @ name) v"
  using kernel_prompt.hello_greets [OF assms] by blast

interpretation kernel_written: written_os "logged (kernel_os env (map press (codes @ [SC_ENTER])) (user_at off))" "user_ok i b off \<circ> snd"
    "\<lambda>l. types_line codes l \<circ> snd" "console_of b \<circ> snd" abs_putc fst for env codes i b off
proof (unfold_locales, goal_cases)
  case (1 s str)
  then show ?case using kernel_prompt.prints [of i b off "snd s" str env codes]
    by (auto simp: logged_def split: prod.splits)
next
  case (2 s l str n r s')
  then show ?case using kernel_prompt.print_asked [of i b off "snd s" codes l str env n r "snd s'"]
    by (auto simp: logged_def bind_eq_Some_conv split: prod.splits)
next
  case (3 s l buf)
  then show ?case using kernel_prompt.answers [of i b off "snd s" codes l buf env]
    by (force simp: logged_def log_read_def split: prod.splits simp del: map_append list.map)
next
  case (4 str n s s')
  have "unat (of_nat (length str) :: i32) = length str" "(of_nat (length str) :: i32) \<noteq> -1"
    using 4(2) by (auto simp: unat_of_nat_small unat_neg_one dest!: arg_cong [of _ _ unat])
  then show ?case using 4(1) by (auto simp: logged_def bind_eq_Some_conv split: prod.splits)
next
  case (5 fd buf n s r buf' s')
  then show ?case by (auto simp: logged_def log_read_def bind_eq_Some_conv split: prod.splits)
qed

text \<open>C12: \<^verbatim>\<open>counter\<close> on the kernel, with every byte it writes to the standard output recorded: the user answers the
  question with a line. A line of more than two characters, or of two of which the first is not one of the digits 0,
  1 and 2, is refused with the message of the program. Otherwise the first character alone decides, and the program
  writes, after the question, exactly the numbers from 1 up to 100, 10000 or 100000, in decimal, one in each line; an
  empty line, or a single character that is none of the three digits, is not refused, and nothing is written. In each case the
  program returns 0 and the screen ends with what was written after the line was read.\<close>

theorem counter_counts_up:
  assumes "user_ok i b off s" "types_line codes l s" "length buf = 1024" "length l \<le> 1022" "0 \<notin> set l"
  shows "\<exists>v s'. counter (kernel_os env (map press (codes @ [SC_ENTER])) (user_at off)) buf s = Some (0, s') \<and>
    counter (logged (kernel_os env (map press (codes @ [SC_ENTER])) (user_at off))) buf ([], s) =
      Some (0, counter_question @ counter_answer l, s') \<and>
    user_ok i b off s' \<and> console_of b s' = fold abs_putc (counter_answer l) v"
proof -
  obtain v s' where s': "counter (logged (kernel_os env (map press (codes @ [SC_ENTER])) (user_at off))) buf ([], s) = Some (0, s')"
    "user_ok i b off (snd s')" "console_of b (snd s') = fold abs_putc (counter_answer l) v"
    "fst s' = counter_question @ counter_answer l"
    using kernel_written.counter_counts [of i b off "([], s)" codes l buf env] assms by (auto simp del: map_append list.map)
  then have "s' = (counter_question @ counter_answer l, snd s')" by (simp add: prod_eq_iff)
  then show ?thesis using s' logged_counter [of _ buf "[]" s 0] by metis
qed

text \<open>The keys of \<^verbatim>\<open>hi\<close> and of \<^verbatim>\<open>0\<close>, with the sample process.\<close>

lemma user_line:
  "line_ready user_state" "shown_line user_state = \<lparr>l_shift = False, l_ctrl = False, l_text = [], l_entered = True, l_stop = False\<rparr>"
proof -
  have "edit_view user_state = edit_view sample_state"
    by (simp add: edit_view_def inputs_def user_state_def map_mmu_def child_state_def)
  note v = line_ready_view [OF this]
  show "line_ready user_state" using v(1) sample_ready by (simp add: line_ready_def ready_def sample_input_ok)
  show "shown_line user_state = \<lparr>l_shift = False, l_ctrl = False, l_text = [], l_entered = True, l_stop = False\<rparr>"
    using v(2) sample_input_ok(2) by simp
qed

lemma typed_samples: "types_line [0x23, 0x17] [104, 105] user_state" "types_line [0x0B] [48] user_state"
proof -
  have vis: "visible 0x23" "visible 0x17" "visible 0x0B" by (simp_all add: visible_def visible_scancode_map_def)
  then show "types_line [0x23, 0x17] [104, 105] user_state" "types_line [0x0B] [48] user_state"
    using user_line by (simp_all add: types_line_def typing_key_def edit_key_def type_char_def key_char_def
        visible_scancode_map_def of_char_def)
qed

theorem hello_greets_user_witness:
  "\<exists>v s'. hello (kernel_os plain_env (map press ([0x23, 0x17] @ [SC_ENTER])) 0x8001000) (replicate 1024 7) user_state = Some (0, s') \<and>
    user_ok 3 0xB8000 0x1000 s' \<and> console_of 0xB8000 s' = fold abs_putc (msg ''Hello, '' @ [104, 105]) v"
  using hello_greets_user [OF user_state_ok typed_samples(1), of "replicate 1024 7" plain_env] by (simp add: plain_text_def del: map_append list.map)

theorem counter_counts_up_witness:
  "\<exists>v s'. counter (logged (kernel_os plain_env (map press ([0x0B] @ [SC_ENTER])) 0x8001000)) (replicate 1024 7) ([], user_state) =
      Some (0, counter_question @ counted 100, s') \<and>
    user_ok 3 0xB8000 0x1000 s' \<and> console_of 0xB8000 s' = fold abs_putc (counted 100) v"
proof -
  have "counter_answer [48] = counted 100" by (simp add: counter_answer_def)
  then show ?thesis
    using counter_counts_up [OF user_state_ok typed_samples(2), of "replicate 1024 7" plain_env] by (auto simp del: map_append list.map)
qed

end
