(* ===== verification/Blink.thy ===== *)
theory Blink imports Prelude begin

text \<open>
  The blinking characters of \<^verbatim>\<open>src/fish\<close>: \<^verbatim>\<open>blink.S\<close> keeps a linked list of structures in the array of
  \<^verbatim>\<open>fish.c\<close>, which also allocates and frees them. A pointer to a structure is its index in the array; the screen is
  the memory behind \<^verbatim>\<open>vmem_base_addr\<close>, by its offset.
\<close>

section \<open>The structures\<close>

text \<open>\<^verbatim>\<open>struct mp1_blink_struct\<close>, without and with its link.\<close>

record blink =
  b_location :: u16
  b_on_char :: u8
  b_off_char :: u8
  b_on_length :: u16
  b_off_length :: u16
  b_countdown :: u16
  b_status :: u16

record mp1_blink_struct = blink +
  b_next :: "nat option"

definition zero_blink :: mp1_blink_struct where
  "zero_blink = \<lparr>b_location = 0, b_on_char = 0, b_off_char = 0, b_on_length = 0, b_off_length = 0,
     b_countdown = 0, b_status = 0, b_next = None\<rparr>"

record blink_mem =
  blink_array :: "mp1_blink_struct list"
  mp1_list_head :: "nat option"
  screen_mem :: "u32 \<Rightarrow> u8"

abbreviation BLINK_COUNT :: nat where "BLINK_COUNT \<equiv> 80 * 25"

definition update_blink :: "nat \<Rightarrow> (mp1_blink_struct \<Rightarrow> mp1_blink_struct) \<Rightarrow> blink_mem \<Rightarrow> blink_mem" where
  "update_blink i f m = m\<lparr>blink_array := (blink_array m)[i := f (blink_array m ! i)]\<rparr>"

section \<open>Memory\<close>

definition mp1_malloc :: "blink_mem \<Rightarrow> nat option" where
  "mp1_malloc m = List.find (\<lambda>i. b_location (blink_array m ! i) = 0) [0..<BLINK_COUNT]"

definition mp1_free :: "nat \<Rightarrow> blink_mem \<Rightarrow> blink_mem" where
  "mp1_free i = update_blink i (\<lambda>_. zero_blink)"

definition mp1_poke :: "u8 \<Rightarrow> u32 \<Rightarrow> blink_mem \<Rightarrow> blink_mem" where
  "mp1_poke cl eax m = m\<lparr>screen_mem := (screen_mem m)(eax := cl)\<rparr>"

text \<open>The offset of a location, two bytes for each character.\<close>

definition cell_of :: "u16 \<Rightarrow> u32" where
  "cell_of loc = push_bit 1 (ucast loc)"

section \<open>The tick\<close>

text \<open>One structure at a tick, and the character to be shown, if any.\<close>

definition blink_tick :: "'a blink_scheme \<Rightarrow> 'a blink_scheme \<times> u8 option" where
  "blink_tick b =
     (let b = b\<lparr>b_countdown := b_countdown b - 1\<rparr> in
      if sint (b_countdown b) > 0 then (b, None)
      else if b_status b AND 1 = 0 then (b\<lparr>b_countdown := b_on_length b, b_status := b_status b XOR 1\<rparr>, Some (b_on_char b))
      else (b\<lparr>b_countdown := b_off_length b, b_status := b_status b XOR 1\<rparr>, Some (b_off_char b)))"

definition tick_one :: "nat \<Rightarrow> blink_mem \<Rightarrow> blink_mem" where
  "tick_one i m =
     (let (b, c) = blink_tick (blink_array m ! i); m = update_blink i (\<lambda>_. b) m in
      case c of None \<Rightarrow> m | Some c \<Rightarrow> mp1_poke c (cell_of (b_location b)) m)"

partial_function (option) tasklet_loop :: "nat option \<Rightarrow> blink_mem \<Rightarrow> blink_mem option" where
  "tasklet_loop p m =
     (case p of
        None \<Rightarrow> Some m
      | Some i \<Rightarrow> do {
          _ \<leftarrow> nth_opt (blink_array m) i;
          let m = tick_one i m;
          tasklet_loop (b_next (blink_array m ! i)) m
        })"

definition mp1_rtc_tasklet :: "blink_mem \<Rightarrow> blink_mem option" where
  "mp1_rtc_tasklet m = tasklet_loop (mp1_list_head m) m"

section \<open>The requests\<close>

partial_function (option) find_loop :: "u16 \<Rightarrow> nat option \<Rightarrow> blink_mem \<Rightarrow> nat option option" where
  "find_loop loc p m =
     (case p of
        None \<Rightarrow> Some None
      | Some i \<Rightarrow> do {
          b \<leftarrow> nth_opt (blink_array m) i;
          if b_location b = loc then Some (Some i) else find_loop loc (b_next b) m
        })"

definition mp1_find_helper :: "u16 \<Rightarrow> blink_mem \<Rightarrow> nat option option" where
  "mp1_find_helper loc m = find_loop loc (mp1_list_head m) m"

text \<open>The structure on the stack is the user's with the status set and the countdown started.\<close>

definition mp1_ioctl_add :: "blink \<Rightarrow> blink_mem \<Rightarrow> i32 \<times> blink_mem" where
  "mp1_ioctl_add user m =
     (if b_location user \<ge> of_nat BLINK_COUNT then (-1, m)
      else let temp = user\<lparr>b_status := 1, b_countdown := b_on_length user\<rparr> in
        case mp1_malloc m of
          None \<Rightarrow> (-1, m)
        | Some i \<Rightarrow>
            (let m = update_blink i (\<lambda>_. blink.extend temp \<lparr>b_next = mp1_list_head m\<rparr>) m;
                 m = m\<lparr>mp1_list_head := Some i\<rparr>
             in (0, mp1_poke (b_on_char temp) (cell_of (b_location temp)) m)))"

text \<open>The cell that points to structure \<open>i\<close>: the head of the list or the link of a structure.\<close>

definition link_value :: "nat option \<Rightarrow> blink_mem \<Rightarrow> nat option option" where
  "link_value cell m = (case cell of None \<Rightarrow> Some (mp1_list_head m) | Some j \<Rightarrow> map_option b_next (nth_opt (blink_array m) j))"

definition set_link :: "nat option \<Rightarrow> nat option \<Rightarrow> blink_mem \<Rightarrow> blink_mem" where
  "set_link cell v m = (case cell of None \<Rightarrow> m\<lparr>mp1_list_head := v\<rparr> | Some j \<Rightarrow> update_blink j (\<lambda>b. b\<lparr>b_next := v\<rparr>) m)"

partial_function (option) remove_find_prev :: "nat \<Rightarrow> nat option \<Rightarrow> blink_mem \<Rightarrow> nat option option" where
  "remove_find_prev i cell m = do {
     p \<leftarrow> link_value cell m;
     if p = Some i then Some cell
     else do { j \<leftarrow> p; remove_find_prev i (Some j) m }
   }"

definition mp1_ioctl_remove :: "u32 \<Rightarrow> blink_mem \<Rightarrow> (i32 \<times> blink_mem) option" where
  "mp1_ioctl_remove arg m = do {
     found \<leftarrow> mp1_find_helper (ucast arg) m;
     case found of
       None \<Rightarrow> Some (-1, m)
     | Some i \<Rightarrow> do {
         cell \<leftarrow> remove_find_prev i None m;
         Some (0, mp1_free i (set_link cell (b_next (blink_array m ! i)) m))
       }
   }"

text \<open>The structure found, for the user's buffer.\<close>

definition mp1_ioctl_find :: "u16 \<Rightarrow> blink_mem \<Rightarrow> (i32 \<times> mp1_blink_struct option) option" where
  "mp1_ioctl_find loc m = do {
     found \<leftarrow> mp1_find_helper loc m;
     Some (case found of None \<Rightarrow> (-1, None) | Some i \<Rightarrow> (0, Some (blink_array m ! i)))
   }"

text \<open>\<^verbatim>\<open>cmovl\<close> after \<^verbatim>\<open>testb $0x1\<close> never moves: neither the sign nor the overflow flag can be set. So the character
  of the off phase is shown.\<close>

definition mp1_ioctl_sync :: "u32 \<Rightarrow> blink_mem \<Rightarrow> (i32 \<times> blink_mem) option" where
  "mp1_ioctl_sync arg m = do {
     src \<leftarrow> mp1_find_helper (ucast (drop_bit 16 arg)) m;
     case src of
       None \<Rightarrow> Some (-1, m)
     | Some i \<Rightarrow> do {
         dst \<leftarrow> mp1_find_helper (ucast (arg AND 0xFFFF)) m;
         case dst of
           None \<Rightarrow> Some (-1, m)
         | Some j \<Rightarrow> do {
             let s = blink_array m ! i;
             let m = update_blink j (\<lambda>d. d\<lparr>b_on_length := b_on_length s, b_off_length := b_off_length s,
               b_countdown := b_countdown s, b_status := b_status s\<rparr>) m;
             let d = blink_array m ! j;
             Some (0, mp1_poke (b_off_char d) (cell_of (b_location d)) m)
           }
       }
   }"

text \<open>\<^verbatim>\<open>mp1_ioctl(arg, cmd)\<close> with the argument that the command takes.\<close>

datatype request = RTC_ADD blink | RTC_REMOVE u32 | RTC_FIND u16 | RTC_SYNC u32

fun mp1_ioctl :: "request \<Rightarrow> blink_mem \<Rightarrow> (i32 \<times> blink_mem) option" where
  "mp1_ioctl (RTC_ADD b) m = Some (mp1_ioctl_add b m)"
| "mp1_ioctl (RTC_REMOVE arg) m = mp1_ioctl_remove arg m"
| "mp1_ioctl (RTC_FIND loc) m = do { (r, _) \<leftarrow> mp1_ioctl_find loc m; Some (r, m) }"
| "mp1_ioctl (RTC_SYNC arg) m = mp1_ioctl_sync arg m"

section \<open>The reference: a list of blinks\<close>

text \<open>The first blink at a location is the one that the requests mean.\<close>

fun update_first :: "('a \<Rightarrow> bool) \<Rightarrow> ('a \<Rightarrow> 'a) \<Rightarrow> 'a list \<Rightarrow> 'a list" where
  "update_first P f [] = []"
| "update_first P f (x # xs) = (if P x then f x # xs else x # update_first P f xs)"

fun remove_first :: "('a \<Rightarrow> bool) \<Rightarrow> 'a list \<Rightarrow> 'a list" where
  "remove_first P [] = []"
| "remove_first P (x # xs) = (if P x then xs else x # remove_first P xs)"

definition at_loc :: "u16 \<Rightarrow> blink \<Rightarrow> bool" where
  "at_loc loc b \<longleftrightarrow> b_location b = loc"

definition spec_tick :: "blink list \<Rightarrow> (u32 \<Rightarrow> u8) \<Rightarrow> blink list \<times> (u32 \<Rightarrow> u8)" where
  "spec_tick bs v = (map (\<lambda>b. fst (blink_tick b)) bs,
     fold (\<lambda>b v. case snd (blink_tick b) of None \<Rightarrow> v | Some c \<Rightarrow> v(cell_of (b_location b) := c)) bs v)"

fun spec_ioctl :: "request \<Rightarrow> blink list \<Rightarrow> (u32 \<Rightarrow> u8) \<Rightarrow> i32 \<times> blink list \<times> (u32 \<Rightarrow> u8)" where
  "spec_ioctl (RTC_ADD b) bs v =
     (if b_location b \<ge> of_nat BLINK_COUNT \<or> length bs = BLINK_COUNT then (-1, bs, v)
      else (0, b\<lparr>b_status := 1, b_countdown := b_on_length b\<rparr> # bs, v(cell_of (b_location b) := b_on_char b)))"
| "spec_ioctl (RTC_REMOVE arg) bs v =
     (if \<exists>b \<in> set bs. at_loc (ucast arg) b then (0, remove_first (at_loc (ucast arg)) bs, v) else (-1, bs, v))"
| "spec_ioctl (RTC_FIND loc) bs v = (if \<exists>b \<in> set bs. at_loc loc b then 0 else -1, bs, v)"
| "spec_ioctl (RTC_SYNC arg) bs v =
     (case (List.find (at_loc (ucast (drop_bit 16 arg))) bs, List.find (at_loc (ucast (arg AND 0xFFFF))) bs) of
        (Some s, Some d) \<Rightarrow>
          (0, update_first (at_loc (ucast (arg AND 0xFFFF))) (\<lambda>d. d\<lparr>b_on_length := b_on_length s, b_off_length := b_off_length s,
             b_countdown := b_countdown s, b_status := b_status s\<rparr>) bs, v(cell_of (b_location d) := b_off_char d))
      | _ \<Rightarrow> (-1, bs, v))"

section \<open>The chain in the array\<close>

fun chain :: "mp1_blink_struct list \<Rightarrow> nat option \<Rightarrow> nat list \<Rightarrow> bool" where
  "chain A p [] \<longleftrightarrow> p = None"
| "chain A p (i # is) \<longleftrightarrow> p = Some i \<and> i < length A \<and> chain A (b_next (A ! i)) is"

text \<open>The used structures are exactly those of the chain.\<close>

definition chained :: "blink_mem \<Rightarrow> nat list \<Rightarrow> bool" where
  "chained m is \<longleftrightarrow> length (blink_array m) = BLINK_COUNT \<and> chain (blink_array m) (mp1_list_head m) is \<and> distinct is \<and>
     (\<forall>i < BLINK_COUNT. b_location (blink_array m ! i) \<noteq> 0 \<longleftrightarrow> i \<in> set is)"

definition blinks_at :: "blink_mem \<Rightarrow> nat list \<Rightarrow> blink list" where
  "blinks_at m is = map (\<lambda>i. blink.truncate (blink_array m ! i)) is"

definition represents :: "blink_mem \<Rightarrow> blink list \<Rightarrow> bool" where
  "represents m bs \<longleftrightarrow> (\<exists>is. chained m is \<and> bs = blinks_at m is)"

lemma chain_bound: "chain A p is \<Longrightarrow> i \<in> set is \<Longrightarrow> i < length A"
  by (induction A p "is" rule: chain.induct) auto

lemma chain_links:
  "chain A p is \<Longrightarrow> length A' = length A \<Longrightarrow> (\<And>i. i \<in> set is \<Longrightarrow> b_next (A' ! i) = b_next (A ! i)) \<Longrightarrow> chain A' p is"
  by (induction A p "is" rule: chain.induct) auto

lemma chain_outside: "chain A p is \<Longrightarrow> i \<notin> set is \<Longrightarrow> chain (A[i := b]) p is"
  by (erule chain_links) (simp, metis nth_list_update_neq)

lemma chain_append: "chain A p (xs @ i # ys) \<Longrightarrow> chain A (b_next (A ! i)) ys"
  by (induction xs arbitrary: p) auto

lemma truncate_simps [simp]:
  "b_location (blink.truncate b) = b_location b" "b_on_char (blink.truncate b) = b_on_char b"
  "b_off_char (blink.truncate b) = b_off_char b" "b_on_length (blink.truncate b) = b_on_length b"
  "b_off_length (blink.truncate b) = b_off_length b" "b_countdown (blink.truncate b) = b_countdown b"
  "b_status (blink.truncate b) = b_status b" "blink.truncate (t :: blink) = t"
  by (simp_all add: blink.truncate_def)

lemma truncate_links [simp]: "blink.truncate (b\<lparr>b_next := v\<rparr>) = blink.truncate b"
  "blink.truncate (blink.extend t e) = t"
  by (simp_all add: blink.truncate_def blink.extend_def)

lemma chainedD:
  assumes "chained m is"
  shows "length (blink_array m) = BLINK_COUNT" "chain (blink_array m) (mp1_list_head m) is" "distinct is"
    "i \<in> set is \<Longrightarrow> i < BLINK_COUNT \<and> b_location (blink_array m ! i) \<noteq> 0"
    "i < BLINK_COUNT \<Longrightarrow> i \<notin> set is \<Longrightarrow> b_location (blink_array m ! i) = 0"
  using assms chain_bound [of "blink_array m" "mp1_list_head m" "is" i] unfolding chained_def by auto

lemma distinct_full:
  assumes "distinct is" "set is \<subseteq> {..<n}"
  shows "length is \<le> n \<and> (length is = n \<longleftrightarrow> set is = {..<n})"
proof -
  have l: "length is = card (set is)" using distinct_card [OF assms(1)] by simp
  have "card (set is) \<le> n" using card_mono [OF finite_lessThan assms(2)] by simp
  moreover have "set is = {..<n}" if "card (set is) = n" using card_subset_eq [OF finite_lessThan assms(2)] that by simp
  moreover have "card (set is) = n" if "set is = {..<n}" using that by simp
  ultimately show ?thesis unfolding l by blast
qed

lemma chained_full: "chained m is \<Longrightarrow> length is \<le> BLINK_COUNT \<and> (length is = BLINK_COUNT \<longleftrightarrow> set is = {..<BLINK_COUNT})"
  by (rule distinct_full) (use chainedD(3,4) in blast)+

section \<open>Walking the chain\<close>

lemma find_loop_chain:
  "chain (blink_array m) p is \<Longrightarrow>
   find_loop loc p m = Some (List.find (\<lambda>i. b_location (blink_array m ! i) = loc) is)"
proof (induction "is" arbitrary: p)
  case Nil
  then show ?case by (subst find_loop.simps) simp
next
  case (Cons i "is")
  then show ?case by (subst find_loop.simps) (simp add: nth_opt_Some)
qed

lemma find_helper_chain:
  "chained m is \<Longrightarrow> mp1_find_helper loc m = Some (List.find (\<lambda>i. b_location (blink_array m ! i) = loc) is)"
  unfolding mp1_find_helper_def by (rule find_loop_chain) (rule chainedD(2))

lemma find_blinks:
  "List.find (at_loc loc) (blinks_at m is) =
   map_option (\<lambda>i. blink.truncate (blink_array m ! i)) (List.find (\<lambda>i. b_location (blink_array m ! i) = loc) is)"
  by (induction "is") (simp_all add: blinks_at_def at_loc_def)

lemma find_None_blinks:
  "List.find (\<lambda>i. b_location (blink_array m ! i) = loc) is = None \<longleftrightarrow> \<not> (\<exists>b \<in> set (blinks_at m is). at_loc loc b)"
  by (auto simp: find_None_iff blinks_at_def at_loc_def)

lemma find_split: "List.find P xs = Some x \<Longrightarrow> \<exists>us vs. xs = us @ x # vs \<and> P x \<and> (\<forall>u \<in> set us. \<not> P u)"
proof (induction xs)
  case (Cons y xs)
  show ?case
  proof (cases "P y")
    case True
    then show ?thesis using Cons.prems by (intro exI [of _ "[]"] exI [of _ xs]) simp
  next
    case False
    then obtain us vs where "xs = us @ x # vs" "P x" "\<forall>u \<in> set us. \<not> P u" using Cons by auto
    then show ?thesis using False by (intro exI [of _ "y # us"] exI [of _ vs]) simp
  qed
qed simp

lemma remove_first_split: "\<forall>u \<in> set us. \<not> P u \<Longrightarrow> P x \<Longrightarrow> remove_first P (us @ x # vs) = us @ vs"
  by (induction us) simp_all

lemma update_first_split: "\<forall>u \<in> set us. \<not> P u \<Longrightarrow> P x \<Longrightarrow> update_first P f (us @ x # vs) = us @ f x # vs"
  by (induction us) simp_all

section \<open>The requests on the chain\<close>

lemma malloc_None: "chained m is \<Longrightarrow> mp1_malloc m = None \<longleftrightarrow> length is = BLINK_COUNT"
proof -
  assume c: "chained m is"
  have "mp1_malloc m = None \<longleftrightarrow> (\<forall>i < BLINK_COUNT. i \<in> set is)"
    unfolding mp1_malloc_def find_None_iff using c by (auto simp: chained_def simp del: upt_rec_numeral)
  also have "\<dots> \<longleftrightarrow> set is = {..<BLINK_COUNT}" using chainedD(4) [OF c] by blast
  finally show ?thesis using chained_full [OF c] by blast
qed

lemma malloc_Some: "chained m is \<Longrightarrow> mp1_malloc m = Some i \<Longrightarrow> i < BLINK_COUNT \<and> i \<notin> set is"
  unfolding mp1_malloc_def by (auto simp: find_Some_iff chained_def simp del: upt_rec_numeral)

lemma poke_simps [simp]:
  "blink_array (mp1_poke c e m) = blink_array m" "mp1_list_head (mp1_poke c e m) = mp1_list_head m"
  "screen_mem (mp1_poke c e m) = (screen_mem m)(e := c)"
  by (simp_all add: mp1_poke_def)

lemma update_blink_simps [simp]:
  "blink_array (update_blink i f m) = (blink_array m)[i := f (blink_array m ! i)]"
  "mp1_list_head (update_blink i f m) = mp1_list_head m" "screen_mem (update_blink i f m) = screen_mem m"
  by (simp_all add: update_blink_def)

lemma chained_cong:
  "blink_array m' = blink_array m \<Longrightarrow> mp1_list_head m' = mp1_list_head m \<Longrightarrow> chained m' is = chained m is"
  "blink_array m' = blink_array m \<Longrightarrow> blinks_at m' is = blinks_at m is"
  by (simp_all add: chained_def blinks_at_def)

lemma add_chained:
  assumes c: "chained m is" and loc: "b_location b \<noteq> 0"
  shows "\<exists>r m' is'. mp1_ioctl_add b m = (r, m') \<and> chained m' is' \<and>
    spec_ioctl (RTC_ADD b) (blinks_at m is) (screen_mem m) = (r, blinks_at m' is', screen_mem m')"
proof (cases "b_location b \<ge> of_nat BLINK_COUNT \<or> length is = BLINK_COUNT")
  case True
  then have "mp1_ioctl_add b m = (-1, m)" using malloc_None [OF c] by (auto simp: mp1_ioctl_add_def Let_def simp del: of_nat_numeral)
  then show ?thesis using True c by (auto simp: blinks_at_def)
next
  case False
  let ?t = "b\<lparr>b_status := 1, b_countdown := b_on_length b\<rparr>"
  obtain i where i: "mp1_malloc m = Some i" "i < BLINK_COUNT" "i \<notin> set is"
    using False malloc_None [OF c] malloc_Some [OF c] by (cases "mp1_malloc m") auto
  let ?n = "blink.extend ?t \<lparr>b_next = mp1_list_head m\<rparr>"
  let ?m = "mp1_poke (b_on_char b) (cell_of (b_location b)) ((update_blink i (\<lambda>_. ?n) m)\<lparr>mp1_list_head := Some i\<rparr>)"
  have n: "b_next ?n = mp1_list_head m" "b_location ?n = b_location b" "blink.truncate ?n = ?t"
    by (simp_all add: blink.extend_def)
  note d = chainedD [OF c]
  have l: "i < length (blink_array m)" using i(2) d(1) by simp
  have "mp1_ioctl_add b m = (0, ?m)" using False i(1) by (simp add: mp1_ioctl_add_def Let_def del: of_nat_numeral)
  moreover have "chained ?m (i # is)"
    using d(1,3) i chain_outside [OF d(2) i(3)] c loc n(1,2) by (auto simp: chained_def nth_list_update)
  moreover have "blinks_at ?m (i # is) = ?t # blinks_at m is"
    using l i(3) n(3) by (auto simp: blinks_at_def nth_list_update)
  ultimately show ?thesis using False by (intro exI conjI) (assumption, assumption, simp add: blinks_at_def del: of_nat_numeral)
qed

text \<open>Taking a structure out.\<close>

definition last_link :: "nat option \<Rightarrow> nat list \<Rightarrow> nat option" where
  "last_link cell us = (if us = [] then cell else Some (last us))"

lemma remove_prev_chain:
  "link_value cell m = Some p \<Longrightarrow> chain (blink_array m) p (us @ i # vs) \<Longrightarrow> i \<notin> set us \<Longrightarrow>
   remove_find_prev i cell m = Some (last_link cell us)"
proof (induction us arbitrary: cell p)
  case Nil
  then show ?case by (subst remove_find_prev.simps) (simp add: last_link_def)
next
  case (Cons u us)
  have l: "link_value (Some u) m = Some (b_next (blink_array m ! u))" using Cons.prems(2) by (simp add: link_value_def nth_opt_Some)
  have "remove_find_prev i (Some u) m = Some (last_link (Some u) us)"
    using Cons.prems by (intro Cons.IH [OF l]) simp_all
  then show ?case using Cons.prems by (subst remove_find_prev.simps) (simp add: last_link_def)
qed

lemma chain_unlink:
  "chain A p (us @ i # vs) \<Longrightarrow> distinct (us @ i # vs) \<Longrightarrow> us \<noteq> [] \<Longrightarrow>
   chain (A[last us := (A ! last us)\<lparr>b_next := b_next (A ! i)\<rparr>]) p (us @ vs)"
proof (induction us arbitrary: p)
  case (Cons u us)
  show ?case
  proof (cases "us = []")
    case True
    then have "chain A (b_next (A ! i)) vs" using Cons.prems(1) by simp
    then show ?thesis using True Cons.prems by (simp add: chain_outside)
  next
    case False
    then have "u \<noteq> last us" using Cons.prems(2) last_in_set by fastforce
    then show ?thesis using Cons False by simp
  qed
qed simp

lemma remove_chained:
  assumes c: "chained m (us @ i # vs)"
    and m': "m' = mp1_free i (set_link (last_link None us) (b_next (blink_array m ! i)) m)"
  shows "chained m' (us @ vs)" "blinks_at m' (us @ vs) = blinks_at m (us @ vs)" "screen_mem m' = screen_mem m"
proof -
  note d = chainedD [OF c]
  let ?A = "blink_array (set_link (last_link None us) (b_next (blink_array m ! i)) m)"
  have ix: "i \<notin> set us" "i \<notin> set vs" "distinct (us @ vs)" using d(3) by auto
  have ch: "chain ?A (mp1_list_head m') (us @ vs)"
  proof (cases "us = []")
    case True
    then show ?thesis using d(2) by (simp add: m' set_link_def last_link_def mp1_free_def)
  next
    case False
    then show ?thesis using chain_unlink [OF d(2,3) False] by (simp add: m' set_link_def last_link_def mp1_free_def)
  qed
  have A': "blink_array m' = ?A[i := zero_blink]" by (simp add: m' mp1_free_def)
  have lA: "length ?A = length (blink_array m)" by (simp add: set_link_def split: option.split)
  have same: "blink.truncate (?A ! k) = blink.truncate (blink_array m ! k)" for k
    by (cases "last us < length (blink_array m)") (auto simp: set_link_def last_link_def nth_list_update list_update_beyond split: option.split)
  then have loc: "b_location (?A ! k) = b_location (blink_array m ! k)" for k by (metis truncate_simps(1))
  have k: "blink_array m' ! k = (if k = i then zero_blink else ?A ! k)" if "k < BLINK_COUNT" for k
    using that d(1) lA by (simp add: A' nth_list_update)
  have "b_location (blink_array m' ! k) \<noteq> 0 \<longleftrightarrow> k \<in> set (us @ vs)" if "k < BLINK_COUNT" for k
    using that c ix k [OF that] loc [of k] by (auto simp: chained_def zero_blink_def)
  moreover have "chain (blink_array m') (mp1_list_head m') (us @ vs)" unfolding A' using chain_outside [OF ch] ix by simp
  ultimately show "chained m' (us @ vs)" using d(1) lA ix(3) by (simp add: chained_def A')
  show "blinks_at m' (us @ vs) = blinks_at m (us @ vs)" unfolding blinks_at_def
    by (rule map_cong [OF refl]) (use ix same k d(4) in auto)
  show "screen_mem m' = screen_mem m" by (simp add: m' mp1_free_def set_link_def split: option.split)
qed

lemma remove_request:
  assumes c: "chained m is"
  shows "\<exists>r m' is'. mp1_ioctl_remove arg m = Some (r, m') \<and> chained m' is' \<and>
    spec_ioctl (RTC_REMOVE arg) (blinks_at m is) (screen_mem m) = (r, blinks_at m' is', screen_mem m')"
proof (cases "List.find (\<lambda>i. b_location (blink_array m ! i) = ucast arg) is")
  case None
  then show ?thesis using c find_None_blinks [of m "ucast arg" "is"]
    by (auto simp: mp1_ioctl_remove_def find_helper_chain)
next
  case (Some i)
  from find_split [OF Some] obtain us vs where s: "is = us @ i # vs" "b_location (blink_array m ! i) = ucast arg"
    "\<forall>u \<in> set us. b_location (blink_array m ! u) \<noteq> ucast arg" by blast
  have c': "chained m (us @ i # vs)" using c s(1) by simp
  note d = chainedD [OF c']
  let ?m = "mp1_free i (set_link (last_link None us) (b_next (blink_array m ! i)) m)"
  have "remove_find_prev i None m = Some (last_link None us)"
    by (rule remove_prev_chain [OF _ d(2)]) (use d(3) in \<open>simp_all add: link_value_def\<close>)
  then have "mp1_ioctl_remove arg m = Some (0, ?m)" using Some by (simp add: mp1_ioctl_remove_def find_helper_chain [OF c])
  moreover note remove_chained [OF c' refl]
  moreover have "remove_first (at_loc (ucast arg)) (blinks_at m is) = blinks_at m (us @ vs)"
    unfolding s(1) blinks_at_def map_append list.map by (rule remove_first_split) (use s(2,3) in \<open>auto simp: at_loc_def\<close>)
  moreover have "\<exists>b \<in> set (blinks_at m is). at_loc (ucast arg) b"
    using s(1,2) by (auto simp: blinks_at_def at_loc_def)
  ultimately show ?thesis by (intro exI conjI) (assumption, assumption, simp)
qed

lemma chained_update:
  assumes "chained m is" "b_next (f (blink_array m ! j)) = b_next (blink_array m ! j)"
    "b_location (f (blink_array m ! j)) = b_location (blink_array m ! j)"
  shows "chained (update_blink j f m) is"
proof -
  have "b_next ((blink_array m)[j := f (blink_array m ! j)] ! k) = b_next (blink_array m ! k)"
    "b_location ((blink_array m)[j := f (blink_array m ! j)] ! k) = b_location (blink_array m ! k)" for k
    using assms(2,3) by (cases "j < length (blink_array m)"; cases "k = j"; simp add: list_update_beyond)+
  then show ?thesis using assms(1) chain_links [of "blink_array m" "mp1_list_head m" "is"] by (simp add: chained_def)
qed

lemma sync_request:
  assumes c: "chained m is"
  shows "\<exists>r m' is'. mp1_ioctl_sync arg m = Some (r, m') \<and> chained m' is' \<and>
    spec_ioctl (RTC_SYNC arg) (blinks_at m is) (screen_mem m) = (r, blinks_at m' is', screen_mem m')"
proof (cases "List.find (\<lambda>i. b_location (blink_array m ! i) = ucast (drop_bit 16 arg)) is")
  case None
  then show ?thesis using c by (auto simp: mp1_ioctl_sync_def find_helper_chain find_blinks)
next
  case i: (Some i)
  show ?thesis
  proof (cases "List.find (\<lambda>i. b_location (blink_array m ! i) = ucast (arg AND 0xFFFF)) is")
    case None
    then show ?thesis using c i by (auto simp: mp1_ioctl_sync_def find_helper_chain find_blinks)
  next
    case (Some j)
    let ?loc = "ucast (arg AND 0xFFFF) :: u16" and ?s = "blink_array m ! i"
    let ?f = "\<lambda>d. d\<lparr>b_on_length := b_on_length ?s, b_off_length := b_off_length ?s,
      b_countdown := b_countdown ?s, b_status := b_status ?s\<rparr> :: mp1_blink_struct"
    let ?g = "\<lambda>d. d\<lparr>b_on_length := b_on_length ?s, b_off_length := b_off_length ?s,
      b_countdown := b_countdown ?s, b_status := b_status ?s\<rparr> :: blink"
    let ?m = "update_blink j ?f m"
    from find_split [OF Some] obtain us vs where s: "is = us @ j # vs" "b_location (blink_array m ! j) = ?loc"
      "\<forall>u \<in> set us. b_location (blink_array m ! u) \<noteq> ?loc" by blast
    have j: "j < length (blink_array m)" "j \<notin> set us" "j \<notin> set vs"
      using chainedD(1,3) [OF c] chainedD(4) [OF c, of j] s(1) by auto
    have nth: "blink_array ?m ! k = (if k = j then ?f (blink_array m ! j) else blink_array m ! k)" for k using j(1) by simp
    then have d: "blink_array ?m ! j = ?f (blink_array m ! j)" by simp
    have c1: "chained ?m is" by (rule chained_update [OF c]) simp_all
    have "blink.truncate (?f b) = ?g (blink.truncate b)" for b by (simp add: blink.truncate_def)
    then have "blinks_at ?m is = update_first (at_loc ?loc) ?g (blinks_at m is)"
      unfolding s(1) blinks_at_def map_append list.map
      by (subst update_first_split) (use s(2,3) j(2,3) in \<open>auto simp: at_loc_def nth simp del: update_blink_simps(1)\<close>)
    moreover have "mp1_ioctl_sync arg m =
        Some (0, mp1_poke (b_off_char (blink_array m ! j)) (cell_of (b_location (blink_array m ! j))) ?m)"
      using i Some d by (simp add: mp1_ioctl_sync_def find_helper_chain [OF c] Let_def)
    moreover have "chained (mp1_poke c e ?m) is" "blinks_at (mp1_poke c e ?m) is = blinks_at ?m is" for c e
      using c1 chained_cong(1) [of "mp1_poke c e ?m" ?m] chained_cong(2) [of "mp1_poke c e ?m" ?m] by simp_all
    ultimately show ?thesis using i Some
      by (intro exI [of _ "0 :: i32"] exI conjI) (assumption, assumption, simp add: find_blinks)
  qed
qed

section \<open>The tick on the chain\<close>

definition show_tick :: "nat list \<Rightarrow> mp1_blink_struct list \<Rightarrow> (u32 \<Rightarrow> u8) \<Rightarrow> u32 \<Rightarrow> u8" where
  "show_tick is A = fold (\<lambda>i v. case snd (blink_tick (A ! i)) of None \<Rightarrow> v | Some c \<Rightarrow> v(cell_of (b_location (A ! i)) := c)) is"

lemma blink_tick_keeps [simp]:
  "b_location (fst (blink_tick b)) = b_location b" "b_next (fst (blink_tick c)) = b_next c"
  by (simp_all add: blink_tick_def Let_def)

lemma blink_tick_truncate:
  "fst (blink_tick (blink.truncate b)) = blink.truncate (fst (blink_tick b))" "snd (blink_tick (blink.truncate b)) = snd (blink_tick b)"
  by (simp_all add: blink_tick_def Let_def blink.truncate_def)

lemma tick_one_eq:
  "tick_one i m = m\<lparr>blink_array := (blink_array m)[i := fst (blink_tick (blink_array m ! i))],
     screen_mem := show_tick [i] (blink_array m) (screen_mem m)\<rparr>"
  by (simp add: tick_one_def show_tick_def mp1_poke_def update_blink_def split: prod.split option.split)
     (metis blink_tick_keeps(1) fst_conv)

lemma show_tick_cong: "(\<And>i. i \<in> set is \<Longrightarrow> A' ! i = A ! i) \<Longrightarrow> show_tick is A' = show_tick is A"
  unfolding show_tick_def by (rule ext, rule fold_cong) (simp_all cong: option.case_cong)

lemma tasklet_chain:
  "chain (blink_array m) p is \<Longrightarrow> distinct is \<Longrightarrow> tasklet_loop p m =
     Some (m\<lparr>blink_array := fold (\<lambda>i A. A[i := fst (blink_tick (A ! i))]) is (blink_array m),
       screen_mem := show_tick is (blink_array m) (screen_mem m)\<rparr>)"
proof (induction "is" arbitrary: p m)
  case Nil
  then show ?case by (subst tasklet_loop.simps) (simp add: show_tick_def)
next
  case (Cons i "is")
  let ?m = "tick_one i m"
  have i: "i < length (blink_array m)" "p = Some i" "i \<notin> set is" "distinct is"
    "chain (blink_array m) (b_next (blink_array m ! i)) is" using Cons.prems by simp_all
  have A: "blink_array ?m = (blink_array m)[i := fst (blink_tick (blink_array m ! i))]" by (simp add: tick_one_eq)
  have nx: "b_next (blink_array ?m ! i) = b_next (blink_array m ! i)" using i(1) by (simp add: A)
  have "chain (blink_array ?m) (b_next (blink_array m ! i)) is" unfolding A by (rule chain_outside [OF i(5,3)])
  then have ih: "tasklet_loop (b_next (blink_array ?m ! i)) ?m =
     Some (?m\<lparr>blink_array := fold (\<lambda>i A. A[i := fst (blink_tick (A ! i))]) is (blink_array ?m),
       screen_mem := show_tick is (blink_array ?m) (screen_mem ?m)\<rparr>)" unfolding nx by (rule Cons.IH [OF _ i(4)])
  have "show_tick is (blink_array ?m) = show_tick is (blink_array m)"
    by (rule show_tick_cong) (use i(3) in \<open>metis A nth_list_update_neq\<close>)
  then show ?case using i(1,2) ih by (subst tasklet_loop.simps) (simp add: Let_def tick_one_eq nth_opt_Some show_tick_def)
qed

lemma fold_ticks:
  "distinct is \<Longrightarrow> (\<And>i. i \<in> set is \<Longrightarrow> i < length A) \<Longrightarrow>
   length (fold (\<lambda>i A. A[i := fst (blink_tick (A ! i))]) is A) = length A \<and>
   (\<forall>k. fold (\<lambda>i A. A[i := fst (blink_tick (A ! i))]) is A ! k = (if k \<in> set is then fst (blink_tick (A ! k)) else A ! k))"
proof (induction "is" arbitrary: A)
  case (Cons i "is")
  then show ?case using Cons.IH [of "A[i := fst (blink_tick (A ! i))]"] by (auto simp: nth_list_update)
qed simp

lemma tick_request:
  assumes c: "chained m is"
  shows "\<exists>m'. mp1_rtc_tasklet m = Some m' \<and> chained m' is \<and> spec_tick (blinks_at m is) (screen_mem m) = (blinks_at m' is, screen_mem m')"
proof -
  note d = chainedD [OF c]
  let ?A = "fold (\<lambda>i A. A[i := fst (blink_tick (A ! i))]) is (blink_array m)"
  let ?m = "m\<lparr>blink_array := ?A, screen_mem := show_tick is (blink_array m) (screen_mem m)\<rparr>"
  have A: "length ?A = length (blink_array m)" "\<And>k. ?A ! k = (if k \<in> set is then fst (blink_tick (blink_array m ! k)) else blink_array m ! k)"
    using fold_ticks [OF d(3), of "blink_array m"] d(1,4) by auto
  have "mp1_rtc_tasklet m = Some ?m" unfolding mp1_rtc_tasklet_def by (rule tasklet_chain [OF d(2,3)])
  moreover have "chain ?A (mp1_list_head m) is" by (rule chain_links [OF d(2) A(1)]) (simp add: A(2))
  then have "chained ?m is" using c A by (simp add: chained_def)
  moreover have "blinks_at ?m is = map (\<lambda>b. fst (blink_tick b)) (blinks_at m is)" by (simp add: blinks_at_def A(2) blink_tick_truncate)
  moreover have "show_tick is (blink_array m) v =
      fold (\<lambda>b v. case snd (blink_tick b) of None \<Rightarrow> v | Some c \<Rightarrow> v(cell_of (b_location b) := c)) (blinks_at m is) v" for v
    by (simp add: show_tick_def blinks_at_def fold_map o_def blink_tick_truncate cong: option.case_cong)
  ultimately show ?thesis by (intro exI conjI) (assumption, assumption, simp add: spec_tick_def)
qed

section \<open>A run of the program's requests\<close>

datatype blink_event = Request request | Tick

fun run_event :: "blink_event \<Rightarrow> i32 list \<times> blink_mem \<Rightarrow> (i32 list \<times> blink_mem) option" where
  "run_event (Request q) (rs, m) = do { (r, m) \<leftarrow> mp1_ioctl q m; Some (rs @ [r], m) }"
| "run_event Tick (rs, m) = do { m \<leftarrow> mp1_rtc_tasklet m; Some (rs, m) }"

fun spec_event :: "blink_event \<Rightarrow> i32 list \<times> blink list \<times> (u32 \<Rightarrow> u8) \<Rightarrow> i32 list \<times> blink list \<times> (u32 \<Rightarrow> u8)" where
  "spec_event (Request q) (rs, bs, v) = (let (r, bs, v) = spec_ioctl q bs v in (rs @ [r], bs, v))"
| "spec_event Tick (rs, bs, v) = (let (bs, v) = spec_tick bs v in (rs, bs, v))"

text \<open>No blink is put into the upper left corner.\<close>

fun off_corner :: "blink_event \<Rightarrow> bool" where
  "off_corner (Request (RTC_ADD b)) = (b_location b \<noteq> 0)"
| "off_corner e = True"

definition fresh_mem :: "(u32 \<Rightarrow> u8) \<Rightarrow> blink_mem" where
  "fresh_mem v = \<lparr>blink_array = replicate BLINK_COUNT zero_blink, mp1_list_head = None, screen_mem = v\<rparr>"

lemma run_event_chained:
  assumes "chained m is" "off_corner e"
  shows "\<exists>rs' m' is'. run_event e (rs, m) = Some (rs', m') \<and> chained m' is' \<and>
    spec_event e (rs, blinks_at m is, screen_mem m) = (rs', blinks_at m' is', screen_mem m')"
proof (cases e)
  case Tick
  then show ?thesis using tick_request [OF assms(1)] by auto
next
  case (Request q)
  have "\<exists>r m' is'. mp1_ioctl q m = Some (r, m') \<and> chained m' is' \<and>
      spec_ioctl q (blinks_at m is) (screen_mem m) = (r, blinks_at m' is', screen_mem m')"
  proof (cases q)
    case (RTC_ADD b)
    then show ?thesis using add_chained [OF assms(1), of b] assms(2) Request by (auto simp del: spec_ioctl.simps)
  next
    case (RTC_REMOVE arg)
    then show ?thesis using remove_request [OF assms(1)] by simp
  next
    case (RTC_FIND loc)
    then show ?thesis using assms(1) find_None_blinks [of m loc "is"]
      by (cases "List.find (\<lambda>i. b_location (blink_array m ! i) = loc) is")
         (auto simp: mp1_ioctl_find_def find_helper_chain)
  next
    case (RTC_SYNC arg)
    then show ?thesis using sync_request [OF assms(1)] by simp
  qed
  then show ?thesis using Request by (auto simp: split: prod.splits)
qed

lemma run_events_chained:
  "chained m is \<Longrightarrow> list_all off_corner es \<Longrightarrow>
   \<exists>rs' m' is'. for_opt run_event es (rs, m) = Some (rs', m') \<and> chained m' is' \<and>
    fold spec_event es (rs, blinks_at m is, screen_mem m) = (rs', blinks_at m' is', screen_mem m')"
proof (induction es arbitrary: m "is" rs)
  case (Cons e es)
  obtain rs1 m1 is1 where s: "run_event e (rs, m) = Some (rs1, m1)" "chained m1 is1"
    "spec_event e (rs, blinks_at m is, screen_mem m) = (rs1, blinks_at m1 is1, screen_mem m1)"
    using run_event_chained [OF Cons.prems(1), of e rs] Cons.prems(2) by auto
  then show ?case using Cons.IH [OF s(2), of rs1] Cons.prems(2) by simp
qed auto

lemma fresh_chained: "chained (fresh_mem v) []"
  by (simp add: chained_def fresh_mem_def zero_blink_def)

text \<open>C13: for every run of requests and ticks from a cleared array, as long as no blink is put into the upper
  left corner, the linked list of \<^verbatim>\<open>blink.S\<close> in the array of \<^verbatim>\<open>fish.c\<close> never breaks and never leaves the array:
  every request returns what the list of blinks says, and at the end the structures along the links and the screen
  are those of the reference.\<close>

theorem blinks_refine:
  assumes "list_all off_corner es"
  shows "\<exists>rs m is. for_opt run_event es ([], fresh_mem v) = Some (rs, m) \<and> chain (blink_array m) (mp1_list_head m) is \<and>
    distinct is \<and> length is \<le> BLINK_COUNT \<and> fold spec_event es ([], [], v) = (rs, blinks_at m is, screen_mem m)"
proof -
  have "blinks_at (fresh_mem v) [] = []" "screen_mem (fresh_mem v) = v" by (simp_all add: blinks_at_def fresh_mem_def)
  then obtain rs m "is" where r: "for_opt run_event es ([], fresh_mem v) = Some (rs, m)" "chained m is"
    "fold spec_event es ([], [], v) = (rs, blinks_at m is, screen_mem m)"
    using run_events_chained [OF fresh_chained assms, of "[]" v] by auto
  show ?thesis using r(1,3) chainedD(2,3) [OF r(2)] chained_full [OF r(2)] by (intro exI conjI) (assumption | simp)+
qed

definition sample_blink :: "u16 \<Rightarrow> blink" where
  "sample_blink loc = \<lparr>b_location = loc, b_on_char = 73, b_off_char = 77, b_on_length = 7, b_off_length = 6,
     b_countdown = 0, b_status = 0\<rparr>"

theorem blinks_refine_witness:
  "\<exists>rs m is. for_opt run_event [Request (RTC_ADD (sample_blink 40)), Request (RTC_ADD (sample_blink 540)), Request (RTC_REMOVE 40), Tick]
      ([], fresh_mem (\<lambda>_. 32)) = Some (rs, m) \<and> rs = [0, 0, 0] \<and> map b_location (blinks_at m is) = [540]"
proof -
  let ?es = "[Request (RTC_ADD (sample_blink 40)), Request (RTC_ADD (sample_blink 540)), Request (RTC_REMOVE 40), Tick]"
  have "list_all off_corner ?es" by (simp add: sample_blink_def)
  from blinks_refine [OF this, of "\<lambda>_. 32"] obtain rs m "is" where r: "for_opt run_event ?es ([], fresh_mem (\<lambda>_. 32)) = Some (rs, m)"
    "fold spec_event ?es ([], [], \<lambda>_. 32) = (rs, blinks_at m is, screen_mem m)" by blast
  have "\<exists>v. fold spec_event ?es ([], [], \<lambda>_. 32) =
      ([0, 0, 0], [fst (blink_tick ((sample_blink 540)\<lparr>b_status := 1, b_countdown := 7\<rparr>))], v)"
    by (simp add: sample_blink_def at_loc_def spec_tick_def)
  then have e: "rs = [0, 0, 0]" "blinks_at m is = [fst (blink_tick ((sample_blink 540)\<lparr>b_status := 1, b_countdown := 7\<rparr>))]"
    using r(2) by auto
  then have l: "map b_location (blinks_at m is) = [540]" by (simp add: sample_blink_def)
  show ?thesis by (intro exI conjI) (rule r(1), rule e(1), rule l)
qed

section \<open>The corner\<close>

text \<open>A structure linked to itself keeps the tick walking for ever.\<close>

lemma tasklet_cycle:
  assumes "tasklet_loop p m = Some r"
  shows "p = Some i \<longrightarrow> b_next (blink_array m ! i) \<noteq> Some i"
proof (rule tasklet_loop.raw_induct [OF _ assms], intro impI notI)
  fix walk p m r
  assume ih: "\<And>p m r. walk p m = Some r \<Longrightarrow> p = Some i \<longrightarrow> b_next (blink_array m ! i) \<noteq> Some i"
    and body: "(case p of None \<Rightarrow> Some m | Some i \<Rightarrow> do {
      _ \<leftarrow> nth_opt (blink_array m) i; let m = tick_one i m; walk (b_next (blink_array m ! i)) m }) = Some r"
    and p: "p = Some i" and n: "b_next (blink_array m ! i) = Some i"
  have i: "i < length (blink_array m)" using body p by (auto simp: bind_eq_Some_conv)
  have n': "b_next (blink_array (tick_one i m) ! i) = Some i" using i n by (simp add: tick_one_eq)
  then have "walk (Some i) (tick_one i m) = Some r" using body p i by (simp add: nth_opt_Some Let_def)
  then show False using ih n' by blast
qed

text \<open>C37: a blink in the upper left corner breaks the list: \<^verbatim>\<open>mp1_malloc\<close> takes location 0 for the mark of a free
  structure, so the next blink gets the same structure and is linked to itself; both requests report success, and the
  next tick of the clock never returns.\<close>

theorem corner_blink_hangs:
  assumes "b_location b0 = 0" "b_location b1 < of_nat BLINK_COUNT"
  shows "\<exists>m. for_opt run_event [Request (RTC_ADD b0), Request (RTC_ADD b1)] ([], fresh_mem v) = Some ([0, 0], m) \<and>
    mp1_rtc_tasklet m = None"
proof -
  have first: "mp1_malloc m = Some 0" if "b_location (blink_array m ! 0) = 0" for m
    using that unfolding mp1_malloc_def by (subst upt_conv_Cons) simp_all
  define m1 where "m1 = snd (mp1_ioctl_add b0 (fresh_mem v))"
  define m2 where "m2 = snd (mp1_ioctl_add b1 m1)"
  have l: "b_location (blink_array (fresh_mem v) ! 0) = 0" "length (blink_array (fresh_mem v)) = BLINK_COUNT"
    by (simp_all add: fresh_mem_def zero_blink_def)
  have s1: "mp1_ioctl_add b0 (fresh_mem v) = (0, m1)" "mp1_list_head m1 = Some 0" "length (blink_array m1) = BLINK_COUNT"
      "b_location (blink_array m1 ! 0) = 0"
    using assms(1) l first [OF l(1)] by (simp_all add: m1_def mp1_ioctl_add_def Let_def blink.extend_def)
  have s2: "mp1_ioctl_add b1 m1 = (0, m2)" "mp1_list_head m2 = Some 0" "b_next (blink_array m2 ! 0) = Some 0"
    using assms(2) s1(2,3) first [OF s1(4)] by (simp_all add: not_le [symmetric] m2_def mp1_ioctl_add_def Let_def blink.extend_def)
  have "mp1_rtc_tasklet m2 = None"
  proof (cases "mp1_rtc_tasklet m2")
    case (Some r)
    then show ?thesis using tasklet_cycle [of "Some 0" m2 r 0] s2(2,3) by (simp add: mp1_rtc_tasklet_def)
  qed
  then show ?thesis using s1(1) s2(1) by simp
qed

theorem corner_blink_hangs_witness:
  "\<exists>m. for_opt run_event [Request (RTC_ADD (sample_blink 0)), Request (RTC_ADD (sample_blink 40))] ([], fresh_mem (\<lambda>_. 32)) = Some ([0, 0], m) \<and>
    mp1_rtc_tasklet m = None"
  using corner_blink_hangs [of "sample_blink 0" "sample_blink 40" "\<lambda>_. 32"] by (simp add: sample_blink_def)

end
