(* ===== verification/Fish.thy ===== *)
theory Fish imports Blink UserProgs CString begin

text \<open>
  The program \<^verbatim>\<open>src/fish/fish.c\<close>: two text files become blinking characters on the screen, which the ticks of the
  clock move from one picture to the other. The screen is the page that \<^verbatim>\<open>vidmap\<close> gives the program.
\<close>

section \<open>Memory routines\<close>

definition fish_memset :: "u32 \<Rightarrow> u8 \<Rightarrow> i32 \<Rightarrow> (u32 \<Rightarrow> u8) \<Rightarrow> u32 \<Rightarrow> u8" where
  "fish_memset memory c n mem = fold (\<lambda>i mem. mem(memory + of_nat i := c)) [0..<nat (sint n)] mem"

definition fish_memcpy :: "u32 \<Rightarrow> u32 \<Rightarrow> i32 \<Rightarrow> (u32 \<Rightarrow> u8) \<Rightarrow> u32 \<Rightarrow> u8" where
  "fish_memcpy dest src n mem = fold (\<lambda>i mem. mem(dest + of_nat i := mem (src + of_nat i))) [0..<nat (sint n)] mem"

section \<open>Two pictures\<close>

text \<open>The next character of a line, unless its end has been read: the character, the end of file, the system.\<close>

definition read_col :: "'s os \<Rightarrow> i32 \<Rightarrow> u8 \<Rightarrow> bool \<Rightarrow> 's \<Rightarrow> (u8 \<times> bool \<times> 's) option" where
  "read_col os fd c eof s =
     (if c \<noteq> newline then do {
        (num_bytes, buf, s) \<leftarrow> os_read os fd [c] 1 s;
        c \<leftarrow> nth_opt buf 0;
        Some (if num_bytes = 0 then (newline, True, s) else (c, eof, s))
      } else Some (c, eof, s))"

definition seen :: "u8 \<Rightarrow> bool" where
  "seen c \<longleftrightarrow> c \<noteq> 32 \<and> c \<noteq> newline"

text \<open>\<open>junk\<close> are the members that the program does not set.\<close>

definition frame_blink :: "blink \<Rightarrow> nat \<Rightarrow> nat \<Rightarrow> u8 \<Rightarrow> u8 \<Rightarrow> blink" where
  "frame_blink junk row col c0 c1 = junk\<lparr>b_on_length := 15, b_off_length := 15,
     b_on_char := if c0 = newline then 32 else c0, b_off_char := if c1 = newline then 32 else c1,
     b_location := of_nat (row * 80 + col + 40)\<rparr>"

partial_function (option) add_cols ::
    "'s os \<Rightarrow> i32 \<Rightarrow> i32 \<Rightarrow> blink \<Rightarrow> nat \<Rightarrow> nat \<Rightarrow> u8 \<times> u8 \<times> bool \<times> bool \<times> blink_mem \<times> 's \<Rightarrow> (bool \<times> bool \<times> blink_mem \<times> 's) option" where
  "add_cols os fd0 fd1 junk row col v = (case v of (c0, c1, eof0, eof1, m, s) \<Rightarrow> do {
     (c0, eof0, s) \<leftarrow> read_col os fd0 c0 eof0 s;
     (c1, eof1, s) \<leftarrow> read_col os fd1 c1 eof1 s;
     if c0 = newline \<and> c1 = newline then Some (eof0, eof1, m, s)
     else do {
       m \<leftarrow> (if seen c0 \<or> seen c1 then map_option snd (mp1_ioctl (RTC_ADD (frame_blink junk row col c0 c1)) m) else Some m);
       add_cols os fd0 fd1 junk row (Suc col) (c0, c1, eof0, eof1, m, s)
     }
   })"

text \<open>After a row: a file at its end is closed, again for each further row.\<close>

definition end_row :: "'s os \<Rightarrow> i32 \<Rightarrow> bool \<Rightarrow> 's \<Rightarrow> (u8 \<times> 's) option" where
  "end_row os fd eof s = (if eof then do { (_, s) \<leftarrow> os_close os fd s; Some (newline, s) } else Some (48, s))"

partial_function (option) add_rows ::
    "'s os \<Rightarrow> i32 \<Rightarrow> i32 \<Rightarrow> blink \<Rightarrow> nat \<Rightarrow> u8 \<times> u8 \<times> bool \<times> bool \<times> blink_mem \<times> 's \<Rightarrow> (blink_mem \<times> 's) option" where
  "add_rows os fd0 fd1 junk row v = (case v of (c0, c1, eof0, eof1, m, s) \<Rightarrow>
     if \<not> eof0 \<or> \<not> eof1 then do {
       (eof0, eof1, m, s) \<leftarrow> add_cols os fd0 fd1 junk row 0 (c0, c1, eof0, eof1, m, s);
       (c0, s) \<leftarrow> end_row os fd0 eof0 s;
       (c1, s) \<leftarrow> end_row os fd1 eof1 s;
       add_rows os fd0 fd1 junk (Suc row) (c0, c1, eof0, eof1, m, s)
     } else Some (m, s))"

text \<open>\<open>Inl\<close>: the program has been ended with \<^verbatim>\<open>ece391_halt\<close>.\<close>

definition add_frames :: "'s os \<Rightarrow> u8 list \<Rightarrow> u8 list \<Rightarrow> blink \<Rightarrow> blink_mem \<Rightarrow> 's \<Rightarrow> (i32 + blink_mem \<times> 's) option" where
  "add_frames os f0 f1 junk m s = do {
     (fd0, s) \<leftarrow> os_open os f0 s;
     if sint fd0 < 0 then Some (Inl (-1))
     else do {
       (fd1, s) \<leftarrow> os_open os f1 s;
       if sint fd1 < 0 then Some (Inl (-1))
       else map_option Inr (add_rows os fd0 fd1 junk 0 (48, 48, False, False, m, s))
     }
   }"

section \<open>The program\<close>

text \<open>\<open>vmem_base_addr\<close> is at the address \<open>p\<close>; \<open>base\<close> is what the call leaves there.\<close>

definition mp1_set_video_mode :: "'s os \<Rightarrow> u32 \<Rightarrow> ('s \<Rightarrow> u32) \<Rightarrow> 's \<Rightarrow> (u32 \<times> 's) option" where
  "mp1_set_video_mode os p base s = do { (r, s) \<leftarrow> os_vidmap os p s; Some (if r = -1 then 0 else base s, s) }"

abbreviation WAIT :: nat where "WAIT \<equiv> 100"

definition wait_tick :: "'s os \<Rightarrow> i32 \<Rightarrow> u8 list \<Rightarrow> blink_mem \<times> 's \<Rightarrow> (blink_mem \<times> 's) option" where
  "wait_tick os rtc_fd garbage = (\<lambda>(m, s). do {
     (_, _, s) \<leftarrow> os_read os rtc_fd garbage 4 s;
     m \<leftarrow> mp1_rtc_tasklet m;
     Some (m, s)
   })"

definition wait_ticks :: "'s os \<Rightarrow> i32 \<Rightarrow> u8 list \<Rightarrow> blink_mem \<times> 's \<Rightarrow> (blink_mem \<times> 's) option" where
  "wait_ticks os rtc_fd garbage = for_opt (\<lambda>_. wait_tick os rtc_fd garbage) [0..<WAIT]"

definition frame0 :: "u8 list" where "frame0 = msg ''frame0.txt''"
definition frame1 :: "u8 list" where "frame1 = msg ''frame1.txt''"

definition title_blink :: "blink \<Rightarrow> blink" where
  "title_blink junk = junk\<lparr>b_on_char := 73, b_off_char := 77, b_on_length := 7, b_off_length := 6, b_location := 6 * 80 + 60\<rparr>"

definition fish_requests :: "'s os \<Rightarrow> i32 \<Rightarrow> u8 list \<Rightarrow> request list \<Rightarrow> blink_mem \<times> 's \<Rightarrow> (blink_mem \<times> 's) option" where
  "fish_requests os rtc_fd garbage = for_opt (\<lambda>q (m, s). do {
     (_, m) \<leftarrow> mp1_ioctl q m;
     wait_ticks os rtc_fd garbage (m, s)
   })"

text \<open>\<open>junk\<close> and \<open>junk1\<close>: the structures of \<^verbatim>\<open>add_frames\<close> and of \<^verbatim>\<open>main\<close>, not initialised.\<close>

definition fish :: "'s os \<Rightarrow> u32 \<Rightarrow> ('s \<Rightarrow> u32) \<Rightarrow> blink \<Rightarrow> blink \<Rightarrow> u8 list \<Rightarrow> (u32 \<Rightarrow> u8) \<Rightarrow> 's \<Rightarrow> (i32 \<times> blink_mem \<times> 's) option" where
  "fish os p base junk junk1 garbage video s = do {
     let m = fresh_mem video;
     (vmem, s) \<leftarrow> mp1_set_video_mode os p base s;
     if vmem = 0 then Some (-1, m, s)
     else do {
       (rtc_fd, s) \<leftarrow> os_open os (msg ''rtc'') s;
       added \<leftarrow> add_frames os frame0 frame1 junk m s;
       case added of
         Inl status \<Rightarrow> Some (status, m, s)
       | Inr (m, s) \<Rightarrow> do {
           (_, s) \<leftarrow> os_write os rtc_fd (le32 32) 4 s;
           (m, s) \<leftarrow> wait_ticks os rtc_fd garbage (m, s);
           (m, s) \<leftarrow> fish_requests os rtc_fd garbage
             [RTC_ADD (title_blink junk1), RTC_SYNC (push_bit 16 40 OR (6 * 80 + 60)), RTC_REMOVE (6 * 80 + 60)] (m, s);
           (_, s) \<leftarrow> os_close os rtc_fd s;
           Some (0, m, s)
         }
     }
   }"

section \<open>The reference: pictures as lists of rows\<close>

fun rows_of :: "u8 list \<Rightarrow> u8 list list" where
  "rows_of [] = [[]]"
| "rows_of (c # cs) = (if c = newline then [] # rows_of cs else (c # hd (rows_of cs)) # tl (rows_of cs))"

text \<open>The character of a row at a column; behind its end it counts as the newline.\<close>

definition col_of :: "u8 list \<Rightarrow> u8" where
  "col_of l = (case l of [] \<Rightarrow> newline | c # _ \<Rightarrow> c)"

definition row_of :: "u8 list list \<Rightarrow> u8 list" where
  "row_of R = (case R of [] \<Rightarrow> [] | l # _ \<Rightarrow> l)"

function row_blinks :: "blink \<Rightarrow> nat \<Rightarrow> nat \<Rightarrow> u8 list \<Rightarrow> u8 list \<Rightarrow> blink list" where
  "row_blinks junk row col l0 l1 =
     (if l0 = [] \<and> l1 = [] then []
      else (if seen (col_of l0) \<or> seen (col_of l1) then [frame_blink junk row col (col_of l0) (col_of l1)] else [])
        @ row_blinks junk row (Suc col) (tl l0) (tl l1))"
  by pat_completeness auto
termination by (relation "measure (\<lambda>(_, _, _, l0, l1). length l0 + length l1)") (auto simp: neq_Nil_conv)

declare row_blinks.simps [simp del]

function frame_blinks :: "blink \<Rightarrow> nat \<Rightarrow> u8 list list \<Rightarrow> u8 list list \<Rightarrow> blink list" where
  "frame_blinks junk row R0 R1 =
     (if R0 = [] \<and> R1 = [] then []
      else row_blinks junk row 0 (row_of R0) (row_of R1) @ frame_blinks junk (Suc row) (tl R0) (tl R1))"
  by pat_completeness auto
termination by (relation "measure (\<lambda>(_, _, R0, R1). length R0 + length R1)") (auto simp: neq_Nil_conv)

declare frame_blinks.simps [simp del]

definition add_all :: "blink list \<Rightarrow> blink_mem \<Rightarrow> blink_mem" where
  "add_all bs m = fold (\<lambda>b m. snd (mp1_ioctl_add b m)) bs m"

lemma rows_nonempty [simp]: "rows_of r \<noteq> []"
  by (cases r) auto

lemma rows_newline: "l \<in> set (rows_of r) \<Longrightarrow> newline \<notin> set l"
proof (induction r arbitrary: l)
  case (Cons c r)
  then show ?case by (cases "rows_of r") (auto split: if_splits)
qed simp

text \<open>The first row and what is left behind its newline.\<close>

lemma rows_split:
  "r = hd (rows_of r) @ (if tl (rows_of r) = [] then [] else newline # drop (Suc (length (hd (rows_of r)))) r) \<and>
   (tl (rows_of r) \<noteq> [] \<longrightarrow> rows_of (drop (Suc (length (hd (rows_of r)))) r) = tl (rows_of r))"
proof (induction r)
  case (Cons c r)
  then show ?case by (cases "c = newline") (auto split: if_splits)
qed simp

lemma add_all_append: "add_all (xs @ ys) m = add_all ys (add_all xs m)"
  by (simp add: add_all_def)

section \<open>Reading two files\<close>

text \<open>What the program relies on: \<open>left n M s\<close> says that the open files have \<open>M\<close> left to read and that \<open>n\<close> more
  can be opened.\<close>

locale files_os =
  fixes os :: "'s os" and named :: "u8 list \<Rightarrow> u8 list option" and handle :: "i32 \<Rightarrow> bool"
    and left :: "nat \<Rightarrow> (i32 \<Rightarrow> u8 list option) \<Rightarrow> 's \<Rightarrow> bool"
  assumes opens: "left (Suc n) M s \<Longrightarrow> named name = Some c \<Longrightarrow>
      \<exists>fd s'. os_open os name s = Some (fd, s') \<and> 0 \<le> sint fd \<and> handle fd \<and> M fd = None \<and> left n (M(fd \<mapsto> c)) s'"
    and reads: "left n M s \<Longrightarrow> M fd = Some r \<Longrightarrow>
      \<exists>s'. os_read os fd [ch] 1 s = Some (of_nat (length (take 1 r)), take 1 r @ drop (length (take 1 r)) [ch], s') \<and>
        left n (M(fd \<mapsto> drop 1 r)) s'"
    and closes: "left n M s \<Longrightarrow> handle fd \<Longrightarrow> \<exists>r s'. os_close os fd s = Some (r, s') \<and> left n (M(fd := None)) s'"
begin

text \<open>A file in the middle of a row: \<open>l\<close> is left of the row; at its end \<open>e\<close> says whether the file has ended and \<open>x\<close>
  is what is left of it.\<close>

definition in_row :: "u8 list \<Rightarrow> bool \<Rightarrow> u8 list option \<Rightarrow> u8 \<Rightarrow> bool \<Rightarrow> u8 list option \<Rightarrow> bool" where
  "in_row l e x c eof X \<longleftrightarrow> newline \<notin> set l \<and>
     (if c = newline then l = [] \<and> eof = e \<and> X = x
      else if e then X = Some l \<and> x = Some []
      else eof = e \<and> (\<exists>t. X = Some (l @ newline # t) \<and> x = Some t))"

lemma read_col_row:
  assumes "left n M s" "in_row l e x c eof (M fd)"
  shows "\<exists>eof' X s'. read_col os fd c eof s = Some (col_of l, eof', s') \<and> left n (M(fd := X)) s' \<and>
    in_row (tl l) e x (col_of l) eof' X"
proof (cases "c = newline")
  case True
  then show ?thesis using assms by (auto simp: read_col_def in_row_def col_of_def intro!: exI [of _ "M fd"])
next
  case False
  obtain r where r: "M fd = Some r" "r = (if e then l else l @ newline # the x)" "x = Some (if e then [] else the x)" "\<not> e \<longrightarrow> eof = e"
    using assms(2) False by (auto simp: in_row_def split: if_splits)
  obtain s' where s': "os_read os fd [c] 1 s = Some (of_nat (length (take 1 r)), take 1 r @ drop (length (take 1 r)) [c], s')"
    "left n (M(fd \<mapsto> drop 1 r)) s'" using reads [OF assms(1) r(1)] by blast
  have nl: "newline \<notin> set l" using assms(2) by (simp add: in_row_def)
  show ?thesis
  proof (cases l)
    case Nil
    then show ?thesis using s' r False by (cases e) (auto simp: read_col_def in_row_def col_of_def nth_opt_Some intro!: exI [of _ "Some []"] exI [of _ "Some (the x)"])
  next
    case (Cons a l')
    then show ?thesis using s' r nl False
      by (auto simp: read_col_def in_row_def col_of_def nth_opt_Some intro!: exI [of _ "Some (drop 1 r)"])
  qed
qed

lemma col_of_newline: "newline \<notin> set l \<Longrightarrow> col_of l = newline \<longleftrightarrow> l = []"
  by (cases l) (auto simp: col_of_def)

lemma in_row_plain: "in_row l e x c eof X \<Longrightarrow> newline \<notin> set l"
  by (simp add: in_row_def)

lemma in_row_end: "in_row [] e x newline eof X \<Longrightarrow> eof = e \<and> X = x"
  by (simp add: in_row_def)

lemma add_cols_row:
  assumes "left n M s" "fd0 \<noteq> fd1" "in_row l0 e0 x0 c0 eof0 (M fd0)" "in_row l1 e1 x1 c1 eof1 (M fd1)"
  shows "\<exists>s'. add_cols os fd0 fd1 junk row col (c0, c1, eof0, eof1, m, s) =
      Some (e0, e1, add_all (row_blinks junk row col l0 l1) m, s') \<and> left n (M(fd0 := x0, fd1 := x1)) s'"
  using assms
proof (induction "length l0 + length l1" arbitrary: l0 l1 M s c0 c1 eof0 eof1 col m rule: less_induct)
  case less
  obtain eofa X s1 where s1: "read_col os fd0 c0 eof0 s = Some (col_of l0, eofa, s1)" "left n (M(fd0 := X)) s1"
    "in_row (tl l0) e0 x0 (col_of l0) eofa X" using read_col_row [OF less.prems(1,3)] by blast
  have "in_row l1 e1 x1 c1 eof1 ((M(fd0 := X)) fd1)" using less.prems(2,4) by simp
  from read_col_row [OF s1(2) this] obtain eofb Y s2 where
    s2: "read_col os fd1 c1 eof1 s1 = Some (col_of l1, eofb, s2)" "left n (M(fd0 := X, fd1 := Y)) s2"
      "in_row (tl l1) e1 x1 (col_of l1) eofb Y" by blast
  have nl: "newline \<notin> set l0" "newline \<notin> set l1" using less.prems(3,4) in_row_plain by blast+
  note cn = col_of_newline [OF nl(1)] col_of_newline [OF nl(2)]
  show ?case
  proof (cases "l0 = [] \<and> l1 = []")
    case True
    then have "eofa = e0 \<and> X = x0" "eofb = e1 \<and> Y = x1"
      using s1(3) s2(3) in_row_end by (simp_all add: col_of_def)
    then show ?thesis using True s1(1) s2(1,2)
      by (subst add_cols.simps) (simp add: row_blinks.simps [of junk row col] add_all_def col_of_def)
  next
    case False
    let ?b = "if seen (col_of l0) \<or> seen (col_of l1) then [frame_blink junk row col (col_of l0) (col_of l1)] else []"
    have "length (tl l0) + length (tl l1) < length l0 + length l1" using False by (cases l0; cases l1) auto
    from less.hyps [OF this s2(2) less.prems(2), of "col_of l0" eofa "col_of l1" eofb "Suc col" "add_all ?b m"] obtain s' where
      s': "add_cols os fd0 fd1 junk row (Suc col) (col_of l0, col_of l1, eofa, eofb, add_all ?b m, s2) =
        Some (e0, e1, add_all (row_blinks junk row (Suc col) (tl l0) (tl l1)) (add_all ?b m), s')"
      "left n (M(fd0 := X, fd1 := Y, fd0 := x0, fd1 := x1)) s'"
      using s1(3) s2(3) less.prems(2) by auto
    have "M(fd0 := X, fd1 := Y, fd0 := x0, fd1 := x1) = M(fd0 := x0, fd1 := x1)" by auto
    moreover have "row_blinks junk row col l0 l1 = ?b @ row_blinks junk row (Suc col) (tl l0) (tl l1)"
      using False by (subst row_blinks.simps) auto
    ultimately show ?thesis using s1(1) s2(1) s' False cn
      by (subst add_cols.simps) (auto simp: add_all_append add_all_def)
  qed
qed

text \<open>A file between two rows: \<open>R\<close> are the rows left.\<close>

definition at_row :: "u8 list list \<Rightarrow> u8 \<Rightarrow> bool \<Rightarrow> u8 list option \<Rightarrow> bool" where
  "at_row R c eof X \<longleftrightarrow> (if R = [] then c = newline \<and> eof \<and> X = None
     else c \<noteq> newline \<and> \<not> eof \<and> (\<exists>r. X = Some r \<and> rows_of r = R))"

lemma at_row_in_row:
  assumes "at_row R c eof X"
  shows "\<exists>x. in_row (row_of R) (tl R = []) x c eof X \<and>
    at_row (tl R) (if tl R = [] then newline else 48) (tl R = []) (if tl R = [] then None else x)"
proof (cases R)
  case Nil
  then show ?thesis using assms by (auto simp: at_row_def in_row_def row_of_def)
next
  case (Cons l ls)
  then obtain r where r: "X = Some r" "rows_of r = R" and c: "c \<noteq> newline" "\<not> eof" using assms by (auto simp: at_row_def)
  note sp = rows_split [of r, unfolded r(2)]
  have "newline \<notin> set l" using rows_newline [of l r] r(2) Cons by simp
  moreover have "r = l @ newline # drop (Suc (length l)) r" "rows_of (drop (Suc (length l)) r) = ls" if "ls \<noteq> []"
    using sp Cons that by simp_all
  moreover have "r = l" if "ls = []" using sp Cons that by simp
  ultimately show ?thesis using Cons r(1) c
    by (cases "ls = []")
       (auto simp: in_row_def at_row_def row_of_def intro!: exI [of _ "Some (if ls = [] then [] else drop (Suc (length l)) r)"])
qed

lemma end_row_closes:
  assumes "left n M s" "handle fd" "M fd = X"
  shows "\<exists>s'. end_row os fd e s = Some (if e then newline else 48, s') \<and> left n (M(fd := if e then None else X)) s'"
  using closes [OF assms(1,2)] assms by (cases e) (auto simp: end_row_def)

lemma add_rows_frames:
  assumes "left n M s" "fd0 \<noteq> fd1" "handle fd0" "handle fd1" "at_row R0 c0 eof0 (M fd0)" "at_row R1 c1 eof1 (M fd1)"
  shows "\<exists>s'. add_rows os fd0 fd1 junk row (c0, c1, eof0, eof1, m, s) =
      Some (add_all (frame_blinks junk row R0 R1) m, s') \<and> left n (M(fd0 := None, fd1 := None)) s'"
  using assms
proof (induction "length R0 + length R1" arbitrary: R0 R1 M s c0 c1 eof0 eof1 row m rule: less_induct)
  case less
  have eof: "eof0 = (R0 = [])" "eof1 = (R1 = [])" using less.prems(5,6) by (simp_all add: at_row_def split: if_splits)
  show ?case
  proof (cases "R0 = [] \<and> R1 = []")
    case True
    then have "M(fd0 := None, fd1 := None) = M" using less.prems(5,6) by (auto simp: at_row_def)
    then show ?thesis using True eof less.prems(1)
      by (subst add_rows.simps) (simp add: frame_blinks.simps [of junk row] add_all_def)
  next
    case False
    let ?e0 = "tl R0 = []" and ?e1 = "tl R1 = []"
    let ?m = "add_all (row_blinks junk row 0 (row_of R0) (row_of R1)) m"
    obtain x0 where x0: "in_row (row_of R0) ?e0 x0 c0 eof0 (M fd0)"
      "at_row (tl R0) (if ?e0 then newline else 48) ?e0 (if ?e0 then None else x0)" using at_row_in_row [OF less.prems(5)] by blast
    obtain x1 where x1: "in_row (row_of R1) ?e1 x1 c1 eof1 (M fd1)"
      "at_row (tl R1) (if ?e1 then newline else 48) ?e1 (if ?e1 then None else x1)" using at_row_in_row [OF less.prems(6)] by blast
    obtain s1 where s1: "add_cols os fd0 fd1 junk row 0 (c0, c1, eof0, eof1, m, s) = Some (?e0, ?e1, ?m, s1)"
      "left n (M(fd0 := x0, fd1 := x1)) s1"
      using add_cols_row [OF less.prems(1,2) x0(1) x1(1), of junk row 0 m] by blast
    obtain s2 where s2: "end_row os fd0 ?e0 s1 = Some (if ?e0 then newline else 48, s2)"
      "left n (M(fd0 := x0, fd1 := x1, fd0 := if ?e0 then None else x0)) s2"
      using end_row_closes [OF s1(2) less.prems(3), of x0 ?e0] less.prems(2) by fastforce
    obtain s3 where s3: "end_row os fd1 ?e1 s2 = Some (if ?e1 then newline else 48, s3)"
      "left n (M(fd0 := x0, fd1 := x1, fd0 := if ?e0 then None else x0, fd1 := if ?e1 then None else x1)) s3"
      using end_row_closes [OF s2(2) less.prems(4), of x1 ?e1] less.prems(2) by fastforce
    have M: "M(fd0 := x0, fd1 := x1, fd0 := if ?e0 then None else x0, fd1 := if ?e1 then None else x1) =
        M(fd0 := if ?e0 then None else x0, fd1 := if ?e1 then None else x1)" using less.prems(2) by auto
    have "length (tl R0) + length (tl R1) < length R0 + length R1" using False by (cases R0; cases R1) auto
    from less.hyps [OF this s3(2) less.prems(2-4), of "if ?e0 then newline else 48" ?e0 "if ?e1 then newline else 48" ?e1 "Suc row" ?m]
    obtain s' where s': "add_rows os fd0 fd1 junk (Suc row)
        (if ?e0 then newline else 48, if ?e1 then newline else 48, ?e0, ?e1, ?m, s3) =
        Some (add_all (frame_blinks junk (Suc row) (tl R0) (tl R1)) ?m, s')"
      "left n (M(fd0 := None, fd1 := None)) s'"
      using x0(2) x1(2) less.prems(2) by (auto simp: M fun_upd_twist)
    have "frame_blinks junk row R0 R1 = row_blinks junk row 0 (row_of R0) (row_of R1) @ frame_blinks junk (Suc row) (tl R0) (tl R1)"
      using False by (subst frame_blinks.simps) auto
    then show ?thesis using s1(1) s2(1) s3(1) s' False eof
      by (subst add_rows.simps) (auto simp: add_all_append)
  qed
qed

lemma add_frames_adds:
  assumes "left 2 M s" "named f0 = Some p0" "named f1 = Some p1"
  shows "\<exists>s'. add_frames os f0 f1 junk m s = Some (Inr (add_all (frame_blinks junk 0 (rows_of p0) (rows_of p1)) m, s')) \<and> left 0 M s'"
proof -
  have two: "left (Suc (Suc 0)) M s" using assms(1) by (simp add: numeral_2_eq_2)
  obtain fd0 s1 where s1: "os_open os f0 s = Some (fd0, s1)" "0 \<le> sint fd0" "handle fd0" "M fd0 = None"
    "left (Suc 0) (M(fd0 \<mapsto> p0)) s1" using opens [OF two assms(2)] by blast
  obtain fd1 s2 where s2: "os_open os f1 s1 = Some (fd1, s2)" "0 \<le> sint fd1" "handle fd1" "(M(fd0 \<mapsto> p0)) fd1 = None"
    "left 0 (M(fd0 \<mapsto> p0, fd1 \<mapsto> p1)) s2" using opens [OF s1(5) assms(3)] by blast
  have ne: "fd0 \<noteq> fd1" using s2(4) by auto
  have r: "at_row (rows_of p0) 48 False ((M(fd0 \<mapsto> p0, fd1 \<mapsto> p1)) fd0)" "at_row (rows_of p1) 48 False ((M(fd0 \<mapsto> p0, fd1 \<mapsto> p1)) fd1)"
    using ne by (simp_all add: at_row_def)
  obtain s' where s': "add_rows os fd0 fd1 junk 0 (48, 48, False, False, m, s2) =
      Some (add_all (frame_blinks junk 0 (rows_of p0) (rows_of p1)) m, s')"
    "left 0 (M(fd0 \<mapsto> p0, fd1 \<mapsto> p1, fd0 := None, fd1 := None)) s'"
    using add_rows_frames [OF s2(5) ne s1(3) s2(3) r] by blast
  have "M(fd0 \<mapsto> p0, fd1 \<mapsto> p1, fd0 := None, fd1 := None) = M" using s1(4) s2(4) ne by auto
  then show ?thesis using s1(1,2) s2(1,2) s' by (simp add: add_frames_def)
qed

end

end
