(* ===== verification/FishKernel.thy ===== *)
theory FishKernel imports Fish KernelCat begin

text \<open>
  The kernel as the system that \<^verbatim>\<open>fish\<close> expects: files that are open side by side and read byte by byte.
\<close>

definition free_slots :: "nat \<Rightarrow> kstate \<Rightarrow> nat set" where
  "free_slots i s = {k. 2 \<le> k \<and> k < 8 \<and> f_present (files_of i s ! k) = 0}"

definition files_left :: "(u8 list \<Rightarrow> u8 list option) \<Rightarrow> nat \<Rightarrow> u32 \<Rightarrow> nat \<Rightarrow> nat \<Rightarrow> (i32 \<Rightarrow> u8 list option) \<Rightarrow> kstate \<Rightarrow> bool" where
  "files_left named i b off n M s \<longleftrightarrow> user_ok i b off s \<and> n \<le> card (free_slots i s) \<and>
     (\<forall>name c. named name = Some c \<longrightarrow> length name < 1024 \<and> file_named (disk s) name = Some c) \<and>
     (\<forall>fd r. M fd = Some r \<longrightarrow> (\<exists>c p. file_opened i b off fd c p s \<and> r = drop p c))"

definition user_handle :: "i32 \<Rightarrow> bool" where
  "user_handle fd \<longleftrightarrow> 2 \<le> unat fd \<and> unat fd < 8"

lemma files_leftD: "files_left named i b off n M s \<Longrightarrow> M fd = Some r \<Longrightarrow> \<exists>c p. file_opened i b off fd c p s \<and> r = drop p c"
  by (simp add: files_left_def)

lemma finite_slots [simp]: "finite (free_slots i s)"
  by (rule finite_subset [of _ "{..<8}"]) (auto simp: free_slots_def)

text \<open>A call that changes one descriptor.\<close>

lemma file_opened_other:
  assumes "file_opened i b off fd c p s" "user_ok i b off s'" "disk s' = disk s" "files_of i s' = (files_of i s)[k := f]" "k \<noteq> unat fd"
  shows "file_opened i b off fd c p s'"
  using assms by (simp add: file_opened_def Let_def)

lemma slots_update:
  assumes "files_of i s' = (files_of i s)[k := f]" "length (files_of i s) = 8" "2 \<le> k" "k < 8"
  shows "free_slots i s' = (if f_present f = 0 then insert k (free_slots i s) else free_slots i s - {k})"
  using assms by (auto simp: free_slots_def nth_list_update)

lemma file_opened_handle: "file_opened i b off fd c p s \<Longrightarrow> user_ok i b off s \<and> user_handle fd \<and> f_present (files_of i s ! unat fd) \<noteq> 0"
  by (simp add: file_opened_def user_handle_def Let_def)

lemma kernel_files_open:
  assumes l: "files_left named i b off (Suc n) M s" and nm: "named name = Some c"
  shows "\<exists>fd s'. os_open (kernel_os env irqs (user_at off)) name s = Some (fd, s') \<and> 0 \<le> sint fd \<and> user_handle fd \<and>
    M fd = None \<and> files_left named i b off n (M(fd \<mapsto> c)) s'"
proof -
  have ok: "user_ok i b off s" and n: "length name < 1024" "file_named (disk s) name = Some c" and card: "Suc n \<le> card (free_slots i s)"
    using l nm by (auto simp: files_left_def)
  define k where "k = (LEAST k. k \<in> free_slots i s)"
  have "free_slots i s \<noteq> {}" using card by auto
  then have kf: "k \<in> free_slots i s" "\<And>j. j \<in> free_slots i s \<Longrightarrow> k \<le> j"
    unfolding k_def using LeastI [of "\<lambda>k. k \<in> free_slots i s"] Least_le [of "\<lambda>k. k \<in> free_slots i s"] by blast+
  have k8: "2 \<le> k" "k < 8" "unat (of_nat k :: i32) = k" using kf(1) unat_small_fd by (simp_all add: free_slots_def)
  have nf: "next_fd (files_of i s) k" using kf by (force simp: next_fd_def free_slots_def)
  obtain s' f where s': "os_open (kernel_os env irqs (user_at off)) name s = Some (of_nat k, s')"
    "file_opened i b off (of_nat k) c 0 s'" "disk s' = disk s" "files_of i s' = (files_of i s)[k := f]"
    using kernel_open_at [OF ok nf n, of env irqs] by blast
  have ok': "user_ok i b off s'" and l8: "length (files_of i s) = 8" using file_opened_handle [OF s'(2)] user_pcb [OF ok] by blast+
  have f: "f_present f \<noteq> 0" using file_opened_handle [OF s'(2)] s'(4) k8 l8 by simp
  have "card (free_slots i s') = card (free_slots i s) - 1" using slots_update [OF s'(4) l8 k8(1,2)] f kf(1) by simp
  then have c': "n \<le> card (free_slots i s')" using card by simp
  have other: "\<exists>c p. file_opened i b off fd c p s' \<and> r = drop p c" if m: "M fd = Some r" "fd \<noteq> of_nat k" for fd r
  proof -
    obtain c p where o: "file_opened i b off fd c p s" "r = drop p c" using files_leftD [OF l m(1)] by blast
    have "k \<noteq> unat fd" using m(2) k8(3) unsigned_word_eqI by metis
    then show ?thesis using file_opened_other [OF o(1) ok' s'(3,4)] o(2) by blast
  qed
  have "M (of_nat k) = None"
  proof (rule ccontr)
    assume "M (of_nat k) \<noteq> None"
    then obtain c p where "file_opened i b off (of_nat k) c p s" using files_leftD [OF l] by blast
    then show False using file_opened_handle k8(3) kf(1) by (force simp: free_slots_def)
  qed
  moreover have "files_left named i b off n (M(of_nat k \<mapsto> c)) s'"
    unfolding files_left_def
  proof (intro conjI allI impI)
    fix fd r assume m: "(M(of_nat k \<mapsto> c)) fd = Some r"
    show "\<exists>c p. file_opened i b off fd c p s' \<and> r = drop p c"
    proof (cases "fd = of_nat k")
      case True
      then show ?thesis using m s'(2) by (intro exI [of _ c] exI [of _ 0]) simp
    qed (use m other in simp)
  qed (use ok' c' l s'(3) in \<open>auto simp: files_left_def\<close>)
  moreover have "0 \<le> sint (of_nat k :: i32)" using k8(2) by (subst sint_small) simp_all
  ultimately show ?thesis using s'(1) k8 by (intro exI conjI) (assumption | simp add: user_handle_def)+
qed

lemma kernel_files_read:
  assumes l: "files_left named i b off n M s" and r: "M fd = Some r"
  shows "\<exists>s'. os_read (kernel_os env irqs (user_at off)) fd [ch] 1 s =
      Some (of_nat (length (take 1 r)), take 1 r @ drop (length (take 1 r)) [ch], s') \<and> files_left named i b off n (M(fd \<mapsto> drop 1 r)) s'"
proof -
  obtain c p where o: "file_opened i b off fd c p s" "r = drop p c" using files_leftD [OF l r] by blast
  note h = file_opened_handle [OF o(1)]
  have fd: "2 \<le> unat fd" "unat fd < 8" using h by (simp_all add: user_handle_def)
  have l8: "length (files_of i s) = 8" using user_pcb h by blast
  let ?bs = "take 1 (drop p c)" and ?f = "advance (of_nat (length (take 1 (drop p c)))) (files_of i s ! unat fd)"
  obtain s' where s': "os_read (kernel_os env irqs (user_at off)) fd [ch] (of_nat 1) s =
      Some (of_nat (length ?bs), ?bs @ drop (length ?bs) [ch], s')" "file_opened i b off fd c (p + length ?bs) s'"
    "disk s' = disk s" "files_of i s' = (files_of i s)[unat fd := ?f]"
    using kernel_read_at [OF o(1), of "[ch]" 1 ?bs env irqs] by auto
  have ok': "user_ok i b off s'" using file_opened_handle [OF s'(2)] by blast
  have "free_slots i s' = free_slots i s"
    using slots_update [OF s'(4) l8 fd] h by (auto simp: advance_def free_slots_def)
  moreover have "drop 1 r = drop (p + length ?bs) c" using o(2) by (cases "drop p c") (simp_all add: drop_Suc drop_tl)
  moreover have "\<exists>c p. file_opened i b off fd' c p s' \<and> r' = drop p c" if m: "M fd' = Some r'" "fd' \<noteq> fd" for fd' r'
  proof -
    obtain c p where o': "file_opened i b off fd' c p s" "r' = drop p c" using files_leftD [OF l m(1)] by blast
    have "unat fd \<noteq> unat fd'" using m(2) unsigned_word_eqI by metis
    then show ?thesis using file_opened_other [OF o'(1) ok' s'(3,4)] o'(2) by blast
  qed
  ultimately have "files_left named i b off n (M(fd \<mapsto> drop 1 r)) s'"
    using l ok' s'(2,3) unfolding files_left_def by (auto split: if_splits)
  then show ?thesis using s'(1) o(2) by simp
qed

text \<open>A close of any number from 2 to 7 returns.\<close>

lemma ops_close_user:
  assumes ok: "user_ok i b off s"
  shows "\<exists>r s1. ops_close ops fd s = Some (r, s1) \<and> user_ok i b off s1 \<and> files_of i s1 = files_of i s \<and> disk s1 = disk s"
proof (cases "ops = rtc_ops")
  case True
  let ?s1 = "s\<lparr>pcbs := (pcbs s)[i := (pcbs s ! i)\<lparr>p_rtc := 0\<rparr>]\<rparr>"
  have i: "i < length (pcbs s)" using ok by (simp add: user_ok_def)
  have "ops_close ops fd s = Some (0, ?s1)" using True user_ok_current [OF ok] by (simp add: rtc_close_def map_pcb_eq i)
  moreover have f: "files_of i ?s1 = files_of i s" using i by (simp add: files_of_def)
  have "user_ok i b off ?s1" using ok f window_cong [of ?s1 s]
    by (auto simp: user_ok_def on_stack_of_def on_screen_def cursor_ok_def current_def get_current_pcb_def)
  ultimately show ?thesis using f by auto
next
  case False
  then show ?thesis using ok by (cases ops) (simp_all add: null_close_def terminal_close_def file_close_def dir_close_def)
qed

lemma kernel_files_close:
  assumes l: "files_left named i b off n M s" and h: "user_handle fd"
  shows "\<exists>r s'. os_close (kernel_os env irqs (user_at off)) fd s = Some (r, s') \<and> files_left named i b off n (M(fd := None)) s'"
proof -
  have ok: "user_ok i b off s" using l by (simp add: files_left_def)
  have fd: "2 \<le> unat fd" "unat fd < 8" using h by (simp_all add: user_handle_def)
  let ?f = "files_of i s ! unat fd"
  have l8: "length (files_of i s) = 8" using user_pcb [OF ok] by blast
  have bad: "\<not> bad_fd 2 fd" using good_fd [OF fd] by simp
  obtain r s' f where s': "sys_close fd s = Some (r, s')" "user_ok i b off s'" "disk s' = disk s"
    "files_of i s' = (files_of i s)[unat fd := f]" "f = ?f \<or> f_present f = 0"
  proof (cases "f_present ?f = 0")
    case True
    then have "sys_close fd s = Some (-1, s)"
      using user_ok_current [OF ok] get_file_user [OF ok fd(2)] bad by (simp add: sys_close_def)
    then show ?thesis using that [of "-1" s ?f] ok by simp
  next
    case False
    obtain r s1 where s1: "ops_close (f_ops ?f) fd s = Some (r, s1)" "user_ok i b off s1" "files_of i s1 = files_of i s" "disk s1 = disk s"
      using ops_close_user [OF ok] by blast
    let ?s2 = "set_files i ((files_of i s)[unat fd := ?f\<lparr>f_present := 0\<rparr>]) s1"
    have i: "i < length (pcbs s1)" "std_ok (files_of i s)" using s1(2) ok by (simp_all add: user_ok_def)
    have c: "sys_close fd s = finish_close i fd (r, s1)"
      using user_ok_current [OF ok] get_file_user [OF ok fd(2)] bad False s1(1) by (simp add: sys_close_def)
    show ?thesis
    proof (cases "r = 0")
      case True
      have "user_ok i b off ?s2" by (rule user_ok_files [OF s1(2)]) (use i(2) fd in \<open>simp add: std_ok_def\<close>)
      moreover have "sys_close fd s = Some (0, ?s2)" using c True map_file_user [OF s1(2) fd(2)] s1(3) by (simp add: finish_close_def)
      moreover have "disk ?s2 = disk s" using s1(4) by (simp add: set_files_def)
      moreover have "files_of i ?s2 = (files_of i s)[unat fd := ?f\<lparr>f_present := 0\<rparr>]" using i(1) by simp
      ultimately show ?thesis using that [of 0 ?s2 "?f\<lparr>f_present := 0\<rparr>"] by simp
    next
      case False
      then show ?thesis using that [of "-1" s1 ?f] c s1 by (simp add: finish_close_def)
    qed
  qed
  have "free_slots i s \<subseteq> free_slots i s'" using slots_update [OF s'(4) l8 fd] s'(5) fd by (auto simp: free_slots_def split: if_splits)
  then have "card (free_slots i s) \<le> card (free_slots i s')" by (rule card_mono [OF finite_slots])
  moreover have "\<exists>c p. file_opened i b off fd' c p s' \<and> r' = drop p c" if m: "M fd' = Some r'" "fd' \<noteq> fd" for fd' r'
  proof -
    obtain c p where o': "file_opened i b off fd' c p s" "r' = drop p c" using files_leftD [OF l m(1)] by blast
    have "unat fd \<noteq> unat fd'" using m(2) unsigned_word_eqI by metis
    then show ?thesis using file_opened_other [OF o'(1) s'(2,3,4)] o'(2) by blast
  qed
  ultimately have "files_left named i b off n (M(fd := None)) s'"
    using l s'(2,3) unfolding files_left_def by (auto split: if_splits)
  then show ?thesis using s'(1) by (simp add: kernel_os_def)
qed

interpretation kernel_files: files_os "kernel_os env irqs (user_at off)" named user_handle "files_left named i b off"
  for env irqs i b off named
proof (unfold_locales, goal_cases)
  case 1 then show ?case by (rule kernel_files_open)
next
  case 2 then show ?case by (rule kernel_files_read)
next
  case 3 then show ?case by (rule kernel_files_close)
qed

text \<open>C14: \<^verbatim>\<open>add_frames\<close> of \<^verbatim>\<open>fish\<close> on the kernel: with two free descriptors and two regular files, the loops over
  both files end, and the blinks put on the screen are exactly those of the two pictures laid over each other: for
  each row and column where one of them shows a character, a blink of both, a row that has ended in one file
  counting as blank.\<close>

theorem add_frames_overlays:
  assumes "user_ok i b off s" "2 \<le> card (free_slots i s)" "length f0 < 1024" "length f1 < 1024"
    and "file_named (disk s) f0 = Some p0" "file_named (disk s) f1 = Some p1"
  shows "\<exists>s'. add_frames (kernel_os env irqs (user_at off)) f0 f1 junk m s =
    Some (Inr (add_all (frame_blinks junk 0 (rows_of p0) (rows_of p1)) m, s'))"
proof -
  let ?named = "\<lambda>name. if name = f0 then Some p0 else if name = f1 then Some p1 else None"
  have "files_left ?named i b off 2 (\<lambda>_. None) s" using assms by (simp add: files_left_def)
  moreover have "?named f1 = Some p1" using assms(5,6) by auto
  ultimately show ?thesis using kernel_files.add_frames_adds [of ?named i b off "\<lambda>_. None" s f0 p0 f1 p1 env irqs junk m] by auto
qed

text \<open>Both pictures the file \<^verbatim>\<open>ab\<close> of the sample disk.\<close>

theorem add_frames_overlays_witness:
  "\<exists>s'. add_frames (kernel_os plain_env [] 0x8001000) [97, 98] [97, 98] (sample_blink 0) (fresh_mem (\<lambda>_. 32)) user_state =
    Some (Inr (add_all (frame_blinks (sample_blink 0) 0 (rows_of (file_content sample_fs 1)) (rows_of (file_content sample_fs 1)))
      (fresh_mem (\<lambda>_. 32)), s'))"
proof -
  have "free_slots 3 user_state \<supseteq> {2, 3}" by (auto simp: free_slots_def sample_pcb_def sample_file_def)
  then have "card {2, 3 :: nat} \<le> card (free_slots 3 user_state)" by (rule card_mono [OF finite_slots])
  moreover have "file_named (disk user_state) [97, 98] = Some (file_content sample_fs 1)"
    by (simp add: file_named_def dir_names_sample sample_entries sample_dentry_def)
  ultimately show ?thesis
    using add_frames_overlays [OF user_state_ok, of "[97, 98]" "[97, 98]"] by simp
qed

end
