(* ===== verification/Spec2Isabelle.thy ===== *)
theory Spec2Isabelle imports CString Grep BootStart FileTypes Prompt FishKernel begin

text \<open>
  Illinix 391 is a small operating system for the x86: a kernel in \<^verbatim>\<open>src/student-distrib\<close> and user programs in
  \<^verbatim>\<open>src/syscalls\<close> and \<^verbatim>\<open>src/fish\<close>. This development translates the C code to functions over explicit states and proves what the
  kernel promises to its programs and what its own parts promise to each other. This theory only collects the
  others.

  \<^bold>\<open>Conventions.\<close> Machine integers are words of the width of the C type (theory \<^verbatim>\<open>Prelude\<close>), so wrap-around, shifts and
  masks are those of the code; comparisons of signed variables are on \<^verbatim>\<open>sint\<close>. A C struct is a record, a pointer to an
  element of a static array is an index, and a pointer into memory is a 32-bit word. A function that may touch memory
  it has no right to (an index out of an array, an address that no page maps), or that may wait for ever, has a
  result of an option type: None stands for undefined behaviour, a page fault or no return, and each property that
  says what the code returns also says that it returns. Error codes of the code are values, minus one as a word.
  Memory that the C code leaves uninitialised is a parameter (\<^verbatim>\<open>junk\<close>, \<^verbatim>\<open>frame\<close>, the buffers of the user programs).
  Devices are functions from the history of port accesses to the next answer, so a property about a driver holds
  for every device that behaves as its hypothesis says.

  \<^bold>\<open>The parts of the kernel and where they are.\<close>

  \<^bold>\<open>Machine.\<close> \<^verbatim>\<open>PortIO\<close> has the port instructions of \<^verbatim>\<open>lib.h\<close> over a recorded history. \<^verbatim>\<open>I8259\<close> is \<^verbatim>\<open>i8259.c\<close>: the two mask
  bytes and the commands sent. \<^verbatim>\<open>Bytes\<close> has the little-endian codec that casts amount to. \<^verbatim>\<open>CMem\<close> is the memory routines
  of \<^verbatim>\<open>lib.c\<close> with their assembly loops, \<^verbatim>\<open>CString\<close> the string routines of \<^verbatim>\<open>lib.c\<close> and of \<^verbatim>\<open>src/syscalls/ece391support.c\<close>
  over one memory. \<^verbatim>\<open>Paging\<close> is the entries of \<^verbatim>\<open>x86_desc.h\<close>, the tables of \<^verbatim>\<open>paging.c\<close> and the page walk of the
  processor; every load and store of the kernel through a pointer goes through it.

  \<^bold>\<open>Disk and files.\<close> \<^verbatim>\<open>Ata\<close> is the sector driver of \<^verbatim>\<open>filesys.c\<close>, port access by port access. \<^verbatim>\<open>FileSys\<close> has the on-disk
  structures of \<^verbatim>\<open>filesys.h\<close>, the directory, the inode and data block maps, reading and writing of \<^verbatim>\<open>filesys.c\<close>; \<^verbatim>\<open>FileRead\<close>,
  \<^verbatim>\<open>Directory\<close> and \<^verbatim>\<open>FileWrite\<close> prove what they do to the contents of files, and \<^verbatim>\<open>FileInit\<close> is \<^verbatim>\<open>file_system_init\<close>, with the
  casts as functions from bytes that are inverse to the encoding.

  \<^bold>\<open>Kernel state and devices.\<close> \<^verbatim>\<open>KernelState\<close> is the one state of the kernel: process control blocks, terminals, console,
  tables, memory, task state, stack pointer, interrupt flag, masks, ports, disk. \<^verbatim>\<open>Console\<close> is the screen of \<^verbatim>\<open>lib.c\<close>
  (\<^verbatim>\<open>clear\<close>, \<^verbatim>\<open>scroll\<close>, \<^verbatim>\<open>putc\<close>, \<^verbatim>\<open>puts\<close>, \<^verbatim>\<open>echo\<close>, the cursor), \<^verbatim>\<open>Printf\<close> the formatted output, \<^verbatim>\<open>Drivers\<close> the functions behind
  the six tables \<^verbatim>\<open>file_operations_t\<close>, \<^verbatim>\<open>Rtc\<close> \<^verbatim>\<open>rtc.c\<close>, \<^verbatim>\<open>Keyboard\<close> \<^verbatim>\<open>keyboard.c\<close>, \<^verbatim>\<open>Idt\<close> the interrupt table and exception
  handlers of \<^verbatim>\<open>idt.c\<close>. \<^verbatim>\<open>KmallocInit\<close> and \<^verbatim>\<open>Kmalloc\<close> are \<^verbatim>\<open>malloc.c\<close>.

  \<^bold>\<open>Processes and calls.\<close> \<^verbatim>\<open>Descriptors\<close> is \<^verbatim>\<open>read\<close>, \<^verbatim>\<open>write\<close>, \<^verbatim>\<open>open\<close> and \<^verbatim>\<open>close\<close> of \<^verbatim>\<open>syscall.c\<close>; \<^verbatim>\<open>Process\<close> is \<^verbatim>\<open>execute\<close> and
  \<^verbatim>\<open>halt\<close>; \<^verbatim>\<open>Syscall\<close> the remaining calls and the dispatch table of \<^verbatim>\<open>linkage.S\<close>; \<^verbatim>\<open>FileCalls\<close> and \<^verbatim>\<open>UserCalls\<close> prove what
  \<^verbatim>\<open>create\<close>, \<^verbatim>\<open>delete\<close>, \<^verbatim>\<open>getargs\<close> and \<^verbatim>\<open>vidmap\<close> do. \<^verbatim>\<open>Sched\<close> is \<^verbatim>\<open>sched.c\<close> with the terminal switch of \<^verbatim>\<open>lib.c\<close>. \<^verbatim>\<open>KernelMap\<close>,
  \<^verbatim>\<open>Forest\<close>, \<^verbatim>\<open>Scheduling\<close>, \<^verbatim>\<open>KernelSteps\<close> and \<^verbatim>\<open>Shells\<close> carry the proof that scheduling and process creation keep the
  kernel's invariant. \<^verbatim>\<open>FileTypes\<close> shows for every entry of the dispatch table that the tables of open files stay well-typed.

  \<^bold>\<open>The start.\<close> \<^verbatim>\<open>Boot\<close> translates \<^verbatim>\<open>entry\<close> of \<^verbatim>\<open>kernel.c\<close>: the boot loader's record of \<^verbatim>\<open>multiboot.h\<close>, the segment
  descriptors of \<^verbatim>\<open>x86_desc.h\<close>, the order of the initialisations and \<^verbatim>\<open>launch_tests\<close> of \<^verbatim>\<open>tests.c\<close>. \<^verbatim>\<open>BootInfo\<close> proves that
  printing the record changes nothing else and mounts the module, whose bytes then are the image; \<^verbatim>\<open>BootStart\<close> composes this with the initialisation
  routines of the other theories into what holds when the idle loop is reached.

  \<^bold>\<open>User programs.\<close> \<^verbatim>\<open>UserProgs\<close> has the programs of \<^verbatim>\<open>src/syscalls\<close> over a record \<^verbatim>\<open>os\<close> of the system calls they make,
  \<^verbatim>\<open>SysErr\<close> the test program \<^verbatim>\<open>ece391syserr.c\<close>, \<^verbatim>\<open>Grep\<close> the search program \<^verbatim>\<open>ece391grep.c\<close>, \<^verbatim>\<open>TestProgs\<close> the programs
  \<^verbatim>\<open>ece391counter.c\<close> and \<^verbatim>\<open>ece391pingpong.c\<close>. \<^verbatim>\<open>Blink\<close> is the list of blinking characters of \<^verbatim>\<open>src/fish/blink.S\<close> in the array and with
  the allocator of \<^verbatim>\<open>fish.c\<close>, \<^verbatim>\<open>Fish\<close> the rest of that program. \<^verbatim>\<open>UserKernel\<close> builds the record \<^verbatim>\<open>os\<close> from the kernel's own calls;
  \<^verbatim>\<open>KernelCat\<close>, \<^verbatim>\<open>Grep\<close>, \<^verbatim>\<open>Prompt\<close> (programs that ask, with the keyboard interrupts of \<^verbatim>\<open>Typing\<close> while they wait) and
  \<^verbatim>\<open>FishKernel\<close> run programs on it.

  \<^bold>\<open>How the parts interact.\<close> A program's call goes through the dispatch table to a function of \<^verbatim>\<open>syscall.c\<close>, which finds
  the current control block from the stack pointer (\<^verbatim>\<open>get_current_pcb\<close>), the open file in it, and the driver function in
  that file's table. Drivers end in the file system, the console or the clock. Interrupt handlers run between any two
  steps of a program and inside the loops that wait for them: a function that waits takes the list of handlers that
  run meanwhile. The timer interrupt saves the stack pointer of one process and returns on the stack of another; the
  model represents the frames that matter (saved frame pointer and return address) in memory, so a context switch is
  reading them back.

  \<^bold>\<open>What the lemmas show.\<close> Reading, writing and lookup in the file system are given by the bytes of files
  (\<^verbatim>\<open>file_bytes\<close>) and by the list of names; the console by a grid of characters with a cursor; printf by a function
  from the format and arguments to characters; the keyboard by a line editor; process creation, termination and
  switching by a forest of processes with three leaves on the three terminals; the linked list of \<^verbatim>\<open>blink.S\<close> by a list
  of blinks, and two pictures by their rows. The interfaces between parts are
  locales: \<^verbatim>\<open>file_driver\<close> (the contract of the six operation tables),
  \<^verbatim>\<open>process_kernel\<close> (a step relation over an abstraction to forests), \<^verbatim>\<open>reader_os\<close>, \<^verbatim>\<open>search_os\<close>, \<^verbatim>\<open>careful_os\<close>,
  \<^verbatim>\<open>prompt_os\<close>, \<^verbatim>\<open>written_os\<close> and \<^verbatim>\<open>files_os\<close> (what a program may expect of the system). Each is interpreted on the code's definitions, and the properties use the facts
  obtained so. The invariant of the scheduler (\<^verbatim>\<open>sched_ok\<close>) holds after \<^verbatim>\<open>initiate_shells\<close> and is kept by every interrupt and
  call; with it, each running process owns its memory page, its kernel stack and the video page of its terminal.

  \<^bold>\<open>Bounds and loops that may not end.\<close> A bounded loop is a recursion on its bound. There is no fuel: the loops that wait for
  the disk, those whose end depends on the contents of memory and those of programs that run until their input ends are
  partial functions into an option type, None standing for no return as well, and each property about such a loop
  shows that it returns (or, for \<^verbatim>\<open>corner_blink_hangs\<close>, that it does not). The number 5000 in \<^verbatim>\<open>file_system_init\<close> and
  \<^verbatim>\<open>flush_image\<close> is the sector of the drive where the file system begins.

  \<^bold>\<open>The file system and memory.\<close> In the code the boot block, the inodes and the data blocks lie in the memory of the boot
  module. The state keeps them as a record (\<^verbatim>\<open>disk\<close>) beside physical memory. The start keeps the two together: mounting
  stores the image in memory, and after the heap has been cleared and used the record is what the pointers find there
  (\<^verbatim>\<open>reread\<close>), so that a module in the lowest 4 MB, which \<^verbatim>\<open>kmalloc_init\<close> clears, would be lost. In the running kernel the two
  are not connected: a store to the module's memory through another pointer is outside the model.

  \<^bold>\<open>Hypotheses.\<close> Addresses of linker symbols, the code's own addresses and the answers of the devices are parameters.
  The well-formedness predicates (\<^verbatim>\<open>wf_fs\<close>, \<^verbatim>\<open>wf_layout\<close>, \<^verbatim>\<open>sched_ok\<close>, \<^verbatim>\<open>ready\<close> and the like) are established by the
  initialisation routines or shown to hold of a sample state, and each property with a hypothesis is applied to a
  concrete state by the theorem that follows it.

  \<^bold>\<open>Not modelled.\<close> The translation lookaside buffer and its flushes (the walk always reads the tables), and the
  permission bits of pages (they are kept in the entries and not checked, because the kernel runs with full
  privileges). The assembly of \<^verbatim>\<open>boot.S\<close> and of \<^verbatim>\<open>x86_desc.S\<close> (mode switch, the tables that \<^verbatim>\<open>entry\<close> fills),
  the register save of \<^verbatim>\<open>linkage.S\<close> apart from the dispatch and the frames, and \<^verbatim>\<open>lidt\<close>, \<^verbatim>\<open>lldt\<close> and \<^verbatim>\<open>ltr\<close>, which load
  processor registers that no C code reads. The kernel's self tests in \<^verbatim>\<open>tests.c\<close>, which print and are not called
  in the shipped configuration apart from \<^verbatim>\<open>launch_tests\<close>. The header \<^verbatim>\<open>debug.h\<close> has macros that print. The test program
  \<^verbatim>\<open>ece391sigtest.c\<close>, because the kernel delivers no signals (the two calls are stubs); \<^verbatim>\<open>ece391emulate.c\<close> runs programs on Linux
  and is no part of the system. The tools \<^verbatim>\<open>createfs\<close> and \<^verbatim>\<open>elfconvert\<close> are binaries without source, and the image files under
  \<^verbatim>\<open>src/fsdir\<close> are data.
\<close>

end
